(* ===== verification/Prelude.thy ===== *)
theory Prelude
  imports Complex_Main
begin

text \<open>
  Shared vocabulary of the development: the types that stand for the TypeScript
  built-ins the modelled modules use, the arithmetic of their time and retry
  computations, and generic facts on maps, lists and cardinalities that the
  component theories share.

  Conventions. Millisecond timestamps, counters and limits are \<open>int\<close> (the code
  keeps them inside the exactly representable range of a double). A number whose
  finiteness the code itself tests is a \<open>js_number\<close>. \<open>undefined\<close> and \<open>null\<close> are
  \<open>None\<close>; a JavaScript \<open>Map\<close> whose order is never observed is a partial map.
\<close>

named_theorems component_defs \<open>operations of the components, for unfolding\<close>
named_theorems inv_intros \<open>preservation lemmas of the component invariants\<close>

type_synonym millis = int
type_synonym seconds = int

section \<open>JavaScript numbers\<close>

datatype js_number = NaN | Infinity | NegInfinity | Fin rat

fun isFinite :: "js_number \<Rightarrow> bool" where
  "isFinite (Fin _) = True"
| "isFinite _ = False"

definition max_safe_integer :: int where
  "max_safe_integer = 9007199254740991"

fun isSafeInteger :: "js_number \<Rightarrow> bool" where
  "isSafeInteger (Fin q) =
     (snd (quotient_of q) = 1 \<and> \<bar>fst (quotient_of q)\<bar> \<le> max_safe_integer)"
| "isSafeInteger _ = False"

text \<open>The integer a safe-integer number denotes.\<close>

fun the_int :: "js_number \<Rightarrow> int" where
  "the_int (Fin q) = fst (quotient_of q)"
| "the_int _ = 0"

abbreviation js_int :: "int \<Rightarrow> js_number" where
  "js_int n \<equiv> Fin (of_int n)"

lemma quotient_of_of_int [simp]: "quotient_of (of_int n) = (n, 1)"
  by (metis quotient_of_int Rat.of_int_def)

lemma isSafeInteger_js_int [simp]:
  "isSafeInteger (js_int n) = (\<bar>n\<bar> \<le> max_safe_integer)"
  by simp

text \<open>The value of a finite number.\<close>

definition rat_of :: "js_number \<Rightarrow> rat" where
  "rat_of x = (case x of Fin q \<Rightarrow> q | _ \<Rightarrow> 0)"

section \<open>Rounding\<close>

text \<open>\<open>Math.ceil (a / b)\<close> on integers.\<close>

definition ceil_div :: "int \<Rightarrow> int \<Rightarrow> int" where
  "ceil_div a b = - ((- a) div b)"

lemma ceil_div_ge: "0 < b \<Longrightarrow> a \<le> ceil_div a b * b"
  unfolding ceil_div_def
  by (metis div_mult_mod_eq minus_mult_left neg_le_iff_le pos_mod_sign minus_minus
      le_add_same_cancel1)

lemma ceil_div_le: "0 < b \<Longrightarrow> a \<le> b * k \<Longrightarrow> ceil_div a b \<le> k"
proof -
  assume b: "0 < b" and a: "a \<le> b * k"
  have "b * (- k) \<le> - a" using a by simp
  then have "- k \<le> (- a) div b" using b by (metis div_mult_self1_is_m less_le_not_le nonzero_mult_div_cancel_left zdiv_mono1)
  then show ?thesis by (simp add: ceil_div_def)
qed

text \<open>\<open>Math.max(1, Math.ceil(ms / 1000))\<close>, the Retry-After computation used throughout.\<close>

definition retry_seconds :: "millis \<Rightarrow> seconds" where
  "retry_seconds ms = max 1 (ceil_div ms 1000)"

lemma retry_seconds_pos [simp]: "1 \<le> retry_seconds ms" "0 < retry_seconds ms"
  by (simp_all add: retry_seconds_def)

lemma retry_seconds_covers: "ms \<le> retry_seconds ms * 1000"
proof -
  have "ms \<le> ceil_div ms 1000 * 1000" by (rule ceil_div_ge) simp
  then show ?thesis by (simp add: retry_seconds_def max_def)
qed

lemma retry_seconds_le: "ms \<le> 1000 * k \<Longrightarrow> 1 \<le> k \<Longrightarrow> retry_seconds ms \<le> k"
  using ceil_div_le [of 1000 ms k] by (simp add: retry_seconds_def)

section \<open>Maps, lists and cardinalities\<close>

definition get_or :: "('k \<rightharpoonup> 'v) \<Rightarrow> 'k \<Rightarrow> 'v \<Rightarrow> 'v" where
  "get_or m k d = (case m k of Some v \<Rightarrow> v | None \<Rightarrow> d)"

lemma get_or_simps [simp]:
  "m k = Some v \<Longrightarrow> get_or m k d = v"
  "m k = None \<Longrightarrow> get_or m k d = d"
  by (simp_all add: get_or_def)

lemma get_or_upd [simp]: "get_or (m(k \<mapsto> v)) j d = (if j = k then v else get_or m j d)"
  by (simp add: get_or_def)

text \<open>A counting map keeps no entry for zero.\<close>

definition count_entry :: "nat \<Rightarrow> int option" where
  "count_entry n = (if n = 0 then None else Some (int n))"

lemma count_entry_simps [simp]:
  "count_entry 0 = None" "count_entry (Suc n) = Some (int (Suc n))"
  by (simp_all add: count_entry_def)

lemma get_or_count_entry: "m k = count_entry n \<Longrightarrow> get_or m k 0 = int n"
  by (simp add: count_entry_def get_or_def)

text \<open>Array splice removing one element.\<close>

definition remove_at :: "nat \<Rightarrow> 'a list \<Rightarrow> 'a list" where
  "remove_at i xs = take i xs @ drop (Suc i) xs"

lemma length_remove_at [simp]: "i < length xs \<Longrightarrow> length (remove_at i xs) = length xs - 1"
  by (simp add: remove_at_def)

lemma drop_remove_at: "i < length xs \<Longrightarrow> drop i (remove_at i xs) = drop (Suc i) xs"
  by (simp add: remove_at_def)

lemma take_remove_at: "i < length xs \<Longrightarrow> take i (remove_at i xs) = take i xs"
  by (simp add: remove_at_def)

text \<open>The entries of a finite map whose value satisfies a predicate, and their number.\<close>

definition holding :: "('h \<rightharpoonup> 'g) \<Rightarrow> ('g \<Rightarrow> bool) \<Rightarrow> 'h set" where
  "holding m P = {h. \<exists>g. m h = Some g \<and> P g}"

lemma holding_subset_dom: "holding m P \<subseteq> dom m"
  by (auto simp: holding_def)

lemma finite_holding [simp]: "finite (dom m) \<Longrightarrow> finite (holding m P)"
  by (rule finite_subset [OF holding_subset_dom])

lemma holding_empty [simp]: "holding Map.empty P = {}"
  by (simp add: holding_def)

lemma card_holding_upd_new:
  assumes "finite (dom m)" and "h \<notin> dom m"
  shows "card (holding (m(h \<mapsto> g)) P) = card (holding m P) + (if P g then 1 else 0)"
proof -
  have "holding (m(h \<mapsto> g)) P = (if P g then insert h (holding m P) else holding m P)"
    and "h \<notin> holding m P" using assms(2) by (auto simp: holding_def)
  then show ?thesis using finite_holding [OF assms(1), of P] by simp
qed

lemma card_holding_del:
  assumes "finite (dom m)" and "m h = Some g"
  shows "card (holding m P) = card (holding (m(h := None)) P) + (if P g then 1 else 0)"
proof -
  have "m = (m(h := None))(h \<mapsto> g)" using assms(2) by auto
  then show ?thesis using card_holding_upd_new [of "m(h := None)" h g P] assms(1)
    by (metis dom_fun_upd finite_Diff domIff fun_upd_same)
qed

text \<open>The entries that hold one given value.\<close>

definition holders :: "('h \<rightharpoonup> 'g) \<Rightarrow> 'g \<Rightarrow> 'h set" where
  "holders m g = {h. m h = Some g}"

lemma holders_holding: "holders m g = holding m ((=) g)"
  by (auto simp: holders_def holding_def)

lemma finite_holders [simp]: "finite (dom m) \<Longrightarrow> finite (holders m g)"
  by (simp add: holders_holding)

lemma card_holders_upd_new: "finite (dom m) \<Longrightarrow> h \<notin> dom m \<Longrightarrow>
  card (holders (m(h \<mapsto> g')) g) = card (holders m g) + (if g = g' then 1 else 0)"
  by (simp add: holders_holding card_holding_upd_new)

lemma card_holders_del: "finite (dom m) \<Longrightarrow> m h = Some g' \<Longrightarrow>
  int (card (holders (m(h := None)) g)) = int (card (holders m g)) - (if g = g' then 1 else 0)"
  using card_holding_del [of m h g' "(=) g"] by (simp add: holders_holding)

lemma card_dom_upd_new: "finite (dom m) \<Longrightarrow> h \<notin> dom m \<Longrightarrow>
  card (dom (m(h \<mapsto> g))) = Suc (card (dom m))"
  by simp

lemma card_dom_del: "finite (dom m) \<Longrightarrow> m h = Some g \<Longrightarrow>
  int (card (dom (m(h := None)))) = int (card (dom m)) - 1"
proof -
  assume fin: "finite (dom m)" and h: "m h = Some g"
  then have "h \<in> dom m" by auto
  moreover from fin this have "card (dom m) \<noteq> 0" by auto
  ultimately show ?thesis using fin by (simp add: of_nat_diff Suc_leI card_gt_0_iff)
qed

section \<open>Decimal numerals\<close>

text \<open>\<open>String(n)\<close> of a non-negative integer, the test \<open>/^\d+$/\<close> and the value of such a string.\<close>

definition digit_char :: "nat \<Rightarrow> char" where
  "digit_char n = char_of (48 + n)"

fun dec_nat :: "nat \<Rightarrow> string" where
  "dec_nat n = (if n < 10 then [digit_char n] else dec_nat (n div 10) @ [digit_char (n mod 10)])"

declare dec_nat.simps [simp del]

definition is_digit :: "char \<Rightarrow> bool" where
  "is_digit c \<longleftrightarrow> (48::nat) \<le> of_char c \<and> of_char c \<le> (57::nat)"

definition all_digits :: "string \<Rightarrow> bool" where
  "all_digits s \<longleftrightarrow> s \<noteq> [] \<and> list_all is_digit s"

definition dec_value :: "string \<Rightarrow> nat" where
  "dec_value s = foldl (\<lambda>a c. 10 * a + (of_char c - 48)) 0 s"

definition dec_int :: "int \<Rightarrow> string" where
  "dec_int i = (if i < 0 then CHR ''-'' # dec_nat (nat (- i)) else dec_nat (nat i))"

lemma digit_char_value: "n < 10 \<Longrightarrow> is_digit (digit_char n) \<and> (of_char (digit_char n) - 48 :: nat) = n"
  by (simp add: is_digit_def digit_char_def)

lemma all_digits_dec_nat: "all_digits (dec_nat n)"
proof (induction n rule: dec_nat.induct)
  case (1 n)
  then show ?case
    by (subst dec_nat.simps) (auto simp: all_digits_def digit_char_value)
qed

lemma dec_value_dec_nat [simp]: "dec_value (dec_nat n) = n"
proof (induction n rule: dec_nat.induct)
  case (1 n)
  then show ?case
    by (subst dec_nat.simps) (auto simp: dec_value_def digit_char_value)
qed

section \<open>Sorting with a comparator\<close>

text \<open>\<open>Array.prototype.sort\<close> with a comparator is stable, so for a consistent comparator it is
  insertion sort.\<close>

fun insert_by :: "('a \<Rightarrow> 'a \<Rightarrow> int) \<Rightarrow> 'a \<Rightarrow> 'a list \<Rightarrow> 'a list" where
  "insert_by cmp x [] = [x]"
| "insert_by cmp x (y # ys) = (if cmp x y \<le> 0 then x # y # ys else y # insert_by cmp x ys)"

definition sort_by :: "('a \<Rightarrow> 'a \<Rightarrow> int) \<Rightarrow> 'a list \<Rightarrow> 'a list" where
  "sort_by cmp xs = foldr (insert_by cmp) xs []"

lemma set_insert_by [simp]: "set (insert_by cmp x ys) = insert x (set ys)"
  by (induction ys) auto

lemma set_sort_by [simp]: "set (sort_by cmp xs) = set xs"
  by (induction xs) (auto simp: sort_by_def)

lemma length_sort_by [simp]: "length (sort_by cmp xs) = length xs"
proof -
  have "length (insert_by cmp x ys) = Suc (length ys)" for x ys by (induction ys) auto
  then show ?thesis by (induction xs) (auto simp: sort_by_def)
qed

lemma sort_by_Nil [simp]: "sort_by cmp [] = []"
  by (simp add: sort_by_def)

lemma sorted_sort_by:
  assumes "\<And>x y. cmp x y \<le> 0 \<or> cmp y x \<le> 0" and "\<And>x y z. cmp x y \<le> 0 \<Longrightarrow> cmp y z \<le> 0 \<Longrightarrow> cmp x z \<le> 0"
  shows "sorted_wrt (\<lambda>x y. cmp x y \<le> 0) (sort_by cmp xs)"
proof -
  have "sorted_wrt (\<lambda>x y. cmp x y \<le> 0) ys \<Longrightarrow> sorted_wrt (\<lambda>x y. cmp x y \<le> 0) (insert_by cmp x ys)" for x ys
    by (induction ys) (auto intro: assms, metis assms(1))
  then show ?thesis by (induction xs) (auto simp: sort_by_def)
qed

end
