(* ===== verification/Interfaces.thy ===== *)
theory Interfaces
  imports Prelude
begin

text \<open>
  The interfaces the components rely on, as locales. Each is interpreted on the model's own
  definitions in the theory of the component that provides it.
\<close>

section \<open>Bounded slot pools\<close>

text \<open>
  A pool hands out release closures, identified by fresh numbers. \<open>held\<close> is the set of
  closures not yet called. Calling one may hand out fresh closures (queued callers), never
  an old one. \<open>'t\<close> is what a call of a closure depends on besides the pool.
\<close>

locale slot_pool =
  fixes inv :: "'s \<Rightarrow> bool"
    and held :: "'s \<Rightarrow> nat set"
    and next_handle :: "'s \<Rightarrow> nat"
    and capacity :: "'s \<Rightarrow> nat"
    and release_slot :: "'t \<Rightarrow> nat \<Rightarrow> 's \<Rightarrow> 's"
  assumes held_below: "inv s \<Longrightarrow> held s \<subseteq> {..<next_handle s}"
    and held_capacity: "inv s \<Longrightarrow> card (held s) \<le> capacity s"
    and release_inv: "inv s \<Longrightarrow> inv (release_slot t h s)"
    and release_unheld: "inv s \<Longrightarrow> h \<notin> held s \<Longrightarrow> release_slot t h s = s"
    and release_held: "inv s \<Longrightarrow> h \<in> held s \<Longrightarrow> h \<notin> held (release_slot t h s)"
    and release_fresh: "inv s \<Longrightarrow> held (release_slot t h s) \<subseteq> held s \<union> {next_handle s..}"
    and release_next: "inv s \<Longrightarrow> next_handle s \<le> next_handle (release_slot t h s)"
begin

lemma release_not_held: "inv s \<Longrightarrow> h \<notin> held (release_slot t h s)"
  using release_held release_unheld by metis

lemma double_release:
  "inv s \<Longrightarrow> release_slot t' h (release_slot t h s) = release_slot t h s"
  by (simp add: release_inv release_not_held release_unheld)

text \<open>A batch of calls, in any order and with repetitions.\<close>

lemma stays_released:
  "inv s \<Longrightarrow> h \<notin> held s \<Longrightarrow> h < next_handle s \<Longrightarrow>
     h \<notin> held (fold (\<lambda>(t, h). release_slot t h) calls s)"
proof (induction calls arbitrary: s)
  case (Cons call calls)
  obtain t g where call: "call = (t, g)" by (cases call)
  have "h \<notin> held (release_slot t g s)"
    using release_fresh [OF Cons.prems(1), of t g] Cons.prems(2,3) by auto
  moreover have "h < next_handle (release_slot t g s)"
    using release_next [OF Cons.prems(1), of t g] Cons.prems(3) by simp
  ultimately show ?case using Cons.IH Cons.prems(1) call by (simp add: release_inv)
qed simp

lemma inv_batch: "inv s \<Longrightarrow> inv (fold (\<lambda>(t, h). release_slot t h) calls s)"
  by (induction calls arbitrary: s) (auto simp: release_inv)

lemma batch_releases:
  assumes "inv s" and "(t, h) \<in> set calls" and "h \<in> held s"
  shows "h \<notin> held (fold (\<lambda>(t, h). release_slot t h) calls s)"
  using assms
proof (induction calls arbitrary: s)
  case (Cons call calls)
  obtain u g where call: "call = (u, g)" by (cases call)
  have h: "h < next_handle s" using held_below [OF Cons.prems(1)] Cons.prems(3) by auto
  have inv': "inv (release_slot u g s)" using Cons.prems(1) by (rule release_inv)
  have h': "h < next_handle (release_slot u g s)"
    using h release_next [OF Cons.prems(1), of u g] by simp
  show ?case
  proof (cases "h \<in> held (release_slot u g s)")
    case True
    then have "h \<noteq> g" using release_not_held [OF Cons.prems(1)] by auto
    with Cons.prems(2) call have "(t, h) \<in> set calls" by auto
    with Cons.IH [OF inv' this True] call show ?thesis by simp
  next
    case False
    from stays_released [OF inv' this h', of calls] call show ?thesis by simp
  qed
qed simp

end

section \<open>Sliding windows\<close>

text \<open>
  A gate that admits at most \<open>limit\<close> requests per window remembers the times of the requests
  it admitted. \<open>window_ok\<close> relates what it remembers (\<open>stamps\<close>) to the whole history of
  admissions (\<open>acc\<close>) at time \<open>now\<close>: the two agree on the current window, and no window of
  the history holds more than \<open>limit\<close> admissions.
\<close>

definition in_window :: "int \<Rightarrow> int \<Rightarrow> int \<Rightarrow> bool" where
  "in_window W T t \<longleftrightarrow> T - W < t \<and> t \<le> T"

definition window_ok :: "int \<Rightarrow> nat \<Rightarrow> int \<Rightarrow> int list \<Rightarrow> int list \<Rightarrow> bool" where
  "window_ok W limit now stamps acc \<longleftrightarrow>
     (\<forall>t \<in> set acc. t \<le> now) \<and>
     filter (\<lambda>t. now - W < t) stamps = filter (\<lambda>t. now - W < t) acc \<and>
     (\<forall>T. length (filter (in_window W T) acc) \<le> limit)"

lemma window_ok_start: "window_ok W limit now [] []"
  by (simp add: window_ok_def)

lemma filter_later:
  fixes now now' W :: int
  assumes "now \<le> now'" and "filter (\<lambda>t. now - W < t) xs = filter (\<lambda>t. now - W < t) ys"
  shows "filter (\<lambda>t. now' - W < t) xs = filter (\<lambda>t. now' - W < t) ys"
proof -
  have "filter (\<lambda>t. now' - W < t) (filter (\<lambda>t. now - W < t) zs) = filter (\<lambda>t. now' - W < t) zs" for zs
    using assms(1) by (auto simp: filter_filter intro!: filter_cong)
  then show ?thesis using assms(2) by metis
qed

lemma window_ok_later: "now \<le> now' \<Longrightarrow> window_ok W limit now st acc \<Longrightarrow> window_ok W limit now' st acc"
  using filter_later [of now now' W st acc] by (auto simp: window_ok_def)

lemma window_ok_prune:
  "window_ok W limit now st acc \<Longrightarrow> window_ok W limit now (filter (\<lambda>t. now - W < t) st) acc"
  by (simp add: window_ok_def)

lemma window_ok_admit:
  assumes ok: "window_ok W limit now st acc" and "0 < W"
    and room: "length (filter (\<lambda>t. now - W < t) st) < limit"
  shows "window_ok W limit now (filter (\<lambda>t. now - W < t) st @ [now]) (acc @ [now])"
proof -
  have "length (filter (in_window W T) (acc @ [now])) \<le> limit" for T
  proof (cases "in_window W T now")
    case False
    then show ?thesis using ok by (simp add: window_ok_def)
  next
    case True
    have "length (filter (in_window W T) acc) \<le> length (filter (\<lambda>t. now - W < t) acc)"
      using True ok by (intro length_filter_conv_card [THEN eq_refl, THEN le_trans])
        (auto simp: in_window_def length_filter_conv_card intro!: card_mono)
    also have "\<dots> < limit" using ok room by (simp add: window_ok_def)
    finally show ?thesis using True by simp
  qed
  then show ?thesis using ok \<open>0 < W\<close> by (auto simp: window_ok_def)
qed

locale sliding_window =
  fixes stamps :: "'s \<Rightarrow> int list"
    and check :: "'i \<Rightarrow> int \<Rightarrow> 's \<Rightarrow> bool \<times> 's"
    and window :: int
    and limit :: nat
  assumes window_pos: "0 < window"
    and check_admit: "check i now s = (True, s') \<Longrightarrow>
      length (filter (\<lambda>t. now - window < t) (stamps s)) < limit \<and>
      stamps s' = filter (\<lambda>t. now - window < t) (stamps s) @ [now]"
    and check_refuse: "check i now s = (False, s') \<Longrightarrow>
      stamps s' = filter (\<lambda>t. now - window < t) (stamps s)"
begin

lemma check_window_ok:
  assumes "window_ok window limit t (stamps s) acc" and "t \<le> now" and "check i now s = (ok, s')"
  shows "window_ok window limit now (stamps s') (if ok then acc @ [now] else acc)"
proof -
  have "window_ok window limit now (stamps s) acc" using assms(1,2) by (rule window_ok_later [rotated])
  then show ?thesis
    using assms(3) check_admit check_refuse window_pos
    by (cases ok) (auto simp: window_ok_admit window_ok_prune)
qed

lemma window_bound:
  "window_ok window limit t (stamps s) acc \<Longrightarrow> length (filter (in_window window T) acc) \<le> limit"
  by (simp add: window_ok_def)

end

section \<open>Fenced leases\<close>

text \<open>
  A lease store grants one lease at a time, each with a fencing token. \<open>op s (Some t) s'\<close> is an
  operation that grants token \<open>t\<close>, \<open>op s None s'\<close> any other operation of the store, whoever
  issues it. The contract: a grant hands out the next token of a counter and makes it current,
  and no other operation installs a token. What the clients need follows from it alone: tokens
  grow strictly along every run, and a token that has lost the lease never gets it back.
\<close>

inductive lease_run :: "('s \<Rightarrow> int option \<Rightarrow> 's \<Rightarrow> bool) \<Rightarrow> 's \<Rightarrow> int list \<Rightarrow> 's \<Rightarrow> bool" for op where
  lease_run_refl: "lease_run op s [] s"
| lease_run_other: "lease_run op s toks s' \<Longrightarrow> op s' None s'' \<Longrightarrow> lease_run op s toks s''"
| lease_run_grant: "lease_run op s toks s' \<Longrightarrow> op s' (Some t) s'' \<Longrightarrow> lease_run op s (toks @ [t]) s''"

locale fenced_lease =
  fixes current :: "'s \<Rightarrow> int option"
    and next_token :: "'s \<Rightarrow> int"
    and op :: "'s \<Rightarrow> int option \<Rightarrow> 's \<Rightarrow> bool"
  assumes op_grant: "op s (Some t) s' \<Longrightarrow> t = next_token s \<and> current s' = Some t \<and> next_token s' = t + 1"
    and op_other: "op s None s' \<Longrightarrow>
      next_token s' = next_token s \<and> (current s' = current s \<or> current s' = None)"
begin

lemma run_tokens:
  "lease_run op s toks s' \<Longrightarrow>
     toks = map (\<lambda>i. next_token s + int i) [0..<length toks] \<and>
     next_token s' = next_token s + int (length toks)"
  by (induction rule: lease_run.induct) (auto dest: op_grant op_other)

lemma run_increasing: "lease_run op s toks s' \<Longrightarrow> sorted_wrt (<) toks \<and> (\<forall>t \<in> set toks. next_token s \<le> t)"
  by (subst (1 2) run_tokens [THEN conjunct1]) (auto simp: sorted_wrt_map sorted_wrt_upt)

lemma run_latest:
  "lease_run op s toks s' \<Longrightarrow> (\<forall>t. current s = Some t \<longrightarrow> next_token s = t + 1) \<Longrightarrow>
     (\<forall>t. current s' = Some t \<longrightarrow> next_token s' = t + 1)"
  by (induction rule: lease_run.induct) (auto dest!: op_grant op_other)

lemma never_again:
  "lease_run op s toks s' \<Longrightarrow> current s \<noteq> Some t \<Longrightarrow> t < next_token s \<Longrightarrow>
     current s' \<noteq> Some t \<and> t < next_token s'"
  by (induction rule: lease_run.induct) (fastforce dest: op_grant op_other)+

lemma superseded:
  assumes "lease_run op s toks s'" and "toks \<noteq> []" and "t < next_token s"
    and "\<forall>t. current s = Some t \<longrightarrow> next_token s = t + 1"
  shows "current s' \<noteq> Some t"
proof -
  have "next_token s' = next_token s + int (length toks)" using run_tokens [OF assms(1)] by blast
  then have "t + 1 < next_token s'" using assms(2,3) by (cases toks) auto
  then show ?thesis using run_latest [OF assms(1,4)] by auto
qed

end

section \<open>Credential stores\<close>

text \<open>
  A store of credentials found by a key \<open>'k\<close>. A step may change a credential only to a state with
  less authority (\<open>le\<close>), and a state with less authority is alive at fewer times. \<open>'t\<close> is the time.
\<close>

locale credential_store =
  fixes wf :: "'s \<Rightarrow> bool"
    and step :: "'s \<Rightarrow> 's \<Rightarrow> bool"
    and entries :: "'s \<Rightarrow> 'c set"
    and key_of :: "'c \<Rightarrow> 'k"
    and alive :: "'t \<Rightarrow> 'c \<Rightarrow> bool"
    and le :: "'c \<Rightarrow> 'c \<Rightarrow> bool"
    and lookup :: "'k \<Rightarrow> 't \<Rightarrow> 's \<Rightarrow> 'c option"
  assumes lookup_entry: "wf s \<Longrightarrow> lookup k t s = Some c \<longleftrightarrow> c \<in> entries s \<and> key_of c = k \<and> alive t c"
    and key_unique: "wf s \<Longrightarrow> c \<in> entries s \<Longrightarrow> c' \<in> entries s \<Longrightarrow> key_of c = key_of c' \<Longrightarrow> c = c'"
    and step_wf: "wf s \<Longrightarrow> step s s' \<Longrightarrow> wf s'"
    and step_entry: "wf s \<Longrightarrow> step s s' \<Longrightarrow> c \<in> entries s \<Longrightarrow> \<exists>c' \<in> entries s'. le c c'"
    and le_refl: "le c c"
    and le_trans: "le c c' \<Longrightarrow> le c' c'' \<Longrightarrow> le c c''"
    and le_key: "le c c' \<Longrightarrow> key_of c' = key_of c"
    and le_alive: "le c c' \<Longrightarrow> alive t c' \<Longrightarrow> alive t c"
begin

lemma run_wf: "step\<^sup>*\<^sup>* s s' \<Longrightarrow> wf s \<Longrightarrow> wf s'"
  by (induction rule: rtranclp_induct) (auto intro: step_wf)

lemma run_entry:
  "step\<^sup>*\<^sup>* s s' \<Longrightarrow> wf s \<Longrightarrow> c \<in> entries s \<Longrightarrow> \<exists>c' \<in> entries s'. le c c'"
proof (induction rule: rtranclp_induct)
  case base
  then show ?case using le_refl by blast
next
  case (step y z)
  then obtain c' where "c' \<in> entries y" "le c c'" by blast
  moreover from step have "wf y" by (blast intro: run_wf)
  ultimately obtain c'' where "c'' \<in> entries z" "le c' c''" using step_entry step.hyps(2) by blast
  with \<open>le c c'\<close> show ?case using le_trans by blast
qed

text \<open>Whatever a key opens later, it was entitled to before.\<close>

lemma authority_monotone:
  assumes "wf s" "step\<^sup>*\<^sup>* s s'" "c \<in> entries s" "lookup (key_of c) t s' = Some c'"
  shows "le c c'" "alive t c"
proof -
  obtain d where d: "d \<in> entries s'" "le c d" using run_entry assms by blast
  have wf': "wf s'" using run_wf assms by blast
  then have c': "c' \<in> entries s'" "key_of c' = key_of c" "alive t c'" using assms(4) lookup_entry by auto
  then have "c' = d" using key_unique [OF wf' c'(1) d(1)] le_key [OF d(2)] by simp
  with d c' show "le c c'" "alive t c" using le_alive by auto
qed

lemma dead_forever:
  assumes "wf s" "step\<^sup>*\<^sup>* s s'" "c \<in> entries s" "\<not> alive t c"
  shows "lookup (key_of c) t s' = None"
  using authority_monotone(2) [OF assms(1,2,3)] assms(4) by (cases "lookup (key_of c) t s'") auto

text \<open>A key of no entry opens nothing.\<close>

lemma lookup_known: "wf s \<Longrightarrow> lookup k t s = Some c \<Longrightarrow> c \<in> entries s"
  by (simp add: lookup_entry)

end


end
