(* ===== verification/Admission.thy ===== *)
theory Admission
  imports Interfaces "HOL-Library.Sublist" "HOL-Library.Multiset"
begin

text \<open>
  The admission controller of the gateway, \<open>src/homeserver/admission.ts\<close>: the pure
  decision \<open>admit\<close>, the slot accounting of \<open>AdmissionController\<close> with its owner queue,
  maintenance fence and preemptible background lease.

  A release closure is an entry of \<open>outstanding\<close>: present while its \<open>released\<close> flag is
  false, removed by its first call, so a second call finds nothing (the flag's early
  return). A waiter's promise is its \<open>w_id\<close>; \<open>settled\<close> lists the promises settled so
  far. Every operation takes the reading of the injected clock it makes.
\<close>

section \<open>The pure decision\<close>

datatype Lane = OwnerLane | GuestLane

datatype MaintenanceScope = ScopeGuest | ScopeExclusive

record AdmissionState =
  st_maxInflight :: int
  st_inflight :: int
  st_ownerQueued :: int
  st_activeModel :: "string option"
  st_maintenanceMode :: "bool option"
  st_maintenanceScope :: "MaintenanceScope option"

datatype AdmissionResult = Admit | Queue millis | Reject seconds

record AdmissionRequest =
  rq_lane :: Lane
  rq_requestedModel :: "string option"
  rq_keyMaxParallel :: int
  rq_keyInflight :: int
  rq_keyId :: "string option"

record AdmissionConfig =
  cfg_ownerQueueMaxMs :: millis
  cfg_retryAfterAtCapSeconds :: seconds
  cfg_maintenanceRetryAfterSeconds :: "seconds option"

definition MAINTENANCE_RETRY_AFTER_DEFAULT :: seconds where
  "MAINTENANCE_RETRY_AFTER_DEFAULT = 30"

definition admit ::
  "AdmissionState \<Rightarrow> AdmissionRequest \<Rightarrow> AdmissionConfig \<Rightarrow> AdmissionResult \<times> bool" where
  "admit state req cfg =
     (let wouldSwapModel =
            rq_requestedModel req \<noteq> None \<and> st_activeModel state \<noteq> None \<and>
            rq_requestedModel req \<noteq> st_activeModel state
      in if st_maintenanceMode state = Some True \<and>
            (rq_lane req = GuestLane \<or> st_maintenanceScope state = Some ScopeExclusive)
         then (Reject (case cfg_maintenanceRetryAfterSeconds cfg of
                         Some s \<Rightarrow> s | None \<Rightarrow> MAINTENANCE_RETRY_AFTER_DEFAULT), wouldSwapModel)
         else if rq_keyInflight req \<ge> rq_keyMaxParallel req
         then (Reject (if rq_lane req = OwnerLane then retry_seconds (cfg_ownerQueueMaxMs cfg)
                       else 1), wouldSwapModel)
         else if st_inflight state < st_maxInflight state then (Admit, wouldSwapModel)
         else if rq_lane req = GuestLane
         then (Reject (cfg_retryAfterAtCapSeconds cfg), wouldSwapModel)
         else (Queue (cfg_ownerQueueMaxMs cfg), wouldSwapModel))"

section \<open>The controller\<close>

datatype grant = RequestGrant "string option" | BackgroundGrant

datatype settlement = Resolved nat | RejectedAfter seconds | Cancelled

record Waiter =
  w_id :: nat
  w_keyId :: "string option"
  w_keyMaxParallel :: int

record AdmissionController =
  maxInflight :: int
  ownerQueueMaxMs :: millis
  retryAfterAtCapSeconds :: seconds
  maintenanceRetryAfterSeconds :: seconds
  inflight :: int
  activeModel :: "string option"
  maintenanceMode :: bool
  maintenanceScope :: MaintenanceScope
  startupExclusiveUntilMs :: "millis option"
  maintenanceExpiresAtMs :: "millis option"
  ownerWaiters :: "Waiter list"
  keyInflight :: "string \<rightharpoonup> int"
  background :: "nat option"
  outstanding :: "nat \<rightharpoonup> grant"
  settled :: "(nat \<times> settlement) list"
  abortedBackground :: "nat list"
  nextId :: nat

text \<open>The constructor's argument, and its one error.\<close>

record ControllerOptions =
  opt_maxInflight :: int
  opt_ownerQueueMaxMs :: millis
  opt_retryAfterAtCapSeconds :: seconds
  opt_maintenanceRetryAfterSeconds :: "seconds option"
  opt_maintenanceMode :: "bool option"
  opt_startupExclusiveUntilMs :: "js_number option"

datatype controller_error = StartupExclusiveNotInteger

definition newController :: "ControllerOptions \<Rightarrow> controller_error + AdmissionController" where
  "newController cfg =
     (if (case opt_startupExclusiveUntilMs cfg of Some n \<Rightarrow> \<not> isSafeInteger n | None \<Rightarrow> False)
      then Inl StartupExclusiveNotInteger
      else Inr \<lparr>maxInflight = opt_maxInflight cfg,
                ownerQueueMaxMs = opt_ownerQueueMaxMs cfg,
                retryAfterAtCapSeconds = opt_retryAfterAtCapSeconds cfg,
                maintenanceRetryAfterSeconds =
                  (case opt_maintenanceRetryAfterSeconds cfg of
                     Some s \<Rightarrow> s | None \<Rightarrow> MAINTENANCE_RETRY_AFTER_DEFAULT),
                inflight = 0, activeModel = None,
                maintenanceMode = (case opt_maintenanceMode cfg of Some b \<Rightarrow> b | None \<Rightarrow> False),
                maintenanceScope = ScopeGuest,
                startupExclusiveUntilMs = map_option the_int (opt_startupExclusiveUntilMs cfg),
                maintenanceExpiresAtMs = None, ownerWaiters = [], keyInflight = Map.empty,
                background = None, outstanding = Map.empty, settled = [],
                abortedBackground = [], nextId = 0\<rparr>)"

definition startupExclusiveActive :: "AdmissionController \<Rightarrow> millis \<Rightarrow> bool" where
  "startupExclusiveActive c now =
     (case startupExclusiveUntilMs c of None \<Rightarrow> False | Some t \<Rightarrow> now < t)"

definition effectiveMaintenanceMode :: "AdmissionController \<Rightarrow> millis \<Rightarrow> bool" where
  "effectiveMaintenanceMode c now =
     (if startupExclusiveActive c now then True
      else if \<not> maintenanceMode c then False
      else if (case maintenanceExpiresAtMs c of None \<Rightarrow> False | Some t \<Rightarrow> now > t) then False
      else True)"

text \<open>\<open>None\<close> is the scope \<open>"off"\<close>.\<close>

definition effectiveMaintenanceScope ::
  "AdmissionController \<Rightarrow> millis \<Rightarrow> MaintenanceScope option" where
  "effectiveMaintenanceScope c now =
     (if startupExclusiveActive c now then Some ScopeExclusive
      else if effectiveMaintenanceMode c now then Some (maintenanceScope c) else None)"

abbreviation exclusive :: "AdmissionController \<Rightarrow> millis \<Rightarrow> bool" where
  "exclusive c now \<equiv> effectiveMaintenanceScope c now = Some ScopeExclusive"

definition state :: "AdmissionController \<Rightarrow> millis \<Rightarrow> AdmissionState" where
  "state c now =
     (let scope = effectiveMaintenanceScope c now
      in \<lparr>st_maxInflight = maxInflight c, st_inflight = inflight c,
          st_ownerQueued = int (length (ownerWaiters c)), st_activeModel = activeModel c,
          st_maintenanceMode = Some (scope \<noteq> None), st_maintenanceScope = scope\<rparr>)"

fun incKeyInflight :: "string option \<Rightarrow> AdmissionController \<Rightarrow> AdmissionController" where
  "incKeyInflight None c = c"
| "incKeyInflight (Some k) c =
     c\<lparr>keyInflight := (keyInflight c)(k \<mapsto> get_or (keyInflight c) k 0 + 1)\<rparr>"

fun decKeyInflight :: "string option \<Rightarrow> AdmissionController \<Rightarrow> AdmissionController" where
  "decKeyInflight None c = c"
| "decKeyInflight (Some k) c =
     (let n = get_or (keyInflight c) k 1 - 1
      in if n \<le> 0 then c\<lparr>keyInflight := (keyInflight c)(k := None)\<rparr>
         else c\<lparr>keyInflight := (keyInflight c)(k \<mapsto> n)\<rparr>)"

text \<open>
  Allocating a release closure. \<open>makeRelease\<close> and the closure of
  \<open>tryAcquireBackground\<close> both capture one fresh \<open>released\<close> flag.
\<close>

definition makeRelease :: "grant \<Rightarrow> AdmissionController \<Rightarrow> nat \<times> AdmissionController" where
  "makeRelease g c =
     (nextId c, c\<lparr>outstanding := (outstanding c)(nextId c \<mapsto> g), nextId := Suc (nextId c)\<rparr>)"

text \<open>Taking a slot for a key: the counters, then the closure handed out.\<close>

definition takeSlot :: "string option \<Rightarrow> AdmissionController \<Rightarrow> nat \<times> AdmissionController" where
  "takeSlot k c =
     makeRelease (RequestGrant k) (incKeyInflight k (c\<lparr>inflight := inflight c + 1\<rparr>))"

definition currentKeyInflight :: "AdmissionController \<Rightarrow> string option \<Rightarrow> int" where
  "currentKeyInflight c k = (case k of Some k' \<Rightarrow> get_or (keyInflight c) k' 0 | None \<Rightarrow> 0)"

definition capped :: "AdmissionController \<Rightarrow> Waiter \<Rightarrow> bool" where
  "capped c w \<longleftrightarrow> currentKeyInflight c (w_keyId w) \<ge> w_keyMaxParallel w"

text \<open>Admitting a waiter: it takes a slot and its promise resolves with the closure.\<close>

definition admitWaiter :: "Waiter \<Rightarrow> AdmissionController \<Rightarrow> AdmissionController" where
  "admitWaiter w c =
     (let (h, c') = takeSlot (w_keyId w) c
      in c'\<lparr>settled := settled c' @ [(w_id w, Resolved h)]\<rparr>)"

lemma ownerWaiters_admitWaiter [simp]: "ownerWaiters (admitWaiter w c) = ownerWaiters c"
  by (cases "w_keyId w") (simp_all add: admitWaiter_def takeSlot_def makeRelease_def)

text \<open>The \<open>while\<close> loop of \<open>drainQueue\<close>, from index \<open>i\<close>.\<close>

function drainFrom :: "nat \<Rightarrow> AdmissionController \<Rightarrow> AdmissionController" where
  "drainFrom i c =
     (if inflight c < maxInflight c \<and> i < length (ownerWaiters c)
      then let w = ownerWaiters c ! i
           in if capped c w then drainFrom (Suc i) c
              else drainFrom i (admitWaiter w (c\<lparr>ownerWaiters := remove_at i (ownerWaiters c)\<rparr>))
      else c)"
  by pat_completeness auto
termination
  by (relation "measure (\<lambda>(i, c). length (ownerWaiters c) - i)") auto

declare drainFrom.simps [simp del]

definition drainQueue :: "millis \<Rightarrow> AdmissionController \<Rightarrow> AdmissionController" where
  "drainQueue now c = (if exclusive c now then c else drainFrom 0 c)"

text \<open>Calling a release closure. The background closure also clears the lease.\<close>

definition release :: "millis \<Rightarrow> nat \<Rightarrow> AdmissionController \<Rightarrow> AdmissionController" where
  "release now h c =
     (case outstanding c h of
        None \<Rightarrow> c
      | Some (RequestGrant k) \<Rightarrow>
          drainQueue now
            (decKeyInflight k
              (c\<lparr>outstanding := (outstanding c)(h := None), inflight := inflight c - 1\<rparr>))
      | Some BackgroundGrant \<Rightarrow>
          drainQueue now
            (c\<lparr>outstanding := (outstanding c)(h := None),
               background := (if background c = Some h then None else background c),
               inflight := inflight c - 1\<rparr>))"

section \<open>Acquiring\<close>

datatype AcquireResult =
    Granted nat
  | RejectedNow seconds
  | CancelledNow
  | Waiting nat
  | Draining nat

definition controllerConfig :: "AdmissionController \<Rightarrow> AdmissionConfig" where
  "controllerConfig c =
     \<lparr>cfg_ownerQueueMaxMs = ownerQueueMaxMs c,
      cfg_retryAfterAtCapSeconds = retryAfterAtCapSeconds c,
      cfg_maintenanceRetryAfterSeconds = Some (maintenanceRetryAfterSeconds c)\<rparr>"

text \<open>The part of \<open>acquire\<close> that runs once no background lease is left to drain.\<close>

definition acquireDecide ::
  "millis \<Rightarrow> bool \<Rightarrow> AdmissionRequest \<Rightarrow> AdmissionController \<Rightarrow> AcquireResult \<times> AdmissionController"
where
  "acquireDecide now aborted req c =
     (if aborted then (CancelledNow, c)
      else case fst (admit (state c now) req (controllerConfig c)) of
             Admit \<Rightarrow> (let (h, c') = takeSlot (rq_keyId req) c in (Granted h, c'))
           | Reject s \<Rightarrow> (RejectedNow s, c)
           | Queue _ \<Rightarrow>
               (Waiting (nextId c),
                c\<lparr>ownerWaiters := ownerWaiters c @
                    [\<lparr>w_id = nextId c, w_keyId = rq_keyId req,
                      w_keyMaxParallel = rq_keyMaxParallel req\<rparr>],
                  nextId := Suc (nextId c)\<rparr>))"

text \<open>
  The start of \<open>acquire\<close>: a present background lease is aborted and the caller awaits
  its release (\<open>Draining\<close>), after which it resumes in \<open>acquireDecide\<close>.
\<close>

definition acquire ::
  "millis \<Rightarrow> bool \<Rightarrow> AdmissionRequest \<Rightarrow> AdmissionController \<Rightarrow> AcquireResult \<times> AdmissionController"
where
  "acquire now aborted req c =
     (if aborted then (CancelledNow, c)
      else case background c of
             Some h \<Rightarrow> (Draining h, c\<lparr>abortedBackground := abortedBackground c @ [h]\<rparr>)
           | None \<Rightarrow> acquireDecide now aborted req c)"

text \<open>
  The waiter's \<open>discard\<close>, called by its abort listener with \<open>Cancelled\<close> and by its timer
  with \<open>queueTimeout\<close>; a waiter already settled is left alone.
\<close>

definition queueTimeout :: "AdmissionController \<Rightarrow> settlement" where
  "queueTimeout c = RejectedAfter (retry_seconds (ownerQueueMaxMs c))"

definition discard ::
  "millis \<Rightarrow> nat \<Rightarrow> settlement \<Rightarrow> AdmissionController \<Rightarrow> AdmissionController" where
  "discard now wid err c =
     (if wid \<notin> set (map w_id (ownerWaiters c)) then c
      else drainQueue now
             (c\<lparr>ownerWaiters := filter (\<lambda>w. w_id w \<noteq> wid) (ownerWaiters c),
                settled := settled c @ [(wid, err)]\<rparr>))"

definition tryAcquireBackground :: "AdmissionController \<Rightarrow> nat option \<times> AdmissionController" where
  "tryAcquireBackground c =
     (if background c \<noteq> None \<or> inflight c \<noteq> 0 \<or> ownerWaiters c \<noteq> [] then (None, c)
      else let (h, c') = makeRelease BackgroundGrant (c\<lparr>inflight := inflight c + 1\<rparr>)
           in (Some h, c'\<lparr>background := Some h\<rparr>))"

definition setMaintenanceMode ::
  "millis \<Rightarrow> bool \<Rightarrow> millis option \<Rightarrow> MaintenanceScope \<Rightarrow> AdmissionController
    \<Rightarrow> bool \<times> AdmissionController" where
  "setMaintenanceMode now on ttlMs scope c =
     (let c1 = c\<lparr>maintenanceMode := on,
                 maintenanceScope := (if on then scope else ScopeGuest),
                 maintenanceExpiresAtMs :=
                   (if on then map_option (\<lambda>ttl. now + ttl) ttlMs else None)\<rparr>;
          c2 = (if \<not> on then drainQueue now c1 else c1)
      in (effectiveMaintenanceMode c2 now, c2))"

definition isMaintenanceMode :: "millis \<Rightarrow> AdmissionController \<Rightarrow> bool" where
  "isMaintenanceMode now c = effectiveMaintenanceMode c now"

definition snapshot :: "millis \<Rightarrow> AdmissionController \<Rightarrow> AdmissionState" where
  "snapshot now c = state c now"

definition setActiveModel :: "string option \<Rightarrow> AdmissionController \<Rightarrow> AdmissionController" where
  "setActiveModel m c = c\<lparr>activeModel := m\<rparr>"

lemma effectiveMaintenanceScope_cong:
  "startupExclusiveUntilMs c' = startupExclusiveUntilMs c \<Longrightarrow> maintenanceMode c' = maintenanceMode c \<Longrightarrow>
   maintenanceScope c' = maintenanceScope c \<Longrightarrow> maintenanceExpiresAtMs c' = maintenanceExpiresAtMs c \<Longrightarrow>
   effectiveMaintenanceScope c' now = effectiveMaintenanceScope c now"
  by (simp add: effectiveMaintenanceScope_def effectiveMaintenanceMode_def startupExclusiveActive_def)

section \<open>The drain loop against its specification\<close>

text \<open>
  What the index loop computes: one pass over the queue in order. A waiter whose key is at
  its cap stays, every other one takes a slot, and the pass ends when no slot is left.
\<close>

fun drainSpec :: "Waiter list \<Rightarrow> AdmissionController \<Rightarrow> Waiter list \<times> AdmissionController" where
  "drainSpec [] c = ([], c)"
| "drainSpec (w # ws) c =
     (if inflight c < maxInflight c
      then if capped c w then (let (rest, c') = drainSpec ws c in (w # rest, c'))
           else drainSpec ws (admitWaiter w c)
      else (w # ws, c))"

lemma capped_ownerWaiters [simp]: "capped (c\<lparr>ownerWaiters := ws\<rparr>) w = capped c w"
  by (simp add: capped_def currentKeyInflight_def split: option.split)

lemma admitWaiter_ownerWaiters:
  "admitWaiter w (c\<lparr>ownerWaiters := ws\<rparr>) = (admitWaiter w c)\<lparr>ownerWaiters := ws\<rparr>"
  by (cases "w_keyId w") (simp_all add: admitWaiter_def takeSlot_def makeRelease_def)

lemma ownerWaiters_drainSpec: "ownerWaiters (snd (drainSpec ws c)) = ownerWaiters c"
  by (induction ws c rule: drainSpec.induct) (auto simp: split_beta)

lemma drainSpec_ownerWaiters:
  "drainSpec ws (c\<lparr>ownerWaiters := us\<rparr>) =
     (fst (drainSpec ws c), (snd (drainSpec ws c))\<lparr>ownerWaiters := us\<rparr>)"
  by (induction ws c rule: drainSpec.induct) (auto simp: split_beta admitWaiter_ownerWaiters)

lemma drainFrom_drainSpec:
  "drainFrom i c =
     (let (rest, c') = drainSpec (drop i (ownerWaiters c)) c
      in c'\<lparr>ownerWaiters := take i (ownerWaiters c) @ rest\<rparr>)"
proof (induction i c rule: drainFrom.induct)
  case (1 i c)
  let ?ws = "ownerWaiters c"
  show ?case
  proof (cases "inflight c < maxInflight c \<and> i < length ?ws")
    case False
    have "drainSpec (drop i ?ws) c = (drop i ?ws, c)"
      using False by (cases "drop i ?ws") auto
    moreover have "drainFrom i c = c" using False by (subst drainFrom.simps) auto
    ultimately show ?thesis by simp
  next
    case True
    let ?w = "?ws ! i"
    have split: "drop i ?ws = ?w # drop (Suc i) ?ws"
      using True by (simp add: Cons_nth_drop_Suc)
    show ?thesis
    proof (cases "capped c ?w")
      case True1: True
      have "drainFrom i c = drainFrom (Suc i) c"
        using True True1 by (subst drainFrom.simps) (simp add: Let_def)
      with "1.IH"(1) [OF True refl True1] show ?thesis
        using True True1 split by (simp add: split_beta Let_def take_Suc_conv_app_nth)
    next
      case False
      let ?c = "admitWaiter ?w (c\<lparr>ownerWaiters := remove_at i ?ws\<rparr>)"
      have "drainFrom i c = drainFrom i ?c"
        using True False by (subst drainFrom.simps) (simp add: Let_def)
      with "1.IH"(2) [OF True refl False] show ?thesis
        using True False split
        by (simp add: split_beta Let_def drop_remove_at take_remove_at admitWaiter_ownerWaiters
            drainSpec_ownerWaiters)
    qed
  qed
qed

lemma drainFrom_0:
  "drainFrom 0 c =
     (snd (drainSpec (ownerWaiters c) c))\<lparr>ownerWaiters := fst (drainSpec (ownerWaiters c) c)\<rparr>"
  by (subst drainFrom_drainSpec) (simp add: split_beta)

subsection \<open>What one admission changes\<close>

lemma admitWaiter_fields [simp]:
  "maxInflight (admitWaiter w c) = maxInflight c"
  "inflight (admitWaiter w c) = inflight c + 1"
  "outstanding (admitWaiter w c) = (outstanding c)(nextId c \<mapsto> RequestGrant (w_keyId w))"
  "nextId (admitWaiter w c) = Suc (nextId c)"
  "background (admitWaiter w c) = background c"
  "settled (admitWaiter w c) = settled c @ [(w_id w, Resolved (nextId c))]"
  "startupExclusiveUntilMs (admitWaiter w c) = startupExclusiveUntilMs c"
  "maintenanceMode (admitWaiter w c) = maintenanceMode c"
  "maintenanceScope (admitWaiter w c) = maintenanceScope c"
  "maintenanceExpiresAtMs (admitWaiter w c) = maintenanceExpiresAtMs c"
  by (cases "w_keyId w"; simp add: admitWaiter_def takeSlot_def makeRelease_def)+

lemma currentKeyInflight_admitWaiter:
  "currentKeyInflight (admitWaiter w c) k =
     currentKeyInflight c k + (if k \<noteq> None \<and> k = w_keyId w then 1 else 0)"
  by (cases "w_keyId w"; cases k)
     (auto simp: currentKeyInflight_def admitWaiter_def takeSlot_def makeRelease_def)

lemma capped_admitWaiter: "capped c v \<Longrightarrow> capped (admitWaiter w c) v"
  by (auto simp: capped_def currentKeyInflight_admitWaiter)

lemma capped_drainSpec: "capped c v \<Longrightarrow> capped (snd (drainSpec ws c)) v"
  by (induction ws c rule: drainSpec.induct) (auto simp: split_beta capped_admitWaiter)

lemma maxInflight_drainSpec [simp]: "maxInflight (snd (drainSpec ws c)) = maxInflight c"
  by (induction ws c rule: drainSpec.induct) (auto simp: split_beta)

subsection \<open>Work conservation and order\<close>

lemma drainSpec_work_conserving:
  "inflight (snd (drainSpec ws c)) < maxInflight c \<Longrightarrow> w \<in> set (fst (drainSpec ws c)) \<Longrightarrow>
     capped (snd (drainSpec ws c)) w"
  by (induction ws c rule: drainSpec.induct) (auto simp: split_beta capped_drainSpec split: if_splits)

lemma drainSpec_subseq: "subseq (fst (drainSpec ws c)) ws"
  by (induction ws c rule: drainSpec.induct) (auto simp: split_beta)

text \<open>The waiters a pass admits, in the order it admits them.\<close>

fun admittedBy :: "Waiter list \<Rightarrow> AdmissionController \<Rightarrow> Waiter list" where
  "admittedBy [] c = []"
| "admittedBy (w # ws) c =
     (if inflight c < maxInflight c
      then if capped c w then admittedBy ws c else w # admittedBy ws (admitWaiter w c)
      else [])"

lemma admittedBy_subseq: "subseq (admittedBy ws c) ws"
  by (induction ws c rule: admittedBy.induct) auto

lemma drainSpec_settled:
  "map fst (settled (snd (drainSpec ws c))) = map fst (settled c) @ map w_id (admittedBy ws c)"
  by (induction ws c rule: drainSpec.induct) (auto simp: split_beta)

lemma drainSpec_partition:
  "mset ws = mset (fst (drainSpec ws c)) + mset (admittedBy ws c)"
  by (induction ws c rule: drainSpec.induct) (auto simp: split_beta)

lemma admittedBy_not_capped: "w \<in> set (admittedBy ws c) \<Longrightarrow> \<not> capped c w"
proof (induction ws c rule: admittedBy.induct)
  case (2 v ws c)
  then show ?case using capped_admitWaiter [of c w v] by (auto split: if_splits)
qed simp

text \<open>No overtaking: a waiter that stays is not passed by a later one of its key and cap.\<close>

lemma admittedBy_fifo:
  assumes "distinct (map w_id ws)" and "ws = xs @ w # ys" and "v \<in> set ys"
    and "w_keyId v = w_keyId w" and "w_keyMaxParallel v \<le> w_keyMaxParallel w"
    and "v \<in> set (admittedBy ws c)"
  shows "w \<in> set (admittedBy ws c)"
  using assms
proof (induction xs arbitrary: ws c)
  case Nil
  have notin: "v \<noteq> w" using Nil.prems by auto
  have avail: "inflight c < maxInflight c" using Nil.prems by (auto split: if_splits)
  show ?case
  proof (cases "capped c w")
    case True
    then have "capped c v" using Nil.prems by (auto simp: capped_def)
    moreover have "v \<in> set (admittedBy ys c)" using Nil.prems True avail by simp
    ultimately show ?thesis using admittedBy_not_capped by blast
  qed (use Nil.prems avail in simp)
next
  case (Cons x xs)
  have ne: "v \<noteq> x" and avail: "inflight c < maxInflight c"
    using Cons.prems by (auto split: if_splits)
  have IH: "\<And>c. v \<in> set (admittedBy (xs @ w # ys) c) \<Longrightarrow> w \<in> set (admittedBy (xs @ w # ys) c)"
    using Cons.IH Cons.prems by auto
  show ?case
    using Cons.prems(2,6) ne avail IH by (auto split: if_splits)
qed

lemma drainSpec_key_cap:
  assumes "\<And>w. w \<in> set ws \<Longrightarrow> w_keyId w = Some k \<Longrightarrow> w_keyMaxParallel w \<le> m"
    and "currentKeyInflight c (Some k) \<le> m"
  shows "currentKeyInflight (snd (drainSpec ws c)) (Some k) \<le> m"
  using assms
proof (induction ws c rule: drainSpec.induct)
  case (2 w ws c)
  have "currentKeyInflight (admitWaiter w c) (Some k) \<le> m" if "\<not> capped c w"
    using 2(3) [of w] 2(4) that by (auto simp: currentKeyInflight_admitWaiter capped_def)
  then show ?case using 2 by (auto simp: split_beta)
qed simp

section \<open>Slot accounting\<close>

text \<open>
  \<open>accounted\<close>: the counters \<open>inflight\<close>, \<open>keyInflight\<close> and \<open>background\<close> say exactly which
  release closures are still to be called. \<open>within_slots\<close>: the slot budget is respected.
  \<open>queue_ok\<close>: a waiter's promise settles at most once.
\<close>

definition accounted :: "AdmissionController \<Rightarrow> bool" where
  "accounted c \<longleftrightarrow>
     finite (dom (outstanding c)) \<and> (\<forall>h \<in> dom (outstanding c). h < nextId c) \<and>
     inflight c = int (card (dom (outstanding c))) \<and>
     (\<forall>k. keyInflight c k = count_entry (card (holders (outstanding c) (RequestGrant (Some k))))) \<and>
     (\<forall>h. background c = Some h \<longleftrightarrow> outstanding c h = Some BackgroundGrant)"

definition requestHolders :: "AdmissionController \<Rightarrow> nat set" where
  "requestHolders c = dom (outstanding c) - set_option (background c)"

definition within_slots :: "AdmissionController \<Rightarrow> bool" where
  "within_slots c \<longleftrightarrow>
     int (card (requestHolders c)) \<le> max 0 (maxInflight c) \<and> inflight c \<le> max 1 (maxInflight c)"

abbreviation promises :: "AdmissionController \<Rightarrow> nat list" where
  "promises c \<equiv> map fst (settled c) @ map w_id (ownerWaiters c)"

definition queue_ok :: "AdmissionController \<Rightarrow> bool" where
  "queue_ok c \<longleftrightarrow> distinct (promises c) \<and> (\<forall>i \<in> set (promises c). i < nextId c)"

definition ctl_inv :: "AdmissionController \<Rightarrow> bool" where
  "ctl_inv c \<longleftrightarrow> accounted c \<and> within_slots c \<and> queue_ok c"

lemma fresh_handle: "accounted c \<Longrightarrow> nextId c \<notin> dom (outstanding c)"
  by (auto simp: accounted_def)

lemma currentKeyInflight_holders:
  "accounted c \<Longrightarrow>
     currentKeyInflight c (Some k) = int (card (holders (outstanding c) (RequestGrant (Some k))))"
  by (simp add: accounted_def currentKeyInflight_def get_or_count_entry)

subsection \<open>Taking and returning a slot\<close>

lemma takeSlot_fields [simp]:
  "fst (takeSlot k c) = nextId c"
  "maxInflight (snd (takeSlot k c)) = maxInflight c"
  "inflight (snd (takeSlot k c)) = inflight c + 1"
  "outstanding (snd (takeSlot k c)) = (outstanding c)(nextId c \<mapsto> RequestGrant k)"
  "nextId (snd (takeSlot k c)) = Suc (nextId c)"
  "background (snd (takeSlot k c)) = background c"
  "settled (snd (takeSlot k c)) = settled c"
  "ownerWaiters (snd (takeSlot k c)) = ownerWaiters c"
  "keyInflight (snd (takeSlot k c)) =
     (case k of None \<Rightarrow> keyInflight c
      | Some k' \<Rightarrow> (keyInflight c)(k' \<mapsto> get_or (keyInflight c) k' 0 + 1))"
  by (cases k; simp add: takeSlot_def makeRelease_def)+

lemma accounted_takeSlot: "accounted c \<Longrightarrow> accounted (snd (takeSlot k c))"
  using fresh_handle [of c]
  by (cases k)
     (auto simp: accounted_def card_holders_upd_new get_or_count_entry less_Suc_eq)

lemma requestHolders_takeSlot:
  "accounted c \<Longrightarrow> requestHolders (snd (takeSlot k c)) = insert (nextId c) (requestHolders c)"
  using fresh_handle [of c] by (auto simp: requestHolders_def accounted_def)

lemma finite_requestHolders [simp]: "accounted c \<Longrightarrow> finite (requestHolders c)"
  by (simp add: requestHolders_def accounted_def)

lemma card_requestHolders_le: "accounted c \<Longrightarrow> int (card (requestHolders c)) \<le> inflight c"
  by (simp add: accounted_def requestHolders_def card_mono)

lemma within_slots_takeSlot:
  assumes "accounted c" and "inflight c < maxInflight c"
  shows "within_slots (snd (takeSlot k c))"
proof -
  have "card (requestHolders (snd (takeSlot k c))) \<le> Suc (card (requestHolders c))"
    using assms(1) by (simp add: requestHolders_takeSlot card_insert_if)
  with card_requestHolders_le [OF assms(1)] assms(2) show ?thesis
    by (simp add: within_slots_def)
qed

text \<open>Returning the slot of a request, before the queue is drained.\<close>

definition dropSlot :: "nat \<Rightarrow> AdmissionController \<Rightarrow> AdmissionController" where
  "dropSlot h c =
     (case outstanding c h of
        None \<Rightarrow> c
      | Some (RequestGrant k) \<Rightarrow>
          decKeyInflight k
            (c\<lparr>outstanding := (outstanding c)(h := None), inflight := inflight c - 1\<rparr>)
      | Some BackgroundGrant \<Rightarrow>
          c\<lparr>outstanding := (outstanding c)(h := None),
            background := (if background c = Some h then None else background c),
            inflight := inflight c - 1\<rparr>)"

lemma release_dropSlot:
  "release now h c = (if h \<in> dom (outstanding c) then drainQueue now (dropSlot h c) else c)"
  by (auto simp: release_def dropSlot_def split: option.split grant.split)

lemma decKeyInflight_fields [simp]:
  "maxInflight (decKeyInflight k c) = maxInflight c"
  "inflight (decKeyInflight k c) = inflight c"
  "outstanding (decKeyInflight k c) = outstanding c"
  "nextId (decKeyInflight k c) = nextId c"
  "background (decKeyInflight k c) = background c"
  "settled (decKeyInflight k c) = settled c"
  "ownerWaiters (decKeyInflight k c) = ownerWaiters c"
  "startupExclusiveUntilMs (decKeyInflight k c) = startupExclusiveUntilMs c"
  "maintenanceMode (decKeyInflight k c) = maintenanceMode c"
  "maintenanceScope (decKeyInflight k c) = maintenanceScope c"
  "maintenanceExpiresAtMs (decKeyInflight k c) = maintenanceExpiresAtMs c"
  by (cases k; simp add: Let_def)+

lemma decKeyInflight_keyInflight:
  assumes "keyInflight c k = count_entry (Suc n)"
  shows "keyInflight (decKeyInflight (Some k) c) = (keyInflight c)(k := count_entry n)"
  using assms by (auto simp: Let_def get_or_def count_entry_def fun_eq_iff)

lemma dropSlot_fields:
  "maxInflight (dropSlot h c) = maxInflight c"
  "nextId (dropSlot h c) = nextId c"
  "settled (dropSlot h c) = settled c"
  "ownerWaiters (dropSlot h c) = ownerWaiters c"
  "h \<in> dom (outstanding c) \<Longrightarrow> inflight (dropSlot h c) = inflight c - 1"
  "outstanding (dropSlot h c) = (outstanding c)(h := None)"
  by (auto simp: dropSlot_def Let_def fun_upd_idem split: option.split grant.split)

lemma dropSlot_scope [simp]:
  "effectiveMaintenanceScope (dropSlot h c) now = effectiveMaintenanceScope c now"
  by (rule effectiveMaintenanceScope_cong)
     (auto simp: dropSlot_def split: option.split grant.split)

lemma keyInflight_dropSlot:
  assumes inv: "accounted c"
  shows "keyInflight (dropSlot h c) j =
           count_entry (card (holders ((outstanding c)(h := None)) (RequestGrant (Some j))))"
proof (cases "outstanding c h")
  case None
  then show ?thesis using inv by (simp add: accounted_def dropSlot_def fun_upd_idem)
next
  case (Some g)
  have fin: "finite (dom (outstanding c))"
    and key: "\<And>k. keyInflight c k = count_entry (card (holders (outstanding c) (RequestGrant (Some k))))"
    using inv by (auto simp: accounted_def)
  note del = card_holders_del [OF fin Some]
  show ?thesis
  proof (cases "g = RequestGrant (Some j)")
    case True
    then obtain n where n: "card (holders (outstanding c) (RequestGrant (Some j))) = Suc n"
      "card (holders ((outstanding c)(h := None)) (RequestGrant (Some j))) = n"
      using del [of "RequestGrant (Some j)"]
      by (cases "card (holders (outstanding c) (RequestGrant (Some j)))") auto
    then show ?thesis using Some True key [of j]
        decKeyInflight_keyInflight
          [of "c\<lparr>outstanding := (outstanding c)(h := None), inflight := inflight c - 1\<rparr>" j n]
      by (simp add: dropSlot_def del: decKeyInflight.simps count_entry_simps)
  next
    case False
    then have "card (holders ((outstanding c)(h := None)) (RequestGrant (Some j))) =
               card (holders (outstanding c) (RequestGrant (Some j)))"
      using del [of "RequestGrant (Some j)"] by simp
    moreover have "keyInflight (dropSlot h c) j = keyInflight c j"
    proof (cases g)
      case (RequestGrant k)
      then show ?thesis using Some False by (cases k) (auto simp: dropSlot_def Let_def)
    qed (use Some in \<open>simp add: dropSlot_def\<close>)
    ultimately show ?thesis using key by simp
  qed
qed

lemma background_dropSlot:
  assumes "accounted c"
  shows "background (dropSlot h c) = Some i \<longleftrightarrow> ((outstanding c)(h := None)) i = Some BackgroundGrant"
proof (cases "outstanding c h")
  case None
  then show ?thesis using assms by (auto simp: accounted_def dropSlot_def fun_upd_idem)
next
  case (Some g)
  have bg: "background c = Some k \<longleftrightarrow> outstanding c k = Some BackgroundGrant" for k
    using assms by (simp add: accounted_def)
  show ?thesis using Some bg [of h] bg [of i]
    by (cases g) (auto simp: dropSlot_def)
qed

lemma inflight_dropSlot:
  assumes "accounted c"
  shows "inflight (dropSlot h c) = int (card (dom ((outstanding c)(h := None))))"
proof (cases "outstanding c h")
  case None
  then show ?thesis using assms by (simp add: accounted_def dropSlot_def fun_upd_idem)
next
  case (Some g)
  then have "h \<in> dom (outstanding c)" by auto
  with Some assms card_dom_del [of "outstanding c" h g] show ?thesis
    unfolding accounted_def by (metis dropSlot_fields(5))
qed

lemma accounted_dropSlot:
  assumes inv: "accounted c"
  shows "accounted (dropSlot h c)"
proof -
  have "finite (dom ((outstanding c)(h := None)))"
    and "\<forall>i \<in> dom ((outstanding c)(h := None)). i < nextId c"
    using inv by (auto simp: accounted_def)
  then show ?thesis
    using keyInflight_dropSlot [OF inv] background_dropSlot [OF inv] inflight_dropSlot [OF inv]
    by (simp add: accounted_def dropSlot_fields)
qed

lemma within_slots_dropSlot:
  assumes inv: "accounted c" and ok: "within_slots c"
  shows "within_slots (dropSlot h c)"
proof -
  have "background (dropSlot h c) = (if background c = Some h then None else background c)"
    using inv by (auto simp: dropSlot_def accounted_def fun_upd_idem split: option.split grant.split)
  then have "requestHolders (dropSlot h c) \<subseteq> requestHolders c"
    by (auto simp: requestHolders_def dropSlot_fields split: if_splits)
  then have "card (requestHolders (dropSlot h c)) \<le> card (requestHolders c)"
    using inv by (simp add: card_mono)
  moreover have "inflight (dropSlot h c) \<le> inflight c"
    by (cases "h \<in> dom (outstanding c)")
       (simp add: dropSlot_fields, simp add: dropSlot_def domIff)
  ultimately show ?thesis using ok by (auto simp: within_slots_def dropSlot_fields)
qed

lemma queue_ok_dropSlot: "queue_ok c \<Longrightarrow> queue_ok (dropSlot h c)"
  by (simp add: queue_ok_def dropSlot_fields)

subsection \<open>Draining\<close>

lemma accounted_settled [simp]:
  "accounted (c\<lparr>settled := xs\<rparr>) = accounted c" "accounted (c\<lparr>ownerWaiters := ws\<rparr>) = accounted c"
  "within_slots (c\<lparr>settled := xs\<rparr>) = within_slots c"
  "within_slots (c\<lparr>ownerWaiters := ws\<rparr>) = within_slots c"
  by (simp_all add: accounted_def within_slots_def requestHolders_def)

lemma admitWaiter_takeSlot:
  "admitWaiter w c =
     (snd (takeSlot (w_keyId w) c))\<lparr>settled := settled c @ [(w_id w, Resolved (nextId c))]\<rparr>"
  by (cases "w_keyId w") (simp_all add: admitWaiter_def takeSlot_def makeRelease_def)

lemma drainSpec_slots:
  "accounted c \<Longrightarrow> within_slots c \<Longrightarrow>
     accounted (snd (drainSpec ws c)) \<and> within_slots (snd (drainSpec ws c))"
  by (induction ws c rule: drainSpec.induct)
     (auto simp: split_beta admitWaiter_takeSlot accounted_takeSlot within_slots_takeSlot
      simp del: takeSlot_fields)

lemma nextId_drainSpec: "nextId c \<le> nextId (snd (drainSpec ws c))"
  by (induction ws c rule: drainSpec.induct) (auto simp: split_beta)

lemma drainFrom_promises: "mset (promises (drainFrom 0 c)) = mset (promises c)"
proof -
  let ?ws = "ownerWaiters c"
  have "mset (map w_id ?ws) =
        image_mset w_id (mset (fst (drainSpec ?ws c)) + mset (admittedBy ?ws c))"
    by (subst drainSpec_partition [symmetric]) simp
  then show ?thesis using drainSpec_settled [of ?ws c]
    by (simp add: drainFrom_0 del: map_map)
qed

lemma nextId_drainFrom: "nextId c \<le> nextId (drainFrom 0 c)"
  by (simp add: drainFrom_0 nextId_drainSpec)

lemma queue_ok_drainFrom:
  assumes "queue_ok c"
  shows "queue_ok (drainFrom 0 c)"
proof -
  have "set (promises (drainFrom 0 c)) = set (promises c)"
    and "distinct (promises (drainFrom 0 c)) = distinct (promises c)"
    using drainFrom_promises [of c] by (rule mset_eq_setD, rule mset_eq_imp_distinct_iff)
  then show ?thesis
    using assms nextId_drainFrom [of c] unfolding queue_ok_def by (metis less_le_trans)
qed

lemma ctl_inv_drainQueue [inv_intros]: "ctl_inv c \<Longrightarrow> ctl_inv (drainQueue now c)"
  using queue_ok_drainFrom [of c] drainSpec_slots [of c "ownerWaiters c"]
  by (simp add: ctl_inv_def drainQueue_def drainFrom_0)

section \<open>Every operation keeps the invariant\<close>

lemma ctl_inv_release [inv_intros]: "ctl_inv c \<Longrightarrow> ctl_inv (release now h c)"
  by (simp add: release_dropSlot ctl_inv_drainQueue)
     (metis ctl_inv_def ctl_inv_drainQueue accounted_dropSlot within_slots_dropSlot queue_ok_dropSlot)

lemma queue_ok_takeSlot: "queue_ok c \<Longrightarrow> queue_ok (snd (takeSlot k c))"
  by (auto simp: queue_ok_def less_Suc_eq)

lemma queue_ok_enqueue:
  "queue_ok c \<Longrightarrow>
     queue_ok (c\<lparr>ownerWaiters := ownerWaiters c @ [\<lparr>w_id = nextId c, w_keyId = k, w_keyMaxParallel = m\<rparr>],
                nextId := Suc (nextId c)\<rparr>)"
  by (auto simp: queue_ok_def less_Suc_eq)

lemma accounted_nextId: "accounted c \<Longrightarrow> accounted (c\<lparr>nextId := Suc (nextId c)\<rparr>)"
  by (auto simp: accounted_def less_Suc_eq)

lemma admit_Admit_iff:
  "fst (admit st req cfg) = Admit \<longleftrightarrow>
     \<not> (st_maintenanceMode st = Some True \<and>
        (rq_lane req = GuestLane \<or> st_maintenanceScope st = Some ScopeExclusive)) \<and>
     rq_keyInflight req < rq_keyMaxParallel req \<and> st_inflight st < st_maxInflight st"
  by (simp add: admit_def Let_def not_le)

lemma state_fields [simp]:
  "st_maxInflight (state c now) = maxInflight c" "st_inflight (state c now) = inflight c"
  "st_maintenanceMode (state c now) = Some (effectiveMaintenanceScope c now \<noteq> None)"
  "st_maintenanceScope (state c now) = effectiveMaintenanceScope c now"
  by (simp_all add: state_def Let_def)

lemma ctl_inv_acquireDecide [inv_intros]:
  assumes "ctl_inv c"
  shows "ctl_inv (snd (acquireDecide now aborted req c))"
proof (cases "fst (admit (state c now) req (controllerConfig c))")
  case Admit
  then have "inflight c < maxInflight c" by (simp add: admit_Admit_iff)
  with assms have "ctl_inv (snd (takeSlot (rq_keyId req) c))"
    by (simp add: ctl_inv_def accounted_takeSlot within_slots_takeSlot queue_ok_takeSlot)
  with assms Admit show ?thesis by (simp add: acquireDecide_def split_beta)
next
  case (Queue ms)
  let ?c = "snd (acquireDecide now aborted req c)"
  show ?thesis
  proof (cases aborted)
    case False
    have "accounted ?c" using assms Queue False accounted_nextId [of c]
      by (simp add: acquireDecide_def ctl_inv_def accounted_def)
    moreover have "within_slots ?c" using assms Queue False
      by (simp add: acquireDecide_def ctl_inv_def within_slots_def requestHolders_def)
    moreover have "queue_ok ?c" using assms Queue False queue_ok_enqueue [of c]
      by (simp add: acquireDecide_def ctl_inv_def)
    ultimately show ?thesis by (simp add: ctl_inv_def)
  qed (use assms in \<open>simp add: acquireDecide_def\<close>)
next
  case (Reject s)
  with assms show ?thesis by (simp add: acquireDecide_def)
qed

lemma ctl_inv_unaccounted [simp]:
  "ctl_inv (c\<lparr>abortedBackground := hs\<rparr>) = ctl_inv c" "ctl_inv (c\<lparr>activeModel := m\<rparr>) = ctl_inv c"
  "ctl_inv (c\<lparr>maintenanceMode := b, maintenanceScope := sc, maintenanceExpiresAtMs := e\<rparr>) = ctl_inv c"
  by (simp_all add: ctl_inv_def accounted_def within_slots_def requestHolders_def queue_ok_def)

lemma ctl_inv_acquire [inv_intros]: "ctl_inv c \<Longrightarrow> ctl_inv (snd (acquire now aborted req c))"
  by (simp add: acquire_def ctl_inv_acquireDecide split: option.split)

lemma ctl_inv_discard [inv_intros]:
  assumes "ctl_inv c"
  shows "ctl_inv (discard now wid err c)"
proof (cases "wid \<in> set (map w_id (ownerWaiters c))")
  case True
  let ?c = "c\<lparr>ownerWaiters := filter (\<lambda>w. w_id w \<noteq> wid) (ownerWaiters c),
              settled := settled c @ [(wid, err)]\<rparr>"
  have "queue_ok ?c"
    using assms True by (auto simp: ctl_inv_def queue_ok_def distinct_map inj_on_def)
  with assms have "ctl_inv ?c" by (simp add: ctl_inv_def)
  with True show ?thesis by (simp add: discard_def ctl_inv_drainQueue)
qed (use assms in \<open>simp add: discard_def\<close>)

lemma ctl_inv_background [inv_intros]:
  assumes "ctl_inv c"
  shows "ctl_inv (snd (tryAcquireBackground c))"
proof (cases "background c \<noteq> None \<or> inflight c \<noteq> 0 \<or> ownerWaiters c \<noteq> []")
  case False
  let ?c = "snd (tryAcquireBackground c)"
  have empty: "outstanding c = Map.empty" and bg: "background c = None"
    using False assms by (auto simp: ctl_inv_def accounted_def)
  have c': "?c = c\<lparr>inflight := inflight c + 1, outstanding := [nextId c \<mapsto> BackgroundGrant],
                   nextId := Suc (nextId c), background := Some (nextId c)\<rparr>"
    using False empty by (simp add: tryAcquireBackground_def makeRelease_def)
  have "accounted ?c" using assms empty bg
    by (auto simp: c' ctl_inv_def accounted_def holders_def)
  moreover have "within_slots ?c" using False by (simp add: c' within_slots_def requestHolders_def)
  moreover have "queue_ok ?c" using assms by (auto simp: c' ctl_inv_def queue_ok_def less_Suc_eq)
  ultimately show ?thesis by (simp add: ctl_inv_def)
qed (use assms in \<open>simp add: tryAcquireBackground_def\<close>)

lemma ctl_inv_setMaintenanceMode [inv_intros]:
  "ctl_inv c \<Longrightarrow> ctl_inv (snd (setMaintenanceMode now on ttlMs scope c))"
  by (simp add: setMaintenanceMode_def Let_def ctl_inv_drainQueue)

lemma ctl_inv_setActiveModel [inv_intros]: "ctl_inv c \<Longrightarrow> ctl_inv (setActiveModel m c)"
  by (simp add: setActiveModel_def)

lemma ctl_inv_new: "newController cfg = Inr c \<Longrightarrow> ctl_inv c"
  by (auto simp: newController_def ctl_inv_def accounted_def within_slots_def requestHolders_def
      queue_ok_def holders_def split: if_splits)

section \<open>Runs of the controller\<close>

text \<open>
  One step is one call into the controller, with any clock reading: the event loop runs
  them one at a time. \<open>resume\<close> is the rest of an \<open>acquire\<close> that awaited a background
  lease; timers and abort listeners of waiters call \<open>discard\<close>.
\<close>

inductive ctl_step :: "AdmissionController \<Rightarrow> AdmissionController \<Rightarrow> bool" where
  step_acquire: "ctl_step c (snd (acquire now aborted req c))"
| step_resume: "ctl_step c (snd (acquireDecide now aborted req c))"
| step_release: "ctl_step c (release now h c)"
| step_timeout: "ctl_step c (discard now wid (queueTimeout c) c)"
| step_cancel: "ctl_step c (discard now wid Cancelled c)"
| step_background: "ctl_step c (snd (tryAcquireBackground c))"
| step_maintenance: "ctl_step c (snd (setMaintenanceMode now on ttlMs scope c))"
| step_model: "ctl_step c (setActiveModel m c)"

inductive ctl_reachable :: "ControllerOptions \<Rightarrow> AdmissionController \<Rightarrow> bool" for cfg where
  reach_new: "newController cfg = Inr c \<Longrightarrow> ctl_reachable cfg c"
| reach_step: "ctl_reachable cfg c \<Longrightarrow> ctl_step c c' \<Longrightarrow> ctl_reachable cfg c'"

lemma ctl_inv_step: "ctl_step c c' \<Longrightarrow> ctl_inv c \<Longrightarrow> ctl_inv c'"
  by (induction rule: ctl_step.induct) (auto intro: inv_intros)

lemma ctl_inv_reachable: "ctl_reachable cfg c \<Longrightarrow> ctl_inv c"
  by (induction rule: ctl_reachable.induct) (auto intro: ctl_inv_new ctl_inv_step)

section \<open>The controller as a slot pool\<close>

definition controllerCapacity :: "AdmissionController \<Rightarrow> nat" where
  "controllerCapacity c = nat (max 1 (maxInflight c))"

lemma dom_drainSpec_mono: "dom (outstanding c) \<subseteq> dom (outstanding (snd (drainSpec ws c)))"
proof (induction ws c rule: drainSpec.induct)
  case (2 w ws c)
  have "dom (outstanding c) \<subseteq> dom (outstanding (admitWaiter w c))" by auto
  with 2 show ?case by (simp add: split_beta del: admitWaiter_fields) (meson order_trans)
qed simp

lemma dom_drainSpec_fresh:
  "dom (outstanding (snd (drainSpec ws c))) \<subseteq> dom (outstanding c) \<union> {nextId c..}"
proof (induction ws c rule: drainSpec.induct)
  case (2 w ws c)
  have "dom (outstanding (admitWaiter w c)) \<union> {nextId (admitWaiter w c)..}
          \<subseteq> dom (outstanding c) \<union> {nextId c..}"
    by (simp add: subset_iff)
  with 2 show ?case by (simp add: split_beta del: admitWaiter_fields) (meson Un_least order_trans)
qed simp

lemma dom_drainQueue:
  "dom (outstanding c) \<subseteq> dom (outstanding (drainQueue now c))"
  "dom (outstanding (drainQueue now c)) \<subseteq> dom (outstanding c) \<union> {nextId c..}"
  "nextId c \<le> nextId (drainQueue now c)"
  using dom_drainSpec_mono [of c "ownerWaiters c"] dom_drainSpec_fresh [of "ownerWaiters c" c]
    nextId_drainFrom [of c]
  by (simp_all add: drainQueue_def drainFrom_0)

interpretation adm: slot_pool ctl_inv "\<lambda>c. dom (outstanding c)" nextId controllerCapacity release
proof unfold_locales
  fix c :: AdmissionController and t h
  assume inv: "ctl_inv c"
  then show "dom (outstanding c) \<subseteq> {..<nextId c}"
    and "card (dom (outstanding c)) \<le> controllerCapacity c"
    by (auto simp: ctl_inv_def accounted_def within_slots_def controllerCapacity_def)
  show "ctl_inv (release t h c)" using inv by (rule ctl_inv_release)
  show "h \<notin> dom (outstanding c) \<Longrightarrow> release t h c = c" by (simp add: release_dropSlot)
  have drop: "dom (outstanding (dropSlot h c)) = dom (outstanding c) - {h}"
    by (simp add: dropSlot_fields)
  show "dom (outstanding (release t h c)) \<subseteq> dom (outstanding c) \<union> {nextId c..}"
    using dom_drainQueue(2) [of t "dropSlot h c"] drop
    by (auto simp: release_dropSlot dropSlot_fields)
  show "nextId c \<le> nextId (release t h c)"
    using dom_drainQueue(3) [of "dropSlot h c" t] by (simp add: release_dropSlot dropSlot_fields)
  assume "h \<in> dom (outstanding c)"
  moreover from this have "h < nextId c" using inv by (auto simp: ctl_inv_def accounted_def)
  ultimately show "h \<notin> dom (outstanding (release t h c))"
    using dom_drainQueue(2) [of t "dropSlot h c"] drop
    by (auto simp: release_dropSlot dropSlot_fields)
qed

section \<open>Properties\<close>

text \<open>A controller with one slot, and requests of two lanes, for the witnesses.\<close>

definition demo_options :: ControllerOptions where
  "demo_options = \<lparr>opt_maxInflight = 1, opt_ownerQueueMaxMs = 5000, opt_retryAfterAtCapSeconds = 2,
     opt_maintenanceRetryAfterSeconds = None, opt_maintenanceMode = None,
     opt_startupExclusiveUntilMs = None\<rparr>"

definition demo_request :: "Lane \<Rightarrow> string \<Rightarrow> AdmissionRequest" where
  "demo_request lane key = \<lparr>rq_lane = lane, rq_requestedModel = None, rq_keyMaxParallel = 2,
     rq_keyInflight = 0, rq_keyId = Some key\<rparr>"

definition demo_controller :: AdmissionController where
  "demo_controller = \<lparr>maxInflight = 1, ownerQueueMaxMs = 5000, retryAfterAtCapSeconds = 2,
     maintenanceRetryAfterSeconds = 30, inflight = 0, activeModel = None, maintenanceMode = False,
     maintenanceScope = ScopeGuest, startupExclusiveUntilMs = None, maintenanceExpiresAtMs = None,
     ownerWaiters = [], keyInflight = Map.empty, background = None, outstanding = Map.empty,
     settled = [], abortedBackground = [], nextId = 0\<rparr>"

lemma demo_new: "newController demo_options = Inr demo_controller"
  by (simp add: newController_def demo_options_def demo_controller_def
      MAINTENANCE_RETRY_AFTER_DEFAULT_def)

text \<open>
  C1: in every reachable state the counter \<open>inflight\<close> is the number of release closures
  still to be called, the per-key counters agree with them, and the requests that hold a slot
  never exceed the slot budget \<open>maxInflight\<close>.
\<close>

theorem admission_slots:
  assumes "ctl_reachable cfg c"
  shows "inflight c = int (card (dom (outstanding c))) \<and>
         int (card (requestHolders c)) \<le> max 0 (maxInflight c) \<and>
         get_or (keyInflight c) k 0 = int (card (holders (outstanding c) (RequestGrant (Some k))))"
  using ctl_inv_reachable [OF assms]
  by (simp add: ctl_inv_def accounted_def within_slots_def get_or_count_entry)

definition demo_busy :: AdmissionController where
  "demo_busy = snd (acquire 0 False (demo_request OwnerLane ''a'') demo_controller)"

definition demo_queued :: AdmissionController where
  "demo_queued = snd (acquire 1 False (demo_request OwnerLane ''a'')
     (snd (acquire 1 False (demo_request OwnerLane ''b'') demo_busy)))"

lemmas demo_defs = demo_queued_def demo_busy_def demo_controller_def demo_request_def

lemmas admission_eval = acquire_def acquireDecide_def admit_def controllerConfig_def state_def
  effectiveMaintenanceScope_def effectiveMaintenanceMode_def startupExclusiveActive_def
  takeSlot_def makeRelease_def Let_def

lemma demo_busy_reachable: "ctl_reachable demo_options demo_busy"
  unfolding demo_busy_def
  by (rule reach_step [OF reach_new [OF demo_new] step_acquire])

lemma demo_queued_reachable: "ctl_reachable demo_options demo_queued"
  unfolding demo_queued_def
  by (rule reach_step [OF reach_step [OF demo_busy_reachable step_acquire] step_acquire])

lemma demo_busy_eval:
  "demo_busy = demo_controller\<lparr>inflight := 1, keyInflight := [''a'' \<mapsto> 1],
     outstanding := [0 \<mapsto> RequestGrant (Some ''a'')], nextId := 1\<rparr>"
  by (simp add: demo_defs admission_eval get_or_def)

lemma demo_queued_eval:
  "demo_queued = demo_busy\<lparr>ownerWaiters :=
     [\<lparr>w_id = 1, w_keyId = Some ''b'', w_keyMaxParallel = 2\<rparr>,
      \<lparr>w_id = 2, w_keyId = Some ''a'', w_keyMaxParallel = 2\<rparr>], nextId := 3\<rparr>"
  unfolding demo_queued_def demo_busy_eval by (simp add: demo_defs admission_eval get_or_def)

theorem admission_slots_witness:
  "ctl_reachable demo_options demo_queued \<and> inflight demo_queued = 1 \<and>
   card (dom (outstanding demo_queued)) = 1"
  using admission_slots [OF demo_queued_reachable] demo_queued_reachable
  by (simp add: demo_queued_eval demo_busy_eval)

text \<open>
  C32: the index loop of \<open>drainQueue\<close> is the one-pass specification: it walks the queue once,
  in order, skipping the waiters whose key is capped and stopping when the slots are used up.
\<close>

theorem drainQueue_meets_spec:
  assumes "\<not> exclusive c now"
  shows "drainQueue now c =
           (let (rest, c') = drainSpec (ownerWaiters c) c in c'\<lparr>ownerWaiters := rest\<rparr>)"
  using assms by (simp add: drainQueue_def drainFrom_0 split_beta)

theorem drainQueue_meets_spec_witness:
  "\<not> exclusive (demo_queued\<lparr>inflight := 0\<rparr>) 5 \<and>
   map w_id (ownerWaiters (drainQueue 5 (demo_queued\<lparr>inflight := 0\<rparr>))) = [2]"
proof -
  have free: "\<not> exclusive (demo_queued\<lparr>inflight := 0\<rparr>) 5"
    by (simp add: demo_queued_eval demo_busy_eval demo_controller_def admission_eval)
  show ?thesis using drainQueue_meets_spec [OF free] free
    by (simp add: demo_queued_eval demo_busy_eval demo_controller_def capped_def
        currentKeyInflight_def admitWaiter_def takeSlot_def makeRelease_def)
qed

text \<open>
  Outside an exclusive window a drain leaves no usable slot idle: if a slot is still free
  afterwards, every waiter left in the queue is at its own per-key cap.
\<close>

lemma drainQueue_work_conserving:
  assumes "\<not> exclusive c now"
    and "inflight (drainQueue now c) < maxInflight c"
    and "w \<in> set (ownerWaiters (drainQueue now c))"
  shows "currentKeyInflight (drainQueue now c) (w_keyId w) \<ge> w_keyMaxParallel w"
  using assms drainSpec_work_conserving [of "ownerWaiters c" c w]
  by (simp add: drainQueue_def drainFrom_0 capped_def currentKeyInflight_def split: option.splits)

definition demo_capped :: AdmissionController where
  "demo_capped = demo_queued\<lparr>maxInflight := 9, keyInflight := [''a'' \<mapsto> 2], inflight := 2\<rparr>"

lemma drainQueue_work_conserving_witness:
  "map w_id (ownerWaiters (drainQueue 5 demo_capped)) = [2] \<and>
   currentKeyInflight (drainQueue 5 demo_capped) (Some ''a'') \<ge> 2"
proof -
  have free: "\<not> exclusive demo_capped 5"
    by (simp add: demo_capped_def demo_queued_eval demo_busy_eval demo_controller_def admission_eval)
  have d: "drainQueue 5 demo_capped = demo_capped\<lparr>ownerWaiters :=
      [\<lparr>w_id = 2, w_keyId = Some ''a'', w_keyMaxParallel = 2\<rparr>],
      keyInflight := [''a'' \<mapsto> 2, ''b'' \<mapsto> 1], inflight := 3, settled := [(1, Resolved 3)],
      outstanding := [0 \<mapsto> RequestGrant (Some ''a''), 3 \<mapsto> RequestGrant (Some ''b'')], nextId := 4\<rparr>"
    using free
    by (simp add: demo_capped_def demo_queued_eval demo_busy_eval demo_controller_def capped_def
        drainQueue_def drainFrom_0 currentKeyInflight_def admitWaiter_def takeSlot_def
        makeRelease_def get_or_def)
  have "currentKeyInflight (drainQueue 5 demo_capped) (Some ''a'') \<ge> 2"
    using drainQueue_work_conserving [OF free, of "\<lparr>w_id = 2, w_keyId = Some ''a'', w_keyMaxParallel = 2\<rparr>"]
    unfolding d by (simp add: demo_capped_def)
  then show ?thesis unfolding d by simp
qed

text \<open>
  A drain never overtakes: if the queue holds \<open>w\<close> before \<open>v\<close>, both of one key and \<open>v\<close>
  with no larger cap, and the drain admits \<open>v\<close>, then it admits \<open>w\<close> as well, and the promises
  it settles are settled in queue order.
\<close>

lemma drainQueue_fifo:
  assumes "queue_ok c" and "\<not> exclusive c now" and "ownerWaiters c = xs @ w # ys"
    and "v \<in> set ys" and "w_keyId v = w_keyId w" and "w_keyMaxParallel v \<le> w_keyMaxParallel w"
    and "w_id v \<in> set (map fst (settled (drainQueue now c)))"
  shows "w_id w \<in> set (map fst (settled (drainQueue now c))) \<and>
         (\<exists>adm. subseq adm (ownerWaiters c) \<and>
            map fst (settled (drainQueue now c)) = map fst (settled c) @ map w_id adm)"
proof -
  let ?ws = "ownerWaiters c"
  have settled: "map fst (settled (drainQueue now c)) = map fst (settled c) @ map w_id (admittedBy ?ws c)"
    using assms(2) drainSpec_settled [of ?ws c] by (simp add: drainQueue_def drainFrom_0)
  have dist: "distinct (map w_id ?ws)" and old: "w_id v \<notin> set (map fst (settled c))"
    using assms(1,3,4) by (auto simp: queue_ok_def)
  then obtain u where u: "u \<in> set (admittedBy ?ws c)" "w_id u = w_id v"
    using assms(7) settled by (auto simp del: set_map simp: image_iff set_map [of w_id])
  have "u \<in> set ?ws" using u(1) drainSpec_partition [of ?ws c]
    by (metis set_mset_mset set_mset_union UnCI)
  moreover have "v \<in> set ?ws" using assms(3,4) by simp
  moreover have "inj_on w_id (set ?ws)" using dist by (simp add: distinct_map)
  ultimately have "u = v" using u(2) by (metis inj_onD)
  with admittedBy_fifo [OF dist assms(3,4,5,6)] u(1) have "w \<in> set (admittedBy ?ws c)" by simp
  with settled admittedBy_subseq [of ?ws c] show ?thesis by auto
qed

text \<open>
  C4: while an exclusive window is in force at the time of the call, no call of the inference
  path hands out a slot: an acquire (new or resumed after a background drain) leaves the set
  of held slots unchanged, a release only removes its own, and a waiter that leaves the queue
  lets no other one in.
\<close>

theorem exclusive_fence:
  assumes "exclusive c now"
  shows "outstanding (snd (acquire now aborted req c)) = outstanding c \<and>
         outstanding (snd (acquireDecide now aborted req c)) = outstanding c \<and>
         dom (outstanding (release now h c)) = dom (outstanding c) - {h} \<and>
         outstanding (discard now wid err c) = outstanding c"
proof -
  have sc: "exclusive (c\<lparr>ownerWaiters := ws, settled := xs\<rparr>) now" for ws xs
    using assms effectiveMaintenanceScope_cong [of "c\<lparr>ownerWaiters := ws, settled := xs\<rparr>" c now]
    by simp
  have "fst (admit (state c now) req (controllerConfig c)) \<noteq> Admit"
    using assms by (simp add: admit_Admit_iff)
  then show ?thesis
    using assms sc
    by (auto simp: acquire_def acquireDecide_def release_dropSlot discard_def drainQueue_def
        dropSlot_fields split: AdmissionResult.splits option.splits)
qed

lemma drainQueue_fifo_witness:
  "let c = demo_queued\<lparr>maxInflight := 3, ownerWaiters :=
             [\<lparr>w_id = 1, w_keyId = Some ''b'', w_keyMaxParallel = 2\<rparr>,
              \<lparr>w_id = 2, w_keyId = Some ''b'', w_keyMaxParallel = 2\<rparr>]\<rparr>
   in 1 \<in> set (map fst (settled (drainQueue 5 c)))"
proof -
  let ?w = "\<lparr>w_id = 1, w_keyId = Some ''b'', w_keyMaxParallel = 2\<rparr>"
  let ?v = "\<lparr>w_id = 2, w_keyId = Some ''b'', w_keyMaxParallel = 2\<rparr>"
  let ?c = "demo_queued\<lparr>maxInflight := 3, ownerWaiters := [?w, ?v]\<rparr>"
  have q: "queue_ok ?c" and free: "\<not> exclusive ?c 5"
    by (simp_all add: queue_ok_def demo_queued_eval demo_busy_eval demo_controller_def admission_eval)
  have v: "w_id ?v \<in> set (map fst (settled (drainQueue 5 ?c)))"
    using free
    by (simp add: drainQueue_def drainFrom_0 demo_queued_eval demo_busy_eval demo_controller_def
        capped_def currentKeyInflight_def admitWaiter_def takeSlot_def makeRelease_def get_or_def)
  show ?thesis using drainQueue_fifo [OF q free, of "[]" ?w "[?v]" ?v] v by simp
qed

theorem exclusive_fence_witness:
  "let c = snd (setMaintenanceMode 0 True (Some 1000) ScopeExclusive demo_controller)
   in exclusive c 500 \<and>
      outstanding (snd (acquire 500 False (demo_request OwnerLane ''a'') c)) = Map.empty"
proof -
  let ?c = "snd (setMaintenanceMode 0 True (Some 1000) ScopeExclusive demo_controller)"
  have ex: "exclusive ?c 500"
    by (simp add: setMaintenanceMode_def demo_controller_def admission_eval)
  have "outstanding ?c = Map.empty" by (simp add: setMaintenanceMode_def demo_controller_def Let_def)
  with ex exclusive_fence [OF ex, of False "demo_request OwnerLane ''a''"] show ?thesis
    by (simp add: Let_def)
qed

text \<open>
  Release closures are idempotent and never revive. From a reachable state, any batch of
  calls of release closures (any order, repetitions, any clock readings) that contains the
  closure \<open>h\<close> leaves \<open>h\<close> released, keeps the accounting invariant, and a second call right
  after the first changes nothing.
\<close>

lemma release_idempotent:
  assumes "ctl_reachable cfg c" and "(t, h) \<in> set calls" and "h \<in> dom (outstanding c)"
  shows "h \<notin> dom (outstanding (fold (\<lambda>(t, h). release t h) calls c)) \<and>
         ctl_inv (fold (\<lambda>(t, h). release t h) calls c) \<and>
         release t' h (release t h c) = release t h c"
  using adm.batch_releases [OF ctl_inv_reachable [OF assms(1)] assms(2,3)]
    adm.inv_batch [OF ctl_inv_reachable [OF assms(1)]]
    adm.double_release [OF ctl_inv_reachable [OF assms(1)]]
  by simp

lemma release_idempotent_witness:
  "0 \<in> dom (outstanding demo_queued) \<and>
   0 \<notin> dom (outstanding (fold (\<lambda>(t, h). release t h) [(7, 0), (8, 0)] demo_queued))"
proof -
  have h: "0 \<in> dom (outstanding demo_queued)"
    by (simp add: demo_queued_eval demo_busy_eval)
  have m: "(7 :: int, 0 :: nat) \<in> set [(7, 0), (8, 0)]" by simp
  show ?thesis using release_idempotent [OF demo_queued_reachable m h] h by blast
qed

text \<open>
  What \<open>admit\<close> promises the two lanes. A guest is never queued. An owner is turned away
  only by an exclusive window or by its own key's cap, is admitted whenever a slot is free, and
  waits at most the configured queue time otherwise. A rejection caused by the per-key cap asks
  for at least one second of patience.
\<close>

lemma admit_lanes:
  "(rq_lane req = GuestLane \<longrightarrow> (\<forall>ms. fst (admit st req cfg) \<noteq> Queue ms)) \<and>
   (rq_lane req = OwnerLane \<longrightarrow>
      (case fst (admit st req cfg) of
         Reject s \<Rightarrow>
           (st_maintenanceMode st = Some True \<and> st_maintenanceScope st = Some ScopeExclusive) \<or>
           (rq_keyMaxParallel req \<le> rq_keyInflight req \<and> 1 \<le> s)
       | Admit \<Rightarrow> st_inflight st < st_maxInflight st \<and> rq_keyInflight req < rq_keyMaxParallel req
       | Queue ms \<Rightarrow> st_maxInflight st \<le> st_inflight st \<and> ms = cfg_ownerQueueMaxMs cfg))"
  by (auto simp: admit_def Let_def)

lemma admit_lanes_witness:
  "fst (admit (state demo_busy 0) (demo_request GuestLane ''g'') (controllerConfig demo_busy)) = Reject 2 \<and>
   (\<forall>ms. fst (admit (state demo_busy 0) (demo_request GuestLane ''g'') (controllerConfig demo_busy)) \<noteq> Queue ms)"
  using admit_lanes [of "demo_request GuestLane ''g''" "state demo_busy 0" "controllerConfig demo_busy"]
  by (simp add: demo_busy_eval demo_controller_def demo_request_def admission_eval)

text \<open>
  The per-key cap survives a drain. If all queued requests of a key carry at most the cap
  \<open>m\<close> (a key has one cap) and the key has no more than \<open>m\<close> slots, it has no more than \<open>m\<close>
  afterwards; and a direct admission whose caller reports the controller's own count keeps
  the key within its cap.
\<close>

lemma per_key_cap:
  assumes "\<And>w. w \<in> set (ownerWaiters c) \<Longrightarrow> w_keyId w = Some k \<Longrightarrow> w_keyMaxParallel w \<le> m"
    and "currentKeyInflight c (Some k) \<le> m"
  shows "currentKeyInflight (drainQueue now c) (Some k) \<le> m \<and>
         (rq_keyId req = Some k \<and> rq_keyInflight req = currentKeyInflight c (Some k) \<and>
          rq_keyMaxParallel req \<le> m \<longrightarrow>
          currentKeyInflight (snd (acquireDecide now aborted req c)) (Some k) \<le> m)"
proof
  have "currentKeyInflight (drainFrom 0 c) (Some k) \<le> m"
    using drainSpec_key_cap [OF assms] by (simp add: drainFrom_0 currentKeyInflight_def)
  then show "currentKeyInflight (drainQueue now c) (Some k) \<le> m"
    using assms(2) by (simp add: drainQueue_def)
  have "fst (admit (state c now) req (controllerConfig c)) = Admit \<Longrightarrow>
        rq_keyInflight req < rq_keyMaxParallel req" by (simp add: admit_Admit_iff)
  then show "rq_keyId req = Some k \<and> rq_keyInflight req = currentKeyInflight c (Some k) \<and>
     rq_keyMaxParallel req \<le> m \<longrightarrow>
     currentKeyInflight (snd (acquireDecide now aborted req c)) (Some k) \<le> m"
    using assms(2)
    by (auto simp: acquireDecide_def split_beta currentKeyInflight_def split: AdmissionResult.split)
qed

lemma per_key_cap_witness:
  "currentKeyInflight (drainQueue 5 demo_queued) (Some ''a'') \<le> 2"
proof -
  have "w_keyMaxParallel w \<le> 2" if "w \<in> set (ownerWaiters demo_queued)" for w
    using that by (auto simp: demo_queued_eval)
  moreover have "currentKeyInflight demo_queued (Some ''a'') \<le> 2"
    by (simp add: demo_queued_eval demo_busy_eval currentKeyInflight_def)
  ultimately show ?thesis using per_key_cap [of demo_queued "''a''" 2 5] by blast
qed

end
