(* ===== verification/Upload_Admission.thy ===== *)
theory Upload_Admission
  imports Admission
begin

text \<open>
  The non-queuing gate for audio request bodies, \<open>src/homeserver/audio-upload-admission.ts\<close>:
  at most two uploads at a time, one of them a guest's, and at most two (or the key's own cap)
  per alias. It is a second provider of the slot-pool interface.
\<close>

record AudioUploadAdmission =
  active :: int
  guestActive :: int
  byAlias :: "string \<rightharpoonup> int"
  uploads :: "nat \<rightharpoonup> string \<times> Lane"
  nextUpload :: nat

definition newUploads :: AudioUploadAdmission where
  "newUploads = \<lparr>active = 0, guestActive = 0, byAlias = Map.empty, uploads = Map.empty, nextUpload = 0\<rparr>"

definition uploadAcquire ::
  "string \<Rightarrow> Lane \<Rightarrow> js_number \<Rightarrow> AudioUploadAdmission \<Rightarrow> nat option \<times> AudioUploadAdmission" where
  "uploadAcquire alias tier maxParallel u =
     (if \<not> isSafeInteger maxParallel \<or> the_int maxParallel < 0 then (None, u)
      else let keyCap = min 2 (the_int maxParallel)
           in if alias = [] \<or> keyCap = 0 \<or> active u \<ge> 2 \<or>
                 (tier = GuestLane \<and> guestActive u \<ge> 1) \<or> get_or (byAlias u) alias 0 \<ge> keyCap
              then (None, u)
              else (Some (nextUpload u),
                    u\<lparr>active := active u + 1,
                      guestActive := (if tier = GuestLane then guestActive u + 1 else guestActive u),
                      byAlias := (byAlias u)(alias \<mapsto> get_or (byAlias u) alias 0 + 1),
                      uploads := (uploads u)(nextUpload u \<mapsto> (alias, tier)),
                      nextUpload := Suc (nextUpload u)\<rparr>))"

text \<open>The closure an acquire returns; calling it again finds its upload gone.\<close>

definition uploadRelease :: "nat \<Rightarrow> AudioUploadAdmission \<Rightarrow> AudioUploadAdmission" where
  "uploadRelease h u =
     (case uploads u h of
        None \<Rightarrow> u
      | Some (alias, tier) \<Rightarrow>
          let remaining = get_or (byAlias u) alias 1 - 1
          in u\<lparr>active := active u - 1,
               guestActive := (if tier = GuestLane then guestActive u - 1 else guestActive u),
               byAlias := (if remaining \<le> 0 then (byAlias u)(alias := None)
                           else (byAlias u)(alias \<mapsto> remaining)),
               uploads := (uploads u)(h := None)\<rparr>)"

section \<open>The gate's accounting\<close>

abbreviation ofAlias :: "AudioUploadAdmission \<Rightarrow> string \<Rightarrow> nat set" where
  "ofAlias u a \<equiv> holding (uploads u) (\<lambda>g. fst g = a)"

abbreviation guestUploads :: "AudioUploadAdmission \<Rightarrow> nat set" where
  "guestUploads u \<equiv> holding (uploads u) (\<lambda>g. snd g = GuestLane)"

definition upload_inv :: "AudioUploadAdmission \<Rightarrow> bool" where
  "upload_inv u \<longleftrightarrow>
     finite (dom (uploads u)) \<and> (\<forall>h \<in> dom (uploads u). h < nextUpload u) \<and>
     active u = int (card (dom (uploads u))) \<and> guestActive u = int (card (guestUploads u)) \<and>
     (\<forall>a. byAlias u a = count_entry (card (ofAlias u a))) \<and>
     card (dom (uploads u)) \<le> 2 \<and> card (guestUploads u) \<le> 1"

lemma upload_inv_new: "upload_inv newUploads"
  by (simp add: upload_inv_def newUploads_def)

lemma upload_inv_acquire [inv_intros]:
  assumes inv: "upload_inv u"
  shows "upload_inv (snd (uploadAcquire alias tier mp u))"
proof (cases "fst (uploadAcquire alias tier mp u)")
  case None
  then show ?thesis using inv by (auto simp: uploadAcquire_def Let_def split: if_splits)
next
  case (Some h)
  let ?u = "snd (uploadAcquire alias tier mp u)"
  have fin: "finite (dom (uploads u))" and new: "nextUpload u \<notin> dom (uploads u)"
    using inv by (auto simp: upload_inv_def)
  have ok: "active u < 2" "tier = GuestLane \<Longrightarrow> guestActive u < 1"
    and u': "uploads ?u = (uploads u)(nextUpload u \<mapsto> (alias, tier))"
      "nextUpload ?u = Suc (nextUpload u)" "active ?u = active u + 1"
      "guestActive ?u = (if tier = GuestLane then guestActive u + 1 else guestActive u)"
      "byAlias ?u = (byAlias u)(alias \<mapsto> get_or (byAlias u) alias 0 + 1)"
    using Some by (auto simp: uploadAcquire_def Let_def split: if_splits)
  note cards = card_holding_upd_new [OF fin new, of "(alias, tier)"]
  show ?thesis
    unfolding upload_inv_def u'
    using inv ok new fin by (auto simp: upload_inv_def cards get_or_count_entry less_Suc_eq)
qed

lemma upload_inv_release [inv_intros]:
  assumes inv: "upload_inv u"
  shows "upload_inv (uploadRelease h u)"
proof (cases "uploads u h")
  case None
  then show ?thesis using inv by (simp add: uploadRelease_def)
next
  case (Some g)
  obtain al tier where g: "g = (al, tier)" by (cases g)
  let ?u = "uploadRelease h u" and ?m = "(uploads u)(h := None)"
  have fin: "finite (dom (uploads u))" using inv by (simp add: upload_inv_def)
  note del = card_holding_del [OF fin Some]
  have dom: "int (card (dom ?m)) = int (card (dom (uploads u))) - 1"
    using card_dom_del [OF fin Some] .
  have "byAlias ?u a = count_entry (card (holding ?m (\<lambda>g. fst g = a)))" for a
    using inv del [of "\<lambda>g. fst g = a"] Some g
    by (auto simp: uploadRelease_def Let_def upload_inv_def count_entry_def get_or_def)
  moreover have "guestActive ?u = int (card (holding ?m (\<lambda>g. snd g = GuestLane)))"
    using inv del [of "\<lambda>g. snd g = GuestLane"] Some g
    by (auto simp: uploadRelease_def Let_def upload_inv_def)
  moreover have "card (holding ?m (\<lambda>g. snd g = GuestLane)) \<le> 1"
    using inv del [of "\<lambda>g. snd g = GuestLane"] by (simp add: upload_inv_def)
  moreover have "uploads ?u = ?m" "nextUpload ?u = nextUpload u" "active ?u = active u - 1"
    using Some g by (simp_all add: uploadRelease_def Let_def)
  ultimately show ?thesis using inv dom fin unfolding upload_inv_def by auto
qed

interpretation upl: slot_pool upload_inv "\<lambda>u. dom (uploads u)" nextUpload "\<lambda>_. 2"
  "\<lambda>(_::unit). uploadRelease"
proof unfold_locales
  fix u :: AudioUploadAdmission and h
  assume inv: "upload_inv u"
  then show "dom (uploads u) \<subseteq> {..<nextUpload u}" and "card (dom (uploads u)) \<le> 2"
    by (auto simp: upload_inv_def)
  show "upload_inv (uploadRelease h u)" using inv by (rule upload_inv_release)
  show "h \<notin> dom (uploads u) \<Longrightarrow> uploadRelease h u = u"
    by (auto simp: uploadRelease_def split: option.splits)
  show "h \<in> dom (uploads u) \<Longrightarrow> h \<notin> dom (uploads (uploadRelease h u))"
    and "dom (uploads (uploadRelease h u)) \<subseteq> dom (uploads u) \<union> {nextUpload u..}"
    and "nextUpload u \<le> nextUpload (uploadRelease h u)"
    by (auto simp: uploadRelease_def Let_def split: option.splits prod.splits)
qed

section \<open>Runs and properties\<close>

inductive upload_reachable :: "AudioUploadAdmission \<Rightarrow> bool" where
  upload_start: "upload_reachable newUploads"
| upload_acquire: "upload_reachable u \<Longrightarrow> upload_reachable (snd (uploadAcquire alias tier mp u))"
| upload_release: "upload_reachable u \<Longrightarrow> upload_reachable (uploadRelease h u)"

lemma upload_inv_reachable: "upload_reachable u \<Longrightarrow> upload_inv u"
  by (induction rule: upload_reachable.induct) (auto intro: upload_inv_new inv_intros)

text \<open>
  The upload gate is bounded: in every reachable state at most two uploads are buffered, at
  most one of them a guest's, and at most two per alias; releasing one is idempotent.
\<close>

lemma upload_bounds:
  assumes "upload_reachable u"
  shows "card (dom (uploads u)) \<le> 2 \<and> card (guestUploads u) \<le> 1 \<and> card (ofAlias u a) \<le> 2 \<and>
         uploadRelease h (uploadRelease h u) = uploadRelease h u"
proof -
  have inv: "upload_inv u" using assms by (rule upload_inv_reachable)
  then have "card (ofAlias u a) \<le> card (dom (uploads u))"
    by (simp add: upload_inv_def card_mono holding_subset_dom)
  with inv show ?thesis using upl.double_release [OF inv] by (simp add: upload_inv_def)
qed

definition demo_uploads :: AudioUploadAdmission where
  "demo_uploads = snd (uploadAcquire ''g'' GuestLane (js_int 1) newUploads)"

lemma upload_bounds_witness:
  "upload_reachable demo_uploads \<and> active demo_uploads = 1 \<and>
   card (guestUploads demo_uploads) \<le> 1 \<and>
   fst (uploadAcquire ''h'' GuestLane (js_int 5) demo_uploads) = None"
proof -
  have r: "upload_reachable demo_uploads"
    unfolding demo_uploads_def by (rule upload_acquire [OF upload_start])
  then show ?thesis using upload_bounds [OF r]
    by (simp add: demo_uploads_def newUploads_def uploadAcquire_def max_safe_integer_def
        get_or_def del: of_int_1 of_int_numeral)
qed

end
