(* ===== verification/JS_Date.thy ===== *)
theory JS_Date
  imports Prelude
begin

text \<open>
  The part of the ECMAScript \<open>Date\<close> built-in that the modelled modules use, after the
  standard's own definitions: the civil date of a time value, and the \<open>YYYY-MM-DD\<close> prefix
  of \<open>toISOString\<close> for the years 0 to 9999. It states language semantics, so no entry of
  the source map refers to it. The main fact is that the prefix identifies the UTC day.
\<close>

abbreviation ms_per_day :: int where
  "ms_per_day \<equiv> 86400000"

definition Day :: "millis \<Rightarrow> int" where
  "Day t = t div ms_per_day"

section \<open>Years\<close>

definition DayFromYear :: "int \<Rightarrow> int" where
  "DayFromYear y =
     365 * (y - 1970) + (y - 1969) div 4 - (y - 1901) div 100 + (y - 1601) div 400"

definition leap :: "int \<Rightarrow> bool" where
  "leap y \<longleftrightarrow> y mod 4 = 0 \<and> (y mod 100 \<noteq> 0 \<or> y mod 400 = 0)"

definition DaysInYear :: "int \<Rightarrow> int" where
  "DaysInYear y = (if leap y then 366 else 365)"

lemma div_plus_one:
  fixes x k :: int
  assumes "0 < k"
  shows "(x + 1) div k = x div k + (if (x + 1) mod k = 0 then 1 else 0)"
proof -
  have x: "x = k * (x div k) + x mod k" and r: "0 \<le> x mod k" "x mod k < k"
    using assms by simp_all
  show ?thesis
  proof (cases "x mod k = k - 1")
    case True
    then have "x + 1 = k * (x div k) + k" using x by linarith
    also have "\<dots> = k * (x div k + 1)" by (simp add: distrib_left)
    finally show ?thesis using assms by simp
  next
    case False
    then have "x + 1 = k * (x div k) + (x mod k + 1)" "x mod k + 1 < k" using x r by linarith+
    then have "(x + 1) div k = x div k" "(x + 1) mod k = x mod k + 1"
      using r int_div_pos_eq [of "x + 1" k "x div k" "x mod k + 1"]
        int_mod_pos_eq [of "x + 1" k "x div k" "x mod k + 1"] by linarith+
    then show ?thesis using r by simp
  qed
qed

lemma year_sum_step:
  fixes y a b c a' b' c' p q r :: int
  shows "a' = a + p \<Longrightarrow> b' = b + q \<Longrightarrow> c' = c + r \<Longrightarrow>
     365 * (y + 1 - 1970) + a' - b' + c' = 365 * (y - 1970) + a - b + c + 365 + p - q + r"
  by simp

lemma leap_rule:
  fixes D :: int
  shows "(c \<Longrightarrow> b) \<Longrightarrow> (b \<Longrightarrow> a) \<Longrightarrow>
     D + 365 + (if a then 1 else 0) - (if b then 1 else 0) + (if c then 1 else 0) =
     D + (if a \<and> (\<not> b \<or> c) then 366 else 365)"
  by (cases a; cases b; cases c; simp)

lemma DayFromYear_Suc: "DayFromYear (y + 1) = DayFromYear y + DaysInYear y"
proof -
  have "(y + (- 492) * 4) mod 4 = y mod 4" "(y + (- 19) * 100) mod 100 = y mod 100"
    "(y + (- 4) * 400) mod 400 = y mod 400" by (rule mod_mult_self1)+
  moreover have "y - 1969 + 1 = y + (- 492) * 4" "y - 1901 + 1 = y + (- 19) * 100"
    "y - 1601 + 1 = y + (- 4) * 400" by simp_all
  ultimately have 4: "(y - 1969 + 1) mod 4 = 0 \<longleftrightarrow> y mod 4 = 0"
    and 100: "(y - 1901 + 1) mod 100 = 0 \<longleftrightarrow> y mod 100 = 0"
    and 400: "(y - 1601 + 1) mod 400 = 0 \<longleftrightarrow> y mod 400 = 0" by metis+
  have "(4 * 100 :: int) dvd y \<Longrightarrow> 100 dvd y" "(25 * 4 :: int) dvd y \<Longrightarrow> 4 dvd y"
    by (erule dvd_mult_right)+
  then have imp: "y mod 400 = 0 \<Longrightarrow> y mod 100 = 0" "y mod 100 = 0 \<Longrightarrow> y mod 4 = 0"
    unfolding mod_eq_0_iff_dvd by simp_all
  have sh: "y + 1 - 1969 = y - 1969 + 1" "y + 1 - 1901 = y - 1901 + 1" "y + 1 - 1601 = y - 1601 + 1"
    by simp_all
  have eq: "DayFromYear (y + 1) = DayFromYear y + 365 + (if y mod 4 = 0 then 1 else 0)
              - (if y mod 100 = 0 then 1 else 0) + (if y mod 400 = 0 then 1 else 0)"
  proof -
    have "(y - 1969 + 1) div 4 = (y - 1969) div 4 + (if y mod 4 = 0 then 1 else 0)"
      by (rule div_plus_one [of 4 "y - 1969", unfolded 4]) simp
    moreover have "(y - 1901 + 1) div 100 = (y - 1901) div 100 + (if y mod 100 = 0 then 1 else 0)"
      by (rule div_plus_one [of 100 "y - 1901", unfolded 100]) simp
    moreover have "(y - 1601 + 1) div 400 = (y - 1601) div 400 + (if y mod 400 = 0 then 1 else 0)"
      by (rule div_plus_one [of 400 "y - 1601", unfolded 400]) simp
    ultimately show ?thesis unfolding DayFromYear_def sh by (rule year_sum_step)
  qed
  show ?thesis unfolding eq DaysInYear_def leap_def by (rule leap_rule [OF imp])
qed

lemma DaysInYear_pos: "365 \<le> DaysInYear y" "DaysInYear y \<le> 366"
  by (simp_all add: DaysInYear_def)

lemma DayFromYear_less: "DayFromYear y < DayFromYear (y + 1)"
  using DaysInYear_pos [of y] by (simp add: DayFromYear_Suc)

text \<open>The year of a day: the largest one that starts no later, searched upwards.\<close>

function year_up :: "int \<Rightarrow> int \<Rightarrow> int" where
  "year_up d y = (if DayFromYear (y + 1) \<le> d then year_up d (y + 1) else y)"
  by pat_completeness auto
termination
proof (relation "measure (\<lambda>(d, y). nat (d - DayFromYear y))")
  fix d y :: int
  assume "DayFromYear (y + 1) \<le> d"
  then show "((d, y + 1), (d, y)) \<in> measure (\<lambda>(d, y). nat (d - DayFromYear y))"
    using DayFromYear_less [of y] by simp
qed simp

declare year_up.simps [simp del]

definition YearFromDay :: "int \<Rightarrow> int" where
  "YearFromDay d = year_up d (1970 + (if 0 \<le> d then d div 366 else d div 365))"

lemma year_up_bounds:
  "DayFromYear y \<le> d \<Longrightarrow> DayFromYear (year_up d y) \<le> d \<and> d < DayFromYear (year_up d y + 1)"
proof (induction d y rule: year_up.induct)
  case (1 d y)
  then show ?case by (cases "DayFromYear (y + 1) \<le> d") (auto simp: year_up.simps [of d y])
qed

lemma DayFromYear_upper: "DayFromYear (1970 + int k) \<le> 366 * int k"
proof (induction k)
  case (Suc k)
  then show ?case using DayFromYear_Suc [of "1970 + int k"] DaysInYear_pos(2) [of "1970 + int k"]
    by (simp add: algebra_simps)
qed (simp add: DayFromYear_def)

lemma DayFromYear_lower: "DayFromYear (1970 - int k) \<le> - 365 * int k"
proof (induction k)
  case (Suc k)
  then show ?case using DayFromYear_Suc [of "1969 - int k"] DaysInYear_pos(1) [of "1969 - int k"]
    by (simp add: algebra_simps)
qed (simp add: DayFromYear_def)

lemma YearFromDay_bounds:
  "DayFromYear (YearFromDay d) \<le> d" "d < DayFromYear (YearFromDay d + 1)"
proof -
  have "DayFromYear (1970 + (if 0 \<le> d then d div 366 else d div 365)) \<le> d"
  proof (cases "0 \<le> d")
    case True
    then have "0 \<le> d div 366" "366 * (d div 366) \<le> d" by simp_all
    then show ?thesis using True DayFromYear_upper [of "nat (d div 366)"] by simp
  next
    case False
    then have "d div 365 < 0" "365 * (d div 365) \<le> d" by simp_all
    then show ?thesis using False DayFromYear_lower [of "nat (- (d div 365))"] by simp
  qed
  from year_up_bounds [OF this]
  show "DayFromYear (YearFromDay d) \<le> d" "d < DayFromYear (YearFromDay d + 1)"
    by (simp_all add: YearFromDay_def)
qed

section \<open>Months and dates\<close>

definition month_starts :: "int \<Rightarrow> int list" where
  "month_starts y =
     (let l = (if leap y then 1 else 0)
      in [0, 31, 59 + l, 90 + l, 120 + l, 151 + l, 181 + l, 212 + l, 243 + l, 273 + l, 304 + l,
          334 + l])"

text \<open>\<open>MonthFromTime\<close> (0 is January) and \<open>DateFromTime\<close>.\<close>

definition MonthFromDay :: "int \<Rightarrow> nat" where
  "MonthFromDay d =
     (let y = YearFromDay d
      in length (takeWhile (\<lambda>s. s \<le> d - DayFromYear y) (month_starts y)) - 1)"

definition DateFromDay :: "int \<Rightarrow> int" where
  "DateFromDay d =
     d - DayFromYear (YearFromDay d) - month_starts (YearFromDay d) ! MonthFromDay d + 1"

text \<open>\<open>MakeDay\<close>: the day number of a civil date, on which \<open>Date.UTC\<close> rests.\<close>

definition MakeDay :: "int \<Rightarrow> nat \<Rightarrow> int \<Rightarrow> int" where
  "MakeDay y m dt = DayFromYear y + month_starts y ! m + dt - 1"

lemma MakeDay_civil: "MakeDay (YearFromDay d) (MonthFromDay d) (DateFromDay d + k) = d + k"
  by (simp add: MakeDay_def DateFromDay_def)

lemma takeWhile_last:
  assumes "xs \<noteq> []" and "P (hd xs)"
  defines "k \<equiv> length (takeWhile P xs)"
  shows "k - 1 < length xs" "P (xs ! (k - 1))" "k < length xs \<Longrightarrow> \<not> P (xs ! k)" "0 < k"
proof -
  show pos: "0 < k" using assms(1,2) by (cases xs) (simp_all add: k_def)
  have "k \<le> length xs" by (simp add: k_def length_takeWhile_le)
  then show "k - 1 < length xs" using pos by simp
  have "takeWhile P xs ! (k - 1) \<in> set (takeWhile P xs)" using pos by (simp add: k_def)
  then show "P (xs ! (k - 1))" using pos by (metis k_def diff_less set_takeWhileD takeWhile_nth
        zero_less_one)
  show "k < length xs \<Longrightarrow> \<not> P (xs ! k)" unfolding k_def by (rule nth_length_takeWhile)
qed

lemma month_lengths:
  "i < 12 \<Longrightarrow> (month_starts y @ [DaysInYear y]) ! Suc i - (month_starts y @ [DaysInYear y]) ! i \<le> 31"
  by (cases "leap y") (auto simp: month_starts_def DaysInYear_def less_Suc_eq numeral_eq_Suc)

lemma month_date_range:
  "MonthFromDay d < 12" "1 \<le> DateFromDay d" "DateFromDay d \<le> 31"
proof -
  let ?y = "YearFromDay d"
  let ?n = "d - DayFromYear ?y" and ?ms = "month_starts ?y"
  let ?k = "length (takeWhile (\<lambda>s. s \<le> ?n) ?ms)"
  have n: "0 \<le> ?n" "?n < DaysInYear ?y"
    using YearFromDay_bounds [of d] by (simp_all add: DayFromYear_Suc)
  have len: "length ?ms = 12" and ne: "?ms \<noteq> []" and hd: "hd ?ms \<le> ?n"
    using n by (simp_all add: month_starts_def Let_def)
  note tw = takeWhile_last [of ?ms "\<lambda>s. s \<le> ?n", OF ne hd]
  have m: "MonthFromDay d = ?k - 1" by (simp add: MonthFromDay_def Let_def)
  show "MonthFromDay d < 12" using tw(1) len m by simp
  show "1 \<le> DateFromDay d" using tw(2) by (simp add: DateFromDay_def m)
  have "?n < (?ms @ [DaysInYear ?y]) ! ?k"
    using tw(3) n(2) len length_takeWhile_le [of "\<lambda>s. s \<le> ?n" ?ms]
    by (cases "?k < 12") (auto simp: nth_append not_le)
  moreover have "Suc (?k - 1) = ?k" "?k - 1 < 12" using tw(1,4) len by simp_all
  ultimately show "DateFromDay d \<le> 31"
    using month_lengths [of "?k - 1" ?y] len by (simp add: DateFromDay_def m nth_append)
qed

section \<open>The date prefix of an ISO string\<close>

definition dig :: "int \<Rightarrow> char" where
  "dig n = char_of (48 + nat (n mod 10))"

definition pad2 :: "int \<Rightarrow> string" where
  "pad2 n = [dig (n div 10), dig n]"

definition pad4 :: "int \<Rightarrow> string" where
  "pad4 n = pad2 (n div 100) @ pad2 (n mod 100)"

definition isoDay :: "int \<Rightarrow> string" where
  "isoDay d = pad4 (YearFromDay d) @ ''-'' @ pad2 (int (MonthFromDay d) + 1) @ ''-'' @
     pad2 (DateFromDay d)"

lemma dig_inject: "dig m = dig n \<longleftrightarrow> m mod 10 = n mod 10"
proof -
  have bound: "48 + nat (k mod 10) < 256" for k :: int
    using pos_mod_bound [of 10 k] by linarith
  have "dig m = dig n \<longleftrightarrow> 48 + nat (m mod 10) = 48 + nat (n mod 10)"
    unfolding dig_def using bound [of m] bound [of n] by (metis mod_less of_char_of)
  then show ?thesis by (simp add: eq_nat_nat_iff)
qed

lemma pad2_inject: "0 \<le> m \<Longrightarrow> m < 100 \<Longrightarrow> 0 \<le> n \<Longrightarrow> n < 100 \<Longrightarrow> pad2 m = pad2 n \<longleftrightarrow> m = n"
proof -
  assume b: "0 \<le> m" "m < 100" "0 \<le> n" "n < 100"
  have k: "k div 10 mod 10 = k div 10" if "0 \<le> k" "k < 100" for k :: int
    using that by simp
  show ?thesis
    using b by (auto simp: pad2_def dig_inject k) (metis div_mult_mod_eq)
qed

lemma pad4_inject:
  "0 \<le> m \<Longrightarrow> m < 10000 \<Longrightarrow> 0 \<le> n \<Longrightarrow> n < 10000 \<Longrightarrow> pad4 m = pad4 n \<longleftrightarrow> m = n"
proof -
  assume b: "0 \<le> m" "m < 10000" "0 \<le> n" "n < 10000"
  have len: "length (pad2 k) = 2" for k by (simp add: pad2_def)
  have "pad4 m = pad4 n \<longleftrightarrow> m div 100 = n div 100 \<and> m mod 100 = n mod 100"
    using b by (simp add: pad4_def len pad2_inject)
  then show ?thesis by (metis div_mult_mod_eq)
qed

lemma DayFromYear_mono: "y \<le> y' \<Longrightarrow> DayFromYear y \<le> DayFromYear y'"
proof (induction y' rule: int_ge_induct)
  case (step i)
  then show ?case using DayFromYear_less [of i] by simp
qed simp

text \<open>The days of 1970 up to the end of 9999.\<close>

definition epoch_day :: "int \<Rightarrow> bool" where
  "epoch_day d \<longleftrightarrow> 0 \<le> d \<and> d < 2932897"

lemma YearFromDay_range:
  assumes "epoch_day d"
  shows "1970 \<le> YearFromDay d" "YearFromDay d < 10000"
proof -
  have ten: "DayFromYear 10000 = 2932897" and zero: "DayFromYear 1970 = 0"
    by (simp_all add: DayFromYear_def)
  show "1970 \<le> YearFromDay d"
  proof (rule ccontr)
    assume "\<not> 1970 \<le> YearFromDay d"
    then have "DayFromYear (YearFromDay d + 1) \<le> 0"
      using DayFromYear_mono [of "YearFromDay d + 1" 1970] zero by simp
    with YearFromDay_bounds(2) [of d] assms show False by (simp add: epoch_day_def)
  qed
  show "YearFromDay d < 10000"
  proof (rule ccontr)
    assume "\<not> YearFromDay d < 10000"
    then have "2932897 \<le> DayFromYear (YearFromDay d)"
      using DayFromYear_mono [of 10000 "YearFromDay d"] ten by simp
    with YearFromDay_bounds(1) [of d] assms show False by (simp add: epoch_day_def)
  qed
qed

lemma isoDay_inject:
  assumes "epoch_day d" and "epoch_day e"
  shows "isoDay d = isoDay e \<longleftrightarrow> d = e"
proof
  assume eq: "isoDay d = isoDay e"
  have l2: "length (pad2 k) = 2" and l4: "length (pad4 k) = 4" for k
    by (simp_all add: pad2_def pad4_def)
  have parts: "pad4 (YearFromDay d) = pad4 (YearFromDay e)"
    "pad2 (int (MonthFromDay d) + 1) = pad2 (int (MonthFromDay e) + 1)"
    "pad2 (DateFromDay d) = pad2 (DateFromDay e)"
    using eq by (simp_all add: isoDay_def l2 l4)
  have "YearFromDay d = YearFromDay e"
    using parts(1) YearFromDay_range [OF assms(1)] YearFromDay_range [OF assms(2)]
    by (simp add: pad4_inject)
  moreover have "MonthFromDay d = MonthFromDay e"
    using parts(2) month_date_range(1) [of d] month_date_range(1) [of e] by (simp add: pad2_inject)
  moreover have "DateFromDay d = DateFromDay e"
    using parts(3) month_date_range(2,3) [of d] month_date_range(2,3) [of e]
    by (simp add: pad2_inject)
  ultimately show "d = e" using MakeDay_civil [of d 0] MakeDay_civil [of e 0] by simp
qed simp

end
