(* ===== verification/Quota.thy ===== *)
theory Quota
  imports Interfaces JS_Date "HOL-Library.Multiset"
begin

text \<open>
  Per-key quotas, \<open>src/homeserver/quota.ts\<close>: the in-memory sliding windows of requests and
  tokens per minute, the persisted daily token table with its reserve-then-check protocol, the
  reconciliation of a finished call, and the generic per-bucket request throttle.

  \<open>daily\<close> is the table \<open>key_usage_daily\<close> with its primary key (alias, day); every statement
  on it is one SQLite transaction, so it is one function here. \<open>randomUUID()\<close> is the argument
  \<open>eventId\<close>.
\<close>

definition WINDOW_MS :: millis where
  "WINDOW_MS = 60000"

record QuotaLimits =
  rpm :: int
  tpm :: int
  dailyTokenBudget :: int

record QuotaSnapshot =
  rpmUsed :: int
  rpmLimit :: int
  tpmUsed :: int
  tpmLimit :: int
  dailyUsedTokens :: int
  dailyLimit :: int
  resetSeconds :: seconds

record QuotaReservation =
  r_alias :: string
  r_eventId :: string
  r_reservedDaily :: int
  r_day :: string

datatype QuotaReason = ReasonRpm | ReasonTpm | ReasonDaily

datatype QuotaDecision =
    QuotaOk QuotaSnapshot QuotaReservation
  | QuotaNo QuotaReason seconds QuotaSnapshot

record UsageEvent =
  ev_id :: string
  ev_ts :: millis
  ev_tokens :: int

record QuotaState =
  windows :: "string \<rightharpoonup> UsageEvent list"
  daily :: "string \<times> string \<rightharpoonup> int"

section \<open>The daily table\<close>

definition dayKey :: "millis \<Rightarrow> string" where
  "dayKey nowMs = isoDay (Day nowMs)"

definition dailyUsed :: "string \<Rightarrow> millis \<Rightarrow> QuotaState \<Rightarrow> int" where
  "dailyUsed alias nowMs q = get_or (daily q) (alias, dayKey nowMs) 0"

text \<open>\<open>INSERT \<dots> ON CONFLICT DO UPDATE SET tokens = tokens + excluded.tokens\<close>.\<close>

definition upsertDaily :: "string \<Rightarrow> string \<Rightarrow> int \<Rightarrow> QuotaState \<Rightarrow> QuotaState" where
  "upsertDaily alias day tokens q =
     q\<lparr>daily := (daily q)((alias, day) \<mapsto> get_or (daily q) (alias, day) 0 + tokens)\<rparr>"

definition reserveDaily :: "string \<Rightarrow> string \<Rightarrow> int \<Rightarrow> QuotaState \<Rightarrow> int \<times> QuotaState" where
  "reserveDaily alias day reserve q =
     (let q' = upsertDaily alias day reserve q in (get_or (daily q') (alias, day) 0, q'))"

definition adjustDaily :: "string \<Rightarrow> string \<Rightarrow> int \<Rightarrow> QuotaState \<Rightarrow> QuotaState" where
  "adjustDaily alias day delta q =
     (if delta = 0 then q
      else case daily q (alias, day) of
             None \<Rightarrow> q
           | Some t \<Rightarrow> q\<lparr>daily := (daily q)((alias, day) \<mapsto> max 0 (t + delta))\<rparr>)"

definition secondsToUtcMidnight :: "millis \<Rightarrow> seconds" where
  "secondsToUtcMidnight nowMs =
     (let d = Day nowMs;
          next = MakeDay (YearFromDay d) (MonthFromDay d) (DateFromDay d + 1) * ms_per_day
      in retry_seconds (next - nowMs))"

section \<open>Windows\<close>

definition pruned :: "string \<Rightarrow> millis \<Rightarrow> QuotaState \<Rightarrow> UsageEvent list \<times> QuotaState" where
  "pruned alias nowMs q =
     (let ring = get_or (windows q) alias [];
          cutoff = nowMs - WINDOW_MS;
          live = filter (\<lambda>e. ev_ts e > cutoff) ring
      in (live, q\<lparr>windows := (windows q)(alias \<mapsto> live)\<rparr>))"

definition windowRetry :: "UsageEvent list \<Rightarrow> millis \<Rightarrow> seconds" where
  "windowRetry live nowMs =
     (case live of [] \<Rightarrow> 1 | e # _ \<Rightarrow> retry_seconds (ev_ts e + WINDOW_MS - nowMs))"

definition tokenSum :: "UsageEvent list \<Rightarrow> int" where
  "tokenSum live = sum_list (map ev_tokens live)"

definition snapshotQuota ::
  "string \<Rightarrow> QuotaLimits \<Rightarrow> millis \<Rightarrow> QuotaState \<Rightarrow> QuotaSnapshot \<times> QuotaState" where
  "snapshotQuota alias limits now q =
     (let (live, q') = pruned alias now q
      in (\<lparr>rpmUsed = int (length live), rpmLimit = rpm limits, tpmUsed = tokenSum live,
           tpmLimit = tpm limits, dailyUsedTokens = dailyUsed alias now q',
           dailyLimit = dailyTokenBudget limits, resetSeconds = windowRetry live now\<rparr>, q'))"

section \<open>The pre-admission check\<close>

definition checkQuota ::
  "string \<Rightarrow> QuotaLimits \<Rightarrow> int \<Rightarrow> string \<Rightarrow> millis \<Rightarrow> QuotaState \<Rightarrow> QuotaDecision \<times> QuotaState" where
  "checkQuota alias limits estTokens eventId now q =
     (let (live, q1) = pruned alias now q;
          used = dailyUsed alias now q1;
          snap = \<lparr>rpmUsed = int (length live) + 1, rpmLimit = rpm limits,
                  tpmUsed = tokenSum live + estTokens, tpmLimit = tpm limits,
                  dailyUsedTokens = used, dailyLimit = dailyTokenBudget limits,
                  resetSeconds = windowRetry live now\<rparr>
      in if rpm limits = 0 \<or> int (length live) + 1 > rpm limits
         then (QuotaNo ReasonRpm (windowRetry live now) snap, q1)
         else if tpm limits > 0 \<and> tokenSum live + estTokens > tpm limits
         then (QuotaNo ReasonTpm (windowRetry live now) snap, q1)
         else let day = dayKey now;
                  reserveAmount = (if estTokens > 0 then estTokens else 0);
                  (dailyAfter, q2) = reserveDaily alias day reserveAmount q1
              in if dailyTokenBudget limits > 0 \<and> dailyAfter > dailyTokenBudget limits
                 then (QuotaNo ReasonDaily (secondsToUtcMidnight now) snap,
                       adjustDaily alias day (- reserveAmount) q2)
                 else let ring = get_or (windows q2) alias [];
                          ev = \<lparr>ev_id = eventId, ev_ts = now, ev_tokens = estTokens\<rparr>
                      in (QuotaOk snap \<lparr>r_alias = alias, r_eventId = eventId,
                                        r_reservedDaily = reserveAmount, r_day = day\<rparr>,
                          q2\<lparr>windows := (windows q2)(alias \<mapsto> ring @ [ev])\<rparr>))"

section \<open>Reconciliation\<close>

text \<open>\<open>ring.find\<close> and the assignment to the event found: only the first match changes.\<close>

fun setTokens :: "string \<Rightarrow> int \<Rightarrow> UsageEvent list \<Rightarrow> UsageEvent list" where
  "setTokens i n [] = []"
| "setTokens i n (e # es) =
     (if ev_id e = i then e\<lparr>ev_tokens := n\<rparr> # es else e # setTokens i n es)"

definition recordUsage ::
  "string \<Rightarrow> int \<Rightarrow> millis \<Rightarrow> QuotaReservation option \<Rightarrow> QuotaState \<Rightarrow> QuotaState" where
  "recordUsage alias actualTokens now reservation q =
     (case reservation of
        Some r \<Rightarrow>
          let q1 = (case windows q alias of
                      None \<Rightarrow> q
                    | Some ring \<Rightarrow>
                        q\<lparr>windows := (windows q)(alias \<mapsto> setTokens (r_eventId r) actualTokens ring)\<rparr>)
          in adjustDaily alias (r_day r) (actualTokens - r_reservedDaily r) q1
      | None \<Rightarrow>
          let q1 = (case windows q alias of
                      None \<Rightarrow> q
                    | Some ring \<Rightarrow>
                        if ring = [] then q
                        else q\<lparr>windows := (windows q)(alias \<mapsto>
                               butlast ring @ [(last ring)\<lparr>ev_tokens := actualTokens\<rparr>])\<rparr>)
          in upsertDaily alias (dayKey now) actualTokens q1)"

definition resetQuotaWindows :: "QuotaState \<Rightarrow> QuotaState" where
  "resetQuotaWindows q = q\<lparr>windows := Map.empty\<rparr>"

section \<open>The generic request throttle\<close>

record RateWindowDecision =
  rw_ok :: bool
  rw_retryAfterSeconds :: seconds

type_synonym RateBuckets = "string \<rightharpoonup> millis list"

definition checkRateWindow ::
  "string \<Rightarrow> int \<Rightarrow> millis \<Rightarrow> millis \<Rightarrow> RateBuckets \<Rightarrow> RateWindowDecision \<times> RateBuckets" where
  "checkRateWindow bucket limit windowMs now buckets =
     (if limit \<le> 0 then (\<lparr>rw_ok = True, rw_retryAfterSeconds = 0\<rparr>, buckets)
      else let cutoff = now - windowMs;
               live = filter (\<lambda>ts. ts > cutoff) (get_or buckets bucket [])
           in if int (length live) \<ge> limit
              then (\<lparr>rw_ok = False, rw_retryAfterSeconds = retry_seconds (hd live + windowMs - now)\<rparr>,
                    buckets(bucket \<mapsto> live))
              else (\<lparr>rw_ok = True, rw_retryAfterSeconds = 0\<rparr>, buckets(bucket \<mapsto> live @ [now])))"

definition resetRateWindows :: "RateBuckets \<Rightarrow> RateBuckets" where
  "resetRateWindows buckets = Map.empty"

section \<open>What the operations change\<close>

text \<open>The times an alias' window remembers.\<close>

definition stampsOf :: "string \<Rightarrow> QuotaState \<Rightarrow> millis list" where
  "stampsOf alias q = map ev_ts (get_or (windows q) alias [])"

lemma stampsOf_upd [simp]:
  "stampsOf a (q\<lparr>windows := (windows q)(b \<mapsto> es)\<rparr>) = (if a = b then map ev_ts es else stampsOf a q)"
  by (simp add: stampsOf_def)

lemma windows_daily [simp]:
  "windows (upsertDaily a d n q) = windows q" "windows (adjustDaily a d n q) = windows q"
  "windows (snd (reserveDaily a d n q)) = windows q" "daily (snd (pruned a t q)) = daily q"
  by (simp_all add: upsertDaily_def adjustDaily_def reserveDaily_def pruned_def Let_def split: option.split)

lemma stampsOf_daily [simp]:
  "stampsOf b (upsertDaily a d n q) = stampsOf b q" "stampsOf b (adjustDaily a d n q) = stampsOf b q"
  "stampsOf b (snd (reserveDaily a d n q)) = stampsOf b q"
  by (simp_all add: stampsOf_def)

lemma stampsOf_pruned:
  "stampsOf b (snd (pruned a now q)) =
     (if b = a then filter (\<lambda>t. now - WINDOW_MS < t) (stampsOf a q) else stampsOf b q)"
  by (simp add: pruned_def Let_def stampsOf_def filter_map comp_def)

lemma length_pruned:
  "length (fst (pruned a now q)) = length (filter (\<lambda>t. now - WINDOW_MS < t) (stampsOf a q))"
  by (simp add: pruned_def Let_def stampsOf_def filter_map comp_def)

lemma setTokens_ts [simp]: "map ev_ts (setTokens i n es) = map ev_ts es"
  by (induction es) auto

lemma stampsOf_recordUsage [simp]: "stampsOf b (recordUsage a n now r q) = stampsOf b q"
proof (cases r)
  case (Some res)
  then show ?thesis
    by (auto simp: recordUsage_def Let_def stampsOf_def get_or_def split: option.split)
next
  case None
  have "map ev_ts (butlast es @ [(last es)\<lparr>ev_tokens := n\<rparr>]) = map ev_ts es" if "es \<noteq> []" for es
    using that by (cases es rule: rev_cases) auto
  with None show ?thesis
    by (auto simp: recordUsage_def Let_def stampsOf_def get_or_def split: option.split)
qed

subsection \<open>The outcomes of a check\<close>

definition isOk :: "QuotaDecision \<Rightarrow> bool" where
  "isOk d = (case d of QuotaOk _ _ \<Rightarrow> True | QuotaNo _ _ _ \<Rightarrow> False)"

lemma checkQuota_Ok:
  assumes "checkQuota a lims est eid now q = (QuotaOk snap r, q')"
  shows "rpm lims \<noteq> 0" and "int (length (fst (pruned a now q))) + 1 \<le> rpm lims"
    and "tpm lims > 0 \<Longrightarrow> tokenSum (fst (pruned a now q)) + est \<le> tpm lims"
    and "dailyTokenBudget lims > 0 \<Longrightarrow>
           get_or (daily q) (a, dayKey now) 0 + max 0 est \<le> dailyTokenBudget lims"
    and "r = \<lparr>r_alias = a, r_eventId = eid, r_reservedDaily = max 0 est, r_day = dayKey now\<rparr>"
    and "daily q' = (daily q)((a, dayKey now) \<mapsto> get_or (daily q) (a, dayKey now) 0 + max 0 est)"
    and "windows q' = (windows q)(a \<mapsto> fst (pruned a now q) @
           [\<lparr>ev_id = eid, ev_ts = now, ev_tokens = est\<rparr>])"
  using assms
  by (auto simp: checkQuota_def reserveDaily_def upsertDaily_def pruned_def split_beta Let_def
      max_def split: if_splits)

lemma checkQuota_No_state:
  assumes "checkQuota a lims est eid now q = (QuotaNo why s snap, q')"
  shows "q' = snd (pruned a now q) \<or>
         q' = adjustDaily a (dayKey now) (- max 0 est)
                (upsertDaily a (dayKey now) (max 0 est) (snd (pruned a now q)))"
  using assms
  by (auto simp: checkQuota_def reserveDaily_def split_beta Let_def max_def split: if_splits)

lemma checkQuota_No:
  assumes "checkQuota a lims est eid now q = (QuotaNo why s snap, q')"
    and nonneg: "\<forall>t \<in> ran (daily q). 0 \<le> t"
  shows "windows q' = windows (snd (pruned a now q))"
    and "get_or (daily q') k 0 = get_or (daily q) k 0"
proof -
  let ?q = "snd (pruned a now q)"
  have used: "0 \<le> get_or (daily q) (a, dayKey now) 0"
    using nonneg by (auto simp: get_or_def ran_def split: option.split)
  have "q' = ?q \<or> q' = adjustDaily a (dayKey now) (- max 0 est) (upsertDaily a (dayKey now) (max 0 est) ?q)"
    using assms(1) by (rule checkQuota_No_state)
  then show "windows q' = windows ?q" and "get_or (daily q') k 0 = get_or (daily q) k 0"
    using used by (auto simp: adjustDaily_def upsertDaily_def)
qed

lemma checkQuota_stamps:
  assumes "checkQuota a lims est eid now q = (d, q')"
  shows "stampsOf b q' =
     (if b \<noteq> a then stampsOf b q
      else filter (\<lambda>t. now - WINDOW_MS < t) (stampsOf a q) @ (if isOk d then [now] else []))"
proof (cases d)
  case (QuotaOk snap r)
  show ?thesis using checkQuota_Ok(7) [OF assms [unfolded QuotaOk]] QuotaOk
    by (simp add: stampsOf_def isOk_def pruned_def Let_def filter_map comp_def)
next
  case (QuotaNo why s snap)
  have "windows q' = windows (snd (pruned a now q))"
    using assms QuotaNo
    by (auto simp: checkQuota_def split_beta Let_def split: if_splits)
  then have "stampsOf b q' = stampsOf b (snd (pruned a now q))" by (simp add: stampsOf_def)
  then show ?thesis using QuotaNo by (simp add: stampsOf_pruned isOk_def)
qed

section \<open>Both gates are sliding windows\<close>

text \<open>A request to the per-key gate is its token estimate and the fresh event id.\<close>

definition quotaGate :: "string \<Rightarrow> QuotaLimits \<Rightarrow> int \<times> string \<Rightarrow> millis \<Rightarrow> QuotaState \<Rightarrow> bool \<times> QuotaState"
where
  "quotaGate a lims req now q =
     (let (d, q') = checkQuota a lims (fst req) (snd req) now q in (isOk d, q'))"

interpretation quota: sliding_window "stampsOf a" "quotaGate a lims" WINDOW_MS "nat (rpm lims)" for a lims
proof unfold_locales
  show "0 < WINDOW_MS" by (simp add: WINDOW_MS_def)
  fix i now and q q' :: QuotaState
  let ?live = "filter (\<lambda>t. now - WINDOW_MS < t) (stampsOf a q)"
  obtain d where d: "checkQuota a lims (fst i) (snd i) now q = (d, snd (checkQuota a lims (fst i) (snd i) now q))"
    by (metis prod.collapse)
  show "length ?live < nat (rpm lims) \<and> stampsOf a q' = ?live @ [now]"
    if "quotaGate a lims i now q = (True, q')"
  proof -
    from that d have ok: "isOk d" and q': "checkQuota a lims (fst i) (snd i) now q = (d, q')"
      by (auto simp: quotaGate_def split_beta)
    then obtain snap r where "d = QuotaOk snap r" by (cases d) (auto simp: isOk_def)
    with checkQuota_Ok(2) q' length_pruned [of a now q]
    have "int (length ?live) + 1 \<le> rpm lims" by metis
    then show ?thesis using checkQuota_stamps [OF q', of a] ok by simp
  qed
  show "stampsOf a q' = ?live" if "quotaGate a lims i now q = (False, q')"
    using that d checkQuota_stamps [of a lims "fst i" "snd i" now q d q' a]
    by (auto simp: quotaGate_def split_beta)
qed

definition rateGate :: "string \<Rightarrow> int \<Rightarrow> millis \<Rightarrow> unit \<Rightarrow> millis \<Rightarrow> RateBuckets \<Rightarrow> bool \<times> RateBuckets" where
  "rateGate bucket limit windowMs _ now bs =
     (let (d, bs') = checkRateWindow bucket limit windowMs now bs in (rw_ok d, bs'))"

lemma rateGate_window:
  assumes "0 < limit" and "0 < windowMs"
  shows "sliding_window (\<lambda>bs. get_or bs bucket []) (rateGate bucket limit windowMs) windowMs (nat limit)"
  using assms
  by unfold_locales (auto simp: rateGate_def checkRateWindow_def Let_def split: if_splits)

section \<open>Runs\<close>

text \<open>
  A run of the quota module seen from one alias \<open>a\<close> with fixed limits and one day: \<open>acc\<close> are
  the times of its admissions, \<open>out\<close> its reservations not yet settled and \<open>spent\<close> the tokens
  its settled calls of that day really used. Clocks do not go backwards. Calls for other
  aliases and snapshots interleave freely.
\<close>

inductive quota_run ::
  "string \<Rightarrow> QuotaLimits \<Rightarrow> string \<Rightarrow> millis \<Rightarrow> QuotaState \<Rightarrow> millis list \<Rightarrow> QuotaReservation list \<Rightarrow> int \<Rightarrow> bool"
  for a lims day where
  run_start: "windows q a = None \<Longrightarrow> daily q (a, day) = None \<Longrightarrow> \<forall>t \<in> ran (daily q). 0 \<le> t \<Longrightarrow>
     quota_run a lims day now q [] [] 0"
| run_check: "quota_run a lims day t q acc out spent \<Longrightarrow> t \<le> now \<Longrightarrow>
     checkQuota a lims est eid now q = (d, q') \<Longrightarrow>
     quota_run a lims day now q' (if isOk d then acc @ [now] else acc)
       (case d of QuotaOk _ r \<Rightarrow> r # out | QuotaNo _ _ _ \<Rightarrow> out) spent"
| run_settle: "quota_run a lims day t q acc out spent \<Longrightarrow> t \<le> now \<Longrightarrow> r \<in> set out \<Longrightarrow> 0 \<le> actual \<Longrightarrow>
     quota_run a lims day now (recordUsage a actual now (Some r) q) acc (remove1 r out)
       (spent + (if r_day r = day then actual else 0))"
| run_other_check: "quota_run a lims day t q acc out spent \<Longrightarrow> t \<le> now \<Longrightarrow> b \<noteq> a \<Longrightarrow>
     checkQuota b lims' est eid now q = (d, q') \<Longrightarrow> quota_run a lims day now q' acc out spent"
| run_other_settle: "quota_run a lims day t q acc out spent \<Longrightarrow> t \<le> now \<Longrightarrow> b \<noteq> a \<Longrightarrow> 0 \<le> actual \<Longrightarrow>
     quota_run a lims day now (recordUsage b actual now r q) acc out spent"
| run_snapshot: "quota_run a lims day t q acc out spent \<Longrightarrow> t \<le> now \<Longrightarrow>
     quota_run a lims day now (snd (snapshotQuota b lims' now q)) acc out spent"

definition dayReserved :: "string \<Rightarrow> QuotaReservation list \<Rightarrow> int" where
  "dayReserved day out = sum_list (map r_reservedDaily (filter (\<lambda>r. r_day r = day) out))"

definition ledger_ok :: "string \<Rightarrow> string \<Rightarrow> QuotaState \<Rightarrow> QuotaReservation list \<Rightarrow> int \<Rightarrow> bool" where
  "ledger_ok a day q out spent \<longleftrightarrow>
     (\<forall>t \<in> ran (daily q). 0 \<le> t) \<and> 0 \<le> spent \<and> (\<forall>r \<in> set out. 0 \<le> r_reservedDaily r) \<and>
     get_or (daily q) (a, day) 0 = spent + dayReserved day out \<and>
     ((\<exists>r \<in> set out. r_day r = day) \<longrightarrow> daily q (a, day) \<noteq> None)"

lemma dayReserved_Cons [simp]:
  "dayReserved day (r # out) = (if r_day r = day then r_reservedDaily r else 0) + dayReserved day out"
  by (simp add: dayReserved_def)

lemma dayReserved_remove1:
  "r \<in> set out \<Longrightarrow> dayReserved day out =
     (if r_day r = day then r_reservedDaily r else 0) + dayReserved day (remove1 r out)"
  by (induction out) auto

lemma dayReserved_nonneg: "\<forall>r \<in> set out. 0 \<le> r_reservedDaily r \<Longrightarrow> 0 \<le> dayReserved day out"
  by (induction out) (auto simp: dayReserved_def)

lemma ran_upd_nonneg: "\<forall>t \<in> ran m. 0 \<le> t \<Longrightarrow> 0 \<le> v \<Longrightarrow> \<forall>t \<in> ran (m(k \<mapsto> v)). 0 \<le> (t::int)"
  by (auto simp: ran_def)

lemma get_or_nonneg: "\<forall>t \<in> ran m. 0 \<le> t \<Longrightarrow> 0 \<le> get_or m k (0::int)"
  by (auto simp: get_or_def ran_def split: option.split)

lemma adjustDaily_nonneg:
  "\<forall>t \<in> ran (daily q). 0 \<le> t \<Longrightarrow> \<forall>t \<in> ran (daily (adjustDaily a d n q)). 0 \<le> t"
  by (auto simp: adjustDaily_def ran_def split: option.splits if_splits)

lemma upsertDaily_nonneg:
  assumes "\<forall>t \<in> ran (daily q). 0 \<le> t" and "0 \<le> n"
  shows "\<forall>t \<in> ran (daily (upsertDaily a d n q)). 0 \<le> t"
proof -
  have "0 \<le> get_or (daily q) (a, d) 0 + n" using get_or_nonneg [OF assms(1)] assms(2) by (rule add_nonneg_nonneg)
  from ran_upd_nonneg [OF assms(1) this] show ?thesis by (simp add: upsertDaily_def)
qed

lemma checkQuota_nonneg:
  assumes "checkQuota b lims est eid now q = (d, q')" and "\<forall>t \<in> ran (daily q). 0 \<le> t"
  shows "\<forall>t \<in> ran (daily q'). 0 \<le> t"
proof (cases d)
  case (QuotaOk snap r)
  then show ?thesis
    using checkQuota_Ok(6) [OF assms(1) [unfolded QuotaOk]] assms(2) get_or_nonneg [OF assms(2)]
    by (metis ran_upd_nonneg add_nonneg_nonneg max.cobounded1)
next
  case (QuotaNo why s snap)
  have up: "\<forall>t \<in> ran (daily (upsertDaily b (dayKey now) (max 0 est) (snd (pruned b now q)))). 0 \<le> t"
    by (rule upsertDaily_nonneg) (use assms(2) in simp_all)
  from checkQuota_No_state [OF assms(1) [unfolded QuotaNo]] show ?thesis
  proof
    assume "q' = snd (pruned b now q)"
    then show ?thesis using assms(2) by simp
  next
    assume "q' = adjustDaily b (dayKey now) (- max 0 est)
      (upsertDaily b (dayKey now) (max 0 est) (snd (pruned b now q)))"
    then show ?thesis using adjustDaily_nonneg [OF up] by simp
  qed
qed

lemma checkQuota_other_row:
  assumes "checkQuota b lims est eid now q = (d, q')" and "(a, day) \<noteq> (b, dayKey now)"
  shows "daily q' (a, day) = daily q (a, day)"
proof (cases d)
  case (QuotaOk snap r)
  then show ?thesis using checkQuota_Ok(6) [OF assms(1) [unfolded QuotaOk]] assms(2) by auto
next
  case (QuotaNo why s snap)
  from checkQuota_No_state [OF assms(1) [unfolded QuotaNo]] assms(2) show ?thesis
    by (auto simp: adjustDaily_def upsertDaily_def split: option.split)
qed

subsection \<open>The ledger invariant\<close>

lemma ledger_check:
  assumes inv: "ledger_ok a day q out spent" and chk: "checkQuota a lims est eid now q = (d, q')"
  shows "ledger_ok a day q' (case d of QuotaOk _ r \<Rightarrow> r # out | QuotaNo _ _ _ \<Rightarrow> out) spent"
proof -
  have nn: "\<forall>t \<in> ran (daily q). 0 \<le> t" using inv by (simp add: ledger_ok_def)
  have nn': "\<forall>t \<in> ran (daily q'). 0 \<le> t" using chk nn by (rule checkQuota_nonneg)
  show ?thesis
  proof (cases d)
    case (QuotaOk snap r)
    note ok = checkQuota_Ok(5,6) [OF chk [unfolded QuotaOk]]
    show ?thesis using inv nn' QuotaOk ok by (auto simp: ledger_ok_def)
  next
    case (QuotaNo why s snap)
    note no = checkQuota_No_state [OF chk [unfolded QuotaNo]]
    have "get_or (daily q') (a, day) 0 = get_or (daily q) (a, day) 0"
      using checkQuota_No(2) [OF chk [unfolded QuotaNo] nn] .
    moreover have "daily q (a, day) \<noteq> None \<Longrightarrow> daily q' (a, day) \<noteq> None"
      using no by (auto simp: adjustDaily_def upsertDaily_def split: option.split)
    ultimately show ?thesis using inv nn' QuotaNo by (auto simp: ledger_ok_def)
  qed
qed

lemma recordUsage_daily: "daily (recordUsage a n now (Some r) q) = daily (adjustDaily a (r_day r) (n - r_reservedDaily r) q)"
  by (auto simp: recordUsage_def Let_def adjustDaily_def split: option.split)

lemma ledger_settle:
  assumes inv: "ledger_ok a day q out spent" and r: "r \<in> set out" and "0 \<le> actual"
  shows "ledger_ok a day (recordUsage a actual now (Some r) q) (remove1 r out)
           (spent + (if r_day r = day then actual else 0))"
proof -
  let ?q = "adjustDaily a (r_day r) (actual - r_reservedDaily r) q"
  have nn: "\<forall>t \<in> ran (daily ?q). 0 \<le> t"
    using inv by (intro adjustDaily_nonneg) (simp add: ledger_ok_def)
  have rest: "\<forall>x \<in> set (remove1 r out). 0 \<le> r_reservedDaily x"
    using inv by (meson ledger_ok_def notin_set_remove1)
  have row: "daily q (a, day) \<noteq> None \<Longrightarrow> daily ?q (a, day) \<noteq> None"
    by (auto simp: adjustDaily_def split: option.split)
  have "get_or (daily ?q) (a, day) 0 =
        spent + (if r_day r = day then actual else 0) + dayReserved day (remove1 r out)"
  proof (cases "r_day r = day")
    case False
    then show ?thesis using inv dayReserved_remove1 [OF r, of day]
      by (auto simp: ledger_ok_def adjustDaily_def split: option.split)
  next
    case True
    then obtain t where t: "daily q (a, day) = Some t" using inv r by (auto simp: ledger_ok_def)
    then have "t = spent + r_reservedDaily r + dayReserved day (remove1 r out)"
      using inv dayReserved_remove1 [OF r, of day] True by (simp add: ledger_ok_def)
    moreover have "0 \<le> spent + dayReserved day (remove1 r out)"
      using inv dayReserved_nonneg [OF rest] by (simp add: ledger_ok_def)
    ultimately show ?thesis using t True \<open>0 \<le> actual\<close> by (simp add: adjustDaily_def)
  qed
  moreover have "daily ?q (a, day) \<noteq> None" if "\<exists>x \<in> set (remove1 r out). r_day x = day"
    using that inv row set_remove1_subset [of r out] by (auto simp: ledger_ok_def)
  ultimately show ?thesis
    using inv nn rest \<open>0 \<le> actual\<close> by (simp add: ledger_ok_def recordUsage_daily)
qed

lemma recordUsage_other:
  assumes "b \<noteq> a" and "0 \<le> n" and "\<forall>t \<in> ran (daily q). 0 \<le> t"
  shows "daily (recordUsage b n now r q) (a, day) = daily q (a, day)"
    and "\<forall>t \<in> ran (daily (recordUsage b n now r q)). 0 \<le> t"
proof -
  have none: "daily (recordUsage b n now None q) = daily (upsertDaily b (dayKey now) n q)"
    by (auto simp: recordUsage_def Let_def upsertDaily_def split: option.split)
  show "daily (recordUsage b n now r q) (a, day) = daily q (a, day)"
  proof (cases r)
    case None
    then show ?thesis using assms(1) by (simp add: none upsertDaily_def)
  next
    case (Some res)
    then show ?thesis using assms(1) by (simp add: recordUsage_daily adjustDaily_def split: option.split)
  qed
  show "\<forall>t \<in> ran (daily (recordUsage b n now r q)). 0 \<le> t"
  proof (cases r)
    case (Some res)
    then show ?thesis using adjustDaily_nonneg [OF assms(3)] by (simp add: recordUsage_daily)
  next
    case None
    then show ?thesis
      using upsertDaily_nonneg [OF assms(3,2)] by (simp only: none)
  qed
qed

lemma ledger_cong:
  assumes "ledger_ok a day q out spent" and "daily q' (a, day) = daily q (a, day)"
    and "\<forall>t \<in> ran (daily q'). 0 \<le> t"
  shows "ledger_ok a day q' out spent"
  using assms by (simp add: ledger_ok_def get_or_def)

lemma snapshotQuota_state: "snd (snapshotQuota b lims' now q) = snd (pruned b now q)"
  by (simp add: snapshotQuota_def split_beta Let_def)

lemma quota_run_ledger: "quota_run a lims day now q acc out spent \<Longrightarrow> ledger_ok a day q out spent"
proof (induction rule: quota_run.induct)
  case (run_start q now)
  then show ?case by (simp add: ledger_ok_def dayReserved_def get_or_def)
next
  case (run_check t q acc out spent now est eid d q')
  then show ?case by (intro ledger_check)
next
  case (run_settle t q acc out spent now r actual)
  then show ?case by (intro ledger_settle)
next
  case (run_other_check t q acc out spent now b lims' est eid d q')
  have nn: "\<forall>t \<in> ran (daily q). 0 \<le> t" using run_other_check.IH by (simp add: ledger_ok_def)
  show ?case
  proof (rule ledger_cong [OF run_other_check.IH])
    show "daily q' (a, day) = daily q (a, day)"
      using checkQuota_other_row [OF run_other_check.hyps(4)] run_other_check.hyps(3) by auto
    show "\<forall>t \<in> ran (daily q'). 0 \<le> t" using checkQuota_nonneg [OF run_other_check.hyps(4) nn] .
  qed
next
  case (run_other_settle t q acc out spent now b actual r)
  have nn: "\<forall>t \<in> ran (daily q). 0 \<le> t" using run_other_settle.IH by (simp add: ledger_ok_def)
  show ?case
    by (rule ledger_cong [OF run_other_settle.IH])
      (use recordUsage_other [OF \<open>b \<noteq> a\<close> \<open>0 \<le> actual\<close> nn] in blast)+
next
  case (run_snapshot t q acc out spent now b lims')
  then show ?case by (simp add: ledger_ok_def snapshotQuota_state)
qed

lemma quota_run_window:
  "quota_run a lims day now q acc out spent \<Longrightarrow>
     window_ok WINDOW_MS (nat (rpm lims)) now (stampsOf a q) acc"
proof (induction rule: quota_run.induct)
  case (run_start q now)
  then show ?case by (simp add: stampsOf_def get_or_def window_ok_start)
next
  case (run_check t q acc out spent now est eid d q')
  then have "quotaGate a lims (est, eid) now q = (isOk d, q')" by (simp add: quotaGate_def)
  with run_check.IH run_check.hyps(2) show ?case by (rule quota.check_window_ok)
next
  case (run_settle t q acc out spent now r actual)
  then show ?case by (simp add: window_ok_later)
next
  case (run_other_check t q acc out spent now b lims' est eid d q')
  then have "stampsOf a q' = stampsOf a q" using checkQuota_stamps by force
  then show ?case using run_other_check by (simp add: window_ok_later)
next
  case (run_other_settle t q acc out spent now b actual r)
  then show ?case by (simp add: window_ok_later)
next
  case (run_snapshot t q acc out spent now b lims')
  then show ?case
    using window_ok_prune [OF window_ok_later [OF run_snapshot.hyps(2) run_snapshot.IH]]
    by (auto simp: snapshotQuota_state stampsOf_pruned window_ok_later)
qed

section \<open>Properties\<close>

text \<open>
  C15: under fixed limits and a clock that does not go back, in every interleaving of checks, settlements and
  snapshots, of this and of other aliases, a key is admitted at most \<open>rpm\<close> times in any window of sixty seconds, wherever the window lies.
\<close>
theorem quota_rpm_window:
  assumes "quota_run a lims day now q acc out spent"
  shows "length (filter (in_window WINDOW_MS T) acc) \<le> nat (rpm lims)"
  using quota_run_window [OF assms] by (rule quota.window_bound)

text \<open>
  The persisted daily counter of a key is conserved: at every moment it is what the settled
  calls of that day really used plus what the calls in flight have reserved, so a call is never
  counted twice and none is lost, whether it used more or less than it reserved.
\<close>
lemma quota_daily_conserved:
  assumes "quota_run a lims day now q acc out spent"
  shows "get_or (daily q) (a, day) 0 = spent + dayReserved day out \<and> 0 \<le> dayReserved day out"
  using quota_run_ledger [OF assms] dayReserved_nonneg [of out day] by (simp add: ledger_ok_def)

text \<open>
  The check admits a request exactly when it fits the request rate, the token rate and the
  daily budget (an \<open>rpm\<close> of 0 blocks, a \<open>tpm\<close> or budget of 0 does not limit), and a refused
  request leaves every alias' window and daily counter as the pruning alone would.
\<close>
lemma checkQuota_decides:
  assumes "\<forall>t \<in> ran (daily q). 0 \<le> t" and "checkQuota a lims est eid now q = (d, q')"
  shows "(isOk d \<longleftrightarrow> rpm lims \<noteq> 0 \<and> int (length (fst (pruned a now q))) < rpm lims \<and>
            (tpm lims > 0 \<longrightarrow> tokenSum (fst (pruned a now q)) + est \<le> tpm lims) \<and>
            (dailyTokenBudget lims > 0 \<longrightarrow> dailyUsed a now q + max 0 est \<le> dailyTokenBudget lims)) \<and>
         (\<not> isOk d \<longrightarrow> windows q' = windows (snd (pruned a now q)) \<and>
            (\<forall>k. get_or (daily q') k 0 = get_or (daily q) k 0))"
proof
  show "isOk d \<longleftrightarrow> rpm lims \<noteq> 0 \<and> int (length (fst (pruned a now q))) < rpm lims \<and>
      (tpm lims > 0 \<longrightarrow> tokenSum (fst (pruned a now q)) + est \<le> tpm lims) \<and>
      (dailyTokenBudget lims > 0 \<longrightarrow> dailyUsed a now q + max 0 est \<le> dailyTokenBudget lims)"
    using assms(2)
    by (auto simp: checkQuota_def isOk_def reserveDaily_def upsertDaily_def dailyUsed_def split_beta
        Let_def max_def split: if_splits)
  show "\<not> isOk d \<longrightarrow> windows q' = windows (snd (pruned a now q)) \<and>
      (\<forall>k. get_or (daily q') k 0 = get_or (daily q) k 0)"
    using checkQuota_No [OF _ assms(1)] assms(2) by (cases d) (auto simp: isOk_def)
qed

text \<open>
  The retry hint of a refusal on the request rate is sound: it is between one second and
  sixty, and a client that waits that long finds the window with room for its request (when no
  other request of the key was admitted meanwhile).
\<close>
lemma quota_rpm_retry:
  assumes "quota_run a lims day t q acc out spent" and "t \<le> now" and "0 < rpm lims"
    and "checkQuota a lims est eid now q = (QuotaNo ReasonRpm s snap, q')"
  shows "1 \<le> s \<and> s \<le> 60 \<and> int (length (fst (pruned a (now + 1000 * s) q'))) < rpm lims"
proof -
  let ?live = "fst (pruned a now q)"
  have s: "s = windowRetry ?live now" and q': "windows q' = windows (snd (pruned a now q))"
    and full: "int (length ?live) + 1 > rpm lims"
    using assms(3,4) by (auto simp: checkQuota_def reserveDaily_def split_beta Let_def split: if_splits)
  have win: "window_ok WINDOW_MS (nat (rpm lims)) now (stampsOf a q) acc"
    using quota_run_window [OF assms(1)] assms(2) by (rule window_ok_later [rotated])
  have stamps: "map ev_ts ?live = filter (\<lambda>t. now - WINDOW_MS < t) (stampsOf a q)"
    by (simp add: pruned_def Let_def stampsOf_def filter_map comp_def)
  then have acc: "map ev_ts ?live = filter (in_window WINDOW_MS now) acc"
    using win by (auto simp: window_ok_def in_window_def intro!: filter_cong)
  then have le: "length ?live \<le> nat (rpm lims)"
    using win by (metis length_map window_ok_def)
  obtain e es where live: "?live = e # es" using full assms(3) by (cases ?live) auto
  have e: "now - WINDOW_MS < ev_ts e" "ev_ts e \<le> now"
    using arg_cong [OF acc, of set] live by (auto simp: in_window_def)
  have "fst (pruned a (now + 1000 * s) q') = filter (\<lambda>e. now + 1000 * s - WINDOW_MS < ev_ts e) ?live"
    using q' by (simp add: pruned_def Let_def get_or_def)
  moreover have "ev_ts e + WINDOW_MS - now \<le> s * 1000"
    using retry_seconds_covers [of "ev_ts e + WINDOW_MS - now"] s live by (simp add: windowRetry_def)
  ultimately have "length (fst (pruned a (now + 1000 * s) q')) \<le> length es"
    using live by simp
  moreover have "s \<le> 60"
    using s live e by (simp add: windowRetry_def retry_seconds_le WINDOW_MS_def)
  moreover have "1 \<le> s" using s live by (simp add: windowRetry_def)
  ultimately show ?thesis using le live assms(3) by simp
qed

text \<open>
  The retry hint of a refusal on the daily budget leads into the next UTC day: it is between
  one second and a day, and the instant it names has another day key, so a fresh counter.
\<close>
lemma daily_retry_next_day:
  assumes "epoch_day (Day now)" and "epoch_day (Day now + 1)"
  shows "1 \<le> secondsToUtcMidnight now \<and> secondsToUtcMidnight now \<le> 86400 \<and>
         Day (now + 1000 * secondsToUtcMidnight now) = Day now + 1 \<and>
         dayKey (now + 1000 * secondsToUtcMidnight now) \<noteq> dayKey now"
proof -
  let ?s = "secondsToUtcMidnight now"
  have s: "?s = retry_seconds ((Day now + 1) * ms_per_day - now)"
    by (simp add: secondsToUtcMidnight_def Let_def MakeDay_civil)
  have now: "Day now * 86400000 \<le> now" "now < (Day now + 1) * 86400000"
    by (simp_all add: Day_def)
  have lo: "(Day now + 1) * 86400000 - now \<le> ?s * 1000"
    using retry_seconds_covers [of "(Day now + 1) * 86400000 - now"] s by simp
  have hi: "?s * 1000 < (Day now + 1) * 86400000 - now + 1000"
    using s now(2) by (simp add: retry_seconds_def ceil_div_def max_def) linarith
  have le: "?s \<le> 86400" using s now by (simp add: retry_seconds_le)
  have day: "Day (now + 1000 * ?s) = Day now + 1"
    using lo hi now by (simp add: Day_def)
  then have "dayKey (now + 1000 * ?s) \<noteq> dayKey now"
    using isoDay_inject [OF assms(2,1)] by (simp add: dayKey_def)
  with le day s show ?thesis by simp
qed

text \<open>The admissions of a sequence of requests at the times \<open>ts\<close> to one throttle bucket.\<close>

fun rateRun :: "string \<Rightarrow> int \<Rightarrow> millis \<Rightarrow> millis list \<Rightarrow> RateBuckets \<Rightarrow> millis list" where
  "rateRun bucket limit windowMs [] bs = []"
| "rateRun bucket limit windowMs (t # ts) bs =
     (let (d, bs') = checkRateWindow bucket limit windowMs t bs
      in (if rw_ok d then [t] else []) @ rateRun bucket limit windowMs ts bs')"

lemma rateRun_window:
  assumes "0 < limit" and "0 < windowMs"
  shows "window_ok windowMs (nat limit) now (get_or bs bucket []) acc \<Longrightarrow> sorted (now # ts) \<Longrightarrow>
     length (filter (in_window windowMs T) (acc @ rateRun bucket limit windowMs ts bs)) \<le> nat limit"
proof (induction ts arbitrary: now bs acc)
  case Nil
  then show ?case by (simp add: window_ok_def)
next
  case (Cons t ts)
  obtain ok bs' where chk: "rateGate bucket limit windowMs () t bs = (ok, bs')"
    by (metis surj_pair)
  have "window_ok windowMs (nat limit) t (get_or bs' bucket []) (if ok then acc @ [t] else acc)"
    using rateGate_window [OF assms, of bucket] Cons.prems chk
    by (intro sliding_window.check_window_ok [where check = "rateGate bucket limit windowMs" and
        stamps = "\<lambda>bs. get_or bs bucket []"]) auto
  from Cons.IH [OF this] Cons.prems(2) chk show ?case
    by (auto simp: rateGate_def split_beta Let_def split: if_splits)
qed

text \<open>
  The throttle of the unauthenticated surface: requests to a bucket, at times that do not go
  backwards, are admitted at most \<open>limit\<close> times in any window of \<open>windowMs\<close>.
\<close>
lemma rate_window_bound:
  assumes "0 < limit" and "0 < windowMs" and "sorted ts"
  shows "length (filter (in_window windowMs T) (rateRun bucket limit windowMs ts Map.empty)) \<le> nat limit"
proof (cases ts)
  case (Cons t us)
  show ?thesis
    using rateRun_window [OF assms(1,2), of t Map.empty bucket "[]" ts T] assms(3) Cons
    by (simp add: get_or_def window_ok_start)
qed simp

section \<open>Witnesses\<close>

text \<open>A key limited to one request a minute is admitted at 0, settled at 5 and refused at 10.\<close>

definition wLimits :: QuotaLimits where
  "wLimits = \<lparr>rpm = 1, tpm = 0, dailyTokenBudget = 100\<rparr>"

definition wEmpty :: QuotaState where
  "wEmpty = \<lparr>windows = Map.empty, daily = Map.empty\<rparr>"

definition wRes :: QuotaReservation where
  "wRes = \<lparr>r_alias = ''k'', r_eventId = ''e'', r_reservedDaily = 40, r_day = dayKey 0\<rparr>"

definition wAdmitted :: QuotaState where
  "wAdmitted = \<lparr>windows = [''k'' \<mapsto> [\<lparr>ev_id = ''e'', ev_ts = 0, ev_tokens = 40\<rparr>]],
                daily = [(''k'', dayKey 0) \<mapsto> 40]\<rparr>"

lemma wCheck: "checkQuota ''k'' wLimits 40 ''e'' 0 wEmpty =
    (QuotaOk (fst (snapshotQuota ''k'' wLimits 0 wEmpty)\<lparr>rpmUsed := 1, tpmUsed := 40\<rparr>) wRes, wAdmitted)"
  by (simp add: checkQuota_def snapshotQuota_def pruned_def reserveDaily_def upsertDaily_def dailyUsed_def
      wLimits_def wEmpty_def wRes_def wAdmitted_def get_or_def tokenSum_def windowRetry_def Let_def)

lemma wRun: "quota_run ''k'' wLimits (dayKey 0) 0 wAdmitted [0] [wRes] 0"
proof -
  have "quota_run ''k'' wLimits (dayKey 0) 0 wEmpty [] [] 0" by (rule run_start) (simp_all add: wEmpty_def)
  from run_check [OF this order_refl wCheck] show ?thesis by (simp add: isOk_def)
qed

theorem quota_rpm_window_witness: "length (filter (in_window WINDOW_MS 30000) [0]) \<le> nat (rpm wLimits)"
  using quota_rpm_window [OF wRun] .

lemma quota_daily_conserved_witness:
  "get_or (daily wAdmitted) (''k'', dayKey 0) 0 = 0 + dayReserved (dayKey 0) [wRes] \<and>
   0 \<le> dayReserved (dayKey 0) [wRes]"
  using quota_daily_conserved [OF wRun] .

lemma checkQuota_decides_witness:
  "rpm wLimits \<noteq> 0 \<and> dailyUsed ''k'' 0 wEmpty + max 0 40 \<le> dailyTokenBudget wLimits"
proof -
  have "\<forall>t \<in> ran (daily wEmpty). 0 \<le> t" by (simp add: wEmpty_def)
  from checkQuota_decides [OF this wCheck] show ?thesis by (simp add: isOk_def wLimits_def)
qed

lemma wRefused: "\<exists>snap q'. checkQuota ''k'' wLimits 40 ''f'' 10 wAdmitted = (QuotaNo ReasonRpm 60 snap, q')"
  by (simp add: checkQuota_def pruned_def wLimits_def wAdmitted_def get_or_def windowRetry_def
      retry_seconds_def ceil_div_def WINDOW_MS_def Let_def)

lemma quota_rpm_retry_witness:
  "\<exists>q' snap. checkQuota ''k'' wLimits 40 ''f'' 10 wAdmitted = (QuotaNo ReasonRpm 60 snap, q') \<and>
     int (length (fst (pruned ''k'' (10 + 1000 * 60) q'))) < rpm wLimits"
proof -
  obtain snap q' where no: "checkQuota ''k'' wLimits 40 ''f'' 10 wAdmitted = (QuotaNo ReasonRpm 60 snap, q')"
    using wRefused by blast
  have "0 < rpm wLimits" by (simp add: wLimits_def)
  from quota_rpm_retry [OF wRun _ this no] no show ?thesis by auto
qed

lemma daily_retry_next_day_witness:
  "dayKey (1000 * secondsToUtcMidnight 0) \<noteq> dayKey 0"
  using daily_retry_next_day [of 0] by (simp add: epoch_day_def Day_def)

lemma rate_window_bound_witness:
  "length (filter (in_window 60 60) (rateRun ''ip'' 2 60 [1, 2, 3, 61, 62] Map.empty)) \<le> 2"
  using rate_window_bound [of 2 60 "[1, 2, 3, 61, 62]" 60 "''ip''"] by simp

end
