(* ===== verification/Maintenance_Window.thy ===== *)
theory Maintenance_Window
  imports Admission
begin

text \<open>
  The exclusive maintenance window, \<open>src/homeserver/maintenance-window.ts\<close>, on top of the
  admission controller. \<open>open\<close> and \<open>closeInternal\<close> are asynchronous: each \<open>await\<close> is a
  suspension point, so \<open>open\<close> is a state machine whose phase says what it awaits, and each
  function below is the code from one suspension point to the next. Between two of them any
  other request of the gateway may run.

  The GPU lease (\<open>acquireLease\<close>), llama-swap's residency report (\<open>observeRunning\<close>), the
  clock, the fresh token and the collation of \<open>localeCompare\<close> are arguments of the steps that
  use them. Durations are finite numbers; on a clock that reads whole milliseconds a deadline
  \<open>t + q\<close> has passed exactly from \<open>t + \<lceil>q\<rceil>\<close> on and lies in the past after \<open>t + \<lfloor>q\<rfloor>\<close>.
\<close>

record RunningModel =
  rm_model :: string
  rm_state :: string
  rm_ttlSeconds :: "int option"

record MaintenanceWindowEvidence =
  startedAt :: millis
  expiresAt :: millis
  ev_inflight :: int
  ev_ownerQueued :: int
  runningModels :: "RunningModel list"

datatype MWError =
    MaintenanceWindowBusyError
  | MaintenanceWindowDrainError int int
  | ResidencyUnstable
  | MaintenanceWindowTokenError
  | MaintenanceWindowLeaseLostError
  | AbortError
  | RangeErrorTtl
  | RangeErrorDrain
  | LeaseFailure string
  | ObserveFailure string

record ActiveWindow =
  aw_token :: string
  aw_lease :: nat
  aw_evidence :: MaintenanceWindowEvidence

datatype OpenPhase =
    AwaitLease
  | DrainSleep nat millis
  | AwaitObserve nat millis "RunningModel list option"
  | ResidencySleep nat millis "RunningModel list option"
  | AwaitRollback nat MWError

record Opener =
  op_ttlMs :: rat
  op_drainTimeoutMs :: rat
  op_abort :: "MWError option"
  op_phase :: OpenPhase

text \<open>\<open>mw_closing\<close> are the leases whose release a \<open>closeInternal\<close> awaits; \<open>mw_results\<close>
  the settled promises of \<open>open\<close>; \<open>mw_pending\<close> the administrator's toggle requests that have
  passed their busy test and await their body.\<close>

record MaintenanceWindow =
  mw_opening :: bool
  mw_active :: "ActiveWindow option"
  controller :: AdmissionController
  opener :: "Opener option"
  mw_closing :: "nat list"
  mw_results :: "(MWError + string \<times> MaintenanceWindowEvidence) list"
  mw_pending :: nat

definition mw_new :: "AdmissionController \<Rightarrow> MaintenanceWindow" where
  "mw_new c = \<lparr>mw_opening = False, mw_active = None, controller = c, opener = None, mw_closing = [],
               mw_results = [], mw_pending = 0\<rparr>"

definition mw_status :: "MaintenanceWindow \<Rightarrow> MaintenanceWindowEvidence option" where
  "mw_status s = map_option aw_evidence (mw_active s)"

definition isBusy :: "MaintenanceWindow \<Rightarrow> bool" where
  "isBusy s \<longleftrightarrow> mw_opening s \<or> mw_active s \<noteq> None"

definition setFence :: "millis \<Rightarrow> bool \<Rightarrow> millis option \<Rightarrow> MaintenanceScope \<Rightarrow> MaintenanceWindow \<Rightarrow> MaintenanceWindow"
where
  "setFence now on ttl scope s = s\<lparr>controller := snd (setMaintenanceMode now on ttl scope (controller s))\<rparr>"

section \<open>Opening\<close>

definition finite_pos :: "js_number \<Rightarrow> bool" where
  "finite_pos x = (case x of Fin q \<Rightarrow> 0 < q | _ \<Rightarrow> False)"

text \<open>The \<open>catch\<close> and \<open>finally\<close> blocks. \<open>lease\<close> is the variable of the same name: the fence
  is engaged exactly when it is set.\<close>

definition mw_settle :: "MWError + string \<times> MaintenanceWindowEvidence \<Rightarrow> MaintenanceWindow \<Rightarrow> MaintenanceWindow" where
  "mw_settle r s = s\<lparr>mw_opening := False, opener := None, mw_results := mw_results s @ [r]\<rparr>"

definition mw_fail :: "millis \<Rightarrow> nat option \<Rightarrow> MWError \<Rightarrow> Opener \<Rightarrow> MaintenanceWindow \<Rightarrow> MaintenanceWindow" where
  "mw_fail now lease e op s =
     (case lease of
        None \<Rightarrow> mw_settle (Inl e) s
      | Some l \<Rightarrow> setFence now False None ScopeGuest (s\<lparr>opener := Some (op\<lparr>op_phase := AwaitRollback l e\<rparr>)\<rparr>))"

definition mw_open ::
  "js_number \<Rightarrow> js_number \<Rightarrow> bool \<Rightarrow> MaintenanceWindow \<Rightarrow> MaintenanceWindow" where
  "mw_open ttlMs drainTimeoutMs aborted s =
     (if mw_opening s \<or> mw_active s \<noteq> None
      then s\<lparr>mw_results := mw_results s @ [Inl MaintenanceWindowBusyError]\<rparr>
      else if \<not> finite_pos ttlMs then s\<lparr>mw_results := mw_results s @ [Inl RangeErrorTtl]\<rparr>
      else if \<not> finite_pos drainTimeoutMs then s\<lparr>mw_results := mw_results s @ [Inl RangeErrorDrain]\<rparr>
      else let op = \<lparr>op_ttlMs = rat_of ttlMs, op_drainTimeoutMs = rat_of drainTimeoutMs,
                     op_abort = None, op_phase = AwaitLease\<rparr>;
               s1 = s\<lparr>mw_opening := True, opener := Some op\<rparr>
           in if aborted then mw_fail 0 None AbortError op s1 else s1)"

text \<open>One turn of the residency loop up to \<open>await observeRunning()\<close>.\<close>

definition residencyTurn ::
  "millis \<Rightarrow> nat \<Rightarrow> millis \<Rightarrow> RunningModel list option \<Rightarrow> Opener \<Rightarrow> MaintenanceWindow \<Rightarrow> MaintenanceWindow" where
  "residencyTurn now lease deadline previous op s =
     (case op_abort op of
        Some e \<Rightarrow> mw_fail now (Some lease) e op s
      | None \<Rightarrow> s\<lparr>opener := Some (op\<lparr>op_phase := AwaitObserve lease deadline previous\<rparr>)\<rparr>)"

text \<open>One turn of \<open>waitForDrain\<close>; when it returns, \<open>waitForStableResidency\<close> starts.\<close>

definition drainTurn :: "millis \<Rightarrow> nat \<Rightarrow> millis \<Rightarrow> Opener \<Rightarrow> MaintenanceWindow \<Rightarrow> MaintenanceWindow" where
  "drainTurn now lease deadline op s =
     (case op_abort op of
        Some e \<Rightarrow> mw_fail now (Some lease) e op s
      | None \<Rightarrow>
          let st = snapshot now (controller s)
          in if st_inflight st = 0 \<and> st_ownerQueued st = 0
             then residencyTurn now lease (now + \<lceil>op_drainTimeoutMs op\<rceil>) None op s
             else if now \<ge> deadline
             then mw_fail now (Some lease) (MaintenanceWindowDrainError (st_inflight st) (st_ownerQueued st)) op s
             else s\<lparr>opener := Some (op\<lparr>op_phase := DrainSleep lease deadline\<rparr>)\<rparr>)"

definition mw_leaseGranted :: "millis \<Rightarrow> nat \<Rightarrow> MaintenanceWindow \<Rightarrow> MaintenanceWindow" where
  "mw_leaseGranted now lease s =
     (case opener s of
        Some op \<Rightarrow>
          if op_phase op = AwaitLease
          then drainTurn now lease (now + \<lceil>op_drainTimeoutMs op\<rceil>) op
                 (setFence now True (Some \<lfloor>op_ttlMs op + op_drainTimeoutMs op\<rfloor>) ScopeExclusive s)
          else s
      | None \<Rightarrow> s)"

definition mw_leaseFailed :: "string \<Rightarrow> MaintenanceWindow \<Rightarrow> MaintenanceWindow" where
  "mw_leaseFailed msg s =
     (case opener s of
        Some op \<Rightarrow> if op_phase op = AwaitLease then mw_fail 0 None (LeaseFailure msg) op s else s
      | None \<Rightarrow> s)"

text \<open>The sleeping loops wake up.\<close>

definition mw_wake :: "millis \<Rightarrow> MaintenanceWindow \<Rightarrow> MaintenanceWindow" where
  "mw_wake now s =
     (case opener s of
        None \<Rightarrow> s
      | Some op \<Rightarrow>
          (case op_phase op of
             DrainSleep lease deadline \<Rightarrow> drainTurn now lease deadline op s
           | ResidencySleep lease deadline previous \<Rightarrow> residencyTurn now lease deadline previous op s
           | _ \<Rightarrow> s))"

text \<open>\<open>[...snapshot].sort((a, b) => a.model.localeCompare(b.model))\<close>, a stable sort.\<close>

definition canonical :: "(string \<Rightarrow> string \<Rightarrow> int) \<Rightarrow> RunningModel list \<Rightarrow> RunningModel list" where
  "canonical cmp snap = sort_by (\<lambda>a b. cmp (rm_model a) (rm_model b)) snap"

definition mw_activate ::
  "millis \<Rightarrow> string \<Rightarrow> nat \<Rightarrow> RunningModel list \<Rightarrow> Opener \<Rightarrow> MaintenanceWindow \<Rightarrow> MaintenanceWindow" where
  "mw_activate now token lease models op s =
     (case op_abort op of
        Some e \<Rightarrow> mw_fail now (Some lease) e op s
      | None \<Rightarrow>
          let s1 = setFence now True (Some \<lfloor>op_ttlMs op + 1000\<rfloor>) ScopeExclusive s;
              evidence = \<lparr>startedAt = now, expiresAt = now + \<lfloor>op_ttlMs op\<rfloor>, ev_inflight = 0,
                          ev_ownerQueued = 0, runningModels = models\<rparr>
          in mw_settle (Inr (token, evidence))
               (s1\<lparr>mw_active := Some \<lparr>aw_token = token, aw_lease = lease, aw_evidence = evidence\<rparr>\<rparr>))"

text \<open>\<open>observeRunning()\<close> settles.\<close>

definition mw_observed ::
  "(string \<Rightarrow> string \<Rightarrow> int) \<Rightarrow> millis \<Rightarrow> string \<Rightarrow> RunningModel list \<Rightarrow> MaintenanceWindow \<Rightarrow> MaintenanceWindow" where
  "mw_observed cmp now token snap s =
     (case opener s of
        None \<Rightarrow> s
      | Some op \<Rightarrow>
          (case op_phase op of
             AwaitObserve lease deadline previous \<Rightarrow>
               let canon = canonical cmp snap
               in if (\<not> list_ex (\<lambda>e. rm_state e = ''starting'') snap) \<and> previous = Some canon
                  then mw_activate now token lease canon op s
                  else if now \<ge> deadline then mw_fail now (Some lease) ResidencyUnstable op s
                  else s\<lparr>opener := Some (op\<lparr>op_phase := ResidencySleep lease deadline (Some canon)\<rparr>)\<rparr>
           | _ \<Rightarrow> s))"

definition mw_observeFailed :: "millis \<Rightarrow> string \<Rightarrow> MaintenanceWindow \<Rightarrow> MaintenanceWindow" where
  "mw_observeFailed now msg s =
     (case opener s of
        None \<Rightarrow> s
      | Some op \<Rightarrow>
          (case op_phase op of
             AwaitObserve lease deadline previous \<Rightarrow> mw_fail now (Some lease) (ObserveFailure msg) op s
           | _ \<Rightarrow> s))"

text \<open>The release awaited by the \<open>catch\<close> block settles.\<close>

definition mw_rolledBack :: "MaintenanceWindow \<Rightarrow> MaintenanceWindow" where
  "mw_rolledBack s =
     (case opener s of
        None \<Rightarrow> s
      | Some op \<Rightarrow> (case op_phase op of AwaitRollback lease e \<Rightarrow> mw_settle (Inl e) s | _ \<Rightarrow> s))"

section \<open>Closing\<close>

definition closeInternal :: "string \<Rightarrow> MaintenanceWindow \<Rightarrow> MaintenanceWindow" where
  "closeInternal token s =
     (case mw_active s of
        None \<Rightarrow> s
      | Some aw \<Rightarrow>
          if token \<noteq> aw_token aw then s
          else s\<lparr>mw_active := None, mw_closing := aw_lease aw # mw_closing s\<rparr>)"

text \<open>Its \<open>finally\<close> block, whether the lease's release resolved or rejected.\<close>

definition mw_closed :: "millis \<Rightarrow> nat \<Rightarrow> MaintenanceWindow \<Rightarrow> MaintenanceWindow" where
  "mw_closed now lease s =
     (if lease \<in> set (mw_closing s)
      then setFence now False None ScopeGuest (s\<lparr>mw_closing := remove1 lease (mw_closing s)\<rparr>)
      else s)"

definition mw_close :: "string \<Rightarrow> MaintenanceWindow \<Rightarrow> (MWError + unit) \<times> MaintenanceWindow" where
  "mw_close token s =
     (case mw_active s of
        None \<Rightarrow> (Inl MaintenanceWindowTokenError, s)
      | Some aw \<Rightarrow> if token \<noteq> aw_token aw then (Inl MaintenanceWindowTokenError, s)
                    else (Inr (), closeInternal token s))"

definition mw_shutdown :: "MaintenanceWindow \<Rightarrow> MaintenanceWindow" where
  "mw_shutdown s = (case mw_active s of None \<Rightarrow> s | Some aw \<Rightarrow> closeInternal (aw_token aw) s)"

text \<open>The client disconnects; the lease is lost.\<close>

definition mw_abort :: "MWError \<Rightarrow> MaintenanceWindow \<Rightarrow> MaintenanceWindow" where
  "mw_abort reason s =
     (case opener s of
        None \<Rightarrow> s
      | Some op \<Rightarrow> s\<lparr>opener := Some (op\<lparr>op_abort :=
                       (case op_abort op of None \<Rightarrow> Some reason | Some e \<Rightarrow> Some e)\<rparr>)\<rparr>)"

fun openerLease :: "OpenPhase \<Rightarrow> nat option" where
  "openerLease AwaitLease = None"
| "openerLease (DrainSleep l _) = Some l"
| "openerLease (AwaitObserve l _ _) = Some l"
| "openerLease (ResidencySleep l _ _) = Some l"
| "openerLease (AwaitRollback l _) = Some l"

definition mw_leaseLost :: "nat \<Rightarrow> MaintenanceWindow \<Rightarrow> MaintenanceWindow" where
  "mw_leaseLost lease s =
     (let s1 = (case opener s of
                  None \<Rightarrow> s
                | Some op \<Rightarrow> if openerLease (op_phase op) = Some lease
                              then mw_abort MaintenanceWindowLeaseLostError s else s)
      in case mw_active s1 of
           None \<Rightarrow> s1
         | Some aw \<Rightarrow> if aw_lease aw = lease then closeInternal (aw_token aw) s1 else s1)"

section \<open>The administrator's toggle\<close>

text \<open>
  \<open>POST /admin/maintenance\<close>. The handler asks \<open>isBusy\<close>, then awaits the body, and only then
  validates it and sets the mode: two steps, with anything in between. Of the parsed body the
  handler looks at three fields; \<open>None\<close> is a body that cannot be read or parsed.
\<close>

datatype TtlField = TtlAbsent | TtlNumber js_number | TtlOther

datatype ModeField = ModeAbsent | ModeGuest | ModeExclusive | ModeOther

record ToggleBody =
  tb_on :: "bool option"
  tb_ttlSeconds :: TtlField
  tb_mode :: ModeField

datatype ToggleAnswer =
    ToggleBusy | ToggleWaits | ToggleThrows | ToggleBadOn | ToggleBadMode | ToggleUnbounded | ToggleBadTtl
  | ToggleDone bool

definition toggleTest :: "MaintenanceWindow \<Rightarrow> ToggleAnswer \<times> MaintenanceWindow" where
  "toggleTest s = (if isBusy s then (ToggleBusy, s) else (ToggleWaits, s\<lparr>mw_pending := mw_pending s + 1\<rparr>))"

definition toggleSet ::
  "millis \<Rightarrow> bool \<Rightarrow> millis option \<Rightarrow> MaintenanceScope \<Rightarrow> MaintenanceWindow \<Rightarrow> ToggleAnswer \<times> MaintenanceWindow" where
  "toggleSet now on ttl scope s =
     (ToggleDone (fst (setMaintenanceMode now on ttl scope (controller s))), setFence now on ttl scope s)"

definition toggleBody :: "millis \<Rightarrow> ToggleBody \<Rightarrow> MaintenanceWindow \<Rightarrow> ToggleAnswer \<times> MaintenanceWindow" where
  "toggleBody now b s =
     (case tb_on b of
        None \<Rightarrow> (ToggleBadOn, s)
      | Some on \<Rightarrow>
          let ttlRaw = (if on then tb_ttlSeconds b else TtlAbsent);
              mode = (if on then tb_mode b else ModeAbsent);
              scope = (if mode = ModeExclusive then ScopeExclusive else ScopeGuest)
          in if mode = ModeOther then (ToggleBadMode, s)
             else if on \<and> mode = ModeExclusive \<and> ttlRaw = TtlAbsent then (ToggleUnbounded, s)
             else case ttlRaw of
                    TtlAbsent \<Rightarrow> toggleSet now on None scope s
                  | TtlNumber x \<Rightarrow> if \<not> finite_pos x then (ToggleBadTtl, s)
                                    else toggleSet now on (Some \<lfloor>rat_of x * 1000\<rfloor>) scope s
                  | TtlOther \<Rightarrow> (ToggleBadTtl, s))"

definition toggleResume :: "millis \<Rightarrow> ToggleBody option \<Rightarrow> MaintenanceWindow \<Rightarrow> ToggleAnswer \<times> MaintenanceWindow" where
  "toggleResume now body s =
     (if mw_pending s = 0 then (ToggleThrows, s)
      else let s1 = s\<lparr>mw_pending := mw_pending s - 1\<rparr>
           in case body of None \<Rightarrow> (ToggleThrows, s1) | Some b \<Rightarrow> toggleBody now b s1)"

section \<open>Runs\<close>

text \<open>
  What the gateway does to the controller between two steps of the window: requests come and
  go; the measurement lease is only asked for outside maintenance (as its two callers in
  \<open>gateway.ts\<close> do).
\<close>

inductive traffic :: "millis \<Rightarrow> AdmissionController \<Rightarrow> AdmissionController \<Rightarrow> bool" for now where
  tr_acquire: "traffic now c (snd (acquire now aborted req c))"
| tr_resume: "traffic now c (snd (acquireDecide now aborted req c))"
| tr_release: "traffic now c (release now h c)"
| tr_timeout: "traffic now c (discard now wid (queueTimeout c) c)"
| tr_cancel: "traffic now c (discard now wid Cancelled c)"
| tr_background: "st_maintenanceMode (snapshot now c) \<noteq> Some True \<Longrightarrow>
     traffic now c (snd (tryAcquireBackground c))"
| tr_model: "traffic now c (setActiveModel m c)"

text \<open>
  One step at time \<open>now\<close>. Nothing is asked of the GPU lease: it may be granted at any time, also
  while the release of an earlier grant is still awaited.
\<close>

inductive mw_step :: "MaintenanceWindow \<Rightarrow> millis \<Rightarrow> MaintenanceWindow \<Rightarrow> bool" where
  mws_traffic: "traffic now (controller s) c' \<Longrightarrow> mw_step s now (s\<lparr>controller := c'\<rparr>)"
| mws_toggleTest: "mw_step s now (snd (toggleTest s))"
| mws_toggleResume: "mw_step s now (snd (toggleResume now body s))"
| mws_open: "mw_step s now (mw_open ttl drain aborted s)"
| mws_granted: "mw_step s now (mw_leaseGranted now l s)"
| mws_failed: "mw_step s now (mw_leaseFailed msg s)"
| mws_wake: "mw_step s now (mw_wake now s)"
| mws_observed: "mw_step s now (mw_observed cmp now token snap s)"
| mws_observeFailed: "mw_step s now (mw_observeFailed now msg s)"
| mws_rolledBack: "mw_step s now (mw_rolledBack s)"
| mws_close: "mw_step s now (snd (mw_close token s))"
| mws_timer: "mw_step s now (closeInternal token s)"
| mws_shutdown: "mw_step s now (mw_shutdown s)"
| mws_closed: "mw_step s now (mw_closed now l s)"
| mws_abort: "mw_step s now (mw_abort AbortError s)"
| mws_leaseLost: "mw_step s now (mw_leaseLost l s)"

text \<open>The states a process can be in at time \<open>now\<close>, from its controller at start-up.\<close>

inductive mw_run :: "AdmissionController \<Rightarrow> millis \<Rightarrow> MaintenanceWindow \<Rightarrow> bool" for c0 where
  mwr_new: "ctl_inv c0 \<Longrightarrow> mw_run c0 now (mw_new c0)"
| mwr_step: "mw_run c0 t s \<Longrightarrow> t \<le> now \<Longrightarrow> mw_step s now s' \<Longrightarrow> mw_run c0 now s'"

text \<open>The continuations during which the window stays busy.\<close>

inductive mw_stays :: "millis \<Rightarrow> MaintenanceWindow \<Rightarrow> millis \<Rightarrow> MaintenanceWindow \<Rightarrow> bool" for t s where
  mwt_refl: "mw_stays t s t s"
| mwt_step: "mw_stays t s t' s' \<Longrightarrow> t' \<le> now \<Longrightarrow> mw_step s' now s'' \<Longrightarrow> isBusy s'' \<Longrightarrow> mw_stays t s now s''"

text \<open>Nothing that began before is left to touch the fence: no toggle awaits its body, no release of
  an earlier window is unsettled.\<close>

definition quiet :: "MaintenanceWindow \<Rightarrow> bool" where
  "quiet s \<longleftrightarrow> mw_pending s = 0 \<and> mw_closing s = []"

section \<open>The invariant\<close>

text \<open>The controller holds an exclusive fence until \<open>E\<close>.\<close>

definition fenced_until :: "millis \<Rightarrow> AdmissionController \<Rightarrow> bool" where
  "fenced_until E c \<longleftrightarrow> maintenanceMode c \<and> maintenanceScope c = ScopeExclusive \<and>
     maintenanceExpiresAtMs c = Some E"

definition idle :: "AdmissionController \<Rightarrow> bool" where
  "idle c \<longleftrightarrow> inflight c = 0 \<and> ownerWaiters c = []"

fun phaseFenced :: "OpenPhase \<Rightarrow> bool" where
  "phaseFenced (DrainSleep _ _) = True"
| "phaseFenced (AwaitObserve _ _ _) = True"
| "phaseFenced (ResidencySleep _ _ _) = True"
| "phaseFenced _ = False"

fun phaseDrained :: "OpenPhase \<Rightarrow> bool" where
  "phaseDrained (AwaitObserve _ _ _) = True"
| "phaseDrained (ResidencySleep _ _ _) = True"
| "phaseDrained _ = False"

text \<open>
  A window that is open, or opening past its lease, is alone and has the fence; once the drain
  was seen, the controller is idle as long as the fence has not run out. A failed opening has
  taken its fence down before it waits for the lease to be released.
\<close>

definition opener_ok :: "millis \<Rightarrow> MaintenanceWindow \<Rightarrow> Opener \<Rightarrow> bool" where
  "opener_ok now s op \<longleftrightarrow> mw_opening s \<and> mw_active s = None \<and>
     (phaseFenced (op_phase op) \<longrightarrow> mw_closing s = [] \<and> (\<exists>E. fenced_until E (controller s) \<and>
        (phaseDrained (op_phase op) \<longrightarrow> now \<le> E \<longrightarrow> idle (controller s)))) \<and>
     (\<forall>l e. op_phase op = AwaitRollback l e \<longrightarrow> \<not> maintenanceMode (controller s))"

definition active_ok :: "MaintenanceWindow \<Rightarrow> ActiveWindow \<Rightarrow> bool" where
  "active_ok s aw \<longleftrightarrow> mw_opening s = False \<and> mw_closing s = [] \<and>
     fenced_until (expiresAt (aw_evidence aw) + 1000) (controller s)"

definition mw_inv :: "millis \<Rightarrow> MaintenanceWindow \<Rightarrow> bool" where
  "mw_inv now s \<longleftrightarrow> ctl_inv (controller s) \<and>
     (\<forall>op. opener s = Some op \<longrightarrow> opener_ok now s op) \<and> (\<forall>aw. mw_active s = Some aw \<longrightarrow> active_ok s aw) \<and>
     (opener s = None \<longrightarrow> \<not> mw_opening s)"

lemma fenced_exclusive: "fenced_until E c \<Longrightarrow> now \<le> E \<Longrightarrow> exclusive c now"
  by (simp add: fenced_until_def effectiveMaintenanceScope_def effectiveMaintenanceMode_def)

lemma setMaintenanceMode_on:
  "snd (setMaintenanceMode now True (Some ttl) ScopeExclusive c) =
     c\<lparr>maintenanceMode := True, maintenanceScope := ScopeExclusive, maintenanceExpiresAtMs := Some (now + ttl)\<rparr>"
  by (simp add: setMaintenanceMode_def Let_def)

text \<open>Traffic leaves the fence alone, and a fenced idle controller idle.\<close>

definition fenceOf :: "AdmissionController \<Rightarrow> bool \<times> MaintenanceScope \<times> millis option" where
  "fenceOf c = (maintenanceMode c, maintenanceScope c, maintenanceExpiresAtMs c)"

lemma fenced_until_fenceOf: "fenced_until E c \<longleftrightarrow> fenceOf c = (True, ScopeExclusive, Some E)"
  by (auto simp: fenced_until_def fenceOf_def)

lemma fenceOf_drainSpec: "fenceOf (snd (drainSpec ws c)) = fenceOf c"
  by (induction ws c rule: drainSpec.induct) (auto simp: split_beta fenceOf_def)

lemma fenceOf_drainQueue [simp]: "fenceOf (drainQueue now c) = fenceOf c"
  using fenceOf_drainSpec [of "ownerWaiters c" c]
  by (simp add: drainQueue_def drainFrom_0 fenceOf_def)

lemma fenceOf_takeSlot [simp]: "fenceOf (snd (takeSlot k c)) = fenceOf c"
  by (cases k) (simp_all add: fenceOf_def takeSlot_def makeRelease_def)

lemma fenceOf_dropSlot [simp]: "fenceOf (dropSlot h c) = fenceOf c"
  by (auto simp: fenceOf_def dropSlot_def split: option.split grant.split)

lemma fenceOf_traffic: "traffic now c c' \<Longrightarrow> fenceOf c' = fenceOf c"
proof (induction rule: traffic.induct)
  case (tr_acquire c aborted req)
  then show ?case
    by (auto simp: acquire_def acquireDecide_def split_beta split: option.split AdmissionResult.split)
      (auto simp: fenceOf_def)
next
  case (tr_resume c aborted req)
  then show ?case
    by (auto simp: acquireDecide_def split_beta split: AdmissionResult.split) (auto simp: fenceOf_def)
next
  case (tr_release c h)
  then show ?case by (simp add: release_dropSlot)
next
  case (tr_background c)
  then show ?case by (simp add: tryAcquireBackground_def makeRelease_def fenceOf_def)
next
  case (tr_model c m)
  then show ?case by (simp add: setActiveModel_def fenceOf_def)
qed (auto simp: discard_def, auto simp: fenceOf_def)

lemma traffic_step: "traffic now c c' \<Longrightarrow> ctl_step c c'"
  by (induction rule: traffic.induct) (blast intro: ctl_step.intros)+

lemma idle_traffic:
  assumes "traffic now c c'" and "ctl_inv c" and "idle c" and "exclusive c now"
  shows "idle c'"
proof -
  have none: "outstanding c = Map.empty"
    using assms(2,3) by (simp add: ctl_inv_def accounted_def idle_def)
  have no: "fst (admit (state c now) req cfg) \<noteq> Admit \<and> fst (admit (state c now) req cfg) \<noteq> Queue ms"
    for req cfg ms
    using assms(4) by (simp add: admit_def state_def Let_def)
  have decide: "snd (acquireDecide now aborted req c) = c" for aborted req
    using no by (simp add: acquireDecide_def split: AdmissionResult.split)
  from assms(1) show ?thesis
  proof cases
    case (tr_acquire aborted req)
    then show ?thesis using assms(3) decide by (simp add: acquire_def idle_def split: option.split)
  next
    case tr_background
    then show ?thesis using assms(4) by (simp add: snapshot_def state_def Let_def)
  qed (use assms(3) none decide in
      \<open>simp_all add: release_def discard_def setActiveModel_def idle_def\<close>)
qed

subsection \<open>Preservation\<close>

lemma setFence_fields [simp]:
  "mw_opening (setFence now on ttl sc s) = mw_opening s" "mw_active (setFence now on ttl sc s) = mw_active s"
  "opener (setFence now on ttl sc s) = opener s" "mw_closing (setFence now on ttl sc s) = mw_closing s"
  "mw_results (setFence now on ttl sc s) = mw_results s" "mw_pending (setFence now on ttl sc s) = mw_pending s"
  by (simp_all add: setFence_def)

lemma ctl_inv_setFence: "ctl_inv (controller s) \<Longrightarrow> ctl_inv (controller (setFence now on ttl sc s))"
  by (simp add: setFence_def ctl_inv_setMaintenanceMode)

lemma setFence_on:
  "fenced_until (now + ttl) (controller (setFence now True (Some ttl) ScopeExclusive s))"
  "idle (controller (setFence now True (Some ttl) ScopeExclusive s)) = idle (controller s)"
  by (simp_all add: setFence_def setMaintenanceMode_on fenced_until_def idle_def)

lemma setFence_off: "\<not> maintenanceMode (controller (setFence now False ttl sc s))"
  using fenceOf_drainQueue [of now "(controller s)\<lparr>maintenanceMode := False, maintenanceScope := ScopeGuest,
      maintenanceExpiresAtMs := None\<rparr>"]
  by (simp add: setFence_def setMaintenanceMode_def Let_def fenceOf_def)

lemma mw_inv_later: "mw_inv t s \<Longrightarrow> t \<le> now \<Longrightarrow> mw_inv now s"
  unfolding mw_inv_def opener_ok_def by (meson order_trans)

lemma mw_inv_settle_none:
  "ctl_inv (controller s) \<Longrightarrow> mw_active s = None \<Longrightarrow> mw_inv now (mw_settle r s)"
  by (simp add: mw_inv_def mw_settle_def)

lemma mw_inv_fail:
  assumes "ctl_inv (controller s)" and "mw_opening s" and "mw_active s = None"
  shows "mw_inv now (mw_fail now l e op s)"
proof (cases l)
  case None
  then show ?thesis using assms by (simp add: mw_fail_def mw_inv_settle_none)
next
  case (Some l')
  have "ctl_inv (controller (setFence now False None ScopeGuest
      (s\<lparr>opener := Some (op\<lparr>op_phase := AwaitRollback l' e\<rparr>)\<rparr>)))"
    by (rule ctl_inv_setFence) (use assms in simp)
  then show ?thesis using Some assms setFence_off by (simp add: mw_fail_def mw_inv_def opener_ok_def)
qed

lemma mw_inv_residencyTurn:
  assumes "ctl_inv (controller s)" and "mw_opening s" and "mw_active s = None" and "mw_closing s = []"
    and "fenced_until E (controller s)" and "now \<le> E \<longrightarrow> idle (controller s)"
  shows "mw_inv now (residencyTurn now l dl prev op s)"
  using assms
  by (cases "op_abort op") (simp_all add: residencyTurn_def mw_inv_fail, auto simp: mw_inv_def opener_ok_def)

lemma mw_inv_drainTurn:
  assumes "ctl_inv (controller s)" and "mw_opening s" and "mw_active s = None" and "mw_closing s = []"
    and "fenced_until E (controller s)"
  shows "mw_inv now (drainTurn now l dl op s)"
proof -
  have "idle (controller s)"
    if "st_inflight (snapshot now (controller s)) = 0" "st_ownerQueued (snapshot now (controller s)) = 0"
    using that by (simp add: snapshot_def state_def idle_def Let_def)
  moreover have "mw_inv now (s\<lparr>opener := Some (op\<lparr>op_phase := DrainSleep l dl\<rparr>)\<rparr>)"
    using assms by (auto simp: mw_inv_def opener_ok_def)
  ultimately show ?thesis
    using assms
    by (auto simp: drainTurn_def Let_def mw_inv_fail intro!: mw_inv_residencyTurn split: option.split)
qed

lemma mw_inv_opener:
  assumes "mw_inv now s" and "opener s = Some op"
  shows "ctl_inv (controller s)" and "mw_opening s" and "mw_active s = None"
  using assms by (auto simp: mw_inv_def opener_ok_def)

lemma mw_inv_fenced:
  assumes "mw_inv now s" and "opener s = Some op" and "phaseFenced (op_phase op)"
  obtains E where "mw_closing s = []" and "fenced_until E (controller s)"
    and "phaseDrained (op_phase op) \<longrightarrow> now \<le> E \<longrightarrow> idle (controller s)"
  using assms by (auto simp: mw_inv_def opener_ok_def)

lemma mw_inv_traffic:
  assumes inv: "mw_inv now s" and tr: "traffic now (controller s) c'"
  shows "mw_inv now (s\<lparr>controller := c'\<rparr>)"
proof -
  have "ctl_inv c'" using inv ctl_inv_step [OF traffic_step [OF tr]] by (simp add: mw_inv_def)
  moreover have "fenced_until E c' = fenced_until E (controller s)" for E
    by (simp add: fenced_until_fenceOf fenceOf_traffic [OF tr])
  moreover have "idle c'" if "fenced_until E (controller s)" "now \<le> E" "idle (controller s)" for E
    using idle_traffic [OF tr] inv that fenced_exclusive by (simp add: mw_inv_def)
  moreover have "maintenanceMode c' = maintenanceMode (controller s)"
    using fenceOf_traffic [OF tr] by (simp add: fenceOf_def)
  ultimately show ?thesis using inv by (fastforce simp: mw_inv_def opener_ok_def active_ok_def)
qed

lemma mw_inv_results: "mw_inv now s \<Longrightarrow> mw_inv now (s\<lparr>mw_results := rs\<rparr>)"
  by (simp add: mw_inv_def opener_ok_def active_ok_def)

lemma mw_inv_open: "mw_inv now s \<Longrightarrow> mw_inv now (mw_open ttl drain aborted s)"
  by (simp add: mw_open_def Let_def mw_inv_results) (auto simp: mw_fail_def mw_settle_def mw_inv_def opener_ok_def)

lemma mw_inv_granted:
  assumes inv: "mw_inv now s" and "mw_closing s = []"
  shows "mw_inv now (mw_leaseGranted now l s)"
proof (cases "opener s")
  case (Some op)
  let ?s = "setFence now True (Some \<lfloor>op_ttlMs op + op_drainTimeoutMs op\<rfloor>) ScopeExclusive s"
  have "mw_inv now (drainTurn now l dl op ?s)" for dl
    using mw_inv_opener [OF inv Some] assms(2)
    by (intro mw_inv_drainTurn [OF _ _ _ _ setFence_on(1)]) (simp_all add: ctl_inv_setFence)
  then show ?thesis using Some inv by (simp add: mw_leaseGranted_def)
qed (use inv in \<open>simp add: mw_leaseGranted_def\<close>)

lemma mw_inv_failed: "mw_inv now s \<Longrightarrow> mw_inv now (mw_leaseFailed msg s)"
  using mw_inv_opener [of now s]
  by (auto simp: mw_leaseFailed_def mw_fail_def mw_inv_settle_none split: option.split)

lemma mw_inv_wake: "mw_inv now s \<Longrightarrow> mw_inv now (mw_wake now s)"
proof (cases "opener s")
  case (Some op)
  assume inv: "mw_inv now s"
  note base = mw_inv_opener [OF inv Some]
  show ?thesis
  proof (cases "op_phase op")
    case (DrainSleep l dl)
    then obtain E where "mw_closing s = []" "fenced_until E (controller s)"
      using mw_inv_fenced [OF inv Some] by auto
    then show ?thesis using Some DrainSleep base by (simp add: mw_wake_def mw_inv_drainTurn)
  next
    case (ResidencySleep l dl prev)
    then obtain E where "mw_closing s = []" "fenced_until E (controller s)"
      "now \<le> E \<longrightarrow> idle (controller s)"
      using mw_inv_fenced [OF inv Some] by auto
    then show ?thesis using Some ResidencySleep base by (simp add: mw_wake_def mw_inv_residencyTurn)
  qed (use Some inv in \<open>simp_all add: mw_wake_def\<close>)
qed (simp add: mw_wake_def)

lemma mw_activate_active:
  assumes "op_abort op = None"
  shows "mw_activate now token l models op s =
    mw_settle (Inr (token, \<lparr>startedAt = now, expiresAt = now + \<lfloor>op_ttlMs op\<rfloor>, ev_inflight = 0,
        ev_ownerQueued = 0, runningModels = models\<rparr>))
      ((setFence now True (Some \<lfloor>op_ttlMs op + 1000\<rfloor>) ScopeExclusive s)\<lparr>mw_active :=
        Some \<lparr>aw_token = token, aw_lease = l, aw_evidence =
          \<lparr>startedAt = now, expiresAt = now + \<lfloor>op_ttlMs op\<rfloor>, ev_inflight = 0, ev_ownerQueued = 0,
           runningModels = models\<rparr>\<rparr>\<rparr>)"
  using assms by (simp add: mw_activate_def Let_def)

lemma mw_inv_activate:
  assumes "ctl_inv (controller s)" and "mw_opening s" and "mw_active s = None" and "mw_closing s = []"
  shows "mw_inv now (mw_activate now token l models op s)"
proof (cases "op_abort op")
  case None
  let ?s = "setFence now True (Some \<lfloor>op_ttlMs op + 1000\<rfloor>) ScopeExclusive s"
  have "ctl_inv (controller ?s)" using assms(1) by (rule ctl_inv_setFence)
  moreover have "fenced_until (now + \<lfloor>op_ttlMs op\<rfloor> + 1000) (controller ?s)"
    using setFence_on(1) [of now "\<lfloor>op_ttlMs op + 1000\<rfloor>" s] by (simp add: add.assoc)
  ultimately show ?thesis using None assms
    by (simp add: mw_activate_active mw_inv_def mw_settle_def active_ok_def)
qed (use assms in \<open>simp add: mw_activate_def mw_inv_fail\<close>)

lemma mw_inv_observed: "mw_inv now s \<Longrightarrow> mw_inv now (mw_observed cmp now token snap s)"
proof (cases "opener s")
  case (Some op)
  assume inv: "mw_inv now s"
  note base = mw_inv_opener [OF inv Some]
  show ?thesis
  proof (cases "op_phase op")
    case (AwaitObserve l dl prev)
    then obtain E where E: "mw_closing s = []" "fenced_until E (controller s)"
      "now \<le> E \<longrightarrow> idle (controller s)"
      using mw_inv_fenced [OF inv Some] by auto
    have "mw_inv now (s\<lparr>opener := Some (op\<lparr>op_phase := ResidencySleep l dl p\<rparr>)\<rparr>)" for p
      using base E by (auto simp: mw_inv_def opener_ok_def)
    then show ?thesis using Some AwaitObserve base E
      by (simp add: mw_observed_def Let_def mw_inv_activate mw_inv_fail)
  qed (use Some inv in \<open>simp_all add: mw_observed_def\<close>)
qed (simp add: mw_observed_def)

lemma mw_inv_observeFailed: "mw_inv now s \<Longrightarrow> mw_inv now (mw_observeFailed now msg s)"
  using mw_inv_opener [of now s] mw_inv_fail [of s]
  by (auto simp: mw_observeFailed_def split: option.split OpenPhase.split)

lemma mw_inv_rolledBack: "mw_inv now s \<Longrightarrow> mw_inv now (mw_rolledBack s)"
  using mw_inv_opener [of now s] mw_inv_settle_none [of s]
  by (auto simp: mw_rolledBack_def split: option.split OpenPhase.split)

lemma mw_inv_closeInternal: "mw_inv now s \<Longrightarrow> mw_inv now (closeInternal token s)"
  by (auto simp: closeInternal_def mw_inv_def opener_ok_def active_ok_def split: option.splits)

lemma mw_inv_closed: "mw_inv now s \<Longrightarrow> mw_inv now (mw_closed now l s)"
  using ctl_inv_setFence [of "s\<lparr>mw_closing := remove1 l (mw_closing s)\<rparr>"] setFence_off
  by (auto simp: mw_closed_def mw_inv_def opener_ok_def active_ok_def)

lemma mw_inv_abort: "mw_inv now s \<Longrightarrow> mw_inv now (mw_abort e s)"
  by (auto simp: mw_abort_def mw_inv_def opener_ok_def active_ok_def split: option.splits)

lemma mw_inv_leaseLost: "mw_inv now s \<Longrightarrow> mw_inv now (mw_leaseLost l s)"
  using mw_inv_abort mw_inv_closeInternal
  by (auto simp: mw_leaseLost_def Let_def split: option.split)

lemma mw_inv_close: "mw_inv now s \<Longrightarrow> mw_inv now (snd (mw_close token s))"
  using mw_inv_closeInternal [of now s token] by (auto simp: mw_close_def split: option.split)

lemma mw_inv_shutdown: "mw_inv now s \<Longrightarrow> mw_inv now (mw_shutdown s)"
  using mw_inv_closeInternal by (auto simp: mw_shutdown_def split: option.split)

subsection \<open>The shape of every reachable state\<close>

text \<open>What holds whatever else goes on: an opening and an open window exclude each other.\<close>

definition mw_shape :: "MaintenanceWindow \<Rightarrow> bool" where
  "mw_shape s \<longleftrightarrow> ctl_inv (controller s) \<and> (mw_opening s \<longleftrightarrow> opener s \<noteq> None) \<and>
     (opener s \<noteq> None \<longrightarrow> mw_active s = None)"

lemma shape_setFence: "mw_shape s \<Longrightarrow> mw_shape (setFence now on ttl sc s)"
  using ctl_inv_setFence [of s] by (simp add: mw_shape_def)

lemma shape_fail:
  assumes "mw_shape s" and "opener s \<noteq> None"
  shows "mw_shape (mw_fail now l e op s)"
proof (cases l)
  case (Some l')
  have "mw_shape (s\<lparr>opener := Some (op\<lparr>op_phase := AwaitRollback l' e\<rparr>)\<rparr>)"
    using assms by (simp add: mw_shape_def)
  then show ?thesis using Some shape_setFence by (simp add: mw_fail_def)
qed (use assms in \<open>auto simp: mw_fail_def mw_settle_def mw_shape_def\<close>)

lemma shape_phase:
  "mw_shape s \<Longrightarrow> opener s \<noteq> None \<Longrightarrow> mw_shape (s\<lparr>opener := Some op\<rparr>)"
  by (simp add: mw_shape_def)

lemma shape_residencyTurn: "mw_shape s \<Longrightarrow> opener s \<noteq> None \<Longrightarrow> mw_shape (residencyTurn now l dl p op s)"
  by (simp add: residencyTurn_def shape_fail shape_phase split: option.split)

lemma shape_drainTurn: "mw_shape s \<Longrightarrow> opener s \<noteq> None \<Longrightarrow> mw_shape (drainTurn now l dl op s)"
  by (simp add: drainTurn_def Let_def shape_fail shape_phase shape_residencyTurn split: option.split)

lemma shape_activate: "mw_shape s \<Longrightarrow> opener s \<noteq> None \<Longrightarrow> mw_shape (mw_activate now token l m op s)"
  using shape_setFence [of s now True _ ScopeExclusive]
  by (auto simp: mw_activate_def Let_def shape_fail split: option.split) (simp add: mw_shape_def mw_settle_def)

lemma shape_open: "mw_shape s \<Longrightarrow> mw_shape (mw_open ttl drain aborted s)"
  by (auto simp: mw_open_def Let_def mw_shape_def mw_fail_def mw_settle_def)

lemma shape_closeInternal: "mw_shape s \<Longrightarrow> mw_shape (closeInternal token s)"
  by (auto simp: closeInternal_def mw_shape_def split: option.split)

lemma shape_abort: "mw_shape s \<Longrightarrow> mw_shape (mw_abort e s)"
  by (auto simp: mw_abort_def mw_shape_def split: option.split)

lemma shape_toggleResume: "mw_shape s \<Longrightarrow> mw_shape (snd (toggleResume now body s))"
proof -
  assume s: "mw_shape s"
  have "mw_shape (s\<lparr>mw_pending := n\<rparr>)" for n using s by (simp add: mw_shape_def)
  then show ?thesis using s
    by (auto simp: toggleResume_def toggleBody_def toggleSet_def Let_def shape_setFence
        split: option.split TtlField.split)
qed

lemma shape_step:
  assumes "mw_step s now s'" and "mw_shape s"
  shows "mw_shape s'"
  using assms(1)
proof cases
  case (mws_traffic c')
  then show ?thesis using assms(2) ctl_inv_step [OF traffic_step] by (simp add: mw_shape_def)
next
  case mws_toggleTest
  then show ?thesis using assms(2) by (simp add: toggleTest_def mw_shape_def)
next
  case (mws_granted l)
  then show ?thesis using assms(2)
    by (auto simp: mw_leaseGranted_def shape_setFence split: option.split intro!: shape_drainTurn)
next
  case (mws_failed msg)
  then show ?thesis using assms(2) by (auto simp: mw_leaseFailed_def shape_fail split: option.split)
next
  case mws_wake
  then show ?thesis using assms(2)
    by (auto simp: mw_wake_def shape_drainTurn shape_residencyTurn split: option.split OpenPhase.split)
next
  case (mws_observed cmp token snap)
  then show ?thesis using assms(2)
    by (auto simp: mw_observed_def Let_def shape_activate shape_fail shape_phase split: option.split OpenPhase.split)
next
  case (mws_observeFailed msg)
  then show ?thesis using assms(2)
    by (auto simp: mw_observeFailed_def shape_fail split: option.split OpenPhase.split)
next
  case mws_rolledBack
  then show ?thesis using assms(2)
    by (auto simp: mw_rolledBack_def mw_settle_def mw_shape_def split: option.split OpenPhase.split)
next
  case (mws_close token)
  then show ?thesis using assms(2) shape_closeInternal by (auto simp: mw_close_def split: option.split)
next
  case mws_shutdown
  then show ?thesis using assms(2) shape_closeInternal by (auto simp: mw_shutdown_def split: option.split)
next
  case (mws_closed l)
  have "mw_shape (s\<lparr>mw_closing := x\<rparr>)" for x using assms(2) by (simp add: mw_shape_def)
  then show ?thesis using mws_closed assms(2) by (auto simp: mw_closed_def shape_setFence)
next
  case (mws_leaseLost l)
  then show ?thesis using assms(2) shape_closeInternal shape_abort
    by (auto simp: mw_leaseLost_def Let_def split: option.split)
qed (use assms(2) in \<open>auto simp: shape_open shape_closeInternal shape_abort shape_toggleResume\<close>)

lemma mw_run_shape: "mw_run c0 now s \<Longrightarrow> mw_shape s"
proof (induction rule: mw_run.induct)
  case (mwr_new now)
  then show ?case by (simp add: mw_shape_def mw_new_def)
qed (blast intro: shape_step)

subsection \<open>Spans in which nothing older is left\<close>

lemma quiet_steps:
  assumes "quiet s" and "isBusy s"
  shows "snd (toggleTest s) = s" and "snd (toggleResume now body s) = s" and "mw_closed now l s = s"
  using assms by (simp_all add: quiet_def toggleTest_def toggleResume_def mw_closed_def)

text \<open>While the window is busy no toggle passes its test and no window is closed, so a quiet state
  stays quiet, and the invariant of the fence holds.\<close>

lemma inv_step:
  assumes step: "mw_step s now s'" and "mw_inv now s" and q: "quiet s" "isBusy s"
  shows "mw_inv now s'"
  using step
proof cases
  case (mws_granted l)
  then show ?thesis using assms(2) q by (simp add: mw_inv_granted quiet_def)
qed (use assms(2) quiet_steps [OF q] in
    \<open>auto intro: mw_inv_traffic mw_inv_open mw_inv_failed mw_inv_wake mw_inv_observed mw_inv_observeFailed
      mw_inv_rolledBack mw_inv_close mw_inv_closeInternal mw_inv_shutdown mw_inv_abort mw_inv_leaseLost\<close>)

lemma fields_fail [simp]:
  "mw_pending (mw_fail now l e op s) = mw_pending s" "mw_closing (mw_fail now l e op s) = mw_closing s"
  by (simp_all add: mw_fail_def mw_settle_def split: option.split)

lemma fields_turns [simp]:
  "mw_pending (residencyTurn now l dl p op s) = mw_pending s"
  "mw_closing (residencyTurn now l dl p op s) = mw_closing s"
  "mw_pending (drainTurn now l dl op s) = mw_pending s"
  "mw_closing (drainTurn now l dl op s) = mw_closing s"
  "mw_pending (mw_activate now token l m op s) = mw_pending s"
  "mw_closing (mw_activate now token l m op s) = mw_closing s"
  by (simp_all add: residencyTurn_def drainTurn_def mw_activate_def mw_settle_def Let_def split: option.split)

lemma fields_steps:
  "quiet (mw_open ttl drain aborted s) = quiet s" "quiet (mw_leaseGranted now l s) = quiet s"
  "quiet (mw_leaseFailed msg s) = quiet s" "quiet (mw_wake now s) = quiet s"
  "quiet (mw_observed cmp now token snap s) = quiet s" "quiet (mw_observeFailed now msg s) = quiet s"
  "quiet (mw_rolledBack s) = quiet s" "quiet (mw_abort e s) = quiet s"
  by (simp_all add: quiet_def mw_open_def mw_leaseGranted_def mw_leaseFailed_def mw_wake_def mw_observed_def
      mw_observeFailed_def mw_rolledBack_def mw_abort_def mw_settle_def Let_def
      split: option.split OpenPhase.split)

text \<open>Without an opening in progress the steps of \<open>open\<close> do nothing.\<close>

lemma no_opener:
  assumes "opener s = None"
  shows "mw_leaseGranted now l s = s" "mw_leaseFailed msg s = s" "mw_wake now s = s"
    "mw_observed cmp now token snap s = s" "mw_observeFailed now msg s = s" "mw_rolledBack s = s"
    "mw_abort e s = s"
  using assms
  by (simp_all add: mw_leaseGranted_def mw_leaseFailed_def mw_wake_def mw_observed_def mw_observeFailed_def
      mw_rolledBack_def mw_abort_def)

lemma active_open: "mw_active s = Some aw \<Longrightarrow> mw_active (mw_open ttl drain aborted s) = Some aw"
  by (simp add: mw_open_def)

text \<open>A close of an open window ends the busy span.\<close>

lemma closeInternal_busy:
  "mw_shape s \<Longrightarrow> isBusy (closeInternal token s) \<Longrightarrow> closeInternal token s = s"
  by (auto simp: closeInternal_def mw_shape_def isBusy_def split: option.splits)

lemma quiet_step:
  assumes step: "mw_step s now s'" and shape: "mw_shape s" and q: "quiet s" "isBusy s" and busy: "isBusy s'"
  shows "quiet s' \<and> (\<forall>aw. mw_active s = Some aw \<longrightarrow> mw_active s' = Some aw)"
proof -
  have close: "quiet (closeInternal token s) \<and> mw_active (closeInternal token s) = mw_active s"
    if "isBusy (closeInternal token s)" for token
    using closeInternal_busy [OF shape that] q by simp
  have active: "opener s = None" if "mw_active s = Some aw" for aw using shape that by (auto simp: mw_shape_def)
  show ?thesis using step
  proof cases
    case (mws_close token)
    then show ?thesis using q busy close by (auto simp: mw_close_def split: option.splits if_splits)
  next
    case (mws_timer token)
    then show ?thesis using q busy close by auto
  next
    case mws_shutdown
    then show ?thesis using q busy close by (auto simp: mw_shutdown_def split: option.splits)
  next
    case (mws_leaseLost l)
    show ?thesis
    proof (cases "mw_active s")
      case None
      then have "mw_active (mw_abort e s) = None" for e by (simp add: mw_abort_def split: option.split)
      then show ?thesis using mws_leaseLost None q
        by (auto simp: mw_leaseLost_def Let_def fields_steps split: option.split)
    next
      case (Some aw)
      then have "s' = (if aw_lease aw = l then closeInternal (aw_token aw) s else s)"
        using mws_leaseLost active [OF Some] by (simp add: mw_leaseLost_def)
      then show ?thesis using q busy close by (auto split: if_splits)
    qed
  next
    case (mws_traffic c')
    then show ?thesis using q by (simp add: quiet_def)
  qed (use q quiet_steps [OF q] active no_opener active_open in \<open>auto simp: fields_steps\<close>)
qed

lemma stays_inv:
  "mw_stays t s now s' \<Longrightarrow> mw_inv t s \<Longrightarrow> mw_shape s \<Longrightarrow> quiet s \<Longrightarrow> isBusy s \<Longrightarrow>
     mw_inv now s' \<and> mw_shape s' \<and> quiet s' \<and> isBusy s' \<and> (\<forall>aw. mw_active s = Some aw \<longrightarrow> mw_active s' = Some aw)"
proof (induction rule: mw_stays.induct)
  case (mwt_step t' s' now s'')
  then have s': "mw_inv t' s'" "mw_shape s'" "quiet s'" "isBusy s'" by simp_all
  then have "mw_inv now s'" using mwt_step.hyps(2) by (blast intro: mw_inv_later)
  then show ?case
    using mwt_step s' inv_step [OF mwt_step.hyps(3)] shape_step [OF mwt_step.hyps(3)]
      quiet_step [OF mwt_step.hyps(3)] by auto
qed simp

text \<open>The two entries into such a span: the grant of the lease, and the activation.\<close>

lemma inv_awaiting:
  "mw_shape s \<Longrightarrow> opener s = Some op \<Longrightarrow> op_phase op = AwaitLease \<Longrightarrow> mw_inv now s"
  by (simp add: mw_shape_def mw_inv_def opener_ok_def)

lemma granted_span:
  assumes "mw_run c0 t s" and "opener s = Some op" and "op_phase op = AwaitLease" and "quiet s"
    and "mw_stays now (mw_leaseGranted now l s) now' s'"
  shows "mw_inv now' s'"
proof -
  let ?s = "mw_leaseGranted now l s"
  have shape: "mw_shape s" using assms(1) by (rule mw_run_shape)
  then have shape': "mw_shape ?s" using shape_step [OF mws_granted] by blast
  have inv: "mw_inv now ?s"
    using mw_inv_granted [OF inv_awaiting [OF shape assms(2,3)]] assms(4) by (simp add: quiet_def)
  have "quiet ?s" using assms(2,3,4) by (simp add: quiet_def mw_leaseGranted_def)
  moreover have "isBusy ?s" using assms(2,3) shape
    by (simp add: mw_leaseGranted_def drainTurn_def residencyTurn_def mw_fail_def isBusy_def mw_shape_def Let_def
        split: option.split)
  ultimately show ?thesis using stays_inv [OF assms(5) inv shape'] by blast
qed

lemma observed_activates:
  assumes "mw_shape s" and "mw_active s = None" and "mw_active (mw_observed cmp now token snap s) = Some aw"
  obtains l op where "opener s = Some op" and "op_abort op = None"
    and "mw_observed cmp now token snap s = mw_activate now token l (canonical cmp snap) op s"
    and "\<not> list_ex (\<lambda>e. rm_state e = ''starting'') snap"
proof (cases "opener s")
  case (Some op)
  have off: "mw_active (mw_fail now (Some l) e op s) = None" for l e using assms(2) by (simp add: mw_fail_def)
  obtain l dl prev where ph: "op_phase op = AwaitObserve l dl prev"
    using Some assms(2,3) by (cases "op_phase op") (auto simp: mw_observed_def)
  then have act: "mw_observed cmp now token snap s = mw_activate now token l (canonical cmp snap) op s"
    "\<not> list_ex (\<lambda>e. rm_state e = ''starting'') snap"
    using Some assms(2,3) off by (auto simp: mw_observed_def Let_def split: if_splits)
  moreover have "op_abort op = None"
    using assms(3) off act(1) by (cases "op_abort op") (auto simp: mw_activate_def)
  ultimately show ?thesis using that Some by blast
qed (use assms in \<open>simp add: mw_observed_def\<close>)

section \<open>Properties\<close>

text \<open>
  C34: an open window is exclusive for as long as its evidence says. Let a window open (its second
  equal residency report activates it) at a moment when no toggle request is still waiting for its
  body and no release of an earlier window is unsettled. Then, in every interleaving of traffic,
  toggle requests, disconnects, lease losses, timers and other open requests, for as long as the
  gateway stays busy with it: it is still this window that is active, the admission fence refuses
  everybody until (and one second past) the reported expiry, every toggle and every second window
  is refused, and nothing that could lower the fence is in flight.
\<close>
theorem maintenance_fence_holds:
  assumes "mw_run c0 t0 s0" and "t0 \<le> now" and "quiet s0" and "mw_active s0 = None"
    and "mw_active (mw_observed cmp now token snap s0) = Some aw"
    and "mw_stays now (mw_observed cmp now token snap s0) now' s"
    and "t \<le> expiresAt (aw_evidence aw) + 1000"
  shows "mw_active s = Some aw \<and> exclusive (controller s) t \<and> quiet s \<and> toggleTest s = (ToggleBusy, s) \<and>
         mw_open ttl drain aborted s = s\<lparr>mw_results := mw_results s @ [Inl MaintenanceWindowBusyError]\<rparr>"
proof -
  let ?s = "mw_observed cmp now token snap s0"
  have shape: "mw_shape s0" using assms(1) by (rule mw_run_shape)
  obtain l op where op: "opener s0 = Some op" and act: "?s = mw_activate now token l (canonical cmp snap) op s0"
    using observed_activates [OF shape assms(4,5)] by metis
  have "mw_inv now ?s" unfolding act
    by (rule mw_inv_activate) (use shape op assms(3) in \<open>simp_all add: mw_shape_def quiet_def\<close>)
  moreover have "mw_shape ?s" using shape by (rule shape_step [OF mws_observed])
  moreover have "quiet ?s" using assms(3) by (simp add: act quiet_def)
  moreover have "isBusy ?s" using assms(5) by (simp add: isBusy_def)
  ultimately have s: "mw_inv now' s" "quiet s" "isBusy s" "mw_active s = Some aw"
    using stays_inv [OF assms(6)] assms(5) by auto
  then have "fenced_until (expiresAt (aw_evidence aw) + 1000) (controller s)"
    by (simp add: mw_inv_def active_ok_def)
  then show ?thesis using s assms(7) fenced_exclusive by (auto simp: toggleTest_def mw_open_def isBusy_def)
qed

text \<open>
  C35: the busy test of the toggle does not protect the window. In any run, let a window be active
  while a toggle request that passed its busy test earlier still waits for its body. When the body
  arrives and says \<open>on: false\<close>, the fence is down and the queue is drained, while the window is
  still active, still busy and still reports its evidence; the answer of the toggle says that it
  was done.
\<close>
theorem maintenance_toggle_drops_fence:
  assumes "mw_run c0 t s" and "t \<le> now" and "mw_active s = Some aw" and "0 < mw_pending s"
    and "tb_on body = Some False"
  shows "let (answer, s') = toggleResume now (Some body) s
         in mw_run c0 now s' \<and> (\<exists>m. answer = ToggleDone m) \<and> \<not> maintenanceMode (controller s') \<and>
            (\<not> startupExclusiveActive (controller s') t' \<longrightarrow> effectiveMaintenanceScope (controller s') t' = None) \<and>
            mw_active s' = Some aw \<and> isBusy s' \<and> mw_status s' = Some (aw_evidence aw)"
proof -
  let ?s = "setFence now False None ScopeGuest (s\<lparr>mw_pending := mw_pending s - 1\<rparr>)"
  have r: "toggleResume now (Some body) s =
      (ToggleDone (fst (setMaintenanceMode now False None ScopeGuest (controller s))), ?s)"
    using assms(4,5) by (simp add: toggleResume_def toggleBody_def toggleSet_def Let_def)
  have "mw_run c0 now ?s"
    using mwr_step [OF assms(1,2) mws_toggleResume [of s now "Some body"]] by (simp add: r)
  moreover have off: "\<not> maintenanceMode (controller ?s)" by (rule setFence_off)
  moreover have "effectiveMaintenanceScope (controller ?s) t' = None" if "\<not> startupExclusiveActive (controller ?s) t'"
    using off that by (simp add: effectiveMaintenanceScope_def effectiveMaintenanceMode_def)
  ultimately show ?thesis using assms(3) by (simp add: r isBusy_def mw_status_def)
qed

text \<open>
  A window whose lease was granted in a quiet state, and that opens while the fence of its opening
  phase is still in force, opens on an idle gateway: nothing in flight, nobody queued, as its
  evidence claims, and no model that is still starting among the residents it reports.
\<close>
lemma maintenance_opens_idle:
  assumes "mw_run c0 t0 s0" and "opener s0 = Some op0" and "op_phase op0 = AwaitLease" and "quiet s0"
    and "mw_stays t1 (mw_leaseGranted t1 l s0) t s" and "t \<le> now" and "mw_active s = None"
    and "maintenanceExpiresAtMs (controller s) = Some E" and "now \<le> E"
    and "mw_active (mw_observed cmp now token snap s) = Some aw"
  shows "inflight (controller (mw_observed cmp now token snap s)) = ev_inflight (aw_evidence aw) \<and>
         int (length (ownerWaiters (controller (mw_observed cmp now token snap s)))) =
           ev_ownerQueued (aw_evidence aw) \<and>
         (\<forall>m \<in> set snap. rm_state m \<noteq> ''starting'') \<and> runningModels (aw_evidence aw) = canonical cmp snap"
proof -
  have inv: "mw_inv now s" using granted_span [OF assms(1-5)] assms(6) by (rule mw_inv_later)
  then have shape: "mw_shape s" by (auto simp: mw_inv_def mw_shape_def opener_ok_def)
  from observed_activates [OF shape assms(7,10)] obtain l op where op: "opener s = Some op" "op_abort op = None"
    "mw_observed cmp now token snap s = mw_activate now token l (canonical cmp snap) op s"
    "\<not> list_ex (\<lambda>e. rm_state e = ''starting'') snap" by metis
  obtain l' dl prev where "op_phase op = AwaitObserve l' dl prev"
    using op(1) assms(7,10) by (cases "op_phase op") (auto simp: mw_observed_def)
  then obtain E' where "fenced_until E' (controller s)" "now \<le> E' \<longrightarrow> idle (controller s)"
    using mw_inv_fenced [OF inv op(1)] by auto
  then have idle: "idle (controller s)" using assms(8,9) by (simp add: fenced_until_def)
  then show ?thesis using assms(10) op setFence_on(2) [of now _ s]
    by (auto simp: mw_activate_active mw_settle_def idle_def list_ex_iff)
qed

text \<open>
  An opening that fails after a grant in a quiet state gives everything back: the fence is down
  before the lease is released, stays down until that release settles, and then the window can be
  opened again, with the error that made it fail as its result.
\<close>
lemma maintenance_failed_open_restores:
  assumes "mw_run c0 t0 s0" and "opener s0 = Some op0" and "op_phase op0 = AwaitLease" and "quiet s0"
    and "mw_stays t1 (mw_leaseGranted t1 l0 s0) now s"
    and "opener s = Some op" and "op_phase op = AwaitRollback l e"
  shows "\<not> maintenanceMode (controller s) \<and> mw_active s = None \<and> \<not> isBusy (mw_rolledBack s) \<and>
         mw_results (mw_rolledBack s) = mw_results s @ [Inl e]"
proof -
  have "opener_ok now s op" using granted_span [OF assms(1-5)] assms(6) by (simp add: mw_inv_def)
  then show ?thesis using assms(6,7) by (simp add: opener_ok_def mw_rolledBack_def mw_settle_def isBusy_def)
qed

section \<open>Witnesses\<close>

text \<open>A window of \<open>ttl\<close> ms with a drain limit of a minute, opened at time 0 with lease 9, up to its first suspension after the lease.\<close>

definition wOpened :: "int \<Rightarrow> MaintenanceWindow \<Rightarrow> MaintenanceWindow" where
  "wOpened ttl s = mw_leaseGranted 0 9 (mw_open (js_int ttl) (js_int 60000) False s)"

text \<open>A process that has just started, with \<open>n\<close> toggle requests awaiting their bodies.\<close>

definition wNew :: "nat \<Rightarrow> AdmissionController \<Rightarrow> MaintenanceWindow" where
  "wNew n c = (mw_new c)\<lparr>mw_pending := n\<rparr>"

lemma wNew_run: "ctl_inv c \<Longrightarrow> mw_run c 0 (wNew n c)"
proof (induction n)
  case 0
  then show ?case using mwr_new [of c 0] by (simp add: wNew_def mw_new_def)
next
  case (Suc n)
  then show ?case using mwr_step [OF _ order_refl mws_toggleTest, of c 0 "wNew n c"]
    by (simp add: toggleTest_def wNew_def isBusy_def mw_new_def)
qed

lemma wOpened_run: "mw_run c 0 s \<Longrightarrow> mw_run c 0 (wOpened ttl s)"
  unfolding wOpened_def by (blast intro: mwr_step [OF _ order_refl] mws_granted mws_open)

lemmas mw_eval = wNew_def mw_leaseGranted_def mw_open_def mw_new_def finite_pos_def rat_of_def drainTurn_def
  residencyTurn_def setFence_def setMaintenanceMode_on snapshot_def state_def Let_def

definition wOp :: "int \<Rightarrow> OpenPhase \<Rightarrow> Opener" where
  "wOp ttl ph = \<lparr>op_ttlMs = of_int ttl, op_drainTimeoutMs = 60000, op_abort = None, op_phase = ph\<rparr>"

definition wFence :: "int \<Rightarrow> AdmissionController \<Rightarrow> AdmissionController" where
  "wFence E c = c\<lparr>maintenanceMode := True, maintenanceScope := ScopeExclusive,
     maintenanceExpiresAtMs := Some E\<rparr>"

definition wAt :: "nat \<Rightarrow> int \<Rightarrow> OpenPhase \<Rightarrow> AdmissionController \<Rightarrow> MaintenanceWindow" where
  "wAt n ttl ph c = \<lparr>mw_opening = True, mw_active = None, controller = c, opener = Some (wOp ttl ph),
     mw_closing = [], mw_results = [], mw_pending = n\<rparr>"

lemma wOpened_idle:
  "idle c \<Longrightarrow> 0 < ttl \<Longrightarrow> wOpened ttl (wNew n c) = wAt n ttl (AwaitObserve 9 60000 None) (wFence (ttl + 60000) c)"
  by (simp add: wOpened_def mw_eval idle_def wOp_def wFence_def wAt_def)

lemma wOpened_busy:
  "inflight c \<noteq> 0 \<Longrightarrow> 0 < ttl \<Longrightarrow> wOpened ttl (wNew n c) = wAt n ttl (DrainSleep 9 60000) (wFence (ttl + 60000) c)"
  by (simp add: wOpened_def mw_eval wOp_def wFence_def wAt_def)

lemma wAt_observe1:
  "now < dl \<Longrightarrow> mw_observed cmp now tok [] (wAt n ttl (AwaitObserve l dl None) c) =
     wAt n ttl (ResidencySleep l dl (Some [])) c"
  by (simp add: mw_observed_def wAt_def wOp_def canonical_def)

lemma wAt_wake: "mw_wake now (wAt n ttl (ResidencySleep l dl p) c) = wAt n ttl (AwaitObserve l dl p) c"
  by (simp add: mw_wake_def wAt_def wOp_def residencyTurn_def)

definition wEvidence :: "int \<Rightarrow> int \<Rightarrow> MaintenanceWindowEvidence" where
  "wEvidence now ttl = \<lparr>startedAt = now, expiresAt = now + ttl, ev_inflight = 0, ev_ownerQueued = 0,
     runningModels = []\<rparr>"

lemma wAt_observe2:
  "mw_active (mw_observed cmp now tok [] (wAt n ttl (AwaitObserve l dl (Some [])) c)) =
     Some \<lparr>aw_token = tok, aw_lease = l, aw_evidence = wEvidence now ttl\<rparr>"
  "inflight (controller (mw_observed cmp now tok [] (wAt n ttl (AwaitObserve l dl (Some [])) c))) = inflight c"
  by (simp_all add: mw_observed_def wAt_def wOp_def canonical_def mw_activate_def mw_settle_def wEvidence_def
      setFence_def setMaintenanceMode_on Let_def)

text \<open>The two observations of a window that finds the gateway idle, the second at 100.\<close>

lemma wRun_idle:
  assumes "ctl_inv c" and "idle c" and "0 < ttl"
  shows "mw_run c 100 (wAt n ttl (AwaitObserve 9 60000 (Some [])) (wFence (ttl + 60000) c))"
proof -
  have "mw_run c 0 (wAt n ttl (AwaitObserve 9 60000 None) (wFence (ttl + 60000) c))"
    using wOpened_run [OF wNew_run [OF assms(1)], of ttl] wOpened_idle [OF assms(2,3)] by simp
  from mwr_step [OF this order_refl mws_observed [of _ 0 "\<lambda>_ _. 0" "''tok''" "[]"]]
  have "mw_run c 0 (wAt n ttl (ResidencySleep 9 60000 (Some [])) (wFence (ttl + 60000) c))"
    by (simp add: wAt_observe1)
  from mwr_step [OF this _ mws_wake, of 100] show ?thesis by (simp add: wAt_wake)
qed

lemma demo_controller_idle: "ctl_inv demo_controller" "idle demo_controller"
  using ctl_inv_new [OF demo_new] by (simp_all add: idle_def demo_controller_def)

lemma wAt_quiet: "quiet (wAt n ttl ph c) \<longleftrightarrow> n = 0" "mw_active (wAt n ttl ph c) = None"
  by (simp_all add: quiet_def wAt_def)

text \<open>The window of one second, open since 150, with \<open>n\<close> toggle requests awaiting their bodies.\<close>

abbreviation wReady :: "nat \<Rightarrow> MaintenanceWindow" where
  "wReady n \<equiv> wAt n 1000 (AwaitObserve 9 60000 (Some [])) (wFence 61000 demo_controller)"

abbreviation wActive :: "nat \<Rightarrow> MaintenanceWindow" where
  "wActive n \<equiv> mw_observed (\<lambda>_ _. 0) 150 ''tok'' [] (wReady n)"

lemma wReady_run: "mw_run demo_controller 100 (wReady n)"
  using wRun_idle [OF demo_controller_idle, of 1000 n] by simp

lemma wActive_run: "mw_run demo_controller 150 (wActive n)"
  by (rule mwr_step [OF wReady_run _ mws_observed]) simp

lemma maintenance_opens_idle_witness: "inflight (controller (wActive 0)) = 0"
proof -
  let ?s0 = "mw_open (js_int 1000) (js_int 60000) False (wNew 0 demo_controller)"
  have s0: "?s0 = wAt 0 1000 AwaitLease demo_controller"
    by (simp add: mw_eval wAt_def wOp_def)
  have run: "mw_run demo_controller 0 (wAt 0 1000 AwaitLease demo_controller)"
    unfolding s0 [symmetric] by (rule mwr_step [OF wNew_run [OF demo_controller_idle(1)] order_refl mws_open])
  have g: "mw_leaseGranted 0 9 (wAt 0 1000 AwaitLease demo_controller) =
      wAt 0 1000 (AwaitObserve 9 60000 None) (wFence 61000 demo_controller)"
    using wOpened_idle [OF demo_controller_idle(2), of 1000 0] unfolding wOpened_def s0 by simp
  have busy: "isBusy (wAt n ttl ph c)" for n ttl ph c by (simp add: isBusy_def wAt_def)
  have "mw_stays 0 (mw_leaseGranted 0 9 (wAt 0 1000 AwaitLease demo_controller)) 0
      (wAt 0 1000 (ResidencySleep 9 60000 (Some [])) (wFence 61000 demo_controller))"
    using mwt_step [OF mwt_refl order_refl mws_observed [of "wAt 0 1000 (AwaitObserve 9 60000 None)
      (wFence 61000 demo_controller)" 0 "\<lambda>_ _. 0" "''tok''" "[]"]] busy
    by (simp add: g wAt_observe1)
  from mwt_step [OF this _ mws_wake, of 100] busy
  have stays: "mw_stays 0 (mw_leaseGranted 0 9 (wAt 0 1000 AwaitLease demo_controller)) 100 (wReady 0)"
    by (simp add: wAt_wake)
  have "opener (wAt 0 1000 AwaitLease demo_controller) = Some (wOp 1000 AwaitLease)"
    "op_phase (wOp 1000 AwaitLease) = AwaitLease" "maintenanceExpiresAtMs (controller (wReady 0)) = Some 61000"
    by (simp_all add: wAt_def wOp_def wFence_def)
  from maintenance_opens_idle [OF run this(1,2) _ stays _ wAt_quiet(2) this(3) _ wAt_observe2(1), of 150]
  show ?thesis by (simp add: wAt_quiet wEvidence_def)
qed

theorem maintenance_fence_holds_witness:
  "let s = (wActive 0)\<lparr>controller := setActiveModel (Some ''m'') (controller (wActive 0))\<rparr>
   in mw_active (wActive 0) \<noteq> None \<and> exclusive (controller s) 2150 \<and> toggleTest s = (ToggleBusy, s)"
proof -
  let ?s = "(wActive 0)\<lparr>controller := setActiveModel (Some ''m'') (controller (wActive 0))\<rparr>"
  have "isBusy ?s" using wAt_observe2(1) [of "\<lambda>_ _. 0" 150 "''tok''" 0 1000 9 60000] by (simp add: isBusy_def)
  then have "mw_stays 150 (wActive 0) 160 ?s"
    by (intro mwt_step [OF mwt_refl _ mws_traffic [OF tr_model]]) simp_all
  from maintenance_fence_holds [OF wReady_run _ _ wAt_quiet(2) wAt_observe2(1) this, of 2150] show ?thesis
    by (simp add: wAt_quiet wEvidence_def wAt_observe2(1))
qed

theorem maintenance_toggle_drops_fence_witness:
  "let body = \<lparr>tb_on = Some False, tb_ttlSeconds = TtlAbsent, tb_mode = ModeAbsent\<rparr>;
       s' = snd (toggleResume 200 (Some body) (wActive 1))
   in mw_run demo_controller 200 s' \<and> isBusy s' \<and> \<not> maintenanceMode (controller s')"
proof -
  have "mw_pending (wActive 1) = 1"
    by (simp add: mw_observed_def wAt_def wOp_def canonical_def)
  then show ?thesis
    using maintenance_toggle_drops_fence [OF wActive_run _ wAt_observe2(1), of 200 1
        "\<lparr>tb_on = Some False, tb_ttlSeconds = TtlAbsent, tb_mode = ModeAbsent\<rparr>" 200]
    by (simp add: Let_def split_beta)
qed

text \<open>
  The fence of the opening phase can run out before the window opens. It lasts the window's
  \<open>ttlMs\<close> plus one drain limit, while the drain and the residency check may each take a drain
  limit. A one-millisecond window whose drain takes the full minute opens with a request in
  flight, and reports that there is none.
\<close>
lemma maintenance_fence_may_lapse:
  "\<exists>s aw. mw_run demo_busy 60100 s \<and> mw_active s = Some aw \<and> inflight (controller s) = 1 \<and>
     ev_inflight (aw_evidence aw) = 0"
proof -
  let ?F = "wFence 60001" and ?cmp = "\<lambda>_ _. 0"
  let ?late = "snd (acquire 60050 False (demo_request OwnerLane ''a'') (release 59999 0 (?F demo_busy)))"
  have free: "release 59999 0 (?F demo_busy) = (?F demo_controller)\<lparr>nextId := 1\<rparr>"
    by (simp add: release_def wFence_def demo_busy_eval demo_controller_def drainQueue_def Let_def
        effectiveMaintenanceScope_def effectiveMaintenanceMode_def startupExclusiveActive_def get_or_def)
  have late: "inflight ?late = 1"
    unfolding free by (simp add: wFence_def demo_controller_def demo_request_def admission_eval)
  have "mw_run demo_busy 0 (wAt 0 1 (DrainSleep 9 60000) (?F demo_busy))"
    using wOpened_run [OF wNew_run [OF ctl_inv_reachable [OF demo_busy_reachable]], of 1 0]
      wOpened_busy [of demo_busy 1 0]
    by (simp add: demo_busy_eval)
  from mwr_step [OF this _ mws_traffic [of 59999 _ "release 59999 0 (?F demo_busy)"]]
  have "mw_run demo_busy 59999 (wAt 0 1 (DrainSleep 9 60000) (release 59999 0 (?F demo_busy)))"
    by (simp add: wAt_def tr_release)
  from mwr_step [OF this _ mws_wake, of 60000]
  have "mw_run demo_busy 60000 (wAt 0 1 (AwaitObserve 9 120000 None) (release 59999 0 (?F demo_busy)))"
    unfolding free
    by (simp add: mw_wake_def wAt_def wOp_def drainTurn_def residencyTurn_def snapshot_def state_def
        wFence_def demo_controller_def Let_def)
  from mwr_step [OF this order_refl mws_observed [of _ 60000 ?cmp "''tok''" "[]"]]
  have "mw_run demo_busy 60000 (wAt 0 1 (ResidencySleep 9 120000 (Some [])) (release 59999 0 (?F demo_busy)))"
    by (simp add: wAt_observe1)
  from mwr_step [OF this _ mws_traffic [of 60050 _ ?late]]
  have "mw_run demo_busy 60050 (wAt 0 1 (ResidencySleep 9 120000 (Some [])) ?late)"
    by (simp add: wAt_def tr_acquire)
  from mwr_step [OF this _ mws_wake, of 60100]
  have "mw_run demo_busy 60100 (wAt 0 1 (AwaitObserve 9 120000 (Some [])) ?late)" by (simp add: wAt_wake)
  from mwr_step [OF this order_refl mws_observed [of _ _ ?cmp "''tok''" "[]"]]
  show ?thesis using late wAt_observe2 [of ?cmp 60100 "''tok''" 0 1 9 120000 ?late]
    by (auto simp: wEvidence_def intro!: exI)
qed

end
