(* ===== verification/Mutation_Lock.thy ===== *)
theory Mutation_Lock
  imports Interfaces
begin

text \<open>
  The lease over the routing-table write path, \<open>src/homeserver/mutation-lock.ts\<close>. The database
  is two one-row tables; every operation runs in one \<open>IMMEDIATE\<close> transaction, so it is one
  function of the database. \<open>process.pid\<close> and the clock are arguments. The protected action
  \<open>fn\<close> of \<open>fencedWrite\<close> is a function of the world outside the database (the routing-table
  file), whose effects stay when it throws.
\<close>

definition DEFAULT_MUTATION_LOCK_STALE_AFTER_MS :: millis where
  "DEFAULT_MUTATION_LOCK_STALE_AFTER_MS = 5 * 60 * 1000"

datatype LockError = MutationLockBusyError millis | MutationLockStaleError int | ActionError string

record LeaseRow =
  lr_token :: int
  acquired_at_ms :: millis
  lr_pid :: int

record LeaseDb =
  mutation_lease :: "LeaseRow option"
  mutation_lease_seq :: "int option"

definition emptyLeaseDb :: LeaseDb where
  "emptyLeaseDb = \<lparr>mutation_lease = None, mutation_lease_seq = None\<rparr>"

definition isLeaseCurrent :: "LeaseDb \<Rightarrow> int \<Rightarrow> bool" where
  "isLeaseCurrent db token = (case mutation_lease db of None \<Rightarrow> False | Some row \<Rightarrow> lr_token row = token)"

definition assertLeaseCurrent :: "LeaseDb \<Rightarrow> int \<Rightarrow> LockError + unit" where
  "assertLeaseCurrent db token =
     (if \<not> isLeaseCurrent db token then Inl (MutationLockStaleError token) else Inr ())"

definition fencedWrite ::
  "LeaseDb \<Rightarrow> int \<Rightarrow> ('w \<Rightarrow> (LockError + 'a) \<times> 'w) \<Rightarrow> 'w \<Rightarrow> (LockError + 'a) \<times> 'w" where
  "fencedWrite db token fn w =
     (if \<not> isLeaseCurrent db token then (Inl (MutationLockStaleError token), w) else fn w)"

definition acquireMutationLock :: "millis \<Rightarrow> millis \<Rightarrow> int \<Rightarrow> LeaseDb \<Rightarrow> (LockError + int) \<times> LeaseDb" where
  "acquireMutationLock staleAfterMs nowMs pid db =
     (let take_over =
        (let token = (case mutation_lease_seq db of None \<Rightarrow> 1 | Some n \<Rightarrow> n)
         in (Inr token, db\<lparr>mutation_lease := Some \<lparr>lr_token = token, acquired_at_ms = nowMs, lr_pid = pid\<rparr>,
                            mutation_lease_seq := Some (token + 1)\<rparr>))
      in case mutation_lease db of
           Some existing \<Rightarrow>
             let ageMs = nowMs - acquired_at_ms existing
             in if ageMs \<le> staleAfterMs then (Inl (MutationLockBusyError ageMs), db) else take_over
         | None \<Rightarrow> take_over)"

definition renewMutationLock :: "int \<Rightarrow> millis \<Rightarrow> LeaseDb \<Rightarrow> bool \<times> LeaseDb" where
  "renewMutationLock token nowMs db =
     (case mutation_lease db of
        None \<Rightarrow> (False, db)
      | Some row \<Rightarrow> if lr_token row = token
                     then (True, db\<lparr>mutation_lease := Some (row\<lparr>acquired_at_ms := nowMs\<rparr>)\<rparr>)
                     else (False, db))"

definition releaseMutationLock :: "int \<Rightarrow> LeaseDb \<Rightarrow> LeaseDb" where
  "releaseMutationLock token db =
     (case mutation_lease db of
        None \<Rightarrow> db
      | Some row \<Rightarrow> if lr_token row = token then db\<lparr>mutation_lease := None\<rparr> else db)"

lemmas lock_defs [component_defs] =
  isLeaseCurrent_def acquireMutationLock_def renewMutationLock_def releaseMutationLock_def Let_def

section \<open>Operations of any number of processes\<close>

datatype LockOp =
    OpAcquire millis millis int
  | OpRenew int millis
  | OpRelease int
  | OpFenced int

text \<open>One operation, by anyone: the token it grants, if any, and the database after it.\<close>

fun lock_exec :: "LockOp \<Rightarrow> LeaseDb \<Rightarrow> int option \<times> LeaseDb" where
  "lock_exec (OpAcquire staleAfterMs nowMs pid) db =
     (case acquireMutationLock staleAfterMs nowMs pid db of
        (Inl e, db') \<Rightarrow> (None, db') | (Inr token, db') \<Rightarrow> (Some token, db'))"
| "lock_exec (OpRenew token nowMs) db = (None, snd (renewMutationLock token nowMs db))"
| "lock_exec (OpRelease token) db = (None, releaseMutationLock token db)"
| "lock_exec (OpFenced token) db = (None, db)"

definition lock_op :: "LeaseDb \<Rightarrow> int option \<Rightarrow> LeaseDb \<Rightarrow> bool" where
  "lock_op db g db' \<longleftrightarrow> (\<exists>o'. lock_exec o' db = (g, db'))"

definition currentToken :: "LeaseDb \<Rightarrow> int option" where
  "currentToken db = map_option lr_token (mutation_lease db)"

definition nextToken :: "LeaseDb \<Rightarrow> int" where
  "nextToken db = (case mutation_lease_seq db of None \<Rightarrow> 1 | Some n \<Rightarrow> n)"

lemma isLeaseCurrent_iff: "isLeaseCurrent db t \<longleftrightarrow> currentToken db = Some t"
  by (auto simp: isLeaseCurrent_def currentToken_def split: option.split)

lemma acquire_granted:
  assumes "acquireMutationLock st now pid db = (Inr t, db')"
  shows "t = nextToken db \<and> currentToken db' = Some t \<and> nextToken db' = t + 1 \<and>
         mutation_lease db' = Some \<lparr>lr_token = t, acquired_at_ms = now, lr_pid = pid\<rparr>"
  using assms
  by (auto simp: acquireMutationLock_def currentToken_def nextToken_def Let_def
      split: option.splits if_splits)

lemma acquire_refused: "acquireMutationLock st now pid db = (Inl e, db') \<Longrightarrow> db' = db"
  by (auto simp: acquireMutationLock_def Let_def split: option.splits if_splits)

lemma stale_token_noop:
  assumes "currentToken db \<noteq> Some t"
  shows "fencedWrite db t fn w = (Inl (MutationLockStaleError t), w)"
    and "renewMutationLock t now db = (False, db)" and "releaseMutationLock t db = db"
  using assms
  by (auto simp: fencedWrite_def isLeaseCurrent_iff renewMutationLock_def releaseMutationLock_def
      currentToken_def split: option.split)

interpretation mlock: fenced_lease currentToken nextToken lock_op
proof unfold_locales
  fix db db' :: LeaseDb and t
  assume "lock_op db (Some t) db'"
  then obtain o' where "lock_exec o' db = (Some t, db')" by (auto simp: lock_op_def)
  then show "t = nextToken db \<and> currentToken db' = Some t \<and> nextToken db' = t + 1"
    by (cases o') (auto dest: acquire_granted split: prod.splits sum.splits)
next
  fix db db' :: LeaseDb
  assume "lock_op db None db'"
  then obtain o' where o': "lock_exec o' db = (None, db')" by (auto simp: lock_op_def)
  show "nextToken db' = nextToken db \<and> (currentToken db' = currentToken db \<or> currentToken db' = None)"
  proof (cases o')
    case (OpAcquire st now pid)
    then show ?thesis using o' by (auto dest: acquire_refused split: prod.splits sum.splits)
  qed (use o' in \<open>auto simp: renewMutationLock_def releaseMutationLock_def currentToken_def
        nextToken_def split: option.splits if_splits\<close>)
qed

section \<open>Properties\<close>

text \<open>
  Fencing is complete. Once anybody has taken the lease over from the holder of token \<open>t\<close>,
  then after any further operations by any processes, every token granted is larger than \<open>t\<close>, a
  write fenced by \<open>t\<close> is refused and performs nothing of its action, and a late renewal or
  release by \<open>t\<close> leaves the lease of its new owner as it is.
\<close>
lemma mutation_stale_token_fenced:
  assumes "acquireMutationLock st now pid db = (Inr t, db1)"
    and "lease_run lock_op db1 toks db2" and "toks \<noteq> []"
  shows "(\<forall>u \<in> set toks. t < u) \<and>
         fencedWrite db2 t fn w = (Inl (MutationLockStaleError t), w) \<and>
         renewMutationLock t now' db2 = (False, db2) \<and> releaseMutationLock t db2 = db2"
proof -
  note grant = acquire_granted [OF assms(1)]
  have "currentToken db2 \<noteq> Some t"
    using assms(2,3) grant by (intro mlock.superseded [OF assms(2)]) auto
  moreover have "\<forall>u \<in> set toks. t < u" using mlock.run_increasing [OF assms(2)] grant by auto
  ultimately show ?thesis by (simp add: stale_token_noop)
qed

text \<open>Operations that leave a lease taken at \<open>since\<close> alone: nobody but its holder releases it,
  its renewals move forward, and contenders come before it is stale by their own threshold.\<close>

fun leaves_alone :: "int \<Rightarrow> millis \<Rightarrow> LockOp \<Rightarrow> bool" where
  "leaves_alone t since (OpAcquire staleAfterMs nowMs pid) = (nowMs - since \<le> staleAfterMs)"
| "leaves_alone t since (OpRenew token nowMs) = (token = t \<longrightarrow> since \<le> nowMs)"
| "leaves_alone t since (OpRelease token) = (token \<noteq> t)"
| "leaves_alone t since (OpFenced token) = True"

definition held_since :: "int \<Rightarrow> millis \<Rightarrow> LeaseDb \<Rightarrow> bool" where
  "held_since t since db =
     (case mutation_lease db of None \<Rightarrow> False
      | Some row \<Rightarrow> lr_token row = t \<and> since \<le> acquired_at_ms row)"

lemma leaves_alone_exec:
  "held_since t since db \<Longrightarrow> leaves_alone t since o' \<Longrightarrow>
     fst (lock_exec o' db) = None \<and> held_since t since (snd (lock_exec o' db))"
  by (cases o') (auto simp: held_since_def lock_defs split: option.splits)

lemma leaves_alone_run:
  "held_since t since db \<Longrightarrow> \<forall>o' \<in> set ops. leaves_alone t since o' \<Longrightarrow>
     held_since t since (fold (\<lambda>o'. snd \<circ> lock_exec o') ops db)"
  by (induction ops arbitrary: db) (auto dest: leaves_alone_exec)

text \<open>
  A lease that is not stale is exclusive. From the moment it is granted, whatever the other
  processes try before it has gone stale by their own threshold (acquisitions, renewals, releases
  and writes with their tokens), the holder keeps it: its fenced action runs, and every contender
  is refused.
\<close>
lemma mutation_lease_held:
  assumes "acquireMutationLock st now pid db = (Inr t, db1)"
    and "\<forall>o' \<in> set ops. leaves_alone t now o'"
    and "db2 = fold (\<lambda>o'. snd \<circ> lock_exec o') ops db1"
    and "now' - now \<le> st'"
  shows "fencedWrite db2 t fn w = fn w \<and>
         (\<exists>age. acquireMutationLock st' now' pid' db2 = (Inl (MutationLockBusyError age), db2))"
proof -
  have "held_since t now db1" using acquire_granted [OF assms(1)] by (simp add: held_since_def)
  then have "held_since t now db2" using leaves_alone_run assms(2,3) by simp
  then show ?thesis using assms(4)
    by (auto simp: held_since_def fencedWrite_def lock_defs split: option.splits)
qed

text \<open>
  The lease is never lost for good: when it is free, or held longer than the threshold, an
  acquisition succeeds, with a token larger than every token granted before it.
\<close>
lemma mutation_acquire_available:
  assumes "lease_run lock_op emptyLeaseDb toks db"
    and "\<forall>row. mutation_lease db = Some row \<longrightarrow> st < now - acquired_at_ms row"
  shows "\<exists>t db'. acquireMutationLock st now pid db = (Inr t, db') \<and> (\<forall>u \<in> set toks. u < t) \<and>
         isLeaseCurrent db' t"
proof -
  obtain t db' where grant: "acquireMutationLock st now pid db = (Inr t, db')"
    using assms(2) by (fastforce simp: acquireMutationLock_def Let_def split: option.splits)
  have "lock_exec (OpAcquire st now pid) db = (Some t, db')" using grant by simp
  then have "lock_op db (Some t) db'" unfolding lock_op_def by blast
  with assms(1) have "lease_run lock_op emptyLeaseDb (toks @ [t]) db'" by (rule lease_run_grant)
  from mlock.run_increasing [OF this] have "\<forall>u \<in> set toks. u < t" by (auto simp: sorted_wrt_append)
  with grant acquire_granted [OF grant] show ?thesis by (auto simp: isLeaseCurrent_iff)
qed

section \<open>Witnesses\<close>

definition wLock :: LeaseDb where
  "wLock = \<lparr>mutation_lease = Some \<lparr>lr_token = 1, acquired_at_ms = 0, lr_pid = 7\<rparr>,
            mutation_lease_seq = Some 2\<rparr>"

definition wLock2 :: LeaseDb where
  "wLock2 = \<lparr>mutation_lease = Some \<lparr>lr_token = 2, acquired_at_ms = 20, lr_pid = 8\<rparr>,
             mutation_lease_seq = Some 3\<rparr>"

lemma wLock_acquire: "acquireMutationLock 10 0 7 emptyLeaseDb = (Inr 1, wLock)"
  by (simp add: acquireMutationLock_def emptyLeaseDb_def wLock_def)

lemma wLock_take_over: "lock_op wLock (Some 2) wLock2"
  unfolding lock_op_def
  by (rule exI [of _ "OpAcquire 10 20 8"]) (simp add: acquireMutationLock_def wLock_def wLock2_def)

lemma mutation_stale_token_fenced_witness:
  "fencedWrite wLock2 1 (\<lambda>w. (Inr (), w + 1)) (5::nat) = (Inl (MutationLockStaleError 1), 5)"
proof -
  have "lease_run lock_op wLock ([] @ [2]) wLock2"
    using lease_run_refl wLock_take_over by (rule lease_run_grant)
  from mutation_stale_token_fenced [OF wLock_acquire this, of "\<lambda>w. (Inr (), w + 1)" "5::nat"]
  show ?thesis by simp
qed

lemma mutation_lease_held_witness:
  "fencedWrite wLock 1 (\<lambda>w. (Inr (), w + 1)) (5::nat) = (Inr (), 6)"
proof -
  have "\<forall>o' \<in> set [OpAcquire 10 5 8, OpRelease 2]. leaves_alone 1 0 o'" by simp
  from mutation_lease_held [OF wLock_acquire this refl, of 5 10 "\<lambda>w. (Inr (), w + 1)" "5::nat"]
  show ?thesis by (simp add: lock_defs wLock_def)
qed

lemma mutation_acquire_available_witness:
  "\<exists>t db'. acquireMutationLock 10 0 7 emptyLeaseDb = (Inr t, db') \<and> isLeaseCurrent db' t"
  using mutation_acquire_available [OF lease_run_refl, of 10 0 7] by (auto simp: emptyLeaseDb_def)

end
