(* ===== verification/Constitutional_Lease.thy ===== *)
theory Constitutional_Lease
  imports Interfaces
begin

text \<open>
  The expiring writer lease and the resources it fences,
  \<open>src/homeserver/constitutional-fenced-lease.ts\<close>. The database is the lease row, the epoch
  sequence and the resource table; every mutation is one \<open>IMMEDIATE\<close> transaction. The monotonic
  clock, the fresh UUID, the boot id, \<open>process.pid\<close> and what \<open>process.kill(pid, 0)\<close> answers
  (\<open>None\<close> when the signal can be sent, otherwise the error code) are arguments. Expiry times
  are stored as decimal strings, as in the code.
\<close>

definition DEFAULT_CONSTITUTIONAL_LEASE_MS :: millis where
  "DEFAULT_CONSTITUTIONAL_LEASE_MS = 45000"

datatype CLeaseError =
    ConstitutionalLeaseBusyError int
  | ConstitutionalLeaseStaleError int
  | LeaseDurationError

record CLeaseRow =
  cr_epoch :: int
  cr_token :: string
  expires_monotonic_ns :: string
  holder_pid :: int
  boot_id :: string

record CResource =
  res_value :: string
  writer_epoch :: int
  writer_token :: string

record CLeaseDb =
  writer_lease :: "CLeaseRow option"
  lease_sequence :: "int option"
  resources :: "string \<rightharpoonup> CResource"

record ConstitutionalFencedLease =
  l_epoch :: int
  l_token :: string
  durationNs :: int
  l_bootId :: string
  released :: bool

type_synonym kill_answer = "int \<Rightarrow> string option"

definition emptyCLeaseDb :: CLeaseDb where
  "emptyCLeaseDb = \<lparr>writer_lease = None, lease_sequence = None, resources = Map.empty\<rparr>"

definition parseMonotonic :: "string \<Rightarrow> int" where
  "parseMonotonic value = (if all_digits value then int (dec_value value) else 0)"

definition processIsAlive :: "kill_answer \<Rightarrow> int \<Rightarrow> bool" where
  "processIsAlive kill pid =
     (if \<not> isSafeInteger (js_int pid) \<or> pid < 1 then False
      else case kill pid of None \<Rightarrow> True | Some code \<Rightarrow> code = ''EPERM'')"

section \<open>Boot identity\<close>

definition boot_id_char :: "char \<Rightarrow> bool" where
  "boot_id_char c \<longleftrightarrow> c \<in> set ''abcdef0123456789-''"

text \<open>\<open>file\<close> is the trimmed text of \<open>/proc/sys/kernel/random/boot_id\<close> when it can be read.\<close>

definition currentConstitutionalBootId :: "string option \<Rightarrow> int \<Rightarrow> rat \<Rightarrow> string" where
  "currentConstitutionalBootId file nowMs uptime =
     (let fallback = ''boot-epoch-minute-'' @ dec_int \<lfloor>(of_int nowMs - uptime * 1000) / 60000\<rfloor>
      in case file of
           None \<Rightarrow> fallback
         | Some value \<Rightarrow> if length value = 36 \<and> list_all boot_id_char value then value else fallback)"

section \<open>Acquisition\<close>

definition leaseBusy :: "kill_answer \<Rightarrow> int \<Rightarrow> string \<Rightarrow> CLeaseRow \<Rightarrow> bool" where
  "leaseBusy kill now bootId existing \<longleftrightarrow>
     boot_id existing = bootId \<and> now < parseMonotonic (expires_monotonic_ns existing) \<and>
     processIsAlive kill (holder_pid existing)"

definition cl_acquire ::
  "kill_answer \<Rightarrow> js_number \<Rightarrow> int \<Rightarrow> string \<Rightarrow> string \<Rightarrow> int \<Rightarrow> CLeaseDb
     \<Rightarrow> (CLeaseError + ConstitutionalFencedLease) \<times> CLeaseDb" where
  "cl_acquire kill durationMs now token bootId pid db =
     (if \<not> isSafeInteger durationMs \<or> the_int durationMs < 10 then (Inl LeaseDurationError, db)
      else let durNs = the_int durationMs * 1000000;
               grant =
                 (let epoch = (case lease_sequence db of None \<Rightarrow> 1 | Some n \<Rightarrow> n)
                  in (Inr \<lparr>l_epoch = epoch, l_token = token, durationNs = durNs, l_bootId = bootId,
                           released = False\<rparr>,
                      db\<lparr>writer_lease := Some \<lparr>cr_epoch = epoch, cr_token = token,
                            expires_monotonic_ns = dec_int (now + durNs), holder_pid = pid,
                            boot_id = bootId\<rparr>,
                         lease_sequence := Some (epoch + 1)\<rparr>))
           in case writer_lease db of
                Some existing \<Rightarrow>
                  if leaseBusy kill now bootId existing
                  then (Inl (ConstitutionalLeaseBusyError
                               (parseMonotonic (expires_monotonic_ns existing) - now)), db)
                  else grant
              | None \<Rightarrow> grant)"

definition assertAcquirable :: "kill_answer \<Rightarrow> int \<Rightarrow> string \<Rightarrow> CLeaseDb \<Rightarrow> CLeaseError + unit" where
  "assertAcquirable kill now bootId db =
     (case writer_lease db of
        Some existing \<Rightarrow>
          if leaseBusy kill now bootId existing
          then Inl (ConstitutionalLeaseBusyError (parseMonotonic (expires_monotonic_ns existing) - now))
          else Inr ()
      | None \<Rightarrow> Inr ())"

section \<open>Operations of a lease holder\<close>

definition rowMatches :: "ConstitutionalFencedLease \<Rightarrow> CLeaseRow \<Rightarrow> bool" where
  "rowMatches l row \<longleftrightarrow> cr_epoch row = l_epoch l \<and> cr_token row = l_token l \<and> boot_id row = l_bootId l"

text \<open>The \<open>UPDATE \<dots> WHERE\<close> statement: the rows changed and the database after it.\<close>

definition updateExpiry :: "ConstitutionalFencedLease \<Rightarrow> int \<Rightarrow> int \<Rightarrow> CLeaseDb \<Rightarrow> nat \<times> CLeaseDb" where
  "updateExpiry l now pid db =
     (case writer_lease db of
        None \<Rightarrow> (0, db)
      | Some row \<Rightarrow>
          if rowMatches l row
          then (1, db\<lparr>writer_lease := Some (row\<lparr>expires_monotonic_ns := dec_int (now + durationNs l),
                                                holder_pid := pid\<rparr>)\<rparr>)
          else (0, db))"

definition assertAndRenewInDb ::
  "ConstitutionalFencedLease \<Rightarrow> int \<Rightarrow> int \<Rightarrow> CLeaseDb \<Rightarrow> (CLeaseError + unit) \<times> CLeaseDb" where
  "assertAndRenewInDb l now pid db =
     (if released l then (Inl (ConstitutionalLeaseStaleError (l_epoch l)), db)
      else case writer_lease db of
             None \<Rightarrow> (Inl (ConstitutionalLeaseStaleError (l_epoch l)), db)
           | Some row \<Rightarrow>
               if \<not> rowMatches l row \<or> parseMonotonic (expires_monotonic_ns row) \<le> now
               then (Inl (ConstitutionalLeaseStaleError (l_epoch l)), db)
               else let (changes, db') = updateExpiry l now pid db
                    in if changes \<noteq> 1 then (Inl (ConstitutionalLeaseStaleError (l_epoch l)), db)
                       else (Inr (), db'))"

definition cl_isCurrent :: "kill_answer \<Rightarrow> ConstitutionalFencedLease \<Rightarrow> int \<Rightarrow> CLeaseDb \<Rightarrow> bool" where
  "cl_isCurrent kill l now db =
     (if released l then False
      else case writer_lease db of
             None \<Rightarrow> False
           | Some row \<Rightarrow> rowMatches l row \<and> now < parseMonotonic (expires_monotonic_ns row) \<and>
                          processIsAlive kill (holder_pid row))"

text \<open>\<open>transition\<close>: the action runs outside the transaction, on the world it changes.\<close>

definition cl_transition ::
  "ConstitutionalFencedLease \<Rightarrow> int \<Rightarrow> int \<Rightarrow> ('w \<Rightarrow> (CLeaseError + 'a) \<times> 'w) \<Rightarrow> CLeaseDb \<times> 'w
     \<Rightarrow> (CLeaseError + 'a) \<times> CLeaseDb \<times> 'w" where
  "cl_transition l now pid action s =
     (case assertAndRenewInDb l now pid (fst s) of
        (Inl e, db) \<Rightarrow> (Inl e, db, snd s)
      | (Inr _, db) \<Rightarrow> (let (r, w) = action (snd s) in (r, db, w)))"

definition writeResource ::
  "ConstitutionalFencedLease \<Rightarrow> string \<Rightarrow> string \<Rightarrow> int \<Rightarrow> int \<Rightarrow> CLeaseDb \<Rightarrow> (CLeaseError + unit) \<times> CLeaseDb" where
  "writeResource l name value now pid db =
     (case assertAndRenewInDb l now pid db of
        (Inl e, _) \<Rightarrow> (Inl e, db)
      | (Inr _, db1) \<Rightarrow>
          (Inr (), db1\<lparr>resources := (resources db1)(name \<mapsto>
             \<lparr>res_value = value, writer_epoch = l_epoch l, writer_token = l_token l\<rparr>)\<rparr>))"

definition removeResource ::
  "ConstitutionalFencedLease \<Rightarrow> string \<Rightarrow> int \<Rightarrow> int \<Rightarrow> CLeaseDb \<Rightarrow> (CLeaseError + unit) \<times> CLeaseDb" where
  "removeResource l name now pid db =
     (case assertAndRenewInDb l now pid db of
        (Inl e, _) \<Rightarrow> (Inl e, db)
      | (Inr _, db1) \<Rightarrow> (Inr (), db1\<lparr>resources := (resources db1)(name := None)\<rparr>))"

definition cl_release :: "ConstitutionalFencedLease \<Rightarrow> CLeaseDb \<Rightarrow> ConstitutionalFencedLease \<times> CLeaseDb" where
  "cl_release l db =
     (if released l then (l, db)
      else (l\<lparr>released := True\<rparr>,
            case writer_lease db of
              None \<Rightarrow> db
            | Some row \<Rightarrow> if rowMatches l row then db\<lparr>writer_lease := None\<rparr> else db))"

definition readConstitutionalResource :: "CLeaseDb \<Rightarrow> string \<Rightarrow> string option" where
  "readConstitutionalResource db name = map_option res_value (resources db name)"

definition constitutionalResourceExists :: "CLeaseDb \<Rightarrow> string \<Rightarrow> bool" where
  "constitutionalResourceExists db name \<longleftrightarrow> readConstitutionalResource db name \<noteq> None"

section \<open>Operations of any number of processes\<close>

datatype CLeaseOp =
    CAcquire kill_answer js_number int string string int
  | CRenew ConstitutionalFencedLease int int
  | CWrite ConstitutionalFencedLease string string int int
  | CRemove ConstitutionalFencedLease string int int
  | CRelease ConstitutionalFencedLease

text \<open>One operation, by anyone, with whatever lease object it has: the epoch it grants, if any.\<close>

fun cl_exec :: "CLeaseOp \<Rightarrow> CLeaseDb \<Rightarrow> int option \<times> CLeaseDb" where
  "cl_exec (CAcquire kill dur now token bootId pid) db =
     (case cl_acquire kill dur now token bootId pid db of
        (Inl e, db') \<Rightarrow> (None, db') | (Inr l, db') \<Rightarrow> (Some (l_epoch l), db'))"
| "cl_exec (CRenew l now pid) db = (None, snd (assertAndRenewInDb l now pid db))"
| "cl_exec (CWrite l name value now pid) db = (None, snd (writeResource l name value now pid db))"
| "cl_exec (CRemove l name now pid) db = (None, snd (removeResource l name now pid db))"
| "cl_exec (CRelease l) db = (None, snd (cl_release l db))"

definition cl_op :: "CLeaseDb \<Rightarrow> int option \<Rightarrow> CLeaseDb \<Rightarrow> bool" where
  "cl_op db g db' \<longleftrightarrow> (\<exists>o'. cl_exec o' db = (g, db'))"

definition currentEpoch :: "CLeaseDb \<Rightarrow> int option" where
  "currentEpoch db = map_option cr_epoch (writer_lease db)"

definition nextEpoch :: "CLeaseDb \<Rightarrow> int" where
  "nextEpoch db = (case lease_sequence db of None \<Rightarrow> 1 | Some n \<Rightarrow> n)"

lemma parseMonotonic_dec [simp]: "0 \<le> i \<Longrightarrow> parseMonotonic (dec_int i) = i"
  by (simp add: parseMonotonic_def dec_int_def all_digits_dec_nat)

lemma cl_acquire_granted:
  assumes "cl_acquire kill dur now token bootId pid db = (Inr l, db')"
  shows "l_epoch l = nextEpoch db" and "nextEpoch db' = l_epoch l + 1"
    and "writer_lease db' = Some \<lparr>cr_epoch = l_epoch l, cr_token = token,
           expires_monotonic_ns = dec_int (now + the_int dur * 1000000), holder_pid = pid, boot_id = bootId\<rparr>"
    and "resources db' = resources db" and "10 \<le> the_int dur"
    and "l = \<lparr>l_epoch = nextEpoch db, l_token = token, durationNs = the_int dur * 1000000,
             l_bootId = bootId, released = False\<rparr>"
  using assms
  by (auto simp: cl_acquire_def nextEpoch_def Let_def split: option.splits if_splits)

lemma cl_acquire_refused: "cl_acquire kill dur now token bootId pid db = (Inl e, db') \<Longrightarrow> db' = db"
  by (auto simp: cl_acquire_def Let_def split: option.splits if_splits)

lemma assertAndRenewInDb_eq:
  "assertAndRenewInDb l now pid db =
     (case writer_lease db of
        None \<Rightarrow> (Inl (ConstitutionalLeaseStaleError (l_epoch l)), db)
      | Some row \<Rightarrow>
          if \<not> released l \<and> rowMatches l row \<and> now < parseMonotonic (expires_monotonic_ns row)
          then (Inr (), db\<lparr>writer_lease :=
             Some (row\<lparr>expires_monotonic_ns := dec_int (now + durationNs l), holder_pid := pid\<rparr>)\<rparr>)
          else (Inl (ConstitutionalLeaseStaleError (l_epoch l)), db))"
  by (auto simp: assertAndRenewInDb_def updateExpiry_def split: option.split)

lemma renew_cases:
  obtains (refused) "assertAndRenewInDb l now pid db = (Inl (ConstitutionalLeaseStaleError (l_epoch l)), db)"
  | (renewed) row where "writer_lease db = Some row" and "rowMatches l row"
      and "now < parseMonotonic (expires_monotonic_ns row)"
      and "assertAndRenewInDb l now pid db = (Inr (), db\<lparr>writer_lease :=
             Some (row\<lparr>expires_monotonic_ns := dec_int (now + durationNs l), holder_pid := pid\<rparr>)\<rparr>)"
proof (cases "\<exists>row. writer_lease db = Some row \<and> \<not> released l \<and> rowMatches l row \<and>
    now < parseMonotonic (expires_monotonic_ns row)")
  case True
  then obtain row where "writer_lease db = Some row" "\<not> released l" "rowMatches l row"
    "now < parseMonotonic (expires_monotonic_ns row)" by blast
  then show ?thesis by (intro renewed) (simp_all add: assertAndRenewInDb_eq)
next
  case False
  then show ?thesis by (intro refused) (auto simp: assertAndRenewInDb_eq split: option.split)
qed

lemma stale_epoch_refused:
  assumes "currentEpoch db \<noteq> Some (l_epoch l)"
  shows "assertAndRenewInDb l now pid db = (Inl (ConstitutionalLeaseStaleError (l_epoch l)), db)"
    and "snd (cl_release l db) = db" and "\<not> cl_isCurrent kill l now db"
  using assms
  by (auto simp: assertAndRenewInDb_def cl_release_def cl_isCurrent_def currentEpoch_def rowMatches_def
      split: option.splits)

text \<open>What a mutation that is not an acquisition does to the lease row and the resources.\<close>

definition resource_epochs :: "CLeaseDb \<Rightarrow> string \<Rightarrow> int option" where
  "resource_epochs db name = map_option writer_epoch (resources db name)"

lemma cl_exec_other:
  assumes "cl_exec o' db = (None, db')"
  shows "nextEpoch db' = nextEpoch db" and "currentEpoch db' = currentEpoch db \<or> currentEpoch db' = None"
    and "resource_epochs db' name = resource_epochs db name \<or> resource_epochs db' name = None \<or>
         resource_epochs db' name = currentEpoch db"
proof -
  have "nextEpoch db' = nextEpoch db \<and> (currentEpoch db' = currentEpoch db \<or> currentEpoch db' = None) \<and>
    (resource_epochs db' name = resource_epochs db name \<or> resource_epochs db' name = None \<or>
     resource_epochs db' name = currentEpoch db)"
  proof (cases o')
    case (CAcquire kill dur now token bootId pid)
    then show ?thesis using assms by (auto dest: cl_acquire_refused split: prod.splits sum.splits)
  next
    case (CRenew l now pid)
    then show ?thesis using assms
      by (cases rule: renew_cases [of l now pid db]) (auto simp: nextEpoch_def currentEpoch_def resource_epochs_def)
  next
    case (CWrite l n v now pid)
    then show ?thesis using assms
      by (cases rule: renew_cases [of l now pid db])
        (auto simp: nextEpoch_def currentEpoch_def resource_epochs_def writeResource_def rowMatches_def)
  next
    case (CRemove l n now pid)
    then show ?thesis using assms
      by (cases rule: renew_cases [of l now pid db])
        (auto simp: nextEpoch_def currentEpoch_def resource_epochs_def removeResource_def)
  next
    case (CRelease l)
    then show ?thesis using assms
      by (auto simp: nextEpoch_def currentEpoch_def resource_epochs_def cl_release_def split: option.splits if_splits)
  qed
  then show "nextEpoch db' = nextEpoch db" "currentEpoch db' = currentEpoch db \<or> currentEpoch db' = None"
    "resource_epochs db' name = resource_epochs db name \<or> resource_epochs db' name = None \<or>
     resource_epochs db' name = currentEpoch db"
    by simp_all
qed

lemma cl_exec_grant:
  assumes "cl_exec o' db = (Some e, db')"
  shows "e = nextEpoch db \<and> currentEpoch db' = Some e \<and> nextEpoch db' = e + 1 \<and> resources db' = resources db"
  using assms
  by (cases o') (auto simp: currentEpoch_def dest: cl_acquire_granted(1-4) split: prod.splits sum.splits)

interpretation clease: fenced_lease currentEpoch nextEpoch cl_op
  by unfold_locales (auto simp: cl_op_def dest: cl_exec_grant cl_exec_other(1,2))

section \<open>The invariant of every run\<close>

text \<open>The current epoch is the last one granted, and no resource was written by a later one.\<close>

definition cl_inv :: "CLeaseDb \<Rightarrow> bool" where
  "cl_inv db \<longleftrightarrow> (\<forall>e. currentEpoch db = Some e \<longrightarrow> nextEpoch db = e + 1) \<and>
     (\<forall>name e. resource_epochs db name = Some e \<longrightarrow> e < nextEpoch db)"

lemma cl_inv_empty: "cl_inv emptyCLeaseDb"
  by (simp add: cl_inv_def emptyCLeaseDb_def currentEpoch_def resource_epochs_def)

lemma cl_inv_op:
  assumes inv: "cl_inv db" and op: "cl_op db g db'"
  shows "nextEpoch db \<le> nextEpoch db'"
    and "resource_epochs db' name = Some e \<Longrightarrow>
         resource_epochs db name = Some e \<or> e + 1 = nextEpoch db'"
    and "cl_inv db'"
proof -
  obtain o' where o': "cl_exec o' db = (g, db')" using op by (auto simp: cl_op_def)
  show next': "nextEpoch db \<le> nextEpoch db'"
    using o' cl_exec_grant cl_exec_other(1) by (cases g) fastforce+
  have wrote: "resource_epochs db name = Some e \<or> e + 1 = nextEpoch db'"
    if "resource_epochs db' name = Some e" for name e
  proof (cases g)
    case (Some x)
    then show ?thesis using that cl_exec_grant [of o' db x db'] o' by (simp add: resource_epochs_def)
  next
    case None
    with o' have "nextEpoch db' = nextEpoch db"
      and "resource_epochs db name = Some e \<or> currentEpoch db = Some e"
      using that cl_exec_other(1) [of o' db db'] cl_exec_other(3) [of o' db db' name] by auto
    then show ?thesis using inv by (auto simp: cl_inv_def)
  qed
  then show "resource_epochs db' name = Some e \<Longrightarrow>
      resource_epochs db name = Some e \<or> e + 1 = nextEpoch db'" .
  have "nextEpoch db' = e + 1" if "currentEpoch db' = Some e" for e
  proof (cases g)
    case (Some x)
    then show ?thesis using that cl_exec_grant [of o' db x db'] o' by simp
  next
    case None
    then show ?thesis using that inv cl_exec_other(1,2) [of o' db db'] o' by (auto simp: cl_inv_def)
  qed
  moreover have "e < nextEpoch db'" if "resource_epochs db' name = Some e" for name e
    using wrote [OF that] inv next' by (fastforce simp: cl_inv_def)
  ultimately show "cl_inv db'" by (simp add: cl_inv_def)
qed

lemma cl_run_inv:
  assumes "lease_run cl_op db toks db'" and "cl_inv db"
  shows "cl_inv db' \<and> nextEpoch db \<le> nextEpoch db' \<and>
         (\<forall>name e. resource_epochs db' name = Some e \<longrightarrow>
            resource_epochs db name = Some e \<or> nextEpoch db \<le> e + 1)"
proof -
  have step: "cl_inv s'' \<and> nextEpoch s \<le> nextEpoch s'' \<and>
      (\<forall>name e. resource_epochs s'' name = Some e \<longrightarrow>
         resource_epochs s name = Some e \<or> nextEpoch s \<le> e + 1)"
    if IH: "cl_inv s' \<and> nextEpoch s \<le> nextEpoch s' \<and> (\<forall>name e. resource_epochs s' name = Some e \<longrightarrow>
         resource_epochs s name = Some e \<or> nextEpoch s \<le> e + 1)"
      and "cl_op s' g s''" for s s' s'' g
  proof -
    note op = cl_inv_op [OF _ \<open>cl_op s' g s''\<close>]
    have "resource_epochs s name = Some e \<or> nextEpoch s \<le> e + 1" if "resource_epochs s'' name = Some e" for name e
      using op(2) [OF _ that] op(1) IH by fastforce
    then show ?thesis using op(1,3) IH by fastforce
  qed
  from assms show ?thesis
    by (induction rule: lease_run.induct) (simp, (rule step; simp)+)
qed

section \<open>Properties\<close>

text \<open>
  Fencing at the resource. After an acquisition by somebody else, whatever happened since, a
  client that resumes with the superseded lease is refused every resource mutation, the database
  stays as it is, its release does not touch the new lease, and it is not current.
\<close>
lemma constitutional_stale_fenced:
  assumes "cl_acquire kill dur now token bootId pid db = (Inr l, db1)"
    and "lease_run cl_op db1 toks db2" and "toks \<noteq> []"
  shows "(\<forall>e \<in> set toks. l_epoch l < e) \<and>
     writeResource l name value now' pid db2 = (Inl (ConstitutionalLeaseStaleError (l_epoch l)), db2) \<and>
     removeResource l name now' pid db2 = (Inl (ConstitutionalLeaseStaleError (l_epoch l)), db2) \<and>
     snd (cl_release l db2) = db2 \<and> \<not> cl_isCurrent kill l now' db2"
proof -
  note grant = cl_acquire_granted [OF assms(1)]
  have "currentEpoch db1 = Some (l_epoch l)" using grant by (simp add: currentEpoch_def)
  then have "currentEpoch db2 \<noteq> Some (l_epoch l)"
    using grant(2) assms(3) by (intro clease.superseded [OF assms(2)]) auto
  moreover have "\<forall>e \<in> set toks. l_epoch l < e" using clease.run_increasing [OF assms(2)] grant(2) by auto
  ultimately show ?thesis
    by (simp add: writeResource_def removeResource_def stale_epoch_refused)
qed

text \<open>
  Resources never go back in time: along every run from the empty database, by any clients
  with any lease objects, current, expired or forged, the epoch that wrote a resource only grows.
\<close>
lemma constitutional_writers_monotone:
  assumes "lease_run cl_op emptyCLeaseDb toks1 db1" and "lease_run cl_op db1 toks2 db2"
    and "resource_epochs db1 name = Some e1" and "resource_epochs db2 name = Some e2"
  shows "e1 \<le> e2"
proof -
  have inv: "cl_inv db1" using cl_run_inv [OF assms(1) cl_inv_empty] by blast
  then have "e1 < nextEpoch db1" using assms(3) by (simp add: cl_inv_def)
  with cl_run_inv [OF assms(2) inv] assms(3,4) show ?thesis by fastforce
qed

text \<open>
  The lease is exclusive for exactly its duration: a contender of the same boot is refused,
  with the time that remains, while the duration runs and the holder lives, and is granted the
  next epoch when it has run out, when the holder is dead or after a reboot.
\<close>
lemma constitutional_lease_term:
  assumes "cl_acquire kill dur now token bootId pid db = (Inr l, db1)" and "0 \<le> now"
    and "isSafeInteger dur'" and "10 \<le> the_int dur'"
  shows "if bootId' = bootId \<and> now' < now + the_int dur * 1000000 \<and> processIsAlive kill' pid
         then cl_acquire kill' dur' now' token' bootId' pid' db1 =
                (Inl (ConstitutionalLeaseBusyError (now + the_int dur * 1000000 - now')), db1)
         else \<exists>l' db2. cl_acquire kill' dur' now' token' bootId' pid' db1 = (Inr l', db2) \<and>
                l_epoch l' = l_epoch l + 1"
proof -
  note grant = cl_acquire_granted [OF assms(1)]
  have "0 \<le> now + the_int dur * 1000000" using grant(5) assms(2) by simp
  then have busy: "leaseBusy kill' now' bootId' (the (writer_lease db1)) \<longleftrightarrow>
      bootId' = bootId \<and> now' < now + the_int dur * 1000000 \<and> processIsAlive kill' pid"
    and rest: "parseMonotonic (expires_monotonic_ns (the (writer_lease db1))) = now + the_int dur * 1000000"
    using grant(3) by (auto simp: leaseBusy_def)
  have seq: "(case lease_sequence db1 of None \<Rightarrow> 1 | Some n \<Rightarrow> n) = l_epoch l + 1"
    using grant(2) by (simp add: nextEpoch_def)
  show ?thesis using busy rest grant(3) assms(3,4) seq
    by (cases "bootId' = bootId \<and> now' < now + the_int dur * 1000000 \<and> processIsAlive kill' pid")
      (simp_all add: cl_acquire_def Let_def)
qed

text \<open>
  The holder's write is accepted exactly while its lease runs; it is then readable, leaves
  every other resource alone, and starts a new term of the full duration.
\<close>
lemma constitutional_write_read:
  assumes "cl_acquire kill dur now token bootId pid db = (Inr l, db1)" and "0 \<le> now" and "now \<le> now'"
  shows "if now' < now + the_int dur * 1000000
         then \<exists>db2 row. writeResource l name value now' pid db1 = (Inr (), db2) \<and>
                readConstitutionalResource db2 name = Some value \<and>
                (\<forall>n. n \<noteq> name \<longrightarrow> readConstitutionalResource db2 n = readConstitutionalResource db1 n) \<and>
                writer_lease db2 = Some row \<and>
                parseMonotonic (expires_monotonic_ns row) = now' + the_int dur * 1000000
         else writeResource l name value now' pid db1 = (Inl (ConstitutionalLeaseStaleError (l_epoch l)), db1)"
proof -
  note grant = cl_acquire_granted [OF assms(1)]
  have "0 \<le> now + the_int dur * 1000000" "0 \<le> now' + the_int dur * 1000000"
    using grant(5) assms(2,3) by simp_all
  then show ?thesis using grant(3,6)
    by (simp add: writeResource_def assertAndRenewInDb_eq rowMatches_def readConstitutionalResource_def)
qed

section \<open>Witnesses\<close>

definition wLease :: "int \<Rightarrow> string \<Rightarrow> ConstitutionalFencedLease" where
  "wLease e tok = \<lparr>l_epoch = e, l_token = tok, durationNs = 10000000, l_bootId = ''b'', released = False\<rparr>"

definition wCDb :: "int \<Rightarrow> string \<Rightarrow> int \<Rightarrow> CLeaseDb" where
  "wCDb e tok until = \<lparr>writer_lease = Some \<lparr>cr_epoch = e, cr_token = tok,
     expires_monotonic_ns = dec_int until, holder_pid = 4, boot_id = ''b''\<rparr>,
     lease_sequence = Some (e + 1), resources = Map.empty\<rparr>"

lemma wCl_acquire:
  "cl_acquire (\<lambda>_. None) (js_int 10) 0 ''t'' ''b'' 4 emptyCLeaseDb = (Inr (wLease 1 ''t''), wCDb 1 ''t'' 10000000)"
  by (simp add: cl_acquire_def emptyCLeaseDb_def wLease_def wCDb_def max_safe_integer_def del: of_int_numeral)

lemma wCl_second:
  "cl_acquire (\<lambda>_. None) (js_int 10) 10000000 ''u'' ''b'' 4 (wCDb 1 ''t'' 10000000) =
     (Inr (wLease 2 ''u''), wCDb 2 ''u'' 20000000)"
  by (simp add: cl_acquire_def leaseBusy_def wLease_def wCDb_def max_safe_integer_def del: of_int_numeral)

lemma wCl_run: "lease_run cl_op (wCDb 1 ''t'' 10000000) ([] @ [2]) (wCDb 2 ''u'' 20000000)"
proof (rule lease_run_grant [OF lease_run_refl])
  show "cl_op (wCDb 1 ''t'' 10000000) (Some 2) (wCDb 2 ''u'' 20000000)"
    unfolding cl_op_def
    by (rule exI [of _ "CAcquire (\<lambda>_. None) (js_int 10) 10000000 ''u'' ''b'' 4"])
      (simp only: cl_exec.simps wCl_second prod.case sum.case, simp add: wLease_def)
qed

lemma constitutional_stale_fenced_witness:
  "writeResource (wLease 1 ''t'') ''journal'' ''v'' 10000001 4 (wCDb 2 ''u'' 20000000) =
     (Inl (ConstitutionalLeaseStaleError 1), wCDb 2 ''u'' 20000000)"
  using constitutional_stale_fenced [OF wCl_acquire wCl_run, of "''journal''" "''v''" 10000001]
  by (simp add: wLease_def)

lemma constitutional_lease_term_witness:
  "cl_acquire (\<lambda>_. None) (js_int 10) 9999999 ''u'' ''b'' 5 (wCDb 1 ''t'' 10000000) =
     (Inl (ConstitutionalLeaseBusyError 1), wCDb 1 ''t'' 10000000)"
  using constitutional_lease_term [OF wCl_acquire, of "js_int 10" "''b''" 9999999 "\<lambda>_. None" "''u''" 5]
  by (simp add: processIsAlive_def max_safe_integer_def del: of_int_numeral)

lemma constitutional_write_read_witness:
  "\<exists>db2. writeResource (wLease 1 ''t'') ''journal'' ''v'' 5 4 (wCDb 1 ''t'' 10000000) = (Inr (), db2) \<and>
     readConstitutionalResource db2 ''journal'' = Some ''v''"
  using constitutional_write_read [OF wCl_acquire, of 5 "''journal''" "''v''"]
  by (auto simp del: of_int_numeral)

text \<open>The first holder writes, its lease runs out, the second takes over and writes.\<close>

definition wFirst :: CLeaseDb where
  "wFirst = snd (cl_exec (CWrite (wLease 1 ''t'') ''journal'' ''v'' 5 4) (wCDb 1 ''t'' 10000000))"

definition wTaken :: CLeaseDb where
  "wTaken = snd (cl_exec (CAcquire (\<lambda>_. None) (js_int 10) 20000000 ''u'' ''b'' 4) wFirst)"

definition wSecond :: CLeaseDb where
  "wSecond = snd (cl_exec (CWrite (wLease 2 ''u'') ''journal'' ''w'' 20000005 4) wTaken)"

lemmas wEval = writeResource_def assertAndRenewInDb_eq rowMatches_def wCDb_def wLease_def cl_acquire_def
  leaseBusy_def resource_epochs_def max_safe_integer_def Let_def

lemma wFirst_eq: "wFirst = (wCDb 1 ''t'' 10000005)\<lparr>resources := [''journal'' \<mapsto>
    \<lparr>res_value = ''v'', writer_epoch = 1, writer_token = ''t''\<rparr>]\<rparr>"
  by (simp add: wFirst_def wEval)

lemma wTaken_eq: "cl_exec (CAcquire (\<lambda>_. None) (js_int 10) 20000000 ''u'' ''b'' 4) wFirst = (Some 2, wTaken)"
  "wTaken = (wCDb 2 ''u'' 30000000)\<lparr>resources := resources wFirst\<rparr>"
  by (simp_all add: wTaken_def wFirst_eq wEval del: of_int_numeral)

lemma constitutional_writers_monotone_witness:
  "resource_epochs wFirst ''journal'' = Some 1 \<and> resource_epochs wSecond ''journal'' = Some 2 \<and> (1::int) \<le> 2"
proof -
  have e1: "resource_epochs wFirst ''journal'' = Some 1" by (simp add: wFirst_eq resource_epochs_def)
  have e2: "resource_epochs wSecond ''journal'' = Some 2" by (simp add: wSecond_def wTaken_eq(2) wEval)
  have "cl_op emptyCLeaseDb (Some 1) (wCDb 1 ''t'' 10000000)"
    unfolding cl_op_def
    by (rule exI [of _ "CAcquire (\<lambda>_. None) (js_int 10) 0 ''t'' ''b'' 4"])
      (simp only: cl_exec.simps wCl_acquire prod.case sum.case, simp add: wLease_def)
  with lease_run_refl have "lease_run cl_op emptyCLeaseDb ([] @ [1]) (wCDb 1 ''t'' 10000000)"
    by (rule lease_run_grant)
  moreover have "cl_op (wCDb 1 ''t'' 10000000) None wFirst"
    unfolding cl_op_def wFirst_def
    by (rule exI [of _ "CWrite (wLease 1 ''t'') ''journal'' ''v'' 5 4"]) simp
  ultimately have run1: "lease_run cl_op emptyCLeaseDb ([] @ [1]) wFirst" by (rule lease_run_other)
  have "cl_op wFirst (Some 2) wTaken" unfolding cl_op_def using wTaken_eq(1) by blast
  with lease_run_refl have "lease_run cl_op wFirst ([] @ [2]) wTaken" by (rule lease_run_grant)
  moreover have "cl_op wTaken None wSecond" 
    unfolding cl_op_def wSecond_def
    by (rule exI [of _ "CWrite (wLease 2 ''u'') ''journal'' ''w'' 20000005 4"]) simp
  ultimately have run2: "lease_run cl_op wFirst ([] @ [2]) wSecond" by (rule lease_run_other)
  show ?thesis using constitutional_writers_monotone [OF run1 run2 e1 e2] e1 e2 by simp
qed

end
