(* ===== verification/JS_Strings.thy ===== *)
theory JS_Strings
  imports Prelude "HOL-Library.List_Lexorder" "HOL-Library.Char_ord"
begin

text \<open>
  The string operations of the language the modules use, on Latin-1 strings: \<open>trim\<close>,
  \<open>toLowerCase\<close>, \<open>startsWith\<close>, \<open>endsWith\<close>, \<open>indexOf\<close> of a character, and the default order of
  \<open>sort()\<close>, which is lexicographic in the code units.
\<close>

definition is_space :: "char \<Rightarrow> bool" where
  "is_space c \<longleftrightarrow> of_char c \<in> {9, 10, 11, 12, 13, 32, 160 :: nat}"

definition js_trim :: "string \<Rightarrow> string" where
  "js_trim s = rev (dropWhile is_space (rev (dropWhile is_space s)))"

definition lower_char :: "char \<Rightarrow> char" where
  "lower_char c =
     (let n = of_char c :: nat
      in if 65 \<le> n \<and> n \<le> 90 \<or> 192 \<le> n \<and> n \<le> 222 \<and> n \<noteq> 215 then char_of (n + 32) else c)"

definition to_lower :: "string \<Rightarrow> string" where
  "to_lower s = map lower_char s"

definition starts_with :: "string \<Rightarrow> string \<Rightarrow> bool" where
  "starts_with prefix s \<longleftrightarrow> take (length prefix) s = prefix"

definition ends_with :: "string \<Rightarrow> string \<Rightarrow> bool" where
  "ends_with suffix s \<longleftrightarrow> length suffix \<le> length s \<and> drop (length s - length suffix) s = suffix"

text \<open>The part of a string before the first occurrence of a character, all of it without one.\<close>

definition before_char :: "char \<Rightarrow> string \<Rightarrow> string" where
  "before_char c s = takeWhile (\<lambda>x. x \<noteq> c) s"

lemma lower_char_idem [simp]: "lower_char (lower_char c) = lower_char c"
  by (auto simp: lower_char_def Let_def)

lemma is_space_lower [simp]: "is_space (lower_char c) = is_space c"
  by (auto simp: lower_char_def is_space_def Let_def)

lemma to_lower_idem [simp]: "to_lower (to_lower s) = to_lower s"
  by (simp add: to_lower_def)

lemma dropWhile_space_lower: "dropWhile is_space (to_lower s) = to_lower (dropWhile is_space s)"
  by (induction s) (simp_all add: to_lower_def)

lemma js_trim_lower: "js_trim (to_lower s) = to_lower (js_trim s)"
proof -
  have "rev (to_lower t) = to_lower (rev t)" for t by (simp add: to_lower_def rev_map)
  then show ?thesis by (simp add: js_trim_def dropWhile_space_lower)
qed

lemma dropWhile_idem [simp]: "dropWhile P (dropWhile P s) = dropWhile P s"
  by (induction s) auto

lemma js_trim_left: "dropWhile is_space (js_trim s) = js_trim s"
proof (cases "js_trim s")
  case (Cons c t)
  let ?u = "dropWhile is_space s"
  have "js_trim s \<noteq> []" using Cons by simp
  moreover obtain tail where u: "?u = js_trim s @ tail"
    unfolding js_trim_def by (metis rev_append rev_rev_ident takeWhile_dropWhile_id)
  ultimately have "hd ?u = c" using Cons by simp
  moreover have "?u \<noteq> []" using u Cons by simp
  ultimately have "\<not> is_space c" using hd_dropWhile by blast
  then show ?thesis using Cons by simp
qed simp

lemma js_trim_idem [simp]: "js_trim (js_trim s) = js_trim s"
proof -
  have "js_trim (js_trim s) = rev (dropWhile is_space (rev (js_trim s)))"
    by (simp only: js_trim_def [of "js_trim s"] js_trim_left)
  also have "\<dots> = js_trim s" by (simp add: js_trim_def)
  finally show ?thesis .
qed

end
