(* ===== verification/Gpu_Lease.thy ===== *)
theory Gpu_Lease
  imports Interfaces JS_Strings
begin

text \<open>
  The cooperative FIFO lease over the GPU, \<open>src/homeserver/gpu-lease.ts\<close>. The tickets (fairness)
  are pure functions of what the directory holds; the mutex is the directory \<open>.holder\<close>, and
  there every system call is one atomic step, because other processes run between two of them:
  \<open>mkdir\<close>, the temporary file and the rename of an owner marker, the read of the marker, \<open>stat\<close>,
  \<open>unlink\<close> and \<open>rmdir\<close>. UUIDs, the clock and directory listings are arguments.
\<close>

section \<open>Tickets\<close>

record Ticket =
  t_id :: string
  t_seq :: rat
  t_enqueuedAt :: rat
  t_heartbeatAt :: rat
  t_pid :: int
  t_model :: string
  t_purpose :: string
  t_etaMs :: "rat option"
  t_host :: string

text \<open>A parsed JSON object: the fields \<open>isValidTicket\<close> looks at (\<open>None\<close> when absent or of another
  type), and the ticket it denotes when they are in order.\<close>

record RawTicket =
  raw_id :: "string option"
  raw_seq :: "js_number option"
  raw_heartbeatAt :: "js_number option"
  raw_enqueuedAt :: "js_number option"
  raw_rest :: Ticket

definition hex_digit :: "char \<Rightarrow> bool" where
  "hex_digit ch \<longleftrightarrow> ch \<in> set ''0123456789abcdefABCDEF''"

definition UUID_RE :: "string \<Rightarrow> bool" where
  "UUID_RE s \<longleftrightarrow> length s = 36 \<and>
     list_all (\<lambda>i. if i \<in> {8, 13, 18, 23} then s ! i = CHR ''-'' else hex_digit (s ! i)) [0..<36]"

definition finiteField :: "js_number option \<Rightarrow> bool" where
  "finiteField x = (case x of None \<Rightarrow> False | Some n \<Rightarrow> isFinite n)"

definition isValidTicket :: "RawTicket \<Rightarrow> bool" where
  "isValidTicket r \<longleftrightarrow>
     (case raw_id r of None \<Rightarrow> False | Some i \<Rightarrow> UUID_RE i) \<and> finiteField (raw_seq r) \<and>
     finiteField (raw_heartbeatAt r) \<and> finiteField (raw_enqueuedAt r)"

definition ticketOf :: "RawTicket \<Rightarrow> Ticket" where
  "ticketOf r = (raw_rest r)\<lparr>t_id := the (raw_id r), t_seq := rat_of (the (raw_seq r)),
     t_heartbeatAt := rat_of (the (raw_heartbeatAt r)), t_enqueuedAt := rat_of (the (raw_enqueuedAt r))\<rparr>"

definition fifoCompare :: "Ticket \<Rightarrow> Ticket \<Rightarrow> int" where
  "fifoCompare a b =
     (if t_seq a < t_seq b then -1 else if t_seq b < t_seq a then 1
      else if t_id a < t_id b then -1 else if t_id b < t_id a then 1 else 0)"

record HolderSelection =
  sel_holder :: "Ticket option"
  sel_live :: "Ticket list"
  sel_stale :: "Ticket list"

definition isStale :: "millis \<Rightarrow> millis \<Rightarrow> Ticket \<Rightarrow> bool" where
  "isStale now staleMs t \<longleftrightarrow> of_int now - t_heartbeatAt t > of_int staleMs"

definition selectHolder :: "Ticket list \<Rightarrow> millis \<Rightarrow> millis \<Rightarrow> HolderSelection" where
  "selectHolder tickets now staleMs =
     (let stale = filter (isStale now staleMs) tickets;
          live = sort_by fifoCompare (filter (\<lambda>t. \<not> isStale now staleMs t) tickets)
      in \<lparr>sel_holder = (case live of [] \<Rightarrow> None | t # _ \<Rightarrow> Some t), sel_live = live, sel_stale = stale\<rparr>)"

fun indexOf :: "string \<Rightarrow> Ticket list \<Rightarrow> nat option" where
  "indexOf i [] = None"
| "indexOf i (t # ts) = (if t_id t = i then Some 0 else map_option Suc (indexOf i ts))"

definition queuePosition :: "HolderSelection \<Rightarrow> string \<Rightarrow> nat" where
  "queuePosition sel i = (case indexOf i (sel_live sel) of None \<Rightarrow> 0 | Some n \<Rightarrow> n + 1)"

section \<open>The ticket directory\<close>

datatype DirFile = JsonFile RawTicket | BadFile | TmpFile millis

type_synonym TicketDir = "string \<rightharpoonup> DirFile"

definition ticketFile :: "TicketDir \<Rightarrow> string \<Rightarrow> Ticket list" where
  "ticketFile d name =
     (if \<not> ends_with ''.json'' name then []
      else case d name of
             Some (JsonFile r) \<Rightarrow>
               if isValidTicket r \<and> t_id (ticketOf r) @ ''.json'' = name then [ticketOf r] else []
           | _ \<Rightarrow> [])"

text \<open>\<open>names\<close> is the listing \<open>readdir\<close> returned, \<open>None\<close> when it failed.\<close>

definition readTickets :: "string list option \<Rightarrow> TicketDir \<Rightarrow> Ticket list" where
  "readTickets names d = (case names of None \<Rightarrow> [] | Some ns \<Rightarrow> concat (map (ticketFile d) ns))"

definition reclaimTicket :: "millis \<Rightarrow> millis \<Rightarrow> Ticket \<Rightarrow> TicketDir \<Rightarrow> TicketDir" where
  "reclaimTicket now staleMs t d =
     (case d (t_id t @ ''.json'') of
        Some (JsonFile cur) \<Rightarrow>
          if isValidTicket cur \<and> isStale now staleMs (ticketOf cur)
          then d(t_id t @ ''.json'' := None) else d
      | _ \<Rightarrow> d)"

definition reclaimStaleTickets :: "Ticket list \<Rightarrow> millis \<Rightarrow> millis \<Rightarrow> TicketDir \<Rightarrow> TicketDir" where
  "reclaimStaleTickets stale now staleMs d = fold (reclaimTicket now staleMs) stale d"

definition scavengeTemp :: "millis \<Rightarrow> millis \<Rightarrow> string \<Rightarrow> TicketDir \<Rightarrow> TicketDir" where
  "scavengeTemp now staleMs name d =
     (if \<not> ends_with ''.tmp'' name then d
      else case d name of
             Some (TmpFile mtime) \<Rightarrow> if now - mtime > staleMs then d(name := None) else d
           | _ \<Rightarrow> d)"

definition scavengeTemps :: "string list option \<Rightarrow> millis \<Rightarrow> millis \<Rightarrow> TicketDir \<Rightarrow> TicketDir" where
  "scavengeTemps names now staleMs d =
     (case names of None \<Rightarrow> d | Some ns \<Rightarrow> fold (scavengeTemp now staleMs) ns d)"

definition gpuLeaseStatus :: "string list option \<Rightarrow> TicketDir \<Rightarrow> millis \<Rightarrow> millis option \<Rightarrow> HolderSelection" where
  "gpuLeaseStatus names d now staleMs =
     selectHolder (readTickets names d) now (case staleMs of None \<Rightarrow> 30000 | Some n \<Rightarrow> n)"

text \<open>One poll of the waiting loop: whether this waiter is at the head of the line, and the
  directory after the housekeeping.\<close>

definition pollTickets ::
  "string \<Rightarrow> string list option \<Rightarrow> string list option \<Rightarrow> millis \<Rightarrow> millis \<Rightarrow> TicketDir \<Rightarrow> bool \<times> TicketDir" where
  "pollTickets myId names names' now staleMs d =
     (let sel = selectHolder (readTickets names d) now staleMs;
          d1 = (if sel_stale sel \<noteq> [] then reclaimStaleTickets (sel_stale sel) now staleMs d else d);
          d2 = scavengeTemps names' now staleMs d1
      in (map_option t_id (sel_holder sel) = Some myId, d2))"

definition effectiveStaleMs :: "millis option \<Rightarrow> millis \<Rightarrow> millis" where
  "effectiveStaleMs staleMs heartbeatMs =
     max (max (case staleMs of None \<Rightarrow> 30000 | Some n \<Rightarrow> n) (heartbeatMs * 3)) 3000"

definition lockGrace :: "millis \<Rightarrow> millis" where
  "lockGrace heartbeatMs = max (heartbeatMs * 3) 2000"

section \<open>The mutex directory\<close>

record LockOwner =
  lo_id :: string
  lo_heartbeatAt :: millis

text \<open>\<open>ld_temps\<close> are the temporary files inside \<open>.holder\<close>, by their unique names.\<close>

record LockDir =
  ld_owner :: "LockOwner option"
  ld_temps :: "string list"
  ld_mtime :: millis

definition fsMkdir :: "millis \<Rightarrow> LockDir option \<Rightarrow> bool \<times> LockDir option" where
  "fsMkdir now lock =
     (case lock of
        None \<Rightarrow> (True, Some \<lparr>ld_owner = None, ld_temps = [], ld_mtime = now\<rparr>)
      | Some d \<Rightarrow> (False, lock))"

definition fsWriteTemp :: "millis \<Rightarrow> string \<Rightarrow> LockDir option \<Rightarrow> bool \<times> LockDir option" where
  "fsWriteTemp now u lock =
     (case lock of None \<Rightarrow> (False, None)
      | Some d \<Rightarrow> (True, Some (d\<lparr>ld_temps := u # ld_temps d, ld_mtime := now\<rparr>)))"

definition fsRenameOwner :: "millis \<Rightarrow> string \<Rightarrow> LockOwner \<Rightarrow> LockDir option \<Rightarrow> LockDir option" where
  "fsRenameOwner now u own lock =
     (case lock of None \<Rightarrow> None
      | Some d \<Rightarrow> if u \<in> set (ld_temps d)
                   then Some (d\<lparr>ld_owner := Some own, ld_temps := removeAll u (ld_temps d), ld_mtime := now\<rparr>)
                   else lock)"

definition fsUnlinkOwner :: "millis \<Rightarrow> LockDir option \<Rightarrow> LockDir option" where
  "fsUnlinkOwner now lock =
     (case lock of None \<Rightarrow> None
      | Some d \<Rightarrow> if ld_owner d = None then lock else Some (d\<lparr>ld_owner := None, ld_mtime := now\<rparr>))"

definition fsRmdir :: "LockDir option \<Rightarrow> LockDir option" where
  "fsRmdir lock =
     (case lock of None \<Rightarrow> None
      | Some d \<Rightarrow> if ld_owner d = None \<and> ld_temps d = [] then None else lock)"

definition readLockOwner :: "LockDir option \<Rightarrow> LockOwner option" where
  "readLockOwner lock = (case lock of None \<Rightarrow> None | Some d \<Rightarrow> ld_owner d)"

text \<open>The two system calls of \<open>removeLock\<close>, run without interruption.\<close>

definition removeLock :: "millis \<Rightarrow> LockDir option \<Rightarrow> LockDir option" where
  "removeLock now lock = fsRmdir (fsUnlinkOwner now lock)"

text \<open>What \<open>reclaimStaleLock\<close> decides from the marker it read and, without one, from \<open>stat\<close>.\<close>

definition ownerStale :: "millis \<Rightarrow> millis \<Rightarrow> LockOwner \<Rightarrow> bool" where
  "ownerStale now staleMs own \<longleftrightarrow> now - lo_heartbeatAt own > staleMs"

definition dirStale :: "millis \<Rightarrow> millis \<Rightarrow> LockDir option \<Rightarrow> bool" where
  "dirStale now lockGraceMs lock =
     (case lock of None \<Rightarrow> False | Some d \<Rightarrow> now - ld_mtime d > lockGraceMs)"

section \<open>Processes\<close>

datatype GpuPhase =
    Polling
  | ReclaimRead
  | ReclaimStat
  | ReclaimUnlink
  | ReclaimRmdir
  | Running
  | ReleaseUnlink
  | ReleaseRmdir
  | Gone

text \<open>\<open>g_pending\<close> is the owner write in flight: the temporary file written and not yet renamed.\<close>

record GpuClient =
  g_holding :: bool
  g_released :: bool
  g_lost :: bool
  g_pending :: "(string \<times> LockOwner) option"
  g_phase :: GpuPhase

record GpuWorld =
  lockDir :: "LockDir option"
  clients :: "string \<rightharpoonup> GpuClient"

record GpuConfig =
  gc_staleMs :: millis
  gc_lockGraceMs :: millis

definition newClient :: GpuClient where
  "newClient = \<lparr>g_holding = False, g_released = False, g_lost = False, g_pending = None, g_phase = Polling\<rparr>"

abbreviation setClient :: "string \<Rightarrow> GpuClient \<Rightarrow> GpuWorld \<Rightarrow> GpuWorld" where
  "setClient i cl w \<equiv> w\<lparr>clients := (clients w)(i \<mapsto> cl)\<rparr>"

subsection \<open>The acquire loop\<close>

text \<open>The head of the line tries the mutex: \<open>tickets\<close> is what \<open>readTickets\<close> found at \<open>t\<close>, and only
  the process that \<open>selectHolder\<close> puts first goes on to \<open>mkdir\<close>. Exclusion does not rest on that
  view being current: it is an argument, and by the time of the \<open>mkdir\<close> it may be out of date.\<close>

definition atHead :: "GpuConfig \<Rightarrow> millis \<Rightarrow> Ticket list \<Rightarrow> string \<Rightarrow> bool" where
  "atHead cfg t tickets i \<longleftrightarrow>
     map_option t_id (sel_holder (selectHolder tickets t (gc_staleMs cfg))) = Some i"

definition g_attempt ::
  "GpuConfig \<Rightarrow> millis \<Rightarrow> millis \<Rightarrow> Ticket list \<Rightarrow> string \<Rightarrow> GpuClient \<Rightarrow> GpuWorld \<Rightarrow> GpuWorld" where
  "g_attempt cfg now t tickets i cl w =
     (if g_phase cl \<noteq> Polling \<or> g_released cl then w
      else if \<not> atHead cfg t tickets i then w
      else let (won, lock) = fsMkdir now (lockDir w)
           in if won then setClient i (cl\<lparr>g_holding := True, g_phase := Running\<rparr>) (w\<lparr>lockDir := lock\<rparr>)
              else setClient i (cl\<lparr>g_phase := ReclaimRead\<rparr>) w)"

definition g_reclaimRead :: "GpuConfig \<Rightarrow> millis \<Rightarrow> string \<Rightarrow> GpuClient \<Rightarrow> GpuWorld \<Rightarrow> GpuWorld" where
  "g_reclaimRead cfg now i cl w =
     (if g_phase cl \<noteq> ReclaimRead then w
      else setClient i (cl\<lparr>g_phase :=
             (case readLockOwner (lockDir w) of
                Some own \<Rightarrow> if ownerStale now (gc_staleMs cfg) own then ReclaimUnlink else Polling
              | None \<Rightarrow> ReclaimStat)\<rparr>) w)"

definition g_reclaimStat :: "GpuConfig \<Rightarrow> millis \<Rightarrow> string \<Rightarrow> GpuClient \<Rightarrow> GpuWorld \<Rightarrow> GpuWorld" where
  "g_reclaimStat cfg now i cl w =
     (if g_phase cl \<noteq> ReclaimStat then w
      else setClient i (cl\<lparr>g_phase :=
             (if dirStale now (gc_lockGraceMs cfg) (lockDir w) then ReclaimUnlink else Polling)\<rparr>) w)"

definition g_reclaimUnlink :: "millis \<Rightarrow> string \<Rightarrow> GpuClient \<Rightarrow> GpuWorld \<Rightarrow> GpuWorld" where
  "g_reclaimUnlink now i cl w =
     (if g_phase cl \<noteq> ReclaimUnlink then w
      else setClient i (cl\<lparr>g_phase := ReclaimRmdir\<rparr>) (w\<lparr>lockDir := fsUnlinkOwner now (lockDir w)\<rparr>))"

definition g_reclaimRmdir :: "string \<Rightarrow> GpuClient \<Rightarrow> GpuWorld \<Rightarrow> GpuWorld" where
  "g_reclaimRmdir i cl w =
     (if g_phase cl \<noteq> ReclaimRmdir then w
      else setClient i (cl\<lparr>g_phase := Polling\<rparr>) (w\<lparr>lockDir := fsRmdir (lockDir w)\<rparr>))"

subsection \<open>The holder\<close>

text \<open>\<open>writeOwner\<close>, serialised by the write chain, so one write at a time: the temporary file,
  then the rename.\<close>

definition g_writeOwner :: "millis \<Rightarrow> string \<Rightarrow> string \<Rightarrow> GpuClient \<Rightarrow> GpuWorld \<Rightarrow> GpuWorld" where
  "g_writeOwner now u i cl w =
     (if g_phase cl \<noteq> Running \<or> g_released cl \<or> g_pending cl \<noteq> None then w
      else let (ok, lock) = fsWriteTemp now u (lockDir w)
           in if ok then setClient i (cl\<lparr>g_pending := Some (u, \<lparr>lo_id = i, lo_heartbeatAt = now\<rparr>)\<rparr>)
                           (w\<lparr>lockDir := lock\<rparr>)
              else w)"

definition g_finishWrite :: "millis \<Rightarrow> string \<Rightarrow> GpuClient \<Rightarrow> GpuWorld \<Rightarrow> GpuWorld" where
  "g_finishWrite now i cl w =
     (case g_pending cl of
        None \<Rightarrow> w
      | Some (u, own) \<Rightarrow> setClient i (cl\<lparr>g_pending := None\<rparr>)
                           (w\<lparr>lockDir := fsRenameOwner now u own (lockDir w)\<rparr>))"

text \<open>The check of \<open>beat\<close>: a marker of somebody else means the lease is lost. Its test of
  \<open>released\<close> and its read of the marker are one step.\<close>

definition g_beat :: "string \<Rightarrow> GpuClient \<Rightarrow> GpuWorld \<Rightarrow> GpuWorld" where
  "g_beat i cl w =
     (if g_released cl \<or> \<not> g_holding cl then w
      else case readLockOwner (lockDir w) of
             Some own \<Rightarrow> if lo_id own \<noteq> i
                           then setClient i (cl\<lparr>g_holding := False, g_lost := True\<rparr>) w else w
           | None \<Rightarrow> w)"

text \<open>\<open>cleanup\<close>: the release of a holder or the abort of a waiter; it drains the write chain, then
  tears the lock down when it still believes it holds it.\<close>

definition g_release :: "string \<Rightarrow> GpuClient \<Rightarrow> GpuWorld \<Rightarrow> GpuWorld" where
  "g_release i cl w =
     (if g_released cl \<or> g_phase cl \<notin> {Polling, Running} then w
      else setClient i (cl\<lparr>g_released := True, g_phase := ReleaseUnlink\<rparr>) w)"

definition g_releaseUnlink :: "millis \<Rightarrow> string \<Rightarrow> GpuClient \<Rightarrow> GpuWorld \<Rightarrow> GpuWorld" where
  "g_releaseUnlink now i cl w =
     (if g_phase cl \<noteq> ReleaseUnlink \<or> g_pending cl \<noteq> None then w
      else if g_holding cl
      then setClient i (cl\<lparr>g_phase := ReleaseRmdir\<rparr>) (w\<lparr>lockDir := fsUnlinkOwner now (lockDir w)\<rparr>)
      else setClient i (cl\<lparr>g_phase := Gone\<rparr>) w)"

definition g_releaseRmdir :: "string \<Rightarrow> GpuClient \<Rightarrow> GpuWorld \<Rightarrow> GpuWorld" where
  "g_releaseRmdir i cl w =
     (if g_phase cl \<noteq> ReleaseRmdir then w
      else setClient i (cl\<lparr>g_phase := Gone\<rparr>) (w\<lparr>lockDir := fsRmdir (lockDir w)\<rparr>))"

section \<open>Runs of any number of processes\<close>

datatype GpuAct =
    Join | Attempt millis "Ticket list" | ReadOwnerAct | StatAct | UnlinkAct | RmdirAct | WriteAct string | RenameAct
  | BeatAct | ReleaseAct | ReleaseUnlinkAct | ReleaseRmdirAct | Crash

fun clientAct :: "GpuConfig \<Rightarrow> millis \<Rightarrow> string \<Rightarrow> GpuAct \<Rightarrow> GpuClient \<Rightarrow> GpuWorld \<Rightarrow> GpuWorld" where
  "clientAct cfg now i Join cl w = w"
| "clientAct cfg now i (Attempt t tickets) cl w = g_attempt cfg now t tickets i cl w"
| "clientAct cfg now i ReadOwnerAct cl w = g_reclaimRead cfg now i cl w"
| "clientAct cfg now i StatAct cl w = g_reclaimStat cfg now i cl w"
| "clientAct cfg now i UnlinkAct cl w = g_reclaimUnlink now i cl w"
| "clientAct cfg now i RmdirAct cl w = g_reclaimRmdir i cl w"
| "clientAct cfg now i (WriteAct u) cl w = g_writeOwner now u i cl w"
| "clientAct cfg now i RenameAct cl w = g_finishWrite now i cl w"
| "clientAct cfg now i BeatAct cl w = g_beat i cl w"
| "clientAct cfg now i ReleaseAct cl w = g_release i cl w"
| "clientAct cfg now i ReleaseUnlinkAct cl w = g_releaseUnlink now i cl w"
| "clientAct cfg now i ReleaseRmdirAct cl w = g_releaseRmdir i cl w"
| "clientAct cfg now i Crash cl w = w\<lparr>clients := (clients w)(i := None)\<rparr>"

definition g_exec :: "GpuConfig \<Rightarrow> millis \<times> string \<times> GpuAct \<Rightarrow> GpuWorld \<Rightarrow> GpuWorld" where
  "g_exec cfg ev w =
     (case ev of (now, i, a) \<Rightarrow>
        (case clients w i of
           None \<Rightarrow> if a = Join then setClient i newClient w else w
         | Some cl \<Rightarrow> clientAct cfg now i a cl w))"

definition emptyWorld :: GpuWorld where
  "emptyWorld = \<lparr>lockDir = None, clients = Map.empty\<rparr>"

text \<open>Who believes to hold the GPU: between winning the mutex and having torn it down.\<close>

definition holds :: "GpuWorld \<Rightarrow> string \<Rightarrow> bool" where
  "holds w i = (case clients w i of None \<Rightarrow> False
     | Some cl \<Rightarrow> g_holding cl \<and> g_phase cl \<in> {Running, ReleaseUnlink, ReleaseRmdir})"

text \<open>No reclaim fires: whoever looks at the lock finds its marker, or without one its directory,
  fresh enough. This is what the heartbeat of a live holder is for.\<close>

definition heartbeats_seen :: "GpuConfig \<Rightarrow> millis \<times> string \<times> GpuAct \<Rightarrow> GpuWorld \<Rightarrow> bool" where
  "heartbeats_seen cfg ev w =
     (case ev of (now, i, a) \<Rightarrow>
        (a = ReadOwnerAct \<longrightarrow> (\<forall>own. readLockOwner (lockDir w) = Some own \<longrightarrow> \<not> ownerStale now (gc_staleMs cfg) own)) \<and>
        (a = StatAct \<longrightarrow> \<not> dirStale now (gc_lockGraceMs cfg) (lockDir w)))"

inductive g_run :: "GpuConfig \<Rightarrow> (millis \<times> string \<times> GpuAct \<Rightarrow> GpuWorld \<Rightarrow> bool) \<Rightarrow> GpuWorld \<Rightarrow> GpuWorld \<Rightarrow> bool"
  for cfg ok where
  g_refl: "g_run cfg ok w w"
| g_step: "g_run cfg ok w w' \<Longrightarrow> ok ev w' \<Longrightarrow> g_run cfg ok w (g_exec cfg ev w')"

lemmas g_defs [component_defs] = g_attempt_def g_reclaimRead_def g_reclaimStat_def g_reclaimUnlink_def
  g_reclaimRmdir_def g_writeOwner_def g_finishWrite_def g_beat_def g_release_def g_releaseUnlink_def
  g_releaseRmdir_def fsMkdir_def fsWriteTemp_def fsRenameOwner_def fsUnlinkOwner_def fsRmdir_def
  readLockOwner_def

section \<open>Exclusion while the heartbeats are seen\<close>

definition inHold :: "GpuClient \<Rightarrow> bool" where
  "inHold cl \<longleftrightarrow> g_holding cl \<and> g_phase cl \<in> {Running, ReleaseUnlink, ReleaseRmdir}"

lemma holds_setClient [simp]:
  "holds (w\<lparr>lockDir := l, clients := (clients w)(i \<mapsto> cl)\<rparr>) j = (if j = i then inHold cl else holds w j)"
  "holds (setClient i cl w) j = (if j = i then inHold cl else holds w j)"
  "holds (w\<lparr>clients := (clients w)(i := None)\<rparr>) j = (j \<noteq> i \<and> holds w j)"
  by (simp_all add: holds_def inHold_def)

text \<open>Nobody is tearing down a lock that is not its own, and the holder is alone with its lock.\<close>

definition client_ok :: "GpuClient \<Rightarrow> bool" where
  "client_ok cl \<longleftrightarrow> g_phase cl \<notin> {ReclaimUnlink, ReclaimRmdir} \<and>
     (g_phase cl \<in> {Polling, ReclaimRead, ReclaimStat} \<longrightarrow> \<not> g_holding cl) \<and>
     (g_phase cl \<in> {ReleaseUnlink, ReleaseRmdir} \<longrightarrow> g_released cl) \<and>
     (g_phase cl = ReleaseRmdir \<longrightarrow> g_holding cl)"

definition excl_inv :: "GpuWorld \<Rightarrow> bool" where
  "excl_inv w \<longleftrightarrow> (\<forall>i cl. clients w i = Some cl \<longrightarrow> client_ok cl) \<and>
     (\<forall>i j. holds w i \<longrightarrow> holds w j \<longrightarrow> i = j) \<and> (\<forall>i. holds w i \<longrightarrow> lockDir w \<noteq> None)"

text \<open>A step of client \<open>i\<close> that does not make it a holder keeps the invariant when it keeps the
  directory, or when it is the holder itself that gives it up.\<close>

lemma excl_update:
  assumes inv: "excl_inv w" and cl: "clients w i = Some cl" and ok: "client_ok cl'"
    and hold: "inHold cl' \<Longrightarrow> inHold cl"
    and lock: "l \<noteq> None \<or> lockDir w = None \<or> (inHold cl \<and> \<not> inHold cl')"
  shows "excl_inv (w\<lparr>lockDir := l, clients := (clients w)(i \<mapsto> cl')\<rparr>)"
proof -
  let ?w = "w\<lparr>lockDir := l, clients := (clients w)(i \<mapsto> cl')\<rparr>"
  have i: "holds w i = inHold cl" using cl by (simp add: holds_def inHold_def)
  have holds': "holds ?w j \<Longrightarrow> holds w j" for j using hold i by (auto split: if_splits)
  have lock': "lockDir ?w \<noteq> None" if "holds ?w j" for j
    using lock
  proof (elim disjE)
    assume gone: "inHold cl \<and> \<not> inHold cl'"
    then have "j = i" using holds' [OF that] inv i by (auto simp: excl_inv_def)
    then show ?thesis using that gone by simp
  qed (use holds' [OF that] inv in \<open>auto simp: excl_inv_def\<close>)
  have ok': "client_ok c" if "clients ?w j = Some c" for j c
    using that inv ok by (auto simp: excl_inv_def split: if_splits)
  show ?thesis
    using inv holds' lock' ok' unfolding excl_inv_def by blast
qed

lemma excl_keep:
  assumes "excl_inv w" and "clients w i = Some cl" and "client_ok cl'" and "inHold cl' \<Longrightarrow> inHold cl"
  shows "excl_inv (setClient i cl' w)"
proof -
  have "w\<lparr>lockDir := lockDir w, clients := (clients w)(i \<mapsto> cl')\<rparr> = setClient i cl' w" by simp
  then show ?thesis using excl_update [OF assms, of "lockDir w"] by (metis option.exhaust)
qed

lemma excl_client:
  assumes inv: "excl_inv w" and cl: "clients w i = Some cl" and seen: "heartbeats_seen cfg (now, i, a) w"
  shows "excl_inv (clientAct cfg now i a cl w)"
proof -
  have ok: "client_ok cl" using inv cl by (simp add: excl_inv_def)
  note up = excl_update [OF inv cl] and keep = excl_keep [OF inv cl]
  show ?thesis
  proof (cases a)
    case (Attempt t ts)
    have "excl_inv (w\<lparr>lockDir := Some d, clients := (clients w)(i \<mapsto> cl\<lparr>g_holding := True, g_phase := Running\<rparr>)\<rparr>)"
      if "lockDir w = None" for d
      using that inv by (auto simp: excl_inv_def client_ok_def inHold_def split: if_splits)
    then show ?thesis
      using Attempt inv ok by (auto simp: g_attempt_def fsMkdir_def client_ok_def inHold_def split: option.split intro!: keep)
  next
    case ReadOwnerAct
    then show ?thesis using inv ok seen
      by (auto simp: g_reclaimRead_def heartbeats_seen_def client_ok_def inHold_def split: option.split intro!: keep)
  next
    case StatAct
    then show ?thesis using inv ok seen
      by (auto simp: g_reclaimStat_def heartbeats_seen_def client_ok_def inHold_def intro!: keep)
  next
    case UnlinkAct
    then show ?thesis using inv ok by (simp add: g_reclaimUnlink_def client_ok_def)
  next
    case RmdirAct
    then show ?thesis using inv ok by (simp add: g_reclaimRmdir_def client_ok_def)
  next
    case (WriteAct u)
    then show ?thesis using inv ok
      by (auto simp: g_writeOwner_def fsWriteTemp_def client_ok_def inHold_def split: option.split intro!: up)
  next
    case RenameAct
    then show ?thesis using inv ok
      by (auto simp: g_finishWrite_def fsRenameOwner_def client_ok_def inHold_def split: option.split intro!: up)
  next
    case BeatAct
    then show ?thesis using inv ok
      by (auto simp: g_beat_def client_ok_def inHold_def split: option.split intro!: keep)
  next
    case ReleaseAct
    then show ?thesis using inv ok by (auto simp: g_release_def client_ok_def inHold_def intro!: keep)
  next
    case ReleaseUnlinkAct
    then show ?thesis using inv ok
      by (auto simp: g_releaseUnlink_def fsUnlinkOwner_def client_ok_def inHold_def split: option.split
          intro!: up keep)
  next
    case ReleaseRmdirAct
    then show ?thesis using inv ok
      by (auto simp: g_releaseRmdir_def fsRmdir_def client_ok_def inHold_def split: option.split intro!: up)
  next
    case Crash
    then show ?thesis using inv by (auto simp: excl_inv_def holds_def split: if_splits)
  qed (use inv in simp)
qed

lemma excl_exec:
  assumes "excl_inv w" and "heartbeats_seen cfg ev w"
  shows "excl_inv (g_exec cfg ev w)"
proof -
  obtain now i a where ev: "ev = (now, i, a)" by (cases ev)
  have "excl_inv (setClient i newClient w)" if "clients w i = None"
    using assms(1) that by (auto simp: excl_inv_def client_ok_def newClient_def inHold_def split: if_splits)
  then show ?thesis using assms excl_client ev by (auto simp: g_exec_def split: option.split)
qed

lemma excl_run: "g_run cfg (heartbeats_seen cfg) w w' \<Longrightarrow> excl_inv w \<Longrightarrow> excl_inv w'"
  by (induction rule: g_run.induct) (auto intro: excl_exec)

section \<open>An orphaned temporary file\<close>

definition waiting_ok :: "GpuClient \<Rightarrow> bool" where
  "waiting_ok cl \<longleftrightarrow> (g_phase cl \<in> {Polling, ReclaimRead, ReclaimStat, ReclaimUnlink, ReclaimRmdir}
     \<longrightarrow> \<not> g_holding cl)"

definition orphan :: "string \<Rightarrow> GpuWorld \<Rightarrow> bool" where
  "orphan u w \<longleftrightarrow> (\<exists>d. lockDir w = Some d \<and> u \<in> set (ld_temps d)) \<and>
     (\<forall>i cl. clients w i = Some cl \<longrightarrow> waiting_ok cl \<and> (\<forall>own. g_pending cl \<noteq> Some (u, own)))"

definition not_reused :: "string \<Rightarrow> millis \<times> string \<times> GpuAct \<Rightarrow> GpuWorld \<Rightarrow> bool" where
  "not_reused u ev w = (case ev of (now, i, a) \<Rightarrow> a \<noteq> WriteAct u)"

lemma orphan_exec:
  assumes "orphan u w" and "not_reused u ev w"
  shows "orphan u (g_exec cfg ev w) \<and> (\<forall>j. holds (g_exec cfg ev w) j \<longrightarrow> holds w j)"
proof -
  obtain now i a where ev: "ev = (now, i, a)" by (cases ev)
  have a: "a \<noteq> WriteAct u" using assms(2) ev by (simp add: not_reused_def)
  obtain d where d: "lockDir w = Some d" "u \<in> set (ld_temps d)"
    and no: "\<And>j cl own. clients w j = Some cl \<Longrightarrow> g_pending cl \<noteq> Some (u, own)"
    and wait: "\<And>j cl. clients w j = Some cl \<Longrightarrow> waiting_ok cl"
    using assms(1) by (auto simp: orphan_def)
  show ?thesis
  proof (cases "clients w i")
    case None
    then show ?thesis using assms(1) ev
      by (auto simp: g_exec_def orphan_def newClient_def inHold_def waiting_ok_def)
  next
    case (Some cl)
    have hold: "holds w i = inHold cl" using Some by (simp add: holds_def inHold_def)
    have "orphan u (clientAct cfg now i a cl w) \<and> (\<forall>j. holds (clientAct cfg now i a cl w) j \<longrightarrow> holds w j)"
      using d a no Some hold wait [OF Some] wait
      by (cases a) (auto simp: orphan_def waiting_ok_def g_defs inHold_def Let_def split: option.split if_splits)
    then show ?thesis using Some ev by (simp add: g_exec_def)
  qed
qed

lemma orphan_run:
  "g_run cfg (not_reused u) w w' \<Longrightarrow> orphan u w \<Longrightarrow> orphan u w' \<and> (\<forall>j. holds w' j \<longrightarrow> holds w j)"
proof (induction rule: g_run.induct)
  case (g_step w w' ev)
  then show ?case using orphan_exec [of u w' ev cfg] by blast
qed simp

section \<open>The queue\<close>

lemma fifoCompare_le: "fifoCompare a b \<le> 0 \<longleftrightarrow> t_seq a < t_seq b \<or> t_seq a = t_seq b \<and> t_id a \<le> t_id b"
  by (auto simp: fifoCompare_def)

lemma fifo_sorted: "sorted_wrt (\<lambda>a b. fifoCompare a b \<le> 0) (sort_by fifoCompare ts)"
  by (rule sorted_sort_by) (auto simp: fifoCompare_le)

lemma reclaimTicket_fresh:
  "d name = Some (JsonFile r) \<Longrightarrow> \<not> isStale now st (ticketOf r) \<Longrightarrow>
     reclaimTicket now st t d name = Some (JsonFile r)"
  by (auto simp: reclaimTicket_def split: option.split DirFile.split)

lemma scavengeTemp_json:
  "d name = Some (JsonFile r) \<Longrightarrow> scavengeTemp now st n d name = Some (JsonFile r)"
  by (auto simp: scavengeTemp_def split: option.split DirFile.split)

lemma fold_keeps:
  "(\<And>x d. d n = v \<Longrightarrow> f x d n = v) \<Longrightarrow> d n = v \<Longrightarrow> fold f xs d n = v"
  by (induction xs arbitrary: d) auto

section \<open>Properties\<close>

text \<open>
  C8: mutual exclusion. In every interleaving of any number of processes, at the granularity of
  system calls and with crashes, in which nobody finds a heartbeat overdue, at most one process
  is between winning the mutex and having torn it down, and no attempt of another one succeeds.
\<close>
theorem gpu_mutual_exclusion:
  assumes "g_run cfg (heartbeats_seen cfg) emptyWorld w" and "holds w i"
  shows "(\<forall>j. holds w j \<longrightarrow> j = i) \<and> (j \<noteq> i \<longrightarrow> \<not> holds (g_exec cfg (now, j, Attempt t tickets) w) j)"
proof -
  have "excl_inv emptyWorld" by (simp add: excl_inv_def emptyWorld_def holds_def)
  from excl_run [OF assms(1) this] have inv: "excl_inv w" .
  have "heartbeats_seen cfg (now, j, Attempt t tickets) w" by (simp add: heartbeats_seen_def)
  from excl_exec [OF inv this] have inv': "excl_inv (g_exec cfg (now, j, Attempt t tickets) w)" .
  have "holds (g_exec cfg (now, j, Attempt t tickets) w) i" if "j \<noteq> i"
    using assms(2) that by (auto simp: g_exec_def g_attempt_def fsMkdir_def split: option.split)
  then show ?thesis using inv inv' assms(2) unfolding excl_inv_def by metis
qed

lemma g_run_fold: "g_run cfg (\<lambda>_ _. True) w (fold (g_exec cfg) evs w)"
proof (induction evs rule: rev_induct)
  case (snoc ev evs)
  then show ?case using g_step [of cfg "\<lambda>_ _. True" w _ ev] by simp
qed (simp add: g_refl)

lemmas gpu_eval = g_exec_def g_defs newClient_def emptyWorld_def holds_def ownerStale_def dirStale_def

text \<open>Every client that waits knows that it holds nothing, in any run.\<close>

lemma waiting_exec:
  assumes "\<And>j cl. clients w j = Some cl \<Longrightarrow> waiting_ok cl"
  shows "clients (g_exec cfg ev w) j = Some cl \<Longrightarrow> waiting_ok cl"
proof -
  obtain now i a where ev: "ev = (now, i, a)" by (cases ev)
  have "waiting_ok cl" if "clients (clientAct cfg now i a cli w) j = Some cl" and "clients w i = Some cli" for cli
    using that assms [OF that(2)] assms [of j]
    by (cases a) (auto simp: waiting_ok_def g_defs Let_def split: option.splits if_splits prod.splits)
  then show "clients (g_exec cfg ev w) j = Some cl \<Longrightarrow> waiting_ok cl"
    using assms ev by (auto simp: g_exec_def newClient_def waiting_ok_def split: option.splits if_splits)
qed

lemma waiting_run: "g_run cfg ok emptyWorld w \<Longrightarrow> clients w j = Some cl \<Longrightarrow> waiting_ok cl"
proof (induction "emptyWorld" w arbitrary: j cl rule: g_run.induct)
  case (g_step w' ev)
  then show ?case using waiting_exec by blast
qed (simp add: emptyWorld_def)

text \<open>
  C37: a crash can hold the GPU forever. In any run, let a process have written the temporary file
  \<open>u\<close> of its owner marker inside the mutex directory and not yet renamed it (no other process is
  writing a file of that random name), and let it crash there. Then in every continuation that
  does not draw the name \<open>u\<close> again, whatever the processes do and however long they wait, the mutex
  directory stays, and nobody comes to hold the lease who did not hold it at the crash: every
  \<open>rmdir\<close> of a reclaim or a release fails on the file, which no operation of the module removes.
\<close>
theorem gpu_crash_wedges:
  assumes "g_run cfg (\<lambda>_ _. True) emptyWorld w" and "clients w i = Some cl"
    and "g_pending cl = Some (u, own)" and "lockDir w = Some d" and "u \<in> set (ld_temps d)"
    and "\<And>j cl'. j \<noteq> i \<Longrightarrow> clients w j = Some cl' \<Longrightarrow> map_option fst (g_pending cl') \<noteq> Some u"
    and "g_run cfg (not_reused u) (g_exec cfg (now, i, Crash) w) w'"
  shows "lockDir w' \<noteq> None \<and> (\<forall>j. holds w' j \<longrightarrow> j \<noteq> i \<and> holds w j)"
proof -
  let ?w = "g_exec cfg (now, i, Crash) w"
  have w: "?w = w\<lparr>clients := (clients w)(i := None)\<rparr>" using assms(2) by (simp add: g_exec_def)
  have "orphan u ?w"
    using assms(4,5) assms(6) waiting_run [OF assms(1)] by (fastforce simp: orphan_def w split: if_splits)
  from orphan_run [OF assms(7) this] have "orphan u w'" "\<forall>j. holds w' j \<longrightarrow> holds ?w j" by auto
  then show ?thesis by (auto simp: orphan_def w)
qed

definition gpuDefaults :: GpuConfig where
  "gpuDefaults = \<lparr>gc_staleMs = effectiveStaleMs None 5000, gc_lockGraceMs = lockGrace 5000\<rparr>"

text \<open>
  The release of a holder whose lease was stolen is not guarded by its identity. In any run, let
  \<open>i\<close> still believe that it holds the lease (its heartbeat has not noticed the theft) while the
  marker in the mutex directory is that of another holder \<open>j\<close>, with no owner write in flight. Then
  the release of \<open>i\<close> removes the mutex of \<open>j\<close>, and the next waiting process \<open>k\<close> that finds its own
  ticket at the head of the line acquires: \<open>j\<close> and \<open>k\<close> both hold the GPU, neither was told of a
  loss, and this is a run of the module.
\<close>
lemma gpu_zombie_release_breaks_exclusion:
  assumes "g_run cfg (\<lambda>_ _. True) emptyWorld w"
    and "clients w i = Some ci" and "g_holding ci" and "g_phase ci = Running" and "\<not> g_released ci"
    and "g_pending ci = None"
    and "holds w j" and "readLockOwner (lockDir w) = Some own" and "lo_id own = j"
    and "lockDir w = Some d" and "ld_temps d = []"
    and "clients w k = Some ck" and "g_phase ck = Polling" and "\<not> g_released ck"
    and "atHead cfg t tickets k" and "i \<noteq> j" and "k \<noteq> i" and "k \<noteq> j"
  shows "let w' = fold (g_exec cfg) [(t1, i, ReleaseAct), (t2, i, ReleaseUnlinkAct),
                    (t3, i, ReleaseRmdirAct), (t4, k, Attempt t tickets)] w
         in g_run cfg (\<lambda>_ _. True) emptyWorld w' \<and> holds w' j \<and> holds w' k \<and>
            clients w' j = clients w j \<and> \<not> holds w' i"
proof -
  let ?evs = "[(t1, i, ReleaseAct), (t2, i, ReleaseUnlinkAct), (t3, i, ReleaseRmdirAct),
      (t4, k, Attempt t tickets)]"
  have run: "g_run cfg (\<lambda>_ _. True) emptyWorld (fold (g_exec cfg) evs w)" for evs
    using assms(1) by (induction evs rule: rev_induct) (auto intro: g_step)
  have "ld_owner d = Some own" using assms(8,10) by (simp add: readLockOwner_def)
  then have w': "fold (g_exec cfg) ?evs w =
      w\<lparr>lockDir := Some \<lparr>ld_owner = None, ld_temps = [], ld_mtime = t4\<rparr>,
        clients := (clients w)(i \<mapsto> ci\<lparr>g_released := True, g_phase := Gone\<rparr>,
                               k \<mapsto> ck\<lparr>g_holding := True, g_phase := Running\<rparr>)\<rparr>"
    using assms
    by (simp add: g_exec_def g_release_def g_releaseUnlink_def g_releaseRmdir_def g_attempt_def
        fsMkdir_def fsUnlinkOwner_def fsRmdir_def)
  show ?thesis using run [of ?evs] assms(7,16,17,18) unfolding Let_def w' by (simp add: holds_def)
qed

text \<open>
  The ticket queue is FIFO. Every ticket is either live or stale; the live ones are in order of
  enqueue time, then id; the one allowed to try the mutex is the earliest of them, and there is
  none exactly when no ticket is live.
\<close>
lemma gpu_select_fifo:
  assumes "sel = selectHolder tickets now staleMs"
  shows "set (sel_live sel) \<union> set (sel_stale sel) = set tickets \<and>
         (\<forall>t \<in> set (sel_stale sel). isStale now staleMs t) \<and>
         sorted_wrt (\<lambda>a b. fifoCompare a b \<le> 0) (sel_live sel) \<and>
         (case sel_holder sel of
            None \<Rightarrow> \<forall>t \<in> set tickets. isStale now staleMs t
          | Some h \<Rightarrow> queuePosition sel (t_id h) = 1 \<and> \<not> isStale now staleMs h \<and>
              (\<forall>t \<in> set tickets. \<not> isStale now staleMs t \<longrightarrow> fifoCompare h t \<le> 0))"
proof -
  let ?live = "sort_by fifoCompare (filter (\<lambda>t. \<not> isStale now staleMs t) tickets)"
  have set: "set ?live = {t \<in> set tickets. \<not> isStale now staleMs t}" by auto
  have self: "fifoCompare h h \<le> 0" for h by (simp add: fifoCompare_def)
  have holder: "case sel_holder sel of
            None \<Rightarrow> \<forall>t \<in> set tickets. isStale now staleMs t
          | Some h \<Rightarrow> queuePosition sel (t_id h) = 1 \<and> \<not> isStale now staleMs h \<and>
              (\<forall>t \<in> set tickets. \<not> isStale now staleMs t \<longrightarrow> fifoCompare h t \<le> 0)"
  proof (cases ?live)
    case Nil
    then show ?thesis using set assms by (auto simp: selectHolder_def Let_def)
  next
    case (Cons h ts)
    have "fifoCompare h t \<le> 0" if "t \<in> set tickets" "\<not> isStale now staleMs t" for t
    proof -
      have "t \<in> set (h # ts)" using set that unfolding Cons [symmetric] by blast
      then show ?thesis
        using fifo_sorted [of "filter (\<lambda>t. \<not> isStale now staleMs t) tickets"] Cons self by auto
    qed
    moreover have "\<not> isStale now staleMs h" using set Cons by auto
    ultimately show ?thesis using Cons assms by (simp add: selectHolder_def Let_def queuePosition_def)
  qed
  show ?thesis using holder set fifo_sorted assms by (auto simp: selectHolder_def Let_def)
qed

text \<open>
  Housekeeping never deletes a live waiter. Whatever stale view a poll acts on, a ticket file
  whose current content is valid and fresh is still there after the poll's reclaim and its
  scavenging of temporary files.
\<close>
lemma gpu_poll_keeps_fresh:
  assumes "d name = Some (JsonFile r)" and "\<not> isStale now staleMs (ticketOf r)"
  shows "snd (pollTickets myId names names' now staleMs d) name = Some (JsonFile r) \<and>
         reclaimStaleTickets stale now staleMs d name = Some (JsonFile r)"
proof -
  have reclaim: "reclaimStaleTickets st now staleMs d name = Some (JsonFile r)" for st
    unfolding reclaimStaleTickets_def using assms by (intro fold_keeps) (auto simp: reclaimTicket_fresh)
  have scavenge: "scavengeTemps ns now staleMs d' name = Some (JsonFile r)"
    if "d' name = Some (JsonFile r)" for ns d'
    unfolding scavengeTemps_def using that
    by (auto split: option.split intro!: fold_keeps simp: scavengeTemp_json)
  show ?thesis using reclaim scavenge assms by (simp add: pollTickets_def Let_def)
qed

section \<open>Witnesses\<close>

definition wTicket :: "string \<Rightarrow> rat \<Rightarrow> rat \<Rightarrow> Ticket" where
  "wTicket i sq hb = \<lparr>t_id = i, t_seq = sq, t_enqueuedAt = sq, t_heartbeatAt = hb, t_pid = 1,
     t_model = [], t_purpose = [], t_etaMs = None, t_host = []\<rparr>"

definition wHeld :: GpuWorld where
  "wHeld = g_exec gpuDefaults (0, ''a'', Attempt 0 [wTicket ''a'' 0 0])
     (g_exec gpuDefaults (0, ''a'', Join) emptyWorld)"

lemmas head_eval = atHead_def selectHolder_def isStale_def sort_by_def fifoCompare_def wTicket_def
  gpuDefaults_def effectiveStaleMs_def lockGrace_def

theorem gpu_mutual_exclusion_witness:
  "holds wHeld ''a'' \<and> \<not> holds (g_exec gpuDefaults (5, ''b'', Attempt 5 [wTicket ''b'' 5 5]) wHeld) ''b''"
proof -
  have run: "g_run gpuDefaults (heartbeats_seen gpuDefaults) emptyWorld wHeld"
    unfolding wHeld_def
    by (intro g_step g_refl) (simp_all add: heartbeats_seen_def)
  have "holds wHeld ''a''" by (simp add: wHeld_def gpu_eval head_eval)
  with gpu_mutual_exclusion [OF run this, of "''b''" 5] show ?thesis by blast
qed

text \<open>\<open>a\<close> crashes between the two system calls of its first owner write.\<close>

definition wWriting :: GpuWorld where
  "wWriting = g_exec gpuDefaults (0, ''a'', WriteAct ''tmp'') wHeld"

lemma wWriting_eval:
  "wWriting = \<lparr>lockDir = Some \<lparr>ld_owner = None, ld_temps = [''tmp''], ld_mtime = 0\<rparr>,
     clients = [''a'' \<mapsto> newClient\<lparr>g_holding := True, g_phase := Running,
                 g_pending := Some (''tmp'', \<lparr>lo_id = ''a'', lo_heartbeatAt = 0\<rparr>)\<rparr>]\<rparr>"
  by (simp add: wWriting_def wHeld_def gpu_eval head_eval)

theorem gpu_crash_wedges_witness:
  "let w = g_exec gpuDefaults (1, ''a'', Crash) wWriting
   in \<not> holds (g_exec gpuDefaults (99999999, ''b'', Attempt 99999999 [wTicket ''b'' 5 99999999])
                (g_exec gpuDefaults (5, ''b'', Join) w)) ''b''"
proof -
  have "g_run gpuDefaults (\<lambda>_ _. True) emptyWorld wWriting"
    unfolding wWriting_def wHeld_def by (intro g_step g_refl) simp_all
  moreover have "g_run gpuDefaults (not_reused ''tmp'') (g_exec gpuDefaults (1, ''a'', Crash) wWriting)
      (g_exec gpuDefaults (99999999, ''b'', Attempt 99999999 [wTicket ''b'' 5 99999999])
        (g_exec gpuDefaults (5, ''b'', Join) (g_exec gpuDefaults (1, ''a'', Crash) wWriting)))"
    by (intro g_step g_refl) (simp_all add: not_reused_def)
  moreover have "\<not> holds wWriting ''b''" by (simp add: wWriting_eval holds_def)
  moreover have "clients wWriting ''a'' = Some (newClient\<lparr>g_holding := True, g_phase := Running,
      g_pending := Some (''tmp'', \<lparr>lo_id = ''a'', lo_heartbeatAt = 0\<rparr>)\<rparr>)"
    and "lockDir wWriting = Some \<lparr>ld_owner = None, ld_temps = [''tmp''], ld_mtime = 0\<rparr>"
    and "\<And>j cl. j \<noteq> ''a'' \<Longrightarrow> clients wWriting j = Some cl \<Longrightarrow> map_option fst (g_pending cl) \<noteq> Some ''tmp''"
    by (simp_all add: wWriting_eval)
  ultimately show ?thesis
    using gpu_crash_wedges [of gpuDefaults wWriting "''a''" _ "''tmp''" _ _ 1] unfolding Let_def by force
qed

text \<open>
  \<open>a\<close> stalls for 40 seconds and \<open>b\<close> reclaims its lock. \<open>c\<close> drew its sequence number a
  millisecond before \<open>b\<close> and wrote its ticket after \<open>b\<close> had won the mutex, so that it is at the
  head of the line although the ticket of \<open>b\<close> is live.
\<close>

definition stolenRun :: "(millis \<times> string \<times> GpuAct) list" where
  "stolenRun =
     [(0, ''a'', Join), (0, ''a'', Attempt 0 [wTicket ''a'' 0 0]), (0, ''a'', WriteAct ''u1''),
      (0, ''a'', RenameAct), (40000, ''b'', Join),
      (40000, ''b'', Attempt 40000 [wTicket ''a'' 0 0, wTicket ''b'' 40000 40000]),
      (40000, ''b'', ReadOwnerAct), (40000, ''b'', UnlinkAct), (40000, ''b'', RmdirAct),
      (41000, ''b'', Attempt 41000 [wTicket ''b'' 40000 40000]), (41000, ''b'', WriteAct ''u2''),
      (41000, ''b'', RenameAct), (41000, ''c'', Join)]"

lemma stolen_eval:
  "fold (g_exec gpuDefaults) stolenRun emptyWorld =
     \<lparr>lockDir = Some \<lparr>ld_owner = Some \<lparr>lo_id = ''b'', lo_heartbeatAt = 41000\<rparr>, ld_temps = [], ld_mtime = 41000\<rparr>,
      clients = [''a'' \<mapsto> newClient\<lparr>g_holding := True, g_phase := Running\<rparr>,
                 ''b'' \<mapsto> newClient\<lparr>g_holding := True, g_phase := Running\<rparr>, ''c'' \<mapsto> newClient]\<rparr>"
  by (simp add: stolenRun_def gpu_eval head_eval)

lemma gpu_zombie_release_breaks_exclusion_witness:
  "let w' = fold (g_exec gpuDefaults) [(42000, ''a'', ReleaseAct), (42000, ''a'', ReleaseUnlinkAct),
              (42000, ''a'', ReleaseRmdirAct),
              (43000, ''c'', Attempt 43000 [wTicket ''c'' 39999 41000, wTicket ''b'' 40000 41000])]
             (fold (g_exec gpuDefaults) stolenRun emptyWorld)
   in g_run gpuDefaults (\<lambda>_ _. True) emptyWorld w' \<and> holds w' ''b'' \<and> holds w' ''c''"
proof -
  let ?w = "fold (g_exec gpuDefaults) stolenRun emptyWorld"
  let ?hold = "newClient\<lparr>g_holding := True, g_phase := Running\<rparr>"
  let ?own = "\<lparr>lo_id = ''b'', lo_heartbeatAt = 41000\<rparr>"
  let ?d = "\<lparr>ld_owner = Some ?own, ld_temps = [], ld_mtime = 41000\<rparr>"
  have run: "g_run gpuDefaults (\<lambda>_ _. True) emptyWorld ?w" by (rule g_run_fold)
  have w: "lockDir ?w = Some ?d" "clients ?w ''a'' = Some ?hold" "clients ?w ''c'' = Some newClient"
    "holds ?w ''b''" "readLockOwner (lockDir ?w) = Some ?own"
    by (simp_all add: stolen_eval holds_def readLockOwner_def)
  have head: "atHead gpuDefaults 43000 [wTicket ''c'' 39999 41000, wTicket ''b'' 40000 41000] ''c''"
    by (simp add: head_eval)
  from gpu_zombie_release_breaks_exclusion [OF run w(2) _ _ _ _ w(4,5) _ w(1) _ w(3) _ _ head,
      of 42000 42000 42000 43000]
  show ?thesis by (simp add: Let_def newClient_def)
qed

lemma gpu_select_fifo_witness:
  "sel_holder (selectHolder [wTicket ''c'' 3 90, wTicket ''b'' 2 90, wTicket ''a'' 1 10] 100 50) =
     Some (wTicket ''b'' 2 90) \<and> fifoCompare (wTicket ''b'' 2 90) (wTicket ''c'' 3 90) \<le> 0"
proof -
  let ?ts = "[wTicket ''c'' 3 90, wTicket ''b'' 2 90, wTicket ''a'' 1 10]"
  have h: "sel_holder (selectHolder ?ts 100 50) = Some (wTicket ''b'' 2 90)"
    by (simp add: selectHolder_def isStale_def wTicket_def sort_by_def fifoCompare_def)
  have "\<not> isStale 100 50 (wTicket ''c'' 3 90)" by (simp add: isStale_def wTicket_def)
  with gpu_select_fifo [OF refl, of ?ts 100 50] h show ?thesis by simp
qed

lemma gpu_poll_keeps_fresh_witness:
  "let r = \<lparr>raw_id = Some ''i'', raw_seq = Some (js_int 1), raw_heartbeatAt = Some (js_int 90),
            raw_enqueuedAt = Some (js_int 1), raw_rest = wTicket ''i'' 1 90\<rparr>
   in snd (pollTickets ''j'' None None 100 50 [''i.json'' \<mapsto> JsonFile r]) ''i.json'' = Some (JsonFile r)"
  using gpu_poll_keeps_fresh [of "[''i.json'' \<mapsto> JsonFile \<lparr>raw_id = Some ''i'', raw_seq = Some (js_int 1),
      raw_heartbeatAt = Some (js_int 90), raw_enqueuedAt = Some (js_int 1), raw_rest = wTicket ''i'' 1 90\<rparr>]"
      "''i.json''" _ 100 50 "''j''" None None]
  by (simp add: isStale_def ticketOf_def rat_of_def)

end
