(* ===== verification/Model_Backoff.thy ===== *)
theory Model_Backoff
  imports JS_Strings "HOL-Library.Sublist"
begin

text \<open>
  Suppression of failing models: \<open>src/homeserver/model-failure-backoff.ts\<close> (three backend failures
  within a minute suppress a model for thirty seconds) and
  \<open>src/homeserver/model-failure-backoff-state.ts\<close> (one such record per caller, the least recently
  used evicted). A model id or failure kind of unknown type is \<open>None\<close> when it is not a string. The
  reading of the clock and the trusted catalogue are arguments.
\<close>

definition FAILURE_THRESHOLD :: nat where
  "FAILURE_THRESHOLD = 3"

definition FAILURE_WINDOW_MS :: millis where
  "FAILURE_WINDOW_MS = 60000"

definition COOLDOWN_MS :: millis where
  "COOLDOWN_MS = 30000"

definition model_id_start :: "char \<Rightarrow> bool" where
  "model_id_start ch \<longleftrightarrow> ch \<in> set ''ABCDEFGHIJKLMNOPQRSTUVWXYZabcdefghijklmnopqrstuvwxyz0123456789''"

definition model_id_char :: "char \<Rightarrow> bool" where
  "model_id_char ch \<longleftrightarrow> model_id_start ch \<or> ch \<in> set ''._:/@+-''"

definition isCanonicalModelId :: "string option \<Rightarrow> bool" where
  "isCanonicalModelId v =
     (case v of Some (ch # rest) \<Rightarrow> model_id_start ch \<and> length rest \<le> 255 \<and> list_all model_id_char rest
      | _ \<Rightarrow> False)"

definition isBackendFailureKind :: "string option \<Rightarrow> bool" where
  "isBackendFailureKind v \<longleftrightarrow> v \<in> {Some ''upstream_http_error'', Some ''upstream_unavailable'',
     Some ''upstream_timeout'', Some ''model_load_failed''}"

record ModelFailureState =
  failures :: "millis list"
  unavailableUntil :: "millis option"

record ModelFailureBackoff =
  approvedModels :: "string list"
  states :: "string \<rightharpoonup> ModelFailureState"

record ModelTemporarilyUnavailable =
  retry_after_seconds :: seconds
  unavailable_until :: millis

definition newBackoff :: "string list \<Rightarrow> ModelFailureBackoff" where
  "newBackoff ids = \<lparr>approvedModels = filter (\<lambda>i. isCanonicalModelId (Some i)) ids, states = Map.empty\<rparr>"

definition readNow :: "js_number \<Rightarrow> millis option" where
  "readNow value =
     (if isSafeInteger value \<and> the_int value \<ge> 0 \<and> the_int value \<le> 8640000000000000 - COOLDOWN_MS
      then Some (the_int value) else None)"

definition eligible :: "string option \<Rightarrow> ModelFailureBackoff \<Rightarrow> bool" where
  "eligible modelId b = (case modelId of None \<Rightarrow> False
     | Some m \<Rightarrow> isCanonicalModelId modelId \<and> m \<in> set (approvedModels b))"

text \<open>The failures kept when a new one arrives, itself included.\<close>

definition keptFailures :: "millis \<Rightarrow> ModelFailureState \<Rightarrow> millis list" where
  "keptFailures now st =
     (let fs = (if unavailableUntil st \<noteq> None then [] else failures st);
          fs1 = (if fs \<noteq> [] \<and> now < last fs then [] else fs)
      in filter (\<lambda>failedAt. now - failedAt \<le> FAILURE_WINDOW_MS) fs1 @ [now])"

definition recordFailure :: "string option \<Rightarrow> string option \<Rightarrow> js_number \<Rightarrow> ModelFailureBackoff \<Rightarrow> ModelFailureBackoff" where
  "recordFailure modelId kind clock b =
     (if \<not> eligible modelId b \<or> \<not> isBackendFailureKind kind then b
      else case readNow clock of
             None \<Rightarrow> b
           | Some now \<Rightarrow>
               let st = (case states b (the modelId) of None \<Rightarrow> \<lparr>failures = [], unavailableUntil = None\<rparr> | Some s \<Rightarrow> s)
               in if (case unavailableUntil st of None \<Rightarrow> False | Some u \<Rightarrow> now < u) then b
                  else let fs = keptFailures now st;
                           st' = (if length fs \<ge> FAILURE_THRESHOLD
                                  then \<lparr>failures = [], unavailableUntil = Some (now + COOLDOWN_MS)\<rparr>
                                  else \<lparr>failures = fs, unavailableUntil = None\<rparr>)
                       in b\<lparr>states := (states b)(the modelId \<mapsto> st')\<rparr>)"

definition recordSuccess :: "string option \<Rightarrow> js_number \<Rightarrow> ModelFailureBackoff \<Rightarrow> ModelFailureBackoff" where
  "recordSuccess modelId clock b =
     (if \<not> eligible modelId b then b
      else if (case states b (the modelId) of None \<Rightarrow> False
               | Some st \<Rightarrow> (case unavailableUntil st of None \<Rightarrow> False
                   | Some u \<Rightarrow> (case readNow clock of None \<Rightarrow> True | Some now \<Rightarrow> now < u)))
      then b
      else b\<lparr>states := (states b)(the modelId := None)\<rparr>)"

definition observe :: "string option \<Rightarrow> js_number \<Rightarrow> ModelFailureBackoff
    \<Rightarrow> ModelTemporarilyUnavailable option \<times> ModelFailureBackoff" where
  "observe modelId clock b =
     (if \<not> eligible modelId b then (None, b)
      else case states b (the modelId) of
             None \<Rightarrow> (None, b)
           | Some st \<Rightarrow>
               (case unavailableUntil st of
                  None \<Rightarrow> (None, b)
                | Some u \<Rightarrow>
                    (case readNow clock of
                       None \<Rightarrow> (None, b)
                     | Some now \<Rightarrow>
                         if now \<ge> u then (None, b\<lparr>states := (states b)(the modelId := None)\<rparr>)
                         else (Some \<lparr>retry_after_seconds = ceil_div (u - now) 1000, unavailable_until = u\<rparr>, b))))"

section \<open>One record per caller\<close>

definition MAX_CALLERS :: nat where
  "MAX_CALLERS = 256"

record CallerEntry =
  roster :: "string list"
  backoff :: ModelFailureBackoff

text \<open>The callers of one gateway in the insertion order of the \<open>Map\<close>.\<close>

type_synonym Callers = "(string \<times> CallerEntry) list"

definition callerIds :: "string list \<Rightarrow> string list \<Rightarrow> string list" where
  "callerIds catalogue configuredModels =
     sort (filter (\<lambda>i. i \<noteq> ''unknown'' \<and> i \<noteq> ''none'') (remdups (catalogue @ configuredModels)))"

definition callerKey :: "string \<Rightarrow> string list \<Rightarrow> string" where
  "callerKey keyHash configuredModels = keyHash @ (if configuredModels \<noteq> [] then '':configured'' else [])"

text \<open>The key under which the record is found afterwards, \<open>None\<close> for one that is not kept.\<close>

definition modelFailureBackoffFor ::
  "string list \<Rightarrow> string option \<Rightarrow> string list \<Rightarrow> Callers \<Rightarrow> string option \<times> ModelFailureBackoff \<times> Callers" where
  "modelFailureBackoffFor catalogue keyHash configuredModels callers =
     (case keyHash of
        None \<Rightarrow> (None, newBackoff [], callers)
      | Some h \<Rightarrow>
          let ids = callerIds catalogue configuredModels;
              key = callerKey h configuredModels;
              rest = filter (\<lambda>(k, _). k \<noteq> key) callers;
              fresh = (let b = newBackoff ids;
                           rest' = (if length rest \<ge> MAX_CALLERS then tl rest else rest)
                       in (Some key, b, rest' @ [(key, \<lparr>roster = ids, backoff = b\<rparr>)]))
          in case map_of callers key of
               Some e \<Rightarrow> if roster e = ids then (Some key, backoff e, rest @ [(key, e)]) else fresh
             | None \<Rightarrow> fresh)"

section \<open>Runs\<close>

text \<open>
  A run seen from one model: the times of the failures recorded for it. Other models' events,
  successes and observations interleave, with any clock readings.
\<close>

inductive backoff_run :: "string list \<Rightarrow> string \<Rightarrow> ModelFailureBackoff \<Rightarrow> millis list \<Rightarrow> bool" for ids m where
  bo_new: "backoff_run ids m (newBackoff ids) []"
| bo_failure: "backoff_run ids m b hist \<Longrightarrow> isBackendFailureKind kind \<Longrightarrow> readNow clock = Some now \<Longrightarrow>
     backoff_run ids m (recordFailure (Some m) kind clock b) (hist @ [now])"
| bo_other: "backoff_run ids m b hist \<Longrightarrow> m' \<noteq> Some m \<Longrightarrow> backoff_run ids m (recordFailure m' kind clock b) hist"
| bo_success: "backoff_run ids m b hist \<Longrightarrow> backoff_run ids m (recordSuccess m' clock b) hist"
| bo_observe: "backoff_run ids m b hist \<Longrightarrow> backoff_run ids m (snd (observe m' clock b)) hist"

text \<open>What is stored for the model comes from its own recent failures.\<close>

definition three_strikes :: "millis \<Rightarrow> millis list \<Rightarrow> bool" where
  "three_strikes u hist \<longleftrightarrow> (\<exists>fs. subseq fs hist \<and> 3 \<le> length fs \<and> last fs = u - COOLDOWN_MS \<and>
     (\<forall>t \<in> set fs. u - COOLDOWN_MS - t \<le> FAILURE_WINDOW_MS))"

definition state_ok :: "millis list \<Rightarrow> ModelFailureState option \<Rightarrow> bool" where
  "state_ok hist st = (case st of None \<Rightarrow> True
     | Some s \<Rightarrow> subseq (failures s) hist \<and>
         (case unavailableUntil s of None \<Rightarrow> True | Some u \<Rightarrow> failures s = [] \<and> three_strikes u hist))"

lemma subseq_snoc: "subseq xs ys \<Longrightarrow> subseq xs (ys @ [y])"
  using list_emb_append_mono [of "(=)" xs ys "[]" "[y]"] by simp

lemma subseq_snoc_same: "subseq xs ys \<Longrightarrow> subseq (xs @ [y]) (ys @ [y])"
  by (simp add: list_emb_append_mono)

lemma three_strikes_snoc: "three_strikes u hist \<Longrightarrow> three_strikes u (hist @ [t])"
  unfolding three_strikes_def using subseq_snoc by blast

lemma state_ok_snoc: "state_ok hist st \<Longrightarrow> state_ok (hist @ [t]) st"
  by (auto simp: state_ok_def subseq_snoc three_strikes_snoc split: option.splits)

lemma keptFailures_props:
  assumes "state_ok hist (Some st)"
  shows "subseq (keptFailures now st) (hist @ [now])" and "last (keptFailures now st) = now"
    and "0 \<le> FAILURE_WINDOW_MS \<Longrightarrow> \<forall>t \<in> set (keptFailures now st). now - t \<le> FAILURE_WINDOW_MS"
proof -
  have "subseq (failures st) hist" using assms by (simp add: state_ok_def)
  then have "subseq (filter P (if q then [] else failures st)) hist" for P q
    using subseq_order.order_trans [OF subseq_filter_left] by auto
  then have "subseq (filter (\<lambda>f. now - f \<le> FAILURE_WINDOW_MS)
      (let fs = (if unavailableUntil st \<noteq> None then [] else failures st) in if fs \<noteq> [] \<and> now < last fs then [] else fs)) hist"
    by (auto simp: Let_def)
  then show "subseq (keptFailures now st) (hist @ [now])"
    by (simp add: keptFailures_def Let_def list_emb_append_mono)
qed (auto simp: keptFailures_def Let_def)

lemma recordFailure_state_ok:
  assumes "state_ok hist (states b m)" and "readNow clock = Some now" and "isBackendFailureKind kind"
  shows "state_ok (hist @ [now]) (states (recordFailure (Some m) kind clock b) m)"
proof -
  let ?st = "case states b m of None \<Rightarrow> \<lparr>failures = [], unavailableUntil = None\<rparr> | Some s \<Rightarrow> s"
  have st: "state_ok hist (Some ?st)" using assms(1) by (auto simp: state_ok_def split: option.splits)
  note kept = keptFailures_props [OF st, of now]
  have "state_ok (hist @ [now]) (Some \<lparr>failures = [], unavailableUntil = Some (now + COOLDOWN_MS)\<rparr>)"
    if "FAILURE_THRESHOLD \<le> length (keptFailures now ?st)"
    using kept that
    by (auto simp: state_ok_def three_strikes_def FAILURE_THRESHOLD_def FAILURE_WINDOW_MS_def
        intro!: exI [of _ "keptFailures now ?st"])
  moreover have "state_ok (hist @ [now]) (Some \<lparr>failures = keptFailures now ?st, unavailableUntil = None\<rparr>)"
    using kept(1) by (simp add: state_ok_def)
  ultimately show ?thesis using assms state_ok_snoc [OF assms(1), of now]
    by (simp add: recordFailure_def Let_def)
qed

lemma backoff_run_ok: "backoff_run ids m b hist \<Longrightarrow> state_ok hist (states b m)"
proof (induction rule: backoff_run.induct)
  case bo_new
  then show ?case by (simp add: newBackoff_def state_ok_def)
next
  case (bo_failure b hist kind clock now)
  then show ?case by (intro recordFailure_state_ok)
next
  case (bo_other b hist m' kind clock)
  then have "states (recordFailure m' kind clock b) m = states b m"
    by (cases m') (auto simp: recordFailure_def Let_def eligible_def split: option.split)
  then show ?case using bo_other by simp
next
  case (bo_success b hist m' clock)
  then show ?case by (auto simp: recordSuccess_def state_ok_def)
next
  case (bo_observe b hist m' clock)
  then have "states (snd (observe m' clock b)) m = states b m \<or> states (snd (observe m' clock b)) m = None"
    by (auto simp: observe_def split: option.split)
  then show ?case using bo_observe by (auto simp: state_ok_def)
qed

section \<open>Properties\<close>

text \<open>
  A model is suppressed only after three strikes: whatever else happened, when it is reported
  unavailable, three of its own backend failures fell within one minute, the last of them thirty
  seconds before the reported end; the model is on the approved roster; the hint is at least one
  second and a caller that waits for it finds the suppression lifted.
\<close>
lemma backoff_three_strikes:
  assumes "backoff_run ids m b hist" and "observe (Some m) clock b = (Some u, b')"
  shows "three_strikes (unavailable_until u) hist \<and> m \<in> set ids \<and> 1 \<le> retry_after_seconds u \<and>
    (\<forall>clock' now'. readNow clock' = Some now' \<longrightarrow>
       (\<forall>now. readNow clock = Some now \<longrightarrow> now + 1000 * retry_after_seconds u \<le> now' \<longrightarrow>
          fst (observe (Some m) clock' b') = None))"
proof -
  obtain st until now where st: "states b m = Some st" "unavailableUntil st = Some until"
    and now: "readNow clock = Some now" "now < until"
    and u: "u = \<lparr>retry_after_seconds = ceil_div (until - now) 1000, unavailable_until = until\<rparr>" "b' = b"
    and el: "eligible (Some m) b"
    using assms(2) by (auto simp: observe_def split: option.splits if_splits)
  have "state_ok hist (Some st)" using backoff_run_ok [OF assms(1)] st by simp
  then have strikes: "three_strikes until hist" using st by (simp add: state_ok_def)
  have "approvedModels b = approvedModels (newBackoff ids)"
    using assms(1)
    by (induction rule: backoff_run.induct)
      (auto simp: recordFailure_def recordSuccess_def observe_def Let_def split: option.split)
  then have "m \<in> set ids" using el by (auto simp: eligible_def newBackoff_def)
  moreover have ge: "until - now \<le> ceil_div (until - now) 1000 * 1000" by (rule ceil_div_ge) simp
  then have "1 \<le> ceil_div (until - now) 1000" using now by (cases "ceil_div (until - now) 1000 \<le> 0") auto
  moreover have "fst (observe (Some m) clock' b) = None" if "readNow clock' = Some now'" "until \<le> now'" for clock' now'
    using that el st by (simp add: observe_def)
  ultimately show ?thesis using strikes u now ge by auto
qed

lemma map_of_snoc:
  "key \<notin> set (map fst base) \<Longrightarrow> map_of (base @ [(key, e)]) k = (if k = key then Some e else map_of base k)"
  by (auto simp: map_add_def dest: map_of_SomeD split: option.split) (force dest: map_of_SomeD)

lemma length_filter_key: "length (filter (\<lambda>(k, _). k \<noteq> key) cs) \<le> length cs"
  by (rule length_filter_le)

text \<open>
  The callers' records are isolated and bounded. Looking up a caller's record keeps at most 256
  records, none twice, leaves every other caller's record as it is unless it was the one evicted
  for a new caller, and an anonymous caller gets a record that suppresses nothing.
\<close>
lemma backoff_callers_isolated:
  assumes "distinct (map fst callers)" and "length callers \<le> MAX_CALLERS"
    and "modelFailureBackoffFor cat (Some h) conf callers = (Some key, b, callers')"
  shows "distinct (map fst callers') \<and> length callers' \<le> MAX_CALLERS \<and>
    key = callerKey h conf \<and> (\<exists>e. map_of callers' key = Some e \<and> backoff e = b \<and> roster e = callerIds cat conf) \<and>
    (\<forall>k e. k \<noteq> key \<longrightarrow> map_of callers' k = Some e \<longrightarrow> map_of callers k = Some e) \<and>
    (length callers < MAX_CALLERS \<longrightarrow> (\<forall>k. k \<noteq> key \<longrightarrow> map_of callers' k = map_of callers k))"
proof -
  let ?rest = "filter (\<lambda>(k, _). k \<noteq> key) callers"
  have key: "key = callerKey h conf"
    using assms(3) by (auto simp: modelFailureBackoffFor_def Let_def split: option.splits if_splits)
  have dist: "distinct (map fst ?rest)" "key \<notin> set (map fst ?rest)"
    using assms(1) by (auto simp: distinct_map_filter)
  have rest: "map_of ?rest k = (if k = key then None else map_of callers k)" for k
    by (induction callers) auto
  have tl_rest: "map_of (tl ?rest) k = Some e \<Longrightarrow> map_of ?rest k = Some e" for k e
    using dist(1) by (cases ?rest) (auto dest!: map_of_SomeD, force)
  have tl_dist: "distinct (map fst (tl ?rest))" "key \<notin> set (map fst (tl ?rest))"
    using dist by (cases ?rest; auto)+
  have snoc: "distinct (map fst (base @ [(key, e)])) \<and> length (base @ [(key, e)]) \<le> MAX_CALLERS \<and>
      map_of (base @ [(key, e)]) key = Some e \<and>
      (\<forall>k e'. k \<noteq> key \<longrightarrow> map_of (base @ [(key, e)]) k = Some e' \<longrightarrow> map_of callers k = Some e')"
    if "distinct (map fst base)" "key \<notin> set (map fst base)" "length base < MAX_CALLERS"
      "\<And>k e. map_of base k = Some e \<Longrightarrow> map_of ?rest k = Some e" for base e
  proof -
    have "map_of callers k = Some e'" if "k \<noteq> key" "map_of base k = Some e'" for k e'
      using \<open>\<And>k e. map_of base k = Some e \<Longrightarrow> map_of ?rest k = Some e\<close> [OF that(2)] rest [of k] that(1) by simp
    then show ?thesis using that map_of_snoc [OF that(2)] by simp
  qed
  have keep: "map_of (?rest @ [(key, e)]) k = map_of callers k" if "k \<noteq> key" for k e
    using map_of_snoc [OF dist(2)] rest that by simp
  have hit: ?thesis if e: "map_of callers key = Some e" "roster e = callerIds cat conf"
      "callers' = ?rest @ [(key, e)]" "b = backoff e" for e
  proof -
    have "length ?rest < length callers"
      using e(1) by (intro length_filter_less [of "(key, e)"]) (auto dest: map_of_SomeD)
    then have "length ?rest < MAX_CALLERS" using assms(2) by simp
    from snoc [OF dist this] keep [of _ e] show ?thesis using e(2-4) key by auto
  qed
  have fresh: ?thesis if "callers' = (if length ?rest \<ge> MAX_CALLERS then tl ?rest else ?rest) @
      [(key, \<lparr>roster = callerIds cat conf, backoff = b\<rparr>)]"
  proof (cases "length ?rest \<ge> MAX_CALLERS")
    case True
    have "length ?rest \<le> MAX_CALLERS" using length_filter_key [of key callers] assms(2) by (rule le_trans)
    then have "length (tl ?rest) < MAX_CALLERS" by (simp add: MAX_CALLERS_def)
    moreover have "\<not> length callers < MAX_CALLERS"
      using True le_trans [OF True length_filter_key [of key callers]] by simp
    ultimately show ?thesis using snoc [OF tl_dist _ tl_rest] True that key by auto
  next
    case False
    then have "length ?rest < MAX_CALLERS" by simp
    from snoc [OF dist this] keep show ?thesis using False that key by auto
  qed
  have call: "modelFailureBackoffFor cat (Some h) conf callers = (Some key, b, callers')" using assms(3) .
  show ?thesis
  proof (cases "\<exists>e. map_of callers key = Some e \<and> roster e = callerIds cat conf")
    case True
    then obtain e where e: "map_of callers key = Some e" "roster e = callerIds cat conf" by blast
    then have "callers' = ?rest @ [(key, e)]" "b = backoff e"
      using call key by (simp_all add: modelFailureBackoffFor_def Let_def)
    with e show ?thesis by (rule hit)
  next
    case False
    then have "callers' = (if length ?rest \<ge> MAX_CALLERS then tl ?rest else ?rest) @
        [(key, \<lparr>roster = callerIds cat conf, backoff = b\<rparr>)]"
      using call key by (cases "map_of callers key") (auto simp: modelFailureBackoffFor_def Let_def split: if_splits)
    then show ?thesis by (rule fresh)
  qed
qed

section \<open>Witnesses\<close>

abbreviation wFail :: "int \<Rightarrow> ModelFailureBackoff \<Rightarrow> ModelFailureBackoff" where
  "wFail t \<equiv> recordFailure (Some ''m'') (Some ''upstream_timeout'') (js_int t)"

definition wSuppressed :: ModelFailureBackoff where
  "wSuppressed = wFail 3 (wFail 2 (wFail 1 (newBackoff [''m''])))"

lemma wClock: "0 \<le> t \<Longrightarrow> t \<le> 1000000 \<Longrightarrow> readNow (js_int t) = Some t"
  by (simp add: readNow_def max_safe_integer_def COOLDOWN_MS_def)

lemma wSuppressed_run: "backoff_run [''m''] ''m'' wSuppressed [1, 2, 3]"
proof -
  have k: "isBackendFailureKind (Some ''upstream_timeout'')" by (simp add: isBackendFailureKind_def)
  have "backoff_run [''m''] ''m'' wSuppressed ((([] @ [1]) @ [2]) @ [3])"
    unfolding wSuppressed_def by (intro bo_failure bo_new k wClock) simp_all
  then show ?thesis by simp
qed

lemma wSuppressed_eval:
  "wSuppressed = \<lparr>approvedModels = [''m''],
     states = [''m'' \<mapsto> \<lparr>failures = [], unavailableUntil = Some 30003\<rparr>]\<rparr>"
  using wClock [of 1] wClock [of 2] wClock [of 3]
  by (simp add: wSuppressed_def recordFailure_def newBackoff_def eligible_def isCanonicalModelId_def
      model_id_start_def isBackendFailureKind_def keptFailures_def FAILURE_THRESHOLD_def FAILURE_WINDOW_MS_def
      COOLDOWN_MS_def Let_def)

lemma backoff_three_strikes_witness:
  "three_strikes 30003 [1, 2, 3] \<and> fst (observe (Some ''m'') (js_int 3) wSuppressed) \<noteq> None"
proof -
  have "observe (Some ''m'') (js_int 3) wSuppressed =
      (Some \<lparr>retry_after_seconds = 30, unavailable_until = 30003\<rparr>, wSuppressed)"
    using wClock [of 3]
    by (simp add: observe_def wSuppressed_eval eligible_def isCanonicalModelId_def model_id_start_def ceil_div_def)
  with backoff_three_strikes [OF wSuppressed_run this] show ?thesis by simp
qed

lemma backoff_callers_isolated_witness:
  "\<exists>e. map_of (snd (snd (modelFailureBackoffFor [''m''] (Some ''h'') [] []))) ''h'' = Some e \<and> roster e = [''m'']"
proof -
  have ids: "callerIds [''m''] [] = [''m'']" by (simp add: callerIds_def)
  have "modelFailureBackoffFor [''m''] (Some ''h'') [] [] =
      (Some ''h'', newBackoff [''m''], [(''h'', \<lparr>roster = [''m''], backoff = newBackoff [''m'']\<rparr>)])"
    by (simp add: modelFailureBackoffFor_def ids callerKey_def MAX_CALLERS_def Let_def)
  with backoff_callers_isolated [OF _ _ this] ids show ?thesis by (simp add: MAX_CALLERS_def)
qed

end
