(* ===== verification/Poison_Clear.thy ===== *)
theory Poison_Clear
  imports Prelude
begin

text \<open>
  Clearing the state of recurrent models, \<open>src/homeserver/poison-clear.ts\<close>: a disconnect asks for
  the model to be unloaded, immediately, or at the end of the cooldown window by a timer. The
  unload itself is asynchronous; \<open>pc_running\<close> are the unloads under way and \<open>pc_fired\<close> all that
  were started, with the time. \<open>scheduled\<close> keeps, for each model with a trailing unload, the
  boundary its callback captured and the time the timer is due. Logging and metrics are not
  modelled.
\<close>

record PoisonClearState =
  lastClearAt :: "string \<rightharpoonup> millis"
  inFlight :: "string set"
  scheduled :: "string \<rightharpoonup> millis \<times> millis"
  pc_running :: "string list"
  pc_fired :: "(string \<times> millis) list"

definition makePoisonClearState :: PoisonClearState where
  "makePoisonClearState = \<lparr>lastClearAt = Map.empty, inFlight = {}, scheduled = Map.empty, pc_running = [],
                           pc_fired = []\<rparr>"

datatype ClearDecision = Fire | Defer | Skip

definition decidePoisonClear ::
  "string option \<Rightarrow> string list \<Rightarrow> millis \<Rightarrow> millis \<Rightarrow> PoisonClearState \<Rightarrow> ClearDecision" where
  "decidePoisonClear model recurrentModelIds cooldownMs now st =
     (case model of
        None \<Rightarrow> Skip
      | Some m \<Rightarrow>
          if m = [] then Skip
          else if m \<notin> set recurrentModelIds then Skip
          else let outOfCooldown = (case lastClearAt st m of None \<Rightarrow> True | Some lst \<Rightarrow> now - lst \<ge> cooldownMs)
               in if outOfCooldown \<and> m \<notin> inFlight st then Fire else Defer)"

text \<open>\<open>fireUnload\<close> at the time \<open>now\<close>, recording \<open>ts\<close>.\<close>

definition fireUnload :: "string \<Rightarrow> millis \<Rightarrow> millis \<Rightarrow> PoisonClearState \<Rightarrow> PoisonClearState" where
  "fireUnload i ts now st =
     st\<lparr>lastClearAt := (lastClearAt st)(i \<mapsto> ts), inFlight := insert i (inFlight st),
        pc_running := i # pc_running st, pc_fired := pc_fired st @ [(i, now)]\<rparr>"

text \<open>An unload settles: \<open>ok\<close>, or failed or rejected, which forgets the timestamp.\<close>

definition unloadSettled :: "string \<Rightarrow> bool \<Rightarrow> PoisonClearState \<Rightarrow> PoisonClearState" where
  "unloadSettled i ok st =
     (if i \<notin> set (pc_running st) then st
      else st\<lparr>lastClearAt := (if ok then lastClearAt st else (lastClearAt st)(i := None)),
              inFlight := inFlight st - {i}, pc_running := remove1 i (pc_running st)\<rparr>)"

definition requestPoisonClear ::
  "string option \<Rightarrow> string list \<Rightarrow> millis \<Rightarrow> millis \<Rightarrow> PoisonClearState \<Rightarrow> ClearDecision \<times> PoisonClearState" where
  "requestPoisonClear model recurrentModelIds cooldownMs now st =
     (case decidePoisonClear model recurrentModelIds cooldownMs now st of
        Skip \<Rightarrow> (Skip, st)
      | Fire \<Rightarrow> (Fire, fireUnload (the model) now now st)
      | Defer \<Rightarrow>
          let i = the model
          in if scheduled st i \<noteq> None then (Defer, st)
             else let lst = (case lastClearAt st i of None \<Rightarrow> now | Some t \<Rightarrow> t);
                      boundary = lst + cooldownMs;
                      delay = max 0 (boundary - now)
                  in (Defer, st\<lparr>scheduled := (scheduled st)(i \<mapsto> (boundary, now + delay))\<rparr>))"

definition poisonClearOnDisconnect ::
  "string option \<Rightarrow> string list \<Rightarrow> millis \<Rightarrow> millis \<Rightarrow> PoisonClearState \<Rightarrow> ClearDecision \<times> PoisonClearState" where
  "poisonClearOnDisconnect model recurrentModelIds cooldownMs now st =
     requestPoisonClear model recurrentModelIds cooldownMs now st"

text \<open>The timer of a trailing unload runs its callback.\<close>

definition trailingFires :: "string \<Rightarrow> millis \<Rightarrow> PoisonClearState \<Rightarrow> PoisonClearState" where
  "trailingFires i now st =
     (case scheduled st i of
        None \<Rightarrow> st
      | Some (boundary, due) \<Rightarrow> fireUnload i boundary now (st\<lparr>scheduled := (scheduled st)(i := None)\<rparr>))"

definition resetPoisonClearState :: "PoisonClearState \<Rightarrow> PoisonClearState" where
  "resetPoisonClearState st = st\<lparr>lastClearAt := Map.empty, inFlight := {}, scheduled := Map.empty\<rparr>"

section \<open>Runs\<close>

text \<open>Time does not go backwards, and a timer never runs early. Models keep their list and
  cooldown.\<close>

inductive poison_run :: "string list \<Rightarrow> millis \<Rightarrow> millis \<Rightarrow> PoisonClearState \<Rightarrow> bool" for ids cooldown where
  pc_start: "poison_run ids cooldown now makePoisonClearState"
| pc_request: "poison_run ids cooldown t st \<Longrightarrow> t \<le> now \<Longrightarrow>
     poison_run ids cooldown now (snd (requestPoisonClear model ids cooldown now st))"
| pc_timer: "poison_run ids cooldown t st \<Longrightarrow> t \<le> now \<Longrightarrow> scheduled st i = Some (boundary, due) \<Longrightarrow> due \<le> now \<Longrightarrow>
     poison_run ids cooldown now (trailingFires i now st)"
| pc_settle: "poison_run ids cooldown t st \<Longrightarrow> t \<le> now \<Longrightarrow> poison_run ids cooldown now (unloadSettled i ok st)"

definition poison_inv :: "string list \<Rightarrow> millis \<Rightarrow> millis \<Rightarrow> PoisonClearState \<Rightarrow> bool" where
  "poison_inv ids cooldown now st \<longleftrightarrow>
     (\<forall>i t. lastClearAt st i = Some t \<longrightarrow> t \<le> now) \<and>
     (\<forall>i b d. scheduled st i = Some (b, d) \<longrightarrow> i \<in> set ids \<and> b \<le> d \<and> d \<le> now + cooldown) \<and>
     (\<forall>i t. (i, t) \<in> set (pc_fired st) \<longrightarrow> i \<in> set ids) \<and> (\<forall>i \<in> inFlight st. i \<in> set ids)"

lemma decide_not_skip: "decidePoisonClear model ids cd now st \<noteq> Skip \<Longrightarrow> \<exists>m. model = Some m \<and> m \<in> set ids"
  by (auto simp: decidePoisonClear_def split: option.splits if_splits)

lemma poison_inv_later: "poison_inv ids cd t st \<Longrightarrow> t \<le> now \<Longrightarrow> poison_inv ids cd now st"
  unfolding poison_inv_def by (meson add_right_mono order_trans)

lemma poison_inv_fire:
  "poison_inv ids cd now st \<Longrightarrow> i \<in> set ids \<Longrightarrow> ts \<le> now \<Longrightarrow> poison_inv ids cd now (fireUnload i ts now st)"
  by (auto simp: poison_inv_def fireUnload_def)

lemma poison_inv_unschedule:
  "poison_inv ids cd now st \<Longrightarrow> poison_inv ids cd now (st\<lparr>scheduled := (scheduled st)(i := None)\<rparr>)"
  by (auto simp: poison_inv_def)

lemma poison_inv_request:
  assumes inv: "poison_inv ids cd now st" and "0 \<le> cd"
  shows "poison_inv ids cd now (snd (requestPoisonClear model ids cd now st))"
proof (cases "decidePoisonClear model ids cd now st")
  case Fire
  then obtain m where "model = Some m" "m \<in> set ids" using decide_not_skip [of model ids cd now st] by auto
  then show ?thesis using Fire inv by (simp add: requestPoisonClear_def poison_inv_fire)
next
  case Defer
  then obtain m where m: "model = Some m" "m \<in> set ids" using decide_not_skip [of model ids cd now st] by auto
  have "t \<le> now" if "lastClearAt st m = Some t" for t using inv that by (simp add: poison_inv_def)
  then have "poison_inv ids cd now (st\<lparr>scheduled := (scheduled st)(m \<mapsto>
      ((case lastClearAt st m of None \<Rightarrow> now | Some t \<Rightarrow> t) + cd,
       now + max 0 ((case lastClearAt st m of None \<Rightarrow> now | Some t \<Rightarrow> t) + cd - now)))\<rparr>)"
    using inv m(2) assms(2) by (auto simp: poison_inv_def max_def split: option.split)
  then show ?thesis using Defer inv m by (simp add: requestPoisonClear_def Let_def)
next
  case Skip
  then show ?thesis using inv by (simp add: requestPoisonClear_def)
qed

lemma poison_run_inv: "poison_run ids cd now st \<Longrightarrow> 0 \<le> cd \<Longrightarrow> poison_inv ids cd now st"
proof (induction rule: poison_run.induct)
  case (pc_start now)
  then show ?case by (simp add: poison_inv_def makePoisonClearState_def)
next
  case (pc_request t st now model)
  then show ?case by (intro poison_inv_request) (auto intro: poison_inv_later)
next
  case (pc_timer t st now i boundary due)
  have inv: "poison_inv ids cd now st" using pc_timer.IH [OF pc_timer.prems] pc_timer.hyps(2) by (rule poison_inv_later)
  then have "i \<in> set ids" "boundary \<le> due" using pc_timer.hyps(3) by (auto simp: poison_inv_def)
  then show ?case using poison_inv_fire [OF poison_inv_unschedule [OF inv]] pc_timer.hyps(3,4)
    by (simp add: trailingFires_def)
next
  case (pc_settle t st now i ok)
  then have "poison_inv ids cd now st" by (blast intro: poison_inv_later)
  then show ?case by (auto simp: unloadSettled_def poison_inv_def)
qed

section \<open>Properties\<close>

text \<open>
  No disconnect is dropped. In every run, a disconnect of an allow-listed model at \<open>now\<close> either
  starts an unload at once or leaves a trailing unload scheduled that is due no later than one
  cooldown after it; and when its timer runs, an unload of that model starts unconditionally. A
  disconnect of any other model does nothing, and no other model is ever unloaded.
\<close>
lemma poison_no_silent_drop:
  assumes "poison_run ids cooldown t st" and "t \<le> now" and "0 \<le> cooldown" and "m \<noteq> []"
    and "requestPoisonClear (Some m) ids cooldown now st = (d, st')"
  shows "(m \<in> set ids \<longrightarrow>
           (d = Fire \<and> pc_fired st' = pc_fired st @ [(m, now)]) \<or>
           (d = Defer \<and> (\<exists>b due. scheduled st' m = Some (b, due) \<and> due \<le> now + cooldown \<and>
              (\<forall>later. pc_fired (trailingFires m later st') = pc_fired st' @ [(m, later)])))) \<and>
         (m \<notin> set ids \<longrightarrow> d = Skip \<and> st' = st) \<and> (\<forall>(i, u) \<in> set (pc_fired st'). i \<in> set ids)"
proof -
  have "poison_run ids cooldown now st'" using pc_request [OF assms(1,2), of "Some m"] assms(5) by simp
  from poison_run_inv [OF this assms(3)] have inv: "poison_inv ids cooldown now st'" .
  have sched: "\<exists>b due. scheduled st' m = Some (b, due)" if "d = Defer"
    using assms(5) that
    by (auto simp: requestPoisonClear_def Let_def split: ClearDecision.splits if_splits)
  have "d = Fire \<and> pc_fired st' = pc_fired st @ [(m, now)] \<or> d = Defer" if "m \<in> set ids"
    using assms(4,5) that
    by (auto simp: requestPoisonClear_def decidePoisonClear_def fireUnload_def Let_def split: if_splits option.splits)
  moreover have "\<exists>b due. scheduled st' m = Some (b, due) \<and> due \<le> now + cooldown \<and>
      (\<forall>later. pc_fired (trailingFires m later st') = pc_fired st' @ [(m, later)])" if "d = Defer"
    using sched [OF that] inv by (auto simp: poison_inv_def trailingFires_def fireUnload_def)
  moreover have "d = Skip \<and> st' = st" if "m \<notin> set ids"
    using assms(4,5) that by (simp add: requestPoisonClear_def decidePoisonClear_def)
  moreover have "\<forall>(i, u) \<in> set (pc_fired st'). i \<in> set ids" using inv by (auto simp: poison_inv_def)
  ultimately show ?thesis by blast
qed

definition wTwice :: PoisonClearState where
  "wTwice =
     (let ids = [''q'']; cd = 100;
          s1 = snd (requestPoisonClear (Some ''q'') ids cd 0 makePoisonClearState);
          s2 = snd (requestPoisonClear (Some ''q'') ids cd 5 s1);
          s3 = unloadSettled ''q'' False s2;
          s4 = snd (requestPoisonClear (Some ''q'') ids cd 20 s3);
          s5 = unloadSettled ''q'' True s4
      in trailingFires ''q'' 100 s5)"

text \<open>
  Unloads are not capped at one per cooldown window. After a failed unload its timestamp is
  forgotten while a trailing unload is already scheduled: the next disconnect unloads the model
  successfully at 20, and the old timer unloads it again at 100, within the same window of 100.
\<close>
lemma poison_cap_exceeded:
  "poison_run [''q''] 100 100 wTwice \<and> pc_fired wTwice = [(''q'', 0), (''q'', 20), (''q'', 100)]"
proof -
  let ?s1 = "snd (requestPoisonClear (Some ''q'') [''q''] 100 0 makePoisonClearState)"
  let ?s2 = "snd (requestPoisonClear (Some ''q'') [''q''] 100 5 ?s1)"
  let ?s3 = "unloadSettled ''q'' False ?s2"
  let ?s4 = "snd (requestPoisonClear (Some ''q'') [''q''] 100 20 ?s3)"
  let ?s5 = "unloadSettled ''q'' True ?s4"
  have eval: "scheduled ?s5 ''q'' = Some (100, 100)"
    "pc_fired wTwice = [(''q'', 0), (''q'', 20), (''q'', 100)]"
    by (simp_all add: wTwice_def requestPoisonClear_def decidePoisonClear_def fireUnload_def unloadSettled_def
        trailingFires_def makePoisonClearState_def Let_def)
  have "poison_run [''q''] 100 0 ?s1" by (rule pc_request [OF pc_start order_refl])
  then have "poison_run [''q''] 100 5 ?s2" by (rule pc_request) simp
  then have "poison_run [''q''] 100 10 ?s3" by (rule pc_settle) simp
  then have "poison_run [''q''] 100 20 ?s4" by (rule pc_request) simp
  then have "poison_run [''q''] 100 30 ?s5" by (rule pc_settle) simp
  from pc_timer [OF this _ eval(1)] eval(2) show ?thesis by (simp add: wTwice_def Let_def)
qed

section \<open>Witnesses\<close>

lemma poison_no_silent_drop_witness:
  "\<exists>st. requestPoisonClear (Some ''q'') [''q''] 100 5
       (snd (requestPoisonClear (Some ''q'') [''q''] 100 0 makePoisonClearState)) = (Defer, st) \<and>
     (\<exists>b due. scheduled st ''q'' = Some (b, due) \<and> due \<le> 5 + 100)"
proof -
  let ?s1 = "snd (requestPoisonClear (Some ''q'') [''q''] 100 0 makePoisonClearState)"
  have run: "poison_run [''q''] 100 0 ?s1" by (rule pc_request [OF pc_start order_refl])
  obtain st where st: "requestPoisonClear (Some ''q'') [''q''] 100 5 ?s1 = (Defer, st)"
    by (simp add: requestPoisonClear_def decidePoisonClear_def fireUnload_def makePoisonClearState_def Let_def)
  from poison_no_silent_drop [OF run _ _ _ st] st show ?thesis by auto
qed

end
