(* ===== verification/Degeneracy_Watchdog.thy ===== *)
theory Degeneracy_Watchdog
  imports Prelude
begin

text \<open>
  The detector of degenerate output, \<open>src/homeserver/degeneracy-watchdog.ts\<close>: it watches a stream
  of text slices for a long run of one repeated character. Text is a list of UTF-16 code units.
\<close>

record DegeneracyWatchdog =
  threshold :: int
  runChar :: "nat option"
  runLen :: int
  trippedFlag :: bool

definition newWatchdog :: "js_number \<Rightarrow> DegeneracyWatchdog" where
  "newWatchdog t = \<lparr>threshold = (if isFinite t then \<lfloor>rat_of t\<rfloor> else 0), runChar = None, runLen = 0,
                    trippedFlag = False\<rparr>"

definition tripped :: "DegeneracyWatchdog \<Rightarrow> bool" where
  "tripped w = trippedFlag w"

definition runLength :: "DegeneracyWatchdog \<Rightarrow> int" where
  "runLength w = runLen w"

definition breaks_run :: "nat \<Rightarrow> bool" where
  "breaks_run c \<longleftrightarrow> c = 0x20 \<or> c = 0x09 \<or> c = 0x0A \<or> c = 0x0D \<or> c = 0x0C \<or> c = 0x0B"

text \<open>What one character does to the run.\<close>

definition runStep :: "nat \<Rightarrow> DegeneracyWatchdog \<Rightarrow> DegeneracyWatchdog" where
  "runStep c w =
     (if breaks_run c then w\<lparr>runChar := None, runLen := 0\<rparr>
      else if runChar w = Some c then w\<lparr>runLen := runLen w + 1\<rparr>
      else w\<lparr>runChar := Some c, runLen := 1\<rparr>)"

fun feedLoop :: "nat list \<Rightarrow> DegeneracyWatchdog \<Rightarrow> bool \<times> DegeneracyWatchdog" where
  "feedLoop [] w = (False, w)"
| "feedLoop (c # cs) w =
     (let w' = runStep c w
      in if \<not> breaks_run c \<and> runLen w' \<ge> threshold w' then (True, w'\<lparr>trippedFlag := True\<rparr>)
         else feedLoop cs w')"

definition feed :: "nat list \<Rightarrow> DegeneracyWatchdog \<Rightarrow> bool \<times> DegeneracyWatchdog" where
  "feed content w =
     (if threshold w \<le> 0 then (False, w) else if trippedFlag w then (True, w) else feedLoop content w)"

text \<open>A stream delivered in slices, with what the last \<open>feed\<close> returned.\<close>

fun feedAll :: "nat list list \<Rightarrow> DegeneracyWatchdog \<Rightarrow> DegeneracyWatchdog" where
  "feedAll [] w = w"
| "feedAll (s # ss) w = feedAll ss (snd (feed s w))"

section \<open>Specification\<close>

text \<open>The text contains \<open>n\<close> equal characters in a row, none of them a run breaker.\<close>

definition has_run :: "nat \<Rightarrow> nat list \<Rightarrow> bool" where
  "has_run n text' \<longleftrightarrow> (\<exists>pre c post. text' = pre @ replicate n c @ post \<and> \<not> breaks_run c)"

definition ends_run :: "nat \<Rightarrow> nat \<Rightarrow> nat list \<Rightarrow> bool" where
  "ends_run k c xs \<longleftrightarrow> (\<exists>pre. xs = pre @ replicate k c)"

lemma ends_run_0 [simp]: "ends_run 0 c xs"
  by (simp add: ends_run_def)

lemma ends_run_snoc: "ends_run (Suc k) c (xs @ [d]) \<longleftrightarrow> d = c \<and> ends_run k c xs"
proof
  assume "ends_run (Suc k) c (xs @ [d])"
  then obtain pre where "xs @ [d] = (pre @ replicate k c) @ [c]"
    by (auto simp: ends_run_def replicate_append_same)
  then show "d = c \<and> ends_run k c xs" by (auto simp: ends_run_def)
next
  assume "d = c \<and> ends_run k c xs"
  then show "ends_run (Suc k) c (xs @ [d])" by (auto simp: ends_run_def replicate_append_same)
qed

lemma has_run_snoc:
  "has_run n (xs @ [d]) \<longleftrightarrow> has_run n xs \<or> (\<exists>c. \<not> breaks_run c \<and> ends_run n c (xs @ [d]))"
proof
  assume "has_run n (xs @ [d])"
  then obtain pre c post where eq: "xs @ [d] = pre @ replicate n c @ post" and c: "\<not> breaks_run c"
    by (auto simp: has_run_def)
  show "has_run n xs \<or> (\<exists>c. \<not> breaks_run c \<and> ends_run n c (xs @ [d]))"
  proof (cases post rule: rev_cases)
    case Nil
    then show ?thesis using eq c by (auto simp: ends_run_def)
  next
    case (snoc ys y)
    then have "xs = pre @ replicate n c @ ys" using eq by simp
    then show ?thesis using c by (auto simp: has_run_def)
  qed
next
  assume "has_run n xs \<or> (\<exists>c. \<not> breaks_run c \<and> ends_run n c (xs @ [d]))"
  then show "has_run n (xs @ [d])" by (fastforce simp: has_run_def ends_run_def)
qed

text \<open>The state knows the run the text consumed so far ends with.\<close>

definition tracks :: "nat list \<Rightarrow> DegeneracyWatchdog \<Rightarrow> bool" where
  "tracks xs w \<longleftrightarrow> 0 \<le> runLen w \<and>
     (\<forall>c k. \<not> breaks_run c \<longrightarrow> (ends_run (Suc k) c xs \<longleftrightarrow> runChar w = Some c \<and> int (Suc k) \<le> runLen w))"

lemma tracks_step:
  assumes "tracks xs w"
  shows "tracks (xs @ [d]) (runStep d w)"
proof -
  have "ends_run (Suc k) c (xs @ [d]) \<longleftrightarrow>
      runChar (runStep d w) = Some c \<and> int (Suc k) \<le> runLen (runStep d w)"
    if "\<not> breaks_run c" for c k
    using assms that by (cases k) (auto simp: ends_run_snoc runStep_def tracks_def)
  then show ?thesis using assms by (auto simp: tracks_def runStep_def)
qed

lemma runStep_threshold [simp]: "threshold (runStep c w) = threshold w" "trippedFlag (runStep c w) = trippedFlag w"
  by (simp_all add: runStep_def)

lemma trips_iff:
  assumes "tracks xs w" and "0 < threshold w"
  shows "(\<exists>c. \<not> breaks_run c \<and> ends_run (nat (threshold w)) c (xs @ [d])) \<longleftrightarrow>
     \<not> breaks_run d \<and> threshold w \<le> runLen (runStep d w)"
proof -
  obtain k where k: "nat (threshold w) = Suc k" using assms(2) by (cases "nat (threshold w)") auto
  then have t: "threshold w = int (Suc k)" by simp
  have run: "ends_run (Suc k) c (xs @ [d]) \<longleftrightarrow>
      runChar (runStep d w) = Some c \<and> int (Suc k) \<le> runLen (runStep d w)" if "\<not> breaks_run c" for c
    using tracks_step [OF assms(1), of d] that by (simp add: tracks_def)
  have "(\<exists>c. \<not> breaks_run c \<and> ends_run (Suc k) c (xs @ [d])) \<longleftrightarrow>
      \<not> breaks_run d \<and> int (Suc k) \<le> runLen (runStep d w)"
  proof (cases "breaks_run d")
    case True
    then show ?thesis
      using run by (auto simp: runStep_def)
  next
    case False
    then show ?thesis
      using run [OF False] ends_run_snoc by (auto simp: runStep_def)
  qed
  then show ?thesis using k t by metis
qed

lemma has_run_append: "has_run n xs \<Longrightarrow> has_run n (xs @ ys)"
  by (fastforce simp: has_run_def)

text \<open>The state of a stream: latched exactly when the consumed text has a run.\<close>

definition watches :: "nat list \<Rightarrow> DegeneracyWatchdog \<Rightarrow> bool" where
  "watches xs w \<longleftrightarrow> (trippedFlag w \<longleftrightarrow> has_run (nat (threshold w)) xs) \<and> (\<not> trippedFlag w \<longrightarrow> tracks xs w)"

lemma feedLoop_watches:
  "tracks xs w \<Longrightarrow> \<not> trippedFlag w \<Longrightarrow> 0 < threshold w \<Longrightarrow> \<not> has_run (nat (threshold w)) xs \<Longrightarrow>
     watches (xs @ content) (snd (feedLoop content w)) \<and> fst (feedLoop content w) = trippedFlag (snd (feedLoop content w))
     \<and> threshold (snd (feedLoop content w)) = threshold w"
proof (induction content arbitrary: xs w)
  case Nil
  then show ?case by (simp add: watches_def)
next
  case (Cons d ds)
  have step: "has_run (nat (threshold w)) (xs @ [d]) \<longleftrightarrow> \<not> breaks_run d \<and> threshold w \<le> runLen (runStep d w)"
    using Cons.prems trips_iff [of xs w d] by (simp add: has_run_snoc)
  show ?case
  proof (cases "\<not> breaks_run d \<and> threshold w \<le> runLen (runStep d w)")
    case True
    then have "has_run (nat (threshold w)) (xs @ d # ds)"
      using step has_run_append [of _ "xs @ [d]" ds] by simp
    then show ?thesis using True by (simp add: watches_def Let_def)
  next
    case False
    have "watches ((xs @ [d]) @ ds) (snd (feedLoop ds (runStep d w))) \<and>
        fst (feedLoop ds (runStep d w)) = trippedFlag (snd (feedLoop ds (runStep d w))) \<and>
        threshold (snd (feedLoop ds (runStep d w))) = threshold (runStep d w)"
      using Cons.prems False step tracks_step [of xs w d] by (intro Cons.IH) simp_all
    then show ?thesis using False by (auto simp: Let_def)
  qed
qed

lemma feed_watches:
  assumes "watches xs w" and "0 < threshold w"
  shows "watches (xs @ content) (snd (feed content w)) \<and> fst (feed content w) = trippedFlag (snd (feed content w)) \<and>
         threshold (snd (feed content w)) = threshold w"
proof (cases "trippedFlag w")
  case True
  then show ?thesis using assms has_run_append by (auto simp: feed_def watches_def)
next
  case False
  then show ?thesis using assms feedLoop_watches [of xs w content] by (auto simp: feed_def watches_def)
qed

lemma feedAll_watches:
  "watches xs w \<Longrightarrow> 0 < threshold w \<Longrightarrow>
     watches (xs @ concat ss) (feedAll ss w) \<and> threshold (feedAll ss w) = threshold w"
proof (induction ss arbitrary: xs w)
  case (Cons s ss)
  then show ?case using feed_watches [of xs w s] Cons.IH [of "xs @ s" "snd (feed s w)"] by simp
qed simp

section \<open>Properties\<close>

text \<open>
  C36: the watchdog detects exactly the degenerate texts, however the stream is cut into slices: it
  has tripped after the slices \<open>ss\<close> if and only if their concatenation contains \<open>\<lfloor>t\<rfloor>\<close> equal
  characters in a row that are no white space; and the next \<open>feed\<close> returns that verdict for the
  text extended by its slice. A threshold below one disables it.
\<close>
theorem watchdog_exact:
  "tripped (feedAll ss (newWatchdog (Fin t))) = (1 \<le> t \<and> has_run (nat \<lfloor>t\<rfloor>) (concat ss)) \<and>
   fst (feed s (feedAll ss (newWatchdog (Fin t)))) = (1 \<le> t \<and> has_run (nat \<lfloor>t\<rfloor>) (concat (ss @ [s])))"
proof (cases "1 \<le> t")
  case True
  let ?w = "newWatchdog (Fin t)"
  have pos: "0 < threshold ?w" using True by (simp add: newWatchdog_def rat_of_def)
  have "nat \<lfloor>t\<rfloor> \<noteq> 0" using True by simp
  then have "watches [] ?w"
    by (auto simp: watches_def newWatchdog_def rat_of_def has_run_def tracks_def ends_run_def)
  from feedAll_watches [OF this pos, of ss]
  have w: "watches (concat ss) (feedAll ss ?w)" "threshold (feedAll ss ?w) = \<lfloor>t\<rfloor>"
    by (simp_all add: newWatchdog_def rat_of_def)
  with feed_watches [OF w(1), of s] True show ?thesis
    by (simp add: watches_def tripped_def)
next
  case False
  then have neg: "\<lfloor>t\<rfloor> \<le> 0" by simp
  have "threshold (feedAll ss w) = threshold w \<and> trippedFlag (feedAll ss w) = trippedFlag w"
    if "threshold w \<le> 0" for w
    using that by (induction ss arbitrary: w) (auto simp: feed_def)
  then show ?thesis using False neg by (simp add: tripped_def feed_def newWatchdog_def rat_of_def)
qed

end
