(* ===== verification/Routing_Diff.thy ===== *)
theory Routing_Diff
  imports JS_Strings
begin

text \<open>
  Reading the routing table (\<open>src/homeserver/routing-table.ts\<close>) and noticing a regression between
  two of them (\<open>src/homeserver/routing-table-diff.ts\<close>). A table's \<open>routing\<close> object is the list of
  its own properties; reading a property that is not its own finds what every object inherits from
  \<open>Object.prototype\<close>, which is an object without any of the fields of an entry. The printed
  report is not modelled.
\<close>

section \<open>Routes\<close>

record RoutingEntry =
  model :: "string option"
  verdict :: "string option"
  attempts :: "int option"

record RoutingTable =
  routing :: "(string \<times> RoutingEntry) list"
  escalateToFrontier :: "string list"

definition FRONTIER :: string where
  "FRONTIER = ''FRONTIER''"

definition UNKNOWN_ROUTE :: string where
  "UNKNOWN_ROUTE = ''UNKNOWN''"

text \<open>\<open>None\<close> stands for a table whose read was refused by \<open>ConstitutionalRouteBlockedError\<close>.\<close>

definition routingTarget :: "string \<Rightarrow> RoutingTable option \<Rightarrow> string" where
  "routingTarget taskType table =
     (case table of
        None \<Rightarrow> FRONTIER
      | Some t \<Rightarrow>
          if taskType \<in> set (escalateToFrontier t) then FRONTIER
          else case map_of (routing t) taskType of
                 None \<Rightarrow> UNKNOWN_ROUTE
               | Some entry \<Rightarrow>
                   (case model entry of
                      None \<Rightarrow> FRONTIER
                    | Some m \<Rightarrow> if js_trim m = [] \<or> verdict entry = Some ''escalate-frontier''
                                 then FRONTIER else m))"

section \<open>The diff\<close>

definition verdictRank :: "string option \<Rightarrow> string option \<Rightarrow> nat" where
  "verdictRank m v =
     (case m of None \<Rightarrow> 0
      | Some s \<Rightarrow> if js_trim s = [] then 0
                   else if v = Some ''delegate-local'' then 2
                   else if v = Some ''escalate-frontier'' then 0 else 1)"

record RouteSnapshot =
  rs_model :: "string option"
  rs_verdict :: string
  rs_attempts :: "int option"

definition snapshotRoute :: "RoutingEntry \<Rightarrow> RouteSnapshot" where
  "snapshotRoute entry = \<lparr>rs_model = model entry, rs_verdict = (case verdict entry of None \<Rightarrow> [] | Some v \<Rightarrow> v),
                     rs_attempts = attempts entry\<rparr>"

datatype RouteChangeKind = Upgrade | Downgrade | ModelChange | Added | Removed | Unchanged

record RouteChange =
  rc_taskType :: string
  rc_kind :: RouteChangeKind
  rc_before :: "RouteSnapshot option"
  rc_after :: "RouteSnapshot option"
  rc_evidenceMissing :: bool

record RoutingTableDiff =
  changes :: "RouteChange list"
  downgrades :: "RouteChange list"
  missingEvidence :: "RouteChange list"

definition inherited :: "string list" where
  "inherited = [''constructor'', ''__defineGetter__'', ''__defineSetter__'', ''hasOwnProperty'',
     ''__lookupGetter__'', ''__lookupSetter__'', ''isPrototypeOf'', ''propertyIsEnumerable'', ''toString'',
     ''valueOf'', ''__proto__'', ''toLocaleString'']"

definition emptyEntry :: RoutingEntry where
  "emptyEntry = \<lparr>model = None, verdict = None, attempts = None\<rparr>"

definition propOf :: "(string \<times> RoutingEntry) list \<Rightarrow> string \<Rightarrow> RoutingEntry option" where
  "propOf obj key = (case map_of obj key of Some e \<Rightarrow> Some e
     | None \<Rightarrow> if key \<in> set inherited then Some emptyEntry else None)"

definition rankOf :: "RoutingEntry option \<Rightarrow> nat option" where
  "rankOf e = map_option (\<lambda>x. verdictRank (model x) (verdict x)) e"

definition changeKind :: "RoutingEntry option \<Rightarrow> RoutingEntry option \<Rightarrow> RouteChangeKind" where
  "changeKind before after =
     (case rankOf before of
        None \<Rightarrow> Added
      | Some b \<Rightarrow>
          (case rankOf after of
             None \<Rightarrow> Removed
           | Some a \<Rightarrow> if a > b then Upgrade else if a < b then Downgrade
                        else if Option.bind before model \<noteq> Option.bind after model then ModelChange
                        else Unchanged))"

definition evidenceShrank :: "RoutingEntry option \<Rightarrow> RoutingEntry option \<Rightarrow> bool" where
  "evidenceShrank before after =
     (let afterAttempts = (case Option.bind after attempts of None \<Rightarrow> 0 | Some n \<Rightarrow> n)
      in afterAttempts = 0 \<or>
         (rankOf after = Some 0 \<and>
          (case Option.bind before attempts of None \<Rightarrow> False | Some n \<Rightarrow> afterAttempts < n)))"

definition evidenceMissing :: "RoutingEntry option \<Rightarrow> RoutingEntry option \<Rightarrow> bool" where
  "evidenceMissing before after =
     (let hadCapability = (case rankOf before of None \<Rightarrow> 0 | Some b \<Rightarrow> b) > 0; kind = changeKind before after
      in (kind = Removed \<and> hadCapability) \<or> (kind = Downgrade \<and> hadCapability \<and> evidenceShrank before after))"

definition routeChange ::
  "(string \<times> RoutingEntry) list \<Rightarrow> (string \<times> RoutingEntry) list \<Rightarrow> string \<Rightarrow> RouteChange" where
  "routeChange cur nxt taskType =
     (let before = propOf cur taskType; after = propOf nxt taskType
      in \<lparr>rc_taskType = taskType, rc_kind = changeKind before after, rc_before = map_option snapshotRoute before,
          rc_after = map_option snapshotRoute after, rc_evidenceMissing = evidenceMissing before after\<rparr>)"

definition diffTypes :: "(string \<times> RoutingEntry) list \<Rightarrow> (string \<times> RoutingEntry) list \<Rightarrow> string list" where
  "diffTypes cur nxt = sort (remdups (map fst cur @ map fst nxt))"

definition isDowngrade :: "RouteChange \<Rightarrow> bool" where
  "isDowngrade c \<longleftrightarrow> rc_kind c = Downgrade \<or>
     (rc_kind c = Removed \<and>
      (case rc_before c of None \<Rightarrow> 0 | Some s \<Rightarrow> verdictRank (rs_model s) (Some (rs_verdict s))) > 0)"

definition diffRoutingTables ::
  "(string \<times> RoutingEntry) list option \<Rightarrow> (string \<times> RoutingEntry) list option \<Rightarrow> RoutingTableDiff" where
  "diffRoutingTables current next =
     (let cur = (case current of None \<Rightarrow> [] | Some r \<Rightarrow> r);
          nxt = (case next of None \<Rightarrow> [] | Some r \<Rightarrow> r);
          cs = map (routeChange cur nxt) (diffTypes cur nxt);
          ds = filter isDowngrade cs
      in \<lparr>changes = cs, downgrades = ds, missingEvidence = filter rc_evidenceMissing ds\<rparr>)"

section \<open>Properties\<close>

text \<open>The capability a table grants a task type: nothing when it does not mention it.\<close>

definition capability :: "(string \<times> RoutingEntry) list \<Rightarrow> string \<Rightarrow> nat" where
  "capability tbl t = (case map_of tbl t of None \<Rightarrow> 0 | Some e \<Rightarrow> verdictRank (model e) (verdict e))"

lemma rank_snapshot: "verdictRank (rs_model (snapshotRoute e)) (Some (rs_verdict (snapshotRoute e))) = verdictRank (model e) (verdict e)"
  by (auto simp: verdictRank_def snapshotRoute_def split: option.split)

lemma capability_propOf: "capability tbl t = (case rankOf (propOf tbl t) of None \<Rightarrow> 0 | Some r \<Rightarrow> r)"
  by (auto simp: capability_def propOf_def rankOf_def emptyEntry_def verdictRank_def split: option.split)

lemma isDowngrade_iff: "isDowngrade (routeChange cur nxt t) \<longleftrightarrow> capability nxt t < capability cur t"
  by (cases "propOf cur t"; cases "propOf nxt t")
    (auto simp: isDowngrade_def routeChange_def changeKind_def capability_propOf rankOf_def rank_snapshot Let_def split: if_splits)

lemma capability_pos: "0 < capability tbl t \<Longrightarrow> t \<in> set (map fst tbl)"
  by (auto simp: capability_def dest: map_of_SomeD split: option.splits) (force dest: map_of_SomeD)

text \<open>
  No silent regression. The alarm set of the diff is exact: it names a task type if and only if
  its capability rank dropped, an absent type counting as rank zero; every type of either table is
  reported once, in order; and the alarms put down to missing evidence are among the alarms, with
  all types that vanished from the table although they had a route.
\<close>
lemma routing_diff_alarms:
  "(t \<in> rc_taskType ` set (downgrades (diffRoutingTables (Some cur) (Some nxt))) \<longleftrightarrow>
      capability nxt t < capability cur t) \<and>
   map rc_taskType (changes (diffRoutingTables (Some cur) (Some nxt))) = diffTypes cur nxt \<and>
   distinct (diffTypes cur nxt) \<and> sorted (diffTypes cur nxt) \<and>
   set (missingEvidence (diffRoutingTables (Some cur) (Some nxt))) \<subseteq>
     set (downgrades (diffRoutingTables (Some cur) (Some nxt))) \<and>
   (propOf nxt t = None \<and> 0 < capability cur t \<longrightarrow>
      t \<in> rc_taskType ` set (missingEvidence (diffRoutingTables (Some cur) (Some nxt))))"
proof -
  let ?d = "diffRoutingTables (Some cur) (Some nxt)"
  have down: "set (downgrades ?d) = routeChange cur nxt ` {t \<in> set (diffTypes cur nxt). capability nxt t < capability cur t}"
    by (auto simp: diffRoutingTables_def Let_def isDowngrade_iff)
  have types: "set (diffTypes cur nxt) = set (map fst cur) \<union> set (map fst nxt)"
    by (auto simp: diffTypes_def)
  have name: "rc_taskType (routeChange cur nxt u) = u" for u by (simp add: routeChange_def Let_def)
  have alarm: "t \<in> rc_taskType ` set (downgrades ?d) \<longleftrightarrow> capability nxt t < capability cur t"
    using capability_pos [of cur t] types by (auto simp: down name image_image)
  have missing: "t \<in> rc_taskType ` set (missingEvidence ?d)" if gone: "propOf nxt t = None" "0 < capability cur t"
  proof -
    have "capability nxt t < capability cur t" using gone by (simp add: capability_propOf rankOf_def)
    then have "routeChange cur nxt t \<in> set (downgrades ?d)"
      using capability_pos [OF gone(2)] types by (auto simp: down)
    moreover have "rc_evidenceMissing (routeChange cur nxt t)"
      using gone by (auto simp: routeChange_def evidenceMissing_def changeKind_def capability_propOf rankOf_def
          Let_def split: option.splits)
    ultimately have "routeChange cur nxt t \<in> set (missingEvidence ?d)"
      by (auto simp: diffRoutingTables_def Let_def)
    then show ?thesis by (metis name image_eqI)
  qed
  have "map rc_taskType (changes ?d) = diffTypes cur nxt"
    by (simp add: diffRoutingTables_def Let_def comp_def name)
  moreover have "distinct (diffTypes cur nxt)" "sorted (diffTypes cur nxt)" by (simp_all add: diffTypes_def)
  moreover have "set (missingEvidence ?d) \<subseteq> set (downgrades ?d)" by (auto simp: diffRoutingTables_def Let_def)
  ultimately show ?thesis using alarm missing by blast
qed

text \<open>
  Routing fails safe and agrees with the diff's ranking: a refused table and a type listed for
  escalation go to the frontier, so does every entry of rank zero, and an entry of positive rank
  goes to the model it names, which is not blank.
\<close>
lemma routing_target_safe:
  "routingTarget t None = FRONTIER \<and>
   (t \<in> set (escalateToFrontier tbl) \<longrightarrow> routingTarget t (Some tbl) = FRONTIER) \<and>
   (t \<notin> set (escalateToFrontier tbl) \<longrightarrow>
      (case map_of (routing tbl) t of
         None \<Rightarrow> routingTarget t (Some tbl) = UNKNOWN_ROUTE
       | Some e \<Rightarrow> if capability (routing tbl) t = 0 then routingTarget t (Some tbl) = FRONTIER
                    else model e = Some (routingTarget t (Some tbl)) \<and> js_trim (routingTarget t (Some tbl)) \<noteq> []))"
  by (auto simp: routingTarget_def capability_def verdictRank_def split: option.split if_splits)

section \<open>Witnesses\<close>

definition wEntry :: RoutingEntry where
  "wEntry = \<lparr>model = Some ''mellum'', verdict = Some ''delegate-local'', attempts = Some 4\<rparr>"

lemma routing_diff_alarms_witness:
  "''sql'' \<in> rc_taskType ` set (missingEvidence (diffRoutingTables (Some [(''sql'', wEntry)]) (Some [])))"
proof -
  have "propOf [] ''sql'' = None" by (simp add: propOf_def inherited_def)
  moreover have "0 < capability [(''sql'', wEntry)] ''sql''"
    by (simp add: capability_def verdictRank_def wEntry_def js_trim_def is_space_def)
  ultimately show ?thesis using routing_diff_alarms [of "''sql''" "[(''sql'', wEntry)]" "[]"] by blast
qed

lemma routing_target_safe_witness:
  "routingTarget ''sql'' (Some \<lparr>routing = [(''sql'', wEntry)], escalateToFrontier = [''sql'']\<rparr>) = FRONTIER"
  using routing_target_safe [of "''sql''" "\<lparr>routing = [(''sql'', wEntry)], escalateToFrontier = [''sql'']\<rparr>"] by simp

end
