(* ===== verification/Delegate_Policy.thy ===== *)
theory Delegate_Policy
  imports JS_Strings
begin

text \<open>
  The production delegation gate: how verifier labels are read
  (\<open>src/homeserver/verifier-classification.ts\<close>), which spellings of a task type are the same type
  (\<open>task-type-identity.ts\<close>), and the decision to allow, shadow or deny a local delegation
  (\<open>delegate-policy.ts\<close>), with the ids of the taxonomy (\<open>taxonomy.ts\<close>). The ledger's evidence
  read is an argument. Reasons are values instead of sentences.
\<close>

section \<open>Verifier labels\<close>

definition STRUCTURAL_VERIFIERS :: "string list" where
  "STRUCTURAL_VERIFIERS = [''nonEmpty'', ''jsonValid'', ''maxLength'']"

definition UNGRADED_VERIFIER_SENTINELS :: "string list" where
  "UNGRADED_VERIFIER_SENTINELS = [''none'']"

definition MECHANICAL_FORMAT_VERIFIERS :: "string list" where
  "MECHANICAL_FORMAT_VERIFIERS =
     [''nonEmpty'', ''jsonValid'', ''maxLength'', ''matches'', ''containsAll'', ''containsNone'', ''exact'',
      ''answerIs'', ''numeric'', ''shadow-vs-frontier'']"

definition verifierBaseName :: "string \<Rightarrow> string" where
  "verifierBaseName name = js_trim (before_char CHR ''('' name)"

definition canonicalVerifierBase :: "string \<Rightarrow> string" where
  "canonicalVerifierBase name = to_lower (verifierBaseName name)"

datatype VerifierSyntaxError = UnmatchedClosing | Unclosed

record ParsedVerifierLabel =
  components :: "string list"
  valid :: bool
  syntaxError :: "VerifierSyntaxError option"

definition appendComponent :: "string \<Rightarrow> string list \<Rightarrow> string list" where
  "appendComponent part comps =
     (let base = canonicalVerifierBase part
      in if length base > 0 \<and> base \<notin> set (map to_lower UNGRADED_VERIFIER_SENTINELS)
         then comps @ [base] else comps)"

text \<open>The loop over the label: \<open>part\<close> is \<open>name.slice(componentStart, index)\<close>.\<close>

fun parseLoop :: "string \<Rightarrow> string \<Rightarrow> nat \<Rightarrow> string list \<Rightarrow> ParsedVerifierLabel" where
  "parseLoop [] part depth comps =
     (if depth \<noteq> 0 then \<lparr>components = [], valid = False, syntaxError = Some Unclosed\<rparr>
      else \<lparr>components = appendComponent part comps, valid = True, syntaxError = None\<rparr>)"
| "parseLoop (ch # rest) part depth comps =
     (if ch = CHR ''('' then parseLoop rest (part @ [ch]) (depth + 1) comps
      else if ch = CHR '')''
      then (if depth = 0 then \<lparr>components = [], valid = False, syntaxError = Some UnmatchedClosing\<rparr>
            else parseLoop rest (part @ [ch]) (depth - 1) comps)
      else if ch = CHR ''+'' \<and> depth = 0 then parseLoop rest [] 0 (appendComponent part comps)
      else parseLoop rest (part @ [ch]) depth comps)"

definition parseVerifierLabel :: "string option \<Rightarrow> ParsedVerifierLabel" where
  "parseVerifierLabel name =
     (case name of None \<Rightarrow> \<lparr>components = [], valid = True, syntaxError = None\<rparr>
      | Some s \<Rightarrow> parseLoop s [] 0 [])"

definition parseVerifierComponents :: "string option \<Rightarrow> string list" where
  "parseVerifierComponents name = components (parseVerifierLabel name)"

definition structuralKey :: "string \<Rightarrow> bool" where
  "structuralKey base \<longleftrightarrow> base \<in> set (map to_lower STRUCTURAL_VERIFIERS)"

definition isStructuralVerifier :: "string option \<Rightarrow> bool" where
  "isStructuralVerifier name =
     (let p = parseVerifierLabel name
      in valid p \<and> components p \<noteq> [] \<and> list_all structuralKey (components p))"

definition isQualityBearingVerifier :: "string option \<Rightarrow> bool" where
  "isQualityBearingVerifier name =
     (let p = parseVerifierLabel name in valid p \<and> list_ex (\<lambda>b. \<not> structuralKey b) (components p))"

definition trustedComponents :: "string list \<Rightarrow> string list" where
  "trustedComponents trusted =
     concat (map (\<lambda>t. let p = parseVerifierLabel (Some t) in if valid p then components p else []) trusted)"

definition isTrustedJudgmentVerifier :: "string option \<Rightarrow> string list \<Rightarrow> bool" where
  "isTrustedJudgmentVerifier name trusted =
     (let p = parseVerifierLabel name
      in if \<not> valid p \<or> components p = [] then False
         else list_ex (\<lambda>b. b \<in> set (trustedComponents trusted)) (components p))"

datatype VerifierKind = MechanicalFormat | TruthOriented | Ungraded

definition classifyVerifierComponentKind :: "string \<Rightarrow> VerifierKind" where
  "classifyVerifierComponentKind base =
     (if base \<in> set (map to_lower MECHANICAL_FORMAT_VERIFIERS) then MechanicalFormat else TruthOriented)"

definition classifyVerifierKind :: "string option \<Rightarrow> VerifierKind" where
  "classifyVerifierKind name =
     (let p = parseVerifierLabel name
      in if \<not> valid p \<or> components p = [] then Ungraded
         else if list_ex (\<lambda>b. classifyVerifierComponentKind b = TruthOriented) (components p)
         then TruthOriented else MechanicalFormat)"

text \<open>\<open>normalizedVerifierName\<close> of the ledger.\<close>

definition normalizedVerifierName :: "string option \<Rightarrow> string option" where
  "normalizedVerifierName name =
     (case name of None \<Rightarrow> None
      | Some s \<Rightarrow> let t = js_trim s
                   in if t = [] \<or> classifyVerifierKind (Some t) = Ungraded then None else Some t)"

section \<open>Task-type identity\<close>

definition normalizeTaskType :: "string \<Rightarrow> string" where
  "normalizeTaskType raw = to_lower (js_trim raw)"

definition ingressTaskType :: "string \<Rightarrow> string" where
  "ingressTaskType raw = js_trim raw"

definition isPromotedAdvisoryTaskType :: "string \<Rightarrow> string list \<Rightarrow> bool" where
  "isPromotedAdvisoryTaskType taskType promoted =
     list_ex (\<lambda>p. normalizeTaskType p = normalizeTaskType taskType) promoted"

definition policyTaskTypeIdentity :: "string \<Rightarrow> (string \<Rightarrow> bool) \<Rightarrow> string" where
  "policyTaskTypeIdentity taskType isKnown =
     (let canonical = normalizeTaskType taskType
      in if isKnown canonical then canonical else ingressTaskType taskType)"

text \<open>The ids of \<open>TASK_TYPES\<close>, in the order of the table.\<close>

definition TASK_TYPE_IDS :: "string list" where
  "TASK_TYPE_IDS =
     [''draft'', ''code-implement'', ''code-edit'', ''code-review'', ''review-bounded'', ''unit-test-gen'',
      ''summarize'', ''extract'', ''classify'', ''data-transform'', ''regex'', ''sql'', ''reason-math'',
      ''reason-hard'', ''rewrite'', ''translate'', ''plan-decompose'', ''qa-factual'', ''triage'',
      ''memory-decision'', ''research-plan'', ''source-distill'', ''claim-verify'', ''gap-check'',
      ''synthesis'', ''conversation'', ''other'']"

definition isKnownTaskType :: "string \<Rightarrow> bool" where
  "isKnownTaskType i \<longleftrightarrow> i \<in> set TASK_TYPE_IDS"

section \<open>The gate\<close>

datatype PolicyMode = ModeOff | ModeShadow | ModeEnforce

datatype DelegatePolicyAction = ActAllow | ActShadow | ActDeny

datatype PolicyReason =
    PolicyOff
  | LearningSource "string option"
  | TooBroad string
  | NoVerifier
  | UntrustedJudgment string
  | InsufficientEvidence int int
  | LowSuccess rat rat
  | HighError rat rat
  | NoLatency
  | SlowLane rat rat
  | AdvisoryOnly string
  | Certified

record LaneEvidence =
  le_taskType :: string
  le_modelId :: string
  le_verifier :: "string option"
  attempts :: int
  passes :: int
  partials :: int
  fails :: int
  errors :: int
  successRate :: rat
  errorRate :: rat
  p50LatencyMs :: "rat option"
  p90LatencyMs :: "rat option"
  latestTs :: "string option"
  sources :: "string \<rightharpoonup> int"

record DelegatePolicyConfig =
  mode :: PolicyMode
  minSamples :: int
  minSuccessRate :: rat
  lowRiskSuccessRate :: rat
  maxErrorRate :: rat
  maxP90LatencyMs :: rat
  promotedAdvisoryTaskTypes :: "string list"

record PolicyConfig =
  judgmentQualityTaskTypes :: "string list option"
  trustedVerifiersForJudgment :: "string list option"

record DelegatePolicyInput =
  in_taskType :: string
  in_modelId :: string
  in_nodeId :: "string option"
  in_verifierName :: "string option"
  hasVerifier :: bool
  in_source :: "string option"
  policy :: PolicyConfig
  delegatePolicy :: DelegatePolicyConfig

record DelegatePolicyDecision =
  action :: DelegatePolicyAction
  reason :: PolicyReason
  d_mode :: PolicyMode
  d_evidence :: LaneEvidence
  requiredSuccessRate :: rat
  productionSource :: bool

definition DEFAULT_JUDGMENT_QUALITY_TASK_TYPES :: "string list" where
  "DEFAULT_JUDGMENT_QUALITY_TASK_TYPES = [''code-review'']"

definition BROAD_TASK_TYPES :: "string list" where
  "BROAD_TASK_TYPES = [''other'', ''unknown'']"

definition LOW_RISK_TASK_TYPES :: "string list" where
  "LOW_RISK_TASK_TYPES = [''rewrite'', ''summarize'', ''translate'']"

definition ADVISORY_ONLY_TASK_TYPES :: "string list" where
  "ADVISORY_ONLY_TASK_TYPES = [''review-bounded'']"

definition isAdvisoryOnlyTaskType :: "string \<Rightarrow> bool" where
  "isAdvisoryOnlyTaskType taskType \<longleftrightarrow> normalizeTaskType taskType \<in> set ADVISORY_ONLY_TASK_TYPES"

definition LEARNING_SOURCE_PREFIXES :: "string list" where
  "LEARNING_SOURCE_PREFIXES =
     [''probe'', ''cartography'', ''harvest'', ''backfill'', ''model-evaluation'', ''model-scout'', ''gate-'']"

definition LEARNING_SOURCES :: "string list" where
  "LEARNING_SOURCES = [''extra-probes'', ''probe-import'', ''m5-cartography'']"

definition normalizeVerifierName :: "string option \<Rightarrow> string option" where
  "normalizeVerifierName name =
     (case normalizedVerifierName name of None \<Rightarrow> None
      | Some s \<Rightarrow> let cs = parseVerifierComponents (Some s)
                   in if cs = [] \<or> list_all (\<lambda>b. b = ''custom'') cs then None else Some s)"

definition emptyEvidence :: "string \<Rightarrow> string \<Rightarrow> string option \<Rightarrow> LaneEvidence" where
  "emptyEvidence taskType modelId verifierName =
     \<lparr>le_taskType = taskType, le_modelId = modelId, le_verifier = normalizeVerifierName verifierName,
      attempts = 0, passes = 0, partials = 0, fails = 0, errors = 0, successRate = 0, errorRate = 0,
      p50LatencyMs = None, p90LatencyMs = None, latestTs = None, sources = Map.empty\<rparr>"

definition isLearningSource :: "string option \<Rightarrow> bool" where
  "isLearningSource source =
     (case source of None \<Rightarrow> False
      | Some s \<Rightarrow> s \<noteq> [] \<and> (s \<in> set LEARNING_SOURCES \<or> list_ex (\<lambda>p. starts_with p s) LEARNING_SOURCE_PREFIXES))"

definition requiredSuccessRateForTask :: "string \<Rightarrow> DelegatePolicyConfig \<Rightarrow> rat" where
  "requiredSuccessRateForTask taskType cfg =
     (if taskType \<in> set LOW_RISK_TASK_TYPES then lowRiskSuccessRate cfg else minSuccessRate cfg)"

definition judgmentTypes :: "PolicyConfig \<Rightarrow> string list" where
  "judgmentTypes p = (case judgmentQualityTaskTypes p of
     None \<Rightarrow> DEFAULT_JUDGMENT_QUALITY_TASK_TYPES | Some ts \<Rightarrow> ts)"

definition decideDelegatePolicy ::
  "DelegatePolicyInput \<Rightarrow> LaneEvidence \<Rightarrow> DelegatePolicyDecision" where
  "decideDelegatePolicy input evidence =
     (let cfg = delegatePolicy input;
          verifierName = normalizeVerifierName (in_verifierName input);
          policyTaskType = policyTaskTypeIdentity (in_taskType input) isKnownTaskType;
          required = requiredSuccessRateForTask policyTaskType cfg;
          production = \<not> isLearningSource (in_source input);
          decide = (\<lambda>act why. \<lparr>action = act, reason = why, d_mode = mode cfg, d_evidence = evidence,
                     requiredSuccessRate = required, productionSource = production\<rparr>);
          trusted = (case trustedVerifiersForJudgment (policy input) of None \<Rightarrow> [] | Some ts \<Rightarrow> ts)
      in if mode cfg = ModeOff then decide ActAllow PolicyOff
         else if \<not> production then decide ActAllow (LearningSource (in_source input))
         else if policyTaskType \<in> set BROAD_TASK_TYPES then decide ActDeny (TooBroad (in_taskType input))
         else if \<not> hasVerifier input \<or> verifierName = None then decide ActShadow NoVerifier
         else if policyTaskType \<in> set (judgmentTypes (policy input)) \<and>
                 \<not> isTrustedJudgmentVerifier verifierName trusted
         then decide ActDeny (UntrustedJudgment (in_taskType input))
         else if attempts evidence < minSamples cfg
         then decide ActShadow (InsufficientEvidence (attempts evidence) (minSamples cfg))
         else if successRate evidence < required then decide ActDeny (LowSuccess (successRate evidence) required)
         else if errorRate evidence > maxErrorRate cfg
         then decide ActDeny (HighError (errorRate evidence) (maxErrorRate cfg))
         else (case p90LatencyMs evidence of
                 None \<Rightarrow> decide ActShadow NoLatency
               | Some p90 \<Rightarrow>
                   if p90 > maxP90LatencyMs cfg then decide ActDeny (SlowLane p90 (maxP90LatencyMs cfg))
                   else if isAdvisoryOnlyTaskType (in_taskType input) \<and>
                           \<not> isPromotedAdvisoryTaskType (in_taskType input) (promotedAdvisoryTaskTypes cfg)
                   then decide ActShadow (AdvisoryOnly (in_taskType input))
                   else decide ActAllow Certified))"

definition evaluateDelegatePolicy ::
  "(string \<Rightarrow> string \<Rightarrow> string option \<Rightarrow> PolicyConfig \<Rightarrow> string \<Rightarrow> LaneEvidence)
     \<Rightarrow> DelegatePolicyInput \<Rightarrow> DelegatePolicyDecision" where
  "evaluateDelegatePolicy getLaneEvidence input =
     (let verifierName = normalizeVerifierName (in_verifierName input);
          policyTaskType = policyTaskTypeIdentity (in_taskType input) isKnownTaskType;
          evidence = (if mode (delegatePolicy input) = ModeOff \<or> isLearningSource (in_source input)
                      then emptyEvidence policyTaskType (in_modelId input) verifierName
                      else getLaneEvidence policyTaskType (in_modelId input) verifierName (policy input)
                             (case in_nodeId input of None \<Rightarrow> ''m5'' | Some n \<Rightarrow> n))
      in decideDelegatePolicy input evidence)"

section \<open>Facts on labels\<close>

text \<open>A component: its parentheses match and no plus stands outside of them.\<close>

fun component_ok :: "string \<Rightarrow> nat \<Rightarrow> bool" where
  "component_ok [] depth = (depth = 0)"
| "component_ok (ch # rest) depth =
     (if ch = CHR ''('' then component_ok rest (depth + 1)
      else if ch = CHR '')'' then depth \<noteq> 0 \<and> component_ok rest (depth - 1)
      else if ch = CHR ''+'' then depth \<noteq> 0 \<and> component_ok rest depth
      else component_ok rest depth)"

fun join_plus :: "string list \<Rightarrow> string" where
  "join_plus [] = []"
| "join_plus [c] = c"
| "join_plus (c # cs) = c @ CHR ''+'' # join_plus cs"

lemma parseLoop_component:
  "component_ok s depth \<Longrightarrow> parseLoop (s @ rest) part depth comps = parseLoop rest (part @ s) 0 comps"
  by (induction s depth arbitrary: part rule: component_ok.induct) (auto split: if_splits)

lemma parseLoop_join:
  "cs \<noteq> [] \<Longrightarrow> \<forall>c \<in> set cs. component_ok c 0 \<Longrightarrow>
     parseLoop (join_plus cs) [] 0 comps =
       \<lparr>components = fold appendComponent cs comps, valid = True, syntaxError = None\<rparr>"
proof (induction cs arbitrary: comps rule: join_plus.induct)
  case (2 c)
  then show ?case using parseLoop_component [of c 0 "[]" "[]"] by simp
next
  case (3 c d ds)
  then show ?case by (simp add: parseLoop_component)
qed simp

lemma appendComponent_filter:
  "fold appendComponent cs comps =
     comps @ filter (\<lambda>b. b \<noteq> [] \<and> b \<noteq> ''none'') (map canonicalVerifierBase cs)"
  by (induction cs arbitrary: comps)
    (auto simp: appendComponent_def Let_def UNGRADED_VERIFIER_SENTINELS_def to_lower_def lower_char_def)

lemma parseLoop_invalid: "\<not> valid (parseLoop s part depth comps) \<Longrightarrow> components (parseLoop s part depth comps) = []"
  by (induction s part depth comps rule: parseLoop.induct) (auto split: if_splits)

lemma policyTaskTypeIdentity_cong:
  assumes "normalizeTaskType t = normalizeTaskType t'" and "isKnownTaskType (normalizeTaskType t)"
  shows "policyTaskTypeIdentity t isKnownTaskType = policyTaskTypeIdentity t' isKnownTaskType"
  using assms by (simp add: policyTaskTypeIdentity_def)

lemma decide_evidence [simp]: "d_evidence (decideDelegatePolicy input ev) = ev"
  by (simp add: decideDelegatePolicy_def Let_def split: option.split)

text \<open>The action depends on the task type only through its policy identity and its normal form.\<close>

lemma decide_action_cong:
  assumes "policyTaskTypeIdentity t isKnownTaskType = policyTaskTypeIdentity t' isKnownTaskType"
    and "normalizeTaskType t = normalizeTaskType t'"
  shows "action (decideDelegatePolicy (input\<lparr>in_taskType := t\<rparr>) ev) =
         action (decideDelegatePolicy (input\<lparr>in_taskType := t'\<rparr>) ev)"
proof -
  have "isAdvisoryOnlyTaskType t = isAdvisoryOnlyTaskType t'"
    and "isPromotedAdvisoryTaskType t ps = isPromotedAdvisoryTaskType t' ps" for ps
    using assms(2) by (simp_all add: isAdvisoryOnlyTaskType_def isPromotedAdvisoryTaskType_def)
  then show ?thesis using assms(1)
    by (simp add: decideDelegatePolicy_def Let_def if_distrib [of action] option.case_distrib [of action]
        cong: if_cong option.case_cong)
qed

section \<open>Properties\<close>

text \<open>
  Reading a label back from its components: joining any components (each with matching
  parentheses and no plus outside them) with plus signs and parsing the label gives their
  canonical bases, the empty and ungraded ones dropped; a plus inside parentheses never splits.
\<close>
lemma verifier_label_components:
  assumes "cs \<noteq> []" and "\<forall>c \<in> set cs. component_ok c 0"
  shows "parseVerifierLabel (Some (join_plus cs)) =
    \<lparr>components = filter (\<lambda>b. b \<noteq> [] \<and> b \<noteq> ''none'') (map canonicalVerifierBase cs), valid = True,
     syntaxError = None\<rparr>"
  using parseLoop_join [OF assms, of "[]"] by (simp add: parseVerifierLabel_def appendComponent_filter)

text \<open>
  The names a label carries, without the scanner: the label is a list of components joined by plus signs, each with
  matching parentheses and no plus outside them; the name of a component is what stands before its first
  parenthesis, trimmed and in lower case, unless that is empty or \<open>none\<close>. A label that is no such list has no names.
\<close>

definition labelNames :: "string \<Rightarrow> string set" where
  "labelNames label = {b. \<exists>cs. cs \<noteq> [] \<and> (\<forall>c \<in> set cs. component_ok c 0) \<and> label = join_plus cs
     \<and> b \<in> canonicalVerifierBase ` set cs \<and> b \<notin> {'''', ''none''}}"

lemma join_plus_prefix: "join_plus ((x @ c) # cs) = x @ join_plus (c # cs)"
  by (cases cs) simp_all

lemma parseLoop_valid:
  "valid (parseLoop s part depth comps) \<Longrightarrow>
     \<exists>c cs. s = join_plus (c # cs) \<and> component_ok c depth \<and> (\<forall>d \<in> set cs. component_ok d 0)"
proof (induction s part depth comps rule: parseLoop.induct)
  case (1 part depth comps)
  then show ?case by (auto split: if_splits intro!: exI [of _ "[]"])
next
  case (2 ch rest part depth comps)
  show ?case
  proof (cases "ch = CHR ''+'' \<and> depth = 0")
    case True
    then obtain c cs where "rest = join_plus (c # cs)" "component_ok c 0" "\<forall>d \<in> set cs. component_ok d 0"
      using 2 by auto
    then show ?thesis using True by (intro exI [of _ "[]"] exI [of _ "c # cs"]) simp
  next
    case False
    then obtain c cs where c: "rest = join_plus (c # cs)" "component_ok (ch # c) depth" "\<forall>d \<in> set cs. component_ok d 0"
      using 2 by (auto split: if_splits)
    then show ?thesis using join_plus_prefix [of "[ch]" c cs] by (intro exI [of _ "ch # c"] exI [of _ cs]) simp
  qed
qed

lemma join_parse:
  assumes "cs \<noteq> []" "\<forall>c \<in> set cs. component_ok c 0"
  shows "valid (parseVerifierLabel (Some (join_plus cs)))
     \<and> set (components (parseVerifierLabel (Some (join_plus cs)))) = {b \<in> canonicalVerifierBase ` set cs. b \<notin> {'''', ''none''}}"
  using parseLoop_join [OF assms, of "[]"] by (auto simp: parseVerifierLabel_def appendComponent_filter)

lemma invalid_names: "\<not> valid (parseVerifierLabel (Some label)) \<Longrightarrow> labelNames label = {}"
  using join_parse unfolding labelNames_def by blast

lemma parse_labelNames: "set (components (parseVerifierLabel (Some label))) = labelNames label"
proof (cases "valid (parseVerifierLabel (Some label))")
  case True
  then have "valid (parseLoop label [] 0 [])" by (simp add: parseVerifierLabel_def)
  then obtain c cs where "label = join_plus (c # cs)" "component_ok c 0" "\<forall>d \<in> set cs. component_ok d 0"
    using parseLoop_valid by blast
  then have "\<exists>ds. ds \<noteq> [] \<and> (\<forall>d \<in> set ds. component_ok d 0) \<and> label = join_plus ds" by (intro exI [of _ "c # cs"]) simp
  then show ?thesis unfolding labelNames_def using join_parse by blast
next
  case False
  then have "components (parseVerifierLabel (Some label)) = []" using parseLoop_invalid by (simp add: parseVerifierLabel_def)
  then show ?thesis using invalid_names [OF False] by simp
qed

lemma normalizeVerifierName_names:
  "normalizeVerifierName name =
     (case name of None \<Rightarrow> None | Some s \<Rightarrow> if labelNames (js_trim s) \<subseteq> {''custom''} then None else Some (js_trim s))"
proof (cases name)
  case (Some s)
  have none: "components (parseVerifierLabel (Some l)) = [] \<longleftrightarrow> labelNames l = {}" for l
    using parse_labelNames [of l] by (metis set_empty)
  have all: "list_all (\<lambda>b. b = ''custom'') (components (parseVerifierLabel (Some l))) \<longleftrightarrow> labelNames l \<subseteq> {''custom''}" for l
    using parse_labelNames [of l] by (auto simp: list_all_iff)
  have "components (parseVerifierLabel (Some [])) = []" by code_simp
  then have blank: "labelNames [] = {}" using none by blast
  show ?thesis
    unfolding Some normalizeVerifierName_def normalizedVerifierName_def classifyVerifierKind_def parseVerifierComponents_def Let_def
    using invalid_names [of "js_trim s"] blank by (auto simp: none all)
qed (simp add: normalizeVerifierName_def normalizedVerifierName_def)

lemma trustedComponents_names: "set (trustedComponents ts) = (\<Union>l \<in> set ts. labelNames l)"
proof -
  have "set (let p = parseVerifierLabel (Some t) in if valid p then components p else []) = labelNames t" for t
    using parse_labelNames [of t] invalid_names [of t] by (auto simp: Let_def)
  then show ?thesis by (simp add: trustedComponents_def)
qed

lemma trusted_names: "isTrustedJudgmentVerifier (Some l) ts \<longleftrightarrow> labelNames l \<inter> (\<Union>t \<in> set ts. labelNames t) \<noteq> {}"
  using parse_labelNames [of l] invalid_names [of l]
  by (auto simp: isTrustedJudgmentVerifier_def Let_def list_ex_iff trustedComponents_names)

lemma decide_allow_iff:
  assumes "mode (delegatePolicy input) \<noteq> ModeOff" and "\<not> isLearningSource (in_source input)"
  shows "action (decideDelegatePolicy input ev) = ActAllow \<longleftrightarrow>
    (let t = policyTaskTypeIdentity (in_taskType input) isKnownTaskType; cfg = delegatePolicy input;
         v = normalizeVerifierName (in_verifierName input)
     in t \<notin> set BROAD_TASK_TYPES \<and> hasVerifier input \<and> v \<noteq> None \<and>
        (t \<in> set (judgmentTypes (policy input)) \<longrightarrow>
           isTrustedJudgmentVerifier v (case trustedVerifiersForJudgment (policy input) of None \<Rightarrow> [] | Some ts \<Rightarrow> ts)) \<and>
        minSamples cfg \<le> attempts ev \<and> requiredSuccessRateForTask t cfg \<le> successRate ev \<and>
        errorRate ev \<le> maxErrorRate cfg \<and>
        (\<exists>p90. p90LatencyMs ev = Some p90 \<and> p90 \<le> maxP90LatencyMs cfg) \<and>
        \<not> (isAdvisoryOnlyTaskType (in_taskType input) \<and>
           \<not> isPromotedAdvisoryTaskType (in_taskType input) (promotedAdvisoryTaskTypes cfg)))"
  using assms by (auto simp: decideDelegatePolicy_def Let_def split: option.split)

text \<open>A caller that gathers evidence: three names, and anything with one of seven beginnings.\<close>

definition gathersEvidence :: "string \<Rightarrow> bool" where
  "gathersEvidence s \<longleftrightarrow> s \<in> {''extra-probes'', ''probe-import'', ''m5-cartography''}
     \<or> (\<exists>p \<in> {''probe'', ''cartography'', ''harvest'', ''backfill'', ''model-evaluation'', ''model-scout'', ''gate-''}. \<exists>u. s = p @ u)"

lemma isLearningSource_names: "isLearningSource source \<longleftrightarrow> (\<exists>s. source = Some s \<and> gathersEvidence s)"
proof (cases source)
  case (Some s)
  have "starts_with p s \<longleftrightarrow> (\<exists>u. s = p @ u)" for p by (metis starts_with_def append_eq_conv_conj append_take_drop_id)
  then have "list_ex (\<lambda>p. starts_with p s) ps \<longleftrightarrow> (\<exists>p \<in> set ps. \<exists>u. s = p @ u)" for ps by (simp add: list_ex_iff)
  then have "isLearningSource source \<longleftrightarrow> s \<noteq> [] \<and> gathersEvidence s"
    by (simp only: Some isLearningSource_def gathersEvidence_def LEARNING_SOURCES_def LEARNING_SOURCE_PREFIXES_def option.case list.set)
  moreover have "\<not> gathersEvidence []" by (simp add: gathersEvidence_def)
  ultimately show ?thesis using Some by auto
qed (simp add: isLearningSource_def)

text \<open>The type a request is judged under, and the bar of the evidence for it.\<close>

definition judgedAs :: "string \<Rightarrow> string" where
  "judgedAs raw = (if to_lower (js_trim raw) \<in> set TASK_TYPE_IDS then to_lower (js_trim raw) else js_trim raw)"

definition evidenceMeets :: "DelegatePolicyConfig \<Rightarrow> string \<Rightarrow> LaneEvidence \<Rightarrow> bool" where
  "evidenceMeets cfg t ev \<longleftrightarrow> attempts ev \<ge> minSamples cfg \<and> errorRate ev \<le> maxErrorRate cfg
     \<and> successRate ev \<ge> (if t \<in> {''rewrite'', ''summarize'', ''translate''} then lowRiskSuccessRate cfg else minSuccessRate cfg)
     \<and> (\<exists>p90 \<le> maxP90LatencyMs cfg. p90LatencyMs ev = Some p90)"

text \<open>
  C31: what gets delegated. With the gate off, or for a caller that gathers evidence, everything. Otherwise exactly
  the requests whose type, trimmed and in lower case if the taxonomy then knows it, is neither \<open>other\<close> nor \<open>unknown\<close>;
  that come with a verifier whose label names something besides \<open>custom\<close>; for which, if the type is one of judgment,
  a trusted label names something the label names; whose lane, read under that type, the model, the trimmed label
  and the node (\<open>m5\<close> if none is given), meets the bars of samples, success, errors and latency; and that are no
  \<open>review-bounded\<close> in any spelling, unless the operator promoted it in some spelling.
\<close>
theorem delegate_allowed_exactly:
  "action (evaluateDelegatePolicy read input) = ActAllow \<longleftrightarrow>
     mode (delegatePolicy input) = ModeOff
     \<or> (\<exists>s. in_source input = Some s \<and> gathersEvidence s)
     \<or> (\<exists>label. in_verifierName input = Some label \<and> hasVerifier input
          \<and> judgedAs (in_taskType input) \<notin> {''other'', ''unknown''}
          \<and> \<not> labelNames (js_trim label) \<subseteq> {''custom''}
          \<and> (judgedAs (in_taskType input) \<in> (case judgmentQualityTaskTypes (policy input) of None \<Rightarrow> {''code-review''} | Some ts \<Rightarrow> set ts) \<longrightarrow>
               (\<exists>ts t. trustedVerifiersForJudgment (policy input) = Some ts \<and> t \<in> set ts \<and> labelNames t \<inter> labelNames (js_trim label) \<noteq> {}))
          \<and> evidenceMeets (delegatePolicy input) (judgedAs (in_taskType input))
               (read (judgedAs (in_taskType input)) (in_modelId input) (Some (js_trim label)) (policy input)
                  (case in_nodeId input of None \<Rightarrow> ''m5'' | Some n \<Rightarrow> n))
          \<and> (to_lower (js_trim (in_taskType input)) = ''review-bounded'' \<longrightarrow>
               (\<exists>p \<in> set (promotedAdvisoryTaskTypes (delegatePolicy input)). to_lower (js_trim p) = ''review-bounded'')))"
proof (cases "mode (delegatePolicy input) = ModeOff \<or> isLearningSource (in_source input)")
  case True
  then show ?thesis
    by (auto simp: evaluateDelegatePolicy_def decideDelegatePolicy_def Let_def isLearningSource_names [symmetric])
next
  case False
  have t: "policyTaskTypeIdentity (in_taskType input) isKnownTaskType = judgedAs (in_taskType input)"
    by (simp add: policyTaskTypeIdentity_def judgedAs_def isKnownTaskType_def normalizeTaskType_def ingressTaskType_def Let_def)
  have advisory: "isAdvisoryOnlyTaskType (in_taskType input) \<and> \<not> isPromotedAdvisoryTaskType (in_taskType input) ps \<longleftrightarrow>
      to_lower (js_trim (in_taskType input)) = ''review-bounded'' \<and> \<not> (\<exists>p \<in> set ps. to_lower (js_trim p) = ''review-bounded'')" for ps
    by (auto simp: isAdvisoryOnlyTaskType_def isPromotedAdvisoryTaskType_def ADVISORY_ONLY_TASK_TYPES_def normalizeTaskType_def list_ex_iff)
  have judged: "set (judgmentTypes (policy input)) = (case judgmentQualityTaskTypes (policy input) of None \<Rightarrow> {''code-review''} | Some ts \<Rightarrow> set ts)"
    by (simp add: judgmentTypes_def DEFAULT_JUDGMENT_QUALITY_TASK_TYPES_def split: option.split)
  have gate: "action (evaluateDelegatePolicy read input) = action (decideDelegatePolicy input
      (read (judgedAs (in_taskType input)) (in_modelId input) (normalizeVerifierName (in_verifierName input)) (policy input)
         (case in_nodeId input of None \<Rightarrow> ''m5'' | Some n \<Rightarrow> n)))"
    using False by (simp add: evaluateDelegatePolicy_def Let_def t)
  show ?thesis
  proof (cases "in_verifierName input")
    case None
    then show ?thesis using False
      by (simp add: gate decideDelegatePolicy_def Let_def normalizeVerifierName_names isLearningSource_names [symmetric])
  next
    case (Some label)
    let ?v = "normalizeVerifierName (in_verifierName input)"
    have v: "?v = (if labelNames (js_trim label) \<subseteq> {''custom''} then None else Some (js_trim label))"
      by (simp add: normalizeVerifierName_names Some)
    have trusted: "isTrustedJudgmentVerifier (Some (js_trim label)) (case trustedVerifiersForJudgment (policy input) of None \<Rightarrow> [] | Some ts \<Rightarrow> ts)
      \<longleftrightarrow> (\<exists>ts t. trustedVerifiersForJudgment (policy input) = Some ts \<and> t \<in> set ts \<and> labelNames t \<inter> labelNames (js_trim label) \<noteq> {})"
      by (cases "trustedVerifiersForJudgment (policy input)") (simp_all add: trusted_names, blast)
    show ?thesis
      using decide_allow_iff [of input "read (judgedAs (in_taskType input)) (in_modelId input) ?v (policy input)
          (case in_nodeId input of None \<Rightarrow> ''m5'' | Some n \<Rightarrow> n)"] False Some
      unfolding gate isLearningSource_names [symmetric] Let_def t advisory judged v
      by (cases "labelNames (js_trim label) \<subseteq> {''custom''}")
        (simp_all add: trusted evidenceMeets_def BROAD_TASK_TYPES_def LOW_RISK_TASK_TYPES_def requiredSuccessRateForTask_def, blast)
  qed
qed

text \<open>
  A task type of the taxonomy cannot dodge the gate by its spelling: two spellings that differ
  in case and surrounding blanks read the same evidence and get the same action.
\<close>
lemma delegate_spelling_invariant:
  assumes "normalizeTaskType t = normalizeTaskType t'" and "isKnownTaskType (normalizeTaskType t)"
  shows "action (evaluateDelegatePolicy read (input\<lparr>in_taskType := t\<rparr>)) =
           action (evaluateDelegatePolicy read (input\<lparr>in_taskType := t'\<rparr>)) \<and>
         d_evidence (evaluateDelegatePolicy read (input\<lparr>in_taskType := t\<rparr>)) =
           d_evidence (evaluateDelegatePolicy read (input\<lparr>in_taskType := t'\<rparr>))"
  using policyTaskTypeIdentity_cong [OF assms] decide_action_cong [OF policyTaskTypeIdentity_cong [OF assms] assms(1)]
  by (simp add: evaluateDelegatePolicy_def Let_def)

text \<open>
  Labels fail closed. A label whose parentheses do not match yields no components: it is
  neither structural nor quality-bearing nor trusted, counts as ungraded, and a production request
  that carries it is never allowed.
\<close>
lemma malformed_label_fails_closed:
  assumes "\<not> valid (parseVerifierLabel name)"
  shows "parseVerifierComponents name = [] \<and> \<not> isStructuralVerifier name \<and>
    \<not> isQualityBearingVerifier name \<and> \<not> isTrustedJudgmentVerifier name trusted \<and>
    classifyVerifierKind name = Ungraded"
proof -
  have "components (parseVerifierLabel name) = []"
    using assms parseLoop_invalid by (auto simp: parseVerifierLabel_def split: option.splits)
  then show ?thesis using assms
    by (simp add: parseVerifierComponents_def isStructuralVerifier_def isQualityBearingVerifier_def
        isTrustedJudgmentVerifier_def classifyVerifierKind_def Let_def)
qed

section \<open>Witnesses\<close>

lemma verifier_label_components_witness:
  "components (parseVerifierLabel (Some ''exact(a+b)+nonEmpty'')) = [''exact'', ''nonempty'']"
proof -
  have "\<forall>c \<in> set [''exact(a+b)'', ''nonEmpty'']. component_ok c 0" by code_simp
  moreover have "filter (\<lambda>b. b \<noteq> [] \<and> b \<noteq> ''none'') (map canonicalVerifierBase [''exact(a+b)'', ''nonEmpty'']) =
      [''exact'', ''nonempty'']" by code_simp
  ultimately show ?thesis using verifier_label_components [of "[''exact(a+b)'', ''nonEmpty'']"] by simp
qed

definition wCfg :: DelegatePolicyConfig where
  "wCfg = \<lparr>mode = ModeEnforce, minSamples = 10, minSuccessRate = 95 / 100, lowRiskSuccessRate = 8 / 10,
     maxErrorRate = 1 / 10, maxP90LatencyMs = 5000, promotedAdvisoryTaskTypes = []\<rparr>"

definition wInput :: "string \<Rightarrow> DelegatePolicyInput" where
  "wInput t = \<lparr>in_taskType = t, in_modelId = ''m'', in_nodeId = None, in_verifierName = Some ''exact'',
     hasVerifier = True, in_source = None,
     policy = \<lparr>judgmentQualityTaskTypes = None, trustedVerifiersForJudgment = None\<rparr>, delegatePolicy = wCfg\<rparr>"

definition wEvidence :: LaneEvidence where
  "wEvidence = (emptyEvidence ''sql'' ''m'' None)\<lparr>attempts := 20, successRate := 1, p90LatencyMs := Some 100\<rparr>"

theorem delegate_allowed_exactly_witness:
  "action (evaluateDelegatePolicy (\<lambda>_ _ _ _ _. wEvidence) (wInput '' SQL'')) = ActAllow
   \<and> action (evaluateDelegatePolicy (\<lambda>_ _ _ _ _. wEvidence) (wInput ''Review-Bounded'')) \<noteq> ActAllow"
proof
  have "js_trim ''exact'' = ''exact''" and t: "judgedAs '' SQL'' = ''sql''" "to_lower (js_trim '' SQL'') = ''sql''" by code_simp+
  moreover have "set (components (parseVerifierLabel (Some ''exact''))) = {''exact''}" by code_simp
  ultimately have "js_trim ''exact'' = ''exact''" "labelNames ''exact'' = {''exact''}" using parse_labelNames [of "''exact''"] by simp_all
  moreover have "evidenceMeets wCfg ''sql'' wEvidence"
    by (simp add: evidenceMeets_def wCfg_def wEvidence_def emptyEvidence_def)
  ultimately show "action (evaluateDelegatePolicy (\<lambda>_ _ _ _ _. wEvidence) (wInput '' SQL'')) = ActAllow"
    using delegate_allowed_exactly [of "\<lambda>_ _ _ _ _. wEvidence" "wInput '' SQL''"] t by (simp add: wInput_def)
  have "to_lower (js_trim ''Review-Bounded'') = ''review-bounded''" by code_simp
  then show "action (evaluateDelegatePolicy (\<lambda>_ _ _ _ _. wEvidence) (wInput ''Review-Bounded'')) \<noteq> ActAllow"
    using delegate_allowed_exactly [of "\<lambda>_ _ _ _ _. wEvidence" "wInput ''Review-Bounded''"] by (simp add: wInput_def wCfg_def)
qed

lemma delegate_spelling_invariant_witness:
  "action (evaluateDelegatePolicy (\<lambda>_ _ _ _ _. wEvidence) (wInput '' Code-Review'')) =
   action (evaluateDelegatePolicy (\<lambda>_ _ _ _ _. wEvidence) (wInput ''code-review''))"
proof -
  have "normalizeTaskType '' Code-Review'' = ''code-review''" "normalizeTaskType ''code-review'' = ''code-review''"
    by code_simp+
  then show ?thesis
    using delegate_spelling_invariant [of "'' Code-Review''" "''code-review''" "\<lambda>_ _ _ _ _. wEvidence" "wInput []"]
    by (simp add: isKnownTaskType_def TASK_TYPE_IDS_def wInput_def)
qed

lemma malformed_label_fails_closed_witness:
  "\<not> isTrustedJudgmentVerifier (Some ''exact(a'') [''exact'']"
  using malformed_label_fails_closed [of "Some ''exact(a''" "[''exact'']"] by (simp add: parseVerifierLabel_def)

end
