(* ===== verification/Host_Memory.thy ===== *)
theory Host_Memory
  imports JS_Strings
begin

text \<open>
  Whole-host memory admission for model starts, \<open>src/homeserver/host-memory-admission.ts\<close>: the
  decision from a residency and a memory observation, the two observations under one shared
  deadline, the best-effort telemetry, and the wrapper internal model starts go through.

  The two observations are what the injected readers do: a promise that settles after some
  milliseconds with a value or an error, or never. Byte counts are integers.
\<close>

datatype HostMemoryAdmissionMode = ModeOff | ModeShadow | ModeEnforce

record HostMemoryAdmissionConfig =
  hm_mode :: HostMemoryAdmissionMode
  modelBudgetBytes :: "string \<rightharpoonup> int"
  modelReclaimBytes :: "string \<rightharpoonup> int"
  reserveBytes :: int
  hm_retryAfterSeconds :: seconds

datatype HostMemoryOutcome = NotNeeded | Allow | Refuse

datatype HostMemoryReason =
    AlreadyResident | StartInProgress | BudgetUnknown | HostMemoryUnknown | InsufficientMemory | Fits

record HostMemorySnapshot =
  memTotalBytes :: int
  memAvailableBytes :: int
  cmaFreeBytes :: "int option"
  gttUsedBytes :: "int option"
  gttTotalBytes :: "int option"

record HostMemoryDecision =
  hd_outcome :: HostMemoryOutcome
  hd_reason :: HostMemoryReason
  hd_budgetBytes :: "int option"
  hd_reserveBytes :: int
  hd_requiredBytes :: "int option"
  hd_memAvailableBytes :: "int option"
  hd_cmaFreeBytes :: "int option"
  hd_usableAvailableBytes :: "int option"
  hd_evictionCreditBytes :: "int option"
  hd_projectedAvailableBytes :: "int option"
  hd_gttUsedBytes :: "int option"
  hd_gttTotalBytes :: "int option"
  hd_residencyKnown :: bool

text \<open>A model's state as llama-swap reports it is free text; two of its values matter.\<close>

record RunningSnapshotEntry =
  re_model :: string
  re_state :: string

datatype StartState = Ready | Starting

definition parseHostMemoryMode :: "string option \<Rightarrow> HostMemoryAdmissionMode" where
  "parseHostMemoryMode raw =
     (if raw = Some ''shadow'' then ModeShadow
      else if raw = Some ''enforce'' then ModeEnforce else ModeOff)"

section \<open>The decision\<close>

fun residentScan :: "string \<Rightarrow> StartState option \<Rightarrow> RunningSnapshotEntry list \<Rightarrow> StartState option" where
  "residentScan model found [] = found"
| "residentScan model found (r # rs) =
     (if re_model r \<noteq> model then residentScan model found rs
      else if re_state r = ''ready'' then Some Ready
      else if re_state r = ''starting'' then residentScan model (Some Starting) rs
      else residentScan model found rs)"

definition entries :: "RunningSnapshotEntry list option \<Rightarrow> RunningSnapshotEntry list" where
  "entries running = (case running of None \<Rightarrow> [] | Some rs \<Rightarrow> rs)"

definition residentStartState ::
  "RunningSnapshotEntry list option \<Rightarrow> string \<Rightarrow> StartState option" where
  "residentStartState running model = residentScan model None (entries running)"

definition usableAvailable :: "HostMemorySnapshot \<Rightarrow> int" where
  "usableAvailable memory =
     max 0 (memAvailableBytes memory - (case cmaFreeBytes memory of None \<Rightarrow> 0 | Some c \<Rightarrow> c))"

fun creditLoop :: "(string \<rightharpoonup> int) \<Rightarrow> string \<Rightarrow> int \<Rightarrow> RunningSnapshotEntry list \<Rightarrow> int" where
  "creditLoop reclaim requested credit [] = credit"
| "creditLoop reclaim requested credit (r # rs) =
     creditLoop reclaim requested
       (if re_model r \<noteq> requested \<and> re_state r = ''ready''
        then credit + get_or reclaim (re_model r) 0 else credit) rs"

definition baseDecision ::
  "int option \<Rightarrow> HostMemoryAdmissionConfig \<Rightarrow> HostMemorySnapshot option
     \<Rightarrow> RunningSnapshotEntry list option \<Rightarrow> HostMemoryOutcome \<Rightarrow> HostMemoryReason \<Rightarrow> HostMemoryDecision" where
  "baseDecision budget config memory running outc reason =
     \<lparr>hd_outcome = outc, hd_reason = reason, hd_budgetBytes = budget,
      hd_reserveBytes = reserveBytes config, hd_requiredBytes = None,
      hd_memAvailableBytes = map_option memAvailableBytes memory,
      hd_cmaFreeBytes = Option.bind memory cmaFreeBytes,
      hd_usableAvailableBytes = map_option usableAvailable memory,
      hd_evictionCreditBytes = None, hd_projectedAvailableBytes = None,
      hd_gttUsedBytes = Option.bind memory gttUsedBytes,
      hd_gttTotalBytes = Option.bind memory gttTotalBytes,
      hd_residencyKnown = (running \<noteq> None)\<rparr>"

definition decideHostMemoryAdmission ::
  "string \<Rightarrow> RunningSnapshotEntry list option \<Rightarrow> HostMemorySnapshot option
     \<Rightarrow> HostMemoryAdmissionConfig \<Rightarrow> HostMemoryDecision" where
  "decideHostMemoryAdmission requestedModel running memory config =
     (let budget = modelBudgetBytes config requestedModel;
          base = baseDecision budget config memory running
      in case residentStartState running requestedModel of
           Some st \<Rightarrow> base NotNeeded (if st = Ready then AlreadyResident else StartInProgress)
         | None \<Rightarrow>
             (case budget of
                None \<Rightarrow> base Refuse BudgetUnknown
              | Some b \<Rightarrow>
                  (case memory of
                     None \<Rightarrow> base Refuse HostMemoryUnknown
                   | Some m \<Rightarrow>
                       let credit0 = creditLoop (modelReclaimBytes config) requestedModel 0 (entries running);
                           usable = usableAvailable m;
                           credit = min credit0 (max 0 (memTotalBytes m - memAvailableBytes m));
                           projected = usable + credit;
                           required = b + reserveBytes config
                       in (base (if projected \<ge> required then Allow else Refuse)
                                (if projected \<ge> required then Fits else InsufficientMemory))
                            \<lparr>hd_requiredBytes := Some required, hd_evictionCreditBytes := Some credit,
                             hd_projectedAvailableBytes := Some projected\<rparr>)))"

section \<open>The host reader\<close>

definition parseByteInteger :: "string \<Rightarrow> int option" where
  "parseByteInteger text =
     (let t = js_trim text
      in if all_digits t \<and> int (dec_value t) \<le> max_safe_integer
         then Some (int (dec_value t)) else None)"

definition is_eol :: "char \<Rightarrow> bool" where
  "is_eol c \<longleftrightarrow> of_char c \<in> {10, 13 :: nat}"

text \<open>
  The expression \<open>^KEY:\s+(\d+)\s+kB$\<close> with the flag \<open>m\<close>, tried at one position: the classes of its
  three repetitions are disjoint from what follows each, so the greedy match is the only one.
\<close>

definition meminfoMatchAt :: "string \<Rightarrow> string \<Rightarrow> string option" where
  "meminfoMatchAt key s =
     (let k = key @ '':'' in
      if \<not> starts_with k s then None
      else let s1 = drop (length k) s; s2 = dropWhile is_space s1;
               ds = takeWhile is_digit s2; s3 = dropWhile is_digit s2; s4 = dropWhile is_space s3
           in if (s1 = [] \<or> \<not> is_space (hd s1)) \<or> ds = [] \<or> (s3 = [] \<or> \<not> is_space (hd s3))
                 \<or> \<not> starts_with ''kB'' s4
              then None
              else let s5 = drop 2 s4 in if s5 = [] \<or> is_eol (hd s5) then Some ds else None)"

fun meminfoScan :: "string \<Rightarrow> bool \<Rightarrow> string \<Rightarrow> string option" where
  "meminfoScan key bol [] = None"
| "meminfoScan key bol (c # s) =
     (case (if bol then meminfoMatchAt key (c # s) else None) of
        Some ds \<Rightarrow> Some ds
      | None \<Rightarrow> meminfoScan key (is_eol c) s)"

definition meminfoBytes :: "string \<Rightarrow> string \<Rightarrow> int option" where
  "meminfoBytes meminfo key = map_option (\<lambda>ds. int (dec_value ds) * 1024) (meminfoScan key True meminfo)"

text \<open>A file read fails with the text of its error, or gives the contents.\<close>

type_synonym ReadTextFile = "string \<Rightarrow> string + string"

type_synonym HostMemoryReadResult = "string + HostMemorySnapshot"

definition MAX_DRM_CARDS :: nat where
  "MAX_DRM_CARDS = 16"

fun gttScan :: "ReadTextFile \<Rightarrow> nat list \<Rightarrow> int option \<times> int option" where
  "gttScan readFile [] = (None, None)"
| "gttScan readFile (n # cards) =
     (let dir = ''/sys/class/drm/card'' @ dec_nat n @ ''/device''
      in case readFile (dir @ ''/mem_info_gtt_used'') of
           Inl _ \<Rightarrow> gttScan readFile cards
         | Inr u \<Rightarrow>
             (case readFile (dir @ ''/mem_info_gtt_total'') of
                Inl _ \<Rightarrow> gttScan readFile cards
              | Inr t \<Rightarrow>
                  (case (parseByteInteger u, parseByteInteger t) of
                     (Some used, Some tot) \<Rightarrow> (Some used, Some tot)
                   | _ \<Rightarrow> gttScan readFile cards)))"

definition readHostMemory :: "ReadTextFile \<Rightarrow> HostMemoryReadResult" where
  "readHostMemory readFile =
     (case readFile ''/proc/meminfo'' of
        Inl err \<Rightarrow> Inl (''cannot read /proc/meminfo: '' @ err)
      | Inr meminfo \<Rightarrow>
          (case (meminfoBytes meminfo ''MemTotal'', meminfoBytes meminfo ''MemAvailable'') of
             (Some tot, Some avail) \<Rightarrow>
               let (used, gtt) = gttScan readFile [0..<MAX_DRM_CARDS]
               in Inr \<lparr>memTotalBytes = tot, memAvailableBytes = avail,
                       cmaFreeBytes = meminfoBytes meminfo ''CmaFree'',
                       gttUsedBytes = used, gttTotalBytes = gtt\<rparr>
           | _ \<Rightarrow> Inl ''cannot parse MemTotal/MemAvailable from /proc/meminfo''))"

section \<open>Observations under a deadline\<close>

text \<open>What an injected reader does: it settles after some milliseconds, or never.\<close>

datatype 'a observation = Never | Settles nat "string + 'a"

text \<open>
  The value or the error the caller awaits, and the milliseconds until it has it: the timer wins
  unless the work settles before it fires. A throw before the first await settles at 0.
\<close>

definition withDeadline :: "'a observation \<Rightarrow> millis \<Rightarrow> string \<Rightarrow> (string + 'a) \<times> millis" where
  "withDeadline work ms what =
     (let expired = (Inl (what @ '' timed out after '' @ dec_int ms @ ''ms''), ms)
      in case work of
           Never \<Rightarrow> expired
         | Settles t r \<Rightarrow> if int t < ms then (r, int t) else expired)"

section \<open>Admission\<close>

record HostMemoryLog =
  lg_ts :: millis
  lg_mode :: HostMemoryAdmissionMode
  lg_model :: string
  lg_decision :: HostMemoryDecision
  lg_residencyError :: "string option"
  lg_memoryError :: "string option"
  lg_enforced :: bool

record Telemetry =
  tm_log :: "HostMemoryLog list"
  tm_counted :: "(HostMemoryAdmissionMode \<times> HostMemoryOutcome \<times> HostMemoryReason) list"

record HostMemoryAdmissionDeps =
  getRunning :: "RunningSnapshotEntry list observation"
  readMemory :: "HostMemoryReadResult observation"
  sinkThrows :: bool
  observationTimeoutMs :: "millis option"

definition DEFAULT_OBSERVATION_TIMEOUT_MS :: millis where
  "DEFAULT_OBSERVATION_TIMEOUT_MS = 750"

datatype HostMemoryRejection =
    RejInsufficientMemory string seconds HostMemoryReason
  | RejAdmissionUnavailable string HostMemoryReason

definition is_control :: "char \<Rightarrow> bool" where
  "is_control c \<longleftrightarrow> (of_char c :: nat) \<le> 31 \<or> of_char c = (127 :: nat)"

definition safeModelLabel :: "string \<Rightarrow> string" where
  "safeModelLabel model = take 128 (map (\<lambda>c. if is_control c then CHR ''?'' else c) model)"

fun reasonName :: "HostMemoryReason \<Rightarrow> string" where
  "reasonName AlreadyResident = ''already_resident''"
| "reasonName StartInProgress = ''start_in_progress''"
| "reasonName BudgetUnknown = ''budget_unknown''"
| "reasonName HostMemoryUnknown = ''host_memory_unknown''"
| "reasonName InsufficientMemory = ''insufficient_memory''"
| "reasonName Fits = ''fits''"

text \<open>\<open>bestEffort\<close> around the log sink: a sink that throws leaves no line and changes nothing else.\<close>

definition bestEffortLog :: "bool \<Rightarrow> HostMemoryLog \<Rightarrow> Telemetry \<Rightarrow> Telemetry" where
  "bestEffortLog throws line tm = (if throws then tm else tm\<lparr>tm_log := tm_log tm @ [line]\<rparr>)"

definition countAdmission :: "HostMemoryAdmissionMode \<Rightarrow> HostMemoryDecision \<Rightarrow> Telemetry \<Rightarrow> Telemetry" where
  "countAdmission mode d tm = tm\<lparr>tm_counted := tm_counted tm @ [(mode, hd_outcome d, hd_reason d)]\<rparr>"

definition quoted :: "string \<Rightarrow> string" where
  "quoted s = [CHR 0x27] @ s @ [CHR 0x27]"

definition rejectionFor :: "HostMemoryAdmissionConfig \<Rightarrow> string \<Rightarrow> HostMemoryDecision \<Rightarrow> HostMemoryRejection" where
  "rejectionFor config model d =
     (let label = safeModelLabel model
      in if hd_reason d = InsufficientMemory
         then RejInsufficientMemory
                (''There is not enough host memory to start the model '' @ quoted label @ '' right now. Retry after ''
                  @ dec_int (hm_retryAfterSeconds config) @ ''s.'')
                (hm_retryAfterSeconds config) (hd_reason d)
         else RejAdmissionUnavailable
                (''Memory admission cannot approve starting the model '' @ quoted label @ '' (''
                  @ reasonName (hd_reason d) @ ''). Retrying will not help until the operator fixes it.'')
                (hd_reason d))"

definition leftOf :: "'e + 'a \<Rightarrow> 'e option" where
  "leftOf r = (case r of Inl e \<Rightarrow> Some e | Inr _ \<Rightarrow> None)"

definition rightOf :: "'e + 'a \<Rightarrow> 'a option" where
  "rightOf r = (case r of Inl _ \<Rightarrow> None | Inr v \<Rightarrow> Some v)"

text \<open>
  \<open>admitHostMemory\<close>: the rejection if there is one, the telemetry, and the milliseconds spent
  waiting for the two observations.
\<close>

definition admitHostMemory ::
  "HostMemoryAdmissionConfig \<Rightarrow> string \<Rightarrow> HostMemoryAdmissionDeps \<Rightarrow> string option \<Rightarrow> millis \<Rightarrow> Telemetry
     \<Rightarrow> HostMemoryRejection option \<times> Telemetry \<times> millis" where
  "admitHostMemory config model deps logLabel now tm =
     (if hm_mode config = ModeOff then (None, tm, 0)
      else
        let deadlineAt = now + (case observationTimeoutMs deps of
                                  None \<Rightarrow> DEFAULT_OBSERVATION_TIMEOUT_MS | Some t \<Rightarrow> t);
            (res1, spent1) = withDeadline (getRunning deps) (max 1 (deadlineAt - now)) ''residency observation'';
            running = rightOf res1
        in if residentStartState running model \<noteq> None
           then (None,
                 countAdmission (hm_mode config) (decideHostMemoryAdmission model running None config) tm,
                 spent1)
           else
             let (res2, spent2) = withDeadline (readMemory deps) (max 1 (deadlineAt - (now + spent1)))
                                    ''host memory read'';
                 memory = Option.bind (rightOf res2) rightOf;
                 memoryError = (case res2 of Inl e \<Rightarrow> Some e | Inr rd \<Rightarrow> leftOf rd);
                 d = decideHostMemoryAdmission model running memory config;
                 enforced = (hm_mode config = ModeEnforce);
                 line = \<lparr>lg_ts = now + spent1 + spent2, lg_mode = hm_mode config,
                         lg_model = (case logLabel of None \<Rightarrow> ''unknown'' | Some l \<Rightarrow> safeModelLabel l),
                         lg_decision = d, lg_residencyError = leftOf res1, lg_memoryError = memoryError,
                         lg_enforced = enforced\<rparr>;
                 tm1 = countAdmission (hm_mode config) d (bestEffortLog (sinkThrows deps) line tm)
             in (if \<not> enforced \<or> hd_outcome d \<noteq> Refuse then None else Some (rejectionFor config model d),
                 tm1, spent1 + spent2))"

text \<open>
  The wrapper for internal callers. A forced start filters the requested model out of what the
  residency reader returns; a label function that throws gives no label; a rejection is thrown.
\<close>

definition withoutModel ::
  "string \<Rightarrow> RunningSnapshotEntry list observation \<Rightarrow> RunningSnapshotEntry list observation" where
  "withoutModel model work =
     (case work of
        Settles t (Inr rs) \<Rightarrow> Settles t (Inr (filter (\<lambda>r. re_model r \<noteq> model) rs))
      | _ \<Rightarrow> work)"

definition createModelStartAdmission ::
  "HostMemoryAdmissionConfig \<Rightarrow> HostMemoryAdmissionDeps \<Rightarrow> (string \<Rightarrow> string + string option)
     \<Rightarrow> string \<Rightarrow> bool \<Rightarrow> millis \<Rightarrow> Telemetry \<Rightarrow> (HostMemoryRejection + unit) \<times> Telemetry \<times> millis" where
  "createModelStartAdmission config deps logLabel model forceStart now tm =
     (if hm_mode config = ModeOff then (Inr (), tm, 0)
      else
        let deps' = (if forceStart then deps\<lparr>getRunning := withoutModel model (getRunning deps)\<rparr> else deps);
            label = (case logLabel model of Inl _ \<Rightarrow> None | Inr l \<Rightarrow> l);
            (rejection, tm1, spent) = admitHostMemory config model deps' label now tm
        in (case rejection of Some r \<Rightarrow> Inl r | None \<Rightarrow> Inr (), tm1, spent))"

section \<open>What a start needs\<close>

text \<open>
  The specification: a start is affordable if the model is up or coming up already, or if its
  budget and the host's memory are known and the usable memory, plus what evicting the other
  ready models is declared to release (never more than is in use), covers budget and reserve.
\<close>

definition declaredRelease :: "HostMemoryAdmissionConfig \<Rightarrow> string \<Rightarrow> RunningSnapshotEntry list \<Rightarrow> int" where
  "declaredRelease config model rs =
     (\<Sum>r\<leftarrow>filter (\<lambda>r. re_model r \<noteq> model \<and> re_state r = ''ready'') rs.
        get_or (modelReclaimBytes config) (re_model r) 0)"

definition startUnderWay :: "string \<Rightarrow> RunningSnapshotEntry list \<Rightarrow> bool" where
  "startUnderWay model rs =
     list_ex (\<lambda>r. re_model r = model \<and> (re_state r = ''ready'' \<or> re_state r = ''starting'')) rs"

definition memoryCovers ::
  "HostMemoryAdmissionConfig \<Rightarrow> string \<Rightarrow> RunningSnapshotEntry list \<Rightarrow> HostMemorySnapshot option \<Rightarrow> bool" where
  "memoryCovers config model rs memory =
     (case (modelBudgetBytes config model, memory) of
        (Some b, Some m) \<Rightarrow>
          b + reserveBytes config
            \<le> usableAvailable m
               + min (declaredRelease config model rs) (max 0 (memTotalBytes m - memAvailableBytes m))
      | _ \<Rightarrow> False)"

lemma residentScan_found:
  "residentScan model (Some Starting) rs \<noteq> None"
  by (induction rs) auto

lemma residentScan_iff: "residentScan model None rs \<noteq> None \<longleftrightarrow> startUnderWay model rs"
  using residentScan_found by (induction rs) (auto simp: startUnderWay_def)

lemma residentStartState_iff:
  "residentStartState running model = None \<longleftrightarrow> \<not> startUnderWay model (entries running)"
  using residentScan_iff [of model "entries running"] by (auto simp: residentStartState_def)

lemma creditLoop_sum:
  "creditLoop (modelReclaimBytes config) model c rs = c + declaredRelease config model rs"
  by (induction rs arbitrary: c) (auto simp: declaredRelease_def)

lemma decide_refuse_iff:
  "hd_outcome (decideHostMemoryAdmission model running memory config) = Refuse \<longleftrightarrow>
     \<not> startUnderWay model (entries running) \<and> \<not> memoryCovers config model (entries running) memory"
  using residentStartState_iff [of running model]
  by (auto simp: decideHostMemoryAdmission_def baseDecision_def memoryCovers_def creditLoop_sum Let_def
      split: option.split)

lemma declaredRelease_nonneg:
  assumes "\<And>x. x \<in> ran (modelReclaimBytes config) \<Longrightarrow> 0 \<le> x"
  shows "0 \<le> declaredRelease config model rs"
proof -
  have "0 \<le> get_or (modelReclaimBytes config) k 0" for k
    using assms by (cases "modelReclaimBytes config k") (auto simp: ran_def)
  then show ?thesis unfolding declaredRelease_def by (intro sum_list_nonneg) auto
qed

text \<open>Not knowing the residency is the conservative case: it never admits what knowing would refuse.\<close>

lemma unknown_residency_conservative:
  assumes "\<And>x. x \<in> ran (modelReclaimBytes config) \<Longrightarrow> 0 \<le> x"
    and "hd_outcome (decideHostMemoryAdmission model None memory config) \<noteq> Refuse"
  shows "hd_outcome (decideHostMemoryAdmission model (Some rs) memory config) \<noteq> Refuse"
proof -
  have "\<not> startUnderWay model []" and "declaredRelease config model [] = 0"
    by (simp_all add: startUnderWay_def declaredRelease_def)
  then show ?thesis
    using assms(2) declaredRelease_nonneg [of config model rs] assms(1)
    by (auto simp: decide_refuse_iff entries_def memoryCovers_def split: option.splits)
qed

section \<open>What the callers see\<close>

definition timeoutOf :: "HostMemoryAdmissionDeps \<Rightarrow> millis" where
  "timeoutOf deps =
     (case observationTimeoutMs deps of None \<Rightarrow> DEFAULT_OBSERVATION_TIMEOUT_MS | Some t \<Rightarrow> t)"

text \<open>What an observation yields when it is awaited for so many milliseconds.\<close>

definition observed :: "'a observation \<Rightarrow> millis \<Rightarrow> 'a option" where
  "observed work ms =
     (case work of Settles t (Inr v) \<Rightarrow> if int t < ms then Some v else None | _ \<Rightarrow> None)"

definition waited :: "'a observation \<Rightarrow> millis \<Rightarrow> millis" where
  "waited work ms = (case work of Never \<Rightarrow> ms | Settles t _ \<Rightarrow> min (int t) ms)"

lemma withDeadline_view:
  "rightOf (fst (withDeadline work ms what)) = observed work ms"
  "snd (withDeadline work ms what) = waited work ms"
  by (auto simp: withDeadline_def observed_def waited_def rightOf_def Let_def
      split: observation.split sum.split)

lemma waited_bounds: "0 \<le> ms \<Longrightarrow> 0 \<le> waited work ms" "waited work ms \<le> ms"
  by (auto simp: waited_def split: observation.split)

text \<open>The residency and the memory the decision is taken on, for a given pair of readers.\<close>

definition seenRunning :: "HostMemoryAdmissionDeps \<Rightarrow> string \<Rightarrow> bool \<Rightarrow> RunningSnapshotEntry list" where
  "seenRunning deps model forceStart =
     (let rs = entries (observed (getRunning deps) (max 1 (timeoutOf deps)))
      in if forceStart then filter (\<lambda>r. re_model r \<noteq> model) rs else rs)"

definition seenMemory :: "HostMemoryAdmissionDeps \<Rightarrow> HostMemorySnapshot option" where
  "seenMemory deps =
     (let t = max 1 (timeoutOf deps)
      in Option.bind (observed (readMemory deps)
                        (max 1 (timeoutOf deps - waited (getRunning deps) t))) rightOf)"

lemma observed_withoutModel:
  "entries (observed (withoutModel model work) ms) = filter (\<lambda>r. re_model r \<noteq> model) (entries (observed work ms))"
  "waited (withoutModel model work) ms = waited work ms"
  by (auto simp: withoutModel_def observed_def waited_def entries_def split: observation.split sum.split)

lemma admit_result:
  fixes deps now
  defines "r1 \<equiv> observed (getRunning deps) (max 1 (timeoutOf deps))"
  defines "w1 \<equiv> waited (getRunning deps) (max 1 (timeoutOf deps))"
  assumes "hm_mode config \<noteq> ModeOff"
  shows "fst (admitHostMemory config model deps lbl now tm) =
     (if hm_mode config = ModeEnforce \<and> \<not> startUnderWay model (entries r1)
         \<and> \<not> memoryCovers config model (entries r1) (seenMemory deps)
      then Some (rejectionFor config model (decideHostMemoryAdmission model r1 (seenMemory deps) config))
      else None)"
    and "snd (snd (admitHostMemory config model deps lbl now tm)) =
      (if startUnderWay model (entries r1) then w1
       else w1 + waited (readMemory deps) (max 1 (timeoutOf deps - w1)))"
proof -
  have mem: "max 1 (now + timeoutOf deps - (now + w1)) = max 1 (timeoutOf deps - w1)" by simp
  have view: "Option.bind (observed (readMemory deps) (max 1 (timeoutOf deps - w1))) rightOf = seenMemory deps"
    by (simp add: seenMemory_def w1_def Let_def)
  note parts = admitHostMemory_def timeoutOf_def [symmetric] case_prod_unfold withDeadline_view r1_def [symmetric]
      w1_def [symmetric] mem residentStartState_iff Let_def
  show "fst (admitHostMemory config model deps lbl now tm) =
     (if hm_mode config = ModeEnforce \<and> \<not> startUnderWay model (entries r1)
         \<and> \<not> memoryCovers config model (entries r1) (seenMemory deps)
      then Some (rejectionFor config model (decideHostMemoryAdmission model r1 (seenMemory deps) config))
      else None)"
    using assms(3) by (simp add: parts view decide_refuse_iff)
  show "snd (snd (admitHostMemory config model deps lbl now tm)) =
      (if startUnderWay model (entries r1) then w1
       else w1 + waited (readMemory deps) (max 1 (timeoutOf deps - w1)))"
    using assms(3) by (simp add: parts)
qed

lemma start_result:
  "fst (createModelStartAdmission config deps logLabel model forceStart now tm) = Inr () \<longleftrightarrow>
     hm_mode config \<noteq> ModeEnforce \<or> startUnderWay model (seenRunning deps model forceStart)
     \<or> memoryCovers config model (seenRunning deps model forceStart) (seenMemory deps)"
proof -
  let ?deps = "if forceStart then deps\<lparr>getRunning := withoutModel model (getRunning deps)\<rparr> else deps"
  have same: "timeoutOf ?deps = timeoutOf deps" "seenMemory ?deps = seenMemory deps"
    by (simp_all add: timeoutOf_def seenMemory_def observed_withoutModel Let_def)
  have seen: "entries (observed (getRunning ?deps) (max 1 (timeoutOf deps))) = seenRunning deps model forceStart"
    by (simp add: seenRunning_def observed_withoutModel Let_def)
  have "fst (createModelStartAdmission config deps logLabel model forceStart now tm) = Inr () \<longleftrightarrow>
      hm_mode config = ModeOff \<or>
      fst (admitHostMemory config model ?deps (case logLabel model of Inl _ \<Rightarrow> None | Inr l \<Rightarrow> l) now tm) = None"
    by (simp add: createModelStartAdmission_def Let_def case_prod_unfold split: option.split)
  also have "\<dots> \<longleftrightarrow> hm_mode config \<noteq> ModeEnforce \<or> startUnderWay model (seenRunning deps model forceStart)
     \<or> memoryCovers config model (seenRunning deps model forceStart) (seenMemory deps)"
    by (cases "hm_mode config = ModeOff") (auto simp: admit_result(1) same seen)
  finally show ?thesis .
qed

lemma startUnderWay_forced: "\<not> startUnderWay model (filter (\<lambda>r. re_model r \<noteq> model) rs)"
  by (auto simp: startUnderWay_def list_ex_iff)

lemma declaredRelease_forced:
  "declaredRelease config model (filter (\<lambda>r. re_model r \<noteq> model) rs) = declaredRelease config model rs"
  by (simp add: declaredRelease_def conj_commute)

lemma memoryCovers_forced:
  "memoryCovers config model (filter (\<lambda>r. re_model r \<noteq> model) rs) memory = memoryCovers config model rs memory"
  by (simp add: memoryCovers_def declaredRelease_forced split: option.split)

lemma admit_waits:
  assumes "hm_mode config \<noteq> ModeOff"
  shows "snd (snd (admitHostMemory config model deps lbl now tm)) \<le> max 1 (timeoutOf deps) + 1"
proof -
  let ?w1 = "waited (getRunning deps) (max 1 (timeoutOf deps))"
  have arith: "a \<le> max 1 t \<Longrightarrow> b \<le> max 1 (t - a) \<Longrightarrow> a + b \<le> max 1 t + 1" for a b t :: int
    by (simp add: max_def split: if_splits)
  have le: "?w1 \<le> max 1 (timeoutOf deps)" by (rule waited_bounds)
  have "?w1 + waited (readMemory deps) (max 1 (timeoutOf deps - ?w1)) \<le> max 1 (timeoutOf deps) + 1"
    by (rule arith [OF le waited_bounds(2)])
  then show ?thesis using assms le by (simp add: admit_result(2))
qed

lemma createModelStartAdmission_waits:
  "snd (snd (createModelStartAdmission config deps logLabel model forceStart now tm))
     \<le> max 1 (timeoutOf deps) + 1"
proof -
  let ?deps = "if forceStart then deps\<lparr>getRunning := withoutModel model (getRunning deps)\<rparr> else deps"
  have "timeoutOf ?deps = timeoutOf deps" by (simp add: timeoutOf_def)
  then have "snd (snd (admitHostMemory config model ?deps lbl now tm)) \<le> max 1 (timeoutOf deps) + 1"
    if "hm_mode config \<noteq> ModeOff" for lbl
    using admit_waits [OF that, of model ?deps lbl now tm] by simp
  then show ?thesis
    by (simp add: createModelStartAdmission_def Let_def case_prod_unfold)
qed

section \<open>Properties\<close>

text \<open>
  C33: in enforce mode a model start passes exactly when the model is ready or starting already, or
  its declared budget plus the reserve fits into the usable host memory plus the declared release
  of the other ready models, capped by what is in use; an observation that failed or ran into the
  deadline counts as unknown. A forced start passes only on the memory test, to which the model's
  own residency contributes nothing.
\<close>
theorem host_memory_start_iff:
  assumes "hm_mode config = ModeEnforce"
  shows "(fst (createModelStartAdmission config deps logLabel model False now tm) = Inr () \<longleftrightarrow>
           startUnderWay model (seenRunning deps model False)
           \<or> memoryCovers config model (seenRunning deps model False) (seenMemory deps))
       \<and> (fst (createModelStartAdmission config deps logLabel model True now tm) = Inr () \<longleftrightarrow>
           memoryCovers config model (seenRunning deps model False) (seenMemory deps))"
  using assms
  by (simp add: start_result seenRunning_def startUnderWay_forced memoryCovers_forced Let_def)

text \<open>
  The check holds its caller for at most one millisecond more than the shared observation
  deadline (which is at least one millisecond), however slow or silent the two readers are, and
  outside enforce mode it never refuses a start.
\<close>
lemma host_memory_check_bounded:
  "snd (snd (createModelStartAdmission config deps logLabel model forceStart now tm))
       \<le> max 1 (timeoutOf deps) + 1
     \<and> (hm_mode config = ModeEnforce
        \<or> fst (createModelStartAdmission config deps logLabel model forceStart now tm) = Inr ())"
  using createModelStartAdmission_waits start_result by blast

section \<open>Witnesses\<close>

text \<open>
  A host of 128 units with 40 available, 10 of them CMA; one other model, ready and declared to
  release 30; a budget of 50 and a reserve of 8.
\<close>

definition wHostConfig :: HostMemoryAdmissionConfig where
  "wHostConfig = \<lparr>hm_mode = ModeEnforce, modelBudgetBytes = [''big'' \<mapsto> 50],
     modelReclaimBytes = [''small'' \<mapsto> 30], reserveBytes = 8, hm_retryAfterSeconds = 30\<rparr>"

definition wHostDeps :: HostMemoryAdmissionDeps where
  "wHostDeps = \<lparr>getRunning = Settles 2 (Inr [\<lparr>re_model = ''small'', re_state = ''ready''\<rparr>]),
     readMemory = Settles 1 (Inr (Inr \<lparr>memTotalBytes = 128, memAvailableBytes = 40,
       cmaFreeBytes = Some 10, gttUsedBytes = None, gttTotalBytes = None\<rparr>)),
     sinkThrows = True, observationTimeoutMs = None\<rparr>"

theorem host_memory_start_iff_witness:
  "fst (createModelStartAdmission wHostConfig wHostDeps (\<lambda>_. Inr None) ''big'' True 0
          \<lparr>tm_log = [], tm_counted = []\<rparr>) = Inr ()"
proof -
  have mode: "hm_mode wHostConfig = ModeEnforce" by (simp add: wHostConfig_def)
  have "memoryCovers wHostConfig ''big'' (seenRunning wHostDeps ''big'' False) (seenMemory wHostDeps)"
    by (simp add: memoryCovers_def seenRunning_def seenMemory_def wHostConfig_def wHostDeps_def timeoutOf_def
        DEFAULT_OBSERVATION_TIMEOUT_MS_def observed_def waited_def entries_def rightOf_def declaredRelease_def
        usableAvailable_def get_or_def Let_def)
  then show ?thesis
    using host_memory_start_iff [OF mode, of wHostDeps "\<lambda>_. Inr None" "''big''" 0] by blast
qed

lemma host_memory_check_bounded_witness:
  "snd (snd (createModelStartAdmission wHostConfig (wHostDeps\<lparr>readMemory := Never\<rparr>) (\<lambda>_. Inr None) ''big'' False 0
          \<lparr>tm_log = [], tm_counted = []\<rparr>)) \<le> 751"
proof -
  have "timeoutOf (wHostDeps\<lparr>readMemory := Never\<rparr>) = 750"
    by (simp add: timeoutOf_def wHostDeps_def DEFAULT_OBSERVATION_TIMEOUT_MS_def)
  then show ?thesis
    using host_memory_check_bounded [of wHostConfig "wHostDeps\<lparr>readMemory := Never\<rparr>" "\<lambda>_. Inr None" "''big''" False 0]
    by simp
qed

lemma meminfo_sample:
  "meminfoBytes (''MemTotal:       131072 kB'' @ [CHR 0x0A] @ ''CmaFree:    40 kB'' @ [CHR 0x0A]) ''CmaFree'' = Some 40960"
  "meminfoBytes ''MemTotalX: 4 kB'' ''MemTotal'' = None" "parseByteInteger ('' 12'' @ [CHR 0x0A]) = Some 12"
  by code_simp+

end
