(* ===== verification/Keystore_Db.thy ===== *)
theory Keystore_Db
  imports JS_Strings
begin

text \<open>
  The tables of \<open>src/homeserver/keystore.ts\<close>: \<open>api_keys\<close>, \<open>invites\<close>, \<open>credit_topups\<close> and
  \<open>key_rotation_plans\<close>, as lists of rows in the order of their rowids. An \<open>UPDATE \<dots> WHERE\<close> is a map
  over the rows, its number of changes the number of rows that meet the condition.

  A timestamp column holds \<open>toISOString()\<close> of an instant. Within the years 0 to 9999 the text has a
  fixed width and orders as the instants do, whether the code compares the texts or their \<open>Date.parse\<close>, so the model keeps
  the instant. A JSON column holds the list it encodes.
\<close>

datatype Tier = OwnerTier | GuestTier

record KeyRow =
  k_alias :: string
  k_key_hash :: string
  k_tier :: Tier
  k_scope :: "string option"
  k_model_allow_list :: "string list"
  k_system_one_model_allow_list :: "string list"
  k_embedding_model_allow_list :: "string list"
  k_rpm :: int
  k_tpm :: int
  k_daily_token_budget :: int
  k_max_parallel :: int
  k_credit_limit :: int
  k_credits_used :: int
  k_expires_at :: "millis option"
  k_created_at :: millis
  k_revoked_at :: "millis option"
  k_logical_alias :: "string option"
  k_last_used_at :: "millis option"
  k_use_count :: int

record InviteRow =
  iv_label :: string
  iv_code_hash :: string
  iv_tier :: Tier
  iv_credit_limit :: int
  iv_model_allow_list :: "string list"
  iv_alias_prefix :: string
  iv_created_at :: millis
  iv_redeemed_at :: "millis option"
  iv_redeemed_key_alias :: "string option"

datatype KeyRotationStatus = Staged | Committed | AbortedPlan

record KeyRotationPlanRow =
  kp_plan_id :: string
  kp_logical_alias :: string
  kp_replacement_alias :: string
  kp_previous_aliases :: "string list"
  kp_staged_at :: millis
  kp_overlap_expires_at :: millis
  kp_status :: KeyRotationStatus
  kp_baseline_use_count :: int
  kp_preflight_at :: "millis option"
  kp_preflight_use_count :: "int option"
  kp_preflight_last_used_at :: "millis option"
  kp_completed_at :: "millis option"

record CreditTopUpReceipt =
  tu_requestId :: string
  tu_alias :: string
  tu_amount :: int
  tu_previousLimit :: int
  tu_creditLimit :: int
  tu_operatorAlias :: string
  tu_createdAt :: millis

record KeyDb =
  api_keys :: "KeyRow list"
  invites :: "InviteRow list"
  credit_topups :: "CreditTopUpReceipt list"
  key_rotation_plans :: "KeyRotationPlanRow list"

text \<open>\<open>logical_alias ?? alias\<close>, the family of a key.\<close>

definition familyOf :: "KeyRow \<Rightarrow> string" where
  "familyOf row = (case k_logical_alias row of None \<Rightarrow> k_alias row | Some l \<Rightarrow> l)"

definition hasStagedPlan :: "string \<Rightarrow> KeyDb \<Rightarrow> bool" where
  "hasStagedPlan logicalAlias db =
     list_ex (\<lambda>p. kp_logical_alias p = logicalAlias \<and> kp_status p = Staged) (key_rotation_plans db)"

text \<open>The two uniqueness constraints of \<open>api_keys\<close>.\<close>

definition uniqueHashes :: "KeyDb \<Rightarrow> bool" where
  "uniqueHashes db \<longleftrightarrow> distinct (map k_key_hash (api_keys db))"

definition uniqueAliases :: "KeyDb \<Rightarrow> bool" where
  "uniqueAliases db \<longleftrightarrow> distinct (map k_alias (api_keys db))"

lemma unique_row:
  assumes "uniqueHashes db" "r \<in> set (api_keys db)" "s \<in> set (api_keys db)" "k_key_hash r = k_key_hash s"
  shows "r = s"
  using assms unfolding uniqueHashes_def by (metis distinct_map inj_onD)

lemma unique_alias_row:
  assumes "uniqueAliases db" "r \<in> set (api_keys db)" "s \<in> set (api_keys db)" "k_alias r = k_alias s"
  shows "r = s"
  using assms unfolding uniqueAliases_def by (metis distinct_map inj_onD)

end
