(* ===== verification/Credits.thy ===== *)
theory Credits
  imports Keystore_Db
begin

text \<open>
  Lifetime credit accounting, the section of that name in \<open>src/homeserver/keystore.ts\<close>: the
  conditional reservation, its reconciliation with real usage, the accrual of uncapped keys and
  the operator's top-up, as operations on the tables of \<open>Keystore_Db\<close>.
\<close>

definition isCreditExhausted :: "KeyRow \<Rightarrow> bool" where
  "isCreditExhausted rec \<longleftrightarrow> k_credit_limit rec > 0 \<and> k_credits_used rec \<ge> k_credit_limit rec"

text \<open>\<open>UPDATE api_keys SET credits_used = f(credits_used) WHERE P\<close>.\<close>

definition updateUsed :: "(KeyRow \<Rightarrow> bool) \<Rightarrow> (int \<Rightarrow> int) \<Rightarrow> KeyDb \<Rightarrow> KeyDb" where
  "updateUsed P f db =
     db\<lparr>api_keys := map (\<lambda>r. if P r then r\<lparr>k_credits_used := f (k_credits_used r)\<rparr> else r) (api_keys db)\<rparr>"

definition recordCreditUsage :: "string \<Rightarrow> int \<Rightarrow> KeyDb \<Rightarrow> KeyDb" where
  "recordCreditUsage keyHash tokens db =
     (if tokens \<le> 0 then db else updateUsed (\<lambda>r. k_key_hash r = keyHash) (\<lambda>u. u + tokens) db)"

definition reservable :: "string \<Rightarrow> int \<Rightarrow> KeyRow \<Rightarrow> bool" where
  "reservable keyHash amount r \<longleftrightarrow>
     k_key_hash r = keyHash \<and> k_revoked_at r = None
     \<and> (k_credit_limit r = 0 \<or> k_credits_used r + amount \<le> k_credit_limit r)"

definition reserveCredits :: "string \<Rightarrow> int \<Rightarrow> KeyDb \<Rightarrow> bool \<times> KeyDb" where
  "reserveCredits keyHash reserve db =
     (let amount = (if reserve > 0 then reserve else 0)
      in (list_ex (reservable keyHash amount) (api_keys db),
          updateUsed (reservable keyHash amount) (\<lambda>u. u + amount) db))"

definition reconcileCredits :: "string \<Rightarrow> int \<Rightarrow> int \<Rightarrow> KeyDb \<Rightarrow> KeyDb" where
  "reconcileCredits keyHash reserved realTokens db =
     (let delta = realTokens - reserved
      in if delta = 0 then db
         else updateUsed (\<lambda>r. k_key_hash r = keyHash) (\<lambda>u. max 0 (u + delta)) db)"

section \<open>Top-ups\<close>

datatype CreditTopUpError = TopUpInvalid | TopUpConflict

definition requestIdChar :: "char \<Rightarrow> bool" where
  "requestIdChar c \<longleftrightarrow>
     (let n = of_char c :: nat
      in 65 \<le> n \<and> n \<le> 90 \<or> 97 \<le> n \<and> n \<le> 122 \<or> 48 \<le> n \<and> n \<le> 57 \<or> n = 95 \<or> n = 45)"

text \<open>The request id expression \<open>[A-Za-z0-9_-]{1,128}\<close>, anchored at both ends.\<close>

definition validRequestId :: "string \<Rightarrow> bool" where
  "validRequestId s \<longleftrightarrow> 1 \<le> length s \<and> length s \<le> 128 \<and> list_all requestIdChar s"

text \<open>The row a top-up may change: present, not revoked, not expired, capped, and still safe after it.\<close>

definition toppable :: "int \<Rightarrow> millis \<Rightarrow> KeyRow \<Rightarrow> bool" where
  "toppable amount now row \<longleftrightarrow>
     k_revoked_at row = None
     \<and> (case k_expires_at row of None \<Rightarrow> True | Some e \<Rightarrow> \<not> e \<le> now)
     \<and> k_credit_limit row > 0 \<and> \<bar>k_credit_limit row + amount\<bar> \<le> max_safe_integer"

definition topUpCredits ::
  "string \<Rightarrow> js_number \<Rightarrow> string \<Rightarrow> string \<Rightarrow> millis \<Rightarrow> KeyDb
     \<Rightarrow> (CreditTopUpError + CreditTopUpReceipt) \<times> KeyDb" where
  "topUpCredits alias amountArg requestId operatorAlias now db =
     (let amount = the_int amountArg in
      if alias = [] \<or> length alias > 200 \<or> \<not> isSafeInteger amountArg \<or> amount \<le> 0
         \<or> \<not> validRequestId requestId \<or> operatorAlias = []
      then (Inl TopUpInvalid, db)
      else case find (\<lambda>t. tu_requestId t = requestId) (credit_topups db) of
        Some prior \<Rightarrow>
          if tu_alias prior \<noteq> alias \<or> tu_amount prior \<noteq> amount \<or> tu_operatorAlias prior \<noteq> operatorAlias
          then (Inl TopUpConflict, db) else (Inr prior, db)
      | None \<Rightarrow>
          (case find (\<lambda>r. k_alias r = alias) (api_keys db) of
             None \<Rightarrow> (Inl TopUpInvalid, db)
           | Some row \<Rightarrow>
               if \<not> toppable amount now row
                  \<or> hasStagedPlan (familyOf row) db
               then (Inl TopUpInvalid, db)
               else let receipt = \<lparr>tu_requestId = requestId, tu_alias = alias, tu_amount = amount,
                                   tu_previousLimit = k_credit_limit row,
                                   tu_creditLimit = k_credit_limit row + amount,
                                   tu_operatorAlias = operatorAlias, tu_createdAt = now\<rparr>
                    in (Inr receipt,
                        db\<lparr>api_keys := map (\<lambda>r. if k_alias r = alias
                              then r\<lparr>k_credit_limit := tu_creditLimit receipt\<rparr> else r) (api_keys db),
                           credit_topups := credit_topups db @ [receipt]\<rparr>)))"

section \<open>Accounts\<close>

text \<open>
  The used credits of every row with a key hash are given by a function of the hash: the shape the
  ledgers below keep, whatever the number of rows.
\<close>

definition accounts :: "KeyDb \<Rightarrow> (string \<Rightarrow> int) \<Rightarrow> bool" where
  "accounts db used \<longleftrightarrow> (\<forall>r \<in> set (api_keys db). k_credits_used r = used (k_key_hash r))"

definition withinCaps :: "KeyDb \<Rightarrow> bool" where
  "withinCaps db \<longleftrightarrow> (\<forall>r \<in> set (api_keys db). k_credit_limit r > 0 \<longrightarrow> k_credits_used r \<le> k_credit_limit r)"

definition hasHash :: "string \<Rightarrow> KeyDb \<Rightarrow> bool" where
  "hasHash h db \<longleftrightarrow> h \<in> k_key_hash ` set (api_keys db)"

lemma updateUsed_hashes [simp]: "map k_key_hash (api_keys (updateUsed P f db)) = map k_key_hash (api_keys db)"
  by (simp add: updateUsed_def comp_def if_distrib cong: if_cong)

lemma updateUsed_unique [simp]: "uniqueHashes (updateUsed P f db) = uniqueHashes db"
  by (simp add: uniqueHashes_def)

lemma accounts_update:
  assumes "accounts db used"
  shows "accounts (updateUsed (\<lambda>r. k_key_hash r = h) f db) (used(h := f (used h)))"
  using assms by (auto simp: accounts_def updateUsed_def)

lemma accounts_recordCreditUsage:
  "accounts db used \<Longrightarrow> accounts (recordCreditUsage h t db) (used(h := used h + max 0 t))"
  using accounts_update [of db used h "\<lambda>u. u + t"] by (simp add: recordCreditUsage_def)

text \<open>A reconciliation replaces the reservation by the charge, provided it is still in the counter.\<close>

lemma accounts_reconcile:
  assumes "accounts db used" and "reserved \<le> used h" and "0 \<le> charge"
  shows "accounts (reconcileCredits h reserved charge db) (used(h := used h - reserved + charge))"
  using accounts_update [OF assms(1), of h "\<lambda>u. max 0 (u + (charge - reserved))"] assms
  by (auto simp: reconcileCredits_def Let_def algebra_simps)

lemma reserve_ok_row:
  assumes "uniqueHashes db" "fst (reserveCredits h n db)" "r \<in> set (api_keys db)" "k_key_hash r = h"
  shows "reservable h (max 0 n) r"
proof -
  have amount: "(if n > 0 then n else 0) = max 0 n" by auto
  obtain s where "s \<in> set (api_keys db)" "reservable h (max 0 n) s"
    using assms(2) by (auto simp: reserveCredits_def list_ex_iff Let_def amount)
  moreover from this have "s = r" using unique_row [OF assms(1)] assms(3,4) by (simp add: reservable_def)
  ultimately show ?thesis by simp
qed

lemma accounts_reserve:
  assumes "accounts db used" "uniqueHashes db" "fst (reserveCredits h n db)"
  shows "accounts (snd (reserveCredits h n db)) (used(h := used h + max 0 n))"
proof -
  have amount: "(if n > 0 then n else 0) = max 0 n" by auto
  have "reservable h (max 0 n) r \<longleftrightarrow> k_key_hash r = h" if "r \<in> set (api_keys db)" for r
    using reserve_ok_row [OF assms(2,3) that] by (auto simp: reservable_def)
  then have "snd (reserveCredits h n db) = updateUsed (\<lambda>r. k_key_hash r = h) (\<lambda>u. u + max 0 n) db"
    by (auto simp: reserveCredits_def updateUsed_def Let_def amount)
  then show ?thesis using accounts_update [OF assms(1)] by simp
qed

lemma reserve_refused:
  assumes "\<not> fst (reserveCredits h n db)"
  shows "snd (reserveCredits h n db) = db"
proof -
  have "\<not> reservable h (if n > 0 then n else 0) r" if "r \<in> set (api_keys db)" for r
    using assms that by (auto simp: reserveCredits_def list_ex_iff Let_def)
  then have "map (\<lambda>r. if reservable h (if n > 0 then n else 0) r then g r else r) (api_keys db) = api_keys db" for g
    by (simp add: map_idI)
  then show ?thesis by (simp add: reserveCredits_def updateUsed_def Let_def)
qed
lemma within_reserve: "withinCaps db \<Longrightarrow> withinCaps (snd (reserveCredits h n db))"
  by (auto simp: withinCaps_def reserveCredits_def updateUsed_def reservable_def Let_def)

lemma within_reconcile: "withinCaps db \<Longrightarrow> charge \<le> reserved \<Longrightarrow> withinCaps (reconcileCredits h reserved charge db)"
  by (fastforce simp: withinCaps_def reconcileCredits_def updateUsed_def Let_def)

lemma within_recordCreditUsage:
  assumes "withinCaps db" "\<And>r. r \<in> set (api_keys db) \<Longrightarrow> k_key_hash r = h \<Longrightarrow> k_credit_limit r \<le> 0"
  shows "withinCaps (recordCreditUsage h t db)"
  using assms by (fastforce simp: withinCaps_def recordCreditUsage_def updateUsed_def)

text \<open>Whether a key is capped at all does not depend on its use.\<close>

definition cappedHash :: "string \<Rightarrow> KeyDb \<Rightarrow> bool" where
  "cappedHash h db = list_ex (\<lambda>r. k_key_hash r = h \<and> k_credit_limit r > 0) (api_keys db)"

lemma cappedHash_update [simp]: "cappedHash h (updateUsed P f db) = cappedHash h db"
proof -
  have "list_ex (\<lambda>r. k_key_hash r = h \<and> k_credit_limit r > 0)
      (map (\<lambda>r. if P r then r\<lparr>k_credits_used := f (k_credits_used r)\<rparr> else r) rs)
    = list_ex (\<lambda>r. k_key_hash r = h \<and> k_credit_limit r > 0) rs" for rs
    by (induction rs) auto
  then show ?thesis by (simp add: cappedHash_def updateUsed_def)
qed

lemma credit_ops_capped [simp]:
  "cappedHash g (recordCreditUsage h t db) = cappedHash g db"
  "cappedHash g (snd (reserveCredits h t db)) = cappedHash g db"
  "cappedHash g (reconcileCredits h a b db) = cappedHash g db"
  by (simp_all add: recordCreditUsage_def reserveCredits_def reconcileCredits_def Let_def)

lemma credit_ops_unique [simp]:
  "uniqueHashes (recordCreditUsage h t db) = uniqueHashes db"
  "uniqueHashes (snd (reserveCredits h t db)) = uniqueHashes db"
  "uniqueHashes (reconcileCredits h a b db) = uniqueHashes db"
  by (simp_all add: recordCreditUsage_def reserveCredits_def reconcileCredits_def Let_def)

section \<open>Top-ups and the accounts\<close>

lemma topUp_cases:
  obtains (kept) e where "topUpCredits a n i oper now db = (Inl e, db)"
  | (replay) t where "topUpCredits a n i oper now db = (Inr t, db)" "t \<in> set (credit_topups db)" "tu_requestId t = i"
      "tu_alias t = a" "tu_amount t = the_int n" "tu_operatorAlias t = oper"
  | (granted) row t where "topUpCredits a n i oper now db = (Inr t, db\<lparr>api_keys := map (\<lambda>r. if k_alias r = a
        then r\<lparr>k_credit_limit := tu_creditLimit t\<rparr> else r) (api_keys db), credit_topups := credit_topups db @ [t]\<rparr>)"
      "find (\<lambda>r. k_alias r = a) (api_keys db) = Some row" "toppable (the_int n) now row"
      "tu_creditLimit t = k_credit_limit row + the_int n" "0 < the_int n" "tu_requestId t = i"
      "tu_alias t = a" "tu_amount t = the_int n" "tu_operatorAlias t = oper"
      "find (\<lambda>t. tu_requestId t = i) (credit_topups db) = None"
proof (cases "a = [] \<or> length a > 200 \<or> \<not> isSafeInteger n \<or> the_int n \<le> 0 \<or> \<not> validRequestId i \<or> oper = []")
  case True
  then show ?thesis by (intro kept) (auto simp: topUpCredits_def Let_def)
next
  case args: False
  show ?thesis
  proof (cases "find (\<lambda>t. tu_requestId t = i) (credit_topups db)")
    case (Some prior)
    then have "prior \<in> set (credit_topups db)" "tu_requestId prior = i"
      by (auto simp: find_Some_iff)
    with Some args show ?thesis
      by (cases "tu_alias prior = a \<and> tu_amount prior = the_int n \<and> tu_operatorAlias prior = oper")
        (auto simp: topUpCredits_def Let_def intro: kept replay)
  next
    case fresh: None
    show ?thesis
    proof (cases "find (\<lambda>r. k_alias r = a) (api_keys db)")
      case None
      with fresh args show ?thesis by (intro kept) (auto simp: topUpCredits_def Let_def)
    next
      case (Some row)
      show ?thesis
      proof (cases "toppable (the_int n) now row \<and> \<not> hasStagedPlan (familyOf row) db")
        case False
        with fresh args Some show ?thesis by (intro kept) (auto simp: topUpCredits_def Let_def)
      next
        case True
        let ?t = "\<lparr>tu_requestId = i, tu_alias = a, tu_amount = the_int n, tu_previousLimit = k_credit_limit row,
            tu_creditLimit = k_credit_limit row + the_int n, tu_operatorAlias = oper, tu_createdAt = now\<rparr>"
        show ?thesis using True fresh args Some
          by (intro granted [of ?t row]) (simp_all add: topUpCredits_def Let_def)
      qed
    qed
  qed
qed

text \<open>A top-up raises one limit and touches no counter.\<close>

lemma aliases_kept [simp]:
  "uniqueAliases (recordCreditUsage h t db) = uniqueAliases db"
  "uniqueAliases (snd (reserveCredits h t db)) = uniqueAliases db"
  "uniqueAliases (reconcileCredits h a b db) = uniqueAliases db"
  by (simp_all add: uniqueAliases_def recordCreditUsage_def reserveCredits_def reconcileCredits_def
      updateUsed_def Let_def comp_def if_distrib cong: if_cong)

lemma raise_limit:
  fixes ts
  assumes "uniqueAliases db" "row \<in> set (api_keys db)" "k_alias row = a" "0 < k_credit_limit row" "k_credit_limit row \<le> new"
  defines "db' \<equiv> db\<lparr>api_keys := map (\<lambda>r. if k_alias r = a then r\<lparr>k_credit_limit := new\<rparr> else r) (api_keys db),
                    credit_topups := ts\<rparr>"
  shows "uniqueHashes db' = uniqueHashes db"
    and "uniqueAliases db' = uniqueAliases db"
    and "accounts db' used = accounts db used"
    and "withinCaps db \<Longrightarrow> withinCaps db'"
    and "cappedHash h db' = cappedHash h db"
proof -
  have same: "r = row" if "r \<in> set (api_keys db)" "k_alias r = a" for r
    using assms(1-3) that unfolding uniqueAliases_def by (metis distinct_map inj_onD)
  have "map k_key_hash (api_keys db') = map k_key_hash (api_keys db)"
    "map k_alias (api_keys db') = map k_alias (api_keys db)"
    by (auto simp: db'_def)
  then show "uniqueHashes db' = uniqueHashes db" "uniqueAliases db' = uniqueAliases db"
    by (simp_all only: uniqueHashes_def uniqueAliases_def)
  have "list_all (\<lambda>r. k_credits_used r = used (k_key_hash r))
      (map (\<lambda>r. if k_alias r = a then r\<lparr>k_credit_limit := new\<rparr> else r) rs)
    = list_all (\<lambda>r. k_credits_used r = used (k_key_hash r)) rs" for rs
    by (induction rs) auto
  then show "accounts db' used = accounts db used"
    by (simp add: accounts_def db'_def list_all_iff [symmetric] del: set_map)
  show "withinCaps db \<Longrightarrow> withinCaps db'"
    using same assms(4,5) by (fastforce simp: withinCaps_def db'_def)
  have "list_ex (\<lambda>r. k_key_hash r = h \<and> k_credit_limit r > 0)
      (map (\<lambda>r. if k_alias r = a then r\<lparr>k_credit_limit := new\<rparr> else r) rs)
    = list_ex (\<lambda>r. k_key_hash r = h \<and> k_credit_limit r > 0) rs" if "set rs \<subseteq> set (api_keys db)" for rs
    using that same assms(4,5) by (induction rs) auto
  then show "cappedHash h db' = cappedHash h db" by (simp add: cappedHash_def db'_def)
qed

lemma topUp_keeps:
  fixes a n i oper now
  assumes "uniqueAliases db"
  defines "db' \<equiv> snd (topUpCredits a n i oper now db)"
  shows "uniqueHashes db' = uniqueHashes db" "uniqueAliases db'" "accounts db' used = accounts db used"
    "withinCaps db \<Longrightarrow> withinCaps db'" "cappedHash h db' = cappedHash h db"
proof -
  have "(uniqueHashes db' = uniqueHashes db) \<and> uniqueAliases db' \<and> (accounts db' used = accounts db used)
      \<and> (withinCaps db \<longrightarrow> withinCaps db') \<and> (cappedHash h db' = cappedHash h db)"
  proof (rule topUp_cases [of a n i oper now db])
    fix row t
    assume eq: "topUpCredits a n i oper now db = (Inr t, db\<lparr>api_keys := map (\<lambda>r. if k_alias r = a
        then r\<lparr>k_credit_limit := tu_creditLimit t\<rparr> else r) (api_keys db), credit_topups := credit_topups db @ [t]\<rparr>)"
      and row: "find (\<lambda>r. k_alias r = a) (api_keys db) = Some row" and ok: "toppable (the_int n) now row"
      and new: "tu_creditLimit t = k_credit_limit row + the_int n" and pos: "0 < the_int n"
    have "row \<in> set (api_keys db)" "k_alias row = a" using row by (auto simp: find_Some_iff)
    moreover have "0 < k_credit_limit row" "k_credit_limit row \<le> tu_creditLimit t"
      using ok new pos by (simp_all add: toppable_def)
    ultimately show ?thesis
      using raise_limit [OF assms(1), where row = row and a = a and new = "tu_creditLimit t" and ts = "credit_topups db @ [t]"] assms(1) eq
      by (simp add: db'_def)
  qed (use assms(1) in \<open>simp_all add: db'_def\<close>)
  then show "uniqueHashes db' = uniqueHashes db" "uniqueAliases db'" "accounts db' used = accounts db used"
    "withinCaps db \<Longrightarrow> withinCaps db'" "cappedHash h db' = cappedHash h db"
    by simp_all
qed

end
