(* ===== verification/Image_Jobs.thy ===== *)
theory Image_Jobs
  imports Admission Quota Credits
begin

text \<open>
  Image generation: the metered part of \<open>handleImageGeneration\<close> in \<open>src/homeserver/gateway.ts\<close>,
  the asynchronous job store and its single-slot worker, \<open>src/homeserver/image-jobs.ts\<close>, and the
  reading of the sidecar's reply, \<open>src/homeserver/image-sidecar.ts\<close>.

  \<open>image_jobs\<close> is a list of rows; each guarded \<open>UPDATE\<close> is one transaction. The worker of one
  admission controller is \<open>iw_worker\<close>; what runs between two awaits is one operation. The jobs a
  worker has dispatched are in \<open>iw_inflight\<close>, each with its specification object, because such a
  job outlives the worker that dispatched it when the worker is stopped. Synchronous calls that
  have reserved and not yet settled are in \<open>iw_calls\<close>.
\<close>

datatype JobStatus = JQueued | JRunning | JSucceeded | JFailed | JCancelled | JExpired

record ImageJobDbRow =
  ij_id :: string
  ij_ts :: millis
  ij_alias :: string
  ij_key_hash :: "string option"
  ij_tier :: Lane
  ij_model :: string
  ij_status :: JobStatus
  ij_n :: int
  ij_credits_reserved :: int
  ij_credits_charged :: "int option"
  ij_quota_alias :: "string option"
  ij_quota_day :: "string option"
  ij_quota_reserved_daily :: "int option"
  ij_result_path :: "string option"
  ij_expires_at :: "millis option"
  ij_error_class :: "string option"

record ParsedImageRequest =
  pr_model :: string
  pr_sync :: bool
  pr_prompt :: string
  pr_n :: int
  pr_size :: string

record ImageJobSubmission =
  su_parsed :: ParsedImageRequest
  su_alias :: string
  su_keyHash :: "string option"
  su_lane :: Lane
  su_creditsReserved :: int
  su_capped :: bool
  su_creditsPerImage :: int
  su_quotaReservation :: QuotaReservation
  su_backendModel :: string
  su_ownerCapture :: bool

record JobSpec =
  js_submission :: ImageJobSubmission
  js_aborted :: bool
  js_cancelled :: bool
  js_timedOut :: bool

record WorkerCtx =
  wc_queue :: "string list"
  wc_specs :: "string \<rightharpoonup> JobSpec"
  wc_pumping :: bool
  wc_busy :: "string option"

text \<open>The completion rows of the request log, the counter of images and the owner log.\<close>

record CompletionLog =
  cl_alias :: string
  cl_status :: int
  cl_outcome :: string
  cl_delivered :: int
  cl_errorClass :: "string option"

record ImageWorld =
  iw_rows :: "ImageJobDbRow list"
  iw_keys :: KeyDb
  iw_quota :: QuotaState
  iw_files :: "string \<rightharpoonup> string list"
  iw_worker :: "WorkerCtx option"
  iw_inflight :: "(string \<times> JobSpec) list"
  iw_calls :: "ImageJobSubmission list"
  iw_log :: "CompletionLog list"
  iw_generated :: "(string \<times> int) list"
  iw_ownerLog :: "(string \<times> string) list"

record ImageConfig =
  imageResultDir :: string
  imageResultTtlMs :: millis

record Principal =
  pc_alias :: string
  pc_keyHash :: "string option"
  pc_tier :: Lane
  pc_creditLimit :: int
  pc_limits :: QuotaLimits

section \<open>The sidecar's reply\<close>

datatype SidecarErrorKind = UpstreamUnavailable | UpstreamTimeout | BadResponse

text \<open>What the fetch did: no answer, an HTTP status from 400, a body that is not JSON, or the
  entries of \<open>data\<close> if it is an array, \<open>None\<close> for an entry whose \<open>b64_json\<close> is not a string.\<close>

datatype SidecarReply =
    Unreachable | TimedOut | Aborted | HttpError | NonJson | Body "string option list option"

text \<open>\<open>Inl (Some k)\<close> is an \<open>ImageSidecarError\<close> of kind k, \<open>Inl None\<close> any other error.\<close>

type_synonym SidecarResult = "SidecarErrorKind option + string list"

definition generateImages :: "int \<Rightarrow> SidecarReply \<Rightarrow> SidecarResult" where
  "generateImages n reply =
     (case reply of
        Aborted \<Rightarrow> Inl None
      | TimedOut \<Rightarrow> Inl (Some UpstreamTimeout)
      | Unreachable \<Rightarrow> Inl (Some UpstreamUnavailable)
      | HttpError \<Rightarrow> Inl (Some UpstreamUnavailable)
      | NonJson \<Rightarrow> Inl (Some BadResponse)
      | Body data \<Rightarrow>
          (case data of
             None \<Rightarrow> Inl (Some BadResponse)
           | Some ds \<Rightarrow>
               let b64 = map the (filter (\<lambda>d. d \<noteq> None) ds)
               in if ds = [] \<or> b64 = [] then Inl (Some BadResponse) else Inr (take (nat n) b64)))"

section \<open>Rows\<close>

definition liveStatus :: "JobStatus \<Rightarrow> bool" where
  "liveStatus s \<longleftrightarrow> s = JQueued \<or> s = JRunning"

text \<open>\<open>UPDATE image_jobs SET \<dots> WHERE id = ? AND status IN (\<dots>)\<close>, and whether it changed a row.\<close>

definition updateRow ::
  "string \<Rightarrow> (JobStatus \<Rightarrow> bool) \<Rightarrow> (ImageJobDbRow \<Rightarrow> ImageJobDbRow) \<Rightarrow> ImageWorld \<Rightarrow> bool \<times> ImageWorld" where
  "updateRow jid P f w =
     (list_ex (\<lambda>r. ij_id r = jid \<and> P (ij_status r)) (iw_rows w),
      w\<lparr>iw_rows := map (\<lambda>r. if ij_id r = jid \<and> P (ij_status r) then f r else r) (iw_rows w)\<rparr>)"

definition readRow :: "string \<Rightarrow> ImageWorld \<Rightarrow> ImageJobDbRow option" where
  "readRow jid w = find (\<lambda>r. ij_id r = jid) (iw_rows w)"

definition resultPathFor :: "ImageConfig \<Rightarrow> string \<Rightarrow> string" where
  "resultPathFor cfg jid = imageResultDir cfg @ ''/'' @ jid @ ''.json''"

definition deleteResult :: "string option \<Rightarrow> ImageWorld \<Rightarrow> ImageWorld" where
  "deleteResult path w =
     (case path of
        None \<Rightarrow> w
      | Some p \<Rightarrow> if p = [] then w else w\<lparr>iw_files := (iw_files w)(p := None)\<rparr>)"

definition ownsRow :: "ImageJobDbRow \<Rightarrow> Principal \<Rightarrow> bool" where
  "ownsRow row princ \<longleftrightarrow>
     (if pc_keyHash princ \<noteq> None then ij_key_hash row = pc_keyHash princ
      else ij_key_hash row = None \<and> ij_alias row = pc_alias princ)"

record ImageJobView =
  vw_id :: string
  vw_status :: JobStatus
  vw_model :: string
  vw_n :: int
  vw_created :: int
  vw_expiresAt :: "millis option"
  vw_errorClass :: "string option"
  vw_data :: "string list option"

definition viewFromRow :: "ImageJobDbRow \<Rightarrow> bool \<Rightarrow> ImageWorld \<Rightarrow> ImageJobView" where
  "viewFromRow row includeData w =
     \<lparr>vw_id = ij_id row, vw_status = ij_status row, vw_model = ij_model row, vw_n = ij_n row,
      vw_created = ij_ts row div 1000, vw_expiresAt = ij_expires_at row, vw_errorClass = ij_error_class row,
      vw_data = (if includeData \<and> ij_status row = JSucceeded
                 then (case ij_result_path row of
                         None \<Rightarrow> None | Some p \<Rightarrow> if p = [] then None else iw_files w p)
                 else None)\<rparr>"

definition getImageJob :: "string \<Rightarrow> Principal \<Rightarrow> ImageWorld \<Rightarrow> ImageJobView option" where
  "getImageJob jid princ w =
     (case readRow jid w of
        None \<Rightarrow> None
      | Some row \<Rightarrow> if ownsRow row princ then Some (viewFromRow row True w) else None)"

section \<open>Metering\<close>

definition releaseQuota :: "QuotaReservation \<Rightarrow> int \<Rightarrow> millis \<Rightarrow> ImageWorld \<Rightarrow> ImageWorld" where
  "releaseQuota res units now w = w\<lparr>iw_quota := recordUsage (r_alias res) units now (Some res) (iw_quota w)\<rparr>"

text \<open>A refund is two commits, the credits and then the daily counter.\<close>

definition refundCredits :: "ImageJobSubmission \<Rightarrow> ImageWorld \<Rightarrow> ImageWorld" where
  "refundCredits sub w =
     (case su_keyHash sub of
        Some h \<Rightarrow> if su_capped sub then w\<lparr>iw_keys := reconcileCredits h (su_creditsReserved sub) 0 (iw_keys w)\<rparr> else w
      | None \<Rightarrow> w)"

definition refundJob :: "ImageJobSubmission \<Rightarrow> millis \<Rightarrow> ImageWorld \<Rightarrow> ImageWorld" where
  "refundJob sub now w = releaseQuota (su_quotaReservation sub) 0 now (refundCredits sub w)"

definition settleCredits :: "ImageJobSubmission \<Rightarrow> int \<Rightarrow> ImageWorld \<Rightarrow> ImageWorld" where
  "settleCredits sub charged w =
     (case su_keyHash sub of
        None \<Rightarrow> w
      | Some h \<Rightarrow>
          w\<lparr>iw_keys := (if su_capped sub then reconcileCredits h (su_creditsReserved sub) charged (iw_keys w)
                       else recordCreditUsage h charged (iw_keys w))\<rparr>)"

text \<open>A row written before the quota columns existed falls back to n units on the day it was made.\<close>

definition refundOrphanCredits :: "ImageJobDbRow \<Rightarrow> ImageWorld \<Rightarrow> ImageWorld" where
  "refundOrphanCredits row w =
     (case ij_key_hash row of
        Some h \<Rightarrow> if ij_credits_reserved row > 0
                  then w\<lparr>iw_keys := reconcileCredits h (ij_credits_reserved row) 0 (iw_keys w)\<rparr> else w
      | None \<Rightarrow> w)"

definition refundOrphanRow :: "ImageJobDbRow \<Rightarrow> millis \<Rightarrow> ImageWorld \<Rightarrow> ImageWorld" where
  "refundOrphanRow row now w =
     (let w1 = refundOrphanCredits row w
      in case ij_quota_alias row of
           None \<Rightarrow> w1
         | Some qa \<Rightarrow>
             releaseQuota \<lparr>r_alias = qa, r_eventId = [],
                r_reservedDaily = (case ij_quota_reserved_daily row of None \<Rightarrow> ij_n row | Some d \<Rightarrow> d),
                r_day = (case ij_quota_day row of None \<Rightarrow> dayKey (ij_ts row) | Some d \<Rightarrow> d)\<rparr> 0 now w1)"

section \<open>Submission\<close>

definition newRow :: "ImageConfig \<Rightarrow> string \<Rightarrow> millis \<Rightarrow> ImageJobSubmission \<Rightarrow> ImageJobDbRow" where
  "newRow cfg jid ts sub =
     \<lparr>ij_id = jid, ij_ts = ts, ij_alias = su_alias sub, ij_key_hash = su_keyHash sub, ij_tier = su_lane sub,
      ij_model = pr_model (su_parsed sub), ij_status = JQueued, ij_n = pr_n (su_parsed sub),
      ij_credits_reserved = su_creditsReserved sub, ij_credits_charged = None,
      ij_quota_alias = Some (r_alias (su_quotaReservation sub)),
      ij_quota_day = Some (r_day (su_quotaReservation sub)),
      ij_quota_reserved_daily = Some (r_reservedDaily (su_quotaReservation sub)),
      ij_result_path = None, ij_expires_at = Some (ts + imageResultTtlMs cfg), ij_error_class = None\<rparr>"

text \<open>
  \<open>submitImageJob\<close>: \<open>None\<close> when it throws, because no worker runs or because the insert fails (an id
  that is taken). The pump it starts runs as steps of its own.
\<close>

definition submitImageJob ::
  "ImageConfig \<Rightarrow> string \<Rightarrow> millis \<Rightarrow> ImageJobSubmission \<Rightarrow> ImageWorld \<Rightarrow> (ImageJobView \<times> ImageWorld) option" where
  "submitImageJob cfg jid ts sub w =
     (case iw_worker w of
        None \<Rightarrow> None
      | Some ctx \<Rightarrow>
          if list_ex (\<lambda>r. ij_id r = jid) (iw_rows w) then None
          else let spec = \<lparr>js_submission = sub, js_aborted = False, js_cancelled = False, js_timedOut = False\<rparr>;
                   ctx' = ctx\<lparr>wc_specs := (wc_specs ctx)(jid \<mapsto> spec), wc_queue := wc_queue ctx @ [jid],
                             wc_pumping := True\<rparr>;
                   row = newRow cfg jid ts sub
               in Some (viewFromRow row False w,
                        w\<lparr>iw_rows := iw_rows w @ [row], iw_worker := Some ctx'\<rparr>))"

datatype ImageResponse =
    RespBusy | RespCreditsExhausted | RespRateLimited QuotaReason seconds
  | RespAccepted ImageJobView | RespInternalError | RespDispatching

text \<open>The reservation of a capped key, and the closure \<open>releaseReserve\<close> that gives it back.\<close>

definition maintenanceRefuses :: "millis \<Rightarrow> AdmissionController \<Rightarrow> Principal \<Rightarrow> bool" where
  "maintenanceRefuses now controller princ =
     (let m = snapshot now controller
      in st_maintenanceMode m = Some True
         \<and> (pc_tier princ \<noteq> OwnerLane \<or> st_maintenanceScope m = Some ScopeExclusive))"

definition isCapped :: "Principal \<Rightarrow> bool" where
  "isCapped princ \<longleftrightarrow> pc_keyHash princ \<noteq> None \<and> pc_creditLimit princ > 0"

definition keyHashOf :: "Principal \<Rightarrow> string" where
  "keyHashOf princ = (case pc_keyHash princ of None \<Rightarrow> [] | Some h \<Rightarrow> h)"

definition reserveFor :: "bool \<Rightarrow> string \<Rightarrow> int \<Rightarrow> KeyDb \<Rightarrow> bool \<times> KeyDb" where
  "reserveFor iscap h cost keys = (if iscap then reserveCredits h cost keys else (True, keys))"

definition creditsTaken :: "bool \<Rightarrow> int \<Rightarrow> int" where
  "creditsTaken iscap cost = (if iscap then cost else 0)"

definition releaseReserve :: "bool \<Rightarrow> string \<Rightarrow> int \<Rightarrow> ImageWorld \<Rightarrow> ImageWorld" where
  "releaseReserve iscap h cost v = (if iscap then v\<lparr>iw_keys := reconcileCredits h cost 0 (iw_keys v)\<rparr> else v)"

text \<open>
  \<open>handleImageGeneration\<close> from the maintenance gate on, for a request that parsed. A synchronous
  request continues as a pending call, settled by \<open>syncRejected\<close> or \<open>syncDone\<close>.
\<close>

definition handleImageGeneration ::
  "ImageConfig \<Rightarrow> AdmissionController \<Rightarrow> Principal \<Rightarrow> ParsedImageRequest \<Rightarrow> int \<Rightarrow> string \<Rightarrow> bool
     \<Rightarrow> string \<Rightarrow> string \<Rightarrow> millis \<Rightarrow> ImageWorld \<Rightarrow> ImageResponse \<times> ImageWorld" where
  "handleImageGeneration cfg controller princ parsed creditsPerImage backendModel ownerCapture
      jid eventId now w =
     (if maintenanceRefuses now controller princ
      then (RespBusy, w)
      else
        let worstCaseCost = pr_n parsed * creditsPerImage;
            capped = isCapped princ;
            keyHash = keyHashOf princ;
            (ok, keys1) = reserveFor capped keyHash worstCaseCost (iw_keys w);
            w1 = w\<lparr>iw_keys := keys1\<rparr>
        in if \<not> ok then (RespCreditsExhausted, w1)
           else case checkQuota (pc_alias princ) (pc_limits princ) (pr_n parsed) eventId now (iw_quota w1) of
             (QuotaNo reason retry snap, q) \<Rightarrow> (RespRateLimited reason retry, releaseReserve capped keyHash worstCaseCost (w1\<lparr>iw_quota := q\<rparr>))
           | (QuotaOk snap reservation, q) \<Rightarrow>
               let w2 = w1\<lparr>iw_quota := q\<rparr>;
                   sub = \<lparr>su_parsed = parsed, su_alias = pc_alias princ, su_keyHash = pc_keyHash princ,
                          su_lane = pc_tier princ, su_creditsReserved = creditsTaken capped worstCaseCost,
                          su_capped = capped, su_creditsPerImage = creditsPerImage,
                          su_quotaReservation = reservation, su_backendModel = backendModel,
                          su_ownerCapture = ownerCapture\<rparr>
               in if pr_sync parsed then (RespDispatching, w2\<lparr>iw_calls := iw_calls w2 @ [sub]\<rparr>)
                  else case submitImageJob cfg jid now sub w2 of
                         Some (view, w3) \<Rightarrow> (RespAccepted view, w3)
                       | None \<Rightarrow> (RespInternalError, releaseQuota reservation 0 now (releaseReserve capped keyHash worstCaseCost w2)))"

definition deliveredOf :: "SidecarResult \<Rightarrow> int" where
  "deliveredOf res = (case res of Inr b64 \<Rightarrow> int (length b64) | Inl _ \<Rightarrow> 0)"

text \<open>The slot was refused, or the wait for it failed: both reservations are given back.\<close>

definition syncRejected :: "ImageJobSubmission \<Rightarrow> millis \<Rightarrow> ImageWorld \<Rightarrow> ImageWorld" where
  "syncRejected sub now w = refundJob sub now (w\<lparr>iw_calls := remove1 sub (iw_calls w)\<rparr>)"

text \<open>The call ended: the \<open>finally\<close> block charges what was delivered, nothing on a failure.\<close>

definition logOwner :: "ImageJobSubmission \<Rightarrow> ImageWorld \<Rightarrow> ImageWorld" where
  "logOwner sub w =
     (if su_ownerCapture sub
      then w\<lparr>iw_ownerLog := iw_ownerLog w @ [(su_alias sub, pr_prompt (su_parsed sub))]\<rparr> else w)"

definition countImages :: "ImageJobSubmission \<Rightarrow> int \<Rightarrow> ImageWorld \<Rightarrow> ImageWorld" where
  "countImages sub delivered w = w\<lparr>iw_generated := iw_generated w @ [(pr_model (su_parsed sub), delivered)]\<rparr>"

definition syncDone :: "ImageJobSubmission \<Rightarrow> SidecarResult \<Rightarrow> millis \<Rightarrow> ImageWorld \<Rightarrow> ImageWorld" where
  "syncDone sub res now w =
     (let w1 = w\<lparr>iw_calls := remove1 sub (iw_calls w)\<rparr>;
          delivered = deliveredOf res;
          w2 = (case res of Inr _ \<Rightarrow> logOwner sub (countImages sub delivered w1) | Inl _ \<Rightarrow> w1)
      in settleCredits sub (delivered * su_creditsPerImage sub)
           (releaseQuota (su_quotaReservation sub) delivered now w2))"

section \<open>Cancellation\<close>

definition markSpec :: "string \<Rightarrow> (JobSpec \<Rightarrow> JobSpec) \<Rightarrow> ImageWorld \<Rightarrow> ImageWorld" where
  "markSpec jid f w =
     w\<lparr>iw_inflight := map (\<lambda>(i, sp). (i, if i = jid then f sp else sp)) (iw_inflight w)\<rparr>"

definition cancelImageJob ::
  "string \<Rightarrow> Principal \<Rightarrow> millis \<Rightarrow> ImageWorld \<Rightarrow> JobStatus option \<times> ImageWorld" where
  "cancelImageJob jid princ now w =
     (case readRow jid w of
        None \<Rightarrow> (None, w)
      | Some row \<Rightarrow>
          if \<not> ownsRow row princ then (None, w)
          else case updateRow jid liveStatus (\<lambda>r. r\<lparr>ij_status := JCancelled\<rparr>) w of
            (changed, w1) \<Rightarrow>
              if \<not> changed then (map_option ij_status (readRow jid w1), w1)
              else
                let w2 = (case Option.bind (iw_worker w) (\<lambda>ctx. map_option (Pair ctx) (wc_specs ctx jid)) of
                    Some (ctx, spec) \<Rightarrow>
                      refundJob (js_submission spec) now
                        ((markSpec jid (\<lambda>sp. sp\<lparr>js_cancelled := True, js_aborted := True\<rparr>) w1)
                          \<lparr>iw_worker := Some (ctx\<lparr>wc_queue := filter (\<lambda>q. q \<noteq> jid) (wc_queue ctx),
                                                wc_specs := (wc_specs ctx)(jid := None)\<rparr>)\<rparr>)
                  | None \<Rightarrow> refundOrphanRow row now w1)
                in (Some JCancelled, deleteResult (ij_result_path row) w2))"

section \<open>The worker\<close>

definition recoverRow :: "millis \<Rightarrow> ImageJobDbRow \<Rightarrow> ImageWorld \<Rightarrow> ImageWorld" where
  "recoverRow now row w =
     (case updateRow (ij_id row) liveStatus
             (\<lambda>r. r\<lparr>ij_status := JFailed, ij_error_class := Some ''interrupted''\<rparr>) w of
        (changed, w1) \<Rightarrow> deleteResult (ij_result_path row) (if changed then refundOrphanRow row now w1 else w1))"

definition recoverOrphans :: "millis \<Rightarrow> ImageWorld \<Rightarrow> ImageWorld" where
  "recoverOrphans now w = fold (recoverRow now) (filter (\<lambda>r. liveStatus (ij_status r)) (iw_rows w)) w"

definition startImageWorker :: "millis \<Rightarrow> ImageWorld \<Rightarrow> ImageWorld" where
  "startImageWorker now w =
     (case iw_worker w of
        Some _ \<Rightarrow> w
      | None \<Rightarrow> (recoverOrphans now w)\<lparr>iw_worker :=
            Some \<lparr>wc_queue = [], wc_specs = Map.empty, wc_pumping = False, wc_busy = None\<rparr>\<rparr>)"

definition stopWorker :: "ImageWorld \<Rightarrow> ImageWorld" where
  "stopWorker w =
     (case iw_worker w of
        None \<Rightarrow> w
      | Some ctx \<Rightarrow>
          w\<lparr>iw_inflight := map (\<lambda>(i, sp). (i, if wc_specs ctx i \<noteq> None then sp\<lparr>js_aborted := True\<rparr> else sp))
                             (iw_inflight w),
            iw_worker := None\<rparr>)"

definition isEligibleNow :: "WorkerCtx \<Rightarrow> AdmissionController \<Rightarrow> millis \<Rightarrow> string \<Rightarrow> bool" where
  "isEligibleNow ctx controller now jid =
     (case wc_specs ctx jid of
        None \<Rightarrow> True
      | Some spec \<Rightarrow> su_lane (js_submission spec) \<noteq> GuestLane \<or> \<not> isMaintenanceMode now controller)"

definition findIndex :: "('a \<Rightarrow> bool) \<Rightarrow> 'a list \<Rightarrow> nat option" where
  "findIndex P xs =
     (let i = length (takeWhile (\<lambda>x. \<not> P x) xs) in if i < length xs then Some i else None)"

definition setStatusRunning :: "string \<Rightarrow> ImageWorld \<Rightarrow> bool \<times> ImageWorld" where
  "setStatusRunning jid w = updateRow jid (\<lambda>s. s = JQueued) (\<lambda>r. r\<lparr>ij_status := JRunning\<rparr>) w"

text \<open>The start of \<open>processJob\<close>, up to its first await.\<close>

definition processJob :: "string \<Rightarrow> WorkerCtx \<Rightarrow> ImageWorld \<Rightarrow> ImageWorld" where
  "processJob jid ctx w =
     (case wc_specs ctx jid of
        None \<Rightarrow> w\<lparr>iw_worker := Some ctx\<rparr>
      | Some spec \<Rightarrow>
          (case setStatusRunning jid w of
             (False, w1) \<Rightarrow> w1\<lparr>iw_worker := Some (ctx\<lparr>wc_specs := (wc_specs ctx)(jid := None)\<rparr>)\<rparr>
           | (True, w1) \<Rightarrow> w1\<lparr>iw_inflight := iw_inflight w1 @ [(jid, spec)],
                             iw_worker := Some (ctx\<lparr>wc_busy := Some jid\<rparr>)\<rparr>))"

text \<open>
  One turn of the pump's loop: it ends on an empty queue, waits when every queued job is a guest's
  paused by maintenance, and otherwise takes the first job that may run.
\<close>

definition pumpTurn :: "AdmissionController \<Rightarrow> millis \<Rightarrow> ImageWorld \<Rightarrow> ImageWorld" where
  "pumpTurn controller now w =
     (case iw_worker w of
        None \<Rightarrow> w
      | Some ctx \<Rightarrow>
          if \<not> wc_pumping ctx \<or> wc_busy ctx \<noteq> None then w
          else if wc_queue ctx = [] then w\<lparr>iw_worker := Some (ctx\<lparr>wc_pumping := False\<rparr>)\<rparr>
          else case findIndex (isEligibleNow ctx controller now) (wc_queue ctx) of
                 None \<Rightarrow> w
               | Some i \<Rightarrow> processJob (wc_queue ctx ! i) (ctx\<lparr>wc_queue := remove_at i (wc_queue ctx)\<rparr>) w)"

definition jobTimeout :: "string \<Rightarrow> ImageWorld \<Rightarrow> ImageWorld" where
  "jobTimeout jid w = markSpec jid (\<lambda>sp. sp\<lparr>js_timedOut := True, js_aborted := True\<rparr>) w"

definition logCompletion :: "ImageJobSubmission \<Rightarrow> int \<Rightarrow> string \<Rightarrow> int \<Rightarrow> string option \<Rightarrow> ImageWorld \<Rightarrow> ImageWorld" where
  "logCompletion sub status outc delivered errorClass w =
     w\<lparr>iw_log := iw_log w @ [\<lparr>cl_alias = su_alias sub, cl_status = status, cl_outcome = outc,
                              cl_delivered = delivered, cl_errorClass = errorClass\<rparr>]\<rparr>"

definition finalizeSuccess ::
  "ImageConfig \<Rightarrow> string \<Rightarrow> JobSpec \<Rightarrow> string list \<Rightarrow> millis \<Rightarrow> ImageWorld \<Rightarrow> ImageWorld" where
  "finalizeSuccess cfg jid spec b64 now w =
     (let sub = js_submission spec;
          delivered = int (length b64);
          charged = delivered * su_creditsPerImage sub;
          path = resultPathFor cfg jid;
          w1 = w\<lparr>iw_files := (iw_files w)(path \<mapsto> b64)\<rparr>
      in case updateRow jid (\<lambda>s. s = JRunning)
                (\<lambda>r. r\<lparr>ij_status := JSucceeded, ij_credits_charged := Some charged, ij_result_path := Some path\<rparr>) w1 of
           (False, w2) \<Rightarrow> deleteResult (Some path) w2
         | (True, w2) \<Rightarrow>
             logOwner sub (logCompletion sub 200 ''ok'' delivered None (countImages sub delivered
               (releaseQuota (su_quotaReservation sub) delivered now (settleCredits sub charged w2)))))"

definition finalizeFailure ::
  "string \<Rightarrow> JobSpec \<Rightarrow> string \<Rightarrow> millis \<Rightarrow> ImageWorld \<Rightarrow> ImageWorld" where
  "finalizeFailure jid spec errorClass now w =
     (let sub = js_submission spec
      in case updateRow jid (\<lambda>s. s = JRunning)
                (\<lambda>r. r\<lparr>ij_status := JFailed, ij_error_class := Some errorClass\<rparr>) w of
           (False, w1) \<Rightarrow> w1
         | (True, w1) \<Rightarrow>
             logCompletion sub (if errorClass = ''upstream_timeout'' then 504 else 502) errorClass 0 (Some errorClass)
               (refundJob sub now w1))"

fun kindName :: "SidecarErrorKind \<Rightarrow> string" where
  "kindName UpstreamUnavailable = ''upstream_unavailable''"
| "kindName UpstreamTimeout = ''upstream_timeout''"
| "kindName BadResponse = ''bad_response''"

definition errorClassOf :: "JobSpec \<Rightarrow> SidecarErrorKind option \<Rightarrow> string" where
  "errorClassOf spec err =
     (if js_timedOut spec then ''upstream_timeout''
      else case err of Some k \<Rightarrow> kindName k | None \<Rightarrow> ''internal_error'')"

definition jobCatch :: "string \<Rightarrow> JobSpec \<Rightarrow> SidecarErrorKind option \<Rightarrow> millis \<Rightarrow> ImageWorld \<Rightarrow> ImageWorld" where
  "jobCatch jid spec err now w =
     (if js_cancelled spec then w else finalizeFailure jid spec (errorClassOf spec err) now w)"

text \<open>
  The rest of \<open>processJob\<close> once the dispatch ended, with the \<open>catch\<close> and \<open>finally\<close> blocks. Waiting for
  the slot may fail too (the job was aborted first: kind \<open>upstream_unavailable\<close>); writing the
  result file may fail, which is an error of no kind.
\<close>

definition processJobEnd ::
  "ImageConfig \<Rightarrow> string \<Rightarrow> JobSpec \<Rightarrow> SidecarResult \<Rightarrow> bool \<Rightarrow> millis \<Rightarrow> ImageWorld \<Rightarrow> ImageWorld" where
  "processJobEnd cfg jid spec res writeFails now w =
     (let w1 = w\<lparr>iw_inflight := remove1 (jid, spec) (iw_inflight w)\<rparr>;
          w2 = (case res of
                  Inr b64 \<Rightarrow> if writeFails then jobCatch jid spec None now w1
                             else finalizeSuccess cfg jid spec b64 now w1
                | Inl err \<Rightarrow> jobCatch jid spec err now w1)
      in case iw_worker w2 of
           None \<Rightarrow> w2
         | Some ctx \<Rightarrow>
             if wc_busy ctx = Some jid
             then w2\<lparr>iw_worker := Some (ctx\<lparr>wc_busy := None, wc_specs := (wc_specs ctx)(jid := None)\<rparr>)\<rparr>
             else w2)"

definition sweepRow :: "ImageJobDbRow \<Rightarrow> ImageWorld \<Rightarrow> ImageWorld" where
  "sweepRow row w =
     snd (updateRow (ij_id row) (\<lambda>_. True) (\<lambda>r. r\<lparr>ij_status := JExpired, ij_result_path := None\<rparr>)
           (deleteResult (ij_result_path row) w))"

definition sweepExpired :: "millis \<Rightarrow> ImageWorld \<Rightarrow> ImageWorld" where
  "sweepExpired now w =
     fold sweepRow
       (filter (\<lambda>r. ij_status r = JSucceeded
                  \<and> (case ij_expires_at r of None \<Rightarrow> False | Some e \<Rightarrow> e < now)) (iw_rows w)) w"

text \<open>The process dies: what is only in memory is gone, the tables and the files stay.\<close>

definition crash :: "ImageWorld \<Rightarrow> ImageWorld" where
  "crash w = w\<lparr>iw_worker := None, iw_inflight := [], iw_calls := [], iw_quota := resetQuotaWindows (iw_quota w)\<rparr>"

end
