(* ===== verification/Metered_Books.thy ===== *)
theory Metered_Books
  imports Credits Quota
begin

text \<open>
  The books behind every metered request. A reservation is what a pending request holds: credits of a
  key and units of a daily counter. The ledger relates the two tables the code keeps,
  \<open>api_keys.credits_used\<close> (\<open>src/homeserver/keystore.ts\<close>) and \<open>key_usage_daily\<close> (\<open>src/homeserver/quota.ts\<close>), to
  what has been charged and what is still reserved. \<open>Image_Ledger\<close> uses it for image jobs and \<open>Metered_Spine\<close> for
  chat, decisions, embeddings, \<open>ask\<close> and audio.
\<close>

record Reservation =
  rv_key :: "string option"
  rv_credits :: int
  rv_slot :: "string \<times> string"
  rv_units :: int

definition creditsOf :: "string \<Rightarrow> Reservation \<Rightarrow> int" where
  "creditsOf h res = (if rv_key res = Some h then rv_credits res else 0)"

definition unitsOf :: "string \<times> string \<Rightarrow> Reservation \<Rightarrow> int" where
  "unitsOf k res = (if rv_slot res = k then rv_units res else 0)"

definition creditsHeld :: "string \<Rightarrow> Reservation multiset \<Rightarrow> int" where
  "creditsHeld h R = (\<Sum>res\<in>#R. creditsOf h res)"

definition unitsHeld :: "string \<times> string \<Rightarrow> Reservation multiset \<Rightarrow> int" where
  "unitsHeld k R = (\<Sum>res\<in>#R. unitsOf k res)"

lemma held_simps [simp]:
  "creditsHeld h {#} = 0" "creditsHeld h (add_mset res R) = creditsOf h res + creditsHeld h R"
  "creditsHeld h (R + S) = creditsHeld h R + creditsHeld h S"
  "unitsHeld k {#} = 0" "unitsHeld k (add_mset res R) = unitsOf k res + unitsHeld k R"
  "unitsHeld k (R + S) = unitsHeld k R + unitsHeld k S"
  by (simp_all add: creditsHeld_def unitsHeld_def)

text \<open>What has been charged so far: credits per key, units per alias and day.\<close>

record Ledger =
  paid :: "string \<Rightarrow> int"
  spent :: "string \<times> string \<Rightarrow> int"

definition charge :: "Reservation \<Rightarrow> int \<Rightarrow> int \<Rightarrow> Ledger \<Rightarrow> Ledger" where
  "charge res credits delivered L =
     \<lparr>paid = (\<lambda>h. paid L h + (if rv_key res = Some h then credits else 0)),
      spent = (\<lambda>k. spent L k + (if rv_slot res = k then delivered else 0))\<rparr>"

definition resOk :: "Reservation \<Rightarrow> bool" where
  "resOk res \<longleftrightarrow> 0 \<le> rv_credits res \<and> (rv_key res = None \<longrightarrow> rv_credits res = 0) \<and> 1 \<le> rv_units res"

definition keysOk :: "KeyDb \<Rightarrow> bool" where
  "keysOk keys \<longleftrightarrow> uniqueHashes keys \<and> uniqueAliases keys \<and> withinCaps keys"

text \<open>The books balance; \<open>K\<close> is what is known of the keys besides.\<close>

definition booksBy :: "(KeyDb \<Rightarrow> bool) \<Rightarrow> Ledger \<Rightarrow> Reservation multiset \<Rightarrow> KeyDb \<Rightarrow> QuotaState \<Rightarrow> bool" where
  "booksBy K L R keys q \<longleftrightarrow>
     K keys \<and> (\<forall>res \<in># R. resOk res)
     \<and> accounts keys (\<lambda>h. paid L h + creditsHeld h R)
     \<and> (\<forall>k. get_or (daily q) k 0 = spent L k + unitsHeld k R)
     \<and> (\<forall>h. 0 \<le> paid L h) \<and> (\<forall>k. 0 \<le> spent L k)"

lemma creditsHeld_nonneg: "\<forall>res \<in># R. resOk res \<Longrightarrow> 0 \<le> creditsHeld h R"
  by (induction R) (auto simp: creditsOf_def resOk_def)

lemma unitsHeld_nonneg: "\<forall>res \<in># R. resOk res \<Longrightarrow> 0 \<le> unitsHeld k R"
  by (induction R) (auto simp: unitsOf_def resOk_def)

section \<open>Settling one reservation\<close>

text \<open>The daily counter a reconciliation reaches, when the reservation is still in it.\<close>

lemma daily_recordUsage:
  assumes "0 < get_or (daily q) (a, r_day r) 0"
  shows "get_or (daily (recordUsage a n now (Some r) q)) k 0 =
     (if k = (a, r_day r) then max 0 (get_or (daily q) k 0 + (n - r_reservedDaily r)) else get_or (daily q) k 0)"
proof -
  obtain t where t: "daily q (a, r_day r) = Some t" using assms by (auto simp: get_or_def split: option.splits)
  have "daily (case windows q a of None \<Rightarrow> q | Some ring \<Rightarrow> q\<lparr>windows := f ring\<rparr>) = daily q" for f
    by (simp split: option.split)
  then show ?thesis using t assms
    by (auto simp: recordUsage_def adjustDaily_def Let_def get_or_def)
qed

text \<open>How the keys may change when a reservation is settled with a charge.\<close>

definition settledBy :: "(KeyDb \<Rightarrow> bool) \<Rightarrow> Reservation \<Rightarrow> int \<Rightarrow> KeyDb \<Rightarrow> KeyDb \<Rightarrow> bool" where
  "settledBy K res credits keys keys' \<longleftrightarrow>
     K keys' \<and> (\<forall>used. accounts keys used \<longrightarrow> (\<forall>h. creditsOf h res \<le> used h) \<longrightarrow>
        accounts keys' (\<lambda>h. used h - creditsOf h res + (if rv_key res = Some h then credits else 0)))"

definition unitsSettled :: "Reservation \<Rightarrow> int \<Rightarrow> QuotaState \<Rightarrow> QuotaState \<Rightarrow> bool" where
  "unitsSettled res delivered q q' \<longleftrightarrow>
     (0 < get_or (daily q) (rv_slot res) 0 \<longrightarrow> (\<forall>k. get_or (daily q') k 0 =
        (if k = rv_slot res then max 0 (get_or (daily q) k 0 + (delivered - rv_units res)) else get_or (daily q) k 0)))"

lemma booksBy_settle:
  assumes ok: "booksBy K L (add_mset res R) keys q"
    and keys: "settledBy K' res credits keys keys'" and units: "unitsSettled res delivered q q'"
    and nonneg: "0 \<le> credits" "0 \<le> delivered"
  shows "booksBy K' (charge res credits delivered L) R keys' q'"
proof -
  note parts = ok [unfolded booksBy_def]
  have res: "resOk res" and R: "\<forall>r \<in># R. resOk r" using parts by auto
  have "creditsOf h res \<le> paid L h + creditsHeld h (add_mset res R)" for h
    using parts creditsHeld_nonneg [OF R, of h] by (simp add: add_nonneg_nonneg)
  then have acc: "accounts keys' (\<lambda>h. paid (charge res credits delivered L) h + creditsHeld h R)"
    using keys [unfolded settledBy_def] parts by (force simp: charge_def algebra_simps)
  have day: "get_or (daily q) k 0 = spent L k + (unitsOf k res + unitsHeld k R)" and pos: "0 \<le> spent L k" for k
    using parts unfolding held_simps by blast+
  have "0 < get_or (daily q) (rv_slot res) 0"
    using day [of "rv_slot res"] pos [of "rv_slot res"] res unitsHeld_nonneg [OF R, of "rv_slot res"]
    by (simp add: resOk_def unitsOf_def)
  then have after: "get_or (daily q') k 0 =
      (if k = rv_slot res then max 0 (get_or (daily q) k 0 + (delivered - rv_units res)) else get_or (daily q) k 0)" for k
    using units unfolding unitsSettled_def by blast
  have "get_or (daily q') k 0 = spent (charge res credits delivered L) k + unitsHeld k R" for k
    using after [of k] day [of k] pos [of k] unitsHeld_nonneg [OF R, of k] nonneg(2)
    by (cases "k = rv_slot res") (simp_all add: charge_def unitsOf_def)
  then show ?thesis
    using acc keys parts nonneg by (auto simp: booksBy_def settledBy_def charge_def)
qed

text \<open>Taking a reservation on.\<close>

lemma booksBy_reserve:
  assumes ok: "booksBy K L R keys q" and res: "resOk res" and keys': "K' keys'"
    and acc: "\<And>used. accounts keys used \<Longrightarrow> accounts keys' (\<lambda>h. used h + creditsOf h res)"
    and units: "\<And>k. get_or (daily q') k 0 = get_or (daily q) k 0 + unitsOf k res"
  shows "booksBy K' L (add_mset res R) keys' q'"
proof -
  have "accounts keys' (\<lambda>h. paid L h + creditsHeld h R + creditsOf h res)"
    using ok acc by (simp add: booksBy_def)
  then show ?thesis using ok res keys' units by (simp add: booksBy_def algebra_simps)
qed

lemma charge_zero [simp]: "charge res 0 0 L = L"
  by (simp add: charge_def)

section \<open>What the operations do to the books\<close>

lemma keysOk_credit_ops:
  "keysOk keys \<Longrightarrow> keysOk (snd (reserveCredits h n keys))"
  "keysOk keys \<Longrightarrow> c \<le> r \<Longrightarrow> keysOk (reconcileCredits h r c keys)"
  "keysOk keys \<Longrightarrow> \<not> cappedHash h keys \<Longrightarrow> keysOk (recordCreditUsage h c keys)"
  "keysOk keys \<Longrightarrow> keysOk (snd (topUpCredits a amt i oper t keys))"
  using within_recordCreditUsage [of keys h c]
  by (auto simp: keysOk_def within_reserve within_reconcile topUp_keeps cappedHash_def list_ex_iff not_less)

text \<open>The three ways to settle: reconcile a reservation, accrue without one, and nothing at all.\<close>

lemma settledBy_reconcile:
  assumes "K (reconcileCredits h (rv_credits res) credits keys)" "rv_key res = Some h" "0 \<le> credits"
  shows "settledBy K res credits keys (reconcileCredits h (rv_credits res) credits keys)"
  unfolding settledBy_def
proof (intro conjI allI impI assms(1))
  fix used assume "accounts keys used" and le: "\<forall>g. creditsOf g res \<le> used g"
  moreover have "rv_credits res \<le> used h" using le assms(2) by (auto simp: creditsOf_def split: if_splits)
  ultimately have "accounts (reconcileCredits h (rv_credits res) credits keys)
      (used(h := used h - rv_credits res + credits))"
    using accounts_reconcile [OF _ _ assms(3)] by blast
  moreover have "used(h := used h - rv_credits res + credits) =
      (\<lambda>g. used g - creditsOf g res + (if rv_key res = Some g then credits else 0))"
    using assms(2) by (auto simp: creditsOf_def fun_eq_iff)
  ultimately show "accounts (reconcileCredits h (rv_credits res) credits keys)
      (\<lambda>g. used g - creditsOf g res + (if rv_key res = Some g then credits else 0))" by simp
qed

lemma settledBy_record:
  assumes "K (recordCreditUsage h credits keys)" "rv_key res = Some h" "rv_credits res = 0" "0 \<le> credits"
  shows "settledBy K res credits keys (recordCreditUsage h credits keys)"
  unfolding settledBy_def
proof (intro conjI allI impI assms(1))
  fix used assume "accounts keys used"
  then have "accounts (recordCreditUsage h credits keys) (used(h := used h + max 0 credits))"
    by (rule accounts_recordCreditUsage)
  moreover have "used(h := used h + max 0 credits) =
      (\<lambda>g. used g - creditsOf g res + (if rv_key res = Some g then credits else 0))"
    using assms by (auto simp: creditsOf_def fun_eq_iff)
  ultimately show "accounts (recordCreditUsage h credits keys)
      (\<lambda>g. used g - creditsOf g res + (if rv_key res = Some g then credits else 0))" by simp
qed

lemma settledBy_none:
  assumes "K keys" "rv_credits res = 0" "rv_key res = None \<or> credits = 0"
  shows "settledBy K res credits keys keys"
proof -
  have "(\<lambda>h. used h - creditsOf h res + (if rv_key res = Some h then credits else 0)) = used" for used
    using assms by (auto simp: creditsOf_def)
  then show ?thesis using assms(1) by (simp add: settledBy_def)
qed

text \<open>A day's counter that includes a reservation is positive, whatever else it holds.\<close>

lemma unitsSettled_recordUsage:
  assumes "rv_slot res = (a, r_day r)" "rv_units res = r_reservedDaily r"
  shows "unitsSettled res n q (recordUsage a n now (Some r) q)"
  using assms by (simp add: unitsSettled_def daily_recordUsage)

lemma daily_nonneg:
  assumes "booksBy K L R keys q"
  shows "\<forall>t \<in> ran (daily q). 0 \<le> t"
proof
  fix t assume "t \<in> ran (daily q)"
  then obtain k where "daily q k = Some t" by (auto simp: ran_def)
  moreover have "0 \<le> get_or (daily q) k 0"
    using assms unitsHeld_nonneg [of R k] unfolding booksBy_def by (metis add_nonneg_nonneg)
  ultimately show "0 \<le> t" by simp
qed

lemma booksBy_daily_cong:
  assumes "booksBy K L R keys q" "\<And>k. get_or (daily q') k 0 = get_or (daily q) k 0"
  shows "booksBy K L R keys q'"
  using assms by (simp add: booksBy_def)

lemma credits_nonneg:
  assumes "booksBy K L R keys q" "r \<in> set (api_keys keys)"
  shows "0 \<le> k_credits_used r"
  using assms creditsHeld_nonneg [of R "k_key_hash r"] unfolding booksBy_def accounts_def by (metis add_nonneg_nonneg)

section \<open>Caps with overruns\<close>

text \<open>
  A reservation is an estimate, so a call may cost more than it reserved. \<open>over h\<close> is how much the finished calls
  of a key exceeded their reservations: the used credits exceed the limit by no more than that.
\<close>

definition keysWithin :: "(string \<Rightarrow> int) \<Rightarrow> KeyDb \<Rightarrow> bool" where
  "keysWithin over keys \<longleftrightarrow>
     uniqueHashes keys \<and> uniqueAliases keys \<and> (\<forall>h. 0 \<le> over h)
     \<and> (\<forall>r \<in> set (api_keys keys). k_credit_limit r > 0 \<longrightarrow> k_credits_used r \<le> k_credit_limit r + over (k_key_hash r))"

definition overrun :: "Reservation \<Rightarrow> int \<Rightarrow> (string \<Rightarrow> int) \<Rightarrow> string \<Rightarrow> int" where
  "overrun res credits over h = over h + (if rv_key res = Some h then max 0 (credits - rv_credits res) else 0)"

lemma keysWithin_D:
  "keysWithin over keys \<Longrightarrow> r \<in> set (api_keys keys) \<Longrightarrow> 0 < k_credit_limit r
     \<Longrightarrow> k_credits_used r \<le> k_credit_limit r + over (k_key_hash r)"
  by (simp add: keysWithin_def)

lemma keysWithin_mono:
  assumes "keysWithin over keys" "\<And>h. over h \<le> over' h"
  shows "keysWithin over' keys"
  using assms unfolding keysWithin_def by (meson add_left_mono order_trans)

lemma keysWithin_update:
  assumes "keysWithin over keys" "\<And>h. 0 \<le> over' h"
    and "\<And>r. r \<in> set (api_keys keys) \<Longrightarrow> 0 < k_credit_limit r \<Longrightarrow> k_credits_used r \<le> k_credit_limit r + over (k_key_hash r)
           \<Longrightarrow> (if P r then f (k_credits_used r) else k_credits_used r) \<le> k_credit_limit r + over' (k_key_hash r)"
  shows "keysWithin over' (updateUsed P f keys)"
proof -
  have "map k_alias (api_keys (updateUsed P f keys)) = map k_alias (api_keys keys)"
    by (simp add: updateUsed_def comp_def if_distrib cong: if_cong)
  then have "uniqueAliases (updateUsed P f keys)" using assms(1) by (simp only: keysWithin_def uniqueAliases_def)
  moreover have "k_credits_used r \<le> k_credit_limit r + over' (k_key_hash r)"
    if "r \<in> set (api_keys (updateUsed P f keys))" "0 < k_credit_limit r" for r
  proof -
    obtain r0 where r0: "r0 \<in> set (api_keys keys)"
      "r = (if P r0 then r0\<lparr>k_credits_used := f (k_credits_used r0)\<rparr> else r0)"
      using \<open>r \<in> set (api_keys (updateUsed P f keys))\<close> by (auto simp: updateUsed_def)
    then show ?thesis using assms(3) [OF r0(1)] keysWithin_D [OF assms(1) r0(1)] \<open>0 < k_credit_limit r\<close>
      by (auto split: if_splits)
  qed
  ultimately show ?thesis using assms(1,2) by (simp add: keysWithin_def)
qed

lemma keysWithin_reserve:
  assumes "keysWithin over keys"
  shows "keysWithin over (snd (reserveCredits h n keys))"
proof -
  have nonneg: "0 \<le> over g" for g using assms by (simp add: keysWithin_def)
  show ?thesis unfolding reserveCredits_def Let_def snd_conv
  proof (rule keysWithin_update [OF assms nonneg])
    fix r :: KeyRow assume "0 < k_credit_limit r" "k_credits_used r \<le> k_credit_limit r + over (k_key_hash r)"
    then show "(if reservable h (if 0 < n then n else 0) r then k_credits_used r + (if 0 < n then n else 0) else k_credits_used r)
        \<le> k_credit_limit r + over (k_key_hash r)"
      using nonneg [of "k_key_hash r"] by (auto simp: reservable_def)
  qed
qed

lemma keysWithin_reconcile:
  assumes "keysWithin over keys" "rv_key res = Some h"
  shows "keysWithin (overrun res credits over) (reconcileCredits h (rv_credits res) credits keys)"
proof -
  have nonneg: "0 \<le> over g" "0 \<le> overrun res credits over g" for g using assms by (simp_all add: keysWithin_def overrun_def)
  show ?thesis
  proof (cases "credits = rv_credits res")
    case True
    then have "overrun res credits over = over" by (auto simp: overrun_def)
    then show ?thesis using assms(1) True by (simp add: reconcileCredits_def)
  next
    case False
    have "keysWithin (overrun res credits over)
        (updateUsed (\<lambda>r. k_key_hash r = h) (\<lambda>u. max 0 (u + (credits - rv_credits res))) keys)"
    proof (rule keysWithin_update [OF assms(1) nonneg(2)])
      fix r :: KeyRow assume "0 < k_credit_limit r" "k_credits_used r \<le> k_credit_limit r + over (k_key_hash r)"
      then show "(if k_key_hash r = h then max 0 (k_credits_used r + (credits - rv_credits res)) else k_credits_used r)
          \<le> k_credit_limit r + overrun res credits over (k_key_hash r)"
        using nonneg(1) [of "k_key_hash r"] assms(2) by (auto simp: overrun_def)
    qed
    then show ?thesis using False by (simp add: reconcileCredits_def)
  qed
qed

lemma keysWithin_record:
  assumes "keysWithin over keys" "\<not> cappedHash h keys"
  shows "keysWithin over (recordCreditUsage h n keys)"
proof -
  have "\<not> (k_key_hash r = h \<and> 0 < k_credit_limit r)" if "r \<in> set (api_keys keys)" for r
    using assms(2) that by (auto simp: cappedHash_def list_ex_iff)
  then have "keysWithin over (updateUsed (\<lambda>r. k_key_hash r = h) (\<lambda>u. u + n) keys)"
    using assms(1) by (intro keysWithin_update [OF assms(1)]) (auto simp: keysWithin_def)
  then show ?thesis using assms(1) by (simp add: recordCreditUsage_def)
qed

lemma keysWithin_topUp:
  assumes "keysWithin over keys"
  shows "keysWithin over (snd (topUpCredits a amt i oper t keys))"
proof (rule topUp_cases [of a amt i oper t keys])
  fix row r
  assume eq: "topUpCredits a amt i oper t keys = (Inr r, keys\<lparr>api_keys := map (\<lambda>x. if k_alias x = a
      then x\<lparr>k_credit_limit := tu_creditLimit r\<rparr> else x) (api_keys keys), credit_topups := credit_topups keys @ [r]\<rparr>)"
    and row: "find (\<lambda>x. k_alias x = a) (api_keys keys) = Some row" and ok: "toppable (the_int amt) t row"
    and new: "tu_creditLimit r = k_credit_limit row + the_int amt" "0 < the_int amt"
  have mem: "row \<in> set (api_keys keys)" "k_alias row = a" using row by (auto simp: find_Some_iff)
  have same: "x = row" if "x \<in> set (api_keys keys)" "k_alias x = a" for x
    using assms mem that unfolding keysWithin_def uniqueAliases_def by (metis distinct_map inj_onD)
  have "k_credits_used row \<le> k_credit_limit row + over (k_key_hash row)"
    using keysWithin_D [OF assms mem(1)] ok by (simp add: toppable_def)
  then have "\<forall>x \<in> set (api_keys (snd (topUpCredits a amt i oper t keys))). 0 < k_credit_limit x
      \<longrightarrow> k_credits_used x \<le> k_credit_limit x + over (k_key_hash x)"
    using eq same new keysWithin_D [OF assms] by fastforce
  then show ?thesis
    using assms topUp_keeps(1,2) [of keys a amt i oper t] by (simp add: keysWithin_def)
qed (use assms in simp_all)

text \<open>A reservation taken and returned leaves the table as it was.\<close>

lemma reserve_undo:
  assumes "uniqueHashes keys" "fst (reserveCredits h n keys)" "0 \<le> n" "\<And>r. r \<in> set (api_keys keys) \<Longrightarrow> 0 \<le> k_credits_used r"
  shows "reconcileCredits h n 0 (snd (reserveCredits h n keys)) = keys"
proof -
  have amount: "(if n > 0 then n else 0) = n" using assms(3) by simp
  have "reservable h n r \<longleftrightarrow> k_key_hash r = h" if "r \<in> set (api_keys keys)" for r
    using reserve_ok_row [OF assms(1,2) that] assms(3) by (auto simp: reservable_def)
  then have taken: "snd (reserveCredits h n keys) = updateUsed (\<lambda>r. k_key_hash r = h) (\<lambda>u. u + n) keys"
    by (auto simp: reserveCredits_def updateUsed_def Let_def amount)
  have undo: "updateUsed (\<lambda>r. k_key_hash r = h) g (updateUsed (\<lambda>r. k_key_hash r = h) f keys) = keys"
    if "\<And>u. 0 \<le> u \<Longrightarrow> g (f u) = u" for f g
  proof -
    have "map (\<lambda>r. if k_key_hash r = h then r\<lparr>k_credits_used := g (k_credits_used r)\<rparr> else r)
        (map (\<lambda>r. if k_key_hash r = h then r\<lparr>k_credits_used := f (k_credits_used r)\<rparr> else r) (api_keys keys)) = api_keys keys"
      using assms(4) that by (auto intro!: map_idI)
    then show ?thesis unfolding updateUsed_def by simp
  qed
  have same: "updateUsed (\<lambda>r. k_key_hash r = h) (\<lambda>u. u) keys' = keys'" for keys'
  proof -
    have "map (\<lambda>r. if k_key_hash r = h then r\<lparr>k_credits_used := k_credits_used r\<rparr> else r) rs = rs" for rs :: "KeyRow list"
      by (auto intro!: map_idI)
    then show ?thesis by (simp add: updateUsed_def)
  qed
  show ?thesis
  proof (cases "n = 0")
    case True
    then show ?thesis using same taken by (simp add: reconcileCredits_def)
  next
    case False
    then show ?thesis using undo [of "\<lambda>u. max 0 (u + (0 - n))" "\<lambda>u. u + n"] by (simp add: reconcileCredits_def taken)
  qed
qed

end
