(* ===== verification/Image_Ledger.thy ===== *)
theory Image_Ledger
  imports Image_Jobs Metered_Books
begin

text \<open>
  The books of image generation, over every interleaving of the operations of \<open>Image_Jobs\<close>: submissions,
  cancellations, the worker's turns, timeouts, worker stops and starts, sweeps, top-ups, and crashes
  of the process, at an await or between two commits of one operation. The reservations are those of
  live rows and of synchronous calls; what a crash leaves unsettled is entered in a ledger of its own.
\<close>

definition rowRes :: "ImageJobDbRow \<Rightarrow> Reservation" where
  "rowRes row = \<lparr>rv_key = ij_key_hash row, rv_credits = ij_credits_reserved row,
     rv_slot = (the (ij_quota_alias row), the (ij_quota_day row)), rv_units = the (ij_quota_reserved_daily row)\<rparr>"

definition subRes :: "ImageJobSubmission \<Rightarrow> Reservation" where
  "subRes sub = \<lparr>rv_key = su_keyHash sub, rv_credits = su_creditsReserved sub,
     rv_slot = (r_alias (su_quotaReservation sub), r_day (su_quotaReservation sub)),
     rv_units = r_reservedDaily (su_quotaReservation sub)\<rparr>"

definition liveRow :: "ImageJobDbRow \<Rightarrow> bool" where
  "liveRow row \<longleftrightarrow> liveStatus (ij_status row)"

definition rowsHeld :: "ImageJobDbRow list \<Rightarrow> Reservation multiset" where
  "rowsHeld rows = mset (map rowRes (filter liveRow rows))"

definition held :: "ImageWorld \<Rightarrow> Reservation multiset" where
  "held w = rowsHeld (iw_rows w) + mset (map subRes (iw_calls w))"

abbreviation booksOk :: "Ledger \<Rightarrow> Reservation multiset \<Rightarrow> KeyDb \<Rightarrow> QuotaState \<Rightarrow> bool" where
  "booksOk \<equiv> booksBy keysOk"

abbreviation keysSettled :: "Reservation \<Rightarrow> int \<Rightarrow> KeyDb \<Rightarrow> KeyDb \<Rightarrow> bool" where
  "keysSettled \<equiv> settledBy keysOk"

lemmas booksOk_def = booksBy_def [of keysOk]
lemmas booksOk_settle = booksBy_settle [where K = keysOk and K' = keysOk]
lemmas booksOk_reserve = booksBy_reserve [where K = keysOk and K' = keysOk]
lemmas keysSettled_none = settledBy_none [where K = keysOk]

lemma keysSettled_reconcile:
  assumes "keysOk keys" "rv_key res = Some h" "credits \<le> rv_credits res" "0 \<le> credits"
  shows "keysSettled res credits keys (reconcileCredits h (rv_credits res) credits keys)"
  using assms by (intro settledBy_reconcile) (simp_all add: keysOk_credit_ops)

lemma keysSettled_record:
  assumes "keysOk keys" "rv_key res = Some h" "rv_credits res = 0" "\<not> cappedHash h keys" "0 \<le> credits"
  shows "keysSettled res credits keys (recordCreditUsage h credits keys)"
  using assms by (intro settledBy_record) (simp_all add: keysOk_credit_ops)

text \<open>A submission whose reservation was taken the way the handler takes it.\<close>

definition subOk :: "KeyDb \<Rightarrow> ImageJobSubmission \<Rightarrow> bool" where
  "subOk keys sub \<longleftrightarrow>
     0 \<le> su_creditsPerImage sub \<and> 1 \<le> pr_n (su_parsed sub)
     \<and> (if su_capped sub
        then su_keyHash sub \<noteq> None \<and> su_creditsReserved sub = pr_n (su_parsed sub) * su_creditsPerImage sub
        else su_creditsReserved sub = 0 \<and> (case su_keyHash sub of None \<Rightarrow> True | Some h \<Rightarrow> \<not> cappedHash h keys))
     \<and> 1 \<le> r_reservedDaily (su_quotaReservation sub)"

lemma subOk_resOk: "subOk keys sub \<Longrightarrow> resOk (subRes sub)"
  by (auto simp: subOk_def resOk_def subRes_def split: if_splits)

lemma keysSettled_settleCredits:
  assumes "keysOk (iw_keys w)" "subOk (iw_keys w) sub" "0 \<le> delivered" "delivered \<le> pr_n (su_parsed sub)"
  shows "keysSettled (subRes sub) (delivered * su_creditsPerImage sub) (iw_keys w)
           (iw_keys (settleCredits sub (delivered * su_creditsPerImage sub) w))"
proof (cases "su_keyHash sub")
  case None
  then have "su_creditsReserved sub = 0" using assms(2) by (auto simp: subOk_def split: if_splits)
  then show ?thesis using None keysSettled_none [OF assms(1)] by (simp add: settleCredits_def subRes_def)
next
  case (Some h)
  have ok: "0 \<le> delivered * su_creditsPerImage sub" using assms(2,3) by (simp add: subOk_def)
  have le: "delivered * su_creditsPerImage sub \<le> pr_n (su_parsed sub) * su_creditsPerImage sub"
    using assms(2,4) by (simp add: subOk_def mult_right_mono)
  show ?thesis
  proof (cases "su_capped sub")
    case True
    then have "su_creditsReserved sub = pr_n (su_parsed sub) * su_creditsPerImage sub"
      using assms(2) by (simp add: subOk_def)
    then show ?thesis
      using keysSettled_reconcile [OF assms(1), of "subRes sub" h, OF _ _ ok] True Some le
      by (simp add: settleCredits_def subRes_def)
  next
    case False
    then have "su_creditsReserved sub = 0" "\<not> cappedHash h (iw_keys w)" using assms(2) Some by (auto simp: subOk_def)
    then show ?thesis
      using keysSettled_record [OF assms(1), of "subRes sub" h, OF _ _ _ ok] False Some
      by (simp add: settleCredits_def subRes_def)
  qed
qed

lemma keysSettled_refundJob:
  assumes "keysOk (iw_keys w)" "subOk (iw_keys w) sub"
  shows "keysSettled (subRes sub) 0 (iw_keys w) (iw_keys (refundJob sub now w))"
proof -
  have "su_capped sub \<or> su_creditsReserved sub = 0" and "0 \<le> su_creditsReserved sub"
    and "su_keyHash sub = None \<longrightarrow> su_creditsReserved sub = 0"
    using assms(2) by (auto simp: subOk_def split: if_splits)
  then show ?thesis
    using keysSettled_none [OF assms(1), of "subRes sub" 0] keysSettled_reconcile [OF assms(1), of "subRes sub"]
    by (cases "su_keyHash sub") (auto simp: refundJob_def refundCredits_def releaseQuota_def subRes_def)
qed

definition rowOk :: "ImageJobDbRow \<Rightarrow> bool" where
  "rowOk row \<longleftrightarrow> resOk (rowRes row) \<and> ij_quota_alias row \<noteq> None \<and> ij_quota_day row \<noteq> None
     \<and> ij_quota_reserved_daily row \<noteq> None"

lemma keysSettled_refundOrphan:
  assumes "keysOk (iw_keys w)" "rowOk row"
  shows "keysSettled (rowRes row) 0 (iw_keys w) (iw_keys (refundOrphanRow row now w))"
proof -
  have nonneg: "0 \<le> ij_credits_reserved row" and key: "ij_key_hash row = None \<Longrightarrow> ij_credits_reserved row = 0"
    and qa: "ij_quota_alias row \<noteq> None"
    using assms(2) by (auto simp: rowOk_def resOk_def rowRes_def)
  show ?thesis
  proof (cases "ij_credits_reserved row > 0")
    case True
    then obtain h where "ij_key_hash row = Some h" using key by (cases "ij_key_hash row") auto
    then show ?thesis using keysSettled_reconcile [OF assms(1), of "rowRes row" h 0] True qa
      by (auto simp: refundOrphanRow_def refundOrphanCredits_def releaseQuota_def rowRes_def Let_def)
  next
    case False
    then have "ij_credits_reserved row = 0" using nonneg by simp
    then show ?thesis using keysSettled_none [OF assms(1), of "rowRes row" 0] qa
      by (auto simp: refundOrphanRow_def refundOrphanCredits_def releaseQuota_def rowRes_def Let_def split: option.split)
  qed
qed

lemma unitsSettled_release:
  "unitsSettled (subRes sub) n (iw_quota w) (iw_quota (releaseQuota (su_quotaReservation sub) n now w))"
  by (simp add: unitsSettled_def subRes_def releaseQuota_def daily_recordUsage)

lemma unitsSettled_refundOrphan:
  assumes "rowOk row"
  shows "unitsSettled (rowRes row) 0 (iw_quota w) (iw_quota (refundOrphanRow row now w))"
  using assms
  by (auto simp: rowOk_def unitsSettled_def rowRes_def refundOrphanRow_def refundOrphanCredits_def releaseQuota_def daily_recordUsage Let_def
      split: option.splits)

section \<open>Rows and specifications\<close>

text \<open>An update of a row that leaves its identity and its reservation alone.\<close>

definition keepsRes :: "(ImageJobDbRow \<Rightarrow> ImageJobDbRow) \<Rightarrow> bool" where
  "keepsRes f \<longleftrightarrow> (\<forall>r. ij_id (f r) = ij_id r \<and> rowRes (f r) = rowRes r \<and> rowOk (f r) = rowOk r)"

lemma keepsRes_intros [simp]:
  "keepsRes (\<lambda>r. r\<lparr>ij_status := s\<rparr>)"
  "keepsRes (\<lambda>r. r\<lparr>ij_status := s, ij_error_class := e\<rparr>)"
  "keepsRes (\<lambda>r. r\<lparr>ij_status := s, ij_credits_charged := c, ij_result_path := p\<rparr>)"
  "keepsRes (\<lambda>r. r\<lparr>ij_status := s, ij_result_path := p\<rparr>)"
  by (simp_all add: keepsRes_def rowRes_def rowOk_def)

definition closesRow :: "(ImageJobDbRow \<Rightarrow> ImageJobDbRow) \<Rightarrow> bool" where
  "closesRow f \<longleftrightarrow> keepsRes f \<and> (\<forall>r. \<not> liveRow (f r))"

definition setRow :: "string \<Rightarrow> (JobStatus \<Rightarrow> bool) \<Rightarrow> (ImageJobDbRow \<Rightarrow> ImageJobDbRow) \<Rightarrow> ImageJobDbRow list \<Rightarrow> ImageJobDbRow list" where
  "setRow jid P f rows = map (\<lambda>r. if ij_id r = jid \<and> P (ij_status r) then f r else r) rows"

lemma updateRow_setRow:
  "updateRow jid P f w =
     (list_ex (\<lambda>r. ij_id r = jid \<and> P (ij_status r)) (iw_rows w), w\<lparr>iw_rows := setRow jid P f (iw_rows w)\<rparr>)"
  by (simp add: updateRow_def setRow_def)

lemma setRow_miss: "\<not> list_ex (\<lambda>r. ij_id r = jid \<and> P (ij_status r)) rows \<Longrightarrow> setRow jid P f rows = rows"
  by (induction rows) (auto simp: setRow_def)

lemma updateRow_cases:
  obtains (miss) "updateRow jid P f w = (False, w)"
  | (hit) row where "updateRow jid P f w = (True, w\<lparr>iw_rows := setRow jid P f (iw_rows w)\<rparr>)"
      "row \<in> set (iw_rows w)" "ij_id row = jid" "P (ij_status row)"
proof (cases "list_ex (\<lambda>r. ij_id r = jid \<and> P (ij_status r)) (iw_rows w)")
  case True
  then show ?thesis using hit by (auto simp: updateRow_setRow list_ex_iff)
next
  case False
  then show ?thesis using miss setRow_miss [OF False] by (simp add: updateRow_setRow)
qed

lemma setRow_tags:
  assumes "keepsRes f"
  shows "map (\<lambda>r. (ij_id r, rowRes r)) (setRow jid P f rows) = map (\<lambda>r. (ij_id r, rowRes r)) rows"
    and "map ij_id (setRow jid P f rows) = map ij_id rows"
    and "list_all rowOk (setRow jid P f rows) = list_all rowOk rows"
  using assms by (induction rows) (auto simp: setRow_def keepsRes_def)

lemma rowsHeld_setRow:
  assumes "keepsRes f" "\<And>r. r \<in> set rows \<Longrightarrow> ij_id r = jid \<Longrightarrow> P (ij_status r) \<Longrightarrow> liveRow (f r) = liveRow r"
  shows "rowsHeld (setRow jid P f rows) = rowsHeld rows"
  using assms by (induction rows) (auto simp: setRow_def keepsRes_def rowsHeld_def)

lemma rowsHeld_settle:
  assumes f: "closesRow f"
    and "distinct (map ij_id rows)" "row \<in> set rows" "ij_id row = jid" "P (ij_status row)" "liveRow row"
  shows "rowsHeld rows = add_mset (rowRes row) (rowsHeld (setRow jid P f rows))"
  using assms(2-)
proof (induction rows)
  case (Cons r rows)
  show ?case
  proof (cases "ij_id r = jid")
    case True
    then have other: "jid \<notin> ij_id ` set rows" using Cons.prems(1) by auto
    then have "r = row" using Cons.prems(2,3) by (auto simp: image_iff)
    moreover have "setRow jid P f rows = rows" using other by (auto intro!: setRow_miss simp: list_ex_iff)
    ultimately show ?thesis using True Cons.prems(4,5) f
      by (simp add: setRow_def rowsHeld_def closesRow_def)
  next
    case False
    then show ?thesis using Cons by (auto simp: setRow_def rowsHeld_def)
  qed
qed simp

definition subsOf :: "ImageWorld \<Rightarrow> (string \<times> ImageJobSubmission) set" where
  "subsOf w = (\<lambda>(i, sp). (i, js_submission sp)) ` set (iw_inflight w)
     \<union> {(i, js_submission sp) |i sp ctx. iw_worker w = Some ctx \<and> wc_specs ctx i = Some sp}"

definition tagsOf :: "ImageJobDbRow list \<Rightarrow> (string \<times> Reservation) set" where
  "tagsOf rows = set (map (\<lambda>r. (ij_id r, rowRes r)) rows)"

definition worldOk :: "Ledger \<Rightarrow> ImageWorld \<Rightarrow> bool" where
  "worldOk L w \<longleftrightarrow>
     booksOk L (held w) (iw_keys w) (iw_quota w)
     \<and> distinct (map ij_id (iw_rows w)) \<and> list_all rowOk (iw_rows w)
     \<and> list_all (subOk (iw_keys w)) (iw_calls w)
     \<and> (\<forall>(i, sub) \<in> subsOf w. subOk (iw_keys w) sub \<and> (i, subRes sub) \<in> tagsOf (iw_rows w))"

lemma worldOk_D:
  assumes "worldOk L w"
  shows "booksOk L (held w) (iw_keys w) (iw_quota w)" "keysOk (iw_keys w)" "distinct (map ij_id (iw_rows w))"
    "list_all rowOk (iw_rows w)" "list_all (subOk (iw_keys w)) (iw_calls w)"
    "(i, sub) \<in> subsOf w \<Longrightarrow> subOk (iw_keys w) sub" "(i, sub) \<in> subsOf w \<Longrightarrow> (i, subRes sub) \<in> tagsOf (iw_rows w)"
  using assms by (auto simp: worldOk_def booksOk_def)

definition sameCaps :: "KeyDb \<Rightarrow> KeyDb \<Rightarrow> bool" where
  "sameCaps keys keys' \<longleftrightarrow> (\<forall>h. cappedHash h keys' = cappedHash h keys)"

lemma subOk_sameCaps: "sameCaps keys keys' \<Longrightarrow> subOk keys' sub = subOk keys sub"
  by (auto simp: subOk_def sameCaps_def split: option.split)

lemma list_all_subOk_sameCaps: "sameCaps keys keys' \<Longrightarrow> list_all (subOk keys') subs = list_all (subOk keys) subs"
  by (simp add: list_all_iff subOk_sameCaps)

text \<open>A submission the worker knows names one row, which holds its reservation.\<close>

lemma spec_row:
  assumes "worldOk L w" "(jid, sub) \<in> subsOf w" "row \<in> set (iw_rows w)" "ij_id row = jid"
  shows "rowRes row = subRes sub"
proof -
  obtain r where r: "r \<in> set (iw_rows w)" "ij_id r = jid" "rowRes r = subRes sub"
    using worldOk_D(7) [OF assms(1,2)] by (auto simp: tagsOf_def)
  moreover have "r = row" using worldOk_D(3) [OF assms(1)] r assms(3,4) by (metis distinct_map inj_onD)
  ultimately show ?thesis by simp
qed

text \<open>The general step: a world whose rows keep their tags and whose specifications are old ones.\<close>

lemma worldOk_step:
  assumes w: "worldOk L w"
    and books: "booksOk L' (held w') (iw_keys w') (iw_quota w')" and caps: "sameCaps (iw_keys w) (iw_keys w')"
    and rows: "iw_rows w' = iw_rows w \<or> (\<exists>jid P f. keepsRes f \<and> iw_rows w' = setRow jid P f (iw_rows w))"
    and calls: "set (iw_calls w') \<subseteq> set (iw_calls w)" and subs: "subsOf w' \<subseteq> subsOf w"
  shows "worldOk L' w'"
proof -
  have "tagsOf (iw_rows w') = tagsOf (iw_rows w)" "map ij_id (iw_rows w') = map ij_id (iw_rows w)"
    "list_all rowOk (iw_rows w')"
    using rows worldOk_D(4) [OF w] by (auto simp: tagsOf_def setRow_tags simp del: set_map)
  then show ?thesis
    using w books calls subs caps
    by (auto simp: worldOk_def subOk_sameCaps list_all_subOk_sameCaps list_all_iff)
qed

section \<open>The operations keep the books\<close>

lemma metering_fields [simp]:
  "iw_rows (releaseQuota res n now w) = iw_rows w" "iw_rows (refundJob sub now w) = iw_rows w"
  "iw_rows (settleCredits sub n w) = iw_rows w" "iw_rows (refundOrphanRow row now w) = iw_rows w"
  "iw_calls (releaseQuota res n now w) = iw_calls w" "iw_calls (refundJob sub now w) = iw_calls w"
  "iw_calls (settleCredits sub n w) = iw_calls w" "iw_calls (refundOrphanRow row now w) = iw_calls w"
  "iw_worker (releaseQuota res n now w) = iw_worker w" "iw_worker (refundJob sub now w) = iw_worker w"
  "iw_worker (settleCredits sub n w) = iw_worker w" "iw_worker (refundOrphanRow row now w) = iw_worker w"
  "iw_inflight (releaseQuota res n now w) = iw_inflight w" "iw_inflight (refundJob sub now w) = iw_inflight w"
  "iw_inflight (settleCredits sub n w) = iw_inflight w" "iw_inflight (refundOrphanRow row now w) = iw_inflight w"
  "iw_keys (releaseQuota res n now w) = iw_keys w" "iw_quota (settleCredits sub n w) = iw_quota w"
  by (auto simp: releaseQuota_def refundJob_def refundCredits_def settleCredits_def refundOrphanRow_def refundOrphanCredits_def Let_def split: option.split)

lemma bookkeeping_fields [simp]:
  "iw_rows (deleteResult p w) = iw_rows w" "iw_calls (deleteResult p w) = iw_calls w"
  "iw_worker (deleteResult p w) = iw_worker w" "iw_inflight (deleteResult p w) = iw_inflight w"
  "iw_keys (deleteResult p w) = iw_keys w" "iw_quota (deleteResult p w) = iw_quota w"
  "iw_rows (logOwner sub w) = iw_rows w" "iw_calls (logOwner sub w) = iw_calls w"
  "iw_worker (logOwner sub w) = iw_worker w" "iw_inflight (logOwner sub w) = iw_inflight w"
  "iw_keys (logOwner sub w) = iw_keys w" "iw_quota (logOwner sub w) = iw_quota w"
  "iw_rows (countImages sub d w) = iw_rows w" "iw_calls (countImages sub d w) = iw_calls w"
  "iw_worker (countImages sub d w) = iw_worker w" "iw_inflight (countImages sub d w) = iw_inflight w"
  "iw_keys (countImages sub d w) = iw_keys w" "iw_quota (countImages sub d w) = iw_quota w"
  "iw_rows (logCompletion sub s e d c w) = iw_rows w" "iw_calls (logCompletion sub s e d c w) = iw_calls w"
  "iw_worker (logCompletion sub s e d c w) = iw_worker w" "iw_inflight (logCompletion sub s e d c w) = iw_inflight w"
  "iw_keys (logCompletion sub s e d c w) = iw_keys w" "iw_quota (logCompletion sub s e d c w) = iw_quota w"
  "iw_rows (markSpec j f w) = iw_rows w" "iw_calls (markSpec j f w) = iw_calls w"
  "iw_worker (markSpec j f w) = iw_worker w" "iw_keys (markSpec j f w) = iw_keys w"
  "iw_quota (markSpec j f w) = iw_quota w"
  by (auto simp: deleteResult_def logOwner_def countImages_def logCompletion_def markSpec_def split: option.split)

lemma sameCaps_ops [simp]:
  "sameCaps keys keys" "sameCaps (iw_keys w) (iw_keys (refundJob sub now w))"
  "sameCaps (iw_keys w) (iw_keys (settleCredits sub n w))" "sameCaps (iw_keys w) (iw_keys (refundOrphanRow row now w))"
  by (auto simp: sameCaps_def refundJob_def refundCredits_def settleCredits_def refundOrphanRow_def refundOrphanCredits_def releaseQuota_def Let_def
      split: option.split)

text \<open>Only these fields matter for the books and for the specifications.\<close>

lemma refundJob_cong:
  "iw_keys v = iw_keys w \<Longrightarrow> iw_keys (refundJob sub now v) = iw_keys (refundJob sub now w)"
  "iw_quota v = iw_quota w \<Longrightarrow> iw_quota (refundJob sub now v) = iw_quota (refundJob sub now w)"
  "iw_keys v = iw_keys w \<Longrightarrow> iw_keys (refundOrphanRow row now v) = iw_keys (refundOrphanRow row now w)"
  "iw_quota v = iw_quota w \<Longrightarrow> iw_quota (refundOrphanRow row now v) = iw_quota (refundOrphanRow row now w)"
  "iw_keys v = iw_keys w \<Longrightarrow> iw_keys (settleCredits sub n v) = iw_keys (settleCredits sub n w)"
  "iw_quota v = iw_quota w \<Longrightarrow> iw_quota (releaseQuota r n now v) = iw_quota (releaseQuota r n now w)"
  by (auto simp: refundJob_def refundCredits_def settleCredits_def refundOrphanRow_def refundOrphanCredits_def releaseQuota_def Let_def split: option.split)

lemma subsOf_cong: "iw_inflight v = iw_inflight w \<Longrightarrow> iw_worker v = iw_worker w \<Longrightarrow> subsOf v = subsOf w"
  by (simp add: subsOf_def)

lemma unitsSettled_refundJob:
  "unitsSettled (subRes sub) 0 (iw_quota w) (iw_quota (refundJob sub now w))"
proof -
  have "iw_quota (refundJob sub now w) = iw_quota (releaseQuota (su_quotaReservation sub) 0 now w)"
    by (auto simp: refundJob_def refundCredits_def releaseQuota_def split: option.split)
  then show ?thesis using unitsSettled_release by simp
qed

lemma worldOk_settleRow:
  assumes w: "worldOk L w" and row: "row \<in> set (iw_rows w)" "ij_id row = jid" "P (ij_status row)" "liveRow row"
    and f: "closesRow f"
    and w': "iw_rows w' = setRow jid P f (iw_rows w)" "iw_calls w' = iw_calls w" "subsOf w' \<subseteq> subsOf w"
    and keys: "keysSettled (rowRes row) c (iw_keys w) (iw_keys w')" "sameCaps (iw_keys w) (iw_keys w')"
    and units: "unitsSettled (rowRes row) d (iw_quota w) (iw_quota w')" and nonneg: "0 \<le> c" "0 \<le> d"
  shows "worldOk (charge (rowRes row) c d L) w'"
proof (rule worldOk_step [OF w])
  have "rowsHeld (iw_rows w) = add_mset (rowRes row) (rowsHeld (iw_rows w'))"
    unfolding w'(1) by (rule rowsHeld_settle) (use f row worldOk_D(3) [OF w] in auto)
  then have "held w = add_mset (rowRes row) (held w')" using w'(2) by (simp add: held_def)
  then show "booksOk (charge (rowRes row) c d L) (held w') (iw_keys w') (iw_quota w')"
    using booksOk_settle [OF _ keys(1) units nonneg] worldOk_D(1) [OF w] by simp
  show "iw_rows w' = iw_rows w \<or> (\<exists>jid P f. keepsRes f \<and> iw_rows w' = setRow jid P f (iw_rows w))"
    using w'(1) f closesRow_def by blast
qed (use w' keys(2) in auto)

lemma worldOk_rowOk: "worldOk L w \<Longrightarrow> row \<in> set (iw_rows w) \<Longrightarrow> rowOk row"
  using worldOk_D(4) by (auto simp: list_all_iff)

text \<open>A change that touches no row status, no call, no key and no counter.\<close>

lemma worldOk_quiet:
  assumes "worldOk L w" "iw_rows w' = iw_rows w" "iw_calls w' = iw_calls w" "iw_keys w' = iw_keys w"
    "daily (iw_quota w') = daily (iw_quota w)" "subsOf w' \<subseteq> subsOf w"
  shows "worldOk L w'"
  by (rule worldOk_step [OF assms(1)]) (use assms worldOk_D(1) [OF assms(1)] in \<open>auto simp: held_def booksOk_def\<close>)

lemma subsOf_inflight: "(jid, sp) \<in> set (iw_inflight w) \<Longrightarrow> (jid, js_submission sp) \<in> subsOf w"
  by (force simp: subsOf_def)

lemma subsOf_specs: "iw_worker w = Some ctx \<Longrightarrow> wc_specs ctx jid = Some sp \<Longrightarrow> (jid, js_submission sp) \<in> subsOf w"
  by (auto simp: subsOf_def)

text \<open>Marking specifications changes no submission; a worker may only forget specifications.\<close>

lemma inflight_marked:
  assumes "\<And>i sp. js_submission (g i sp) = js_submission sp"
  shows "(\<lambda>(i, sp). (i, js_submission sp)) ` set (map (\<lambda>(i, sp). (i, g i sp)) xs) =
    (\<lambda>(i, sp). (i, js_submission sp)) ` set xs"
  using assms by (induction xs) auto

lemma subsOf_markSpec:
  assumes "\<And>sp. js_submission (f sp) = js_submission sp"
  shows "subsOf (markSpec jid f w) = subsOf w"
  using inflight_marked [of "\<lambda>i sp. if i = jid then f sp else sp" "iw_inflight w"] assms
  by (simp add: subsOf_def markSpec_def)

lemma subsOf_forget:
  assumes "iw_worker w = Some ctx" "wc_specs ctx' \<subseteq>\<^sub>m wc_specs ctx"
  shows "subsOf (w\<lparr>iw_worker := Some ctx'\<rparr>) \<subseteq> subsOf w"
  using assms by (fastforce simp: subsOf_def map_le_def dom_def)

lemma map_le_drop [simp]: "m(k := None) \<subseteq>\<^sub>m m"
  by (simp add: map_le_def)

lemma worldOk_cancel:
  assumes w: "worldOk L w"
  shows "worldOk L (snd (cancelImageJob jid princ now w))"
proof (cases "readRow jid w")
  case None
  then show ?thesis using w by (simp add: cancelImageJob_def)
next
  case (Some row)
  then have row: "row \<in> set (iw_rows w)" "ij_id row = jid" by (auto simp: readRow_def find_Some_iff)
  let ?f = "\<lambda>r. r\<lparr>ij_status := JCancelled\<rparr>"
  show ?thesis
  proof (cases "ownsRow row princ")
    case False
    then show ?thesis using w Some by (simp add: cancelImageJob_def)
  next
    case own: True
    show ?thesis
    proof (cases rule: updateRow_cases [of jid liveStatus ?f w])
      case miss
      then show ?thesis using w Some own by (simp add: cancelImageJob_def)
    next
      case (hit r)
      then have "r = row" using row worldOk_D(3) [OF w] by (metis distinct_map inj_onD)
      then have live: "liveStatus (ij_status row)" "liveRow row" using hit by (simp_all add: liveRow_def)
      let ?w1 = "w\<lparr>iw_rows := setRow jid liveStatus ?f (iw_rows w)\<rparr>"
      have f: "closesRow ?f" by (simp add: closesRow_def liveRow_def liveStatus_def)
      note settle = worldOk_settleRow [where P = liveStatus and c = 0 and d = 0, OF w row live f, simplified]
      show ?thesis
      proof (cases "Option.bind (iw_worker w) (\<lambda>ctx. map_option (Pair ctx) (wc_specs ctx jid))")
        case None
        have "worldOk L (deleteResult (ij_result_path row) (refundOrphanRow row now ?w1))"
          using keysSettled_refundOrphan [of ?w1 row now] unitsSettled_refundOrphan [of row ?w1 now]
            worldOk_rowOk [OF w row(1)] worldOk_D(2) [OF w] sameCaps_ops(4) [of ?w1 row now]
          by (intro settle) (auto simp: subsOf_def)
        then show ?thesis using None hit(1) Some own by (simp add: cancelImageJob_def Let_def)
      next
        case (Some cs)
        then obtain ctx spec where cs: "cs = (ctx, spec)" "iw_worker w = Some ctx" "wc_specs ctx jid = Some spec"
          by (auto split: bind_splits)
        let ?sub = "js_submission spec"
        let ?w2 = "(markSpec jid (\<lambda>sp. sp\<lparr>js_cancelled := True, js_aborted := True\<rparr>) ?w1)
            \<lparr>iw_worker := Some (ctx\<lparr>wc_queue := filter (\<lambda>q. q \<noteq> jid) (wc_queue ctx),
                                  wc_specs := (wc_specs ctx)(jid := None)\<rparr>)\<rparr>"
        have mem: "(jid, ?sub) \<in> subsOf w" by (rule subsOf_specs [OF cs(2,3)])
        have res: "rowRes row = subRes ?sub" by (rule spec_row [OF w mem row])
        have ok: "subOk (iw_keys w) ?sub" by (rule worldOk_D(6) [OF w mem])
        have "subsOf ?w2 \<subseteq> subsOf w"
        proof -
          have "subsOf ?w2 \<subseteq> subsOf (markSpec jid (\<lambda>sp. sp\<lparr>js_cancelled := True, js_aborted := True\<rparr>) ?w1)"
            by (rule subsOf_forget [of _ ctx]) (simp_all add: cs(2))
          also have "\<dots> = subsOf ?w1" by (rule subsOf_markSpec) simp
          also have "\<dots> = subsOf w" by (simp add: subsOf_def)
          finally show ?thesis .
        qed
        then have "worldOk L (deleteResult (ij_result_path row) (refundJob ?sub now ?w2))"
          using keysSettled_refundJob [of ?w2 ?sub now] unitsSettled_refundJob [of ?sub ?w2 now]
            worldOk_D(2) [OF w] sameCaps_ops(2) [of ?w2 ?sub now] ok res
          by (intro settle) (simp_all add: subsOf_def)
        then show ?thesis using Some cs hit(1) \<open>readRow jid w = Some row\<close> own by (simp add: cancelImageJob_def Let_def)
      qed
    qed
  qed
qed

text \<open>Recovery after a restart, row by row over a snapshot of the table.\<close>

lemma recoverRow_ok:
  assumes w: "worldOk L w" and tag: "(ij_id row, rowRes row) \<in> tagsOf (iw_rows w)" and ok: "rowOk row"
  shows "worldOk L (recoverRow now row w) \<and> tagsOf (iw_rows (recoverRow now row w)) = tagsOf (iw_rows w)
     \<and> iw_worker (recoverRow now row w) = iw_worker w"
proof (cases rule: updateRow_cases [of "ij_id row" liveStatus
    "\<lambda>r. r\<lparr>ij_status := JFailed, ij_error_class := Some ''interrupted''\<rparr>" w])
  case miss
  have "worldOk L (deleteResult (ij_result_path row) w)"
    by (rule worldOk_quiet [OF w]) (simp_all add: subsOf_def)
  then show ?thesis using miss by (simp add: recoverRow_def)
next
  case (hit r)
  let ?f = "\<lambda>r. r\<lparr>ij_status := JFailed, ij_error_class := Some ''interrupted''\<rparr>"
  let ?w1 = "w\<lparr>iw_rows := setRow (ij_id row) liveStatus ?f (iw_rows w)\<rparr>"
  have f: "closesRow ?f" by (simp add: closesRow_def liveRow_def liveStatus_def)
  have "rowRes r = rowRes row"
    using tag hit(2,3) worldOk_D(3) [OF w] by (auto simp: tagsOf_def distinct_map inj_on_def)
  moreover have "liveRow r" using hit(4) by (simp add: liveRow_def)
  ultimately have "worldOk L (deleteResult (ij_result_path row) (refundOrphanRow row now ?w1))"
    using worldOk_settleRow [where P = liveStatus and c = 0 and d = 0, OF w hit(2,3,4) _ f,
        of "deleteResult (ij_result_path row) (refundOrphanRow row now ?w1)"]
      keysSettled_refundOrphan [of ?w1 row now] unitsSettled_refundOrphan [of row ?w1 now] ok
      worldOk_D(2) [OF w] sameCaps_ops(4) [of ?w1 row now]
    by (simp add: subsOf_def)
  moreover have "tagsOf (setRow (ij_id row) liveStatus ?f (iw_rows w)) = tagsOf (iw_rows w)"
    by (simp add: tagsOf_def setRow_tags del: set_map)
  ultimately show ?thesis using hit(1) by (simp add: recoverRow_def)
qed

lemma recover_fold_ok:
  "worldOk L w \<Longrightarrow> \<forall>row \<in> set rows. (ij_id row, rowRes row) \<in> tagsOf (iw_rows w) \<and> rowOk row
     \<Longrightarrow> worldOk L (fold (recoverRow now) rows w) \<and> iw_worker (fold (recoverRow now) rows w) = iw_worker w"
proof (induction rows arbitrary: w)
  case (Cons row rows)
  then show ?case using recoverRow_ok [of L w row now] by simp
qed simp

lemma worldOk_start:
  assumes w: "worldOk L w"
  shows "worldOk L (startImageWorker now w)"
proof (cases "iw_worker w")
  case None
  let ?v = "recoverOrphans now w"
  have "\<forall>row \<in> set (filter (\<lambda>r. liveStatus (ij_status r)) (iw_rows w)).
      (ij_id row, rowRes row) \<in> tagsOf (iw_rows w) \<and> rowOk row"
    using worldOk_rowOk [OF w] by (auto simp: tagsOf_def)
  from recover_fold_ok [OF w this, of now] have v: "worldOk L ?v" "iw_worker ?v = None"
    using None by (simp_all add: recoverOrphans_def)
  have "worldOk L (?v\<lparr>iw_worker := Some \<lparr>wc_queue = [], wc_specs = Map.empty, wc_pumping = False, wc_busy = None\<rparr>\<rparr>)"
    by (rule worldOk_quiet [OF v(1)]) (auto simp: subsOf_def v(2))
  then show ?thesis using None by (simp add: startImageWorker_def)
next
  case (Some ctx)
  then show ?thesis using w by (simp add: startImageWorker_def)
qed

lemma worldOk_stop:
  assumes w: "worldOk L w"
  shows "worldOk L (stopWorker w)"
proof (cases "iw_worker w")
  case (Some ctx)
  show ?thesis
    unfolding stopWorker_def Some option.case
  proof (rule worldOk_quiet [OF w])
    have "(\<lambda>(i, sp). (i, js_submission sp)) ` set (map (\<lambda>(i, sp).
        (i, if wc_specs ctx i \<noteq> None then sp\<lparr>js_aborted := True\<rparr> else sp)) (iw_inflight w))
      = (\<lambda>(i, sp). (i, js_submission sp)) ` set (iw_inflight w)"
      by (rule inflight_marked) simp
    then show "subsOf (w\<lparr>iw_inflight := map (\<lambda>(i, sp). (i, if wc_specs ctx i \<noteq> None then sp\<lparr>js_aborted := True\<rparr> else sp))
                       (iw_inflight w), iw_worker := None\<rparr>) \<subseteq> subsOf w"
      unfolding subsOf_def by simp
  qed simp_all
qed (use w in \<open>simp add: stopWorker_def\<close>)

lemma worldOk_timeout:
  assumes w: "worldOk L w"
  shows "worldOk L (jobTimeout jid w)"
  unfolding jobTimeout_def by (rule worldOk_quiet [OF w]) (simp_all add: subsOf_markSpec)

text \<open>A turn of the pump.\<close>

lemma worldOk_setStatusRunning:
  assumes w: "worldOk L w" and upd: "setStatusRunning jid w = (b, w1)"
  shows "worldOk L w1 \<and> iw_worker w1 = iw_worker w \<and> iw_inflight w1 = iw_inflight w \<and> iw_quota w1 = iw_quota w"
proof (cases rule: updateRow_cases [of jid "\<lambda>s. s = JQueued" "\<lambda>r. r\<lparr>ij_status := JRunning\<rparr>" w])
  case (hit row)
  let ?w1 = "w\<lparr>iw_rows := setRow jid (\<lambda>s. s = JQueued) (\<lambda>r. r\<lparr>ij_status := JRunning\<rparr>) (iw_rows w)\<rparr>"
  have "rowsHeld (iw_rows ?w1) = rowsHeld (iw_rows w)"
    by (simp add: rowsHeld_setRow liveRow_def liveStatus_def)
  then have "booksOk L (held ?w1) (iw_keys ?w1) (iw_quota ?w1)"
    using worldOk_D(1) [OF w] by (simp add: held_def)
  moreover have "\<exists>jid P f. keepsRes f \<and> iw_rows ?w1 = setRow jid P f (iw_rows w)"
    by (intro exI conjI, rule keepsRes_intros(1)) simp
  ultimately have "worldOk L ?w1" by (intro worldOk_step [OF w]) (auto simp: subsOf_def)
  then show ?thesis using hit(1) upd by (auto simp: setStatusRunning_def)
qed (use w upd in \<open>auto simp: setStatusRunning_def\<close>)

lemma worldOk_processJob:
  assumes w: "worldOk L w" and ctx: "iw_worker w = Some ctx0" "wc_specs ctx = wc_specs ctx0"
  shows "worldOk L (processJob jid ctx w)"
proof (cases "wc_specs ctx jid")
  case None
  have "worldOk L (w\<lparr>iw_worker := Some ctx\<rparr>)"
    by (rule worldOk_quiet [OF w]) (simp_all add: subsOf_forget [OF ctx(1)] ctx(2))
  then show ?thesis using None by (simp add: processJob_def)
next
  case (Some spec)
  obtain b w1 where upd: "setStatusRunning jid w = (b, w1)" by fastforce
  have w1: "worldOk L w1" "iw_worker w1 = Some ctx0" using worldOk_setStatusRunning [OF w upd] ctx(1) by simp_all
  show ?thesis
  proof (cases b)
    case True
    have "subsOf (w1\<lparr>iw_inflight := iw_inflight w1 @ [(jid, spec)], iw_worker := Some (ctx\<lparr>wc_busy := Some jid\<rparr>)\<rparr>) \<subseteq> subsOf w1"
      using Some ctx(2) w1(2) by (auto simp: subsOf_def)
    then have "worldOk L (w1\<lparr>iw_inflight := iw_inflight w1 @ [(jid, spec)], iw_worker := Some (ctx\<lparr>wc_busy := Some jid\<rparr>)\<rparr>)"
      by (intro worldOk_quiet [OF w1(1)]) simp_all
    then show ?thesis using Some upd True by (simp add: processJob_def)
  next
    case False
    have "worldOk L (w1\<lparr>iw_worker := Some (ctx\<lparr>wc_specs := (wc_specs ctx)(jid := None)\<rparr>)\<rparr>)"
      by (rule worldOk_quiet [OF w1(1)]) (simp_all add: subsOf_forget [OF w1(2)] ctx(2))
    then show ?thesis using Some upd False by (simp add: processJob_def)
  qed
qed

lemma worldOk_pump:
  assumes w: "worldOk L w"
  shows "worldOk L (pumpTurn controller now w)"
proof (cases "iw_worker w")
  case (Some ctx)
  have "worldOk L (w\<lparr>iw_worker := Some (ctx\<lparr>wc_pumping := False\<rparr>)\<rparr>)"
    by (rule worldOk_quiet [OF w]) (simp_all add: subsOf_forget [OF Some])
  then show ?thesis
    using w Some by (auto simp: pumpTurn_def intro!: worldOk_processJob split: option.split)
qed (use w in \<open>simp add: pumpTurn_def\<close>)

text \<open>The end of a dispatched job.\<close>

lemma delivered_bounds:
  assumes "1 \<le> n"
  shows "0 \<le> deliveredOf (generateImages n reply)" "deliveredOf (generateImages n reply) \<le> n"
  using assms by (auto simp: deliveredOf_def generateImages_def Let_def split: SidecarReply.split option.split)

definition isRunning :: "string \<Rightarrow> ImageWorld \<Rightarrow> bool" where
  "isRunning jid w = list_ex (\<lambda>r. ij_id r = jid \<and> ij_status r = JRunning) (iw_rows w)"

lemma finalizeFailure_ok:
  assumes w: "worldOk L w" and sub: "subOk (iw_keys w) (js_submission spec)"
    and tag: "(jid, subRes (js_submission spec)) \<in> tagsOf (iw_rows w)"
  shows "worldOk L (finalizeFailure jid spec err now w) \<and> iw_worker (finalizeFailure jid spec err now w) = iw_worker w"
proof (cases rule: updateRow_cases [of jid "\<lambda>s. s = JRunning" "\<lambda>r. r\<lparr>ij_status := JFailed, ij_error_class := Some err\<rparr>" w])
  case miss
  then show ?thesis using w by (simp add: finalizeFailure_def)
next
  case (hit row)
  let ?f = "\<lambda>r. r\<lparr>ij_status := JFailed, ij_error_class := Some err\<rparr>"
  let ?w1 = "w\<lparr>iw_rows := setRow jid (\<lambda>s. s = JRunning) ?f (iw_rows w)\<rparr>"
  let ?sub = "js_submission spec"
  have f: "closesRow ?f" by (simp add: closesRow_def liveRow_def liveStatus_def)
  have res: "rowRes row = subRes ?sub"
    using tag hit(2,3) worldOk_D(3) [OF w] by (auto simp: tagsOf_def distinct_map inj_on_def)
  have live: "liveRow row" using hit(4) by (simp add: liveRow_def liveStatus_def)
  have "worldOk L (logCompletion ?sub s err 0 (Some err) (refundJob ?sub now ?w1))" for s
    using worldOk_settleRow [where P = "\<lambda>s. s = JRunning" and c = 0 and d = 0, OF w hit(2,3,4) live f,
        of "logCompletion ?sub s err 0 (Some err) (refundJob ?sub now ?w1)"] res sub
      keysSettled_refundJob [of ?w1 ?sub now] unitsSettled_refundJob [of ?sub ?w1 now]
      worldOk_D(2) [OF w] sameCaps_ops(2) [of ?w1 ?sub now]
    by (simp add: subsOf_def)
  then show ?thesis using hit(1) by (simp add: finalizeFailure_def Let_def)
qed

lemma finalizeSuccess_ok:
  fixes spec b64
  defines "d \<equiv> int (length b64)" and "sub \<equiv> js_submission spec"
  assumes w: "worldOk L w" and sub: "subOk (iw_keys w) sub"
    and tag: "(jid, subRes sub) \<in> tagsOf (iw_rows w)" and le: "d \<le> pr_n (su_parsed sub)"
  shows "worldOk (if isRunning jid w then charge (subRes sub) (d * su_creditsPerImage sub) d L else L)
           (finalizeSuccess cfg jid spec b64 now w)
       \<and> iw_worker (finalizeSuccess cfg jid spec b64 now w) = iw_worker w"
proof -
  let ?path = "resultPathFor cfg jid"
  let ?w0 = "w\<lparr>iw_files := (iw_files w)(?path \<mapsto> b64)\<rparr>"
  let ?f = "\<lambda>r. r\<lparr>ij_status := JSucceeded, ij_credits_charged := Some (d * su_creditsPerImage sub), ij_result_path := Some ?path\<rparr>"
  have w0: "worldOk L ?w0" by (rule worldOk_quiet [OF w]) (simp_all add: subsOf_def)
  have run: "isRunning jid w = list_ex (\<lambda>r. ij_id r = jid \<and> ij_status r = JRunning) (iw_rows ?w0)"
    by (simp add: isRunning_def)
  show ?thesis
  proof (cases rule: updateRow_cases [of jid "\<lambda>s. s = JRunning" ?f ?w0])
    case miss
    then have "\<not> isRunning jid w" by (simp add: isRunning_def updateRow_def)
    moreover have "worldOk L (deleteResult (Some ?path) ?w0)"
      by (rule worldOk_quiet [OF w0]) (simp_all add: subsOf_def)
    ultimately show ?thesis using miss by (simp add: finalizeSuccess_def d_def sub_def Let_def)
  next
    case (hit row)
    let ?w1 = "?w0\<lparr>iw_rows := setRow jid (\<lambda>s. s = JRunning) ?f (iw_rows ?w0)\<rparr>"
    let ?w2 = "settleCredits sub (d * su_creditsPerImage sub) ?w1"
    let ?w' = "logOwner sub (logCompletion sub 200 ''ok'' d None (countImages sub d
                 (releaseQuota (su_quotaReservation sub) d now ?w2)))"
    have f: "closesRow ?f" by (simp add: closesRow_def liveRow_def liveStatus_def)
    have res: "rowRes row = subRes sub"
      using tag hit(2,3) worldOk_D(3) [OF w] by (auto simp: tagsOf_def distinct_map inj_on_def)
    have live: "liveRow row" using hit(4) by (simp add: liveRow_def liveStatus_def)
    have "0 \<le> d" "0 \<le> d * su_creditsPerImage sub" using sub by (simp_all add: d_def subOk_def)
    moreover have "unitsSettled (subRes sub) d (iw_quota ?w0) (iw_quota ?w')"
      using unitsSettled_release [of sub d ?w2 now] by simp
    moreover have "keysSettled (subRes sub) (d * su_creditsPerImage sub) (iw_keys ?w0) (iw_keys ?w')"
      using keysSettled_settleCredits [of ?w1 sub d] sub le worldOk_D(2) [OF w] by (simp add: d_def)
    moreover have "sameCaps (iw_keys ?w0) (iw_keys ?w')"
      using sameCaps_ops(3) [of ?w1 sub "d * su_creditsPerImage sub"] by simp
    ultimately have "worldOk (charge (subRes sub) (d * su_creditsPerImage sub) d L) ?w'"
      using worldOk_settleRow [where P = "\<lambda>s. s = JRunning", OF w0 hit(2,3,4) live f, of ?w'] res
      by (simp add: subsOf_def)
    moreover have "isRunning jid w" using hit(2,3,4) by (auto simp: isRunning_def list_ex_iff)
    ultimately show ?thesis using hit(1) by (simp add: finalizeSuccess_def d_def sub_def Let_def)
  qed
qed

text \<open>What the end of a job charges.\<close>

definition endLedger :: "string \<Rightarrow> JobSpec \<Rightarrow> SidecarResult \<Rightarrow> bool \<Rightarrow> ImageWorld \<Rightarrow> Ledger \<Rightarrow> Ledger" where
  "endLedger jid spec res writeFails w L =
     (if isRunning jid w \<and> \<not> writeFails
      then charge (subRes (js_submission spec)) (deliveredOf res * su_creditsPerImage (js_submission spec)) (deliveredOf res) L
      else L)"

lemma worldOk_processJobEnd:
  fixes reply
  assumes w: "worldOk L w" and inflight: "(jid, spec) \<in> set (iw_inflight w)"
  defines "res \<equiv> generateImages (pr_n (su_parsed (js_submission spec))) reply"
  shows "worldOk (endLedger jid spec res writeFails w L) (processJobEnd cfg jid spec res writeFails now w)"
proof -
  let ?w1 = "w\<lparr>iw_inflight := remove1 (jid, spec) (iw_inflight w)\<rparr>"
  let ?L = "endLedger jid spec res writeFails w L"
  note mem = subsOf_inflight [OF inflight]
  have w1: "worldOk L ?w1"
  proof (rule worldOk_quiet [OF w])
    show "subsOf ?w1 \<subseteq> subsOf w"
      unfolding subsOf_def
      by (intro Un_mono image_mono) (simp_all add: set_remove1_subset)
  qed simp_all
  have sub: "subOk (iw_keys ?w1) (js_submission spec)" "(jid, subRes (js_submission spec)) \<in> tagsOf (iw_rows ?w1)"
    using worldOk_D(6,7) [OF w mem] by simp_all
  have n: "1 \<le> pr_n (su_parsed (js_submission spec))" using sub(1) by (simp add: subOk_def)
  have fail: "worldOk L (jobCatch jid spec err now ?w1) \<and> iw_worker (jobCatch jid spec err now ?w1) = iw_worker w" for err
    using finalizeFailure_ok [OF w1 sub] w1 by (simp add: jobCatch_def)
  let ?w2 = "case res of Inr b64 \<Rightarrow> if writeFails then jobCatch jid spec None now ?w1 else finalizeSuccess cfg jid spec b64 now ?w1
                | Inl err \<Rightarrow> jobCatch jid spec err now ?w1"
  have w2: "worldOk ?L ?w2 \<and> iw_worker ?w2 = iw_worker w"
  proof (cases res)
    case (Inl err)
    then show ?thesis
      using fail [of err] by (simp add: endLedger_def deliveredOf_def)
  next
    case (Inr b64)
    have "int (length b64) \<le> pr_n (su_parsed (js_submission spec))"
      using delivered_bounds(2) [OF n, of reply] Inr by (simp add: res_def deliveredOf_def)
    then show ?thesis
      using fail [of None] finalizeSuccess_ok [OF w1 sub, of b64 cfg now] Inr
      by (auto simp: endLedger_def deliveredOf_def isRunning_def)
  qed
  have "worldOk ?L (?w2\<lparr>iw_worker := Some (ctx\<lparr>wc_busy := None, wc_specs := (wc_specs ctx)(jid := None)\<rparr>)\<rparr>)"
    if "iw_worker ?w2 = Some ctx" for ctx
    by (rule worldOk_quiet [OF conjunct1 [OF w2]]) (simp_all add: subsOf_forget [OF that])
  then show ?thesis using w2 by (simp add: processJobEnd_def Let_def split: option.split)
qed

text \<open>Synchronous calls.\<close>

lemma worldOk_settleCall:
  assumes w: "worldOk L w" and sub: "sub \<in> set (iw_calls w)"
    and w': "iw_rows w' = iw_rows w" "iw_calls w' = remove1 sub (iw_calls w)" "subsOf w' = subsOf w"
    and keys: "keysSettled (subRes sub) c (iw_keys w) (iw_keys w')" "sameCaps (iw_keys w) (iw_keys w')"
    and units: "unitsSettled (subRes sub) d (iw_quota w) (iw_quota w')" and nonneg: "0 \<le> c" "0 \<le> d"
  shows "worldOk (charge (subRes sub) c d L) w'"
proof (rule worldOk_step [OF w])
  have "mset (iw_calls w) = add_mset sub (mset (iw_calls w'))" using sub w'(2) by simp
  then have "held w = add_mset (subRes sub) (held w')" using w'(1) by (simp add: held_def)
  then show "booksOk (charge (subRes sub) c d L) (held w') (iw_keys w') (iw_quota w')"
    using booksOk_settle [OF _ keys(1) units nonneg] worldOk_D(1) [OF w] by simp
qed (use w' keys(2) in \<open>simp_all add: set_remove1_subset\<close>)

lemma call_subOk: "worldOk L w \<Longrightarrow> sub \<in> set (iw_calls w) \<Longrightarrow> subOk (iw_keys w) sub"
  using worldOk_D(5) by (auto simp: list_all_iff)

lemma worldOk_syncRejected:
  assumes w: "worldOk L w" and sub: "sub \<in> set (iw_calls w)"
  shows "worldOk L (syncRejected sub now w)"
proof -
  let ?w1 = "w\<lparr>iw_calls := remove1 sub (iw_calls w)\<rparr>"
  show ?thesis
    using worldOk_settleCall [OF w sub, of "refundJob sub now ?w1" 0 0] call_subOk [OF w sub] worldOk_D(2) [OF w]
      keysSettled_refundJob [of ?w1 sub now] unitsSettled_refundJob [of sub ?w1 now] sameCaps_ops(2) [of ?w1 sub now]
    by (simp add: syncRejected_def subsOf_def)
qed

lemma worldOk_syncDone:
  fixes reply
  assumes w: "worldOk L w" and sub: "sub \<in> set (iw_calls w)"
  defines "res \<equiv> generateImages (pr_n (su_parsed sub)) reply"
  shows "worldOk (charge (subRes sub) (deliveredOf res * su_creditsPerImage sub) (deliveredOf res) L) (syncDone sub res now w)"
proof -
  let ?d = "deliveredOf res"
  let ?w1 = "w\<lparr>iw_calls := remove1 sub (iw_calls w)\<rparr>"
  let ?w2 = "case res of Inr _ \<Rightarrow> logOwner sub (countImages sub ?d ?w1) | Inl _ \<Rightarrow> ?w1"
  let ?w3 = "releaseQuota (su_quotaReservation sub) ?d now ?w2"
  have ok: "subOk (iw_keys w) sub" by (rule call_subOk [OF w sub])
  have fields: "iw_keys ?w2 = iw_keys w" "iw_quota ?w2 = iw_quota w" "iw_rows ?w2 = iw_rows w"
    "iw_calls ?w2 = remove1 sub (iw_calls w)" "iw_worker ?w2 = iw_worker w" "iw_inflight ?w2 = iw_inflight w"
    by (simp_all split: sum.split)
  have d: "0 \<le> ?d" "?d \<le> pr_n (su_parsed sub)"
    using delivered_bounds [of "pr_n (su_parsed sub)" reply] ok by (simp_all add: res_def subOk_def)
  have "keysSettled (subRes sub) (?d * su_creditsPerImage sub) (iw_keys w)
      (iw_keys (settleCredits sub (?d * su_creditsPerImage sub) ?w3))"
    using keysSettled_settleCredits [of ?w3 sub ?d] ok d worldOk_D(2) [OF w] by (simp add: fields)
  moreover have "unitsSettled (subRes sub) ?d (iw_quota w) (iw_quota (settleCredits sub (?d * su_creditsPerImage sub) ?w3))"
    using unitsSettled_release [of sub ?d ?w2 now] by (simp add: fields)
  moreover have "sameCaps (iw_keys w) (iw_keys (settleCredits sub (?d * su_creditsPerImage sub) ?w3))"
    using sameCaps_ops(3) [of ?w3 sub "?d * su_creditsPerImage sub"] by (simp add: fields)
  moreover have "0 \<le> ?d * su_creditsPerImage sub" using d ok by (simp add: subOk_def)
  ultimately have "worldOk (charge (subRes sub) (?d * su_creditsPerImage sub) ?d L)
      (settleCredits sub (?d * su_creditsPerImage sub) ?w3)"
    using worldOk_settleCall [OF w sub, of "settleCredits sub (?d * su_creditsPerImage sub) ?w3"] d(1)
    by (simp add: fields subsOf_def)
  then show ?thesis by (simp add: syncDone_def Let_def)
qed

text \<open>
  A crash. The asynchronous reservations stay in the table for the recovery; those of synchronous
  calls are nowhere any more, although the counters keep them: they are lost.
\<close>

definition writeOff :: "Reservation multiset \<Rightarrow> Ledger \<Rightarrow> Ledger" where
  "writeOff R L = \<lparr>paid = (\<lambda>h. paid L h + creditsHeld h R), spent = (\<lambda>k. spent L k + unitsHeld k R)\<rparr>"

lemma worldOk_crash:
  assumes w: "worldOk L w"
  shows "worldOk (writeOff (mset (map subRes (iw_calls w))) L) (crash w)"
proof (rule worldOk_step [OF w])
  let ?R = "mset (map subRes (iw_calls w))"
  have "\<forall>res \<in># ?R. resOk res"
    using worldOk_D(5) [OF w] by (auto simp: list_all_iff intro: subOk_resOk)
  note nonneg = creditsHeld_nonneg [OF this] unitsHeld_nonneg [OF this]
  have "daily (iw_quota (crash w)) = daily (iw_quota w)" by (simp add: crash_def resetQuotaWindows_def)
  then show "booksOk (writeOff ?R L) (held (crash w)) (iw_keys (crash w)) (iw_quota (crash w))"
    using worldOk_D(1) [OF w] nonneg
    by (auto simp: booksOk_def held_def crash_def writeOff_def algebra_simps)
qed (auto simp: crash_def subsOf_def)

lemma worldOk_topUp:
  assumes w: "worldOk L w"
  shows "worldOk L (w\<lparr>iw_keys := snd (topUpCredits a amt i oper t (iw_keys w))\<rparr>)"
proof (rule worldOk_step [OF w])
  let ?w' = "w\<lparr>iw_keys := snd (topUpCredits a amt i oper t (iw_keys w))\<rparr>"
  have "uniqueAliases (iw_keys w)" using worldOk_D(2) [OF w] by (simp add: keysOk_def)
  note keeps = topUp_keeps [OF this, where a = a and n = amt and i = i and oper = oper and now = t]
  show "sameCaps (iw_keys w) (iw_keys ?w')" by (simp add: sameCaps_def keeps)
  show "booksOk L (held ?w') (iw_keys ?w') (iw_quota ?w')"
    using worldOk_D(1,2) [OF w] by (simp add: booksOk_def held_def keeps keysOk_credit_ops)
qed (auto simp: subsOf_def)

text \<open>The sweep only touches rows that have settled.\<close>

lemma sweepRow_ok:
  assumes w: "worldOk L w" and dead: "\<forall>r \<in> set (iw_rows w). ij_id r = ij_id row \<longrightarrow> \<not> liveRow r"
  shows "worldOk L (sweepRow row w)
     \<and> (\<forall>r \<in> set (iw_rows (sweepRow row w)). r \<in> set (iw_rows w) \<or> \<not> liveRow r)"
proof -
  let ?f = "\<lambda>r. r\<lparr>ij_status := JExpired, ij_result_path := None\<rparr>"
  let ?w1 = "deleteResult (ij_result_path row) w"
  have eq: "sweepRow row w = ?w1\<lparr>iw_rows := setRow (ij_id row) (\<lambda>_. True) ?f (iw_rows w)\<rparr>"
    by (simp add: sweepRow_def updateRow_setRow)
  have "rowsHeld (setRow (ij_id row) (\<lambda>_. True) ?f (iw_rows w)) = rowsHeld (iw_rows w)"
    by (rule rowsHeld_setRow) (use dead in \<open>auto simp: liveRow_def liveStatus_def\<close>)
  then have "booksOk L (held (sweepRow row w)) (iw_keys (sweepRow row w)) (iw_quota (sweepRow row w))"
    using worldOk_D(1) [OF w] by (simp add: eq held_def)
  moreover have "\<exists>jid P f. keepsRes f \<and> iw_rows (sweepRow row w) = setRow jid P f (iw_rows w)"
    unfolding eq by (intro exI conjI, rule keepsRes_intros(4)) simp
  ultimately have "worldOk L (sweepRow row w)"
    by (intro worldOk_step [OF w]) (auto simp: eq subsOf_def)
  moreover have "\<forall>r \<in> set (iw_rows (sweepRow row w)). r \<in> set (iw_rows w) \<or> \<not> liveRow r"
    by (auto simp: eq setRow_def liveRow_def liveStatus_def)
  ultimately show ?thesis by simp
qed

definition expiredRows :: "millis \<Rightarrow> ImageWorld \<Rightarrow> ImageJobDbRow list" where
  "expiredRows now w = filter (\<lambda>r. ij_status r = JSucceeded
     \<and> (case ij_expires_at r of None \<Rightarrow> False | Some e \<Rightarrow> e < now)) (iw_rows w)"

lemma worldOk_sweeping:
  assumes w: "worldOk L w"
  shows "worldOk L (fold sweepRow (take k (expiredRows now w)) w)"
proof -
  have sweeps: "worldOk L (fold sweepRow rows v)"
    if "worldOk L v" "\<forall>row \<in> set rows. \<forall>r \<in> set (iw_rows v). ij_id r = ij_id row \<longrightarrow> \<not> liveRow r" for rows v
    using that
  proof (induction rows arbitrary: v)
    case (Cons row rows)
    then have "worldOk L (sweepRow row v)"
      and "\<forall>r \<in> set (iw_rows (sweepRow row v)). r \<in> set (iw_rows v) \<or> \<not> liveRow r"
      using sweepRow_ok [of L v row] by simp_all
    then show ?case using Cons.prems(2) by (simp, intro Cons.IH) (simp, meson)
  qed simp
  have dead: "\<not> liveRow r" if "row \<in> set (iw_rows w)" "ij_status row = JSucceeded" "r \<in> set (iw_rows w)" "ij_id r = ij_id row" for row r
  proof -
    have "r = row" using that worldOk_D(3) [OF w] by (metis distinct_map inj_onD)
    then show ?thesis using that by (simp add: liveRow_def liveStatus_def)
  qed
  have "\<forall>row \<in> set (expiredRows now w). \<forall>r \<in> set (iw_rows w). ij_id r = ij_id row \<longrightarrow> \<not> liveRow r"
    by (auto simp: expiredRows_def dest: dead)
  then show ?thesis using sweeps [OF w] set_take_subset [of k "expiredRows now w"] by blast
qed

lemma worldOk_sweep: "worldOk L w \<Longrightarrow> worldOk L (sweepExpired now w)"
  using worldOk_sweeping [of L w "length (expiredRows now w)" now] by (simp add: sweepExpired_def expiredRows_def)

text \<open>The handler: what it reserves, it hands to the worker or to the pending call, or gives back.\<close>

definition requestOk :: "Principal \<Rightarrow> ParsedImageRequest \<Rightarrow> int \<Rightarrow> KeyDb \<Rightarrow> bool" where
  "requestOk princ parsed creditsPerImage keys \<longleftrightarrow>
     1 \<le> pr_n parsed \<and> 0 \<le> creditsPerImage
     \<and> (case pc_keyHash princ of None \<Rightarrow> True | Some h \<Rightarrow> (pc_creditLimit princ > 0) = cappedHash h keys)"

lemma releaseReserve_fields [simp]:
  "iw_rows (releaseReserve c h k v) = iw_rows v" "iw_calls (releaseReserve c h k v) = iw_calls v"
  "iw_worker (releaseReserve c h k v) = iw_worker v" "iw_inflight (releaseReserve c h k v) = iw_inflight v"
  "iw_quota (releaseReserve c h k v) = iw_quota v" "sameCaps (iw_keys v) (iw_keys (releaseReserve c h k v))"
  "sameCaps keys (snd (reserveFor c h k keys))"
  by (auto simp: releaseReserve_def sameCaps_def reserveFor_def)

lemma reserveFor_ok:
  assumes "keysOk keys" "fst (reserveFor iscap h cost keys)" "0 \<le> cost"
    and "accounts keys used"
  shows "keysOk (snd (reserveFor iscap h cost keys))"
    and "accounts (snd (reserveFor iscap h cost keys)) (\<lambda>g. used g + (if iscap \<and> g = h then cost else 0))"
proof -
  show "keysOk (snd (reserveFor iscap h cost keys))"
    using assms(1) by (simp add: reserveFor_def keysOk_credit_ops)
  have upd: "used(h := used h + cost) = (\<lambda>g. used g + (if g = h then cost else 0))" by auto
  show "accounts (snd (reserveFor iscap h cost keys)) (\<lambda>g. used g + (if iscap \<and> g = h then cost else 0))"
    using accounts_reserve [OF assms(4), of h cost] assms
    by (auto simp: reserveFor_def keysOk_def upd split: if_splits)
qed

lemma releaseReserve_ok:
  assumes "keysOk (iw_keys v)" "0 \<le> cost" "0 \<le> used h"
    and "accounts (iw_keys v) (\<lambda>g. used g + (if iscap \<and> g = h then cost else 0))"
  shows "keysOk (iw_keys (releaseReserve iscap h cost v))" "accounts (iw_keys (releaseReserve iscap h cost v)) used"
proof -
  show "keysOk (iw_keys (releaseReserve iscap h cost v))"
    using assms(1,2) by (simp add: releaseReserve_def keysOk_credit_ops)
  have "(\<lambda>g. used g + (if g = h then cost else 0))(h := used h) = used" by auto
  then show "accounts (iw_keys (releaseReserve iscap h cost v)) used"
    using accounts_reconcile [OF assms(4), of cost h 0] assms by (cases iscap) (simp_all add: releaseReserve_def)
qed

text \<open>The handler again, with its two helpers named.\<close>

lemma handle_cases:
  fixes princ parsed cpi
  defines "cost \<equiv> pr_n parsed * cpi" and "iscap \<equiv> isCapped princ" and "h \<equiv> keyHashOf princ"
  obtains (busy) "snd (handleImageGeneration cfg ctl princ parsed cpi bm oc jid eid now w) = w"
  | (refused) "\<not> fst (reserveFor iscap h cost (iw_keys w))"
      "snd (handleImageGeneration cfg ctl princ parsed cpi bm oc jid eid now w) =
         w\<lparr>iw_keys := snd (reserveFor iscap h cost (iw_keys w))\<rparr>"
  | (limited) reason retry snap q where "fst (reserveFor iscap h cost (iw_keys w))"
      "checkQuota (pc_alias princ) (pc_limits princ) (pr_n parsed) eid now (iw_quota w) = (QuotaNo reason retry snap, q)"
      "snd (handleImageGeneration cfg ctl princ parsed cpi bm oc jid eid now w) =
         releaseReserve iscap h cost (w\<lparr>iw_keys := snd (reserveFor iscap h cost (iw_keys w)), iw_quota := q\<rparr>)"
  | (taken) snap res q sub where "fst (reserveFor iscap h cost (iw_keys w))"
      "checkQuota (pc_alias princ) (pc_limits princ) (pr_n parsed) eid now (iw_quota w) = (QuotaOk snap res, q)"
      "sub = \<lparr>su_parsed = parsed, su_alias = pc_alias princ, su_keyHash = pc_keyHash princ, su_lane = pc_tier princ,
        su_creditsReserved = creditsTaken iscap cost, su_capped = iscap, su_creditsPerImage = cpi,
        su_quotaReservation = res, su_backendModel = bm, su_ownerCapture = oc\<rparr>"
      "snd (handleImageGeneration cfg ctl princ parsed cpi bm oc jid eid now w) =
         (let w2 = w\<lparr>iw_keys := snd (reserveFor iscap h cost (iw_keys w)), iw_quota := q\<rparr>
          in if pr_sync parsed then w2\<lparr>iw_calls := iw_calls w2 @ [sub]\<rparr>
             else case submitImageJob cfg jid now sub w2 of
                    Some (view, w3) \<Rightarrow> w3
                  | None \<Rightarrow> releaseQuota res 0 now (releaseReserve iscap h cost w2))"
proof -
  obtain b keys1 where res: "reserveFor iscap h cost (iw_keys w) = (b, keys1)" by fastforce
  obtain dec q where quota: "checkQuota (pc_alias princ) (pc_limits princ) (pr_n parsed) eid now (iw_quota w) = (dec, q)"
    by fastforce
  note unfold = handleImageGeneration_def Let_def iscap_def h_def cost_def
  note res = res [unfolded iscap_def h_def cost_def]
  show thesis
  proof (cases "maintenanceRefuses now ctl princ")
    case True
    show thesis by (rule busy) (use True in \<open>simp add: unfold\<close>)
  next
    case False
    consider "\<not> b" | reason retry snap where "b" "dec = QuotaNo reason retry snap" | snap r where "b" "dec = QuotaOk snap r"
      by (cases b; cases dec) auto
    then show thesis
    proof cases
      case 1
      show thesis by (rule refused) (use 1 False res in \<open>simp_all add: unfold\<close>)
    next
      case 2
      show thesis by (rule limited [of _ _ _ q]) (use 2 False res quota in \<open>simp_all add: unfold\<close>)
    next
      case 3
      show thesis
        by (rule taken [of snap r q, OF _ _ refl]) (use 3 False res quota in \<open>auto simp: unfold split: option.split\<close>)
    qed
  qed
qed

lemma worldOk_limited:
  assumes w: "worldOk L w" and ok: "fst (reserveFor iscap h cost (iw_keys w))" and cost: "0 \<le> cost"
    and q: "checkQuota a lims n eid now (iw_quota w) = (QuotaNo reason retry snap, q)"
  shows "worldOk L (releaseReserve iscap h cost
           (w\<lparr>iw_keys := snd (reserveFor iscap h cost (iw_keys w)), iw_quota := q\<rparr>))"
proof -
  let ?w1 = "w\<lparr>iw_keys := snd (reserveFor iscap h cost (iw_keys w)), iw_quota := q\<rparr>"
  let ?used = "\<lambda>g. paid L g + creditsHeld g (held w)"
  note books = worldOk_D(1) [OF w]
  have acc: "accounts (iw_keys w) ?used" and pos: "0 \<le> ?used h"
    using books creditsHeld_nonneg [of "held w" h] by (auto simp: booksOk_def add_nonneg_nonneg)
  note taken = reserveFor_ok [OF worldOk_D(2) [OF w] ok cost acc]
  have returned: "keysOk (iw_keys (releaseReserve iscap h cost ?w1))" "accounts (iw_keys (releaseReserve iscap h cost ?w1)) ?used"
    using releaseReserve_ok [of ?w1 cost ?used h iscap] taken cost pos by simp_all
  have "get_or (daily q) k 0 = get_or (daily (iw_quota w)) k 0" for k
    by (rule checkQuota_No(2) [OF q daily_nonneg [OF books]])
  then have "booksOk L (held (releaseReserve iscap h cost ?w1)) (iw_keys (releaseReserve iscap h cost ?w1))
      (iw_quota (releaseReserve iscap h cost ?w1))"
    using books returned by (simp add: booksOk_def held_def)
  moreover have "sameCaps (iw_keys w) (iw_keys (releaseReserve iscap h cost ?w1))"
    by (auto simp: sameCaps_def releaseReserve_def reserveFor_def)
  ultimately show ?thesis by (intro worldOk_step [OF w]) (auto simp: subsOf_def)
qed

text \<open>The moment both reservations are taken and nobody holds them yet.\<close>

lemma taken_books:
  assumes w: "worldOk L w" and req: "requestOk princ parsed cpi (iw_keys w)"
    and ok: "fst (reserveFor (isCapped princ) (keyHashOf princ) (pr_n parsed * cpi) (iw_keys w))"
    and q: "checkQuota (pc_alias princ) lims (pr_n parsed) eid now (iw_quota w) = (QuotaOk snap res, q)"
    and sub: "sub = \<lparr>su_parsed = parsed, su_alias = pc_alias princ, su_keyHash = pc_keyHash princ, su_lane = pc_tier princ,
        su_creditsReserved = creditsTaken (isCapped princ) (pr_n parsed * cpi), su_capped = isCapped princ,
        su_creditsPerImage = cpi, su_quotaReservation = res, su_backendModel = bm, su_ownerCapture = oc\<rparr>"
  defines "keys2 \<equiv> snd (reserveFor (isCapped princ) (keyHashOf princ) (pr_n parsed * cpi) (iw_keys w))"
  shows "booksOk L (add_mset (subRes sub) (held w)) keys2 q" "subOk keys2 sub"
proof -
  have n: "1 \<le> pr_n parsed" "0 \<le> cpi" using req by (simp_all add: requestOk_def)
  then have cost: "0 \<le> pr_n parsed * cpi" by simp
  have res: "r_alias res = pc_alias princ" "r_reservedDaily res = pr_n parsed" "r_day res = dayKey now"
    using checkQuota_Ok(5) [OF q] n by simp_all
  have caps: "cappedHash g keys2 = cappedHash g (iw_keys w)" for g
    by (simp add: keys2_def reserveFor_def)
  show sub_ok: "subOk keys2 sub"
    using req n res(2) by (auto simp: subOk_def sub requestOk_def isCapped_def creditsTaken_def caps split: option.split)
  have credits: "creditsOf g (subRes sub) = (if isCapped princ \<and> g = keyHashOf princ then pr_n parsed * cpi else 0)" for g
    by (auto simp: creditsOf_def subRes_def sub creditsTaken_def isCapped_def keyHashOf_def)
  show "booksOk L (add_mset (subRes sub) (held w)) keys2 q"
  proof (rule booksOk_reserve [OF worldOk_D(1) [OF w] subOk_resOk [OF sub_ok]])
    show "keysOk keys2" unfolding keys2_def
      using worldOk_D(1,2) [OF w] ok cost reserveFor_ok(1) by (auto simp: booksOk_def)
    show "accounts keys2 (\<lambda>g. used g + creditsOf g (subRes sub))" if "accounts (iw_keys w) used" for used
      using reserveFor_ok(2) [OF worldOk_D(2) [OF w] ok cost that] by (simp add: keys2_def credits)
    show "get_or (daily q) k 0 = get_or (daily (iw_quota w)) k 0 + unitsOf k (subRes sub)" for k
      using checkQuota_Ok(6) [OF q] res n(1) by (auto simp: unitsOf_def subRes_def sub)
  qed
qed

lemma worldOk_returned:
  assumes w: "worldOk L w" and sub: "subOk keys2 sub" and caps: "sameCaps (iw_keys w) keys2"
    and books: "booksOk L (add_mset (subRes sub) (held w)) keys2 q"
  shows "worldOk L (refundJob sub now (w\<lparr>iw_keys := keys2, iw_quota := q\<rparr>))"
proof (rule worldOk_step [OF w])
  let ?w2 = "w\<lparr>iw_keys := keys2, iw_quota := q\<rparr>"
  have "keysOk keys2" using books by (simp add: booksOk_def)
  then show "booksOk L (held (refundJob sub now ?w2)) (iw_keys (refundJob sub now ?w2)) (iw_quota (refundJob sub now ?w2))"
    using booksOk_settle [OF books, of 0 "iw_keys (refundJob sub now ?w2)" 0 "iw_quota (refundJob sub now ?w2)"]
      keysSettled_refundJob [of ?w2 sub now] unitsSettled_refundJob [of sub ?w2 now] sub
    by (simp add: held_def)
  show "sameCaps (iw_keys w) (iw_keys (refundJob sub now ?w2))"
    using caps sameCaps_ops(2) [of ?w2 sub now] by (simp add: sameCaps_def)
qed (auto simp: subsOf_def)

lemma worldOk_pending:
  assumes w: "worldOk L w" and sub: "subOk keys2 sub" and caps: "sameCaps (iw_keys w) keys2"
    and books: "booksOk L (add_mset (subRes sub) (held w)) keys2 q"
  shows "worldOk L (w\<lparr>iw_keys := keys2, iw_quota := q, iw_calls := iw_calls w @ [sub]\<rparr>)"
  using w sub books
  by (auto simp: worldOk_def held_def subsOf_def subOk_sameCaps [OF caps] list_all_subOk_sameCaps [OF caps])

lemma worldOk_submitted:
  assumes w: "worldOk L w" and sub: "subOk keys2 sub" and caps: "sameCaps (iw_keys w) keys2"
    and books: "booksOk L (add_mset (subRes sub) (held w)) keys2 q"
    and submit: "submitImageJob cfg jid now sub (w\<lparr>iw_keys := keys2, iw_quota := q\<rparr>) = Some (view, w')"
  shows "worldOk L w'"
proof -
  obtain ctx where ctx: "iw_worker w = Some ctx" and fresh: "jid \<notin> ij_id ` set (iw_rows w)"
    and w': "w' = w\<lparr>iw_keys := keys2, iw_quota := q, iw_rows := iw_rows w @ [newRow cfg jid now sub],
        iw_worker := Some (ctx\<lparr>wc_specs := (wc_specs ctx)(jid \<mapsto> \<lparr>js_submission = sub, js_aborted = False,
          js_cancelled = False, js_timedOut = False\<rparr>), wc_queue := wc_queue ctx @ [jid], wc_pumping := True\<rparr>)\<rparr>"
    using submit by (auto simp: submitImageJob_def Let_def list_ex_iff split: option.splits if_splits)
  have row: "rowRes (newRow cfg jid now sub) = subRes sub" "liveRow (newRow cfg jid now sub)"
    "rowOk (newRow cfg jid now sub)" "ij_id (newRow cfg jid now sub) = jid"
    using subOk_resOk [OF sub]
    by (simp_all add: newRow_def rowRes_def subRes_def liveRow_def liveStatus_def rowOk_def)
  have "held w' = add_mset (subRes sub) (held w)" by (simp add: w' held_def rowsHeld_def row)
  moreover have "subsOf w' \<subseteq> insert (jid, sub) (subsOf w)" using ctx by (auto simp: subsOf_def w' split: if_splits)
  moreover have "tagsOf (iw_rows w') = insert (jid, subRes sub) (tagsOf (iw_rows w))"
    by (auto simp: tagsOf_def w' row)
  ultimately show ?thesis
    using w sub books fresh row
    by (auto simp: worldOk_def w' subOk_sameCaps [OF caps] list_all_subOk_sameCaps [OF caps])
qed

lemma worldOk_handle:
  assumes w: "worldOk L w" and req: "requestOk princ parsed cpi (iw_keys w)"
  shows "worldOk L (snd (handleImageGeneration cfg ctl princ parsed cpi bm oc jid eid now w))"
proof (cases rule: handle_cases [of cfg ctl princ parsed cpi bm oc jid eid now w])
  case busy
  then show ?thesis using w by simp
next
  case refused
  then have "snd (reserveFor (isCapped princ) (keyHashOf princ) (pr_n parsed * cpi) (iw_keys w)) = iw_keys w"
    using reserve_refused by (auto simp: reserveFor_def split: if_splits)
  then show ?thesis using refused(2) w by simp
next
  case (limited reason retry snap q)
  have "0 \<le> pr_n parsed * cpi" using req by (simp add: requestOk_def)
  from worldOk_limited [OF w limited(1) this limited(2)] show ?thesis using limited(3) by simp
next
  case (taken snap res q sub)
  let ?keys2 = "snd (reserveFor (isCapped princ) (keyHashOf princ) (pr_n parsed * cpi) (iw_keys w))"
  let ?w2 = "w\<lparr>iw_keys := ?keys2, iw_quota := q\<rparr>"
  note t = taken_books [OF w req taken(1,2,3)]
  note steps = worldOk_pending [OF w t(2) _ t(1)] worldOk_returned [OF w t(2) _ t(1), of now]
    worldOk_submitted [OF w t(2) _ t(1), of cfg jid now]
  have "releaseQuota res 0 now (releaseReserve (isCapped princ) (keyHashOf princ) (pr_n parsed * cpi) v)
      = refundJob sub now v" for v
    by (cases "isCapped princ")
      (auto simp: refundJob_def refundCredits_def releaseReserve_def taken(3) isCapped_def keyHashOf_def creditsTaken_def split: option.split)
  then show ?thesis
    using steps taken(4) by (auto simp: Let_def split: option.split)
qed

section \<open>Two ledgers\<close>

text \<open>What the calls that ended were charged, and what crashes lost, kept apart.\<close>

definition both :: "Ledger \<Rightarrow> Ledger \<Rightarrow> Ledger" where
  "both L X = \<lparr>paid = (\<lambda>h. paid L h + paid X h), spent = (\<lambda>k. spent L k + spent X k)\<rparr>"

lemma both_charge: "both (charge res c d L) (charge res c' d' X) = charge res (c + c') (d + d') (both L X)"
  by (auto simp: both_def charge_def)

lemma both_charge_left: "both (charge res c d L) X = charge res c d (both L X)"
  using both_charge [of res c d L 0 0 X] by simp

lemma both_writeOff: "both L (writeOff R X) = writeOff R (both L X)"
  by (auto simp: both_def writeOff_def)

definition nonneg :: "Ledger \<Rightarrow> bool" where
  "nonneg X \<longleftrightarrow> (\<forall>h. 0 \<le> paid X h) \<and> (\<forall>k. 0 \<le> spent X k)"

lemma nonneg_charge: "nonneg X \<Longrightarrow> 0 \<le> c \<Longrightarrow> 0 \<le> d \<Longrightarrow> nonneg (charge res c d X)"
  by (simp add: nonneg_def charge_def)

lemma nonneg_writeOff: "nonneg X \<Longrightarrow> \<forall>res \<in># R. resOk res \<Longrightarrow> nonneg (writeOff R X)"
  using creditsHeld_nonneg [of R] unitsHeld_nonneg [of R] by (simp add: nonneg_def writeOff_def)

text \<open>A reservation whose credits, or whose units, are left as they are.\<close>

lemma keysSettled_kept:
  assumes "keysOk keys" and "resOk res"
  shows "keysSettled res (rv_credits res) keys keys"
proof -
  have "(\<lambda>h. used h - creditsOf h res + (if rv_key res = Some h then rv_credits res else 0)) = used" for used
    by (auto simp: creditsOf_def)
  then show ?thesis using assms(1) by (simp add: settledBy_def)
qed

lemma unitsSettled_kept: "unitsSettled res (rv_units res) q q"
  by (simp add: unitsSettled_def)

lemma refundCredits_fields [simp]:
  "iw_rows (refundCredits sub w) = iw_rows w" "iw_calls (refundCredits sub w) = iw_calls w"
  "iw_worker (refundCredits sub w) = iw_worker w" "iw_inflight (refundCredits sub w) = iw_inflight w"
  "iw_quota (refundCredits sub w) = iw_quota w"
  "iw_rows (refundOrphanCredits row w) = iw_rows w" "iw_calls (refundOrphanCredits row w) = iw_calls w"
  "iw_worker (refundOrphanCredits row w) = iw_worker w" "iw_inflight (refundOrphanCredits row w) = iw_inflight w"
  "iw_quota (refundOrphanCredits row w) = iw_quota w"
  by (auto simp: refundCredits_def refundOrphanCredits_def split: option.split)

lemma refundCredits_keys:
  "iw_keys (refundCredits sub w) = iw_keys (refundJob sub now w)"
  "iw_keys (refundOrphanCredits row w) = iw_keys (refundOrphanRow row now w)"
  by (auto simp: refundJob_def refundOrphanRow_def releaseQuota_def Let_def split: option.split)

lemma rv_subRes [simp]:
  "rv_credits (subRes sub) = su_creditsReserved sub"
  "rv_units (subRes sub) = r_reservedDaily (su_quotaReservation sub)"
  by (simp_all add: subRes_def)

section \<open>Commits cut short\<close>

text \<open>
  The states between two commits of one operation, in which a crash can catch the process, with what
  is then charged (\<open>L'\<close>) and what is lost (\<open>X'\<close>). The handler reserves credits, takes the quota,
  inserts the row (or, when that fails, gives back the one and then the other); a synchronous call
  settles the counter, then the credits, and a refused one the other way round; a job's end, a
  cancellation and the recovery of a row close the row, settle the credits, then the counter;
  recovery and sweep go row by row.
\<close>

definition takenSub ::
  "Principal \<Rightarrow> ParsedImageRequest \<Rightarrow> int \<Rightarrow> string \<Rightarrow> bool \<Rightarrow> QuotaReservation \<Rightarrow> ImageJobSubmission" where
  "takenSub princ parsed cpi bm oc res =
     \<lparr>su_parsed = parsed, su_alias = pc_alias princ, su_keyHash = pc_keyHash princ, su_lane = pc_tier princ,
      su_creditsReserved = creditsTaken (isCapped princ) (pr_n parsed * cpi), su_capped = isCapped princ,
      su_creditsPerImage = cpi, su_quotaReservation = res, su_backendModel = bm, su_ownerCapture = oc\<rparr>"

abbreviation reserveOf :: "Principal \<Rightarrow> ParsedImageRequest \<Rightarrow> int \<Rightarrow> KeyDb \<Rightarrow> bool \<times> KeyDb" where
  "reserveOf princ parsed cpi keys \<equiv> reserveFor (isCapped princ) (keyHashOf princ) (pr_n parsed * cpi) keys"

definition loseCredits :: "Principal \<Rightarrow> int \<Rightarrow> Ledger \<Rightarrow> Ledger" where
  "loseCredits princ cost X =
     X\<lparr>paid := (\<lambda>h. paid X h + (if isCapped princ \<and> h = keyHashOf princ then cost else 0))\<rparr>"

text \<open>Nothing of a reservation is settled; only its credits are, with a charge; only its units are.\<close>

definition loseAll :: "Reservation \<Rightarrow> Ledger \<Rightarrow> Ledger" where
  "loseAll res X = charge res (rv_credits res) (rv_units res) X"

definition loseUnits :: "Reservation \<Rightarrow> Ledger \<Rightarrow> Ledger" where
  "loseUnits res X = charge res 0 (rv_units res) X"

definition loseReserve :: "Reservation \<Rightarrow> Ledger \<Rightarrow> Ledger" where
  "loseReserve res X = charge res (rv_credits res) 0 X"

definition closeRow ::
  "string \<Rightarrow> (JobStatus \<Rightarrow> bool) \<Rightarrow> (ImageJobDbRow \<Rightarrow> ImageJobDbRow) \<Rightarrow> ImageWorld \<Rightarrow> ImageWorld" where
  "closeRow jid P f w = snd (updateRow jid P f w)"

definition succeedRow :: "ImageConfig \<Rightarrow> string \<Rightarrow> JobSpec \<Rightarrow> string list \<Rightarrow> ImageWorld \<Rightarrow> ImageWorld" where
  "succeedRow cfg jid spec b64 w =
     closeRow jid (\<lambda>s. s = JRunning)
       (\<lambda>r. r\<lparr>ij_status := JSucceeded,
              ij_credits_charged := Some (int (length b64) * su_creditsPerImage (js_submission spec)),
              ij_result_path := Some (resultPathFor cfg jid)\<rparr>)
       (w\<lparr>iw_files := (iw_files w)(resultPathFor cfg jid \<mapsto> b64)\<rparr>)"

definition failRow :: "string \<Rightarrow> (JobStatus \<Rightarrow> bool) \<Rightarrow> string \<Rightarrow> ImageWorld \<Rightarrow> ImageWorld" where
  "failRow jid P err w = closeRow jid P (\<lambda>r. r\<lparr>ij_status := JFailed, ij_error_class := Some err\<rparr>) w"

definition cancelRow :: "string \<Rightarrow> ImageWorld \<Rightarrow> ImageWorld" where
  "cancelRow jid w = closeRow jid liveStatus (\<lambda>r. r\<lparr>ij_status := JCancelled\<rparr>) w"

abbreviation orphansOf :: "ImageWorld \<Rightarrow> ImageJobDbRow list" where
  "orphansOf w \<equiv> filter (\<lambda>r. liveStatus (ij_status r)) (iw_rows w)"

abbreviation recovering :: "millis \<Rightarrow> nat \<Rightarrow> ImageWorld \<Rightarrow> ImageWorld" where
  "recovering now k w \<equiv> fold (recoverRow now) (take k (orphansOf w)) w"

inductive image_cut ::
  "ImageConfig \<Rightarrow> Ledger \<Rightarrow> Ledger \<Rightarrow> ImageWorld \<Rightarrow> Ledger \<Rightarrow> Ledger \<Rightarrow> ImageWorld \<Rightarrow> bool"
  for cfg L X w where
  cut_reserved: "\<lbrakk>requestOk princ parsed cpi (iw_keys w); reserveOf princ parsed cpi (iw_keys w) = (True, keys)\<rbrakk>
    \<Longrightarrow> image_cut cfg L X w L (loseCredits princ (pr_n parsed * cpi) X) (w\<lparr>iw_keys := keys\<rparr>)"
| cut_limited: "\<lbrakk>requestOk princ parsed cpi (iw_keys w); reserveOf princ parsed cpi (iw_keys w) = (True, keys);
      checkQuota (pc_alias princ) (pc_limits princ) (pr_n parsed) eid now (iw_quota w) = (QuotaNo reason retry snap, q)\<rbrakk>
    \<Longrightarrow> image_cut cfg L X w L (loseCredits princ (pr_n parsed * cpi) X) (w\<lparr>iw_keys := keys, iw_quota := q\<rparr>)"
| cut_taken: "\<lbrakk>requestOk princ parsed cpi (iw_keys w); reserveOf princ parsed cpi (iw_keys w) = (True, keys);
      checkQuota (pc_alias princ) (pc_limits princ) (pr_n parsed) eid now (iw_quota w) = (QuotaOk snap res, q)\<rbrakk>
    \<Longrightarrow> image_cut cfg L X w L (loseAll (subRes (takenSub princ parsed cpi bm oc res)) X)
          (w\<lparr>iw_keys := keys, iw_quota := q\<rparr>)"
| cut_catch: "\<lbrakk>requestOk princ parsed cpi (iw_keys w); reserveOf princ parsed cpi (iw_keys w) = (True, keys);
      checkQuota (pc_alias princ) (pc_limits princ) (pr_n parsed) eid now (iw_quota w) = (QuotaOk snap res, q)\<rbrakk>
    \<Longrightarrow> image_cut cfg L X w L (loseUnits (subRes (takenSub princ parsed cpi bm oc res)) X)
          (releaseReserve (isCapped princ) (keyHashOf princ) (pr_n parsed * cpi) (w\<lparr>iw_keys := keys, iw_quota := q\<rparr>))"
| cut_rejected: "sub \<in> set (iw_calls w) \<Longrightarrow> image_cut cfg L X w L (loseUnits (subRes sub) X)
      (refundCredits sub (w\<lparr>iw_calls := remove1 sub (iw_calls w)\<rparr>))"
| cut_done: "\<lbrakk>sub \<in> set (iw_calls w); d = deliveredOf (generateImages (pr_n (su_parsed sub)) reply)\<rbrakk>
    \<Longrightarrow> image_cut cfg L X w (charge (subRes sub) 0 d L) (loseReserve (subRes sub) X)
          (releaseQuota (su_quotaReservation sub) d now (w\<lparr>iw_calls := remove1 sub (iw_calls w)\<rparr>))"
| cut_succeeded: "\<lbrakk>(jid, spec) \<in> set (iw_inflight w); isRunning jid w\<rbrakk>
    \<Longrightarrow> image_cut cfg L X w L (loseAll (subRes (js_submission spec)) X) (succeedRow cfg jid spec b64 w)"
| cut_charged: "\<lbrakk>(jid, spec) \<in> set (iw_inflight w); isRunning jid w; sub = js_submission spec;
      generateImages (pr_n (su_parsed sub)) reply = Inr b64; c = int (length b64) * su_creditsPerImage sub\<rbrakk>
    \<Longrightarrow> image_cut cfg L X w (charge (subRes sub) c 0 L) (loseUnits (subRes sub) X)
          (settleCredits sub c (succeedRow cfg jid spec b64 w))"
| cut_failed: "\<lbrakk>(jid, spec) \<in> set (iw_inflight w); isRunning jid w\<rbrakk>
    \<Longrightarrow> image_cut cfg L X w L (loseAll (subRes (js_submission spec)) X) (failRow jid (\<lambda>s. s = JRunning) err w)"
| cut_refunded: "\<lbrakk>(jid, spec) \<in> set (iw_inflight w); isRunning jid w\<rbrakk>
    \<Longrightarrow> image_cut cfg L X w L (loseUnits (subRes (js_submission spec)) X)
          (refundCredits (js_submission spec) (failRow jid (\<lambda>s. s = JRunning) err w))"
| cut_cancelled: "\<lbrakk>row \<in> set (iw_rows w); liveRow row\<rbrakk>
    \<Longrightarrow> image_cut cfg L X w L (loseAll (rowRes row) X) (cancelRow (ij_id row) w)"
| cut_cancelledSpec: "\<lbrakk>row \<in> set (iw_rows w); liveRow row; iw_worker w = Some ctx; wc_specs ctx (ij_id row) = Some spec\<rbrakk>
    \<Longrightarrow> image_cut cfg L X w L (loseUnits (rowRes row) X) (refundCredits (js_submission spec) (cancelRow (ij_id row) w))"
| cut_cancelledRow: "\<lbrakk>row \<in> set (iw_rows w); liveRow row\<rbrakk>
    \<Longrightarrow> image_cut cfg L X w L (loseUnits (rowRes row) X) (refundOrphanCredits row (cancelRow (ij_id row) w))"
| cut_recovered: "iw_worker w = None \<Longrightarrow> image_cut cfg L X w L X (recovering now k w)"
| cut_swept: "image_cut cfg L X w L X (fold sweepRow (take k (expiredRows now w)) w)"
| cut_orphan: "\<lbrakk>iw_worker w = None; k < length (orphansOf w); row = orphansOf w ! k\<rbrakk>
    \<Longrightarrow> image_cut cfg L X w L (loseAll (rowRes row) X)
          (failRow (ij_id row) liveStatus ''interrupted'' (recovering now k w))"
| cut_orphanCredits: "\<lbrakk>iw_worker w = None; k < length (orphansOf w); row = orphansOf w ! k\<rbrakk>
    \<Longrightarrow> image_cut cfg L X w L (loseUnits (rowRes row) X)
          (refundOrphanCredits row (failRow (ij_id row) liveStatus ''interrupted'' (recovering now k w)))"

text \<open>A row closed, with its credits settled to some charge or not, and its counter not yet.\<close>

lemma cut_row:
  assumes w: "worldOk (both L X) w" and row: "row \<in> set (iw_rows w)" "ij_id row = jid" "P (ij_status row)" "liveRow row"
    and f: "closesRow f"
    and w': "iw_rows w' = setRow jid P f (iw_rows w)" "iw_calls w' = iw_calls w" "subsOf w' \<subseteq> subsOf w"
      "iw_quota w' = iw_quota w"
    and keys: "keysSettled (rowRes row) (cL + cX) (iw_keys w) (iw_keys w')" "sameCaps (iw_keys w) (iw_keys w')"
    and nonneg: "0 \<le> cL + cX"
  shows "worldOk (both (charge (rowRes row) cL 0 L) (charge (rowRes row) cX (rv_units (rowRes row)) X)) w'"
proof -
  have "0 \<le> rv_units (rowRes row)" using worldOk_rowOk [OF w row(1)] by (simp add: rowOk_def resOk_def)
  then show ?thesis unfolding both_charge
    using worldOk_settleRow [OF w row f w'(1,2,3) keys _ nonneg, of "0 + rv_units (rowRes row)"]
      unitsSettled_kept [of "rowRes row"] w'(4) by simp
qed

text \<open>Nothing settled but the row.\<close>

lemma cut_row_all:
  assumes w: "worldOk (both L X) w" and row: "row \<in> set (iw_rows w)" "ij_id row = jid" "P (ij_status row)" "liveRow row"
    and f: "closesRow f"
    and w': "iw_rows w' = setRow jid P f (iw_rows w)" "iw_calls w' = iw_calls w" "iw_worker w' = iw_worker w"
      "iw_inflight w' = iw_inflight w" "iw_quota w' = iw_quota w" "iw_keys w' = iw_keys w"
  shows "worldOk (both L (loseAll (rowRes row) X)) w'"
proof -
  have res: "resOk (rowRes row)" using worldOk_rowOk [OF w row(1)] by (simp add: rowOk_def)
  then show ?thesis
    using cut_row [OF w row f w'(1,2) _ w'(5), of 0 "rv_credits (rowRes row)"] w'
      keysSettled_kept [OF worldOk_D(2) [OF w] res]
    by (simp add: loseAll_def resOk_def subsOf_def)
qed

text \<open>The row closed and its credits refunded.\<close>

lemma cut_row_units:
  assumes w: "worldOk (both L X) w" and row: "row \<in> set (iw_rows w)" "ij_id row = jid" "P (ij_status row)" "liveRow row"
    and f: "closesRow f"
    and w': "iw_rows w' = setRow jid P f (iw_rows w)" "iw_calls w' = iw_calls w" "iw_worker w' = iw_worker w"
      "iw_inflight w' = iw_inflight w" "iw_quota w' = iw_quota w"
    and keys: "keysSettled (rowRes row) 0 (iw_keys w) (iw_keys w')" "sameCaps (iw_keys w) (iw_keys w')"
  shows "worldOk (both L (loseUnits (rowRes row) X)) w'"
  using cut_row [OF w row f w'(1,2) _ w'(5), of 0 0] w' keys by (simp add: loseUnits_def subsOf_def)

lemma running_row:
  assumes w: "worldOk L w" and "(jid, spec) \<in> set (iw_inflight w)" and "isRunning jid w"
  obtains row where "row \<in> set (iw_rows w)" "ij_id row = jid" "ij_status row = JRunning" "liveRow row"
    "rowRes row = subRes (js_submission spec)" "subOk (iw_keys w) (js_submission spec)"
proof -
  obtain row where row: "row \<in> set (iw_rows w)" "ij_id row = jid" "ij_status row = JRunning"
    using assms(3) by (auto simp: isRunning_def list_ex_iff)
  note mem = subsOf_inflight [OF assms(2)]
  show ?thesis using that [OF row] spec_row [OF w mem row(1,2)] worldOk_D(6) [OF w mem] row(3)
    by (simp add: liveRow_def liveStatus_def)
qed

lemma closes_all:
  "closesRow (\<lambda>r. r\<lparr>ij_status := JCancelled\<rparr>)" "closesRow (\<lambda>r. r\<lparr>ij_status := JFailed, ij_error_class := e\<rparr>)"
  "closesRow (\<lambda>r. r\<lparr>ij_status := JSucceeded, ij_credits_charged := c, ij_result_path := p\<rparr>)"
  by (simp_all add: closesRow_def liveRow_def liveStatus_def)

lemmas close_defs = closeRow_def updateRow_setRow failRow_def cancelRow_def succeedRow_def

lemma cut_call:
  assumes w: "worldOk (both L X) w" and sub: "sub \<in> set (iw_calls w)"
    and w': "iw_rows w' = iw_rows w" "iw_calls w' = remove1 sub (iw_calls w)" "subsOf w' = subsOf w"
    and keys: "keysSettled (subRes sub) (cL + cX) (iw_keys w) (iw_keys w')" "sameCaps (iw_keys w) (iw_keys w')"
    and units: "unitsSettled (subRes sub) (dL + dX) (iw_quota w) (iw_quota w')" and nonneg: "0 \<le> cL + cX" "0 \<le> dL + dX"
  shows "worldOk (both (charge (subRes sub) cL dL L) (charge (subRes sub) cX dX X)) w'"
  unfolding both_charge by (rule worldOk_settleCall [OF w sub w' keys units nonneg])

lemma cut_reserve_ok:
  assumes w: "worldOk (both L X) w" and req: "requestOk princ parsed cpi (iw_keys w)"
    and res: "reserveOf princ parsed cpi (iw_keys w) = (True, keys)"
    and q: "\<And>k. get_or (daily q) k 0 = get_or (daily (iw_quota w)) k 0"
  shows "worldOk (both L (loseCredits princ (pr_n parsed * cpi) X)) (w\<lparr>iw_keys := keys, iw_quota := q\<rparr>)"
proof (rule worldOk_step [OF w])
  let ?cost = "pr_n parsed * cpi" and ?w' = "w\<lparr>iw_keys := keys, iw_quota := q\<rparr>"
  let ?used = "\<lambda>h. paid (both L X) h + creditsHeld h (held w)"
  note books = worldOk_D(1) [OF w, unfolded booksOk_def]
  have cost: "0 \<le> ?cost" using req by (simp add: requestOk_def)
  have ok: "fst (reserveOf princ parsed cpi (iw_keys w))" and keys: "keys = snd (reserveOf princ parsed cpi (iw_keys w))"
    using res by simp_all
  have "accounts (iw_keys w) ?used" using books by simp
  note taken = reserveFor_ok [OF worldOk_D(2) [OF w] ok cost this]
  have "(\<lambda>g. ?used g + (if isCapped princ \<and> g = keyHashOf princ then ?cost else 0)) =
      (\<lambda>h. paid (both L (loseCredits princ ?cost X)) h + creditsHeld h (held ?w'))"
    by (auto simp: both_def loseCredits_def held_def)
  then have acc: "accounts keys (\<lambda>h. paid (both L (loseCredits princ ?cost X)) h + creditsHeld h (held ?w'))"
    using taken(2) by (simp add: keys)
  have "0 \<le> paid (both L X) h" "0 \<le> spent (both L X) k" for h k using books by blast+
  then have pos: "0 \<le> paid (both L (loseCredits princ ?cost X)) h" "0 \<le> spent (both L (loseCredits princ ?cost X)) k" for h k
    using cost by (auto simp: both_def loseCredits_def add.assoc [symmetric] intro!: add_nonneg_nonneg)
  have "held ?w' = held w" by (simp add: held_def)
  then show "booksOk (both L (loseCredits princ ?cost X)) (held ?w') (iw_keys ?w') (iw_quota ?w')"
    using books acc taken(1) pos q unfolding booksOk_def by (auto simp: keys both_def loseCredits_def)
  show "sameCaps (iw_keys w) (iw_keys ?w')" using releaseReserve_fields(7) by (simp add: keys)
qed (auto simp: subsOf_def)

lemma cut_taken_books:
  assumes w: "worldOk (both L X) w" and req: "requestOk princ parsed cpi (iw_keys w)"
    and res: "reserveOf princ parsed cpi (iw_keys w) = (True, keys)"
    and q: "checkQuota (pc_alias princ) (pc_limits princ) (pr_n parsed) eid now (iw_quota w) = (QuotaOk snap rs, q)"
    and sub: "sub = takenSub princ parsed cpi bm oc rs"
  shows "booksOk (both L X) (add_mset (subRes sub) (held w)) keys q" "subOk keys sub" "sameCaps (iw_keys w) keys"
proof -
  have ok: "fst (reserveOf princ parsed cpi (iw_keys w))" "keys = snd (reserveOf princ parsed cpi (iw_keys w))"
    using res by simp_all
  show "booksOk (both L X) (add_mset (subRes sub) (held w)) keys q" "subOk keys sub"
    using taken_books [OF w req ok(1) q, of sub bm oc] sub by (simp_all add: ok(2) takenSub_def)
  show "sameCaps (iw_keys w) keys" using releaseReserve_fields(7) by (simp add: ok(2))
qed

text \<open>Between the two reservations and whoever is to hold them.\<close>

lemma cut_taken_ok:
  assumes w: "worldOk (both L X) w" and books: "booksOk (both L X) (add_mset (subRes sub) (held w)) keys q"
    and sub: "subOk keys sub" and caps: "sameCaps (iw_keys w) keys"
    and w': "iw_rows w' = iw_rows w" "iw_calls w' = iw_calls w" "subsOf w' = subsOf w" "iw_quota w' = q"
    and keys: "keysSettled (subRes sub) c keys (iw_keys w')" "sameCaps keys (iw_keys w')" "0 \<le> c"
  shows "worldOk (both L (charge (subRes sub) c (rv_units (subRes sub)) X)) w'"
proof (rule worldOk_step [OF w])
  let ?n = "rv_units (subRes sub)"
  have "0 \<le> ?n" using subOk_resOk [OF sub] by (simp add: resOk_def)
  then have "booksOk (charge (subRes sub) c ?n (both L X)) (held w) (iw_keys w') q"
    using booksOk_settle [OF books keys(1) unitsSettled_kept keys(3)] by simp
  moreover have "held w' = held w" using w' by (simp add: held_def)
  ultimately show "booksOk (both L (charge (subRes sub) c ?n X)) (held w') (iw_keys w') (iw_quota w')"
    using both_charge [of "subRes sub" 0 0 L c ?n X] w'(4) by simp
  show "sameCaps (iw_keys w) (iw_keys w')" using caps keys(2) by (simp add: sameCaps_def)
qed (use w' in auto)

lemma recovering_ok:
  assumes w: "worldOk L w"
  shows "worldOk L (recovering now k w)"
    and "k < length (orphansOf w) \<Longrightarrow>
      \<exists>r \<in> set (iw_rows (recovering now k w)). ij_id r = ij_id (orphansOf w ! k) \<and> liveRow r \<and>
        rowRes r = rowRes (orphansOf w ! k)"
proof -
  have tags: "\<forall>row \<in> set (orphansOf w). (ij_id row, rowRes row) \<in> tagsOf (iw_rows w) \<and> rowOk row"
    using worldOk_rowOk [OF w] by (auto simp: tagsOf_def)
  then show "worldOk L (recovering now k w)"
    using recover_fold_ok [OF w, of "take k (orphansOf w)" now] set_take_subset [of k "orphansOf w"] by blast
  assume k: "k < length (orphansOf w)"
  let ?row = "orphansOf w ! k"
  have row: "?row \<in> set (iw_rows w)" "liveRow ?row" using nth_mem [OF k] by (auto simp: liveRow_def)
  have keep: "?row \<in> set (iw_rows (fold (recoverRow now) rows v))"
    if "?row \<in> set (iw_rows v)" "\<forall>r \<in> set rows. ij_id r \<noteq> ij_id ?row" for rows v
    using that
  proof (induction rows arbitrary: v)
    case (Cons r rows)
    have "iw_rows (recoverRow now r v) = setRow (ij_id r) liveStatus
        (\<lambda>r. r\<lparr>ij_status := JFailed, ij_error_class := Some ''interrupted''\<rparr>) (iw_rows v)"
      by (simp add: recoverRow_def updateRow_setRow)
    then have "?row \<in> set (iw_rows (recoverRow now r v))" using Cons.prems by (force simp: setRow_def)
    then show ?case using Cons by simp
  qed simp
  have "distinct (map ij_id (take (Suc k) (orphansOf w)))"
    using distinct_take [OF distinct_map_filter [OF worldOk_D(3) [OF w]], of "Suc k"] by (simp only: take_map)
  then have "\<forall>r \<in> set (take k (orphansOf w)). ij_id r \<noteq> ij_id ?row"
    unfolding take_Suc_conv_app_nth [OF k] by (auto simp: image_iff dest: bspec)
  from keep [OF row(1) this] show "\<exists>r \<in> set (iw_rows (recovering now k w)). ij_id r = ij_id ?row \<and> liveRow r \<and>
      rowRes r = rowRes ?row" using row(2) by blast
qed

lemma recovering_fields:
  "iw_calls (recovering now k w) = iw_calls w"
proof -
  have "iw_calls (fold (recoverRow now) rows v) = iw_calls v" for rows v
    by (induction rows arbitrary: v) (simp_all add: recoverRow_def updateRow_setRow)
  then show ?thesis by simp
qed

lemma subsOf_close:
  "subsOf (closeRow jid P f w) = subsOf w" "subsOf (w\<lparr>iw_files := fs\<rparr>) = subsOf w"
  by (simp_all add: subsOf_def closeRow_def updateRow_setRow)

lemma close_fields [simp]:
  "iw_rows (closeRow jid P f w) = setRow jid P f (iw_rows w)" "iw_calls (closeRow jid P f w) = iw_calls w"
  "iw_worker (closeRow jid P f w) = iw_worker w" "iw_inflight (closeRow jid P f w) = iw_inflight w"
  "iw_quota (closeRow jid P f w) = iw_quota w" "iw_keys (closeRow jid P f w) = iw_keys w"
  by (simp_all add: closeRow_def updateRow_setRow)

lemma cut_settles:
  assumes "keysOk (iw_keys v)"
  shows "subOk (iw_keys v) sub \<Longrightarrow> keysSettled (subRes sub) 0 (iw_keys v) (iw_keys (refundCredits sub v))"
    and "rowOk row \<Longrightarrow> keysSettled (rowRes row) 0 (iw_keys v) (iw_keys (refundOrphanCredits row v))"
    and "sameCaps (iw_keys v) (iw_keys (refundCredits sub v))"
    and "sameCaps (iw_keys v) (iw_keys (refundOrphanCredits row v))"
  using keysSettled_refundJob [OF assms] keysSettled_refundOrphan [OF assms] sameCaps_ops(2) [of v sub]
    sameCaps_ops(4) [of v row]
  by (simp_all add: refundCredits_keys [where now = 0])

lemma image_cut_ok:
  assumes "image_cut cfg L X w L' X' w'" and w: "worldOk (both L X) w"
  shows "worldOk (both L' X') w'"
  using assms(1)
proof cases
  case (cut_reserved princ parsed cpi keys)
  then show ?thesis using cut_reserve_ok [OF w, of princ parsed cpi keys "iw_quota w"] by simp
next
  case (cut_limited princ parsed cpi keys eid now reason retry snap q)
  have "get_or (daily q) k 0 = get_or (daily (iw_quota w)) k 0" for k
    by (rule checkQuota_No(2) [OF cut_limited(6) daily_nonneg [OF worldOk_D(1) [OF w]]])
  then show ?thesis using cut_reserve_ok [OF w cut_limited(4,5)] cut_limited by simp
next
  case (cut_taken princ parsed cpi keys eid now snap res q bm oc)
  let ?sub = "takenSub princ parsed cpi bm oc res"
  note b = cut_taken_books [OF w cut_taken(4,5,6), of ?sub bm oc, OF refl]
  have res: "resOk (subRes ?sub)" by (rule subOk_resOk [OF b(2)])
  have "keysOk keys" using b(1) by (simp add: booksOk_def)
  then show ?thesis
    using cut_taken_ok [OF w b, of w' "rv_credits (subRes ?sub)"] keysSettled_kept [OF _ res] cut_taken res
    by (simp add: loseAll_def resOk_def subsOf_def)
next
  case (cut_catch princ parsed cpi keys eid now snap res q bm oc)
  let ?sub = "takenSub princ parsed cpi bm oc res" and ?v = "w\<lparr>iw_keys := keys, iw_quota := q\<rparr>"
  note b = cut_taken_books [OF w cut_catch(4,5,6), of ?sub bm oc, OF refl]
  have "w' = refundCredits ?sub ?v"
    unfolding cut_catch(3) by (cases "isCapped princ")
      (auto simp: refundCredits_def releaseReserve_def takenSub_def isCapped_def keyHashOf_def creditsTaken_def split: option.split)
  moreover have "keysOk (iw_keys ?v)" using b(1) by (simp add: booksOk_def)
  ultimately show ?thesis
    using cut_taken_ok [OF w b, of w' 0] cut_settles [of ?v] b(2) cut_catch(1,2)
    by (simp add: loseUnits_def subsOf_def)
next
  case (cut_rejected sub)
  let ?v = "w\<lparr>iw_calls := remove1 sub (iw_calls w)\<rparr>"
  have sub: "subOk (iw_keys w) sub" by (rule call_subOk [OF w cut_rejected(4)])
  then show ?thesis
    using cut_call [OF w cut_rejected(4), of w' 0 0 0 "rv_units (subRes sub)"] cut_settles [of ?v] worldOk_D(2) [OF w]
      unitsSettled_kept [of "subRes sub"] cut_rejected subOk_resOk [OF sub]
    by (simp add: loseUnits_def resOk_def subsOf_def)
next
  case (cut_done sub d reply now)
  let ?v = "w\<lparr>iw_calls := remove1 sub (iw_calls w)\<rparr>"
  have sub: "subOk (iw_keys w) sub" by (rule call_subOk [OF w cut_done(4)])
  have "0 \<le> d" using delivered_bounds(1) sub cut_done(5) by (simp add: subOk_def)
  then show ?thesis
    using cut_call [OF w cut_done(4), of w' 0 "rv_credits (subRes sub)" d 0] worldOk_D(2) [OF w]
      keysSettled_kept [of "iw_keys w" "subRes sub"] unitsSettled_release [of sub d ?v now] cut_done(1,2,3) subOk_resOk [OF sub]
    by (simp add: loseReserve_def resOk_def subsOf_def)
next
  case (cut_succeeded jid spec b64)
  obtain row where row: "row \<in> set (iw_rows w)" "ij_id row = jid" "ij_status row = JRunning" "liveRow row"
    "rowRes row = subRes (js_submission spec)" using running_row [OF w cut_succeeded(4,5)] by metis
  show ?thesis unfolding cut_succeeded(1,2) row(5) [symmetric]
    by (rule cut_row_all [where P = "\<lambda>s. s = JRunning", OF w row(1,2) _ row(4) closes_all(3)]) (simp_all add: cut_succeeded(3) succeedRow_def row(3))
next
  case (cut_charged jid spec sub reply b64 c)
  obtain row where row: "row \<in> set (iw_rows w)" "ij_id row = jid" "ij_status row = JRunning" "liveRow row"
    "rowRes row = subRes sub" "subOk (iw_keys w) sub"
    using running_row [OF w cut_charged(4,5)] cut_charged(6) by metis
  have d: "int (length b64) \<le> pr_n (su_parsed sub)"
    using delivered_bounds(2) [of "pr_n (su_parsed sub)" reply] row(6) cut_charged(7) by (simp add: subOk_def deliveredOf_def)
  let ?v = "succeedRow cfg jid spec b64 w"
  have v: "iw_keys ?v = iw_keys w" by (simp add: succeedRow_def)
  have "keysSettled (rowRes row) (c + 0) (iw_keys w) (iw_keys (settleCredits sub c ?v))"
    using keysSettled_settleCredits [of ?v sub "int (length b64)"] worldOk_D(2) [OF w] row(5,6) d
    by (simp add: v cut_charged(8))
  moreover have "sameCaps (iw_keys w) (iw_keys (settleCredits sub c ?v))" using sameCaps_ops(3) [of ?v sub c] by (simp add: v)
  moreover have "0 \<le> c" using row(6) by (simp add: cut_charged(8) subOk_def)
  moreover have "subsOf (settleCredits sub c ?v) = subsOf w" by (simp add: subsOf_def succeedRow_def)
  ultimately have "worldOk (both (charge (rowRes row) c 0 L) (charge (rowRes row) 0 (rv_units (rowRes row)) X)) w'"
    by (intro cut_row [where P = "\<lambda>s. s = JRunning", OF w row(1,2) _ row(4) closes_all(3)]) (simp_all add: cut_charged(3) succeedRow_def row(3))
  then show ?thesis unfolding cut_charged(1,2) loseUnits_def row(5) .
next
  case (cut_failed jid spec err)
  obtain row where row: "row \<in> set (iw_rows w)" "ij_id row = jid" "ij_status row = JRunning" "liveRow row"
    "rowRes row = subRes (js_submission spec)" using running_row [OF w cut_failed(4,5)] by metis
  show ?thesis unfolding cut_failed(1,2) row(5) [symmetric]
    by (rule cut_row_all [where P = "\<lambda>s. s = JRunning", OF w row(1,2) _ row(4) closes_all(2)]) (simp_all add: cut_failed(3) failRow_def row(3))
next
  case (cut_refunded jid spec err)
  obtain row where row: "row \<in> set (iw_rows w)" "ij_id row = jid" "ij_status row = JRunning" "liveRow row"
    "rowRes row = subRes (js_submission spec)" "subOk (iw_keys w) (js_submission spec)"
    using running_row [OF w cut_refunded(4,5)] by metis
  let ?v = "failRow jid (\<lambda>s. s = JRunning) err w"
  have v: "iw_keys ?v = iw_keys w" by (simp add: failRow_def)
  show ?thesis unfolding cut_refunded(1,2) row(5) [symmetric]
    by (rule cut_row_units [where P = "\<lambda>s. s = JRunning", OF w row(1,2) _ row(4) closes_all(2)])
      (use cut_settles [of ?v] worldOk_D(2) [OF w] row in \<open>simp_all add: cut_refunded(3) v, simp_all add: failRow_def\<close>)
next
  case (cut_cancelled row)
  show ?thesis unfolding cut_cancelled(1,2)
    by (rule cut_row_all [where P = liveStatus, OF w cut_cancelled(4) refl _ cut_cancelled(5) closes_all(1)])
      (use cut_cancelled(5) in \<open>simp_all add: cut_cancelled(3) cancelRow_def liveRow_def\<close>)
next
  case (cut_cancelledSpec row ctx spec)
  let ?v = "cancelRow (ij_id row) w" and ?sub = "js_submission spec"
  note mem = subsOf_specs [OF cut_cancelledSpec(6,7)]
  have res: "rowRes row = subRes ?sub" "subOk (iw_keys w) ?sub"
    using spec_row [OF w mem cut_cancelledSpec(4) refl] worldOk_D(6) [OF w mem] by simp_all
  have v: "iw_keys ?v = iw_keys w" by (simp add: cancelRow_def)
  show ?thesis unfolding cut_cancelledSpec(1,2)
    by (rule cut_row_units [where P = liveStatus, OF w cut_cancelledSpec(4) refl _ cut_cancelledSpec(5) closes_all(1)])
      (use cut_settles [of ?v] worldOk_D(2) [OF w] res cut_cancelledSpec(5) in
        \<open>simp_all add: cut_cancelledSpec(3) v, simp_all add: cancelRow_def liveRow_def\<close>)
next
  case (cut_cancelledRow row)
  let ?v = "cancelRow (ij_id row) w"
  have v: "iw_keys ?v = iw_keys w" by (simp add: cancelRow_def)
  show ?thesis unfolding cut_cancelledRow(1,2)
    by (rule cut_row_units [where P = liveStatus, OF w cut_cancelledRow(4) refl _ cut_cancelledRow(5) closes_all(1)])
      (use cut_settles [of ?v] worldOk_D(2) [OF w] worldOk_rowOk [OF w cut_cancelledRow(4)] cut_cancelledRow(5) in
        \<open>simp_all add: cut_cancelledRow(3) v, simp_all add: cancelRow_def liveRow_def\<close>)
next
  case (cut_recovered now k)
  then show ?thesis using recovering_ok(1) [OF w] by simp
next
  case (cut_swept k now)
  then show ?thesis using worldOk_sweeping [OF w] by simp
next
  case (cut_orphan k row now)
  obtain r where r: "r \<in> set (iw_rows (recovering now k w))" "ij_id r = ij_id row" "liveRow r" "rowRes r = rowRes row"
    using recovering_ok(2) [OF w cut_orphan(5)] cut_orphan(6) by auto
  show ?thesis unfolding cut_orphan(1,2) r(4) [symmetric]
    by (rule cut_row_all [where P = liveStatus, OF recovering_ok(1) [OF w] r(1,2) _ r(3) closes_all(2)])
      (use r(3) in \<open>simp_all add: cut_orphan(3) failRow_def liveRow_def\<close>)
next
  case (cut_orphanCredits k row now)
  let ?u = "recovering now k w"
  obtain r where r: "r \<in> set (iw_rows ?u)" "ij_id r = ij_id row" "liveRow r" "rowRes r = rowRes row"
    using recovering_ok(2) [OF w cut_orphanCredits(5)] cut_orphanCredits(6) by auto
  have u: "worldOk (both L X) ?u" by (rule recovering_ok(1) [OF w])
  have "row \<in> set (iw_rows w)" using nth_mem [OF cut_orphanCredits(5)] cut_orphanCredits(6) by auto
  then have ok: "rowOk row" by (rule worldOk_rowOk [OF w])
  let ?v = "failRow (ij_id row) liveStatus ''interrupted'' ?u"
  have v: "iw_keys ?v = iw_keys ?u" by (simp add: failRow_def)
  show ?thesis unfolding cut_orphanCredits(1,2) r(4) [symmetric]
    by (rule cut_row_units [where P = liveStatus, OF u r(1,2) _ r(3) closes_all(2)])
      (use cut_settles [of ?v] worldOk_D(2) [OF u] ok r in
        \<open>simp_all add: cut_orphanCredits(3) v, simp_all add: failRow_def liveRow_def\<close>)
qed

lemma image_cut_nonneg:
  assumes "image_cut cfg L X w L' X' w'" and w: "worldOk (both L X) w" and "nonneg X"
  shows "nonneg X'"
proof -
  have sub: "0 \<le> su_creditsReserved sub \<and> 0 \<le> r_reservedDaily (su_quotaReservation sub)"
    if "subOk keys sub" for keys sub
    using subOk_resOk [OF that] by (simp add: resOk_def)
  have row: "0 \<le> rv_credits (rowRes row) \<and> 0 \<le> rv_units (rowRes row)" if "row \<in> set (iw_rows w)" for row
    using worldOk_rowOk [OF w that] by (simp add: rowOk_def resOk_def)
  have lose: "nonneg (loseAll res X)" "nonneg (loseUnits res X)" "nonneg (loseReserve res X)"
    if "0 \<le> rv_credits res \<and> 0 \<le> rv_units res" for res
    using that assms(3) by (simp_all add: loseAll_def loseUnits_def loseReserve_def nonneg_charge)
  have call: "0 \<le> rv_credits (subRes s) \<and> 0 \<le> rv_units (subRes s)" if "s \<in> set (iw_calls w)" for s
    using sub [OF call_subOk [OF w that]] by simp
  have spec: "0 \<le> rv_credits (subRes (js_submission sp)) \<and> 0 \<le> rv_units (subRes (js_submission sp))"
    if "(j, sp) \<in> set (iw_inflight w)" for j sp
    using sub [OF worldOk_D(6) [OF w subsOf_inflight [OF that]]] by simp
  have cost: "nonneg (loseCredits princ (pr_n parsed * cpi) X)" if "requestOk princ parsed cpi (iw_keys w)" for princ parsed cpi
    using that assms(3) by (simp add: requestOk_def nonneg_def loseCredits_def)
  from assms(1) show ?thesis
  proof cases
    case (cut_taken princ parsed cpi keys eid now snap res q bm oc)
    from sub [OF cut_taken_books(2) [OF w cut_taken(4,5,6) refl]] show ?thesis
      unfolding cut_taken(2) by (intro lose(1)) simp
  next
    case (cut_catch princ parsed cpi keys eid now snap res q bm oc)
    from sub [OF cut_taken_books(2) [OF w cut_catch(4,5,6) refl]] show ?thesis
      unfolding cut_catch(2) by (intro lose(2)) simp
  next
    case (cut_orphan k row now)
    then have "row \<in> set (iw_rows w)" using nth_mem [of k "orphansOf w"] by auto
    then show ?thesis using cut_orphan(2) lose(1) row by simp
  next
    case (cut_orphanCredits k row now)
    then have "row \<in> set (iw_rows w)" using nth_mem [of k "orphansOf w"] by auto
    then show ?thesis using cut_orphanCredits(2) lose(2) row by simp
  qed (use assms(3) lose call spec row cost in auto)
qed

section \<open>Runs\<close>

text \<open>
  Every interleaving of the operations. The principal of a request carries the credit limit its
  key has (whether it is capped at all never changes); a dispatch ends with whatever the sidecar
  replied. \<open>L\<close> records what each end of a call charges. \<open>X\<close> records what is lost, and only the two
  crash rules change it: a crash loses the reservations of the synchronous calls it interrupts,
  and what the operation it cuts short had not settled yet.
\<close>

inductive image_run :: "ImageConfig \<Rightarrow> Ledger \<Rightarrow> Ledger \<Rightarrow> ImageWorld \<Rightarrow> bool" for cfg where
  run_init: "\<lbrakk>iw_rows w = []; iw_calls w = []; iw_inflight w = []; iw_worker w = None; keysOk (iw_keys w);
       accounts (iw_keys w) (paid L); \<And>k. get_or (daily (iw_quota w)) k 0 = spent L k; nonneg L\<rbrakk>
    \<Longrightarrow> image_run cfg L \<lparr>paid = (\<lambda>_. 0), spent = (\<lambda>_. 0)\<rparr> w"
| run_handle: "\<lbrakk>image_run cfg L X w; requestOk princ parsed cpi (iw_keys w)\<rbrakk>
    \<Longrightarrow> image_run cfg L X (snd (handleImageGeneration cfg ctl princ parsed cpi bm oc jid eid now w))"
| run_rejected: "\<lbrakk>image_run cfg L X w; sub \<in> set (iw_calls w)\<rbrakk> \<Longrightarrow> image_run cfg L X (syncRejected sub now w)"
| run_done: "\<lbrakk>image_run cfg L X w; sub \<in> set (iw_calls w); res = generateImages (pr_n (su_parsed sub)) reply\<rbrakk>
    \<Longrightarrow> image_run cfg (charge (subRes sub) (deliveredOf res * su_creditsPerImage sub) (deliveredOf res) L) X
          (syncDone sub res now w)"
| run_cancel: "image_run cfg L X w \<Longrightarrow> image_run cfg L X (snd (cancelImageJob jid princ now w))"
| run_pump: "image_run cfg L X w \<Longrightarrow> image_run cfg L X (pumpTurn ctl now w)"
| run_timeout: "image_run cfg L X w \<Longrightarrow> image_run cfg L X (jobTimeout jid w)"
| run_end: "\<lbrakk>image_run cfg L X w; (jid, spec) \<in> set (iw_inflight w);
       res = generateImages (pr_n (su_parsed (js_submission spec))) reply\<rbrakk>
    \<Longrightarrow> image_run cfg (endLedger jid spec res writeFails w L) X (processJobEnd cfg jid spec res writeFails now w)"
| run_start: "image_run cfg L X w \<Longrightarrow> image_run cfg L X (startImageWorker now w)"
| run_stop: "image_run cfg L X w \<Longrightarrow> image_run cfg L X (stopWorker w)"
| run_sweep: "image_run cfg L X w \<Longrightarrow> image_run cfg L X (sweepExpired now w)"
| run_crash: "image_run cfg L X w \<Longrightarrow> image_run cfg L (writeOff (mset (map subRes (iw_calls w))) X) (crash w)"
| run_crashIn: "\<lbrakk>image_run cfg L X w; image_cut cfg L X w L' X' w'\<rbrakk>
    \<Longrightarrow> image_run cfg L' (writeOff (mset (map subRes (iw_calls w'))) X') (crash w')"
| run_topUp: "image_run cfg L X w
    \<Longrightarrow> image_run cfg L X (w\<lparr>iw_keys := snd (topUpCredits a amt i oper t (iw_keys w))\<rparr>)"

lemmas worldOk_ops = worldOk_handle worldOk_syncRejected worldOk_cancel worldOk_pump worldOk_timeout
  worldOk_start worldOk_stop worldOk_sweep worldOk_topUp

lemma calls_resOk: "worldOk L w \<Longrightarrow> \<forall>res \<in># mset (map subRes (iw_calls w)). resOk res"
  using worldOk_D(5) by (auto simp: list_all_iff intro: subOk_resOk)

lemma endLedger_both: "both (endLedger jid spec res fails w L) X = endLedger jid spec res fails w (both L X)"
  by (simp add: endLedger_def both_charge_left)

lemma image_run_ok: "image_run cfg L X w \<Longrightarrow> worldOk (both L X) w \<and> nonneg X"
proof (induction rule: image_run.induct)
  case (run_init w L)
  then show ?case
    by (auto simp: worldOk_def booksOk_def held_def rowsHeld_def subsOf_def both_def nonneg_def)
next
  case (run_done L X w sub res reply now)
  then show ?case using worldOk_syncDone [of "both L X" w sub reply now] by (simp add: both_charge_left)
next
  case (run_end L X w jid spec res reply writeFails now)
  then show ?case using worldOk_processJobEnd [of "both L X" w jid spec reply] by (simp add: endLedger_both)
next
  case (run_crash L X w)
  then show ?case using calls_resOk worldOk_crash by (auto simp: both_writeOff intro!: nonneg_writeOff)
next
  case (run_crashIn L X w L' X' w')
  then have "worldOk (both L' X') w'" "nonneg X'" using image_cut_ok image_cut_nonneg by blast+
  then show ?case using calls_resOk worldOk_crash by (auto simp: both_writeOff intro!: nonneg_writeOff)
qed (auto intro: worldOk_ops)

section \<open>Properties\<close>

text \<open>
  C7: whatever the interleaving of submissions, cancellations, timeouts, worker stops and starts,
  sweeps, top-ups and crashes, a key's used credits are what its finished image calls were charged,
  plus the reservations of its queued, running and pending ones, plus what crashes lost; and the
  daily image counter likewise. No reservation is refunded twice or charged twice, and without a
  crash none is lost. What is lost is never negative and changes at a crash only: then the
  reservations of the interrupted synchronous calls are, and whatever the operation that the crash
  cut between two of its commits had reserved or had yet to settle.
\<close>
theorem image_books_balance:
  assumes "image_run cfg L X w" and "r \<in> set (api_keys (iw_keys w))"
  shows "k_credits_used r = paid L (k_key_hash r) + creditsHeld (k_key_hash r) (held w) + paid X (k_key_hash r)
     \<and> get_or (daily (iw_quota w)) k 0 = spent L k + unitsHeld k (held w) + spent X k
     \<and> 0 \<le> paid X (k_key_hash r) \<and> 0 \<le> spent X k"
proof -
  have ok: "worldOk (both L X) w" "nonneg X" using image_run_ok [OF assms(1)] by simp_all
  show ?thesis using worldOk_D(1) [OF ok(1)] ok(2) assms(2)
    by (cases k) (auto simp: booksOk_def accounts_def both_def nonneg_def)
qed

text \<open>
  Image generation never overspends a capped key: in every reachable state the used credits,
  reservations included, are at most the key's limit, because the worst case is reserved by one
  conditional update, the sidecar's reply is cut to the number asked for, and a top-up only raises
  the limit.
\<close>
lemma image_credit_cap:
  assumes "image_run cfg L X w" and "r \<in> set (api_keys (iw_keys w))" and "0 < k_credit_limit r"
  shows "0 \<le> k_credits_used r \<and> k_credits_used r \<le> k_credit_limit r"
proof -
  note ok = worldOk_D(1,2) [OF conjunct1 [OF image_run_ok [OF assms(1)]]]
  have "k_credits_used r = paid (both L X) (k_key_hash r) + creditsHeld (k_key_hash r) (held w)" "0 \<le> paid (both L X) (k_key_hash r)"
    "0 \<le> creditsHeld (k_key_hash r) (held w)"
    using ok(1) assms(2) creditsHeld_nonneg by (auto simp: booksOk_def accounts_def)
  moreover have "k_credits_used r \<le> k_credit_limit r" using ok(2) assms(2,3) by (auto simp: keysOk_def withinCaps_def)
  ultimately show ?thesis by simp
qed

section \<open>The pump\<close>

lemma findIndex_Some:
  assumes "findIndex P xs = Some i"
  shows "i < length xs" "P (xs ! i)" "\<And>j. j < i \<Longrightarrow> \<not> P (xs ! j)"
proof -
  have i: "i = length (takeWhile (\<lambda>x. \<not> P x) xs)" "i < length xs"
    using assms by (auto simp: findIndex_def Let_def split: if_splits)
  show "i < length xs" by (rule i(2))
  show "P (xs ! i)" using nth_length_takeWhile [of "\<lambda>x. \<not> P x" xs] i by simp
  fix j assume "j < i"
  then have "xs ! j = takeWhile (\<lambda>x. \<not> P x) xs ! j" using i(1) by (simp add: takeWhile_nth)
  then show "\<not> P (xs ! j)" using \<open>j < i\<close> i(1) by (metis nth_mem set_takeWhileD)
qed

lemma findIndex_None: "findIndex P xs = None \<longleftrightarrow> (\<forall>x \<in> set xs. \<not> P x)"
proof -
  have "length (takeWhile (\<lambda>x. \<not> P x) xs) < length xs \<longleftrightarrow> (\<exists>x \<in> set xs. P x)"
    by (induction xs) auto
  then show ?thesis by (auto simp: findIndex_def Let_def)
qed

text \<open>
  Maintenance pauses guests without blocking the owner: as long as an idle pump has an owner's
  job in its queue it takes a job, namely the first one that may run, and every job it passes over
  is a guest's that maintenance pauses.
\<close>
lemma image_pump_not_blocked:
  assumes "iw_worker w = Some ctx" "wc_pumping ctx" "wc_busy ctx = None"
    and "jid \<in> set (wc_queue ctx)" "wc_specs ctx jid = Some spec" "su_lane (js_submission spec) = OwnerLane"
  shows "\<exists>i < length (wc_queue ctx).
      pumpTurn ctl now w = processJob (wc_queue ctx ! i) (ctx\<lparr>wc_queue := remove_at i (wc_queue ctx)\<rparr>) w
      \<and> (\<forall>j < i. isMaintenanceMode now ctl \<and>
           (\<exists>sp. wc_specs ctx (wc_queue ctx ! j) = Some sp \<and> su_lane (js_submission sp) = GuestLane))"
proof -
  have "isEligibleNow ctx ctl now jid" using assms(5,6) by (simp add: isEligibleNow_def)
  then obtain i where i: "findIndex (isEligibleNow ctx ctl now) (wc_queue ctx) = Some i"
    using findIndex_None assms(4) by (metis not_None_eq)
  have "wc_queue ctx \<noteq> []" using assms(4) by auto
  then have "pumpTurn ctl now w = processJob (wc_queue ctx ! i) (ctx\<lparr>wc_queue := remove_at i (wc_queue ctx)\<rparr>) w"
    using assms(1-3) i by (simp add: pumpTurn_def)
  moreover have "isMaintenanceMode now ctl \<and>
      (\<exists>sp. wc_specs ctx (wc_queue ctx ! j) = Some sp \<and> su_lane (js_submission sp) = GuestLane)" if "j < i" for j
    using findIndex_Some(3) [OF i that] by (auto simp: isEligibleNow_def split: option.splits)
  ultimately show ?thesis using findIndex_Some(1) [OF i] by blast
qed

text \<open>
  A job is visible to its creator alone: a lookup or a cancellation by another principal says
  the job does not exist and changes nothing.
\<close>
lemma image_job_creator_only:
  assumes "row \<in> set (iw_rows w)" "ij_id row = jid" "distinct (map ij_id (iw_rows w))" "\<not> ownsRow row princ"
  shows "getImageJob jid princ w = None \<and> cancelImageJob jid princ now w = (None, w)"
proof -
  obtain r where r: "readRow jid w = Some r"
    using assms(1,2) by (cases "readRow jid w") (auto simp: readRow_def find_None_iff)
  then have "r \<in> set (iw_rows w)" "ij_id r = jid" by (auto simp: readRow_def find_Some_iff)
  then have "r = row" using assms(1-3) by (metis distinct_map inj_onD)
  then show ?thesis using r assms(4) by (simp add: getImageJob_def cancelImageJob_def)
qed

section \<open>Witnesses\<close>

text \<open>One key with a limit of 10 credits; a request for two images at two credits each, queued.\<close>

definition wKey :: "int \<Rightarrow> KeyRow" where
  "wKey used = \<lparr>k_alias = ''ann'', k_key_hash = ''h'', k_tier = OwnerTier, k_scope = None, k_model_allow_list = [],
     k_system_one_model_allow_list = [], k_embedding_model_allow_list = [], k_rpm = 5, k_tpm = 0,
     k_daily_token_budget = 0, k_max_parallel = 1, k_credit_limit = 10, k_credits_used = used, k_expires_at = None,
     k_created_at = 0, k_revoked_at = None, k_logical_alias = None, k_last_used_at = None, k_use_count = 0\<rparr>"

definition wImg :: ImageWorld where
  "wImg = \<lparr>iw_rows = [], iw_keys = \<lparr>api_keys = [wKey 0], invites = [], credit_topups = [], key_rotation_plans = []\<rparr>,
     iw_quota = wEmpty, iw_files = Map.empty, iw_worker = None, iw_inflight = [], iw_calls = [], iw_log = [],
     iw_generated = [], iw_ownerLog = []\<rparr>"

definition wCfg :: ImageConfig where
  "wCfg = \<lparr>imageResultDir = ''/data'', imageResultTtlMs = 600000\<rparr>"

definition wCtl :: "bool \<Rightarrow> AdmissionController" where
  "wCtl mode = \<lparr>maxInflight = 1, ownerQueueMaxMs = 1, retryAfterAtCapSeconds = 1, maintenanceRetryAfterSeconds = 1,
     inflight = 0, activeModel = None, maintenanceMode = mode, maintenanceScope = ScopeGuest,
     startupExclusiveUntilMs = None, maintenanceExpiresAtMs = None, ownerWaiters = [], keyInflight = Map.empty,
     background = None, outstanding = Map.empty, settled = [], abortedBackground = [], nextId = 0\<rparr>"

definition wPrinc :: Principal where
  "wPrinc = \<lparr>pc_alias = ''ann'', pc_keyHash = Some ''h'', pc_tier = OwnerLane, pc_creditLimit = 10, pc_limits = wLimits\<rparr>"

definition wParsed :: ParsedImageRequest where
  "wParsed = \<lparr>pr_model = ''image-high'', pr_sync = False, pr_prompt = ''a fjord'', pr_n = 2, pr_size = ''512x512''\<rparr>"

definition wQueued :: ImageWorld where
  "wQueued = snd (handleImageGeneration wCfg (wCtl False) wPrinc wParsed 2 ''sd'' False ''j1'' ''e1'' 0
                   (startImageWorker 0 wImg))"

lemma wStart: "image_run wCfg \<lparr>paid = \<lambda>_. 0, spent = \<lambda>_. 0\<rparr> \<lparr>paid = \<lambda>_. 0, spent = \<lambda>_. 0\<rparr> (startImageWorker 0 wImg)"
  by (intro run_start run_init)
    (simp_all add: wImg_def wKey_def wEmpty_def keysOk_def uniqueHashes_def uniqueAliases_def withinCaps_def accounts_def get_or_def
      nonneg_def)

lemma wStart_keys: "iw_keys (startImageWorker 0 wImg) = iw_keys wImg"
  by (simp add: startImageWorker_def wImg_def recoverOrphans_def)

lemma wQueued_run: "image_run wCfg \<lparr>paid = \<lambda>_. 0, spent = \<lambda>_. 0\<rparr> \<lparr>paid = \<lambda>_. 0, spent = \<lambda>_. 0\<rparr> wQueued"
  unfolding wQueued_def
  by (intro run_handle wStart)
    (unfold wStart_keys, simp add: requestOk_def wParsed_def wPrinc_def wImg_def wKey_def cappedHash_def)

lemma wQueued_keys: "api_keys (iw_keys wQueued) = [wKey 4]"
  by (simp add: wQueued_def handleImageGeneration_def maintenanceRefuses_def snapshot_def state_def wCtl_def
      effectiveMaintenanceScope_def startupExclusiveActive_def effectiveMaintenanceMode_def isCapped_def wPrinc_def
      keyHashOf_def reserveFor_def reserveCredits_def reservable_def updateUsed_def startImageWorker_def recoverOrphans_def
      wImg_def wKey_def wParsed_def checkQuota_def pruned_def wEmpty_def wLimits_def reserveDaily_def upsertDaily_def
      get_or_def dailyUsed_def submitImageJob_def Let_def)

text \<open>A crash right after a second request has reserved its two credits: they are lost.\<close>

definition wLost :: ImageWorld where
  "wLost = crash (wQueued\<lparr>iw_keys := snd (reserveCredits ''h'' 2 (iw_keys wQueued))\<rparr>)"

lemma wLost_run:
  "image_run wCfg \<lparr>paid = \<lambda>_. 0, spent = \<lambda>_. 0\<rparr> (writeOff (mset (map subRes (iw_calls wQueued)))
     (loseCredits wPrinc 2 \<lparr>paid = \<lambda>_. 0, spent = \<lambda>_. 0\<rparr>)) wLost"
proof -
  let ?Z = "\<lparr>paid = \<lambda>_. 0, spent = \<lambda>_. 0\<rparr>" and ?p = "wParsed\<lparr>pr_n := 1\<rparr>"
  have "image_cut wCfg ?Z ?Z wQueued ?Z (loseCredits wPrinc (pr_n ?p * 2) ?Z)
      (wQueued\<lparr>iw_keys := snd (reserveCredits ''h'' 2 (iw_keys wQueued))\<rparr>)"
    by (rule cut_reserved)
      (simp_all add: requestOk_def wParsed_def wPrinc_def cappedHash_def wQueued_keys wKey_def reserveFor_def isCapped_def
        keyHashOf_def reserveCredits_def reservable_def Let_def)
  from run_crashIn [OF wQueued_run this] show ?thesis by (simp add: wLost_def wParsed_def)
qed

theorem image_books_balance_witness:
  "4 = 0 + creditsHeld ''h'' (held wQueued) + 0
   \<and> get_or (daily (iw_quota wQueued)) (''ann'', dayKey 0) 0 = 0 + unitsHeld (''ann'', dayKey 0) (held wQueued) + 0
   \<and> 6 = 0 + creditsHeld ''h'' (held wLost) + 2"
proof -
  have keys: "api_keys (iw_keys wLost) = [wKey 6]"
    by (simp add: wLost_def crash_def wQueued_keys reserveCredits_def reservable_def updateUsed_def wKey_def Let_def)
  have calls: "iw_calls wQueued = []"
    by (simp add: wQueued_def handleImageGeneration_def maintenanceRefuses_def snapshot_def state_def wCtl_def
      effectiveMaintenanceScope_def startupExclusiveActive_def effectiveMaintenanceMode_def isCapped_def wPrinc_def
      keyHashOf_def reserveFor_def reserveCredits_def reservable_def updateUsed_def startImageWorker_def recoverOrphans_def
      wImg_def wKey_def wParsed_def checkQuota_def pruned_def wEmpty_def wLimits_def reserveDaily_def upsertDaily_def
      get_or_def dailyUsed_def submitImageJob_def Let_def)
  show ?thesis
    using image_books_balance [OF wQueued_run, of "wKey 4" "(''ann'', dayKey 0)"] wQueued_keys
      image_books_balance [OF wLost_run, of "wKey 6" "(''ann'', dayKey 0)"] keys
    by (simp add: wKey_def calls writeOff_def loseCredits_def isCapped_def keyHashOf_def wPrinc_def)
qed

lemma image_credit_cap_witness: "0 \<le> k_credits_used (wKey 4) \<and> k_credits_used (wKey 4) \<le> 10"
  using image_credit_cap [OF wQueued_run, of "wKey 4"] wQueued_keys by (simp add: wKey_def)

text \<open>A guest's job ahead of the owner's, during maintenance.\<close>

definition wSpec :: "Lane \<Rightarrow> JobSpec" where
  "wSpec lane = \<lparr>js_submission = \<lparr>su_parsed = wParsed, su_alias = ''ann'', su_keyHash = None, su_lane = lane,
      su_creditsReserved = 0, su_capped = False, su_creditsPerImage = 2,
      su_quotaReservation = \<lparr>r_alias = ''ann'', r_eventId = [], r_reservedDaily = 2, r_day = ''d''\<rparr>,
      su_backendModel = ''sd'', su_ownerCapture = False\<rparr>, js_aborted = False, js_cancelled = False, js_timedOut = False\<rparr>"

definition wCtx :: WorkerCtx where
  "wCtx = \<lparr>wc_queue = [''g'', ''o''], wc_specs = [''g'' \<mapsto> wSpec GuestLane, ''o'' \<mapsto> wSpec OwnerLane],
     wc_pumping = True, wc_busy = None\<rparr>"

lemma image_pump_not_blocked_witness:
  "\<exists>i < length (wc_queue wCtx). pumpTurn (wCtl True) 0 (wImg\<lparr>iw_worker := Some wCtx\<rparr>) =
     processJob (wc_queue wCtx ! i) (wCtx\<lparr>wc_queue := remove_at i (wc_queue wCtx)\<rparr>) (wImg\<lparr>iw_worker := Some wCtx\<rparr>)"
proof -
  have "''o'' \<in> set (wc_queue wCtx)" "wc_specs wCtx ''o'' = Some (wSpec OwnerLane)" "wc_pumping wCtx" "wc_busy wCtx = None"
    "su_lane (js_submission (wSpec OwnerLane)) = OwnerLane"
    by (simp_all add: wCtx_def wSpec_def)
  then show ?thesis
    using image_pump_not_blocked [of "wImg\<lparr>iw_worker := Some wCtx\<rparr>" wCtx "''o''" "wSpec OwnerLane" "wCtl True" 0] by auto
qed

lemma image_job_creator_only_witness:
  "getImageJob ''j1'' (wPrinc\<lparr>pc_keyHash := Some ''other''\<rparr>) (wImg\<lparr>iw_rows := [newRow wCfg ''j1'' 0 (js_submission (wSpec OwnerLane))]\<rparr>) = None"
  using image_job_creator_only [of "newRow wCfg ''j1'' 0 (js_submission (wSpec OwnerLane))"
      "wImg\<lparr>iw_rows := [newRow wCfg ''j1'' 0 (js_submission (wSpec OwnerLane))]\<rparr>" "''j1''" "wPrinc\<lparr>pc_keyHash := Some ''other''\<rparr>" 0]
  by (simp add: newRow_def ownsRow_def wSpec_def)

end
