(* ===== verification/Keystore.thy ===== *)
theory Keystore
  imports Keystore_Db
begin

text \<open>
  The life of an API key, \<open>src/homeserver/keystore.ts\<close>: minting, lookup, revocation, rotation in
  one step and in stages, model grants, in-place narrowing and one-time invites. Each exported
  operation is one transaction: it returns its result or its error with the tables after it, and
  an error leaves them as they were.

  \<open>sha256\<close> is not modelled: the digest is the parameter \<open>hash\<close> of the operations that use it. The
  random part of a token, an invite code, a plan id or an alias is an argument.
\<close>

datatype KeyScope = ScAdmin | ScAgent | ScAsk | ScInference | ScMonitor

fun scopeName :: "KeyScope \<Rightarrow> string" where
  "scopeName ScAdmin = ''admin''"
| "scopeName ScAgent = ''agent''"
| "scopeName ScAsk = ''ask''"
| "scopeName ScInference = ''inference''"
| "scopeName ScMonitor = ''monitor''"

fun MAX_KEY_LIFETIME_SECONDS :: "KeyScope \<Rightarrow> seconds" where
  "MAX_KEY_LIFETIME_SECONDS ScAdmin = 30 * 24 * 60 * 60"
| "MAX_KEY_LIFETIME_SECONDS ScAgent = 90 * 24 * 60 * 60"
| "MAX_KEY_LIFETIME_SECONDS ScAsk = 90 * 24 * 60 * 60"
| "MAX_KEY_LIFETIME_SECONDS ScInference = 365 * 24 * 60 * 60"
| "MAX_KEY_LIFETIME_SECONDS ScMonitor = 365 * 24 * 60 * 60"

fun defaultScopeForTier :: "Tier \<Rightarrow> KeyScope" where
  "defaultScopeForTier OwnerTier = ScAgent"
| "defaultScopeForTier GuestTier = ScInference"

fun legacyScopeForTier :: "Tier \<Rightarrow> KeyScope" where
  "legacyScopeForTier OwnerTier = ScAdmin"
| "legacyScopeForTier GuestTier = ScInference"

definition storedScope :: "Tier \<Rightarrow> string option \<Rightarrow> KeyScope" where
  "storedScope tier stored =
     (case stored of
        None \<Rightarrow> legacyScopeForTier tier
      | Some v \<Rightarrow>
          if v = ''inference'' then ScInference
          else if v = ''monitor'' then ScMonitor
          else if tier = OwnerTier \<and> v = ''admin'' then ScAdmin
          else if tier = OwnerTier \<and> v = ''agent'' then ScAgent
          else if tier = OwnerTier \<and> v = ''ask'' then ScAsk
          else ScInference)"

text \<open>The scope a row resolves to, the field \<open>scope\<close> of \<open>rowToRecord\<close>.\<close>

definition rowScope :: "KeyRow \<Rightarrow> KeyScope" where
  "rowScope r = storedScope (k_tier r) (k_scope r)"

datatype KsError =
    ErrSystemOneGrant | ErrEmbeddingGrant | ErrChatGrant | ErrInvalidParam string | ErrInvalidScope
  | ErrLifetime | ErrAliasExists string | ErrNotLogicalName string | ErrNothingToInherit
  | ErrAlreadyStaged string | ErrNoActiveKey | ErrPredecessorExpires string | ErrReplacementTooShort
  | ErrNotStaged | ErrOverlapExpired | ErrReplacementInactive | ErrNoPostStageUse | ErrPreflightNotPassed
  | ErrPriorSetChanged | ErrRevokeFailed | ErrPriorNotActive | ErrInviteInvalid | ErrSql

record KeyDefaults =
  df_rpm :: int
  df_tpm :: int
  df_dailyTokenBudget :: int
  df_maxParallel :: int

record MintOptions =
  mo_alias :: string
  mo_tier :: Tier
  mo_scope :: "KeyScope option"
  mo_modelAllowList :: "string list option"
  mo_systemOneModelAllowList :: "string list option"
  mo_embeddingModelAllowList :: "string list option"
  mo_rpm :: "js_number option"
  mo_tpm :: "js_number option"
  mo_dailyTokenBudget :: "js_number option"
  mo_maxParallel :: "js_number option"
  mo_creditLimit :: "js_number option"
  mo_ttlSeconds :: "js_number option"
  mo_logicalAlias :: "string option"

section \<open>Minting\<close>

fun isNonNegInt :: "js_number \<Rightarrow> bool" where
  "isNonNegInt (Fin q) = (snd (quotient_of q) = 1 \<and> 0 \<le> fst (quotient_of q))"
| "isNonNegInt _ = False"

definition badParam :: "js_number option \<Rightarrow> bool" where
  "badParam v = (case v of None \<Rightarrow> False | Some x \<Rightarrow> \<not> isNonNegInt x)"

text \<open>The checks of \<open>assertNonNegativeInt\<close> in the order \<open>mintKeyAt\<close> makes them.\<close>

definition firstBadParam :: "MintOptions \<Rightarrow> string option" where
  "firstBadParam opts =
     (if badParam (mo_creditLimit opts) then Some ''creditLimit''
      else if badParam (mo_rpm opts) then Some ''rpm''
      else if badParam (mo_tpm opts) then Some ''tpm''
      else if badParam (mo_dailyTokenBudget opts) then Some ''dailyTokenBudget''
      else if badParam (mo_maxParallel opts) then Some ''maxParallel''
      else if badParam (mo_ttlSeconds opts) then Some ''ttlSeconds''
      else None)"

definition KNOWN_DECISION_MODELS :: "string list" where
  "KNOWN_DECISION_MODELS = [''clef-flash'', ''bespoke-nimble-9b'', ''pplx-decider-v1-27b'']"

definition isSystemOneDecisionModel :: "string \<Rightarrow> string list \<Rightarrow> bool" where
  "isSystemOneDecisionModel model enabledModels =
     (model \<in> set KNOWN_DECISION_MODELS \<or> model \<in> set enabledModels)"

definition isEmbeddingModel :: "string \<Rightarrow> bool" where
  "isEmbeddingModel i = (i = ''embeddinggemma-2'')"

definition badGrants :: "(string \<Rightarrow> bool) \<Rightarrow> string list option \<Rightarrow> bool" where
  "badGrants ok grants =
     (case grants of None \<Rightarrow> False | Some ms \<Rightarrow> \<not> distinct ms \<or> list_ex (\<lambda>m. \<not> ok m) ms)"

definition orInt :: "js_number option \<Rightarrow> int \<Rightarrow> int" where
  "orInt v d = (case v of None \<Rightarrow> d | Some x \<Rightarrow> the_int x)"

definition orList :: "string list option \<Rightarrow> string list" where
  "orList v = (case v of None \<Rightarrow> [] | Some xs \<Rightarrow> xs)"

fun tierName :: "Tier \<Rightarrow> string" where
  "tierName OwnerTier = ''owner''"
| "tierName GuestTier = ''guest''"

definition plaintextOf :: "Tier \<Rightarrow> string \<Rightarrow> string" where
  "plaintextOf tier rnd = ''hs_'' @ tierName tier @ ''_'' @ rnd"

definition mintScope :: "MintOptions \<Rightarrow> KeyScope" where
  "mintScope opts = (case mo_scope opts of None \<Rightarrow> defaultScopeForTier (mo_tier opts) | Some s \<Rightarrow> s)"

definition mintTtl :: "MintOptions \<Rightarrow> seconds" where
  "mintTtl opts = orInt (mo_ttlSeconds opts) (MAX_KEY_LIFETIME_SECONDS (mintScope opts))"

definition mintRow :: "(string \<Rightarrow> string) \<Rightarrow> MintOptions \<Rightarrow> KeyDefaults \<Rightarrow> string \<Rightarrow> millis \<Rightarrow> KeyRow" where
  "mintRow hash opts d rnd now =
     \<lparr>k_alias = mo_alias opts, k_key_hash = hash (plaintextOf (mo_tier opts) rnd), k_tier = mo_tier opts,
      k_scope = Some (scopeName (mintScope opts)), k_model_allow_list = orList (mo_modelAllowList opts),
      k_system_one_model_allow_list = orList (mo_systemOneModelAllowList opts),
      k_embedding_model_allow_list = orList (mo_embeddingModelAllowList opts),
      k_rpm = orInt (mo_rpm opts) (df_rpm d), k_tpm = orInt (mo_tpm opts) (df_tpm d),
      k_daily_token_budget = orInt (mo_dailyTokenBudget opts) (df_dailyTokenBudget d),
      k_max_parallel = orInt (mo_maxParallel opts) (df_maxParallel d),
      k_credit_limit = orInt (mo_creditLimit opts) 0, k_credits_used = 0,
      k_expires_at = Some (now + mintTtl opts * 1000), k_created_at = now, k_revoked_at = None,
      k_logical_alias = mo_logicalAlias opts, k_last_used_at = None, k_use_count = 0\<rparr>"

definition mintKeyAt ::
  "(string \<Rightarrow> string) \<Rightarrow> MintOptions \<Rightarrow> KeyDefaults \<Rightarrow> string \<Rightarrow> millis \<Rightarrow> KeyDb \<Rightarrow> (KsError + KeyRow) \<times> KeyDb" where
  "mintKeyAt hash opts d rnd now db =
     (if badGrants (\<lambda>m. isSystemOneDecisionModel m []) (mo_systemOneModelAllowList opts) then (Inl ErrSystemOneGrant, db)
      else if badGrants isEmbeddingModel (mo_embeddingModelAllowList opts) then (Inl ErrEmbeddingGrant, db)
      else case firstBadParam opts of
        Some prm \<Rightarrow> (Inl (ErrInvalidParam prm), db)
      | None \<Rightarrow>
          if mo_tier opts = GuestTier \<and> mintScope opts \<noteq> ScInference \<and> mintScope opts \<noteq> ScMonitor
          then (Inl ErrInvalidScope, db)
          else if mintTtl opts > MAX_KEY_LIFETIME_SECONDS (mintScope opts) then (Inl ErrLifetime, db)
          else let row = mintRow hash opts d rnd now
               in if list_ex (\<lambda>r. k_alias r = k_alias row \<or> k_key_hash r = k_key_hash row) (api_keys db)
                  then (Inl (ErrAliasExists (mo_alias opts)), db)
                  else (Inr row, db\<lparr>api_keys := api_keys db @ [row]\<rparr>))"

section \<open>Lookup, revocation and use\<close>

definition expiredAt :: "millis \<Rightarrow> KeyRow \<Rightarrow> bool" where
  "expiredAt now r = (case k_expires_at r of None \<Rightarrow> False | Some e \<Rightarrow> e \<le> now)"

definition activeAt :: "millis \<Rightarrow> KeyRow \<Rightarrow> bool" where
  "activeAt now r \<longleftrightarrow> k_revoked_at r = None \<and> \<not> expiredAt now r"

text \<open>The scan over all unrevoked rows keeps the last match; it never returns early.\<close>

fun scanHash :: "string \<Rightarrow> KeyRow option \<Rightarrow> KeyRow list \<Rightarrow> KeyRow option" where
  "scanHash h match [] = match"
| "scanHash h match (r # rs) = scanHash h (if k_key_hash r = h then Some r else match) rs"

definition lookupKey :: "(string \<Rightarrow> string) \<Rightarrow> string \<Rightarrow> millis \<Rightarrow> KeyDb \<Rightarrow> KeyRow option" where
  "lookupKey hash plaintext now db =
     (case scanHash (hash plaintext) None (filter (\<lambda>r. k_revoked_at r = None) (api_keys db)) of
        None \<Rightarrow> None
      | Some r \<Rightarrow> if expiredAt now r then None else Some r)"

text \<open>\<open>UPDATE api_keys SET \<dots> WHERE P\<close>.\<close>

definition updateKeys :: "(KeyRow \<Rightarrow> bool) \<Rightarrow> (KeyRow \<Rightarrow> KeyRow) \<Rightarrow> KeyDb \<Rightarrow> KeyDb" where
  "updateKeys P f db = db\<lparr>api_keys := map (\<lambda>r. if P r then f r else r) (api_keys db)\<rparr>"

definition revokeKey :: "string \<Rightarrow> millis \<Rightarrow> KeyDb \<Rightarrow> bool \<times> KeyDb" where
  "revokeKey alias now db =
     (let P = (\<lambda>r. k_alias r = alias \<and> k_revoked_at r = None)
      in (list_ex P (api_keys db), updateKeys P (\<lambda>r. r\<lparr>k_revoked_at := Some now\<rparr>) db))"

text \<open>\<open>ORDER BY created_at\<close>: a stable sort of the rows, which are in rowid order.\<close>

definition byCreated :: "KeyRow \<Rightarrow> KeyRow \<Rightarrow> int" where
  "byCreated a b = k_created_at a - k_created_at b"

definition revokeKeysByScope :: "KeyScope \<Rightarrow> bool option \<Rightarrow> millis \<Rightarrow> KeyDb \<Rightarrow> (string list \<times> bool) \<times> KeyDb" where
  "revokeKeysByScope scope dryRun now db =
     (let rows = filter (\<lambda>r. rowScope r = scope)
                   (sort_by byCreated (filter (\<lambda>r. k_revoked_at r = None) (api_keys db)))
      in if dryRun \<noteq> Some False then ((map k_alias rows, False), db)
         else ((map k_alias rows, True), fold (\<lambda>r d. snd (revokeKey (k_alias r) now d)) rows db))"

definition recordKeyUse :: "string \<Rightarrow> millis \<Rightarrow> KeyDb \<Rightarrow> bool \<times> KeyDb" where
  "recordKeyUse alias now db =
     (let P = (\<lambda>r. k_alias r = alias \<and> k_revoked_at r = None
                  \<and> (case k_expires_at r of None \<Rightarrow> True | Some e \<Rightarrow> e > now))
      in (length (filter P (api_keys db)) = 1,
          updateKeys P (\<lambda>r. r\<lparr>k_last_used_at := Some now, k_use_count := k_use_count r + 1\<rparr>) db))"

record ApiKeyPublic =
  pk_alias :: string
  pk_tier :: Tier
  pk_scope :: KeyScope
  pk_modelAllowList :: "string list"
  pk_systemOneModelAllowList :: "string list"
  pk_embeddingModelAllowList :: "string list"
  pk_rpm :: int
  pk_tpm :: int
  pk_dailyTokenBudget :: int
  pk_maxParallel :: int
  pk_creditLimit :: int
  pk_creditsUsed :: int
  pk_expiresAt :: "millis option"
  pk_createdAt :: millis
  pk_revokedAt :: "millis option"
  pk_logicalAlias :: "string option"
  pk_lastUsedAt :: "millis option"
  pk_useCount :: int

text \<open>\<open>toPublic (rowToRecord r)\<close>: every column but the digest, the scope resolved.\<close>

definition toPublic :: "KeyRow \<Rightarrow> ApiKeyPublic" where
  "toPublic r =
     \<lparr>pk_alias = k_alias r, pk_tier = k_tier r, pk_scope = rowScope r, pk_modelAllowList = k_model_allow_list r,
      pk_systemOneModelAllowList = k_system_one_model_allow_list r,
      pk_embeddingModelAllowList = k_embedding_model_allow_list r, pk_rpm = k_rpm r, pk_tpm = k_tpm r,
      pk_dailyTokenBudget = k_daily_token_budget r, pk_maxParallel = k_max_parallel r,
      pk_creditLimit = k_credit_limit r, pk_creditsUsed = k_credits_used r, pk_expiresAt = k_expires_at r,
      pk_createdAt = k_created_at r, pk_revokedAt = k_revoked_at r, pk_logicalAlias = k_logical_alias r,
      pk_lastUsedAt = k_last_used_at r, pk_useCount = k_use_count r\<rparr>"

definition listKeys :: "bool \<Rightarrow> KeyDb \<Rightarrow> ApiKeyPublic list" where
  "listKeys includeRevoked db =
     map toPublic (sort_by byCreated
       (if includeRevoked then api_keys db else filter (\<lambda>r. k_revoked_at r = None) (api_keys db)))"

section \<open>Rotation\<close>

definition rotatedName :: "string \<Rightarrow> nat \<Rightarrow> string" where
  "rotatedName logicalAlias n = logicalAlias @ ''-r'' @ dec_nat n"

lemma rotatedName_inj [simp]: "rotatedName a m = rotatedName a n \<longleftrightarrow> m = n"
  by (auto simp: rotatedName_def) (metis dec_value_dec_nat)

text \<open>
  The loop that looks for a free suffix ends because the names it tries are different and only
  finitely many are taken.
\<close>

lemma taken_suffixes_shrink:
  assumes "rotatedName a n \<in> set names"
  shows "card {m. Suc n \<le> m \<and> rotatedName a m \<in> set names} < card {m. n \<le> m \<and> rotatedName a m \<in> set names}"
proof (rule psubset_card_mono)
  have "inj (rotatedName a)" by (simp add: inj_def)
  then have "finite {m. rotatedName a m \<in> set names}"
    using finite_vimageI [OF finite_set [of names]] by (simp add: vimage_def)
  then show "finite {m. n \<le> m \<and> rotatedName a m \<in> set names}" by simp
  have "n \<in> {m. n \<le> m \<and> rotatedName a m \<in> set names}" "n \<notin> {m. Suc n \<le> m \<and> rotatedName a m \<in> set names}"
    using assms by auto
  moreover have "{m. Suc n \<le> m \<and> rotatedName a m \<in> set names} \<subseteq> {m. n \<le> m \<and> rotatedName a m \<in> set names}"
    by auto
  ultimately show "{m. Suc n \<le> m \<and> rotatedName a m \<in> set names} \<subset> {m. n \<le> m \<and> rotatedName a m \<in> set names}"
    by blast
qed

function freeSuffix :: "string \<Rightarrow> string list \<Rightarrow> nat \<Rightarrow> string" where
  "freeSuffix a names n =
     (if rotatedName a n \<in> set names then freeSuffix a names (Suc n) else rotatedName a n)"
  by pat_completeness auto
termination
  by (relation "measure (\<lambda>(a, names, n). card {m. n \<le> m \<and> rotatedName a m \<in> set names})")
    (simp_all add: taken_suffixes_shrink)

declare freeSuffix.simps [simp del]

definition nextFreeAlias :: "string \<Rightarrow> string list \<Rightarrow> string" where
  "nextFreeAlias logicalAlias existing =
     (if logicalAlias \<notin> set existing then logicalAlias else freeSuffix logicalAlias existing 2)"

text \<open>The member rows of a logical name: the tagged ones and an untagged one of that alias.\<close>

definition inFamily :: "string \<Rightarrow> KeyRow \<Rightarrow> bool" where
  "inFamily logicalAlias r \<longleftrightarrow>
     k_logical_alias r = Some logicalAlias \<or> (k_logical_alias r = None \<and> k_alias r = logicalAlias)"

text \<open>The guard against rotating a rotation instead of its logical name.\<close>

definition notLogicalName :: "string \<Rightarrow> KeyDb \<Rightarrow> string option" where
  "notLogicalName logicalAlias db =
     (case find (\<lambda>r. k_alias r = logicalAlias) (api_keys db) of
        None \<Rightarrow> None
      | Some self \<Rightarrow>
          (case k_logical_alias self of
             None \<Rightarrow> None
           | Some l \<Rightarrow> if l \<noteq> logicalAlias then Some l else None))"

text \<open>Newest first: by \<open>created_at\<close>, then by rowid, which is the position in the table.\<close>

definition familyNewestFirst :: "string \<Rightarrow> KeyDb \<Rightarrow> KeyRow list" where
  "familyNewestFirst logicalAlias db =
     map snd (sort_by (\<lambda>a b. if k_created_at (snd a) \<noteq> k_created_at (snd b)
                             then k_created_at (snd b) - k_created_at (snd a) else fst b - fst a)
                (filter (\<lambda>(i, r). inFamily logicalAlias r)
                  (zip (map int [0..<length (api_keys db)]) (api_keys db))))"

definition orElse :: "'a option \<Rightarrow> 'a option \<Rightarrow> 'a option" where
  "orElse a b = (case a of None \<Rightarrow> b | Some x \<Rightarrow> Some x)"

text \<open>The options of a rotation: every field but the alias and the logical alias, all optional.\<close>

record RotateOptions =
  ro_tier :: "Tier option"
  ro_scope :: "KeyScope option"
  ro_modelAllowList :: "string list option"
  ro_systemOneModelAllowList :: "string list option"
  ro_embeddingModelAllowList :: "string list option"
  ro_rpm :: "js_number option"
  ro_tpm :: "js_number option"
  ro_dailyTokenBudget :: "js_number option"
  ro_maxParallel :: "js_number option"
  ro_creditLimit :: "js_number option"
  ro_ttlSeconds :: "js_number option"

definition inheritedOptions ::
  "RotateOptions \<Rightarrow> KeyRow option \<Rightarrow> string \<Rightarrow> string \<Rightarrow> Tier \<Rightarrow> KeyScope \<Rightarrow> js_number option \<Rightarrow> MintOptions" where
  "inheritedOptions ro current newAlias logicalAlias tier scope ttl =
     \<lparr>mo_alias = newAlias, mo_tier = tier, mo_scope = Some scope,
      mo_modelAllowList = orElse (ro_modelAllowList ro) (map_option k_model_allow_list current),
      mo_systemOneModelAllowList = orElse (ro_systemOneModelAllowList ro) (map_option k_system_one_model_allow_list current),
      mo_embeddingModelAllowList = orElse (ro_embeddingModelAllowList ro) (map_option k_embedding_model_allow_list current),
      mo_rpm = orElse (ro_rpm ro) (map_option (\<lambda>r. js_int (k_rpm r)) current),
      mo_tpm = orElse (ro_tpm ro) (map_option (\<lambda>r. js_int (k_tpm r)) current),
      mo_dailyTokenBudget = orElse (ro_dailyTokenBudget ro) (map_option (\<lambda>r. js_int (k_daily_token_budget r)) current),
      mo_maxParallel = orElse (ro_maxParallel ro) (map_option (\<lambda>r. js_int (k_max_parallel r)) current),
      mo_creditLimit = orElse (ro_creditLimit ro) (map_option (\<lambda>r. js_int (k_credit_limit r)) current),
      mo_ttlSeconds = ttl, mo_logicalAlias = Some logicalAlias\<rparr>"

text \<open>The loop that revokes the active members, collecting the aliases it revoked.\<close>

fun revokeMembers :: "KeyRow list \<Rightarrow> millis \<Rightarrow> KeyDb \<Rightarrow> string list \<times> KeyDb" where
  "revokeMembers [] now db = ([], db)"
| "revokeMembers (r # rs) now db =
     (if k_revoked_at r = None
      then let (changed, db1) = revokeKey (k_alias r) now db; (rest, db2) = revokeMembers rs now db1
           in (if changed then k_alias r # rest else rest, db2)
      else revokeMembers rs now db)"

definition rotateKey ::
  "(string \<Rightarrow> string) \<Rightarrow> string \<Rightarrow> RotateOptions \<Rightarrow> KeyDefaults \<Rightarrow> string \<Rightarrow> millis \<Rightarrow> millis \<Rightarrow> KeyDb
     \<Rightarrow> (KsError + KeyRow \<times> string list) \<times> KeyDb" where
  "rotateKey hash logicalAlias ro d rnd revokeAt mintAt db =
     (case notLogicalName logicalAlias db of
        Some l \<Rightarrow> (Inl (ErrNotLogicalName l), db)
      | None \<Rightarrow>
          let family = familyNewestFirst logicalAlias db;
              current = (case family of [] \<Rightarrow> None | r # _ \<Rightarrow> Some r)
          in case orElse (ro_tier ro) (map_option k_tier current) of
               None \<Rightarrow> (Inl ErrNothingToInherit, db)
             | Some tier \<Rightarrow>
                 let scope = (case orElse (ro_scope ro) (map_option rowScope current) of
                                None \<Rightarrow> defaultScopeForTier tier | Some s \<Rightarrow> s);
                     newAlias = nextFreeAlias logicalAlias (map k_alias (api_keys db));
                     (revoked, db1) = revokeMembers family revokeAt db
                 in case mintKeyAt hash (inheritedOptions ro current newAlias logicalAlias tier scope (ro_ttlSeconds ro))
                           d rnd mintAt db1 of
                      (Inl e, _) \<Rightarrow> (Inl e, db)
                    | (Inr row, db2) \<Rightarrow> (Inr (row, revoked), db2))"

section \<open>Staged rotation\<close>

definition lessNum :: "js_number \<Rightarrow> int \<Rightarrow> bool" where
  "lessNum x n = (case x of Fin q \<Rightarrow> q < of_int n | NegInfinity \<Rightarrow> True | _ \<Rightarrow> False)"

text \<open>The row of the plan, \<open>INSERT INTO key_rotation_plans\<close>.\<close>

definition stagedPlan ::
  "string \<Rightarrow> string \<Rightarrow> string \<Rightarrow> string list \<Rightarrow> millis \<Rightarrow> millis \<Rightarrow> int \<Rightarrow> KeyRotationPlanRow" where
  "stagedPlan planRnd logicalAlias newAlias previous now overlapDeadline useCount =
     \<lparr>kp_plan_id = ''rot_'' @ planRnd, kp_logical_alias = logicalAlias,
      kp_replacement_alias = newAlias, kp_previous_aliases = previous,
      kp_staged_at = now, kp_overlap_expires_at = overlapDeadline,
      kp_status = Staged, kp_baseline_use_count = useCount,
      kp_preflight_at = None, kp_preflight_use_count = None,
      kp_preflight_last_used_at = None, kp_completed_at = None\<rparr>"

text \<open>The second half of the transaction: the replacement is minted and its plan recorded.\<close>

definition stageReplacement ::
  "(string \<Rightarrow> string) \<Rightarrow> string \<Rightarrow> RotateOptions \<Rightarrow> KeyDefaults \<Rightarrow> seconds \<Rightarrow> string \<Rightarrow> string \<Rightarrow> millis
     \<Rightarrow> KeyRow list \<Rightarrow> KeyRow \<Rightarrow> KeyDb \<Rightarrow> (KsError + KeyRow \<times> KeyRotationPlanRow) \<times> KeyDb" where
  "stageReplacement hash logicalAlias ro d overlapSeconds rnd planRnd now active current db =
     (let tier = (case ro_tier ro of None \<Rightarrow> k_tier current | Some t \<Rightarrow> t);
          scope = (case ro_scope ro of None \<Rightarrow> rowScope current | Some s \<Rightarrow> s);
          ttl = (case ro_ttlSeconds ro of None \<Rightarrow> js_int (MAX_KEY_LIFETIME_SECONDS scope) | Some t \<Rightarrow> t)
      in if lessNum ttl overlapSeconds then (Inl ErrReplacementTooShort, db)
         else
           let newAlias = nextFreeAlias logicalAlias (map k_alias (api_keys db))
           in case mintKeyAt hash (inheritedOptions ro (Some current) newAlias logicalAlias tier scope (Some ttl)) d rnd now db of
                (Inl e, _) \<Rightarrow> (Inl e, db)
              | (Inr row, db1) \<Rightarrow>
                  let plan = stagedPlan planRnd logicalAlias newAlias (map k_alias active) now
                               (now + overlapSeconds * 1000) (k_use_count row)
                  in if list_ex (\<lambda>p. kp_plan_id p = kp_plan_id plan) (key_rotation_plans db1) then (Inl ErrSql, db)
                     else (Inr (row, plan), db1\<lparr>key_rotation_plans := key_rotation_plans db1 @ [plan]\<rparr>))"

definition stageKeyRotation ::
  "(string \<Rightarrow> string) \<Rightarrow> string \<Rightarrow> RotateOptions \<Rightarrow> KeyDefaults \<Rightarrow> js_number option \<Rightarrow> string \<Rightarrow> string \<Rightarrow> millis
     \<Rightarrow> KeyDb \<Rightarrow> (KsError + KeyRow \<times> KeyRotationPlanRow) \<times> KeyDb" where
  "stageKeyRotation hash logicalAlias ro d overlap rnd planRnd now db =
     (let overlapSeconds = (case overlap of None \<Rightarrow> 3600 | Some x \<Rightarrow> the_int x)
      in if badParam overlap \<or> overlapSeconds < 60 \<or> overlapSeconds > 24 * 60 * 60
         then (Inl (ErrInvalidParam ''overlapSeconds''), db)
         else
           case find (\<lambda>p. kp_logical_alias p = logicalAlias \<and> kp_status p = Staged) (key_rotation_plans db) of
             Some p \<Rightarrow> (Inl (ErrAlreadyStaged (kp_plan_id p)), db)
           | None \<Rightarrow>
           (case notLogicalName logicalAlias db of
             Some l \<Rightarrow> (Inl (ErrNotLogicalName l), db)
           | None \<Rightarrow>
               let active = filter (activeAt now) (familyNewestFirst logicalAlias db)
               in case active of
                    [] \<Rightarrow> (Inl ErrNoActiveKey, db)
                  | current # _ \<Rightarrow>
                      (case find (expiredAt (now + overlapSeconds * 1000)) active of
                         Some p \<Rightarrow> (Inl (ErrPredecessorExpires (k_alias p)), db)
                       | None \<Rightarrow>
                           stageReplacement hash logicalAlias ro d overlapSeconds rnd planRnd now active current db)))"

definition findPlan :: "string \<Rightarrow> KeyDb \<Rightarrow> KeyRotationPlanRow option" where
  "findPlan planId db = find (\<lambda>p. kp_plan_id p = planId) (key_rotation_plans db)"

definition findKey :: "string \<Rightarrow> KeyDb \<Rightarrow> KeyRow option" where
  "findKey alias db = find (\<lambda>r. k_alias r = alias) (api_keys db)"

text \<open>\<open>UPDATE key_rotation_plans SET \<dots> WHERE plan_id = ? AND status = 'staged'\<close>.\<close>

definition updatePlan :: "string \<Rightarrow> (KeyRotationPlanRow \<Rightarrow> KeyRotationPlanRow) \<Rightarrow> KeyDb \<Rightarrow> KeyDb" where
  "updatePlan planId f db =
     db\<lparr>key_rotation_plans :=
       map (\<lambda>p. if kp_plan_id p = planId \<and> kp_status p = Staged then f p else p) (key_rotation_plans db)\<rparr>"

definition preflightKeyRotation ::
  "string \<Rightarrow> millis \<Rightarrow> KeyDb \<Rightarrow> (KsError + KeyRotationPlanRow) \<times> KeyDb" where
  "preflightKeyRotation planId now db =
     (case findPlan planId db of
        None \<Rightarrow> (Inl ErrNotStaged, db)
      | Some plan \<Rightarrow>
          if kp_status plan \<noteq> Staged then (Inl ErrNotStaged, db)
          else if kp_overlap_expires_at plan \<le> now then (Inl ErrOverlapExpired, db)
          else case findKey (kp_replacement_alias plan) db of
                 None \<Rightarrow> (Inl ErrReplacementInactive, db)
               | Some r \<Rightarrow>
                   if \<not> activeAt now r then (Inl ErrReplacementInactive, db)
                   else case k_last_used_at r of
                          None \<Rightarrow> (Inl ErrNoPostStageUse, db)
                        | Some used \<Rightarrow>
                            if used < kp_staged_at plan \<or> k_use_count r \<le> kp_baseline_use_count plan
                            then (Inl ErrNoPostStageUse, db)
                            else let f = (\<lambda>p. p\<lparr>kp_preflight_at := Some now, kp_preflight_use_count := Some (k_use_count r),
                                                kp_preflight_last_used_at := k_last_used_at r\<rparr>)
                                 in (Inr (f plan), updatePlan planId f db))"

text \<open>The revocations of a commit; \<open>None\<close> when one of them changes nothing.\<close>

fun revokeAll :: "string list \<Rightarrow> millis \<Rightarrow> KeyDb \<Rightarrow> KeyDb option" where
  "revokeAll [] now db = Some db"
| "revokeAll (a # as) now db =
     (case revokeKey a now db of (changed, db1) \<Rightarrow> if changed then revokeAll as now db1 else None)"

definition preflightPassed :: "KeyRotationPlanRow \<Rightarrow> bool" where
  "preflightPassed plan =
     (case (kp_preflight_at plan, kp_preflight_use_count plan, kp_preflight_last_used_at plan) of
        (Some _, Some n, Some used) \<Rightarrow> \<not> n \<le> kp_baseline_use_count plan \<and> \<not> used < kp_staged_at plan
      | _ \<Rightarrow> False)"

definition commitKeyRotation ::
  "string \<Rightarrow> millis \<Rightarrow> KeyDb \<Rightarrow> (KsError + KeyRotationPlanRow) \<times> KeyDb" where
  "commitKeyRotation planId now db =
     (case findPlan planId db of
        None \<Rightarrow> (Inl ErrNotStaged, db)
      | Some plan \<Rightarrow>
          if kp_status plan \<noteq> Staged then (Inl ErrNotStaged, db)
          else if kp_overlap_expires_at plan \<le> now then (Inl ErrOverlapExpired, db)
          else if \<not> preflightPassed plan then (Inl ErrPreflightNotPassed, db)
          else case findKey (kp_replacement_alias plan) db of
                 None \<Rightarrow> (Inl ErrReplacementInactive, db)
               | Some r \<Rightarrow>
                   if \<not> activeAt now r \<or> k_use_count r < the (kp_preflight_use_count plan)
                   then (Inl ErrReplacementInactive, db)
                   else let previous = filter (\<lambda>r. k_alias r \<in> set (kp_previous_aliases plan)) (api_keys db)
                        in if length previous \<noteq> length (kp_previous_aliases plan)
                              \<or> list_ex (\<lambda>r. \<not> activeAt now r) previous
                           then (Inl ErrPriorSetChanged, db)
                           else case revokeAll (kp_previous_aliases plan) now db of
                                  None \<Rightarrow> (Inl ErrRevokeFailed, db)
                                | Some db1 \<Rightarrow>
                                    let f = (\<lambda>p. p\<lparr>kp_status := Committed, kp_completed_at := Some now\<rparr>)
                                    in (Inr (f plan), updatePlan planId f db1))"

definition abortKeyRotation ::
  "string \<Rightarrow> millis \<Rightarrow> KeyDb \<Rightarrow> (KsError + KeyRotationPlanRow) \<times> KeyDb" where
  "abortKeyRotation planId now db =
     (case findPlan planId db of
        None \<Rightarrow> (Inl ErrNotStaged, db)
      | Some plan \<Rightarrow>
          if kp_status plan \<noteq> Staged then (Inl ErrNotStaged, db)
          else if length (filter (\<lambda>r. k_alias r \<in> set (kp_previous_aliases plan) \<and> activeAt now r) (api_keys db))
                    \<noteq> length (kp_previous_aliases plan)
          then (Inl ErrPriorNotActive, db)
          else case revokeKey (kp_replacement_alias plan) now db of
                 (False, _) \<Rightarrow> (Inl ErrReplacementInactive, db)
               | (True, db1) \<Rightarrow>
                   let f = (\<lambda>p. p\<lparr>kp_status := AbortedPlan, kp_completed_at := Some now\<rparr>)
                   in (Inr (f plan), updatePlan planId f db1))"

definition listKeyRotations :: "KeyDb \<Rightarrow> KeyRotationPlanRow list" where
  "listKeyRotations db = sort_by (\<lambda>a b. kp_staged_at a - kp_staged_at b) (key_rotation_plans db)"

section \<open>Grants\<close>

text \<open>
  The three grant operations share a loop over the aliases: each key must be present, active and
  pass the operation's own test; a key that has the model already is left alone; an error rolls
  everything back.
\<close>

fun grantLoop ::
  "(KeyRow \<Rightarrow> bool) \<Rightarrow> (KeyRow \<Rightarrow> bool) \<Rightarrow> (KeyRow \<Rightarrow> KeyRow) \<Rightarrow> millis \<Rightarrow> string list \<Rightarrow> KeyDb
     \<Rightarrow> (string list \<times> string list \<times> KeyDb) option" where
  "grantLoop refuse has grant now [] db = Some ([], [], db)"
| "grantLoop refuse has grant now (a # as) db =
     (case findKey a db of
        None \<Rightarrow> None
      | Some row \<Rightarrow>
          if k_revoked_at row \<noteq> None \<or> expiredAt now row \<or> refuse row then None
          else if has row
          then map_option (\<lambda>(ch, un, d). (ch, a # un, d)) (grantLoop refuse has grant now as db)
          else map_option (\<lambda>(ch, un, d). (a # ch, un, d))
                 (grantLoop refuse has grant now as (updateKeys (\<lambda>r. k_alias r = a) grant db)))"

definition grantOp ::
  "KsError \<Rightarrow> bool \<Rightarrow> (KeyRow \<Rightarrow> bool) \<Rightarrow> (KeyRow \<Rightarrow> bool) \<Rightarrow> (KeyRow \<Rightarrow> KeyRow) \<Rightarrow> string list \<Rightarrow> millis \<Rightarrow> KeyDb
     \<Rightarrow> (KsError + string list \<times> string list) \<times> KeyDb" where
  "grantOp err okModel refuse has grant aliases now db =
     (if \<not> okModel \<or> aliases = [] \<or> \<not> distinct aliases \<or> [] \<in> set aliases then (Inl err, db)
      else case grantLoop refuse has grant now aliases db of
             None \<Rightarrow> (Inl err, db)
           | Some (changed, unchanged, db1) \<Rightarrow> (Inr (changed, unchanged), db1))"

definition grantSystemOneModelToKeys ::
  "string list \<Rightarrow> string \<Rightarrow> millis \<Rightarrow> KeyDb \<Rightarrow> (KsError + string list \<times> string list) \<times> KeyDb" where
  "grantSystemOneModelToKeys aliases model now db =
     grantOp ErrSystemOneGrant (isSystemOneDecisionModel model []) (\<lambda>_. False)
       (\<lambda>r. model \<in> set (k_system_one_model_allow_list r))
       (\<lambda>r. r\<lparr>k_system_one_model_allow_list := k_system_one_model_allow_list r @ [model]\<rparr>) aliases now db"

definition grantSystemOneModel :: "string \<Rightarrow> string \<Rightarrow> millis \<Rightarrow> KeyDb \<Rightarrow> (KsError + bool) \<times> KeyDb" where
  "grantSystemOneModel alias model now db =
     (case grantSystemOneModelToKeys [alias] model now db of
        (Inl e, db1) \<Rightarrow> (Inl e, db1)
      | (Inr (changed, _), db1) \<Rightarrow> (Inr (alias \<in> set changed), db1))"

definition customerKey :: "KeyRow \<Rightarrow> bool" where
  "customerKey r \<longleftrightarrow> k_tier r = GuestTier \<and> rowScope r = ScInference"

definition grantEmbeddingModelToCustomerKeys ::
  "string list \<Rightarrow> string \<Rightarrow> millis \<Rightarrow> KeyDb \<Rightarrow> (KsError + string list \<times> string list) \<times> KeyDb" where
  "grantEmbeddingModelToCustomerKeys aliases model now db =
     grantOp ErrEmbeddingGrant (isEmbeddingModel model) (\<lambda>r. \<not> customerKey r \<or> hasStagedPlan (familyOf r) db)
       (\<lambda>r. model \<in> set (k_embedding_model_allow_list r))
       (\<lambda>r. r\<lparr>k_embedding_model_allow_list := k_embedding_model_allow_list r @ [model]\<rparr>) aliases now db"

definition grantExistingChatModelToCustomerKeys ::
  "string list \<Rightarrow> string \<Rightarrow> millis \<Rightarrow> KeyDb \<Rightarrow> (KsError + string list \<times> string list) \<times> KeyDb" where
  "grantExistingChatModelToCustomerKeys aliases model now db =
     grantOp ErrChatGrant (model = ''qwen3-30b-instruct'') (\<lambda>r. \<not> customerKey r)
       (\<lambda>r. k_model_allow_list r = [] \<or> model \<in> set (k_model_allow_list r))
       (\<lambda>r. r\<lparr>k_model_allow_list := k_model_allow_list r @ [model]\<rparr>) aliases now db"

section \<open>In-place narrowing\<close>

fun NARROWER_SCOPES :: "KeyScope \<Rightarrow> KeyScope list" where
  "NARROWER_SCOPES ScAdmin = [ScAgent, ScAsk, ScInference, ScMonitor]"
| "NARROWER_SCOPES ScAgent = [ScAsk, ScInference]"
| "NARROWER_SCOPES ScAsk = []"
| "NARROWER_SCOPES ScInference = [ScAsk]"
| "NARROWER_SCOPES ScMonitor = []"

definition isScopeNarrowing :: "KeyScope \<Rightarrow> KeyScope \<Rightarrow> bool" where
  "isScopeNarrowing from to = (to \<in> set (NARROWER_SCOPES from))"

datatype KeyRestrictErrorCode =
    RConcurrentChange | RUnknownAlias | RRevoked | RExpired | RStagedRotation | RWideningScope | RTierIncompatible
  | RWideningExpiry | RLifetimeExceedsMax | RInvalidParam | RNoChange

record RestrictKeyResult =
  rr_alias :: string
  rr_dryRun :: bool
  rr_beforeScope :: KeyScope
  rr_beforeExpiresAt :: "millis option"
  rr_afterScope :: KeyScope
  rr_afterExpiresAt :: "millis option"

definition inStagedPlan :: "KeyRow \<Rightarrow> KeyDb \<Rightarrow> bool" where
  "inStagedPlan row db =
     list_ex (\<lambda>p. kp_status p \<notin> {Committed, AbortedPlan}
                \<and> (kp_logical_alias p = familyOf row \<or> kp_replacement_alias p = k_alias row
                   \<or> k_alias row \<in> set (kp_previous_aliases p))) (key_rotation_plans db)"

definition restrictScope :: "KeyScope option \<Rightarrow> KeyRow \<Rightarrow> KeyRestrictErrorCode + KeyScope" where
  "restrictScope scope row =
     (case scope of
        None \<Rightarrow> Inr (rowScope row)
      | Some s \<Rightarrow>
          if s = rowScope row then Inr (rowScope row)
          else if \<not> isScopeNarrowing (rowScope row) s then Inl RWideningScope
          else if s = ScAsk \<and> k_tier row \<noteq> OwnerTier then Inl RTierIncompatible
          else Inr s)"

definition restrictExpiry ::
  "js_number option \<Rightarrow> KeyScope \<Rightarrow> millis \<Rightarrow> KeyRow \<Rightarrow> KeyRestrictErrorCode + millis option" where
  "restrictExpiry expiresIn newScope now row =
     (case expiresIn of
        None \<Rightarrow> Inr (k_expires_at row)
      | Some x \<Rightarrow>
          if the_int x > MAX_KEY_LIFETIME_SECONDS newScope then Inl RLifetimeExceedsMax
          else let candidate = now + the_int x * 1000
               in if (case k_expires_at row of None \<Rightarrow> False | Some e \<Rightarrow> candidate > e) then Inl RWideningExpiry
                  else Inr (Some candidate))"

definition restrictKey ::
  "string \<Rightarrow> KeyScope option \<Rightarrow> js_number option \<Rightarrow> bool \<Rightarrow> millis \<Rightarrow> KeyDb
     \<Rightarrow> (KeyRestrictErrorCode + RestrictKeyResult) \<times> KeyDb" where
  "restrictKey alias scope expiresIn dryRun now db =
     (if scope = None \<and> expiresIn = None
         \<or> (case expiresIn of None \<Rightarrow> False | Some x \<Rightarrow> \<not> isSafeInteger x \<or> the_int x \<le> 0)
      then (Inl RInvalidParam, db)
      else case findKey alias db of
        None \<Rightarrow> (Inl RUnknownAlias, db)
      | Some row \<Rightarrow>
          if k_revoked_at row \<noteq> None then (Inl RRevoked, db)
          else if expiredAt now row then (Inl RExpired, db)
          else if inStagedPlan row db then (Inl RStagedRotation, db)
          else case restrictScope scope row of
            Inl e \<Rightarrow> (Inl e, db)
          | Inr newScope \<Rightarrow>
              (case restrictExpiry expiresIn newScope now row of
                 Inl e \<Rightarrow> (Inl e, db)
               | Inr newExpiry \<Rightarrow>
                   if newScope = rowScope row \<and> newExpiry = k_expires_at row then (Inl RNoChange, db)
                   else
                     let result = \<lparr>rr_alias = alias, rr_dryRun = dryRun, rr_beforeScope = rowScope row,
                                   rr_beforeExpiresAt = k_expires_at row, rr_afterScope = newScope,
                                   rr_afterExpiresAt = newExpiry\<rparr>;
                         P = (\<lambda>r. k_alias r = alias \<and> k_revoked_at r = None \<and> k_scope r = k_scope row
                                  \<and> k_expires_at r = k_expires_at row)
                     in if dryRun then (Inr result, db)
                        else if length (filter P (api_keys db)) \<noteq> 1 then (Inl RConcurrentChange, db)
                        else (Inr result,
                              updateKeys P (\<lambda>r. r\<lparr>k_scope := Some (scopeName newScope), k_expires_at := newExpiry\<rparr>) db)))"

section \<open>Invites\<close>

definition createInvite ::
  "(string \<Rightarrow> string) \<Rightarrow> string \<Rightarrow> Tier \<Rightarrow> js_number \<Rightarrow> string list option \<Rightarrow> string option \<Rightarrow> string \<Rightarrow> millis \<Rightarrow> KeyDb
     \<Rightarrow> (KsError + string) \<times> KeyDb" where
  "createInvite hash label tier creditLimit modelAllowList aliasPrefix rnd now db =
     (if badParam (Some creditLimit) then (Inl (ErrInvalidParam ''creditLimit''), db)
      else
        let code = ''inv_'' @ rnd;
            row = \<lparr>iv_label = label, iv_code_hash = hash code, iv_tier = tier, iv_credit_limit = the_int creditLimit,
                   iv_model_allow_list = orList modelAllowList,
                   iv_alias_prefix = (case aliasPrefix of None \<Rightarrow> ''friend'' | Some x \<Rightarrow> x),
                   iv_created_at = now, iv_redeemed_at = None, iv_redeemed_key_alias = None\<rparr>
        in if list_ex (\<lambda>i. iv_label i = label \<or> iv_code_hash i = iv_code_hash row) (invites db)
           then (Inl (ErrAliasExists label), db)
           else (Inr code, db\<lparr>invites := invites db @ [row]\<rparr>))"

fun scanInvites :: "string \<Rightarrow> InviteRow option \<Rightarrow> InviteRow list \<Rightarrow> InviteRow option" where
  "scanInvites h match [] = match"
| "scanInvites h match (i # is) = scanInvites h (if iv_code_hash i = h then Some i else match) is"

text \<open>\<open>redeemInvite\<close>; the lookup is a statement of its own, before the transaction, at \<open>seen\<close>; the
  mint and the mark read the clock each.\<close>

definition findInvite :: "(string \<Rightarrow> string) \<Rightarrow> string \<Rightarrow> KeyDb \<Rightarrow> InviteRow option" where
  "findInvite hash code seen =
     scanInvites (hash code) None (filter (\<lambda>i. iv_redeemed_at i = None) (invites seen))"

definition inviteOptions :: "InviteRow \<Rightarrow> string \<Rightarrow> MintOptions" where
  "inviteOptions invt alias =
     \<lparr>mo_alias = alias, mo_tier = iv_tier invt, mo_scope = None, mo_modelAllowList = Some (iv_model_allow_list invt),
      mo_systemOneModelAllowList = None, mo_embeddingModelAllowList = None, mo_rpm = None, mo_tpm = None,
      mo_dailyTokenBudget = None, mo_maxParallel = None, mo_creditLimit = Some (js_int (iv_credit_limit invt)),
      mo_ttlSeconds = None, mo_logicalAlias = None\<rparr>"

definition redeemInvite ::
  "(string \<Rightarrow> string) \<Rightarrow> string \<Rightarrow> KeyDefaults \<Rightarrow> string \<Rightarrow> string \<Rightarrow> millis \<Rightarrow> millis \<Rightarrow> KeyDb \<Rightarrow> KeyDb \<Rightarrow> (KsError + KeyRow) \<times> KeyDb" where
  "redeemInvite hash code d shortRand rnd now markAt seen db =
     (case findInvite hash code seen of
        None \<Rightarrow> (Inl ErrInviteInvalid, db)
      | Some invt \<Rightarrow>
          let alias = (if iv_alias_prefix invt = [] then ''friend'' else iv_alias_prefix invt) @ ''-'' @ shortRand
          in case mintKeyAt hash (inviteOptions invt alias) d rnd now db of
               (Inl e, _) \<Rightarrow> (Inl e, db)
             | (Inr row, db1) \<Rightarrow>
                 let P = (\<lambda>i. iv_label i = iv_label invt \<and> iv_redeemed_at i = None)
                 in if \<not> list_ex P (invites db1) then (Inl ErrInviteInvalid, db)
                    else (Inr row,
                          db1\<lparr>invites := map (\<lambda>i. if P i
                             then i\<lparr>iv_redeemed_at := Some markAt, iv_redeemed_key_alias := Some alias\<rparr> else i) (invites db1)\<rparr>))"

record InvitePublic =
  ip_label :: string
  ip_tier :: Tier
  ip_creditLimit :: int
  ip_modelAllowList :: "string list"
  ip_aliasPrefix :: string
  ip_createdAt :: millis
  ip_redeemedAt :: "millis option"
  ip_redeemedKeyAlias :: "string option"

definition listInvites :: "KeyDb \<Rightarrow> InvitePublic list" where
  "listInvites db =
     map (\<lambda>r. \<lparr>ip_label = iv_label r, ip_tier = iv_tier r, ip_creditLimit = iv_credit_limit r,
                ip_modelAllowList = iv_model_allow_list r, ip_aliasPrefix = iv_alias_prefix r,
                ip_createdAt = iv_created_at r, ip_redeemedAt = iv_redeemed_at r,
                ip_redeemedKeyAlias = iv_redeemed_key_alias r\<rparr>)
       (sort_by (\<lambda>a b. iv_created_at a - iv_created_at b) (invites db))"

end
