(* ===== verification/Keystore_Life.thy ===== *)
theory Keystore_Life
  imports Keystore Credits
begin

text \<open>
  What the operations of the keystore may do to the tables, over every sequence of them: the
  uniqueness constraints and the rule of one staged plan per family are invariants, a row only ever
  loses authority, and the lookup refines an abstract map from digests to credentials.
\<close>

section \<open>Losing authority\<close>

definition scopeLe :: "KeyScope \<Rightarrow> KeyScope \<Rightarrow> bool" where
  "scopeLe to from \<longleftrightarrow> to = from \<or> isScopeNarrowing from to"

lemma scopeLe_refl [simp]: "scopeLe s s"
  by (simp add: scopeLe_def)

lemma scopeLe_trans: "scopeLe a b \<Longrightarrow> scopeLe b c \<Longrightarrow> scopeLe a c"
  by (cases a; cases b; cases c) (auto simp: scopeLe_def isScopeNarrowing_def)

lemma scopeLe_antisym: "scopeLe a b \<Longrightarrow> scopeLe b a \<Longrightarrow> a = b"
  by (cases a; cases b) (auto simp: scopeLe_def isScopeNarrowing_def)

definition expiryLe :: "millis option \<Rightarrow> millis option \<Rightarrow> bool" where
  "expiryLe new old =
     (case old of None \<Rightarrow> True | Some e \<Rightarrow> (case new of None \<Rightarrow> False | Some e' \<Rightarrow> e' \<le> e))"

lemma expiryLe_refl [simp]: "expiryLe e e"
  by (simp add: expiryLe_def split: option.split)

lemma expiryLe_trans: "expiryLe a b \<Longrightarrow> expiryLe b c \<Longrightarrow> expiryLe a c"
  by (auto simp: expiryLe_def split: option.splits)

text \<open>The later state of a row has the same identity and at most the authority of the earlier one.\<close>

definition rowLe :: "KeyRow \<Rightarrow> KeyRow \<Rightarrow> bool" where
  "rowLe old new \<longleftrightarrow>
     k_alias new = k_alias old \<and> k_key_hash new = k_key_hash old \<and> k_tier new = k_tier old
     \<and> k_created_at new = k_created_at old \<and> k_logical_alias new = k_logical_alias old
     \<and> (k_revoked_at old \<noteq> None \<longrightarrow> k_revoked_at new = k_revoked_at old)
     \<and> expiryLe (k_expires_at new) (k_expires_at old) \<and> scopeLe (rowScope new) (rowScope old)"

lemma rowLe_refl [simp]: "rowLe r r"
  by (simp add: rowLe_def)

lemma rowLe_trans: "rowLe a b \<Longrightarrow> rowLe b c \<Longrightarrow> rowLe a c"
  by (auto simp: rowLe_def intro: expiryLe_trans scopeLe_trans)

text \<open>Rows of a table stay where they are, each related to its earlier state; new rows come at the end.\<close>

definition growsBy :: "('a \<Rightarrow> 'a \<Rightarrow> bool) \<Rightarrow> 'a list \<Rightarrow> 'a list \<Rightarrow> bool" where
  "growsBy R old new = list_all2 R old (take (length old) new)"

lemma growsBy_nth:
  "growsBy R old new \<longleftrightarrow> length old \<le> length new \<and> (\<forall>i < length old. R (old ! i) (new ! i))"
  by (auto simp: growsBy_def list_all2_conv_all_nth)

lemma growsBy_append: "(\<And>r. R r r) \<Longrightarrow> growsBy R rs (rs @ new)"
  by (simp add: growsBy_nth nth_append)

lemma growsBy_trans:
  "(\<And>a b c. R a b \<Longrightarrow> R b c \<Longrightarrow> R a c) \<Longrightarrow> growsBy R a b \<Longrightarrow> growsBy R b c \<Longrightarrow> growsBy R a c"
  unfolding growsBy_nth by (meson order_less_le_trans order_trans)

lemma growsBy_map:
  "(\<And>r. R r r) \<Longrightarrow> (\<And>r. r \<in> set rs \<Longrightarrow> P r \<Longrightarrow> R r (f r)) \<Longrightarrow> growsBy R rs (map (\<lambda>r. if P r then f r else r) rs)"
  by (simp add: growsBy_nth)

lemma growsBy_member: "growsBy R old new \<Longrightarrow> r \<in> set old \<Longrightarrow> \<exists>r' \<in> set new. R r r'"
  by (metis in_set_conv_nth order_less_le_trans growsBy_nth)

abbreviation rowsLe :: "KeyRow list \<Rightarrow> KeyRow list \<Rightarrow> bool" where
  "rowsLe \<equiv> growsBy rowLe"

lemma rowsLe_append [simp]: "rowsLe rs (rs @ new)"
  by (rule growsBy_append) simp

lemma rowsLe_refl [simp]: "rowsLe rs rs"
  using rowsLe_append [of rs "[]"] by simp

lemma rowsLe_trans: "rowsLe a b \<Longrightarrow> rowsLe b c \<Longrightarrow> rowsLe a c"
  by (rule growsBy_trans) (rule rowLe_trans)

lemma rowsLe_map:
  "(\<And>r. r \<in> set rs \<Longrightarrow> P r \<Longrightarrow> rowLe r (f r)) \<Longrightarrow> rowsLe rs (map (\<lambda>r. if P r then f r else r) rs)"
  by (rule growsBy_map) simp_all

lemma rowsLe_updateKeys:
  assumes "\<And>r. r \<in> set (api_keys db) \<Longrightarrow> P r \<Longrightarrow> rowLe r (f r)"
  shows "rowsLe (api_keys db) (api_keys (updateKeys P f db))"
  using rowsLe_map [of "api_keys db" P f] assms by (simp add: updateKeys_def)

section \<open>Invariants of the tables\<close>

definition stagedOnce :: "KeyRotationPlanRow list \<Rightarrow> bool" where
  "stagedOnce plans = distinct (map kp_logical_alias (filter (\<lambda>p. kp_status p = Staged) plans))"

definition planWf :: "KeyRotationPlanRow \<Rightarrow> bool" where
  "planWf p \<longleftrightarrow> kp_previous_aliases p \<noteq> [] \<and> kp_replacement_alias p \<notin> set (kp_previous_aliases p)"

definition ksWf :: "KeyDb \<Rightarrow> bool" where
  "ksWf db \<longleftrightarrow> uniqueHashes db \<and> uniqueAliases db \<and> list_all planWf (key_rotation_plans db)
     \<and> distinct (map kp_plan_id (key_rotation_plans db)) \<and> stagedOnce (key_rotation_plans db)
     \<and> distinct (map iv_label (invites db)) \<and> distinct (map iv_code_hash (invites db))"

text \<open>A step that rewrites rows in place, and touches no other table.\<close>

definition inPlace :: "KeyDb \<Rightarrow> KeyDb \<Rightarrow> bool" where
  "inPlace db db' \<longleftrightarrow> rowsLe (api_keys db) (api_keys db') \<and> length (api_keys db') = length (api_keys db)
     \<and> key_rotation_plans db' = key_rotation_plans db \<and> invites db' = invites db"

lemma inPlace_refl [simp]: "inPlace db db"
  by (simp add: inPlace_def)

lemma inPlace_trans: "inPlace a b \<Longrightarrow> inPlace b c \<Longrightarrow> inPlace a c"
  by (auto simp: inPlace_def intro: rowsLe_trans)

lemma inPlace_identity:
  assumes "inPlace db db'"
  shows "map k_alias (api_keys db') = map k_alias (api_keys db)"
    and "map k_key_hash (api_keys db') = map k_key_hash (api_keys db)"
  using assms by (auto simp: inPlace_def growsBy_nth rowLe_def intro!: nth_equalityI)

lemma inPlace_wf: "inPlace db db' \<Longrightarrow> ksWf db \<Longrightarrow> ksWf db'"
  using inPlace_identity [of db db']
  by (auto simp: ksWf_def uniqueHashes_def uniqueAliases_def inPlace_def)

lemma inPlace_updateKeys:
  assumes "\<And>r. r \<in> set (api_keys db) \<Longrightarrow> P r \<Longrightarrow> rowLe r (f r)"
  shows "inPlace db (updateKeys P f db)"
  using rowsLe_updateKeys [of db P f] assms by (simp add: inPlace_def updateKeys_def)

lemma rowLe_revoke [simp]: "k_revoked_at r = None \<Longrightarrow> rowLe r (r\<lparr>k_revoked_at := Some now\<rparr>)"
  by (simp add: rowLe_def rowScope_def)

lemma inPlace_revokeKey: "inPlace db (snd (revokeKey a now db))"
  by (auto simp: revokeKey_def Let_def intro: inPlace_updateKeys)

lemma inPlace_revokeMembers: "inPlace db (snd (revokeMembers rs now db))"
proof (induction rs arbitrary: db)
  case (Cons r rs)
  have "inPlace db (snd (revokeKey (k_alias r) now db))" by (rule inPlace_revokeKey)
  then show ?case using Cons by (auto simp: case_prod_unfold Let_def intro: inPlace_trans)
qed simp

lemma inPlace_revokeAll: "revokeAll as now db = Some db' \<Longrightarrow> inPlace db db'"
proof (induction "as" arbitrary: db)
  case (Cons a as)
  then show ?case using inPlace_revokeKey [of db a now]
    by (auto simp: case_prod_unfold split: if_splits intro: inPlace_trans)
qed simp

lemma inPlace_revokeKeysByScope: "inPlace db (snd (revokeKeysByScope s dry now db))"
proof -
  have "inPlace d (fold (\<lambda>r d. snd (revokeKey (k_alias r) now d)) rs d)" for rs :: "KeyRow list" and d
    by (induction rs arbitrary: d) (auto intro: inPlace_trans inPlace_revokeKey)
  then show ?thesis by (simp add: revokeKeysByScope_def Let_def)
qed

lemma inPlace_recordKeyUse: "inPlace db (snd (recordKeyUse a now db))"
  by (auto simp: recordKeyUse_def Let_def rowLe_def rowScope_def intro: inPlace_updateKeys)

lemma inPlace_grantLoop:
  assumes "\<And>r. rowLe r (grant r)"
  shows "grantLoop refuse has grant now as db = Some (ch, un, db') \<Longrightarrow> inPlace db db'"
proof (induction "as" arbitrary: db ch un)
  case (Cons a as)
  have "inPlace db (updateKeys (\<lambda>r. k_alias r = a) grant db)" by (rule inPlace_updateKeys) (rule assms)
  with Cons show ?case by (auto split: option.splits if_splits intro: inPlace_trans)
qed simp

lemma inPlace_grantOp:
  "(\<And>r. rowLe r (grant r)) \<Longrightarrow> inPlace db (snd (grantOp err ok refuse has grant as now db))"
  by (auto simp: grantOp_def intro: inPlace_grantLoop split: option.split)

lemma inPlace_grants:
  "inPlace db (snd (grantSystemOneModelToKeys as m now db))"
  "inPlace db (snd (grantEmbeddingModelToCustomerKeys as m now db))"
  "inPlace db (snd (grantExistingChatModelToCustomerKeys as m now db))"
  by (simp_all add: grantSystemOneModelToKeys_def grantEmbeddingModelToCustomerKeys_def
      grantExistingChatModelToCustomerKeys_def inPlace_grantOp rowLe_def rowScope_def)

lemma inPlace_credits:
  "inPlace db (snd (reserveCredits h n db))" "inPlace db (reconcileCredits h n m db)" "inPlace db (recordCreditUsage h n db)"
proof -
  have "inPlace db (updateUsed P f db)" for P f
    using rowsLe_map [of "api_keys db" P "\<lambda>r. r\<lparr>k_credits_used := f (k_credits_used r)\<rparr>"]
    by (simp add: inPlace_def updateUsed_def rowLe_def rowScope_def)
  then show "inPlace db (snd (reserveCredits h n db))" "inPlace db (reconcileCredits h n m db)" "inPlace db (recordCreditUsage h n db)"
    by (simp_all add: reserveCredits_def reconcileCredits_def recordCreditUsage_def Let_def)
qed

lemma inPlace_topUp: "inPlace db (snd (topUpCredits a n i oper now db))"
proof (rule topUp_cases [of a n i oper now db])
  fix row t
  assume "topUpCredits a n i oper now db = (Inr t, db\<lparr>api_keys := map (\<lambda>r. if k_alias r = a
        then r\<lparr>k_credit_limit := tu_creditLimit t\<rparr> else r) (api_keys db), credit_topups := credit_topups db @ [t]\<rparr>)"
  then show ?thesis
    using rowsLe_map [of "api_keys db" "\<lambda>r. k_alias r = a" "\<lambda>r. r\<lparr>k_credit_limit := tu_creditLimit t\<rparr>"]
    by (simp add: inPlace_def rowLe_def rowScope_def)
qed simp_all

section \<open>Minting and rotating\<close>

lemma mint_cases:
  obtains (err) e where "mintKeyAt hash opts d rnd now db = (Inl e, db)"
  | (ok) "mintKeyAt hash opts d rnd now db =
        (Inr (mintRow hash opts d rnd now), db\<lparr>api_keys := api_keys db @ [mintRow hash opts d rnd now]\<rparr>)"
      "mo_alias opts \<notin> k_alias ` set (api_keys db)" "hash (plaintextOf (mo_tier opts) rnd) \<notin> k_key_hash ` set (api_keys db)"
      "mintTtl opts \<le> MAX_KEY_LIFETIME_SECONDS (mintScope opts)" "firstBadParam opts = None"
      "mo_tier opts = GuestTier \<Longrightarrow> mintScope opts = ScInference \<or> mintScope opts = ScMonitor"
proof (cases "badGrants (\<lambda>m. isSystemOneDecisionModel m []) (mo_systemOneModelAllowList opts)
    \<or> badGrants isEmbeddingModel (mo_embeddingModelAllowList opts) \<or> firstBadParam opts \<noteq> None
    \<or> (mo_tier opts = GuestTier \<and> mintScope opts \<noteq> ScInference \<and> mintScope opts \<noteq> ScMonitor)
    \<or> mintTtl opts > MAX_KEY_LIFETIME_SECONDS (mintScope opts)
    \<or> list_ex (\<lambda>r. k_alias r = mo_alias opts \<or> k_key_hash r = hash (plaintextOf (mo_tier opts) rnd)) (api_keys db)")
  case True
  then have "\<exists>e. mintKeyAt hash opts d rnd now db = (Inl e, db)"
    by (cases "firstBadParam opts") (auto simp: mintKeyAt_def mintRow_def Let_def)
  then show ?thesis using err by blast
next
  case False
  then have fresh: "mo_alias opts \<notin> k_alias ` set (api_keys db)"
      "hash (plaintextOf (mo_tier opts) rnd) \<notin> k_key_hash ` set (api_keys db)"
    by (auto simp: list_ex_iff)
  show ?thesis
    by (rule ok [OF _ fresh]) (use False in \<open>auto simp: mintKeyAt_def mintRow_def Let_def not_less\<close>)
qed

text \<open>A step that adds at most one row with a fresh alias and a fresh digest.\<close>

definition addsRow :: "KeyDb \<Rightarrow> KeyDb \<Rightarrow> bool" where
  "addsRow db db' \<longleftrightarrow> key_rotation_plans db' = key_rotation_plans db \<and> invites db' = invites db
     \<and> (db' = db \<or> (\<exists>row. api_keys db' = api_keys db @ [row]
          \<and> k_alias row \<notin> k_alias ` set (api_keys db) \<and> k_key_hash row \<notin> k_key_hash ` set (api_keys db)))"

lemma addsRow_mint: "addsRow db (snd (mintKeyAt hash opts d rnd now db))"
  by (rule mint_cases [of hash opts d rnd now db])
    (auto simp: addsRow_def mintRow_def)

lemma addsRow_wf: "addsRow db db' \<Longrightarrow> ksWf db \<Longrightarrow> ksWf db'"
  by (auto simp: addsRow_def ksWf_def uniqueHashes_def uniqueAliases_def)

lemma addsRow_rowsLe: "addsRow db db' \<Longrightarrow> rowsLe (api_keys db) (api_keys db')"
  by (auto simp: addsRow_def)

lemma rotate_cases:
  obtains (err) e where "rotateKey hash a ro d rnd t1 t2 db = (Inl e, db)"
  | (ok) opts row revoked db1 where "rotateKey hash a ro d rnd t1 t2 db = (Inr (row, revoked), snd (mintKeyAt hash opts d rnd t2 db1))"
      "revokeMembers (familyNewestFirst a db) t1 db = (revoked, db1)" "fst (mintKeyAt hash opts d rnd t2 db1) = Inr row"
      "mo_logicalAlias opts = Some a" "mo_alias opts = nextFreeAlias a (map k_alias (api_keys db))"
      "notLogicalName a db = None"
proof (cases "notLogicalName a db")
  case (Some l)
  then show ?thesis by (intro err) (simp add: rotateKey_def)
next
  case None
  let ?current = "case familyNewestFirst a db of [] \<Rightarrow> None | r # _ \<Rightarrow> Some r"
  show ?thesis
  proof (cases "orElse (ro_tier ro) (map_option k_tier ?current)")
    case no: None
    with None show ?thesis by (intro err) (simp add: rotateKey_def Let_def)
  next
    case (Some tier)
    obtain revoked db1 where rev: "revokeMembers (familyNewestFirst a db) t1 db = (revoked, db1)" by fastforce
    let ?opts = "inheritedOptions ro ?current (nextFreeAlias a (map k_alias (api_keys db))) a tier
        (case orElse (ro_scope ro) (map_option rowScope ?current) of None \<Rightarrow> defaultScopeForTier tier | Some s \<Rightarrow> s) (ro_ttlSeconds ro)"
    obtain res db2 where mint: "mintKeyAt hash ?opts d rnd t2 db1 = (res, db2)" by fastforce
    show ?thesis
    proof (cases res)
      case (Inl e)
      with None Some rev mint show ?thesis by (intro err [of e]) (simp add: rotateKey_def Let_def)
    next
      case (Inr row)
      with None Some rev mint show ?thesis
        by (intro ok [of row revoked ?opts db1]) (simp_all add: rotateKey_def Let_def inheritedOptions_def)
    qed
  qed
qed

lemma rotate_steps:
  "(\<exists>db1. inPlace db db1 \<and> addsRow db1 (snd (rotateKey hash a ro d rnd t1 t2 db)))"
proof (rule rotate_cases [of hash a ro d rnd t1 t2 db])
  fix opts row revoked db1
  assume "rotateKey hash a ro d rnd t1 t2 db = (Inr (row, revoked), snd (mintKeyAt hash opts d rnd t2 db1))"
    and "revokeMembers (familyNewestFirst a db) t1 db = (revoked, db1)"
  then show ?thesis using inPlace_revokeMembers [of db "familyNewestFirst a db" t1] addsRow_mint [of db1 hash opts d rnd t2]
    by (intro exI [of _ db1]) simp
qed (auto simp: addsRow_def intro: exI [of _ db])

lemma set_familyNewestFirst: "set (familyNewestFirst a db) = {r \<in> set (api_keys db). inFamily a r}"
proof -
  have "set (familyNewestFirst a db) = snd ` set (filter (\<lambda>(i, r). inFamily a r)
      (zip (map int [0..<length (api_keys db)]) (api_keys db)))"
    by (simp add: familyNewestFirst_def)
  also have "\<dots> = {r \<in> set (api_keys db). inFamily a r}"
    by (force simp: set_zip in_set_conv_nth)
  finally show ?thesis .
qed

lemma freeSuffix_spec:
  "\<exists>m \<ge> n. freeSuffix a names n = rotatedName a m \<and> rotatedName a m \<notin> set names
     \<and> (\<forall>k. n \<le> k \<and> k < m \<longrightarrow> rotatedName a k \<in> set names)"
proof (induction a names n rule: freeSuffix.induct)
  case (1 a names n)
  show ?case
  proof (cases "rotatedName a n \<in> set names")
    case True
    with 1 obtain m where "Suc n \<le> m" "freeSuffix a names (Suc n) = rotatedName a m" "rotatedName a m \<notin> set names"
      "\<forall>k. Suc n \<le> k \<and> k < m \<longrightarrow> rotatedName a k \<in> set names" by blast
    with True show ?thesis
      by (intro exI [of _ m]) (metis Suc_leD Suc_leI freeSuffix.simps le_neq_implies_less)
  qed (auto simp: freeSuffix.simps [of a names n])
qed

lemma nextFreeAlias_fresh_lemma: "nextFreeAlias a names \<notin> set names"
  using freeSuffix_spec [of 2 a names] by (auto simp: nextFreeAlias_def)

section \<open>Plans and invites\<close>

definition planLe :: "KeyRotationPlanRow \<Rightarrow> KeyRotationPlanRow \<Rightarrow> bool" where
  "planLe old new \<longleftrightarrow> kp_plan_id new = kp_plan_id old \<and> kp_logical_alias new = kp_logical_alias old
     \<and> kp_replacement_alias new = kp_replacement_alias old \<and> kp_previous_aliases new = kp_previous_aliases old
     \<and> kp_staged_at new = kp_staged_at old \<and> (kp_status old \<noteq> Staged \<longrightarrow> kp_status new = kp_status old)"

text \<open>A step that rewrites the plan of one id, only ever out of the staged status.\<close>

lemma updatePlan_wf:
  assumes "ksWf db" and f: "\<And>p. kp_status p = Staged \<Longrightarrow> planLe p (f p)"
  shows "ksWf (updatePlan planId f db)"
proof -
  let ?g = "\<lambda>p. if kp_plan_id p = planId \<and> kp_status p = Staged then f p else p"
  have ids: "map kp_plan_id (key_rotation_plans (updatePlan planId f db)) = map kp_plan_id (key_rotation_plans db)"
    using f by (auto simp: planLe_def updatePlan_def)
  have "set (map kp_logical_alias (filter (\<lambda>p. kp_status p = Staged) (map ?g ps)))
      \<subseteq> set (map kp_logical_alias (filter (\<lambda>p. kp_status p = Staged) ps))" for ps
    using f by (auto simp: planLe_def)
  then have "stagedOnce ps \<Longrightarrow> stagedOnce (map ?g ps)" for ps
    using f by (induction ps) (auto simp: stagedOnce_def planLe_def)
  moreover have "list_all planWf ps \<Longrightarrow> list_all planWf (map ?g ps)" for ps
    using f by (induction ps) (auto simp: planLe_def planWf_def)
  ultimately show ?thesis
    using assms(1) unfolding ksWf_def ids by (simp add: updatePlan_def uniqueHashes_def uniqueAliases_def)
qed

definition stagesPlan :: "KeyDb \<Rightarrow> KeyDb \<Rightarrow> bool" where
  "stagesPlan db db' \<longleftrightarrow> api_keys db' = api_keys db \<and> invites db' = invites db
     \<and> (\<exists>plan. key_rotation_plans db' = key_rotation_plans db @ [plan] \<and> planWf plan \<and> \<not> hasStagedPlan (kp_logical_alias plan) db
          \<and> kp_plan_id plan \<notin> kp_plan_id ` set (key_rotation_plans db))"

lemma stagesPlan_wf: "stagesPlan db db' \<Longrightarrow> ksWf db \<Longrightarrow> ksWf db'"
  by (auto simp: stagesPlan_def ksWf_def uniqueHashes_def uniqueAliases_def stagedOnce_def hasStagedPlan_def list_ex_iff)

lemma stageReplacement_cases:
  obtains (err) e where "stageReplacement hash a ro d secs rnd prnd now active current db = (Inl e, db)"
  | (ok) opts row plan db1 where
      "stageReplacement hash a ro d secs rnd prnd now active current db =
        (Inr (row, plan), db1\<lparr>key_rotation_plans := key_rotation_plans db1 @ [plan]\<rparr>)"
      "mintKeyAt hash opts d rnd now db = (Inr row, db1)"
      "mo_alias opts = nextFreeAlias a (map k_alias (api_keys db))" "mo_logicalAlias opts = Some a"
      "plan = stagedPlan prnd a (mo_alias opts) (map k_alias active) now (now + secs * 1000) (k_use_count row)"
      "kp_plan_id plan \<notin> kp_plan_id ` set (key_rotation_plans db1)"
proof -
  let ?scope = "case ro_scope ro of None \<Rightarrow> rowScope current | Some s \<Rightarrow> s"
  let ?ttl = "case ro_ttlSeconds ro of None \<Rightarrow> js_int (MAX_KEY_LIFETIME_SECONDS ?scope) | Some t \<Rightarrow> t"
  let ?opts = "inheritedOptions ro (Some current) (nextFreeAlias a (map k_alias (api_keys db))) a
      (case ro_tier ro of None \<Rightarrow> k_tier current | Some t \<Rightarrow> t) ?scope (Some ?ttl)"
  obtain res db1 where mint: "mintKeyAt hash ?opts d rnd now db = (res, db1)" by fastforce
  have opts: "mo_alias ?opts = nextFreeAlias a (map k_alias (api_keys db))" "mo_logicalAlias ?opts = Some a"
    by (simp_all add: inheritedOptions_def)
  show ?thesis
  proof (cases "lessNum ?ttl secs")
    case True
    then show ?thesis by (intro err) (simp add: stageReplacement_def Let_def)
  next
    case long: False
    show ?thesis
    proof (cases res)
      case (Inl e)
      with long mint show ?thesis by (intro err [of e]) (simp add: stageReplacement_def Let_def)
    next
      case (Inr row)
      let ?plan = "stagedPlan prnd a (mo_alias ?opts) (map k_alias active) now (now + secs * 1000) (k_use_count row)"
      show ?thesis
      proof (cases "list_ex (\<lambda>p. kp_plan_id p = kp_plan_id ?plan) (key_rotation_plans db1)")
        case True
        with long mint Inr opts(1) show ?thesis by (intro err [of ErrSql]) (simp add: stageReplacement_def Let_def)
      next
        case False
        then have "kp_plan_id ?plan \<notin> kp_plan_id ` set (key_rotation_plans db1)" by (auto simp: list_ex_iff)
        with False long mint Inr opts show ?thesis
          by (intro ok [of row ?plan db1 ?opts]) (simp_all add: stageReplacement_def Let_def)
      qed
    qed
  qed
qed

lemma stage_cases:
  obtains (err) e where "stageKeyRotation hash a ro d ov rnd prnd now db = (Inl e, db)"
  | (ok) secs active current where
      "stageKeyRotation hash a ro d ov rnd prnd now db = stageReplacement hash a ro d secs rnd prnd now active current db"
      "60 \<le> secs" "\<not> hasStagedPlan a db" "notLogicalName a db = None"
      "active = filter (activeAt now) (familyNewestFirst a db)" "current \<in> set active"
      "\<forall>r \<in> set active. \<not> expiredAt (now + secs * 1000) r"
proof -
  let ?secs = "case ov of None \<Rightarrow> 3600 | Some x \<Rightarrow> the_int x"
  let ?active = "filter (activeAt now) (familyNewestFirst a db)"
  consider (bad) "badParam ov \<or> ?secs < 60 \<or> ?secs > 24 * 60 * 60"
    | (dup) p where "\<not> (badParam ov \<or> ?secs < 60 \<or> ?secs > 24 * 60 * 60)"
        "find (\<lambda>p. kp_logical_alias p = a \<and> kp_status p = Staged) (key_rotation_plans db) = Some p"
    | (go) "\<not> (badParam ov \<or> ?secs < 60 \<or> ?secs > 24 * 60 * 60)"
        "find (\<lambda>p. kp_logical_alias p = a \<and> kp_status p = Staged) (key_rotation_plans db) = None"
    by blast
  then show ?thesis
  proof cases
    case bad
    then show ?thesis by (intro err) (simp add: stageKeyRotation_def Let_def)
  next
    case dup
    then show ?thesis by (intro err) (simp add: stageKeyRotation_def Let_def)
  next
    case go
    have free: "\<not> hasStagedPlan a db" using go(2) by (auto simp: find_None_iff hasStagedPlan_def list_ex_iff)
    show ?thesis
    proof (cases "notLogicalName a db")
      case (Some l)
      with go show ?thesis by (intro err) (simp add: stageKeyRotation_def Let_def)
    next
      case name: None
      show ?thesis
      proof (cases ?active)
        case Nil
        with go name show ?thesis by (intro err) (simp add: stageKeyRotation_def Let_def)
      next
        case (Cons current rest)
        show ?thesis
        proof (cases "find (expiredAt (now + ?secs * 1000)) (current # rest)")
          case (Some p)
          with go name Cons show ?thesis by (intro err) (simp add: stageKeyRotation_def Let_def)
        next
          case ends: None
          then have "\<forall>r \<in> set ?active. \<not> expiredAt (now + ?secs * 1000) r"
            unfolding find_None_iff Cons by blast
          with go name Cons free ends show ?thesis
            by (intro ok [of ?secs ?active current]) (simp_all add: stageKeyRotation_def Let_def)
        qed
      qed
    qed
  qed
qed

text \<open>The row a restriction writes has the scope it names, and no more authority than before.\<close>

lemma storedScope_name:
  "tier = OwnerTier \<or> s = ScInference \<or> s = ScMonitor \<Longrightarrow> storedScope tier (Some (scopeName s)) = s"
  by (cases s) (auto simp: storedScope_def)

lemma guest_rowScope: "k_tier r = GuestTier \<Longrightarrow> rowScope r = ScInference \<or> rowScope r = ScMonitor"
  by (auto simp: rowScope_def storedScope_def split: option.splits)

lemma restrictScope_le:
  assumes "restrictScope s row = Inr s'"
  shows "scopeLe s' (rowScope row)" "storedScope (k_tier row) (Some (scopeName s')) = s'"
proof -
  show le: "scopeLe s' (rowScope row)"
    using assms by (auto simp: restrictScope_def scopeLe_def split: option.splits if_splits)
  have "k_tier row = GuestTier \<Longrightarrow> s' \<noteq> ScAsk"
    using assms guest_rowScope [of row] by (auto simp: restrictScope_def split: option.splits if_splits)
  then have "k_tier row = OwnerTier \<or> s' = ScInference \<or> s' = ScMonitor"
    using le guest_rowScope [of row]
    by (cases "k_tier row") (auto simp: scopeLe_def isScopeNarrowing_def)
  then show "storedScope (k_tier row) (Some (scopeName s')) = s'" by (rule storedScope_name)
qed

lemma restrictExpiry_le: "restrictExpiry x s now row = Inr e \<Longrightarrow> expiryLe e (k_expires_at row)"
  by (auto simp: restrictExpiry_def expiryLe_def Let_def split: option.splits if_splits)

lemma findKey_Some: "findKey a db = Some r \<Longrightarrow> r \<in> set (api_keys db) \<and> k_alias r = a"
  by (auto simp: findKey_def find_Some_iff)

lemma restrict_cases:
  obtains (same) "snd (restrictKey a s x dry now db) = db"
  | (narrowed) row s' e where "findKey a db = Some row" "restrictScope s row = Inr s'" "restrictExpiry x s' now row = Inr e"
      "activeAt now row" "\<not> inStagedPlan row db"
      "snd (restrictKey a s x dry now db) =
        updateKeys (\<lambda>r. k_alias r = a \<and> k_revoked_at r = None \<and> k_scope r = k_scope row \<and> k_expires_at r = k_expires_at row)
          (\<lambda>r. r\<lparr>k_scope := Some (scopeName s'), k_expires_at := e\<rparr>) db"
proof (cases "findKey a db")
  case None
  then show ?thesis by (intro same) (simp add: restrictKey_def)
next
  case (Some row)
  show ?thesis
  proof (cases "restrictScope s row")
    case (Inl e)
    with Some show ?thesis by (intro same) (simp add: restrictKey_def)
  next
    case scope: (Inr s')
    show ?thesis
    proof (cases "restrictExpiry x s' now row")
      case (Inl e)
      with Some scope show ?thesis by (intro same) (simp add: restrictKey_def)
    next
      case (Inr e)
      note keys = Some scope Inr
      show ?thesis
      proof (cases "snd (restrictKey a s x dry now db) = db")
        case False
        with keys show ?thesis
          by (intro narrowed [OF keys]) (auto simp: restrictKey_def activeAt_def Let_def split: if_splits)
      qed (rule same)
    qed
  qed
qed

lemma inPlace_restrictKey:
  assumes "uniqueAliases db"
  shows "inPlace db (snd (restrictKey a s x dry now db))"
proof (rule restrict_cases [of a s x dry now db])
  fix row :: KeyRow and s' :: KeyScope and e :: "millis option"
  let ?P = "\<lambda>r. k_alias r = a \<and> k_revoked_at r = None \<and> k_scope r = k_scope row \<and> k_expires_at r = k_expires_at row"
  assume row: "findKey a db = Some row" and s': "restrictScope s row = Inr s'" and e: "restrictExpiry x s' now row = Inr e"
    and out: "snd (restrictKey a s x dry now db) = updateKeys ?P (\<lambda>r. r\<lparr>k_scope := Some (scopeName s'), k_expires_at := e\<rparr>) db"
  have "rowLe r (r\<lparr>k_scope := Some (scopeName s'), k_expires_at := e\<rparr>)" if "r \<in> set (api_keys db)" "?P r" for r
  proof -
    have "r = row" using that findKey_Some [OF row] unique_alias_row [OF assms] by metis
    then show ?thesis using restrictScope_le [OF s'] restrictExpiry_le [OF e] by (simp add: rowLe_def rowScope_def)
  qed
  then show ?thesis unfolding out by (rule inPlace_updateKeys)
qed simp


section \<open>Invites\<close>

text \<open>An invite keeps its label and its digest, and is redeemed once.\<close>

definition inviteLe :: "InviteRow \<Rightarrow> InviteRow \<Rightarrow> bool" where
  "inviteLe old new \<longleftrightarrow> iv_label new = iv_label old \<and> iv_code_hash new = iv_code_hash old
     \<and> (iv_redeemed_at old \<noteq> None \<longrightarrow> new = old)"

lemma inviteLe_refl [simp]: "inviteLe i i"
  by (simp add: inviteLe_def)

lemma inviteLe_trans: "inviteLe a b \<Longrightarrow> inviteLe b c \<Longrightarrow> inviteLe a c"
  unfolding inviteLe_def by metis

abbreviation invitesLe :: "InviteRow list \<Rightarrow> InviteRow list \<Rightarrow> bool" where
  "invitesLe \<equiv> growsBy inviteLe"

lemma invitesLe_append [simp]: "invitesLe is (is @ new)"
  by (rule growsBy_append) simp

lemma invitesLe_refl [simp]: "invitesLe is is"
  using invitesLe_append [of "is" "[]"] by simp

lemma createInvite_cases:
  obtains (err) e where "createInvite hash label tier cl ml ap rnd now db = (Inl e, db)"
  | (ok) row where "createInvite hash label tier cl ml ap rnd now db = (Inr (''inv_'' @ rnd), db\<lparr>invites := invites db @ [row]\<rparr>)"
      "iv_label row = label" "iv_code_hash row = hash (''inv_'' @ rnd)" "iv_redeemed_at row = None"
      "label \<notin> iv_label ` set (invites db)" "iv_code_hash row \<notin> iv_code_hash ` set (invites db)"
proof -
  let ?row = "\<lparr>iv_label = label, iv_code_hash = hash (''inv_'' @ rnd), iv_tier = tier, iv_credit_limit = the_int cl,
      iv_model_allow_list = orList ml, iv_alias_prefix = (case ap of None \<Rightarrow> ''friend'' | Some x \<Rightarrow> x),
      iv_created_at = now, iv_redeemed_at = None, iv_redeemed_key_alias = None\<rparr>"
  show ?thesis
  proof (cases "badParam (Some cl) \<or> list_ex (\<lambda>i. iv_label i = label \<or> iv_code_hash i = hash (''inv_'' @ rnd)) (invites db)")
    case True
    then have "\<exists>e. createInvite hash label tier cl ml ap rnd now db = (Inl e, db)"
      by (auto simp: createInvite_def Let_def)
    then show ?thesis using err by blast
  next
    case False
    then show ?thesis by (intro ok [of ?row]) (auto simp: createInvite_def Let_def list_ex_iff)
  qed
qed

text \<open>What a redemption does when it succeeds: the invite's row is consumed and one key is minted.\<close>

definition consume :: "string \<Rightarrow> millis \<Rightarrow> string \<Rightarrow> InviteRow list \<Rightarrow> InviteRow list" where
  "consume label now alias is =
     map (\<lambda>i. if iv_label i = label \<and> iv_redeemed_at i = None
              then i\<lparr>iv_redeemed_at := Some now, iv_redeemed_key_alias := Some alias\<rparr> else i) is"

lemma consume_le [simp]: "invitesLe is (consume label now alias is)"
  unfolding consume_def by (rule growsBy_map) (simp_all add: inviteLe_def)

lemma consume_identity [simp]:
  "map iv_label (consume label now alias is) = map iv_label is"
  "map iv_code_hash (consume label now alias is) = map iv_code_hash is"
  by (simp_all add: consume_def)

lemma redeem_cases:
  obtains (err) e where "redeemInvite hash code d sr rnd now ts seen db = (Inl e, db)"
  | (ok) invt opts row db1 where
      "redeemInvite hash code d sr rnd now ts seen db = (Inr row, db1\<lparr>invites := consume (iv_label invt) ts (mo_alias opts) (invites db1)\<rparr>)"
      "findInvite hash code seen = Some invt" "mintKeyAt hash opts d rnd now db = (Inr row, db1)"
      "opts = inviteOptions invt (mo_alias opts)"
      "\<exists>i \<in> set (invites db). iv_label i = iv_label invt \<and> iv_redeemed_at i = None"
proof (cases "findInvite hash code seen")
  case None
  then show ?thesis by (intro err) (simp add: redeemInvite_def)
next
  case (Some invt)
  let ?opts = "inviteOptions invt ((if iv_alias_prefix invt = [] then ''friend'' else iv_alias_prefix invt) @ ''-'' @ sr)"
  have nm: "mo_alias ?opts = (if iv_alias_prefix invt = [] then ''friend'' else iv_alias_prefix invt) @ ''-'' @ sr"
    by (simp add: inviteOptions_def)
  obtain res db1 where mint: "mintKeyAt hash ?opts d rnd now db = (res, db1)" by fastforce
  show ?thesis
  proof (cases res)
    case (Inl e)
    with Some mint show ?thesis by (intro err) (simp add: redeemInvite_def Let_def)
  next
    case (Inr row)
    have same: "invites db1 = invites db"
      using mint Inr addsRow_mint [of db hash ?opts d rnd now] by (simp add: addsRow_def)
    show ?thesis
    proof (cases "list_ex (\<lambda>i. iv_label i = iv_label invt \<and> iv_redeemed_at i = None) (invites db1)")
      case False
      with Some mint Inr show ?thesis by (intro err) (simp add: redeemInvite_def Let_def)
    next
      case True
      then have live: "\<exists>i \<in> set (invites db). iv_label i = iv_label invt \<and> iv_redeemed_at i = None"
        by (simp add: same list_ex_iff)
      show ?thesis
        by (rule ok [where row = row and ?db1.0 = db1 and invt = invt and opts = ?opts])
          (use Some mint Inr True live nm in \<open>simp_all add: redeemInvite_def Let_def consume_def\<close>)
    qed
  qed
qed


section \<open>The steps of the store\<close>

text \<open>
  One step is one call of an operation, with any arguments, whether it succeeds or fails. \<open>seen\<close> is
  the state the lookup of \<open>redeemInvite\<close> read, which need not be the one its transaction starts in.
\<close>

inductive ks_step :: "(string \<Rightarrow> string) \<Rightarrow> KeyDb \<Rightarrow> KeyDb \<Rightarrow> bool" for hash where
  mint: "ks_step hash db (snd (mintKeyAt hash opts d rnd now db))"
| revoke: "ks_step hash db (snd (revokeKey a now db))"
| revokeScope: "ks_step hash db (snd (revokeKeysByScope s dry now db))"
| used: "ks_step hash db (snd (recordKeyUse a now db))"
| rotate: "ks_step hash db (snd (rotateKey hash a ro d rnd t1 t2 db))"
| stage: "ks_step hash db (snd (stageKeyRotation hash a ro d ov rnd prnd now db))"
| preflight: "ks_step hash db (snd (preflightKeyRotation pid now db))"
| commit: "ks_step hash db (snd (commitKeyRotation pid now db))"
| abort: "ks_step hash db (snd (abortKeyRotation pid now db))"
| grantSystemOne: "ks_step hash db (snd (grantSystemOneModelToKeys as m now db))"
| grantEmbedding: "ks_step hash db (snd (grantEmbeddingModelToCustomerKeys as m now db))"
| grantChat: "ks_step hash db (snd (grantExistingChatModelToCustomerKeys as m now db))"
| restrict: "ks_step hash db (snd (restrictKey a sc x dryRun now db))"
| invite: "ks_step hash db (snd (createInvite hash label tier cl ml ap rnd now db))"
| redeem: "ks_step hash db (snd (redeemInvite hash code d sr rnd now ts seen db))"
| reserve: "ks_step hash db (snd (reserveCredits h n db))"
| reconcile: "ks_step hash db (reconcileCredits h n m' db)"
| usage: "ks_step hash db (recordCreditUsage h n db)"
| topUp: "ks_step hash db (snd (topUpCredits a n i oper now db))"

abbreviation ks_run :: "(string \<Rightarrow> string) \<Rightarrow> KeyDb \<Rightarrow> KeyDb \<Rightarrow> bool" where
  "ks_run hash \<equiv> (ks_step hash)\<^sup>*\<^sup>*"

text \<open>The contract of a step: the invariant holds after it, and both tables grow.\<close>

definition okStep :: "KeyDb \<Rightarrow> KeyDb \<Rightarrow> bool" where
  "okStep db db' \<longleftrightarrow> ksWf db' \<and> rowsLe (api_keys db) (api_keys db') \<and> invitesLe (invites db) (invites db')"

lemma okStep_inPlace: "ksWf db \<Longrightarrow> inPlace db db' \<Longrightarrow> okStep db db'"
  using inPlace_wf by (simp add: okStep_def inPlace_def)

lemma okStep_addsRow: "ksWf db \<Longrightarrow> addsRow db db' \<Longrightarrow> okStep db db'"
  using addsRow_wf addsRow_rowsLe by (simp add: okStep_def addsRow_def)

lemma okStep_trans: "okStep a b \<Longrightarrow> okStep b c \<Longrightarrow> okStep a c"
  unfolding okStep_def by (metis growsBy_trans inviteLe_trans rowsLe_trans)

lemma okStep_plan:
  assumes "okStep db db1" "\<And>p. kp_status p = Staged \<Longrightarrow> planLe p (f p)"
  shows "okStep db (updatePlan pid f db1)"
  using assms updatePlan_wf [of db1 f pid] by (simp add: okStep_def updatePlan_def)

lemma commit_cases:
  obtains (err) e where "commitKeyRotation pid now db = (Inl e, db)"
  | (ok) plan row db1 where "findPlan pid db = Some plan" "kp_status plan = Staged" "preflightPassed plan"
      "now < kp_overlap_expires_at plan"
      "findKey (kp_replacement_alias plan) db = Some row" "activeAt now row"
      "the (kp_preflight_use_count plan) \<le> k_use_count row"
      "length (filter (\<lambda>r. k_alias r \<in> set (kp_previous_aliases plan)) (api_keys db)) = length (kp_previous_aliases plan)"
      "\<forall>r \<in> set (api_keys db). k_alias r \<in> set (kp_previous_aliases plan) \<longrightarrow> activeAt now r"
      "revokeAll (kp_previous_aliases plan) now db = Some db1"
      "commitKeyRotation pid now db = (Inr (plan\<lparr>kp_status := Committed, kp_completed_at := Some now\<rparr>),
         updatePlan pid (\<lambda>p. p\<lparr>kp_status := Committed, kp_completed_at := Some now\<rparr>) db1)"
proof (cases "\<exists>e. commitKeyRotation pid now db = (Inl e, db)")
  case True
  then show ?thesis using err by blast
next
  case False
  then obtain plan where plan: "findPlan pid db = Some plan"
    by (cases "findPlan pid db") (auto simp: commitKeyRotation_def)
  with False obtain row where row: "findKey (kp_replacement_alias plan) db = Some row"
    by (cases "findKey (kp_replacement_alias plan) db") (auto simp: commitKeyRotation_def split: if_splits)
  with False plan obtain db1 where all: "revokeAll (kp_previous_aliases plan) now db = Some db1"
    by (cases "revokeAll (kp_previous_aliases plan) now db") (auto simp: commitKeyRotation_def Let_def split: if_splits)
  show ?thesis
    by (rule ok [OF plan _ _ _ row _ _ _ _ all])
      (use False plan row all in \<open>auto simp: commitKeyRotation_def Let_def list_ex_iff not_le split: if_splits\<close>)
qed

lemma abort_cases:
  obtains (err) e where "abortKeyRotation pid now db = (Inl e, db)"
  | (ok) plan where "findPlan pid db = Some plan" "kp_status plan = Staged"
      "length (filter (\<lambda>r. k_alias r \<in> set (kp_previous_aliases plan) \<and> activeAt now r) (api_keys db))
         = length (kp_previous_aliases plan)"
      "fst (revokeKey (kp_replacement_alias plan) now db)"
      "abortKeyRotation pid now db = (Inr (plan\<lparr>kp_status := AbortedPlan, kp_completed_at := Some now\<rparr>),
         updatePlan pid (\<lambda>p. p\<lparr>kp_status := AbortedPlan, kp_completed_at := Some now\<rparr>)
           (snd (revokeKey (kp_replacement_alias plan) now db)))"
proof (cases "findPlan pid db")
  case None
  then show ?thesis by (intro err) (simp add: abortKeyRotation_def)
next
  case (Some plan)
  obtain b db1 where rev: "revokeKey (kp_replacement_alias plan) now db = (b, db1)" by fastforce
  show ?thesis
  proof (cases "\<exists>e. abortKeyRotation pid now db = (Inl e, db)")
    case True
    then show ?thesis using err by blast
  next
    case False
    with Some rev show ?thesis
      by (intro ok [OF Some]) (auto simp: abortKeyRotation_def Let_def split: if_splits bool.splits)
  qed
qed

lemma preflight_cases:
  obtains (err) e where "preflightKeyRotation pid now db = (Inl e, db)"
  | (ok) plan row used where "findPlan pid db = Some plan" "kp_status plan = Staged" "now < kp_overlap_expires_at plan"
      "findKey (kp_replacement_alias plan) db = Some row" "activeAt now row"
      "k_last_used_at row = Some used" "kp_staged_at plan \<le> used" "kp_baseline_use_count plan < k_use_count row"
      "snd (preflightKeyRotation pid now db) = updatePlan pid (\<lambda>p. p\<lparr>kp_preflight_at := Some now,
         kp_preflight_use_count := Some (k_use_count row), kp_preflight_last_used_at := Some used\<rparr>) db"
proof (cases "\<exists>e. preflightKeyRotation pid now db = (Inl e, db)")
  case True
  then show ?thesis using err by blast
next
  case False
  then obtain plan where plan: "findPlan pid db = Some plan"
    by (cases "findPlan pid db") (auto simp: preflightKeyRotation_def)
  with False obtain row where row: "findKey (kp_replacement_alias plan) db = Some row"
    by (cases "findKey (kp_replacement_alias plan) db") (auto simp: preflightKeyRotation_def split: if_splits)
  with False plan obtain used where used: "k_last_used_at row = Some used"
    by (cases "k_last_used_at row") (auto simp: preflightKeyRotation_def split: if_splits)
  show ?thesis
    by (rule ok [OF plan _ _ row _ used])
      (use False plan row used in \<open>auto simp: preflightKeyRotation_def Let_def not_le not_less split: if_splits\<close>)
qed

lemma okStep_refl [simp]: "okStep db db \<longleftrightarrow> ksWf db"
  by (simp add: okStep_def)

lemma okStep_stage:
  assumes wf: "ksWf db"
  shows "okStep db (snd (stageKeyRotation hash a ro d ov rnd prnd now db))"
proof (rule stage_cases [of hash a ro d ov rnd prnd now db])
  fix secs active current
  assume st: "stageKeyRotation hash a ro d ov rnd prnd now db = stageReplacement hash a ro d secs rnd prnd now active current db"
    and free: "\<not> hasStagedPlan a db" and active: "active = filter (activeAt now) (familyNewestFirst a db)" "current \<in> set active"
  show ?thesis
  proof (rule stageReplacement_cases [of hash a ro d secs rnd prnd now active current db])
    fix opts row plan db1
    assume out: "stageReplacement hash a ro d secs rnd prnd now active current db =
        (Inr (row, plan), db1\<lparr>key_rotation_plans := key_rotation_plans db1 @ [plan]\<rparr>)"
      and mint: "mintKeyAt hash opts d rnd now db = (Inr row, db1)"
      and new: "mo_alias opts = nextFreeAlias a (map k_alias (api_keys db))"
      and plan: "plan = stagedPlan prnd a (mo_alias opts) (map k_alias active) now (now + secs * 1000) (k_use_count row)"
        "kp_plan_id plan \<notin> kp_plan_id ` set (key_rotation_plans db1)"
    have step: "addsRow db db1" using addsRow_mint [of db hash opts d rnd now] mint by simp
    have "k_alias ` set active \<subseteq> set (map k_alias (api_keys db))" by (auto simp: active(1) set_familyNewestFirst)
    then have "planWf plan"
      using active(2) nextFreeAlias_fresh_lemma [of a "map k_alias (api_keys db)"] unfolding plan(1) planWf_def new
      by (auto simp: stagedPlan_def)
    with step have "stagesPlan db1 (db1\<lparr>key_rotation_plans := key_rotation_plans db1 @ [plan]\<rparr>)"
      using plan free by (simp add: stagesPlan_def addsRow_def hasStagedPlan_def stagedPlan_def)
    then show ?thesis using okStep_addsRow [OF wf step] stagesPlan_wf [of db1] unfolding st out by (simp add: okStep_def)
  qed (use st wf in simp)
qed (use wf in simp)

lemma okStep_rotate: "ksWf db \<Longrightarrow> okStep db (snd (rotateKey hash a ro d rnd t1 t2 db))"
  using rotate_steps [of db hash a ro d rnd t1 t2]
  by (metis okStep_addsRow okStep_def okStep_inPlace okStep_trans)

lemma okStep_commit:
  assumes wf: "ksWf db"
  shows "okStep db (snd (commitKeyRotation pid now db))"
proof (rule commit_cases [of pid now db])
  fix plan db1
  assume "revokeAll (kp_previous_aliases plan) now db = Some db1"
    and out: "commitKeyRotation pid now db = (Inr (plan\<lparr>kp_status := Committed, kp_completed_at := Some now\<rparr>),
         updatePlan pid (\<lambda>p. p\<lparr>kp_status := Committed, kp_completed_at := Some now\<rparr>) db1)"
  then have "okStep db db1" using okStep_inPlace [OF wf] inPlace_revokeAll by blast
  then show ?thesis unfolding out snd_conv by (rule okStep_plan) (simp add: planLe_def)
qed (use wf in simp)

lemma okStep_abort:
  assumes wf: "ksWf db"
  shows "okStep db (snd (abortKeyRotation pid now db))"
proof (rule abort_cases [of pid now db])
  fix plan
  assume out: "abortKeyRotation pid now db = (Inr (plan\<lparr>kp_status := AbortedPlan, kp_completed_at := Some now\<rparr>),
         updatePlan pid (\<lambda>p. p\<lparr>kp_status := AbortedPlan, kp_completed_at := Some now\<rparr>)
           (snd (revokeKey (kp_replacement_alias plan) now db)))"
  have "okStep db (snd (revokeKey (kp_replacement_alias plan) now db))"
    by (rule okStep_inPlace [OF wf inPlace_revokeKey])
  then show ?thesis unfolding out snd_conv by (rule okStep_plan) (simp add: planLe_def)
qed (use wf in simp)

lemma okStep_preflight:
  assumes wf: "ksWf db"
  shows "okStep db (snd (preflightKeyRotation pid now db))"
proof (rule preflight_cases [of pid now db])
  fix row used
  assume out: "snd (preflightKeyRotation pid now db) = updatePlan pid (\<lambda>p. p\<lparr>kp_preflight_at := Some now,
         kp_preflight_use_count := Some (k_use_count row), kp_preflight_last_used_at := Some used\<rparr>) db"
  show ?thesis unfolding out by (rule okStep_plan) (use wf in \<open>simp_all add: planLe_def\<close>)
qed (use wf in simp)

lemma okStep_invite: "ksWf db \<Longrightarrow> okStep db (snd (createInvite hash label tier cl ml ap rnd now db))"
  by (rule createInvite_cases [of hash label tier cl ml ap rnd now db])
    (simp_all add: okStep_def ksWf_def uniqueHashes_def uniqueAliases_def)

lemma okStep_redeem:
  assumes wf: "ksWf db"
  shows "okStep db (snd (redeemInvite hash code d sr rnd now ts seen db))"
proof (rule redeem_cases [of hash code d sr rnd now ts seen db])
  fix invt opts row db1
  assume out: "redeemInvite hash code d sr rnd now ts seen db =
      (Inr row, db1\<lparr>invites := consume (iv_label invt) ts (mo_alias opts) (invites db1)\<rparr>)"
    and mint: "mintKeyAt hash opts d rnd now db = (Inr row, db1)"
  have "okStep db db1" using okStep_addsRow [OF wf] addsRow_mint [of db hash opts d rnd now] mint by simp
  moreover have "invites db1 = invites db" using addsRow_mint [of db hash opts d rnd now] mint by (simp add: addsRow_def)
  ultimately show ?thesis unfolding out
    by (simp add: okStep_def ksWf_def uniqueHashes_def uniqueAliases_def)
qed (use wf in simp)

lemma ks_step_ok:
  assumes "ks_step hash db db'" "ksWf db"
  shows "okStep db db'"
  using assms
proof (cases rule: ks_step.cases)
  case restrict
  then show ?thesis using assms(2) okStep_inPlace inPlace_restrictKey by (simp add: ksWf_def)
qed (simp_all add: okStep_inPlace okStep_addsRow addsRow_mint inPlace_revokeKey inPlace_revokeKeysByScope inPlace_recordKeyUse
    inPlace_grants inPlace_credits inPlace_topUp okStep_rotate okStep_stage okStep_preflight okStep_commit okStep_abort
    okStep_invite okStep_redeem)

lemma ks_run_ok:
  assumes "ks_run hash db db'" "ksWf db"
  shows "okStep db db'"
  using assms
proof (induction rule: rtranclp_induct)
  case (step y z)
  then have "okStep db y" "okStep y z" using ks_step_ok by (simp_all add: okStep_def)
  then show ?case by (rule okStep_trans)
qed simp


end
