(* ===== verification/Keystore_Spec.thy ===== *)
theory Keystore_Spec
  imports Keystore_Life Interfaces
begin

text \<open>
  The keystore seen from outside: a finite map from digests to the credentials that are not revoked.
  The operations on the tables refine the map's own operations, and the properties of the keystore
  follow over every run of them from the empty store.
\<close>

section \<open>The abstract store\<close>

type_synonym Credentials = "string \<rightharpoonup> KeyRow"

definition acLookup :: "millis \<Rightarrow> string \<Rightarrow> Credentials \<Rightarrow> KeyRow option" where
  "acLookup now h m = (case m h of None \<Rightarrow> None | Some r \<Rightarrow> if expiredAt now r then None else Some r)"

definition acIssue :: "KeyRow \<Rightarrow> Credentials \<Rightarrow> Credentials" where
  "acIssue row m = m(k_key_hash row \<mapsto> row)"

definition acDrop :: "(KeyRow \<Rightarrow> bool) \<Rightarrow> Credentials \<Rightarrow> Credentials" where
  "acDrop P m = (\<lambda>h. case m h of None \<Rightarrow> None | Some r \<Rightarrow> if P r then None else Some r)"

definition creds :: "KeyDb \<Rightarrow> Credentials" where
  "creds db = map_of (map (\<lambda>r. (k_key_hash r, r)) (filter (\<lambda>r. k_revoked_at r = None) (api_keys db)))"

lemma acDrop_iff: "acDrop P m h = Some r \<longleftrightarrow> m h = Some r \<and> \<not> P r"
  by (auto simp: acDrop_def split: option.splits)

lemma acDrop_cong: "(\<And>h r. m h = Some r \<Longrightarrow> P r = Q r) \<Longrightarrow> acDrop P m = acDrop Q m"
  by (rule ext) (auto simp: acDrop_def split: option.split)

lemma creds_iff:
  assumes "uniqueHashes db"
  shows "creds db h = Some r \<longleftrightarrow> r \<in> set (api_keys db) \<and> k_key_hash r = h \<and> k_revoked_at r = None"
proof -
  have "distinct (map fst (map (\<lambda>r. (k_key_hash r, r)) (filter (\<lambda>r. k_revoked_at r = None) (api_keys db))))"
    using assms by (simp add: uniqueHashes_def comp_def distinct_map_filter)
  then show ?thesis unfolding creds_def by (auto simp: map_of_eq_Some_iff)
qed

lemma creds_None_iff: "creds db h = None \<longleftrightarrow> (\<forall>r \<in> set (api_keys db). k_key_hash r = h \<longrightarrow> k_revoked_at r \<noteq> None)"
  by (auto simp: creds_def map_of_eq_None_iff image_iff)

lemma scanHash_eq:
  assumes "distinct (map k_key_hash rs)"
  shows "scanHash h m rs = (case map_of (map (\<lambda>r. (k_key_hash r, r)) rs) h of None \<Rightarrow> m | Some r \<Rightarrow> Some r)"
  using assms
proof (induction rs arbitrary: m)
  case (Cons r rs)
  then show ?case
    by (cases "k_key_hash r = h") (auto simp: map_of_eq_None_iff image_iff split: option.splits dest: map_of_SomeD)
qed simp

lemma lookup_refines:
  assumes "uniqueHashes db"
  shows "lookupKey hash p now db = acLookup now (hash p) (creds db)"
proof -
  have "distinct (map k_key_hash (filter (\<lambda>r. k_revoked_at r = None) (api_keys db)))"
    using assms by (simp add: uniqueHashes_def distinct_map_filter)
  then show ?thesis by (simp add: lookupKey_def acLookup_def creds_def scanHash_eq option.case_eq_if)
qed

lemma lookup_iff:
  assumes "uniqueHashes db"
  shows "lookupKey hash p now db = Some r \<longleftrightarrow> r \<in> set (api_keys db) \<and> k_key_hash r = hash p \<and> activeAt now r"
  using creds_iff [OF assms, of "hash p" r]
  by (auto simp: lookup_refines [OF assms] acLookup_def activeAt_def split: option.splits if_splits)

section \<open>Revocation as dropping\<close>

definition revokeWhere :: "(KeyRow \<Rightarrow> bool) \<Rightarrow> millis \<Rightarrow> KeyDb \<Rightarrow> KeyDb" where
  "revokeWhere P now db = updateKeys (\<lambda>r. P r \<and> k_revoked_at r = None) (\<lambda>r. r\<lparr>k_revoked_at := Some now\<rparr>) db"

lemma revokeKey_where: "snd (revokeKey a now db) = revokeWhere (\<lambda>r. k_alias r = a) now db"
  by (simp add: revokeKey_def revokeWhere_def Let_def)

lemma revokeWhere_none [simp]: "revokeWhere (\<lambda>r. False) now db = db"
  by (simp add: revokeWhere_def updateKeys_def)

lemma revokeWhere_twice:
  assumes "\<And>r t. Q (r\<lparr>k_revoked_at := t\<rparr>) = Q r"
  shows "revokeWhere Q now (revokeWhere P now db) = revokeWhere (\<lambda>r. P r \<or> Q r) now db"
  by (auto simp: revokeWhere_def updateKeys_def)

lemma revokeMembers_where:
  "snd (revokeMembers rs now db)
     = revokeWhere (\<lambda>r. k_alias r \<in> k_alias ` set (filter (\<lambda>r. k_revoked_at r = None) rs)) now db"
proof (induction rs arbitrary: db)
  case (Cons r rs)
  then show ?case by (simp add: case_prod_unfold Let_def revokeKey_where revokeWhere_twice)
qed simp

lemma revokeAll_where: "revokeAll as now db = Some db' \<Longrightarrow> db' = revokeWhere (\<lambda>r. k_alias r \<in> set as) now db"
proof (induction "as" arbitrary: db)
  case (Cons a as)
  then have "db' = revokeWhere (\<lambda>r. k_alias r \<in> set as) now (snd (revokeKey a now db))"
    by (auto simp: case_prod_unfold split: if_splits)
  then show ?case by (simp add: revokeKey_where revokeWhere_twice)
qed simp

lemma revokeFold_where:
  "fold (\<lambda>r d. snd (revokeKey (k_alias r) now d)) rs db = revokeWhere (\<lambda>r. k_alias r \<in> k_alias ` set rs) now db"
proof (induction rs arbitrary: db)
  case (Cons r rs)
  then show ?case by (simp add: revokeKey_where revokeWhere_twice)
qed simp

lemma uniqueHashes_revokeWhere [simp]: "uniqueHashes (revokeWhere P now db) = uniqueHashes db"
  by (simp add: uniqueHashes_def revokeWhere_def updateKeys_def comp_def if_distrib cong: if_cong)

lemma creds_revokeWhere:
  assumes "uniqueHashes db"
  shows "creds (revokeWhere P now db) = acDrop P (creds db)"
proof -
  have "creds (revokeWhere P now db) h = Some r \<longleftrightarrow> acDrop P (creds db) h = Some r" for h r
  proof -
    have "creds (revokeWhere P now db) h = Some r
        \<longleftrightarrow> r \<in> set (api_keys (revokeWhere P now db)) \<and> k_key_hash r = h \<and> k_revoked_at r = None"
      by (rule creds_iff) (simp add: assms)
    also have "\<dots> \<longleftrightarrow> r \<in> set (api_keys db) \<and> k_key_hash r = h \<and> k_revoked_at r = None \<and> \<not> P r"
      by (auto simp: revokeWhere_def updateKeys_def)
    also have "\<dots> \<longleftrightarrow> acDrop P (creds db) h = Some r"
      by (auto simp: acDrop_iff creds_iff [OF assms])
    finally show ?thesis .
  qed
  then show ?thesis by (intro ext) (metis option.exhaust)
qed

section \<open>The operations refine the abstract ones\<close>

lemma creds_append:
  assumes "uniqueHashes db" "k_key_hash row \<notin> k_key_hash ` set (api_keys db)" "k_revoked_at row = None"
    and "api_keys db' = api_keys db @ [row]"
  shows "creds db' = acIssue row (creds db)"
proof -
  have "creds db (k_key_hash row) = None" using assms(2) by (auto simp: creds_None_iff image_iff)
  then show ?thesis using assms(3,4) unfolding creds_def acIssue_def
    by (auto simp: fun_eq_iff map_add_def split: option.split)
qed

lemma mint_refines:
  assumes "uniqueHashes db" "mintKeyAt hash opts d rnd now db = (Inr row, db')"
  shows "creds db' = acIssue row (creds db)" "row = mintRow hash opts d rnd now"
proof (atomize (full), rule mint_cases [of hash opts d rnd now db])
  assume ok: "mintKeyAt hash opts d rnd now db =
        (Inr (mintRow hash opts d rnd now), db\<lparr>api_keys := api_keys db @ [mintRow hash opts d rnd now]\<rparr>)"
    and fresh: "hash (plaintextOf (mo_tier opts) rnd) \<notin> k_key_hash ` set (api_keys db)"
  have row: "row = mintRow hash opts d rnd now" "db' = db\<lparr>api_keys := api_keys db @ [row]\<rparr>" using ok assms(2) by auto
  have "creds db' = acIssue row (creds db)"
    by (rule creds_append [OF assms(1)]) (use fresh in \<open>simp_all add: row(2)\<close>, simp_all add: row(1) mintRow_def)
  then show "creds db' = acIssue row (creds db) \<and> row = mintRow hash opts d rnd now" using row by simp
qed (use assms(2) in auto)

lemma creds_same_keys: "api_keys db' = api_keys db \<Longrightarrow> creds db' = creds db"
  by (simp add: creds_def)

lemma creds_other_tables [simp]:
  "creds (db\<lparr>key_rotation_plans := ps\<rparr>) = creds db" "creds (db\<lparr>invites := is\<rparr>) = creds db"
  by (simp_all add: creds_def)

lemma creds_updatePlan [simp]: "creds (updatePlan pid f db) = creds db"
  by (rule creds_same_keys) (simp add: updatePlan_def)

lemma revoke_refines: "uniqueHashes db \<Longrightarrow> creds (snd (revokeKey a now db)) = acDrop (\<lambda>r. k_alias r = a) (creds db)"
  by (simp add: revokeKey_where creds_revokeWhere)

lemma revokeScope_refines:
  assumes "ksWf db"
  shows "creds (snd (revokeKeysByScope s (Some False) now db)) = acDrop (\<lambda>r. rowScope r = s) (creds db)"
proof -
  have u: "uniqueHashes db" "uniqueAliases db" using assms by (simp_all add: ksWf_def)
  show ?thesis
    unfolding revokeKeysByScope_def Let_def
    by (simp add: revokeFold_where creds_revokeWhere u, rule acDrop_cong)
      (use unique_alias_row [OF u(2)] in \<open>auto simp: creds_iff [OF u(1)] image_iff\<close>)
qed

lemma rotate_refines:
  assumes "ksWf db" "rotateKey hash a ro d rnd t1 t2 db = (Inr (row, revoked), db')"
  shows "creds db' = acIssue row (acDrop (inFamily a) (creds db))"
proof (rule rotate_cases [of hash a ro d rnd t1 t2 db])
  fix opts row' revoked' db1
  assume "rotateKey hash a ro d rnd t1 t2 db = (Inr (row', revoked'), snd (mintKeyAt hash opts d rnd t2 db1))"
    and rev: "revokeMembers (familyNewestFirst a db) t1 db = (revoked', db1)"
    and "fst (mintKeyAt hash opts d rnd t2 db1) = Inr row'"
  then have mint: "mintKeyAt hash opts d rnd t2 db1 = (Inr row, db')"
    using assms(2) by (cases "mintKeyAt hash opts d rnd t2 db1") simp
  have u: "uniqueHashes db" "uniqueAliases db" using assms(1) by (simp_all add: ksWf_def)
  have db1: "db1 = revokeWhere (\<lambda>r. k_alias r \<in> k_alias ` set (filter (\<lambda>r. k_revoked_at r = None) (familyNewestFirst a db))) t1 db"
    using revokeMembers_where [of "familyNewestFirst a db" t1 db] rev by simp
  have "creds db1 = acDrop (inFamily a) (creds db)"
    unfolding db1 creds_revokeWhere [OF u(1)]
    by (rule acDrop_cong) (use unique_alias_row [OF u(2)] in \<open>auto simp: creds_iff [OF u(1)] set_familyNewestFirst image_iff\<close>)
  then show ?thesis using mint_refines [OF _ mint] u(1) by (simp add: db1)
qed (use assms(2) in simp)

lemma stage_refines:
  assumes "uniqueHashes db" "stageKeyRotation hash a ro d ov rnd prnd now db = (Inr (row, plan), db')"
  shows "creds db' = acIssue row (creds db)"
proof (rule stage_cases [of hash a ro d ov rnd prnd now db])
  fix secs active current
  assume st: "stageKeyRotation hash a ro d ov rnd prnd now db = stageReplacement hash a ro d secs rnd prnd now active current db"
  show ?thesis
  proof (rule stageReplacement_cases [of hash a ro d secs rnd prnd now active current db])
    fix opts row' plan' db1
    assume "stageReplacement hash a ro d secs rnd prnd now active current db =
        (Inr (row', plan'), db1\<lparr>key_rotation_plans := key_rotation_plans db1 @ [plan']\<rparr>)"
      and "mintKeyAt hash opts d rnd now db = (Inr row', db1)"
    then show ?thesis using mint_refines(1) [OF assms(1)] st assms(2) by auto
  qed (use st assms(2) in simp)
qed (use assms(2) in simp)

lemma commit_refines:
  assumes "uniqueHashes db" "commitKeyRotation pid now db = (Inr plan, db')"
  shows "creds db' = acDrop (\<lambda>r. k_alias r \<in> set (kp_previous_aliases plan)) (creds db)"
proof (rule commit_cases [of pid now db])
  fix plan' db1
  assume "revokeAll (kp_previous_aliases plan') now db = Some db1"
    and "commitKeyRotation pid now db = (Inr (plan'\<lparr>kp_status := Committed, kp_completed_at := Some now\<rparr>),
         updatePlan pid (\<lambda>p. p\<lparr>kp_status := Committed, kp_completed_at := Some now\<rparr>) db1)"
  then show ?thesis using assms revokeAll_where [of "kp_previous_aliases plan'" now db db1] by (auto simp: creds_revokeWhere)
qed (use assms(2) in simp)

lemma abort_refines:
  assumes "uniqueHashes db" "abortKeyRotation pid now db = (Inr plan, db')"
  shows "creds db' = acDrop (\<lambda>r. k_alias r = kp_replacement_alias plan) (creds db)"
  by (rule abort_cases [of pid now db]) (use assms in \<open>auto simp: revoke_refines\<close>)

lemma redeem_refines:
  assumes "uniqueHashes db" "redeemInvite hash code d sr rnd now ts seen db = (Inr row, db')"
  shows "creds db' = acIssue row (creds db)"
proof (rule redeem_cases [of hash code d sr rnd now ts seen db])
  fix invt opts row' db1
  assume "redeemInvite hash code d sr rnd now ts seen db =
      (Inr row', db1\<lparr>invites := consume (iv_label invt) ts (mo_alias opts) (invites db1)\<rparr>)"
    and "mintKeyAt hash opts d rnd now db = (Inr row', db1)"
  then show ?thesis using mint_refines(1) [OF assms(1)] assms(2) by auto
qed (use assms(2) in simp)


section \<open>The keystore as a credential store\<close>

definition findDigest :: "string \<Rightarrow> millis \<Rightarrow> KeyDb \<Rightarrow> KeyRow option" where
  "findDigest h now db = lookupKey (\<lambda>p. p) h now db"

lemma lookup_findDigest: "lookupKey hash p now db = findDigest (hash p) now db"
  by (simp add: lookupKey_def findDigest_def)

lemma rowLe_active: "rowLe r r' \<Longrightarrow> activeAt t r' \<Longrightarrow> activeAt t r"
  by (auto simp: rowLe_def activeAt_def expiredAt_def expiryLe_def split: option.splits)

interpretation kstore: credential_store ksWf "ks_step hash" "\<lambda>db. set (api_keys db)" k_key_hash activeAt rowLe findDigest
  for hash
proof unfold_locales
  fix db db' h t r r'
  show "findDigest h t db = Some r \<longleftrightarrow> r \<in> set (api_keys db) \<and> k_key_hash r = h \<and> activeAt t r" if "ksWf db"
    using that lookup_iff [of db "\<lambda>p. p"] by (simp add: findDigest_def ksWf_def)
  show "r = r'" if "ksWf db" "r \<in> set (api_keys db)" "r' \<in> set (api_keys db)" "k_key_hash r = k_key_hash r'"
    using that unique_row by (auto simp: ksWf_def)
  show "ksWf db'" if "ksWf db" "ks_step hash db db'"
    using ks_step_ok [OF that(2,1)] by (simp add: okStep_def)
  show "\<exists>r'\<in>set (api_keys db'). rowLe r r'" if "ksWf db" "ks_step hash db db'" "r \<in> set (api_keys db)"
    using ks_step_ok [OF that(2,1)] growsBy_member [OF _ that(3)] by (simp add: okStep_def)
  show "k_key_hash r' = k_key_hash r" if "rowLe r r'"
    using that by (simp add: rowLe_def)
qed (auto intro: rowLe_trans rowLe_active)

definition emptyKeyDb :: KeyDb where
  "emptyKeyDb = \<lparr>api_keys = [], invites = [], credit_topups = [], key_rotation_plans = []\<rparr>"

lemma ksWf_empty [simp]: "ksWf emptyKeyDb"
  by (simp add: ksWf_def emptyKeyDb_def uniqueHashes_def uniqueAliases_def stagedOnce_def)

lemma reachable_wf: "ks_run hash emptyKeyDb db \<Longrightarrow> ksWf db"
  using kstore.run_wf [where hash = hash] ksWf_empty by blast


section \<open>Properties\<close>

text \<open>Concrete data of the witnesses: a digest, a gateway's defaults and an owner's key.\<close>

definition demoHash :: "string \<Rightarrow> string" where
  "demoHash p = ''h:'' @ p"

definition demoDefaults :: KeyDefaults where
  "demoDefaults = \<lparr>df_rpm = 60, df_tpm = 60000, df_dailyTokenBudget = 1000000, df_maxParallel = 2\<rparr>"

definition demoMint :: "string \<Rightarrow> Tier \<Rightarrow> MintOptions" where
  "demoMint alias tier =
     \<lparr>mo_alias = alias, mo_tier = tier, mo_scope = None, mo_modelAllowList = None, mo_systemOneModelAllowList = None,
      mo_embeddingModelAllowList = None, mo_rpm = None, mo_tpm = None, mo_dailyTokenBudget = None, mo_maxParallel = None,
      mo_creditLimit = None, mo_ttlSeconds = None, mo_logicalAlias = None\<rparr>"

definition demoRotate :: RotateOptions where
  "demoRotate =
     \<lparr>ro_tier = None, ro_scope = None, ro_modelAllowList = None, ro_systemOneModelAllowList = None,
      ro_embeddingModelAllowList = None, ro_rpm = None, ro_tpm = None, ro_dailyTokenBudget = None, ro_maxParallel = None,
      ro_creditLimit = None, ro_ttlSeconds = None\<rparr>"

definition demoDb :: KeyDb where
  "demoDb = snd (mintKeyAt demoHash (demoMint ''ci'' OwnerTier) demoDefaults ''AAAA'' 0 emptyKeyDb)"

lemmas demo_defs = demoHash_def demoDefaults_def demoMint_def demoRotate_def emptyKeyDb_def

lemma demoDb_run: "ks_run demoHash emptyKeyDb demoDb"
  unfolding demoDb_def by (rule r_into_rtranclp) (rule ks_step.mint)

text \<open>After a successful mint the plaintext of the new key, and any other text with its digest,
  authenticates as exactly the new row until its lifetime ends, which is at most the longest lifetime
  of its scope; every other text authenticates as it did before.\<close>

lemma mint_lookup:
  assumes "ks_run hash emptyKeyDb db" "mintKeyAt hash opts d rnd now db = (Inr row, db')"
  shows "lookupKey hash p t db' =
      (if hash p = hash (plaintextOf (mo_tier opts) rnd) then (if t < now + mintTtl opts * 1000 then Some row else None)
       else lookupKey hash p t db)
    \<and> mintTtl opts \<le> MAX_KEY_LIFETIME_SECONDS (mintScope opts) \<and> rowScope row = mintScope opts"
proof -
  have wf: "ksWf db" by (rule reachable_wf [OF assms(1)])
  then have wf': "ksWf db'" using addsRow_wf addsRow_mint [of db hash opts d rnd now] assms(2) by simp
  note u = wf [unfolded ksWf_def] wf' [unfolded ksWf_def]
  have row: "row = mintRow hash opts d rnd now" "creds db' = acIssue row (creds db)"
    using mint_refines [OF _ assms(2)] u by simp_all
  have lookup: "lookupKey hash p t db' =
      (if hash p = hash (plaintextOf (mo_tier opts) rnd) then (if t < now + mintTtl opts * 1000 then Some row else None)
       else lookupKey hash p t db)"
    using u lookup_refines [of db hash p t] lookup_refines [of db' hash p t] row(2)
    by (auto simp: acIssue_def acLookup_def row(1) mintRow_def expiredAt_def)
  have "mintTtl opts \<le> MAX_KEY_LIFETIME_SECONDS (mintScope opts) \<and> rowScope row = mintScope opts"
  proof (rule mint_cases [of hash opts d rnd now db])
    assume "mintTtl opts \<le> MAX_KEY_LIFETIME_SECONDS (mintScope opts)"
      "mo_tier opts = GuestTier \<Longrightarrow> mintScope opts = ScInference \<or> mintScope opts = ScMonitor"
    then show ?thesis
      using storedScope_name [of "mo_tier opts" "mintScope opts"]
      by (cases "mo_tier opts") (auto simp: row(1) mintRow_def rowScope_def)
  qed (use assms(2) in auto)
  with lookup show ?thesis by simp
qed

lemma mint_lookup_witness:
  "lookupKey demoHash ''hs_owner_AAAA'' 5 demoDb = Some (mintRow demoHash (demoMint ''ci'' OwnerTier) demoDefaults ''AAAA'' 0)"
proof -
  have ok: "mintKeyAt demoHash (demoMint ''ci'' OwnerTier) demoDefaults ''AAAA'' 0 emptyKeyDb
      = (Inr (mintRow demoHash (demoMint ''ci'' OwnerTier) demoDefaults ''AAAA'' 0), demoDb)"
    unfolding demoDb_def by code_simp
  show ?thesis
    using mint_lookup [OF rtranclp.rtrancl_refl ok, of "''hs_owner_AAAA''" 5] by (simp add: demo_defs plaintextOf_def mintTtl_def orInt_def mintScope_def)
qed

text \<open>C9: Authority only shrinks. If a text authenticates in a later state, then the row that held its
  digest in any earlier state was neither revoked nor expired at that time, has the same alias, tier
  and family, and its scope and expiry were at least as wide; so a key that was revoked or has expired
  never authenticates again, whatever operations follow.\<close>

theorem key_authority_monotone:
  assumes "ks_run hash emptyKeyDb db" "ks_run hash db db'" "r \<in> set (api_keys db)" "k_key_hash r = hash p"
    and "lookupKey hash p t db' = Some r'"
  shows "k_revoked_at r = None \<and> \<not> expiredAt t r \<and> k_alias r' = k_alias r \<and> k_tier r' = k_tier r
    \<and> familyOf r' = familyOf r \<and> scopeLe (rowScope r') (rowScope r) \<and> expiryLe (k_expires_at r') (k_expires_at r)"
proof -
  have "findDigest (k_key_hash r) t db' = Some r'" using assms(4,5) lookup_findDigest by simp
  then have "rowLe r r'" "activeAt t r"
    using kstore.authority_monotone [OF reachable_wf [OF assms(1)] assms(2,3)] by auto
  then show ?thesis by (simp add: rowLe_def activeAt_def familyOf_def split: option.split)
qed

theorem key_authority_monotone_witness:
  "let r = hd (api_keys demoDb);
       db' = snd (restrictKey ''ci'' (Some ScInference) None False 10 demoDb)
   in lookupKey demoHash ''hs_owner_AAAA'' 20 db' \<noteq> None \<and> k_revoked_at r = None
      \<and> scopeLe (rowScope (the (lookupKey demoHash ''hs_owner_AAAA'' 20 db'))) (rowScope r)"
proof -
  let ?r = "hd (api_keys demoDb)"
  let ?db = "snd (restrictKey ''ci'' (Some ScInference) None False 10 demoDb)"
  have some: "lookupKey demoHash ''hs_owner_AAAA'' 20 ?db \<noteq> None" by code_simp
  have "ks_run demoHash demoDb ?db" by (rule r_into_rtranclp) (rule ks_step.restrict)
  moreover have "?r \<in> set (api_keys demoDb)" "k_key_hash ?r = demoHash ''hs_owner_AAAA''" by code_simp+
  ultimately show ?thesis
    using key_authority_monotone [OF demoDb_run, of ?db ?r "''hs_owner_AAAA''" 20] some by (auto simp: Let_def)
qed


lemma findPlan_mem: "findPlan pid db = Some plan \<Longrightarrow> plan \<in> set (key_rotation_plans db) \<and> kp_plan_id plan = pid"
  by (auto simp: findPlan_def find_Some_iff)

lemma planWf_found: "ksWf db \<Longrightarrow> findPlan pid db = Some plan \<Longrightarrow> planWf plan"
  using findPlan_mem by (auto simp: ksWf_def list_all_iff)

text \<open>As many rows as aliases, with no alias twice in the table: every alias has its row.\<close>

lemma all_aliases_found:
  assumes "uniqueAliases db" "length (filter (\<lambda>r. k_alias r \<in> set as \<and> P r) (api_keys db)) = length as" "a \<in> set as"
  shows "\<exists>r \<in> set (api_keys db). k_alias r = a \<and> P r"
proof -
  let ?rs = "filter (\<lambda>r. k_alias r \<in> set as \<and> P r) (api_keys db)"
  have "distinct (map k_alias ?rs)" using assms(1) by (simp add: uniqueAliases_def distinct_map_filter)
  then have "card (k_alias ` set ?rs) = length as"
    using distinct_card [of "map k_alias ?rs"] assms(2) by simp
  moreover have "k_alias ` set ?rs \<subseteq> set as" by auto
  ultimately have eq: "k_alias ` set ?rs = set as"
    using card_mono [of "set as" "k_alias ` set ?rs"] card_length [of "as"] by (intro card_subset_eq) auto
  have "a \<in> k_alias ` set ?rs" unfolding eq by (rule assms(3))
  then show ?thesis by auto
qed

lemma revokeWhere_keeps: "r \<in> set (api_keys db) \<Longrightarrow> \<not> P r \<Longrightarrow> r \<in> set (api_keys (revokeWhere P now db))"
  by (force simp: revokeWhere_def updateKeys_def)

lemma commit_keeps_replacement:
  assumes wf: "ksWf db" and res: "commitKeyRotation pid now db = (Inr plan, db')"
  shows "\<exists>row \<in> set (api_keys db'). k_alias row = kp_replacement_alias plan \<and> activeAt now row
    \<and> kp_baseline_use_count plan < k_use_count row"
proof (rule commit_cases [of pid now db])
  fix p row db1
  assume p: "findPlan pid db = Some p" "preflightPassed p" "findKey (kp_replacement_alias p) db = Some row" "activeAt now row"
    "the (kp_preflight_use_count p) \<le> k_use_count row" "revokeAll (kp_previous_aliases p) now db = Some db1"
    "commitKeyRotation pid now db = (Inr (p\<lparr>kp_status := Committed, kp_completed_at := Some now\<rparr>),
       updatePlan pid (\<lambda>p. p\<lparr>kp_status := Committed, kp_completed_at := Some now\<rparr>) db1)"
  have "k_alias row \<notin> set (kp_previous_aliases p)"
    using planWf_found [OF wf p(1)] findKey_Some [OF p(3)] by (simp add: planWf_def)
  then have "row \<in> set (api_keys db1)"
    using revokeWhere_keeps [of row db] findKey_Some [OF p(3)] revokeAll_where [OF p(6)] by simp
  then have "row \<in> set (api_keys db')" using p(7) res by (auto simp: updatePlan_def)
  moreover have "kp_baseline_use_count p < k_use_count row"
    using p(2,5) by (auto simp: preflightPassed_def split: option.splits)
  ultimately show ?thesis using p(4,7) res findKey_Some [OF p(3)] by auto
qed (use res in simp)

lemma abort_keeps_predecessors:
  assumes wf: "ksWf db" and res: "abortKeyRotation pid now db = (Inr plan, db')"
  shows "kp_previous_aliases plan \<noteq> []"
    and "\<forall>a \<in> set (kp_previous_aliases plan). \<exists>row \<in> set (api_keys db'). k_alias row = a \<and> activeAt now row"
proof (atomize (full), rule abort_cases [of pid now db])
  fix p
  assume p: "findPlan pid db = Some p"
    "length (filter (\<lambda>r. k_alias r \<in> set (kp_previous_aliases p) \<and> activeAt now r) (api_keys db)) = length (kp_previous_aliases p)"
    "abortKeyRotation pid now db = (Inr (p\<lparr>kp_status := AbortedPlan, kp_completed_at := Some now\<rparr>),
       updatePlan pid (\<lambda>p. p\<lparr>kp_status := AbortedPlan, kp_completed_at := Some now\<rparr>)
         (snd (revokeKey (kp_replacement_alias p) now db)))"
  have u: "uniqueAliases db" using wf by (simp add: ksWf_def)
  have plan: "planWf p" by (rule planWf_found [OF wf p(1)])
  have keys: "api_keys db' = api_keys (revokeWhere (\<lambda>r. k_alias r = kp_replacement_alias p) now db)"
    using p(3) res by (auto simp: updatePlan_def revokeKey_where)
  have "\<exists>row \<in> set (api_keys db'). k_alias row = a \<and> activeAt now row" if a: "a \<in> set (kp_previous_aliases p)" for a
  proof -
    obtain row where row: "row \<in> set (api_keys db)" "k_alias row = a" "activeAt now row"
      using all_aliases_found [OF u p(2) a] by blast
    moreover have "row \<in> set (api_keys db')"
      unfolding keys by (rule revokeWhere_keeps [OF row(1)]) (use plan a row(2) in \<open>auto simp: planWf_def\<close>)
    ultimately show ?thesis by blast
  qed
  then show "kp_previous_aliases plan \<noteq> []
      \<and> (\<forall>a \<in> set (kp_previous_aliases plan). \<exists>row \<in> set (api_keys db'). k_alias row = a \<and> activeAt now row)"
    using p(3) res plan by (auto simp: planWf_def)
qed (use res in simp)

text \<open>C13: A staged rotation never locks a family out. A commit succeeds only when the replacement is
  active and has been used since it was staged, leaves it active, and withdraws the credentials of the
  recorded predecessors and no others. An abort succeeds only when every predecessor is active, leaves
  them all active, and withdraws the replacement alone.\<close>

theorem staged_rotation_no_lockout:
  assumes "ks_run hash emptyKeyDb db"
  shows "(\<forall>plan db'. commitKeyRotation pid now db = (Inr plan, db') \<longrightarrow>
       (\<exists>row \<in> set (api_keys db'). k_alias row = kp_replacement_alias plan \<and> activeAt now row
          \<and> kp_baseline_use_count plan < k_use_count row)
       \<and> creds db' = acDrop (\<lambda>r. k_alias r \<in> set (kp_previous_aliases plan)) (creds db))
    \<and> (\<forall>plan db'. abortKeyRotation pid now db = (Inr plan, db') \<longrightarrow>
       kp_previous_aliases plan \<noteq> []
       \<and> (\<forall>a \<in> set (kp_previous_aliases plan). \<exists>row \<in> set (api_keys db'). k_alias row = a \<and> activeAt now row)
       \<and> creds db' = acDrop (\<lambda>r. k_alias r = kp_replacement_alias plan) (creds db))"
proof -
  have wf: "ksWf db" by (rule reachable_wf [OF assms])
  then have u: "uniqueHashes db" by (simp add: ksWf_def)
  show ?thesis
    by (intro conjI allI impI commit_keeps_replacement [OF wf] commit_refines [OF u] abort_keeps_predecessors [OF wf]
        abort_refines [OF u])
qed

text \<open>The demonstration store with a plan staged, its replacement used and the preflight passed.\<close>

definition demoStaged :: KeyDb where
  "demoStaged = snd (stageKeyRotation demoHash ''ci'' demoRotate demoDefaults None ''BBBB'' ''P'' 1000 demoDb)"

definition demoReady :: KeyDb where
  "demoReady = snd (preflightKeyRotation ''rot_P'' 3000 (snd (recordKeyUse ''ci-r2'' 2000 demoStaged)))"

lemma demoStaged_run: "ks_run demoHash emptyKeyDb demoStaged"
  unfolding demoStaged_def by (rule rtranclp.rtrancl_into_rtrancl [OF demoDb_run]) (rule ks_step.stage)

lemma demoReady_run: "ks_run demoHash emptyKeyDb demoReady"
  unfolding demoReady_def
  by (rule rtranclp.rtrancl_into_rtrancl [OF rtranclp.rtrancl_into_rtrancl [OF demoStaged_run ks_step.used]])
    (rule ks_step.preflight)

theorem staged_rotation_no_lockout_witness:
  "\<exists>plan db'. commitKeyRotation ''rot_P'' 4000 demoReady = (Inr plan, db')
     \<and> (\<exists>row \<in> set (api_keys db'). k_alias row = ''ci-r2'' \<and> activeAt 4000 row)"
proof -
  have "case commitKeyRotation ''rot_P'' 4000 demoReady of (Inr plan, _) \<Rightarrow> kp_replacement_alias plan = ''ci-r2'' | _ \<Rightarrow> False"
    by code_simp
  then obtain plan db' where res: "commitKeyRotation ''rot_P'' 4000 demoReady = (Inr plan, db')" "kp_replacement_alias plan = ''ci-r2''"
    by (auto split: prod.splits sum.splits)
  then have "\<exists>row \<in> set (api_keys db'). k_alias row = ''ci-r2'' \<and> activeAt 4000 row"
    using staged_rotation_no_lockout [OF demoReady_run, of "''rot_P''" 4000] by auto
  with res show ?thesis by blast
qed


text \<open>C12: The tables refine the abstract store of credentials. In every reachable state a lookup reads
  the map of unrevoked rows by digest and tests the expiry; a mint, a staged replacement and a redeemed
  invite issue exactly the returned row; a revocation drops the key of that alias and a revocation by
  scope the keys of that scope; a rotation drops the whole family and issues the new row; a commit
  drops the recorded predecessors and an abort the replacement.\<close>

theorem keystore_refines_credentials:
  assumes "ks_run hash emptyKeyDb db"
  shows "lookupKey hash p t db = acLookup t (hash p) (creds db)
    \<and> (\<forall>row db'. mintKeyAt hash opts d rnd now db = (Inr row, db') \<longrightarrow> creds db' = acIssue row (creds db))
    \<and> (\<forall>row db'. redeemInvite hash code d sr rnd now ts seen db = (Inr row, db') \<longrightarrow> creds db' = acIssue row (creds db))
    \<and> (\<forall>row plan db'. stageKeyRotation hash a ro d ov rnd prnd now db = (Inr (row, plan), db')
         \<longrightarrow> creds db' = acIssue row (creds db))
    \<and> creds (snd (revokeKey a now db)) = acDrop (\<lambda>r. k_alias r = a) (creds db)
    \<and> creds (snd (revokeKeysByScope s (Some False) now db)) = acDrop (\<lambda>r. rowScope r = s) (creds db)
    \<and> (\<forall>row revoked db'. rotateKey hash a ro d rnd t1 now db = (Inr (row, revoked), db')
         \<longrightarrow> creds db' = acIssue row (acDrop (inFamily a) (creds db)))
    \<and> (\<forall>plan db'. commitKeyRotation pid now db = (Inr plan, db')
         \<longrightarrow> creds db' = acDrop (\<lambda>r. k_alias r \<in> set (kp_previous_aliases plan)) (creds db))
    \<and> (\<forall>plan db'. abortKeyRotation pid now db = (Inr plan, db')
         \<longrightarrow> creds db' = acDrop (\<lambda>r. k_alias r = kp_replacement_alias plan) (creds db))"
proof -
  have wf: "ksWf db" by (rule reachable_wf [OF assms])
  then have u: "uniqueHashes db" by (simp add: ksWf_def)
  show ?thesis
    by (intro conjI allI impI lookup_refines [OF u] mint_refines(1) [OF u] redeem_refines [OF u] stage_refines [OF u]
        revoke_refines [OF u] revokeScope_refines [OF wf] rotate_refines [OF wf] commit_refines [OF u] abort_refines [OF u])
qed

theorem keystore_refines_credentials_witness:
  "creds (snd (revokeKey ''ci'' 7 demoReady)) = acDrop (\<lambda>r. k_alias r = ''ci'') (creds demoReady)
   \<and> lookupKey demoHash ''hs_owner_BBBB'' 5000 demoReady = acLookup 5000 ''h:hs_owner_BBBB'' (creds demoReady)"
  using keystore_refines_credentials [OF demoReady_run, where p = "''hs_owner_BBBB''" and t = 5000 and a = "''ci''" and now = 7]
  by (simp add: demoHash_def)

text \<open>C38: The tables stay well formed. In every reachable state no two rows share an alias or a digest,
  no two plans share an id, a family has at most one staged plan, every plan has predecessors and does
  not name its replacement among them, and no two invites share a label or a code.\<close>

theorem keystore_tables_wellformed:
  assumes "ks_run hash emptyKeyDb db"
  shows "distinct (map k_alias (api_keys db)) \<and> distinct (map k_key_hash (api_keys db))
    \<and> distinct (map kp_plan_id (key_rotation_plans db))
    \<and> distinct (map kp_logical_alias (filter (\<lambda>p. kp_status p = Staged) (key_rotation_plans db)))
    \<and> list_all (\<lambda>p. kp_previous_aliases p \<noteq> [] \<and> kp_replacement_alias p \<notin> set (kp_previous_aliases p)) (key_rotation_plans db)
    \<and> distinct (map iv_label (invites db)) \<and> distinct (map iv_code_hash (invites db))"
  using reachable_wf [OF assms]
  by (simp add: ksWf_def uniqueHashes_def uniqueAliases_def stagedOnce_def planWf_def [abs_def])

theorem keystore_tables_wellformed_witness:
  "map k_alias (api_keys demoReady) = [''ci'', ''ci-r2''] \<and> distinct (map k_key_hash (api_keys demoReady))"
proof -
  have "map k_alias (api_keys demoReady) = [''ci'', ''ci-r2'']" by code_simp
  with keystore_tables_wellformed [OF demoReady_run] show ?thesis by simp
qed

text \<open>C39: The search for a free alias ends, with the bare logical name when that is free and otherwise
  with the name of the lowest free suffix from 2 on; either way the name is not taken.\<close>

theorem nextFreeAlias_lowest:
  "nextFreeAlias a names \<notin> set names
    \<and> (a \<notin> set names \<longrightarrow> nextFreeAlias a names = a)
    \<and> (a \<in> set names \<longrightarrow> (\<exists>n \<ge> 2. nextFreeAlias a names = rotatedName a n \<and> (\<forall>k. 2 \<le> k \<and> k < n \<longrightarrow> rotatedName a k \<in> set names)))"
  using freeSuffix_spec [of 2 a names] nextFreeAlias_fresh_lemma [of a names] by (auto simp: nextFreeAlias_def)

theorem nextFreeAlias_lowest_witness:
  "\<exists>n \<ge> 2. nextFreeAlias ''ci'' [''ci-r2'', ''ci'', ''ci-r3''] = rotatedName ''ci'' n
     \<and> (\<forall>k. 2 \<le> k \<and> k < n \<longrightarrow> rotatedName ''ci'' k \<in> set [''ci-r2'', ''ci'', ''ci-r3''])"
  using nextFreeAlias_lowest [of "''ci''" "[''ci-r2'', ''ci'', ''ci-r3'']"] by simp

section \<open>Invites are redeemed once\<close>

lemma scanInvites_mem: "scanInvites h m is = Some i \<Longrightarrow> m = Some i \<or> (i \<in> set is \<and> iv_code_hash i = h)"
  by (induction "is" arbitrary: m) (auto split: if_splits)

lemma findInvite_mem: "findInvite hash code db = Some i \<Longrightarrow> i \<in> set (invites db) \<and> iv_code_hash i = hash code"
  using scanInvites_mem [of "hash code" None "filter (\<lambda>i. iv_redeemed_at i = None) (invites db)" i] by (simp add: findInvite_def)

text \<open>Two states with a common later state show the same label for the same code.\<close>

lemma invite_label_stable:
  assumes "okStep s db" "okStep s' db" "i \<in> set (invites s)" "j \<in> set (invites s')" "iv_code_hash i = iv_code_hash j"
  shows "iv_label i = iv_label j"
proof -
  obtain i' where i': "i' \<in> set (invites db)" "inviteLe i i'" using assms(1,3) growsBy_member by (metis okStep_def)
  obtain j' where j': "j' \<in> set (invites db)" "inviteLe j j'" using assms(2,4) growsBy_member by (metis okStep_def)
  have "distinct (map iv_code_hash (invites db))" using assms(1) by (simp add: okStep_def ksWf_def)
  then have "i' = j'" using i' j' assms(5) by (metis distinct_map inj_onD inviteLe_def)
  then show ?thesis using i'(2) j'(2) by (simp add: inviteLe_def)
qed

lemma redeemed_label_dead:
  assumes "okStep db db'" "\<forall>i \<in> set (invites db). iv_label i = l \<longrightarrow> iv_redeemed_at i \<noteq> None" "l \<in> iv_label ` set (invites db)"
  shows "\<forall>i \<in> set (invites db'). iv_label i = l \<longrightarrow> iv_redeemed_at i \<noteq> None"
proof -
  obtain i where i: "i \<in> set (invites db)" "iv_label i = l" "iv_redeemed_at i \<noteq> None" using assms(2,3) by auto
  then obtain i' where i': "i' \<in> set (invites db')" "inviteLe i i'" using assms(1) growsBy_member by (metis okStep_def)
  have "distinct (map iv_label (invites db'))" using assms(1) by (simp add: okStep_def ksWf_def)
  then have "j = i'" if "j \<in> set (invites db')" "iv_label j = l" for j
    using that i i' by (metis distinct_map inj_onD inviteLe_def)
  then show ?thesis using i i' by (metis inviteLe_def)
qed

text \<open>C14: An invite is redeemed at most once, also by concurrent redemptions. Once a redemption of a
  code has succeeded, no later one succeeds, even when it read the invite in a state before the first;
  it changes nothing.\<close>

theorem invite_redeemed_once:
  assumes "ks_run hash emptyKeyDb seen" "ks_run hash seen db"
    and first: "redeemInvite hash code d sr rnd now ts seen db = (Inr row, db1)"
    and "ks_run hash db1 db2" "ks_run hash emptyKeyDb seen'" "ks_run hash seen' db2"
  shows "\<exists>e. redeemInvite hash code d' sr' rnd' now' ts' seen' db2 = (Inl e, db2)"
proof (rule redeem_cases [of hash code d sr rnd now ts seen db])
  fix invt opts r db0
  assume out: "redeemInvite hash code d sr rnd now ts seen db = (Inr r, db0\<lparr>invites := consume (iv_label invt) ts (mo_alias opts) (invites db0)\<rparr>)"
    and invt: "findInvite hash code seen = Some invt" and live: "\<exists>i \<in> set (invites db). iv_label i = iv_label invt \<and> iv_redeemed_at i = None"
    and mint: "mintKeyAt hash opts d rnd now db = (Inr r, db0)"
  have wf: "ksWf seen" "ksWf seen'" "ksWf db" using reachable_wf assms(1,2,5) by (auto intro: rtranclp_trans)
  have s1: "okStep db db1" using okStep_redeem [OF wf(3), of hash code d sr rnd now ts seen] first by simp
  then have s2: "okStep db1 db2" using ks_run_ok assms(4) by (simp add: okStep_def)
  have inv: "invites db1 = consume (iv_label invt) ts (mo_alias opts) (invites db)"
    using out first mint addsRow_mint [of db hash opts d rnd now] by (auto simp: addsRow_def)
  have "iv_label ` set (invites db1) = iv_label ` set (invites db)"
    unfolding inv by (metis consume_identity(1) set_map)
  then have "iv_label invt \<in> iv_label ` set (invites db1)" using live by (metis imageI)
  moreover have "\<forall>i \<in> set (invites db1). iv_label i = iv_label invt \<longrightarrow> iv_redeemed_at i \<noteq> None"
    by (auto simp: inv consume_def)
  ultimately have dead: "\<forall>i \<in> set (invites db2). iv_label i = iv_label invt \<longrightarrow> iv_redeemed_at i \<noteq> None"
    using redeemed_label_dead [OF s2] by blast
  show ?thesis
  proof (rule redeem_cases [of hash code d' sr' rnd' now' ts' seen' db2])
    fix invt'
    assume "findInvite hash code seen' = Some invt'" "\<exists>i \<in> set (invites db2). iv_label i = iv_label invt' \<and> iv_redeemed_at i = None"
    moreover have "okStep seen db2" using s1 s2 ks_run_ok [OF assms(2) wf(1)] okStep_trans by blast
    moreover have "okStep seen' db2" using ks_run_ok [OF assms(6) wf(2)] .
    ultimately show ?thesis using dead invite_label_stable findInvite_mem [OF invt] findInvite_mem by metis
  qed blast
qed (use first in simp)


definition demoInvited :: KeyDb where
  "demoInvited = snd (createInvite demoHash ''anna'' GuestTier (js_int 100) None None ''CODE'' 50 demoDb)"

definition demoRedeemed :: KeyDb where
  "demoRedeemed = snd (redeemInvite demoHash ''inv_CODE'' demoDefaults ''x1'' ''KKKK'' 60 60 demoInvited demoInvited)"

theorem invite_redeemed_once_witness:
  "\<exists>e. redeemInvite demoHash ''inv_CODE'' demoDefaults ''x2'' ''LLLL'' 61 61 demoInvited demoRedeemed = (Inl e, demoRedeemed)"
proof -
  have inv: "ks_run demoHash emptyKeyDb demoInvited"
    unfolding demoInvited_def by (rule rtranclp.rtrancl_into_rtrancl [OF demoDb_run]) (rule ks_step.invite)
  have "ks_step demoHash demoInvited demoRedeemed" unfolding demoRedeemed_def by (rule ks_step.redeem)
  then have later: "ks_run demoHash demoInvited demoRedeemed" by (rule r_into_rtranclp)
  have "case redeemInvite demoHash ''inv_CODE'' demoDefaults ''x1'' ''KKKK'' 60 60 demoInvited demoInvited of (Inr _, _) \<Rightarrow> True | _ \<Rightarrow> False"
    by code_simp
  then obtain row where "redeemInvite demoHash ''inv_CODE'' demoDefaults ''x1'' ''KKKK'' 60 60 demoInvited demoInvited = (Inr row, demoRedeemed)"
    unfolding demoRedeemed_def by (auto split: prod.splits sum.splits)
  from invite_redeemed_once [OF inv rtranclp.rtrancl_refl this rtranclp.rtrancl_refl inv later] show ?thesis .
qed


section \<open>A staged plan whose predecessor is gone\<close>

text \<open>\<open>revokeKey\<close> and \<open>rotateKey\<close> do not look at the staged plans, so they can revoke a recorded predecessor.\<close>

definition wedged :: "string \<Rightarrow> string \<Rightarrow> KeyDb \<Rightarrow> bool" where
  "wedged pid family db \<longleftrightarrow>
     (\<exists>plan. findPlan pid db = Some plan \<and> kp_status plan = Staged \<and> kp_logical_alias plan = family
        \<and> (\<exists>r \<in> set (api_keys db). k_alias r \<in> set (kp_previous_aliases plan) \<and> k_revoked_at r \<noteq> None))"

lemma findPlan_updatePlan:
  assumes "\<And>p. kp_plan_id (f p) = kp_plan_id p"
  shows "findPlan pid (updatePlan pid' f db)
    = map_option (\<lambda>p. if kp_plan_id p = pid' \<and> kp_status p = Staged then f p else p) (findPlan pid db)"
proof -
  have "find (\<lambda>p. kp_plan_id p = pid) (map (\<lambda>p. if kp_plan_id p = pid' \<and> kp_status p = Staged then f p else p) ps)
    = map_option (\<lambda>p. if kp_plan_id p = pid' \<and> kp_status p = Staged then f p else p) (find (\<lambda>p. kp_plan_id p = pid) ps)" for ps
    by (induction ps) (auto simp: assms)
  then show ?thesis by (simp add: findPlan_def updatePlan_def)
qed

lemma wedged_commit: "wedged pid family db \<Longrightarrow> \<exists>e. commitKeyRotation pid now db = (Inl e, db)"
  by (rule commit_cases [of pid now db]) (auto simp: wedged_def activeAt_def)

lemma wedged_abort:
  assumes "wedged pid family db" "uniqueAliases db"
  shows "\<exists>e. abortKeyRotation pid now db = (Inl e, db)"
proof (rule abort_cases [of pid now db])
  fix plan
  assume p: "findPlan pid db = Some plan"
    "length (filter (\<lambda>r. k_alias r \<in> set (kp_previous_aliases plan) \<and> activeAt now r) (api_keys db)) = length (kp_previous_aliases plan)"
  then obtain r where r: "r \<in> set (api_keys db)" "k_alias r \<in> set (kp_previous_aliases plan)" "k_revoked_at r \<noteq> None"
    using assms(1) by (auto simp: wedged_def)
  then obtain s where "s \<in> set (api_keys db)" "k_alias s = k_alias r" "activeAt now s"
    using all_aliases_found [OF assms(2) p(2)] by blast
  then show ?thesis using unique_alias_row [OF assms(2)] r by (metis activeAt_def)
qed blast

lemma wedged_stage:
  assumes "wedged pid family db"
  shows "\<exists>e. stageKeyRotation hash family ro d ov rnd prnd now db = (Inl e, db)"
proof (rule stage_cases [of hash family ro d ov rnd prnd now db])
  assume "\<not> hasStagedPlan family db"
  then show ?thesis using assms by (auto simp: wedged_def hasStagedPlan_def list_ex_iff dest: findPlan_mem)
qed blast

text \<open>What a step does to the plan of an id: nothing, or an update that keeps it staged, or it completes it.\<close>

lemma wedged_keep:
  assumes "wedged pid family db" "rowsLe (api_keys db) (api_keys db')"
    and plan: "\<And>p. findPlan pid db = Some p \<Longrightarrow> kp_status p = Staged \<Longrightarrow>
      \<exists>p'. findPlan pid db' = Some p' \<and> kp_status p' = Staged \<and> planLe p p'"
  shows "wedged pid family db'"
proof -
  obtain p r where p: "findPlan pid db = Some p" "kp_status p = Staged" "kp_logical_alias p = family"
    and r: "r \<in> set (api_keys db)" "k_alias r \<in> set (kp_previous_aliases p)" "k_revoked_at r \<noteq> None"
    using assms(1) by (auto simp: wedged_def)
  obtain p' where "findPlan pid db' = Some p'" "kp_status p' = Staged" "planLe p p'" using plan p by blast
  moreover obtain r' where "r' \<in> set (api_keys db')" "rowLe r r'" using growsBy_member [OF assms(2) r(1)] by blast
  ultimately show ?thesis using p r unfolding wedged_def planLe_def rowLe_def
    by (intro exI [of _ p'] conjI bexI [of _ r']) auto
qed

lemma planLe_refl [simp]: "planLe p p"
  by (simp add: planLe_def)

lemma wedged_same_plans:
  "wedged pid family db \<Longrightarrow> rowsLe (api_keys db) (api_keys db') \<Longrightarrow> key_rotation_plans db' = key_rotation_plans db
     \<Longrightarrow> wedged pid family db'"
  by (rule wedged_keep) (auto simp: findPlan_def)

lemma wedged_complete:
  assumes "wedged pid family db" "rowsLe (api_keys db) (api_keys db1)" "key_rotation_plans db1 = key_rotation_plans db" "pid' \<noteq> pid"
  shows "wedged pid family (updatePlan pid' (\<lambda>p. p\<lparr>kp_status := s, kp_completed_at := c\<rparr>) db1)"
proof (rule wedged_keep [OF assms(1)])
  show "\<exists>p'. findPlan pid (updatePlan pid' (\<lambda>p. p\<lparr>kp_status := s, kp_completed_at := c\<rparr>) db1) = Some p'
      \<and> kp_status p' = Staged \<and> planLe p p'" if "findPlan pid db = Some p" "kp_status p = Staged" for p
  proof -
    have "findPlan pid db1 = Some p" using that(1) assms(3) by (simp add: findPlan_def)
    then show ?thesis using that assms(4) findPlan_mem [OF that(1)] by (simp add: findPlan_updatePlan)
  qed
qed (use assms(2) in \<open>simp add: updatePlan_def\<close>)


lemma find_extend: "find P xs = Some x \<Longrightarrow> find P (xs @ ys) = Some x"
  by (induction xs) (auto split: if_splits)

lemma wedged_stages:
  assumes "wedged pid family db"
  shows "wedged pid family (snd (stageKeyRotation hash a ro d ov rnd prnd now db))"
proof (rule stage_cases [of hash a ro d ov rnd prnd now db])
  fix secs active current
  assume st: "stageKeyRotation hash a ro d ov rnd prnd now db = stageReplacement hash a ro d secs rnd prnd now active current db"
  show ?thesis
  proof (rule stageReplacement_cases [of hash a ro d secs rnd prnd now active current db])
    fix opts row plan db1
    assume out: "stageReplacement hash a ro d secs rnd prnd now active current db =
        (Inr (row, plan), db1\<lparr>key_rotation_plans := key_rotation_plans db1 @ [plan]\<rparr>)"
      and "mintKeyAt hash opts d rnd now db = (Inr row, db1)"
    then have db1: "addsRow db db1" using addsRow_mint [of db hash opts d rnd now] by simp
    have "wedged pid family db1" by (rule wedged_same_plans [OF assms]) (use db1 addsRow_rowsLe in \<open>auto simp: addsRow_def\<close>)
    then show ?thesis unfolding st out snd_conv by (rule wedged_keep) (auto simp: findPlan_def find_extend)
  qed (use st assms in simp)
qed (use assms in simp)

lemma wedged_preflights:
  assumes "wedged pid family db"
  shows "wedged pid family (snd (preflightKeyRotation pid' now db))"
proof (rule preflight_cases [of pid' now db])
  fix row used
  assume out: "snd (preflightKeyRotation pid' now db) = updatePlan pid' (\<lambda>p. p\<lparr>kp_preflight_at := Some now,
     kp_preflight_use_count := Some (k_use_count row), kp_preflight_last_used_at := Some used\<rparr>) db"
  have "rowsLe (api_keys db) (api_keys (updatePlan pid' f db))" for f by (simp add: updatePlan_def)
  then show ?thesis unfolding out by (intro wedged_keep [OF assms]) (auto simp: findPlan_updatePlan planLe_def)
qed (use assms in simp)

lemma wedged_commits:
  assumes "wedged pid family db"
  shows "wedged pid family (snd (commitKeyRotation pid' now db))"
proof (rule commit_cases [of pid' now db])
  fix plan db1
  assume all: "revokeAll (kp_previous_aliases plan) now db = Some db1"
    and out: "commitKeyRotation pid' now db = (Inr (plan\<lparr>kp_status := Committed, kp_completed_at := Some now\<rparr>),
       updatePlan pid' (\<lambda>p. p\<lparr>kp_status := Committed, kp_completed_at := Some now\<rparr>) db1)"
  then have "pid' \<noteq> pid" using wedged_commit [OF assms, of now] by auto
  with inPlace_revokeAll [OF all] show ?thesis unfolding out snd_conv
    by (intro wedged_complete [OF assms]) (simp_all add: inPlace_def)
qed (use assms in simp)

lemma wedged_aborts:
  assumes "wedged pid family db" "uniqueAliases db"
  shows "wedged pid family (snd (abortKeyRotation pid' now db))"
proof (rule abort_cases [of pid' now db])
  fix plan
  assume out: "abortKeyRotation pid' now db = (Inr (plan\<lparr>kp_status := AbortedPlan, kp_completed_at := Some now\<rparr>),
     updatePlan pid' (\<lambda>p. p\<lparr>kp_status := AbortedPlan, kp_completed_at := Some now\<rparr>)
       (snd (revokeKey (kp_replacement_alias plan) now db)))"
  then have "pid' \<noteq> pid" using wedged_abort [OF assms, of now] by auto
  with inPlace_revokeKey [of db "kp_replacement_alias plan" now] show ?thesis unfolding out snd_conv
    by (intro wedged_complete [OF assms(1)]) (simp_all add: inPlace_def)
qed (use assms in simp)

text \<open>The other operations leave the plans as they are.\<close>

lemma plans_unchanged:
  "key_rotation_plans (snd (mintKeyAt hash opts d rnd now db)) = key_rotation_plans db"
  "key_rotation_plans (snd (rotateKey hash a ro d rnd t1 t2 db)) = key_rotation_plans db"
  "key_rotation_plans (snd (createInvite hash label tier cl ml ap rnd now db)) = key_rotation_plans db"
  "key_rotation_plans (snd (redeemInvite hash code d sr rnd now ts seen db)) = key_rotation_plans db"
proof -
  show mint: "key_rotation_plans (snd (mintKeyAt hash opts d rnd now db)) = key_rotation_plans db" for opts rnd now
    using addsRow_mint [of db hash opts d rnd now] by (simp add: addsRow_def)
  show "key_rotation_plans (snd (rotateKey hash a ro d rnd t1 t2 db)) = key_rotation_plans db"
    using rotate_steps [of db hash a ro d rnd t1 t2] by (auto simp: inPlace_def addsRow_def)
  show "key_rotation_plans (snd (createInvite hash label tier cl ml ap rnd now db)) = key_rotation_plans db"
    by (rule createInvite_cases [of hash label tier cl ml ap rnd now db]) auto
  show "key_rotation_plans (snd (redeemInvite hash code d sr rnd now ts seen db)) = key_rotation_plans db"
    by (rule redeem_cases [of hash code d sr rnd now ts seen db]) (use mint in \<open>auto, metis snd_conv\<close>)
qed

lemma wedged_step:
  assumes "ks_step hash db db'" and wf: "ksWf db" and w: "wedged pid family db"
  shows "wedged pid family db'"
proof -
  have rows: "rowsLe (api_keys db) (api_keys db')" using ks_step_ok [OF assms(1) wf] by (simp add: okStep_def)
  have same: "wedged pid family db'" if "key_rotation_plans db' = key_rotation_plans db"
    by (rule wedged_same_plans [OF w rows that])
  have u: "uniqueAliases db" using wf by (simp add: ksWf_def)
  note inPlaces = inPlace_revokeKey inPlace_revokeKeysByScope inPlace_recordKeyUse inPlace_grants inPlace_credits inPlace_topUp
    inPlace_restrictKey [OF u]
  from assms(1) show ?thesis
    by (cases rule: ks_step.cases)
      (use same w u inPlaces in \<open>simp_all add: plans_unchanged inPlace_def wedged_stages wedged_preflights wedged_commits wedged_aborts\<close>)
qed

text \<open>C40: A staged plan one of whose predecessors has been revoked, which \<open>revokeKey\<close> and
  \<open>rotateKey\<close> allow, is stuck: after any further operations it can be neither committed nor aborted, and
  no other rotation of its family can be staged, so the advice "abort and stage again" cannot be
  followed.\<close>

theorem staged_plan_wedged:
  assumes "ks_run hash emptyKeyDb db" "findPlan pid db = Some plan" "kp_status plan = Staged"
    and "r \<in> set (api_keys db)" "k_alias r \<in> set (kp_previous_aliases plan)" "k_revoked_at r \<noteq> None"
    and run: "ks_run hash db db'"
  shows "(\<exists>e. commitKeyRotation pid now db' = (Inl e, db')) \<and> (\<exists>e. abortKeyRotation pid now db' = (Inl e, db'))
    \<and> (\<exists>e. stageKeyRotation hash (kp_logical_alias plan) ro d ov rnd prnd now db' = (Inl e, db'))"
proof -
  have wf: "ksWf db" by (rule reachable_wf [OF assms(1)])
  have "wedged pid (kp_logical_alias plan) db" using assms(2-6) by (auto simp: wedged_def)
  with run wf have "wedged pid (kp_logical_alias plan) db'"
  proof (induction rule: rtranclp_induct)
    case (step y z)
    moreover have "ksWf y" using step.hyps(1) wf by (rule kstore.run_wf)
    ultimately show ?case using wedged_step by blast
  qed
  moreover have "uniqueAliases db'" using kstore.run_wf [OF run wf] by (simp add: ksWf_def)
  ultimately show ?thesis using wedged_commit wedged_abort wedged_stage by blast
qed

theorem staged_plan_wedged_witness:
  "\<exists>e. abortKeyRotation ''rot_P'' 4000 (snd (revokeKey ''ci'' 3500 demoReady)) = (Inl e, snd (revokeKey ''ci'' 3500 demoReady))"
proof -
  let ?db = "snd (revokeKey ''ci'' 3500 demoReady)"
  have run: "ks_run demoHash emptyKeyDb ?db"
    by (rule rtranclp.rtrancl_into_rtrancl [OF demoReady_run]) (rule ks_step.revoke)
  have "kp_status (the (findPlan ''rot_P'' ?db)) = Staged" "findPlan ''rot_P'' ?db \<noteq> None"
    "k_alias (hd (api_keys ?db)) \<in> set (kp_previous_aliases (the (findPlan ''rot_P'' ?db)))" "api_keys ?db \<noteq> []"
    "k_revoked_at (hd (api_keys ?db)) \<noteq> None" by code_simp+
  then show ?thesis
    using staged_plan_wedged [OF run, of "''rot_P''" "the (findPlan ''rot_P'' ?db)" "hd (api_keys ?db)" ?db 4000] by auto
qed

end
