(* ===== verification/Credential_Inventory.thy ===== *)
theory Credential_Inventory
  imports Keystore_Spec
begin

text \<open>
  The credential inventory and the migration worksheet of \<open>src/homeserver/keystore.ts\<close>: the report
  over the public part of the rows, and one suggested action for every key. Both are read-only.
\<close>

section \<open>The report\<close>

datatype CredentialFinding = NoExpiry | OverScoped | StaleKey | UnusedKey | ExpiredKey | RevokedKey

datatype KeyStatus = ActiveKey | ExpiredStatus | RevokedStatus

record CredentialInventoryEntry =
  ce_key :: ApiKeyPublic
  ce_status :: KeyStatus
  ce_findings :: "CredentialFinding list"

record CredentialInventoryReport =
  rp_generatedAt :: millis
  rp_staleAfterDays :: int
  rp_total :: nat
  rp_active :: nat
  rp_expired :: nat
  rp_revoked :: nat
  rp_findings :: "(CredentialFinding \<times> nat) list"
  rp_keys :: "CredentialInventoryEntry list"

definition keyStatus :: "millis \<Rightarrow> KeyRow \<Rightarrow> KeyStatus" where
  "keyStatus now r =
     (if k_revoked_at r \<noteq> None then RevokedStatus else if expiredAt now r then ExpiredStatus else ActiveKey)"

definition keyFindings :: "millis \<Rightarrow> millis \<Rightarrow> KeyRow \<Rightarrow> CredentialFinding list" where
  "keyFindings now staleCutoff r =
     (case keyStatus now r of
        RevokedStatus \<Rightarrow> [RevokedKey]
      | ExpiredStatus \<Rightarrow> [ExpiredKey]
      | ActiveKey \<Rightarrow>
          (if k_expires_at r = None then [NoExpiry] else [])
          @ (if rowScope r = ScAdmin then [OverScoped] else [])
          @ (case k_last_used_at r of
               None \<Rightarrow> [UnusedKey]
             | Some used \<Rightarrow> if k_use_count r = 0 then [UnusedKey] else if used \<le> staleCutoff then [StaleKey] else []))"

definition findingNames :: "CredentialFinding list" where
  "findingNames = [NoExpiry, OverScoped, StaleKey, UnusedKey, ExpiredKey, RevokedKey]"

text \<open>The constants \<open>source\<close>, \<open>all\<close> and \<open>keys\<close> of the report.\<close>

definition inventoryKeys ::
  "millis \<Rightarrow> millis \<Rightarrow> bool \<Rightarrow> KeyScope option \<Rightarrow> KeyDb \<Rightarrow> CredentialInventoryEntry list" where
  "inventoryKeys now staleCutoff includeRevoked scope db =
     (let source = filter (\<lambda>r. scope = None \<or> scope = Some (rowScope r))
                     (sort_by byCreated (if includeRevoked then api_keys db
                                         else filter (\<lambda>r. k_revoked_at r = None) (api_keys db)));
          entries = map (\<lambda>r. \<lparr>ce_key = toPublic r, ce_status = keyStatus now r,
                               ce_findings = keyFindings now staleCutoff r\<rparr>) source
      in if includeRevoked then entries else filter (\<lambda>e. ce_status e \<noteq> RevokedStatus) entries)"

definition countStatus :: "KeyStatus \<Rightarrow> CredentialInventoryEntry list \<Rightarrow> nat" where
  "countStatus s keys = length (filter (\<lambda>e. ce_status e = s) keys)"

definition credentialInventoryFromDb ::
  "millis \<Rightarrow> js_number option \<Rightarrow> bool \<Rightarrow> KeyScope option \<Rightarrow> KeyDb \<Rightarrow> KsError + CredentialInventoryReport" where
  "credentialInventoryFromDb now staleAfter includeRevoked scope db =
     (if badParam staleAfter then Inl (ErrInvalidParam ''staleAfterDays'')
      else
        let staleAfterDays = orInt staleAfter 30;
            keys = inventoryKeys now (now - staleAfterDays * 24 * 60 * 60 * 1000) includeRevoked scope db
        in Inr \<lparr>rp_generatedAt = now, rp_staleAfterDays = staleAfterDays, rp_total = length keys,
                rp_active = countStatus ActiveKey keys, rp_expired = countStatus ExpiredStatus keys,
                rp_revoked = countStatus RevokedStatus keys,
                rp_findings = map (\<lambda>f. (f, length (filter (\<lambda>e. f \<in> set (ce_findings e)) keys))) findingNames,
                rp_keys = keys\<rparr>)"

section \<open>The worksheet\<close>

datatype SuggestedAction = Keep | KeepExpiry | Narrow | Retire | Rotate | NoAction

record CredentialPlanEntry =
  cp_alias :: string
  cp_tier :: Tier
  cp_scope :: KeyScope
  cp_createdAt :: millis
  cp_lastUsedAt :: "millis option"
  cp_expiresAt :: "millis option"
  cp_status :: KeyStatus
  cp_findings :: "CredentialFinding list"
  cp_suggestedAction :: SuggestedAction
  cp_reason :: string
  cp_maxExpiresInSeconds :: seconds

fun statusName :: "KeyStatus \<Rightarrow> string" where
  "statusName ActiveKey = ''active''"
| "statusName ExpiredStatus = ''expired''"
| "statusName RevokedStatus = ''revoked''"

definition suggest ::
  "millis \<Rightarrow> int \<Rightarrow> CredentialInventoryEntry \<Rightarrow> SuggestedAction \<times> string" where
  "suggest nowMs staleAfterDays e =
     (let key = ce_key e;
          staleMs = staleAfterDays * 24 * 60 * 60 * 1000;
          cap = MAX_KEY_LIFETIME_SECONDS (pk_scope key);
          capDays = cap div 86400;
          unused = UnusedKey \<in> set (ce_findings e);
          stale = StaleKey \<in> set (ce_findings e);
          recentlyCreatedUnused = (unused \<and> nowMs - pk_createdAt key < staleMs)
      in if ce_status e \<noteq> ActiveKey then (NoAction, ''already '' @ statusName (ce_status e))
         else if \<not> recentlyCreatedUnused \<and> (unused \<or> stale)
         then (Retire, if unused then ''never used by the running gateway''
                       else ''no use within '' @ dec_int staleAfterDays @ '' days'')
         else if pk_scope key = ScAdmin \<and> pk_expiresAt key = None
         then (Rotate, ''active admin with no expiry; stage a bounded replacement (narrower scope if the consumer allows)'')
         else if pk_scope key = ScAdmin
         then (Narrow, ''active admin; narrow with `keys restrict` unless the consumer needs /admin routes'')
         else if recentlyCreatedUnused
         then (if pk_expiresAt key = None then KeepExpiry else Keep,
               ''created recently and not yet used; confirm the consumer, then decide'')
         else case pk_expiresAt key of
                None \<Rightarrow> (KeepExpiry, ''active without expiry; set one of at most '' @ dec_int capDays @ '' days (''
                                 @ scopeName (pk_scope key) @ '' cap) with `keys restrict`'')
              | Some ex \<Rightarrow>
                  if ex - nowMs > cap * 1000
                  then (KeepExpiry, ''expiry is beyond the '' @ dec_int capDays @ ''-day '' @ scopeName (pk_scope key)
                                    @ '' cap; shorten it with `keys restrict`'')
                  else (Keep, ''bounded and in use''))"

definition buildCredentialPlan :: "CredentialInventoryReport \<Rightarrow> CredentialPlanEntry list" where
  "buildCredentialPlan report =
     map (\<lambda>e. let key = ce_key e; (action, reason) = suggest (rp_generatedAt report) (rp_staleAfterDays report) e
               in \<lparr>cp_alias = pk_alias key, cp_tier = pk_tier key, cp_scope = pk_scope key, cp_createdAt = pk_createdAt key,
                   cp_lastUsedAt = pk_lastUsedAt key, cp_expiresAt = pk_expiresAt key, cp_status = ce_status e,
                   cp_findings = ce_findings e, cp_suggestedAction = action, cp_reason = reason,
                   cp_maxExpiresInSeconds = MAX_KEY_LIFETIME_SECONDS (pk_scope key)\<rparr>) (rp_keys report)"

section \<open>Properties\<close>

lemma findKey_unique: "uniqueAliases db \<Longrightarrow> r \<in> set (api_keys db) \<Longrightarrow> findKey (k_alias r) db = Some r"
proof -
  assume u: "uniqueAliases db" and r: "r \<in> set (api_keys db)"
  then obtain s where "findKey (k_alias r) db = Some s"
    by (cases "findKey (k_alias r) db") (auto simp: findKey_def find_None_iff)
  then show ?thesis using findKey_Some unique_alias_row [OF u r] by metis
qed

lemma inventory_entry:
  assumes "credentialInventoryFromDb now stale incl scope db = Inr report" "e \<in> set (rp_keys report)"
  shows "\<exists>r \<in> set (api_keys db). ce_key e = toPublic r \<and> ce_status e = keyStatus now r"
proof -
  have "\<exists>c. rp_keys report = inventoryKeys now c incl scope db"
    using assms(1) by (auto simp: credentialInventoryFromDb_def Let_def split: if_splits)
  then obtain c where "e \<in> set (inventoryKeys now c incl scope db)" using assms(2) by auto
  then have "e \<in> (\<lambda>r. \<lparr>ce_key = toPublic r, ce_status = keyStatus now r, ce_findings = keyFindings now c r\<rparr>) ` set (api_keys db)"
    by (auto simp: inventoryKeys_def Let_def split: if_splits)
  then show ?thesis by (rule imageE) (rule bexI, simp)
qed

lemma lifetime_range: "0 < MAX_KEY_LIFETIME_SECONDS s \<and> MAX_KEY_LIFETIME_SECONDS s \<le> max_safe_integer"
  by (cases s) (simp_all add: max_safe_integer_def)

text \<open>The compare-and-set of \<open>restrictKey\<close> hits exactly the row it read.\<close>

lemma restrict_hits_one:
  assumes u: "uniqueAliases db" and r: "r \<in> set (api_keys db)" "k_revoked_at r = None"
  shows "length (filter (\<lambda>x. k_alias x = k_alias r \<and> k_revoked_at x = None \<and> k_scope x = k_scope r
      \<and> k_expires_at x = k_expires_at r) (api_keys db)) = 1"
proof -
  have "filter (\<lambda>x. k_alias x = k_alias r \<and> k_revoked_at x = None \<and> k_scope x = k_scope r \<and> k_expires_at x = k_expires_at r) (api_keys db)
      = filter (\<lambda>x. x = r) (api_keys db)"
    using unique_alias_row [OF u] r by (intro filter_cong) auto
  moreover have "distinct (api_keys db)" using u by (simp add: uniqueAliases_def distinct_map)
  ultimately show ?thesis using r(1) by (simp add: distinct_length_filter Int_absorb1 conj_commute)
qed

lemma restrict_succeeds:
  assumes u: "uniqueAliases db" and r: "r \<in> set (api_keys db)" "activeAt now r" "\<not> inStagedPlan r db"
    and "s \<noteq> None \<or> x \<noteq> None" "\<And>n. x = Some n \<Longrightarrow> isSafeInteger n \<and> 0 < the_int n"
    and new: "restrictScope s r = Inr s'" "restrictExpiry x s' now r = Inr ex" "s' \<noteq> rowScope r \<or> ex \<noteq> k_expires_at r"
  shows "\<exists>res db'. restrictKey (k_alias r) s x False now db = (Inr res, db') \<and> rr_afterExpiresAt res = ex \<and> rr_afterScope res = s'"
proof -
  have "\<not> (case x of None \<Rightarrow> False | Some n \<Rightarrow> \<not> isSafeInteger n \<or> the_int n \<le> 0)"
    using assms(6) by (auto split: option.splits)
  then show ?thesis
    using new r assms(5) restrict_hits_one [OF u r(1)] findKey_unique [OF u r(1)]
    by (auto simp: restrictKey_def activeAt_def Let_def)
qed

text \<open>The worksheet's advice can be followed. For a key that no staged rotation holds: where it suggests to set an expiry, \<open>keys restrict\<close> with the printed maximum
  succeeds and gives that expiry; where it suggests to narrow, a restriction to each of the four other
  scopes succeeds; and where it suggests an action at all the key is active.\<close>

lemma worksheet_actionable:
  assumes u: "uniqueAliases db" and inventory: "credentialInventoryFromDb now stale incl scope db = Inr report"
    and plan: "e \<in> set (buildCredentialPlan report)"
    and free: "\<And>r. findKey (cp_alias e) db = Some r \<Longrightarrow> \<not> inStagedPlan r db"
  shows "(cp_suggestedAction e = KeepExpiry \<longrightarrow>
      (\<exists>res db'. restrictKey (cp_alias e) None (Some (js_int (cp_maxExpiresInSeconds e))) False now db = (Inr res, db')
        \<and> rr_afterExpiresAt res = Some (now + cp_maxExpiresInSeconds e * 1000)))
    \<and> (cp_suggestedAction e = Narrow \<longrightarrow> (\<forall>s. s \<noteq> ScAdmin \<longrightarrow>
      (\<exists>res db'. restrictKey (cp_alias e) (Some s) None False now db = (Inr res, db') \<and> rr_afterScope res = s)))
    \<and> (cp_suggestedAction e \<noteq> NoAction \<longrightarrow> (\<exists>r. findKey (cp_alias e) db = Some r \<and> activeAt now r))"
proof -
  have at: "rp_generatedAt report = now" using inventory by (auto simp: credentialInventoryFromDb_def Let_def split: if_splits)
  obtain en where en: "en \<in> set (rp_keys report)"
      "cp_alias e = pk_alias (ce_key en)" "cp_maxExpiresInSeconds e = MAX_KEY_LIFETIME_SECONDS (pk_scope (ce_key en))"
      "cp_suggestedAction e = fst (suggest now (rp_staleAfterDays report) en)"
    using plan at by (auto simp: buildCredentialPlan_def Let_def case_prod_unfold)
  obtain r where r: "r \<in> set (api_keys db)" "ce_key en = toPublic r" "ce_status en = keyStatus now r"
    using inventory_entry [OF inventory en(1)] by blast
  have e: "cp_alias e = k_alias r" "cp_maxExpiresInSeconds e = MAX_KEY_LIFETIME_SECONDS (rowScope r)"
    using en(2,3) r(2) by (simp_all add: toPublic_def)
  have found: "findKey (cp_alias e) db = Some r" using findKey_unique [OF u r(1)] e by simp
  have active: "activeAt now r" if "cp_suggestedAction e \<noteq> NoAction"
    using that en(4) r(3) by (auto simp: suggest_def Let_def keyStatus_def activeAt_def split: if_splits)
  let ?cap = "MAX_KEY_LIFETIME_SECONDS (rowScope r)"
  have expiry: "k_expires_at r = None \<or> (\<exists>ex. k_expires_at r = Some ex \<and> ex - now > ?cap * 1000)"
    if "cp_suggestedAction e = KeepExpiry"
    using that en(4) r(2) by (auto simp: suggest_def Let_def toPublic_def split: if_splits option.splits)
  have admin: "rowScope r = ScAdmin" if "cp_suggestedAction e = Narrow"
    using that en(4) r(2) by (auto simp: suggest_def Let_def toPublic_def split: if_splits option.splits)
  have "\<exists>res db'. restrictKey (k_alias r) None (Some (js_int ?cap)) False now db = (Inr res, db')
      \<and> rr_afterExpiresAt res = Some (now + ?cap * 1000) \<and> rr_afterScope res = rowScope r" if "cp_suggestedAction e = KeepExpiry"
    by (rule restrict_succeeds [OF u r(1)])
      (use that active expiry lifetime_range [of "rowScope r"] free [OF found] in \<open>auto simp: restrictScope_def restrictExpiry_def\<close>)
  moreover have "\<exists>res db'. restrictKey (k_alias r) (Some s) None False now db = (Inr res, db')
      \<and> rr_afterExpiresAt res = k_expires_at r \<and> rr_afterScope res = s" if "cp_suggestedAction e = Narrow" "s \<noteq> ScAdmin" for s
  proof (rule restrict_succeeds [OF u r(1)])
    have "k_tier r = OwnerTier" using admin [OF that(1)] guest_rowScope [of r] by (cases "k_tier r") auto
    then show "restrictScope (Some s) r = Inr s"
      using admin [OF that(1)] that(2) by (cases s) (auto simp: restrictScope_def isScopeNarrowing_def)
  qed (use that active admin free [OF found] in \<open>auto simp: restrictExpiry_def\<close>)
  ultimately show ?thesis unfolding e using found [unfolded e(1)] active by blast
qed

text \<open>A key of a store from before expiries were set.\<close>

definition legacyDb :: KeyDb where
  "legacyDb = demoDb\<lparr>api_keys := map (\<lambda>r. r\<lparr>k_expires_at := None\<rparr>) (api_keys demoDb)\<rparr>"

lemma worksheet_actionable_witness:
  "\<exists>res db'. restrictKey ''ci'' None (Some (js_int 7776000)) False 100 legacyDb = (Inr res, db')
     \<and> rr_afterExpiresAt res = Some 7776000100"
proof -
  let ?rep = "credentialInventoryFromDb 100 None False None legacyDb"
  let ?e = "hd (buildCredentialPlan (projr ?rep))"
  have ok: "\<not> isl ?rep" "buildCredentialPlan (projr ?rep) \<noteq> []" "uniqueAliases legacyDb" by code_simp+
  have e: "cp_alias ?e = ''ci''" "cp_suggestedAction ?e = KeepExpiry" "cp_maxExpiresInSeconds ?e = 7776000"
    "\<not> inStagedPlan (the (findKey ''ci'' legacyDb)) legacyDb" by code_simp+
  have rep: "?rep = Inr (projr ?rep)" using ok(1) by (cases ?rep) simp_all
  have mem: "?e \<in> set (buildCredentialPlan (projr ?rep))" using ok(2) by simp
  have free: "\<not> inStagedPlan r legacyDb" if "findKey (cp_alias ?e) legacyDb = Some r" for r
    using that e(1,4) by simp
  from worksheet_actionable [OF ok(3) rep mem free] e(1-3) show ?thesis by simp
qed

end
