(* ===== verification/Gateway_Auth.thy ===== *)
theory Gateway_Auth
  imports Keystore_Spec Quota
begin

text \<open>
  Who may call what: the principal of a request and the authorization of every route, from
  \<open>src/homeserver/gateway.ts\<close> (\<open>resolvePrincipal\<close> and the dispatch of \<open>handleRequest\<close>). A request is its
  method, the pathname of its URL, its \<open>Authorization\<close> header and its \<open>X-Content-Capture\<close> header.
  What a handler does once it is reached (reading the body, throttling, metering) is not part of this theory.
\<close>

section \<open>Principals\<close>

record AuthConfig =
  ac_adminApiKeys :: "string list"
  ac_apiKeys :: "string list"
  ac_monitorApiKeys :: "string list"
  ac_disableAdmin :: bool
  ac_disableUser :: bool
  ac_disableMonitor :: bool
  ac_keyDefaults :: KeyDefaults

record PrincipalContext =
  pc_alias :: string
  pc_logicalAlias :: string
  pc_tier :: Tier
  pc_scope :: KeyScope
  pc_isAdmin :: bool
  pc_isMonitor :: bool
  pc_modelAllowList :: "string list"
  pc_systemOneModelAllowList :: "string list"
  pc_embeddingModelAllowList :: "string list"
  pc_limits :: QuotaLimits
  pc_maxParallel :: int
  pc_keyHash :: "string option"
  pc_creditLimit :: int
  pc_creditsUsed :: int

definition keyMatches :: "(string \<Rightarrow> string) \<Rightarrow> string \<Rightarrow> string list \<Rightarrow> bool" where
  "keyMatches hash provided keys = list_ex (\<lambda>k. hash provided = hash k) keys"

text \<open>
  \<open>/^Bearer\s+(.+)$/i\<close> and \<open>trim\<close>. A header value has no line breaks. After the first white space anything
  that is not empty matches, since \<open>\s+\<close> gives back what \<open>.+\<close> needs.
\<close>

definition bearerToken :: "string option \<Rightarrow> string option" where
  "bearerToken header =
     (case header of
        None \<Rightarrow> None
      | Some h \<Rightarrow>
          if to_lower (take 6 h) = ''bearer'' \<and> length h > 7 \<and> is_space (h ! 6) then Some (js_trim (drop 7 h)) else None)"

definition keyLimits :: "KeyDefaults \<Rightarrow> QuotaLimits" where
  "keyLimits d = \<lparr>rpm = df_rpm d, tpm = df_tpm d, dailyTokenBudget = df_dailyTokenBudget d\<rparr>"

definition storePrincipal :: "KeyRow \<Rightarrow> PrincipalContext" where
  "storePrincipal rec =
     \<lparr>pc_alias = k_alias rec, pc_logicalAlias = familyOf rec, pc_tier = k_tier rec, pc_scope = rowScope rec,
      pc_isAdmin = (rowScope rec = ScAdmin), pc_isMonitor = (rowScope rec = ScMonitor),
      pc_modelAllowList = k_model_allow_list rec, pc_systemOneModelAllowList = k_system_one_model_allow_list rec,
      pc_embeddingModelAllowList = k_embedding_model_allow_list rec,
      pc_limits = \<lparr>rpm = k_rpm rec, tpm = k_tpm rec, dailyTokenBudget = k_daily_token_budget rec\<rparr>,
      pc_maxParallel = k_max_parallel rec, pc_keyHash = Some (k_key_hash rec),
      pc_creditLimit = k_credit_limit rec, pc_creditsUsed = k_credits_used rec\<rparr>"

definition staticPrincipal :: "string \<Rightarrow> Tier \<Rightarrow> KeyScope \<Rightarrow> bool \<Rightarrow> bool \<Rightarrow> KeyDefaults \<Rightarrow> PrincipalContext" where
  "staticPrincipal alias tier scope admin monitor d =
     \<lparr>pc_alias = alias, pc_logicalAlias = alias, pc_tier = tier, pc_scope = scope, pc_isAdmin = admin, pc_isMonitor = monitor,
      pc_modelAllowList = [], pc_systemOneModelAllowList = [], pc_embeddingModelAllowList = [], pc_limits = keyLimits d,
      pc_maxParallel = df_maxParallel d, pc_keyHash = None, pc_creditLimit = 0, pc_creditsUsed = 0\<rparr>"

definition staticResolve :: "(string \<Rightarrow> string) \<Rightarrow> AuthConfig \<Rightarrow> string \<Rightarrow> PrincipalContext option" where
  "staticResolve hash cfg token =
     (let matchAdmin = keyMatches hash token (ac_adminApiKeys cfg);
          matchUser = keyMatches hash token (ac_apiKeys cfg);
          matchMonitor = keyMatches hash token (ac_monitorApiKeys cfg)
      in if matchAdmin \<and> ac_disableAdmin cfg \<or> matchUser \<and> ac_disableUser cfg \<or> matchMonitor \<and> ac_disableMonitor cfg
         then None
         else if matchAdmin then Some (staticPrincipal ''static:admin'' OwnerTier ScAdmin True False (ac_keyDefaults cfg))
         else if matchUser then Some (staticPrincipal ''static:user'' GuestTier ScInference False False (ac_keyDefaults cfg))
         else if matchMonitor then Some (staticPrincipal ''static:monitor'' GuestTier ScInference False True (ac_keyDefaults cfg))
         else None)"

definition resolvePrincipal ::
  "(string \<Rightarrow> string) \<Rightarrow> AuthConfig \<Rightarrow> string option \<Rightarrow> millis \<Rightarrow> KeyDb \<Rightarrow> PrincipalContext option" where
  "resolvePrincipal hash cfg header now db =
     (case bearerToken header of
        None \<Rightarrow> None
      | Some token \<Rightarrow>
          if token = [] then None
          else case lookupKey hash token now db of
                 Some rec \<Rightarrow> Some (storePrincipal rec)
               | None \<Rightarrow> staticResolve hash cfg token)"

section \<open>Grants of the principal\<close>

definition systemOneGranted :: "PrincipalContext \<Rightarrow> string \<Rightarrow> bool" where
  "systemOneGranted p modelId \<longleftrightarrow>
     modelId \<in> set (pc_systemOneModelAllowList p) \<or> modelId \<in> set (pc_modelAllowList p)
     \<or> pc_tier p = OwnerTier \<and> pc_modelAllowList p = []"

definition embeddingGranted :: "PrincipalContext \<Rightarrow> string \<Rightarrow> bool" where
  "embeddingGranted p modelId \<longleftrightarrow>
     modelId \<in> set (pc_embeddingModelAllowList p) \<or> modelId \<in> set (pc_modelAllowList p)
     \<or> pc_tier p = OwnerTier \<and> pc_modelAllowList p = []"

definition EMBEDDING_MODEL_ID :: string where
  "EMBEDDING_MODEL_ID = ''embeddinggemma-2''"

definition isCodeLoopOwner :: "PrincipalContext \<Rightarrow> bool" where
  "isCodeLoopOwner p \<longleftrightarrow> pc_tier p = OwnerTier \<and> pc_keyHash p \<noteq> None \<and> (pc_scope p = ScAdmin \<or> pc_scope p = ScAgent)"

definition executionFeedbackOwner :: "PrincipalContext \<Rightarrow> (string \<times> string) option" where
  "executionFeedbackOwner p =
     (case pc_keyHash p of
        None \<Rightarrow> None
      | Some h \<Rightarrow>
          if pc_tier p = OwnerTier \<and> (pc_scope p = ScAgent \<or> pc_scope p = ScAdmin) \<and> js_trim h \<noteq> [] \<and> js_trim (pc_alias p) \<noteq> []
          then Some (h, pc_alias p) else None)"

definition reviewerUsefulnessAvailable :: "PrincipalContext \<Rightarrow> bool" where
  "reviewerUsefulnessAvailable p \<longleftrightarrow>
     pc_tier p = OwnerTier \<and> pc_scope p = ScAdmin \<and> pc_keyHash p \<noteq> None \<and> js_trim (pc_logicalAlias p) \<noteq> []"

text \<open>A minted owner-admin key, the test of the operator's privacy-sensitive routes.\<close>

definition mintedOwnerAdmin :: "PrincipalContext \<Rightarrow> bool" where
  "mintedOwnerAdmin p \<longleftrightarrow> pc_isAdmin p \<and> pc_tier p = OwnerTier \<and> pc_keyHash p \<noteq> None"

section \<open>Routes\<close>

text \<open>
  \<open>decodeURIComponent\<close> throws when an escape is malformed: a percent sign without two hexadecimal digits,
  or bytes that are not one well-formed UTF-8 sequence.
\<close>

definition hexVal :: "char \<Rightarrow> nat option" where
  "hexVal c =
     (let n = of_char c :: nat
      in if 48 \<le> n \<and> n \<le> 57 then Some (n - 48) else if 65 \<le> n \<and> n \<le> 70 then Some (n - 55)
         else if 97 \<le> n \<and> n \<le> 102 then Some (n - 87) else None)"

definition percentByte :: "string \<Rightarrow> nat option" where
  "percentByte s =
     (case s of
        c # h # l # _ \<Rightarrow>
          if c = CHR ''%'' then (case (hexVal h, hexVal l) of (Some a, Some b) \<Rightarrow> Some (16 * a + b) | _ \<Rightarrow> None) else None
      | _ \<Rightarrow> None)"

definition utf8Length :: "nat \<Rightarrow> nat" where
  "utf8Length b = (if b < 128 then 1 else if 192 \<le> b \<and> b < 224 then 2 else if 224 \<le> b \<and> b < 240 then 3
                   else if 240 \<le> b \<and> b < 248 then 4 else 0)"

fun continuation :: "nat \<Rightarrow> nat \<Rightarrow> string \<Rightarrow> nat option" where
  "continuation 0 v s = Some v"
| "continuation (Suc k) v s =
     (case percentByte s of
        Some b \<Rightarrow> if 128 \<le> b \<and> b < 192 then continuation k (64 * v + (b - 128)) (drop 3 s) else None
      | None \<Rightarrow> None)"

definition utf8Valid :: "nat \<Rightarrow> nat \<Rightarrow> bool" where
  "utf8Valid n v \<longleftrightarrow>
     (if n = 1 then True else if n = 2 then 128 \<le> v
      else if n = 3 then 2048 \<le> v \<and> \<not> (55296 \<le> v \<and> v \<le> 57343) else 65536 \<le> v \<and> v \<le> 1114111)"

definition leadBits :: "nat \<Rightarrow> nat \<Rightarrow> nat" where
  "leadBits n b = (if n = 1 then b else if n = 2 then b - 192 else if n = 3 then b - 224 else b - 240)"

function decodable :: "string \<Rightarrow> bool" where
  "decodable [] = True"
| "decodable (c # s) =
     (if c \<noteq> CHR ''%'' then decodable s
      else case percentByte (c # s) of
             None \<Rightarrow> False
           | Some b \<Rightarrow>
               let n = utf8Length b
               in if n = 0 then False
                  else case continuation (n - 1) (leadBits n b) (drop 3 (c # s)) of
                         None \<Rightarrow> False
                       | Some v \<Rightarrow> utf8Valid n v \<and> decodable (drop (3 * n) (c # s)))"
  by pat_completeness auto
termination
  by (relation "measure length") auto

datatype Route =
    Healthz | Portal | ModelEvals | Redeem | Stats | Feedback | HsCli
  | RosterSubmit | RosterRead | LearningPreflight | ReviewLane
  | ExposureLookup | ExposureReceipts | ExposureHeartbeat | ExperimentImport | RoutingReload
  | Mcp | SystemOne | Embeddings | Chat | Audio | Images | ImageJobGet | ImageJobCancel | ImageJobOther | Delegate
  | PortalMe | Models | Residency | V1Models | Ledger | Incidents | OpsSummary | LedgerRow
  | ExecutionFeedback | ReviewerUsefulness | Metrics
  | AdminLoad | AdminUnload | AdminDownload | KeysMint | CreditsTopUp | SystemOneGrant | EmbeddingGrant | ChatGrant
  | KeysList | KeyRevoke | WindowStatus | WindowChange | MaintenanceStatus | MaintenanceChange

text \<open>The routes that are dispatched before the credential is required, in the order of the code.\<close>

definition publicRoute :: "string \<Rightarrow> string \<Rightarrow> Route option" where
  "publicRoute method path =
     (if (path = ''/portal'' \<or> path = ''/'') \<and> method = ''GET'' then Some Portal
      else if path = ''/portal/model-evals.json'' \<and> method = ''GET'' then Some ModelEvals
      else if path = ''/portal/redeem'' \<and> method = ''POST'' then Some Redeem
      else if path = ''/portal/stats'' \<and> method = ''GET'' then Some Stats
      else if path = ''/portal/feedback'' \<and> method = ''POST'' then Some Feedback
      else if (path = ''/hs'' \<or> path = ''/client/hs.mjs'') \<and> method = ''GET'' then Some HsCli
      else None)"

text \<open>A path with exactly one more segment: \<open>/^<prefix>[^/]+$/\<close>.\<close>

definition oneSegment :: "string \<Rightarrow> string \<Rightarrow> bool" where
  "oneSegment prefix path \<longleftrightarrow>
     starts_with prefix path \<and> drop (length prefix) path \<noteq> [] \<and> CHR ''/'' \<notin> set (drop (length prefix) path)"

definition jobPrefix :: string where
  "jobPrefix = ''/v1/images/generations/jobs/''"

definition protectedRoute :: "string \<Rightarrow> string \<Rightarrow> Route option" where
  "protectedRoute method path =
     (if path = ''/v1/roster-proposals'' \<and> method = ''POST'' then Some RosterSubmit
      else if starts_with ''/v1/roster-proposals/'' path \<and> method = ''GET'' then Some RosterRead
      else if path = ''/v1/capabilities/learning-task'' \<and> method = ''GET'' then Some LearningPreflight
      else if path = ''/v1/capabilities/review-lane'' \<and> method = ''GET'' then Some ReviewLane
      else if path = ''/admin/task-exposures/lookup'' \<and> method = ''POST'' then Some ExposureLookup
      else if path = ''/admin/exposure-receipts'' \<and> method = ''POST'' then Some ExposureReceipts
      else if path = ''/admin/exposure-receipts/heartbeat'' \<and> method = ''POST'' then Some ExposureHeartbeat
      else if path = ''/admin/experiments/import'' \<and> method = ''POST'' then Some ExperimentImport
      else if path = ''/admin/routing-table/reload'' \<and> method = ''POST'' then Some RoutingReload
      else if path = ''/mcp'' \<and> method = ''POST'' then Some Mcp
      else if path = ''/v1/systemone'' \<and> method = ''POST'' then Some SystemOne
      else if path = ''/v1/embeddings'' \<and> method = ''POST'' then Some Embeddings
      else if path = ''/v1/chat/completions'' \<and> method = ''POST'' then Some Chat
      else if path = ''/v1/audio/transcriptions'' \<and> method = ''POST'' then Some Audio
      else if path = ''/v1/images/generations'' \<and> method = ''POST'' then Some Images
      else if oneSegment jobPrefix path
      then Some (if method = ''GET'' then ImageJobGet else if method = ''DELETE'' then ImageJobCancel else ImageJobOther)
      else if path = ''/delegate'' \<and> method = ''POST'' then Some Delegate
      else if path = ''/portal/me'' \<and> method = ''GET'' then Some PortalMe
      else if path = ''/models'' \<and> method = ''GET'' then Some Models
      else if path = ''/models/residency'' \<and> method = ''GET'' then Some Residency
      else if path = ''/v1/models'' \<and> method = ''GET'' then Some V1Models
      else if path = ''/ledger'' \<and> method = ''GET'' then Some Ledger
      else if path = ''/ops/incidents'' \<and> method = ''GET'' then Some Incidents
      else if path = ''/ops/summary'' \<and> method = ''GET'' then Some OpsSummary
      else if starts_with ''/ledger/'' path \<and> method = ''GET'' then Some LedgerRow
      else if method = ''PUT'' \<and> starts_with ''/execution-feedback/'' path then Some ExecutionFeedback
      else if method = ''PUT'' \<and> starts_with ''/ledger/'' path \<and> ends_with ''/reviewer-usefulness'' path then Some ReviewerUsefulness
      else if path = ''/metrics'' \<and> method = ''GET'' then Some Metrics
      else if path = ''/admin/models/load'' \<and> method = ''POST'' then Some AdminLoad
      else if path = ''/admin/models/unload'' \<and> method = ''POST'' then Some AdminUnload
      else if path = ''/admin/models/download'' \<and> method = ''POST'' then Some AdminDownload
      else if path = ''/admin/keys'' \<and> method = ''POST'' then Some KeysMint
      else if path = ''/admin/keys/credits/topup'' \<and> method = ''POST'' then Some CreditsTopUp
      else if path = ''/admin/keys/systemone-grants'' \<and> method = ''POST'' then Some SystemOneGrant
      else if path = ''/admin/keys/embedding-grants'' \<and> method = ''POST'' then Some EmbeddingGrant
      else if path = ''/admin/keys/chat-grants'' \<and> method = ''POST'' then Some ChatGrant
      else if path = ''/admin/keys'' \<and> method = ''GET'' then Some KeysList
      else if starts_with ''/admin/keys/'' path \<and> method = ''DELETE'' then Some KeyRevoke
      else if path = ''/admin/maintenance/window'' \<and> method = ''GET'' then Some WindowStatus
      else if path = ''/admin/maintenance/window'' \<and> method = ''POST'' then Some WindowChange
      else if path = ''/admin/maintenance'' \<and> method = ''GET'' then Some MaintenanceStatus
      else if path = ''/admin/maintenance'' \<and> method = ''POST'' then Some MaintenanceChange
      else None)"

definition ROSTER_PROPOSAL_PRINCIPAL :: string where
  "ROSTER_PROPOSAL_PRINCIPAL = ''service:hugin''"

text \<open>The test at the head of each handler; \<open>requireAdmin\<close> is \<open>pc_isAdmin\<close>.\<close>

definition routeAllowed :: "PrincipalContext \<Rightarrow> Route \<Rightarrow> bool" where
  "routeAllowed p r =
     (case r of
        RosterSubmit \<Rightarrow> pc_logicalAlias p = ROSTER_PROPOSAL_PRINCIPAL \<and> pc_tier p = OwnerTier \<and> pc_keyHash p \<noteq> None
      | ExposureLookup \<Rightarrow> mintedOwnerAdmin p
      | ExposureReceipts \<Rightarrow> mintedOwnerAdmin p
      | ExposureHeartbeat \<Rightarrow> mintedOwnerAdmin p
      | Incidents \<Rightarrow> mintedOwnerAdmin p
      | Embeddings \<Rightarrow> embeddingGranted p EMBEDDING_MODEL_ID
      | Delegate \<Rightarrow> pc_tier p = OwnerTier \<and> pc_isAdmin p
      | Residency \<Rightarrow> pc_isAdmin p \<or> pc_isMonitor p
      | Ledger \<Rightarrow> pc_isAdmin p \<or> pc_isMonitor p
      | OpsSummary \<Rightarrow> pc_isAdmin p \<or> pc_isMonitor p
      | LedgerRow \<Rightarrow> pc_isAdmin p \<or> pc_isMonitor p
      | ExecutionFeedback \<Rightarrow> executionFeedbackOwner p \<noteq> None
      | ReviewerUsefulness \<Rightarrow> reviewerUsefulnessAvailable p
      | ExperimentImport \<Rightarrow> pc_isAdmin p
      | RoutingReload \<Rightarrow> pc_isAdmin p
      | AdminLoad \<Rightarrow> pc_isAdmin p
      | AdminUnload \<Rightarrow> pc_isAdmin p
      | AdminDownload \<Rightarrow> pc_isAdmin p
      | KeysMint \<Rightarrow> pc_isAdmin p
      | CreditsTopUp \<Rightarrow> pc_isAdmin p
      | SystemOneGrant \<Rightarrow> pc_isAdmin p
      | EmbeddingGrant \<Rightarrow> pc_isAdmin p
      | ChatGrant \<Rightarrow> pc_isAdmin p
      | KeysList \<Rightarrow> pc_isAdmin p
      | KeyRevoke \<Rightarrow> pc_isAdmin p
      | WindowStatus \<Rightarrow> pc_isAdmin p
      | WindowChange \<Rightarrow> pc_isAdmin p
      | MaintenanceStatus \<Rightarrow> pc_isAdmin p
      | MaintenanceChange \<Rightarrow> pc_isAdmin p
      | _ \<Rightarrow> True)"


text \<open>The raw path segment a handler decodes, before it does anything else.\<close>

definition rawSegment :: "Route \<Rightarrow> string \<Rightarrow> string option" where
  "rawSegment r path =
     (case r of
        RosterRead \<Rightarrow> Some (drop (length ''/v1/roster-proposals/'') path)
      | ImageJobGet \<Rightarrow> Some (drop (length jobPrefix) path)
      | ImageJobCancel \<Rightarrow> Some (drop (length jobPrefix) path)
      | ImageJobOther \<Rightarrow> Some (drop (length jobPrefix) path)
      | LedgerRow \<Rightarrow> Some (drop (length ''/ledger/'') path)
      | ReviewerUsefulness \<Rightarrow> Some (take (length path - length ''/reviewer-usefulness'' - length ''/ledger/'') (drop (length ''/ledger/'') path))
      | KeyRevoke \<Rightarrow> Some (drop (length ''/admin/keys/'') path)
      | _ \<Rightarrow> None)"

datatype Decision = Refused int string | Served Route

definition forbidden :: Decision where
  "forbidden = Refused 403 ''route_not_allowed''"

definition notFound :: Decision where
  "notFound = Refused 404 ''not_found''"

text \<open>A protected route for a principal, after the credential gate.\<close>

definition serveProtected :: "PrincipalContext \<Rightarrow> string \<Rightarrow> string \<Rightarrow> Decision" where
  "serveProtected p method path =
     (case protectedRoute method path of
        None \<Rightarrow> notFound
      | Some r \<Rightarrow>
          if \<not> routeAllowed p r
          then (if r = Embeddings then Refused 403 ''model_not_allowed'' else forbidden)
          else
            case rawSegment r path of
              None \<Rightarrow> Served r
            | Some seg \<Rightarrow>
                if r = ReviewerUsefulness \<and> (seg = [] \<or> CHR ''/'' \<in> set seg) then notFound
                else if \<not> decodable seg then Refused 400 ''invalid_request_error''
                else if r = ImageJobOther then notFound
                else Served r)"

section \<open>The gates before dispatch\<close>

definition monitorOk :: "string \<Rightarrow> string \<Rightarrow> bool" where
  "monitorOk method path \<longleftrightarrow>
     method = ''GET''
     \<and> (path = ''/ledger'' \<or> starts_with ''/ledger/'' path \<or> path = ''/healthz'' \<or> path = ''/metrics'' \<or> path = ''/models''
        \<or> path = ''/models/residency'' \<or> path = ''/ops/summary'')"

definition ASK_SCOPE_ROUTES :: "(string \<times> string) list" where
  "ASK_SCOPE_ROUTES = [(''POST'', ''/mcp''), (''GET'', ''/portal/me''), (''GET'', ''/v1/models''), (''GET'', ''/healthz'')]"

definition rosterOk :: "string \<Rightarrow> string \<Rightarrow> bool" where
  "rosterOk method path \<longleftrightarrow>
     method = ''POST'' \<and> path = ''/v1/roster-proposals''
     \<or> method = ''GET'' \<and> oneSegment ''/v1/roster-proposals/'' path"

definition gateAllows :: "PrincipalContext option \<Rightarrow> string \<Rightarrow> string \<Rightarrow> bool" where
  "gateAllows who method path =
     (case who of
        None \<Rightarrow> True
      | Some p \<Rightarrow>
          (pc_isMonitor p \<longrightarrow> monitorOk method path)
          \<and> (pc_scope p = ScAsk \<longrightarrow> (method, path) \<in> set ASK_SCOPE_ROUTES)
          \<and> (pc_logicalAlias p = ROSTER_PROPOSAL_PRINCIPAL \<longrightarrow> rosterOk method path))"

text \<open>
  \<open>parseContentCaptureHeader\<close> and the rules for an opted-out request: refused unless the route honours it and
  the keyed fingerprint is available, or the request only reads.
\<close>

definition captureRefused :: "string option \<Rightarrow> bool \<Rightarrow> string \<Rightarrow> string \<Rightarrow> bool" where
  "captureRefused header keyed method path =
     (case header of
        None \<Rightarrow> False
      | Some v \<Rightarrow>
          if to_lower (js_trim v) \<noteq> ''none'' then True
          else let honoured = (method = ''POST'' \<and> (path = ''/v1/chat/completions'' \<or> path = ''/mcp''));
                   contentFreeRead = (method = ''GET'' \<or> method = ''HEAD'' \<or> method = ''OPTIONS'')
               in honoured \<and> \<not> keyed \<or> \<not> honoured \<and> \<not> contentFreeRead)"

definition dispatch ::
  "PrincipalContext option \<Rightarrow> string option \<Rightarrow> bool \<Rightarrow> string \<Rightarrow> string \<Rightarrow> Decision" where
  "dispatch who capture keyed method path =
     (if \<not> gateAllows who method path then forbidden
      else if captureRefused capture keyed method path then Refused 400 ''invalid_request_error''
      else if path = ''/healthz'' \<and> method = ''GET'' then Served Healthz
      else if path = ''/mcp'' \<and> method = ''GET'' then Refused 405 ''method_not_allowed''
      else case publicRoute method path of
             Some r \<Rightarrow> Served r
           | None \<Rightarrow>
               (case who of
                  None \<Rightarrow> Refused 401 ''invalid_api_key''
                | Some p \<Rightarrow> serveProtected p method path))"

text \<open>
  The end of \<open>handleRequest\<close>: a use of the key is recorded when a minted principal reached a protected route
  and the response's status is a success or a redirect. \<open>status\<close> is what the handler of a served
  route answers.
\<close>

definition publicRoutes :: "Route list" where
  "publicRoutes = [Healthz, Portal, ModelEvals, Redeem, Stats, Feedback, HsCli]"

definition authenticatedRouteReached :: "PrincipalContext option \<Rightarrow> string option \<Rightarrow> bool \<Rightarrow> string \<Rightarrow> string \<Rightarrow> bool" where
  "authenticatedRouteReached who capture keyed method path \<longleftrightarrow>
     gateAllows who method path \<and> \<not> captureRefused capture keyed method path
     \<and> \<not> (path = ''/healthz'' \<and> method = ''GET'') \<and> \<not> (path = ''/mcp'' \<and> method = ''GET'')
     \<and> publicRoute method path = None \<and> who \<noteq> None"

definition recordUse ::
  "PrincipalContext option \<Rightarrow> string option \<Rightarrow> bool \<Rightarrow> string \<Rightarrow> string \<Rightarrow> (Route \<Rightarrow> int) \<Rightarrow> millis \<Rightarrow> KeyDb \<Rightarrow> KeyDb" where
  "recordUse who capture keyed method path status now db =
     (let code = (case dispatch who capture keyed method path of Refused n _ \<Rightarrow> n | Served r \<Rightarrow> status r)
      in case who of
           None \<Rightarrow> db
         | Some p \<Rightarrow>
             if authenticatedRouteReached who capture keyed method path \<and> pc_keyHash p \<noteq> None
                \<and> 200 \<le> code \<and> code < 400
             then snd (recordKeyUse (pc_alias p) now db) else db)"


section \<open>Authority of principals\<close>

text \<open>The same key with at most the authority: everything the authorization reads but the model grants.\<close>

definition authorityLe :: "PrincipalContext \<Rightarrow> PrincipalContext \<Rightarrow> bool" where
  "authorityLe p' p \<longleftrightarrow> pc_alias p' = pc_alias p \<and> pc_logicalAlias p' = pc_logicalAlias p \<and> pc_tier p' = pc_tier p
     \<and> pc_keyHash p' = pc_keyHash p \<and> scopeLe (pc_scope p') (pc_scope p)
     \<and> pc_isAdmin p' = (pc_scope p' = ScAdmin) \<and> pc_isMonitor p' = (pc_scope p' = ScMonitor)
     \<and> pc_isAdmin p = (pc_scope p = ScAdmin) \<and> pc_isMonitor p = (pc_scope p = ScMonitor)"

lemmas guard_defs = mintedOwnerAdmin_def executionFeedbackOwner_def reviewerUsefulnessAvailable_def

lemma routeAllowed_mono:
  assumes "authorityLe p' p" "routeAllowed p' r" "r = Embeddings \<Longrightarrow> embeddingGranted p EMBEDDING_MODEL_ID"
  shows "routeAllowed p r"
proof (cases "pc_scope p' = pc_scope p")
  case True
  then have "executionFeedbackOwner p' = executionFeedbackOwner p" "mintedOwnerAdmin p' = mintedOwnerAdmin p"
    "reviewerUsefulnessAvailable p' = reviewerUsefulnessAvailable p"
    using assms(1) by (auto simp: authorityLe_def guard_defs split: option.split)
  then show ?thesis using assms True by (cases r) (simp_all add: routeAllowed_def authorityLe_def)
next
  case False
  then have "pc_scope p = ScAdmin \<or> pc_scope p' = ScAsk \<or> pc_scope p' = ScInference"
    using assms(1) by (cases "pc_scope p") (auto simp: authorityLe_def scopeLe_def isScopeNarrowing_def)
  then show ?thesis using assms
    by (cases r) (auto simp: routeAllowed_def authorityLe_def guard_defs split: option.splits if_splits)
qed

lemma gateAllows_mono:
  assumes "authorityLe p' p" "gateAllows (Some p') m path"
  shows "gateAllows (Some p) m path"
proof (cases "pc_scope p' = pc_scope p")
  case False
  then have "pc_scope p \<noteq> ScAsk \<and> pc_scope p \<noteq> ScMonitor"
    using assms(1) by (auto simp: authorityLe_def scopeLe_def isScopeNarrowing_def)
  then show ?thesis using assms by (simp add: gateAllows_def authorityLe_def)
qed (use assms in \<open>simp add: gateAllows_def authorityLe_def\<close>)

lemma serveProtected_mono:
  assumes "authorityLe p' p" "serveProtected p' m path = Served r" "r = Embeddings \<Longrightarrow> embeddingGranted p EMBEDDING_MODEL_ID"
  shows "serveProtected p m path = Served r"
proof -
  obtain q where q: "protectedRoute m path = Some q" "routeAllowed p' q" "q = r"
    using assms(2)
    by (cases "protectedRoute m path") (auto simp: serveProtected_def notFound_def forbidden_def split: if_splits option.splits)
  then have "routeAllowed p q" using routeAllowed_mono [OF assms(1)] assms(3) by blast
  then show ?thesis using assms(2) q by (simp add: serveProtected_def)
qed

lemma dispatch_mono:
  assumes le: "authorityLe p' p" and served: "dispatch (Some p') cap keyed m path = Served r"
    and "r = Embeddings \<Longrightarrow> embeddingGranted p EMBEDDING_MODEL_ID"
  shows "dispatch (Some p) cap keyed m path = Served r"
proof -
  have gate: "gateAllows (Some p') m path" using served by (auto simp: dispatch_def forbidden_def split: if_splits)
  show ?thesis
    using served gate gateAllows_mono [OF le gate] serveProtected_mono [OF le _ assms(3)]
    by (auto simp: dispatch_def split: if_splits option.splits)
qed

lemma dispatch_embeddings:
  assumes served: "dispatch (Some p') cap keyed m path = Served Embeddings" and le: "authorityLe p' p"
    and no: "\<not> embeddingGranted p EMBEDDING_MODEL_ID"
  shows "embeddingGranted p' EMBEDDING_MODEL_ID \<and> dispatch (Some p) cap keyed m path = Refused 403 ''model_not_allowed''"
proof -
  have gate: "gateAllows (Some p') m path" using served by (auto simp: dispatch_def forbidden_def split: if_splits)
  have pub: "publicRoute m path \<noteq> Some Embeddings" by (simp add: publicRoute_def)
  have "serveProtected p' m path = Served Embeddings"
    using served pub gate by (auto simp: dispatch_def split: if_splits option.splits)
  then have route: "protectedRoute m path = Some Embeddings" "routeAllowed p' Embeddings"
    by (auto simp: serveProtected_def notFound_def forbidden_def split: if_splits option.splits)
  then have "serveProtected p m path = Refused 403 ''model_not_allowed''"
    using no by (simp add: serveProtected_def routeAllowed_def)
  then show ?thesis
    using served gate gateAllows_mono [OF le gate] pub route(2)
    by (auto simp: dispatch_def routeAllowed_def split: if_splits option.splits)
qed

lemma authorityLe_store:
  assumes "rowLe r r'"
  shows "authorityLe (storePrincipal r') (storePrincipal r)"
  using assms by (simp add: authorityLe_def storePrincipal_def rowLe_def familyOf_def split: option.split)

text \<open>A principal with another scope, as the keystore would give it.\<close>

definition withScope :: "KeyScope \<Rightarrow> PrincipalContext \<Rightarrow> PrincipalContext" where
  "withScope s p = p\<lparr>pc_scope := s, pc_isAdmin := (s = ScAdmin), pc_isMonitor := (s = ScMonitor)\<rparr>"

lemma withScope_le: "scopeLe s' s \<Longrightarrow> authorityLe (withScope s' p) (withScope s p)"
  by (simp add: authorityLe_def withScope_def)


section \<open>Which routes the gates leave\<close>

lemma ledger_prefix_route:
  assumes "starts_with ''/ledger/'' path" "protectedRoute ''GET'' path = Some r"
  shows "r = LedgerRow"
proof -
  obtain rest where "path = ''/ledger/'' @ rest" using assms(1) unfolding starts_with_def by (metis append_take_drop_id)
  then show ?thesis using assms(2) by (simp add: protectedRoute_def starts_with_def oneSegment_def jobPrefix_def)
qed

lemma roster_prefix_route:
  assumes "starts_with ''/v1/roster-proposals/'' path" "protectedRoute ''GET'' path = Some r"
  shows "r = RosterRead"
  using assms by (auto simp: protectedRoute_def starts_with_def split: if_splits)

lemma dispatch_served:
  assumes "dispatch who cap keyed m path = Served r"
  shows "gateAllows who m path"
    and "r = Healthz \<and> m = ''GET'' \<and> path = ''/healthz'' \<or> publicRoute m path = Some r
      \<or> publicRoute m path = None \<and> (\<exists>p. who = Some p \<and> protectedRoute m path = Some r \<and> routeAllowed p r)"
proof -
  show "gateAllows who m path" using assms by (auto simp: dispatch_def forbidden_def split: if_splits)
  have "protectedRoute m path = Some r \<and> routeAllowed p r" if "serveProtected p m path = Served r" for p
    using that
    by (cases "protectedRoute m path") (auto simp: serveProtected_def notFound_def forbidden_def split: if_splits option.splits)
  then show "r = Healthz \<and> m = ''GET'' \<and> path = ''/healthz'' \<or> publicRoute m path = Some r
      \<or> publicRoute m path = None \<and> (\<exists>p. who = Some p \<and> protectedRoute m path = Some r \<and> routeAllowed p r)"
    using assms by (auto simp: dispatch_def forbidden_def split: if_splits option.splits)
qed

lemma publicRoute_public: "publicRoute m path = Some r \<Longrightarrow> r \<in> set publicRoutes"
  by (auto simp: publicRoute_def publicRoutes_def split: if_splits)

lemma if_Some_cases: "(if c then Some a else x) = Some r \<Longrightarrow> r = a \<or> x = Some r"
  by (auto split: if_splits)

lemma protectedRoute_not_public: "protectedRoute m path = Some r \<Longrightarrow> r \<notin> set publicRoutes"
  unfolding protectedRoute_def
  by ((drule if_Some_cases, erule disjE, simp add: publicRoutes_def split: if_splits)+, simp)

lemma monitor_routes:
  assumes "monitorOk m path" "protectedRoute m path = Some r"
  shows "r \<in> {Ledger, LedgerRow, Metrics, Models, Residency, OpsSummary}"
proof (cases "starts_with ''/ledger/'' path")
  case True
  then show ?thesis using ledger_prefix_route assms by (auto simp: monitorOk_def)
next
  case False
  then have m: "m = ''GET''"
    and "path = ''/ledger'' \<or> path = ''/healthz'' \<or> path = ''/metrics'' \<or> path = ''/models'' \<or> path = ''/models/residency'' \<or> path = ''/ops/summary''"
    using assms(1) by (simp_all add: monitorOk_def)
  then show ?thesis using assms(2)
    by (elim disjE) (simp_all add: protectedRoute_def starts_with_def oneSegment_def jobPrefix_def)
qed

lemma monitor_not_public:
  assumes "monitorOk m path"
  shows "publicRoute m path = None"
proof (cases "starts_with ''/ledger/'' path")
  case True
  then obtain rest where "path = ''/ledger/'' @ rest" unfolding starts_with_def by (metis append_take_drop_id)
  then show ?thesis by (simp add: publicRoute_def)
next
  case False
  then show ?thesis using assms unfolding monitorOk_def by (elim conjE disjE) (simp_all add: publicRoute_def)
qed

lemma ask_routes:
  assumes "(m, path) \<in> set ASK_SCOPE_ROUTES"
  shows "publicRoute m path = None" "protectedRoute m path = Some r \<Longrightarrow> r \<in> {Mcp, PortalMe, V1Models}"
proof -
  have c: "m = ''POST'' \<and> path = ''/mcp'' \<or> m = ''GET'' \<and> path = ''/portal/me'' \<or> m = ''GET'' \<and> path = ''/v1/models''
      \<or> m = ''GET'' \<and> path = ''/healthz''"
    using assms by (simp add: ASK_SCOPE_ROUTES_def)
  then show "publicRoute m path = None" by (elim disjE) (simp_all add: publicRoute_def)
  show "r \<in> {Mcp, PortalMe, V1Models}" if "protectedRoute m path = Some r"
    using c that by (elim disjE) (simp_all add: protectedRoute_def starts_with_def oneSegment_def jobPrefix_def)
qed

lemma roster_routes:
  assumes "rosterOk m path"
  shows "publicRoute m path = None" "path \<noteq> ''/healthz''" "protectedRoute m path = Some r \<Longrightarrow> r \<in> {RosterSubmit, RosterRead}"
proof -
  consider "m = ''POST''" "path = ''/v1/roster-proposals''" | rest where "m = ''GET''" "path = ''/v1/roster-proposals/'' @ rest"
    using assms unfolding rosterOk_def oneSegment_def starts_with_def by (metis append_take_drop_id)
  then show "publicRoute m path = None" "path \<noteq> ''/healthz''"
    by (cases; simp add: publicRoute_def)+
  show "r \<in> {RosterSubmit, RosterRead}" if "protectedRoute m path = Some r"
    using assms that roster_prefix_route [of path r]
    by (auto simp: rosterOk_def oneSegment_def protectedRoute_def)
qed

text \<open>The gates are closed. Without a credential only the seven public routes are served. A monitor key is
  served only seven reading routes, an ask key only its four, the roster service only its two. Every
  administrative route needs an admin principal.\<close>

lemma gateway_gates_closed:
  assumes "dispatch who cap keyed m path = Served r"
  shows "(who = None \<longrightarrow> r \<in> set publicRoutes)
    \<and> (\<forall>p. who = Some p \<longrightarrow>
         (pc_isMonitor p \<longrightarrow> m = ''GET'' \<and> r \<in> {Healthz, Ledger, LedgerRow, Metrics, Models, Residency, OpsSummary})
         \<and> (pc_scope p = ScAsk \<longrightarrow> r \<in> {Healthz, Mcp, PortalMe, V1Models})
         \<and> (pc_logicalAlias p = ROSTER_PROPOSAL_PRINCIPAL \<longrightarrow> r \<in> {RosterSubmit, RosterRead})
         \<and> (r \<in> {ExposureLookup, ExposureReceipts, ExposureHeartbeat, ExperimentImport, RoutingReload, Delegate, Incidents,
                 ReviewerUsefulness, AdminLoad, AdminUnload, AdminDownload, KeysMint, CreditsTopUp, SystemOneGrant,
                 EmbeddingGrant, ChatGrant, KeysList, KeyRevoke, WindowStatus, WindowChange, MaintenanceStatus,
                 MaintenanceChange} \<longrightarrow> pc_isAdmin p \<or> pc_scope p = ScAdmin))"
proof (intro conjI allI impI)
  note served = dispatch_served [OF assms]
  show "r \<in> set publicRoutes" if "who = None"
    using served(2) that publicRoute_public by (auto simp: publicRoutes_def)
  fix p
  assume who: "who = Some p"
  show "m = ''GET''" if "pc_isMonitor p" using served(1) that who by (auto simp: gateAllows_def monitorOk_def)
  show "r \<in> {Healthz, Ledger, LedgerRow, Metrics, Models, Residency, OpsSummary}" if "pc_isMonitor p"
  proof -
    have "monitorOk m path" using served(1) that who by (simp add: gateAllows_def)
    then show ?thesis using served(2) monitor_routes [of m path r] monitor_not_public [of m path] by auto
  qed
  show "r \<in> {Healthz, Mcp, PortalMe, V1Models}" if "pc_scope p = ScAsk"
  proof -
    have "(m, path) \<in> set ASK_SCOPE_ROUTES" using served(1) that who by (simp add: gateAllows_def)
    then show ?thesis using served(2) ask_routes(1) [of m path] ask_routes(2) [of m path r] by auto
  qed
  show "r \<in> {RosterSubmit, RosterRead}" if "pc_logicalAlias p = ROSTER_PROPOSAL_PRINCIPAL"
  proof -
    have "rosterOk m path" using served(1) that who by (simp add: gateAllows_def)
    then show ?thesis using served(2) roster_routes(1,2) [of m path] roster_routes(3) [of m path r] by auto
  qed
  show "pc_isAdmin p \<or> pc_scope p = ScAdmin"
    if "r \<in> {ExposureLookup, ExposureReceipts, ExposureHeartbeat, ExperimentImport, RoutingReload, Delegate, Incidents,
                 ReviewerUsefulness, AdminLoad, AdminUnload, AdminDownload, KeysMint, CreditsTopUp, SystemOneGrant,
                 EmbeddingGrant, ChatGrant, KeysList, KeyRevoke, WindowStatus, WindowChange, MaintenanceStatus, MaintenanceChange}"
    using served(2) that who publicRoute_public [of m path r]
    by (auto simp: routeAllowed_def guard_defs publicRoutes_def)
qed


definition demoConfig :: AuthConfig where
  "demoConfig = \<lparr>ac_adminApiKeys = [''root-key''], ac_apiKeys = [''user-key''], ac_monitorApiKeys = [''heimdall''],
     ac_disableAdmin = True, ac_disableUser = False, ac_disableMonitor = False, ac_keyDefaults = demoDefaults\<rparr>"

definition demoHeader :: "string option" where
  "demoHeader = Some ''bearer   hs_owner_AAAA''"

definition demoPrincipal :: PrincipalContext where
  "demoPrincipal = storePrincipal (hd (api_keys demoDb))"

lemma gateway_gates_closed_witness:
  "dispatch (Some (withScope ScAsk demoPrincipal)) None False ''GET'' ''/v1/models'' = Served V1Models
   \<and> V1Models \<in> {Healthz, Mcp, PortalMe, V1Models}"
proof -
  have served: "dispatch (Some (withScope ScAsk demoPrincipal)) None False ''GET'' ''/v1/models'' = Served V1Models"
    by code_simp
  with gateway_gates_closed [OF served] show ?thesis by (simp add: withScope_def)
qed

section \<open>The declared scope order is the order of reach\<close>













section \<open>The gateway over the life of a key\<close>

lemma resolve_store:
  assumes "resolvePrincipal hash cfg header t db = Some p" "pc_keyHash p \<noteq> None"
  shows "\<exists>token row. bearerToken header = Some token \<and> token \<noteq> [] \<and> lookupKey hash token t db = Some row \<and> p = storePrincipal row"
  using assms
  by (auto simp: resolvePrincipal_def staticResolve_def staticPrincipal_def Let_def split: option.splits if_splits)

text \<open>C11: What a key may call only shrinks, up to the model grants. Whatever operations of the keystore run in
  between, a request of a minted key that reaches its handler later would have reached it before, at the same
  time of day, with one exception: the embeddings route, when the key had no grant of the embedding
  model before and has one now. Revocation, rotation, narrowing, expiry, redemption and the other grants
  never open a route. (Which model a chat or decision request may name is decided inside the handler.)\<close>

theorem gateway_reach_shrinks:
  assumes "ks_run hash emptyKeyDb db" "ks_run hash db db'"
    and r: "r \<in> set (api_keys db)" "bearerToken header = Some token" "k_key_hash r = hash token"
    and later: "resolvePrincipal hash cfg header t db' = Some p'" "pc_keyHash p' \<noteq> None"
    and served: "dispatch (Some p') cap keyed m path = Served route"
  shows "\<exists>p. resolvePrincipal hash cfg header t db = Some p \<and>
    (dispatch (Some p) cap keyed m path = Served route
     \<or> route = Embeddings \<and> embeddingGranted p' EMBEDDING_MODEL_ID \<and> \<not> embeddingGranted p EMBEDDING_MODEL_ID
       \<and> dispatch (Some p) cap keyed m path = Refused 403 ''model_not_allowed'')"
proof -
  obtain r' where r': "lookupKey hash token t db' = Some r'" "p' = storePrincipal r'" "token \<noteq> []"
    using resolve_store [OF later] r(2) by auto
  have wf: "ksWf db" by (rule reachable_wf [OF assms(1)])
  have "findDigest (k_key_hash r) t db' = Some r'" using r' r(3) lookup_findDigest by simp
  then have le: "rowLe r r'" "activeAt t r" using kstore.authority_monotone [OF wf assms(2) r(1)] by auto
  then have "lookupKey hash token t db = Some r"
    using lookup_iff [of db hash token t r] wf r(1,3) by (simp add: ksWf_def)
  then have "resolvePrincipal hash cfg header t db = Some (storePrincipal r)" using r(2) r'(3) by (simp add: resolvePrincipal_def)
  moreover have "dispatch (Some (storePrincipal r)) cap keyed m path = Served route
      \<or> route = Embeddings \<and> embeddingGranted p' EMBEDDING_MODEL_ID \<and> \<not> embeddingGranted (storePrincipal r) EMBEDDING_MODEL_ID
        \<and> dispatch (Some (storePrincipal r)) cap keyed m path = Refused 403 ''model_not_allowed''"
  proof (cases "route = Embeddings \<and> \<not> embeddingGranted (storePrincipal r) EMBEDDING_MODEL_ID")
    case True
    then show ?thesis
      using dispatch_embeddings [of p' cap keyed m path "storePrincipal r"] served r'(2) authorityLe_store [OF le(1)] by simp
  next
    case False
    then have "dispatch (Some (storePrincipal r)) cap keyed m path = Served route"
      by (intro dispatch_mono [OF authorityLe_store [OF le(1)]]) (use served r'(2) in auto)
    then show ?thesis by simp
  qed
  ultimately show ?thesis by blast
qed

theorem gateway_reach_shrinks_witness:
  "\<exists>p. resolvePrincipal demoHash demoConfig demoHeader 20 demoDb = Some p
     \<and> dispatch (Some p) None False ''POST'' ''/v1/chat/completions'' = Served Chat"
proof -
  let ?db = "snd (restrictKey ''ci'' (Some ScInference) None False 10 demoDb)"
  let ?p = "the (resolvePrincipal demoHash demoConfig demoHeader 20 ?db)"
  have run: "ks_run demoHash demoDb ?db" by (rule r_into_rtranclp) (rule ks_step.restrict)
  have key: "hd (api_keys demoDb) \<in> set (api_keys demoDb)" "bearerToken demoHeader = Some ''hs_owner_AAAA''"
    "k_key_hash (hd (api_keys demoDb)) = demoHash ''hs_owner_AAAA''" by code_simp+
  have "resolvePrincipal demoHash demoConfig demoHeader 20 ?db \<noteq> None" by code_simp
  then have some: "resolvePrincipal demoHash demoConfig demoHeader 20 ?db = Some ?p" by simp
  have later: "pc_keyHash ?p \<noteq> None" "dispatch (Some ?p) None False ''POST'' ''/v1/chat/completions'' = Served Chat" by code_simp+
  show ?thesis using gateway_reach_shrinks [OF demoDb_run run key some later] by simp
qed

text \<open>Uses that count for a rotation are real. The end of a request records a use of the key only when a minted
  principal was served a protected route that answered with a success or a redirect; a request that was
  refused, or served a public route, leaves the keystore as it was.\<close>

lemma use_recorded_only_when_served:
  assumes "recordUse who cap keyed m path status now db \<noteq> db"
  shows "\<exists>p r. who = Some p \<and> dispatch who cap keyed m path = Served r \<and> r \<notin> set publicRoutes
    \<and> pc_keyHash p \<noteq> None \<and> 200 \<le> status r \<and> status r < 400"
proof -
  let ?d = "dispatch who cap keyed m path"
  obtain p where p: "who = Some p" "authenticatedRouteReached who cap keyed m path" "pc_keyHash p \<noteq> None"
    "200 \<le> (case ?d of Refused n _ \<Rightarrow> n | Served r \<Rightarrow> status r)" "(case ?d of Refused n _ \<Rightarrow> n | Served r \<Rightarrow> status r) < 400"
    using assms by (auto simp: recordUse_def Let_def split: option.splits if_splits)
  have d: "?d = serveProtected p m path" using p(1,2) by (auto simp: dispatch_def authenticatedRouteReached_def)
  have refused: "n \<ge> 400" if "?d = Refused n c" for n c
    using that d by (auto simp: serveProtected_def notFound_def forbidden_def split: option.splits if_splits)
  then obtain r where r: "?d = Served r" using p(5) by (cases ?d) force+
  then have "r \<notin> set publicRoutes"
    using dispatch_served(2) [OF r] p(2) protectedRoute_not_public [of m path r] by (auto simp: authenticatedRouteReached_def)
  then show ?thesis using p r by auto
qed

lemma use_recorded_only_when_served_witness:
  "\<exists>p r. Some demoPrincipal = Some p \<and> dispatch (Some demoPrincipal) None False ''GET'' ''/portal/me'' = Served r
     \<and> r \<notin> set publicRoutes \<and> pc_keyHash p \<noteq> None \<and> 200 \<le> (200 :: int) \<and> (200 :: int) < 400"
proof -
  have "recordUse (Some demoPrincipal) None False ''GET'' ''/portal/me'' (\<lambda>_. 200) 9 demoDb \<noteq> demoDb"
  proof
    assume "recordUse (Some demoPrincipal) None False ''GET'' ''/portal/me'' (\<lambda>_. 200) 9 demoDb = demoDb"
    then have "map k_use_count (api_keys (recordUse (Some demoPrincipal) None False ''GET'' ''/portal/me'' (\<lambda>_. 200) 9 demoDb))
      = map k_use_count (api_keys demoDb)" by simp
    moreover have "map k_use_count (api_keys (recordUse (Some demoPrincipal) None False ''GET'' ''/portal/me'' (\<lambda>_. 200) 9 demoDb)) = [1]"
      "map k_use_count (api_keys demoDb) = [0]" by code_simp+
    ultimately show False by simp
  qed
  then show ?thesis by (rule use_recorded_only_when_served)
qed

text \<open>A static key that any disabled list contains is refused, whatever the other lists say.\<close>

lemma kill_switch:
  assumes "lookupKey hash token now db = None" "bearerToken header = Some token"
    and "keyMatches hash token (ac_adminApiKeys cfg) \<and> ac_disableAdmin cfg
      \<or> keyMatches hash token (ac_apiKeys cfg) \<and> ac_disableUser cfg
      \<or> keyMatches hash token (ac_monitorApiKeys cfg) \<and> ac_disableMonitor cfg"
  shows "resolvePrincipal hash cfg header now db = None"
  using assms by (auto simp: resolvePrincipal_def staticResolve_def Let_def)

section \<open>The tools of the MCP endpoint\<close>

text \<open>\<open>tools/list\<close> (\<open>toolDefs\<close>) and \<open>tools/call\<close> (\<open>callTool\<close>) of \<open>src/homeserver/mcp.ts\<close>, by the names of the tools.\<close>

definition CODE_LOOP_TOOL_NAMES :: "string list" where
  "CODE_LOOP_TOOL_NAMES = [''code_loop_start'', ''code_loop_status'', ''code_loop_result'']"

definition toolDefs :: "PrincipalContext \<Rightarrow> string list" where
  "toolDefs p =
     [''tokenize'', ''list_models'', ''model_status'', ''ask'']
     @ (if isCodeLoopOwner p then [''record_adoption_evidence''] else [])
     @ (if isCodeLoopOwner p then CODE_LOOP_TOOL_NAMES else [])"

datatype ToolTarget = Tokenize | ListModels | ModelStatus | RecordAdoption | Ask | CodeLoopTool string | UnknownTool

definition callTool :: "string \<Rightarrow> PrincipalContext \<Rightarrow> ToolTarget" where
  "callTool name p =
     (if name = ''tokenize'' then Tokenize
      else if name = ''list_models'' then ListModels
      else if name = ''model_status'' then ModelStatus
      else if name = ''record_adoption_evidence'' \<and> isCodeLoopOwner p then RecordAdoption
      else if name = ''ask'' then Ask
      else if name \<in> set CODE_LOOP_TOOL_NAMES \<and> isCodeLoopOwner p then CodeLoopTool name
      else UnknownTool)"

definition isAskFilesOwner :: "PrincipalContext \<Rightarrow> bool" where
  "isAskFilesOwner p \<longleftrightarrow> pc_tier p = OwnerTier \<and> pc_scope p \<noteq> ScAsk"

text \<open>The tools a principal can call are exactly the tools it is shown, and narrowing its scope only takes tools
  and the server-side file input of \<open>ask\<close> away.\<close>

lemma mcp_tools_shown_iff_callable:
  "(name \<in> set (toolDefs p) \<longleftrightarrow> callTool name p \<noteq> UnknownTool)
   \<and> (authorityLe p' p \<longrightarrow> set (toolDefs p') \<subseteq> set (toolDefs p) \<and> (isAskFilesOwner p' \<longrightarrow> isAskFilesOwner p))"
proof -
  have "isCodeLoopOwner p' \<longrightarrow> isCodeLoopOwner p" "isAskFilesOwner p' \<longrightarrow> isAskFilesOwner p" if "authorityLe p' p"
    using that by (cases "pc_scope p"; auto simp: authorityLe_def isCodeLoopOwner_def isAskFilesOwner_def scopeLe_def isScopeNarrowing_def)+
  moreover have "name \<in> set (toolDefs p) \<longleftrightarrow> callTool name p \<noteq> UnknownTool"
    by (cases "isCodeLoopOwner p") (simp_all add: toolDefs_def callTool_def CODE_LOOP_TOOL_NAMES_def)
  moreover have "set (toolDefs p') \<subseteq> set (toolDefs p)" if "isCodeLoopOwner p' \<longrightarrow> isCodeLoopOwner p"
    using that by (cases "isCodeLoopOwner p"; cases "isCodeLoopOwner p'") (simp_all add: toolDefs_def)
  ultimately show ?thesis by blast
qed

lemma mcp_tools_shown_iff_callable_witness:
  "set (toolDefs (withScope ScAsk demoPrincipal)) \<subseteq> set (toolDefs (withScope ScAgent demoPrincipal))"
proof -
  have "scopeLe ScAsk ScAgent" by (simp add: scopeLe_def isScopeNarrowing_def)
  with mcp_tools_shown_iff_callable withScope_le show ?thesis by blast
qed


end
