(* ===== verification/Metered_Spine.thy ===== *)
theory Metered_Spine
  imports Metered_Books Admission Gateway_Auth
begin

text \<open>
  The metered spine of the gateway: \<open>admitAndMeterLogged\<close> of \<open>src/homeserver/gateway.ts\<close> (chat, delegation,
  decisions, embeddings), its inlined variants for audio (\<open>handleAudioTranscription\<close>) and for the MCP tools
  \<open>ask\<close> (\<open>src/homeserver/mcp.ts\<close>) and \<open>tokenize\<close> (\<open>src/homeserver/tokenize.ts\<close>), and the unmetered model
  load of an administrator, which shares the inference slots.

  A call reserves credits, passes the model allow-list and the quota, waits for a slot, runs its handler and
  settles. Each piece between two \<open>await\<close>s is one definition; a call that has been suspended is a record in
  \<open>sp_calls\<close> whose phase says what it waits for, and the calls interleave freely. The result of a handler is an
  argument: its token counts, or that it threw.
\<close>

section \<open>Estimates\<close>

record TokenLimits =
  tl_perRequestMaxTokens :: int
  tl_modelMaxTokens :: "string \<rightharpoonup> int"

text \<open>The empty text is falsy, so it has no limit of its own.\<close>

definition maxTokensLimitForModel :: "TokenLimits \<Rightarrow> string option \<Rightarrow> int" where
  "maxTokensLimitForModel cfg model =
     (case model of
        None \<Rightarrow> tl_perRequestMaxTokens cfg
      | Some m \<Rightarrow> if m = [] then tl_perRequestMaxTokens cfg
                  else get_or (tl_modelMaxTokens cfg) m (tl_perRequestMaxTokens cfg))"

definition clampMaxTokensForModel :: "TokenLimits \<Rightarrow> string option \<Rightarrow> rat option \<Rightarrow> int" where
  "clampMaxTokensForModel cfg model requested =
     (let wanted = (case requested of Some n \<Rightarrow> \<lfloor>n\<rfloor> | None \<Rightarrow> tl_perRequestMaxTokens cfg)
      in min (max wanted 1) (maxTokensLimitForModel cfg model))"

definition estimateTokens :: "string \<Rightarrow> int \<Rightarrow> int" where
  "estimateTokens rawBody effectiveMax = ceil_div (int (length rawBody)) 4 + effectiveMax"

record AudioConfig =
  ac_maxSeconds :: rat
  ac_creditsPerSecond :: int

definition worstCaseSeconds :: "AudioConfig \<Rightarrow> int" where
  "worstCaseSeconds cfg = \<lceil>ac_maxSeconds cfg\<rceil>"

definition worstCaseCost :: "AudioConfig \<Rightarrow> int" where
  "worstCaseCost cfg = worstCaseSeconds cfg * ac_creditsPerSecond cfg"

text \<open>The seconds billed for a response with status 2xx; \<open>duration\<close> is absent or not a number as \<open>None\<close>.\<close>

definition audioSeconds :: "AudioConfig \<Rightarrow> js_number option \<Rightarrow> int" where
  "audioSeconds cfg duration =
     (case duration of
        Some (Fin d) \<Rightarrow> if d > 0 \<and> d \<le> ac_maxSeconds cfg then \<lceil>d\<rceil> else worstCaseSeconds cfg
      | _ \<Rightarrow> worstCaseSeconds cfg)"

lemma clampMaxTokens_bounds:
  assumes "1 \<le> maxTokensLimitForModel cfg model"
  shows "1 \<le> clampMaxTokensForModel cfg model requested"
    and "clampMaxTokensForModel cfg model requested \<le> maxTokensLimitForModel cfg model"
  using assms by (auto simp: clampMaxTokensForModel_def Let_def)

lemma estimateTokens_pos: "1 \<le> effectiveMax \<Longrightarrow> 1 \<le> estimateTokens raw effectiveMax"
proof -
  have "0 \<le> ceil_div (int (length raw)) 4" using ceil_div_ge [of 4 "int (length raw)"] by simp
  then show "1 \<le> effectiveMax \<Longrightarrow> 1 \<le> estimateTokens raw effectiveMax" by (simp add: estimateTokens_def)
qed

lemma audioSeconds_bounds:
  assumes "0 < ac_maxSeconds cfg"
  shows "1 \<le> audioSeconds cfg d" and "audioSeconds cfg d \<le> worstCaseSeconds cfg"
proof -
  have "1 \<le> \<lceil>x\<rceil>" if "0 < x" for x :: rat using that by (simp add: le_ceiling_iff)
  then show "1 \<le> audioSeconds cfg d" "audioSeconds cfg d \<le> worstCaseSeconds cfg"
    using assms by (auto simp: audioSeconds_def worstCaseSeconds_def simp del: ceiling_le_iff le_ceiling_iff
        intro: ceiling_mono split: option.split js_number.split)
qed

section \<open>The state\<close>

datatype Surface = ChatSurface | SystemOneSurface | EmbeddingSurface | AudioSurface | AskSurface | TokenizeSurface | LoadSurface

text \<open>
  What a suspended call waits for: the background lease to drain, its place in the owner queue, the
  continuation after \<open>acquire\<close> settled, the host memory check of \<open>ask\<close>, or its handler. The numbers are
  those of the lease, the queue entry and the release closure.
\<close>

datatype CallPhase =
    DrainingBackground nat
  | QueuedFor nat
  | Answered settlement
  | CheckingMemory nat
  | Running nat

record MeteredCall =
  mc_id :: nat
  mc_surface :: Surface
  mc_principal :: PrincipalContext
  mc_request :: AdmissionRequest
  mc_credits :: int
  mc_reserved :: bool
  mc_reservation :: "QuotaReservation option"
  mc_gone :: bool
  mc_phase :: CallPhase

record Spine =
  sp_keys :: KeyDb
  sp_quota :: QuotaState
  sp_ctl :: AdmissionController
  sp_inflight :: "string \<rightharpoonup> int"
  sp_calls :: "MeteredCall list"
  sp_nextCall :: nat

datatype Outcome =
    CreditsExhausted
  | ModelNotAllowed
  | RateLimited QuotaReason seconds
  | Busy seconds
  | ClientClosed
  | MemoryRefused
  | TokenizerUnsupported
  | Suspended
  | Completed

definition incInflight :: "string \<Rightarrow> Spine \<Rightarrow> Spine" where
  "incInflight a s = s\<lparr>sp_inflight := (sp_inflight s)(a \<mapsto> get_or (sp_inflight s) a 0 + 1)\<rparr>"

definition decInflight :: "string \<Rightarrow> Spine \<Rightarrow> Spine" where
  "decInflight a s =
     (let n = get_or (sp_inflight s) a 1 - 1
      in if n \<le> 0 then s\<lparr>sp_inflight := (sp_inflight s)(a := None)\<rparr>
         else s\<lparr>sp_inflight := (sp_inflight s)(a \<mapsto> n)\<rparr>)"

section \<open>Before admission\<close>

definition creditCapped :: "PrincipalContext \<Rightarrow> bool" where
  "creditCapped p \<longleftrightarrow> pc_keyHash p \<noteq> None \<and> pc_creditLimit p > 0"

definition takeReserve :: "PrincipalContext \<Rightarrow> int \<Rightarrow> Spine \<Rightarrow> bool \<times> Spine" where
  "takeReserve p amount s =
     (if creditCapped p
      then let (ok, keys) = reserveCredits (the (pc_keyHash p)) amount (sp_keys s) in (ok, s\<lparr>sp_keys := keys\<rparr>)
      else (True, s))"

text \<open>\<open>releaseReserve\<close>: the closure's flag \<open>creditReserved\<close> is the argument \<open>reserved\<close>.\<close>

definition undoReserve :: "PrincipalContext \<Rightarrow> bool \<Rightarrow> int \<Rightarrow> Spine \<Rightarrow> Spine" where
  "undoReserve p reserved amount s =
     (if reserved then s\<lparr>sp_keys := reconcileCredits (the (pc_keyHash p)) amount 0 (sp_keys s)\<rparr> else s)"

definition modelRefused :: "Surface \<Rightarrow> PrincipalContext \<Rightarrow> string option \<Rightarrow> bool" where
  "modelRefused surface p model =
     (case surface of
        SystemOneSurface \<Rightarrow> (case model of None \<Rightarrow> True | Some m \<Rightarrow> \<not> systemOneGranted p m)
      | EmbeddingSurface \<Rightarrow> (case model of None \<Rightarrow> True | Some m \<Rightarrow> \<not> embeddingGranted p m)
      | _ \<Rightarrow> pc_modelAllowList p \<noteq> []
             \<and> (case model of None \<Rightarrow> True | Some m \<Rightarrow> m \<notin> set (pc_modelAllowList p)))"

definition laneOf :: "Tier \<Rightarrow> Lane" where
  "laneOf t = (case t of OwnerTier \<Rightarrow> OwnerLane | GuestTier \<Rightarrow> GuestLane)"

definition admissionRequest :: "PrincipalContext \<Rightarrow> string option \<Rightarrow> Spine \<Rightarrow> AdmissionRequest" where
  "admissionRequest p model s =
     \<lparr>rq_lane = laneOf (pc_tier p), rq_requestedModel = model, rq_keyMaxParallel = pc_maxParallel p,
      rq_keyInflight = get_or (sp_inflight s) (pc_alias p) 0, rq_keyId = Some (pc_alias p)\<rparr>"

definition phaseOf :: "AcquireResult \<Rightarrow> CallPhase" where
  "phaseOf r =
     (case r of
        Granted h \<Rightarrow> Answered (Resolved h)
      | RejectedNow n \<Rightarrow> Answered (RejectedAfter n)
      | CancelledNow \<Rightarrow> Answered Cancelled
      | Waiting w \<Rightarrow> QueuedFor w
      | Draining b \<Rightarrow> DrainingBackground b)"

text \<open>The call of \<open>controller.acquire\<close>, at which every surface suspends.\<close>

definition enterAdmission ::
  "Surface \<Rightarrow> PrincipalContext \<Rightarrow> string option \<Rightarrow> int \<Rightarrow> bool \<Rightarrow> QuotaReservation option \<Rightarrow> millis \<Rightarrow> Spine \<Rightarrow> Spine"
where
  "enterAdmission surface p model credits reserved reservation now s =
     (let req = admissionRequest p model s;
          (r, ctl) = acquire now False req (sp_ctl s);
          call = \<lparr>mc_id = sp_nextCall s, mc_surface = surface, mc_principal = p, mc_request = req,
                  mc_credits = credits, mc_reserved = reserved, mc_reservation = reservation,
                  mc_gone = False, mc_phase = phaseOf r\<rparr>
      in s\<lparr>sp_ctl := ctl, sp_calls := sp_calls s @ [call], sp_nextCall := Suc (sp_nextCall s)\<rparr>)"

text \<open>The quota check and what follows it, with the unwinding of the credit reservation on a refusal.\<close>

definition checkAndEnter ::
  "Surface \<Rightarrow> PrincipalContext \<Rightarrow> string option \<Rightarrow> int \<Rightarrow> int \<Rightarrow> bool \<Rightarrow> string \<Rightarrow> millis \<Rightarrow> Spine \<Rightarrow> Outcome \<times> Spine"
where
  "checkAndEnter surface p model est credits reserved eventId now s =
     (case checkQuota (pc_alias p) (pc_limits p) est eventId now (sp_quota s) of
        (QuotaNo why retry _, q) \<Rightarrow> (RateLimited why retry, undoReserve p reserved credits (s\<lparr>sp_quota := q\<rparr>))
      | (QuotaOk _ r, q) \<Rightarrow>
          (Suspended, enterAdmission surface p model credits reserved (Some r) now (s\<lparr>sp_quota := q\<rparr>)))"

text \<open>
  The start of \<open>admitAndMeterLogged\<close>. \<open>gone\<close> is that the response socket is already closed; a
  cancellation before the quota check only returns the credits.
\<close>

definition startMetered ::
  "Surface \<Rightarrow> PrincipalContext \<Rightarrow> string option \<Rightarrow> int \<Rightarrow> bool \<Rightarrow> string \<Rightarrow> millis \<Rightarrow> Spine \<Rightarrow> Outcome \<times> Spine" where
  "startMetered surface p model est gone eventId now s =
     (case takeReserve p est s of
        (False, s1) \<Rightarrow> (CreditsExhausted, s1)
      | (True, s1) \<Rightarrow>
          if gone then (ClientClosed, undoReserve p (creditCapped p) est s1)
          else if modelRefused surface p model then (ModelNotAllowed, undoReserve p (creditCapped p) est s1)
          else checkAndEnter surface p model est est (creditCapped p) eventId now s1)"

text \<open>\<open>runChat\<close> of the \<open>ask\<close> tool: the allow-list comes first, and nothing can cancel the wait.\<close>

definition startAsk ::
  "(string \<Rightarrow> bool) \<Rightarrow> PrincipalContext \<Rightarrow> string \<Rightarrow> int \<Rightarrow> string \<Rightarrow> millis \<Rightarrow> Spine \<Rightarrow> Outcome \<times> Spine" where
  "startAsk otherSurface p model est eventId now s =
     (if modelRefused AskSurface p (Some model) \<or> otherSurface model then (ModelNotAllowed, s)
      else case takeReserve p est s of
             (False, s1) \<Rightarrow> (CreditsExhausted, s1)
           | (True, s1) \<Rightarrow> checkAndEnter AskSurface p (Some model) est est (creditCapped p) eventId now s1)"

definition WHISPER_MODEL :: string where
  "WHISPER_MODEL = ''whisper-1''"

definition WHISPER_ALIASES :: "string list" where
  "WHISPER_ALIASES = [''whisper-1'', ''kb-whisper-large'', ''whisper'']"

definition audioCandidate :: "string option \<Rightarrow> string" where
  "audioCandidate model =
     (case model of None \<Rightarrow> WHISPER_MODEL | Some m \<Rightarrow> if m \<in> set WHISPER_ALIASES then WHISPER_MODEL else m)"

definition startAudio ::
  "AudioConfig \<Rightarrow> PrincipalContext \<Rightarrow> string option \<Rightarrow> string \<Rightarrow> millis \<Rightarrow> Spine \<Rightarrow> Outcome \<times> Spine" where
  "startAudio cfg p model eventId now s =
     (if modelRefused AudioSurface p (Some (audioCandidate model)) then (ModelNotAllowed, s)
      else case takeReserve p (worstCaseCost cfg) s of
             (False, s1) \<Rightarrow> (CreditsExhausted, s1)
           | (True, s1) \<Rightarrow>
               checkAndEnter AudioSurface p (Some WHISPER_MODEL) (worstCaseSeconds cfg) (worstCaseCost cfg)
                 (creditCapped p) eventId now s1)"

text \<open>\<open>runTokenize\<close> after its argument checks; \<open>supported\<close> is the test of backend and model.\<close>

definition startTokenize ::
  "(string \<Rightarrow> bool) \<Rightarrow> PrincipalContext \<Rightarrow> string \<Rightarrow> string \<Rightarrow> millis \<Rightarrow> Spine \<Rightarrow> Outcome \<times> Spine" where
  "startTokenize supported p model eventId now s =
     (if modelRefused TokenizeSurface p (Some model) then (ModelNotAllowed, s)
      else if \<not> supported model then (TokenizerUnsupported, s)
      else checkAndEnter TokenizeSurface p (Some model) 0 0 False eventId now s)"

definition startLoad :: "PrincipalContext \<Rightarrow> string \<Rightarrow> millis \<Rightarrow> Spine \<Rightarrow> Spine" where
  "startLoad p model now s = enterAdmission LoadSurface p (Some model) 0 False None now s"

section \<open>Waiting for a slot\<close>

definition setPhase :: "MeteredCall \<Rightarrow> CallPhase \<Rightarrow> Spine \<Rightarrow> Spine" where
  "setPhase call ph s =
     s\<lparr>sp_calls := map (\<lambda>c. if mc_id c = mc_id call then c\<lparr>mc_phase := ph\<rparr> else c) (sp_calls s)\<rparr>"

definition dropCall :: "MeteredCall \<Rightarrow> Spine \<Rightarrow> Spine" where
  "dropCall call s = s\<lparr>sp_calls := filter (\<lambda>c. mc_id c \<noteq> mc_id call) (sp_calls s)\<rparr>"

text \<open>Only \<open>admitAndMeterLogged\<close> passes a signal to \<open>acquire\<close>.\<close>

definition hasSignal :: "Surface \<Rightarrow> bool" where
  "hasSignal surface \<longleftrightarrow> surface \<in> {ChatSurface, SystemOneSurface, EmbeddingSurface}"

text \<open>
  The client leaves while its call waits: the abort listener of a queued waiter discards it, and the race of a
  call that drains the background lease rejects. Once the call runs, the listener has been removed.
\<close>

definition clientClosed :: "millis \<Rightarrow> MeteredCall \<Rightarrow> Spine \<Rightarrow> Spine" where
  "clientClosed now call s =
     (if \<not> hasSignal (mc_surface call) then s
      else let left = (\<lambda>ph s. s\<lparr>sp_calls := map (\<lambda>c. if mc_id c = mc_id call
                                 then c\<lparr>mc_gone := True, mc_phase := ph\<rparr> else c) (sp_calls s)\<rparr>)
           in case mc_phase call of
                DrainingBackground b \<Rightarrow> left (Answered Cancelled) s
              | QueuedFor w \<Rightarrow> left (QueuedFor w) (s\<lparr>sp_ctl := discard now w Cancelled (sp_ctl s)\<rparr>)
              | Answered a \<Rightarrow> left (Answered a) s
              | CheckingMemory h \<Rightarrow> s
              | Running h \<Rightarrow> s)"

definition queueTimer :: "millis \<Rightarrow> nat \<Rightarrow> Spine \<Rightarrow> Spine" where
  "queueTimer now w s = s\<lparr>sp_ctl := discard now w (queueTimeout (sp_ctl s)) (sp_ctl s)\<rparr>"

text \<open>The rest of \<open>acquire\<close> once the background lease has drained.\<close>

definition resumeDrained :: "millis \<Rightarrow> MeteredCall \<Rightarrow> Spine \<Rightarrow> Spine" where
  "resumeDrained now call s =
     (let (r, ctl) = acquireDecide now (mc_gone call) (mc_request call) (sp_ctl s)
      in setPhase call (phaseOf r) (s\<lparr>sp_ctl := ctl\<rparr>))"

section \<open>After admission\<close>

text \<open>Every exit without inference: the slot if one was granted, the credits, the daily reservation.\<close>

definition unwindCall :: "millis \<Rightarrow> nat option \<Rightarrow> MeteredCall \<Rightarrow> Spine \<Rightarrow> Spine" where
  "unwindCall now slot call s =
     (let p = mc_principal call;
          s1 = (case slot of None \<Rightarrow> s | Some h \<Rightarrow> s\<lparr>sp_ctl := release now h (sp_ctl s)\<rparr>);
          s2 = undoReserve p (mc_reserved call) (mc_credits call) s1;
          s3 = (case mc_reservation call of
                  None \<Rightarrow> s2
                | Some r \<Rightarrow> s2\<lparr>sp_quota := recordUsage (pc_alias p) 0 now (Some r) (sp_quota s2)\<rparr>)
      in dropCall call s3)"

definition beginHandler :: "nat \<Rightarrow> MeteredCall \<Rightarrow> Spine \<Rightarrow> Spine" where
  "beginHandler h call s = incInflight (pc_alias (mc_principal call)) (setPhase call (Running h) s)"

text \<open>The continuation of \<open>await acquire\<close>. \<open>memoryCheck\<close>: the \<open>ask\<close> tool has a host memory check to await.\<close>

definition continueCall :: "bool \<Rightarrow> millis \<Rightarrow> settlement \<Rightarrow> MeteredCall \<Rightarrow> Spine \<Rightarrow> Outcome \<times> Spine" where
  "continueCall memoryCheck now answer call s =
     (case answer of
        Resolved h \<Rightarrow>
          if mc_gone call then (ClientClosed, unwindCall now (Some h) call s)
          else if mc_surface call = AskSurface \<and> memoryCheck then (Suspended, setPhase call (CheckingMemory h) s)
          else (Suspended, beginHandler h call s)
      | RejectedAfter retry \<Rightarrow> (Busy retry, unwindCall now None call s)
      | Cancelled \<Rightarrow> (ClientClosed, unwindCall now None call s))"

text \<open>The host memory check of \<open>ask\<close> admits, refuses or throws; the last two unwind alike.\<close>

definition memoryVerdict :: "bool \<Rightarrow> millis \<Rightarrow> nat \<Rightarrow> MeteredCall \<Rightarrow> Spine \<Rightarrow> Outcome \<times> Spine" where
  "memoryVerdict admitted now h call s =
     (if admitted then (Suspended, beginHandler h call s) else (MemoryRefused, unwindCall now (Some h) call s))"

definition metered :: "MeteredCall \<Rightarrow> bool" where
  "metered call \<longleftrightarrow> mc_surface call \<notin> {TokenizeSurface, LoadSurface}"

text \<open>The credits of a call that ran: a minted key reconciles its reservation or accrues without one.\<close>

definition settleKey :: "MeteredCall \<Rightarrow> int \<Rightarrow> KeyDb \<Rightarrow> KeyDb" where
  "settleKey call billable keys =
     (case pc_keyHash (mc_principal call) of
        None \<Rightarrow> keys
      | Some h \<Rightarrow> if mc_reserved call then reconcileCredits h (mc_credits call) billable keys
                  else recordCreditUsage h billable keys)"

text \<open>
  The handler ended: \<open>None\<close> when it threw, otherwise the tokens it used and the tokens it bills. A tokenization
  and a model load meter nothing, whatever their handler did.
\<close>

definition finishCall :: "millis \<Rightarrow> (int \<times> int) option \<Rightarrow> nat \<Rightarrow> MeteredCall \<Rightarrow> Spine \<Rightarrow> Spine" where
  "finishCall now result h call s =
     (let p = mc_principal call;
          (total, billable) = (case result of Some r \<Rightarrow> if metered call then r else (0, 0) | None \<Rightarrow> (0, 0));
          s1 = s\<lparr>sp_ctl := release now h (sp_ctl s)\<rparr>;
          s2 = decInflight (pc_alias p) s1;
          s3 = (case mc_reservation call of
                  None \<Rightarrow> s2
                | Some r \<Rightarrow> s2\<lparr>sp_quota := recordUsage (pc_alias p) total now (Some r) (sp_quota s2)\<rparr>);
          s4 = (if metered call then s3\<lparr>sp_keys := settleKey call billable (sp_keys s3)\<rparr> else s3)
      in dropCall call s4)"

section \<open>What a drain of the queue hands out\<close>

text \<open>
  Every slot a drain grants goes to a waiter that leaves the queue, and the waiter's promise resolves with it.
\<close>

definition grantsOnly :: "(nat \<times> nat) list \<Rightarrow> AdmissionController \<Rightarrow> AdmissionController \<Rightarrow> bool" where
  "grantsOnly gs c c' \<longleftrightarrow>
     settled c' = settled c @ map (\<lambda>g. (fst g, Resolved (snd g))) gs
     \<and> distinct (map snd gs) \<and> (\<forall>h \<in> snd ` set gs. nextId c \<le> h)
     \<and> requestHolders c' = requestHolders c \<union> snd ` set gs
     \<and> set (map w_id (ownerWaiters c')) \<subseteq> set (map w_id (ownerWaiters c))
     \<and> set (map w_id (ownerWaiters c)) \<subseteq> set (map w_id (ownerWaiters c')) \<union> fst ` set gs
     \<and> fst ` set gs \<subseteq> set (map w_id (ownerWaiters c))
     \<and> background c' = background c \<and> nextId c \<le> nextId c'"

definition grantsSpec :: "(nat \<times> nat) list \<Rightarrow> Waiter list \<Rightarrow> AdmissionController \<Rightarrow> Waiter list \<Rightarrow> AdmissionController \<Rightarrow> bool" where
  "grantsSpec gs ws c rest c' \<longleftrightarrow>
     settled c' = settled c @ map (\<lambda>g. (fst g, Resolved (snd g))) gs
     \<and> distinct (map snd gs) \<and> (\<forall>h \<in> snd ` set gs. nextId c \<le> h)
     \<and> requestHolders c' = requestHolders c \<union> snd ` set gs \<and> background c' = background c
     \<and> w_id ` set ws = w_id ` set rest \<union> fst ` set gs"

lemma grantsSpec_nil: "grantsSpec [] ws c ws c"
  by (simp add: grantsSpec_def)

lemma grantsSpec_skip: "grantsSpec gs ws c rest c' \<Longrightarrow> grantsSpec gs (w # ws) c (w # rest) c'"
  unfolding grantsSpec_def by (elim conjE, intro conjI) (assumption | simp)+

lemma grantsSpec_admit:
  assumes "accounted c" "grantsSpec gs ws (admitWaiter w c) rest c'"
  shows "grantsSpec ((w_id w, nextId c) # gs) (w # ws) c rest c'"
proof -
  have holders: "requestHolders (admitWaiter w c) = insert (nextId c) (requestHolders c)"
    using requestHolders_takeSlot [OF assms(1)] by (simp add: admitWaiter_takeSlot requestHolders_def)
  have "settled (admitWaiter w c) = settled c @ [(w_id w, Resolved (nextId c))]"
    "nextId (admitWaiter w c) = Suc (nextId c)" "background (admitWaiter w c) = background c"
    by (simp_all add: admitWaiter_takeSlot)
  then show ?thesis
    using assms(2) unfolding grantsSpec_def holders by (auto simp: Suc_le_eq)
qed

lemma drainSpec_grants:
  "accounted c \<Longrightarrow> \<exists>gs. grantsSpec gs ws c (fst (drainSpec ws c)) (snd (drainSpec ws c))"
proof (induction ws c rule: drainSpec.induct)
  case (1 c)
  then show ?case using grantsSpec_nil [of "[]" c] by auto
next
  case (2 w ws c)
  have "accounted (admitWaiter w c)" using accounted_takeSlot [OF 2(3)] by (simp add: admitWaiter_takeSlot)
  then consider (full) "\<not> inflight c < maxInflight c"
    | (skip) gs where "inflight c < maxInflight c" "capped c w"
        "grantsSpec gs ws c (fst (drainSpec ws c)) (snd (drainSpec ws c))"
    | (admit) gs where "inflight c < maxInflight c" "\<not> capped c w"
        "grantsSpec gs ws (admitWaiter w c) (fst (drainSpec ws (admitWaiter w c))) (snd (drainSpec ws (admitWaiter w c)))"
    using 2 by blast
  then show ?case
  proof cases
    case full
    then show ?thesis using grantsSpec_nil [of "w # ws" c] by auto
  next
    case skip
    then show ?thesis using grantsSpec_skip [OF skip(3), of w] by (auto simp: split_beta)
  next
    case admit
    then show ?thesis using grantsSpec_admit [OF 2(3) admit(3)] by auto
  qed
qed

lemma drainQueue_grants:
  assumes "accounted c"
  obtains gs where "grantsOnly gs c (drainQueue now c)"
proof (cases "exclusive c now")
  case True
  then have "grantsOnly [] c (drainQueue now c)" by (simp add: grantsOnly_def drainQueue_def)
  then show ?thesis by (rule that)
next
  case False
  obtain rest d where d: "drainSpec (ownerWaiters c) c = (rest, d)" by fastforce
  obtain gs where gs: "grantsSpec gs (ownerWaiters c) c rest d"
    using drainSpec_grants [OF assms, of "ownerWaiters c"] d by auto
  have next_le: "nextId c \<le> nextId d" using nextId_drainSpec [of c "ownerWaiters c"] d by simp
  have drain: "drainQueue now c = d\<lparr>ownerWaiters := rest\<rparr>"
    using False d by (simp add: drainQueue_def drainFrom_0)
  have "grantsOnly gs c (d\<lparr>ownerWaiters := rest\<rparr>)"
  proof -
    have "requestHolders (d\<lparr>ownerWaiters := rest\<rparr>) = requestHolders d" by (simp add: requestHolders_def)
    moreover note gs [unfolded grantsSpec_def]
    moreover have "w_id ` set rest \<subseteq> w_id ` set (ownerWaiters c)" "fst ` set gs \<subseteq> w_id ` set (ownerWaiters c)"
      using gs [unfolded grantsSpec_def] by simp_all
    ultimately show ?thesis using next_le by (simp add: grantsOnly_def del: image_Un)
  qed
  then show ?thesis using drain by (intro that) simp
qed

section \<open>Slots and calls correspond\<close>

text \<open>The slot a call holds; a queued call holds the one its promise has resolved with.\<close>

definition slotOf :: "AdmissionController \<Rightarrow> MeteredCall \<Rightarrow> nat option" where
  "slotOf c call =
     (case mc_phase call of
        DrainingBackground b \<Rightarrow> None
      | QueuedFor w \<Rightarrow> (case map_of (settled c) w of Some (Resolved h) \<Rightarrow> Some h | _ \<Rightarrow> None)
      | Answered a \<Rightarrow> (case a of Resolved h \<Rightarrow> Some h | _ \<Rightarrow> None)
      | CheckingMemory h \<Rightarrow> Some h
      | Running h \<Rightarrow> Some h)"

definition queuedFor :: "nat \<Rightarrow> MeteredCall \<Rightarrow> bool" where
  "queuedFor w call \<longleftrightarrow> mc_phase call = QueuedFor w"

text \<open>
  Every request slot of the controller is held by exactly one call and every waiter in the queue is the
  promise of exactly one call; a queued call's promise is in the queue or settled.
\<close>

definition slotsOk :: "AdmissionController \<Rightarrow> MeteredCall set \<Rightarrow> bool" where
  "slotsOk c C \<longleftrightarrow>
     (\<forall>x \<in> C. \<forall>w. queuedFor w x \<longrightarrow> w \<in> set (promises c))
     \<and> (\<forall>w \<in> w_id ` set (ownerWaiters c). \<exists>x \<in> C. queuedFor w x)
     \<and> (\<forall>x \<in> C. \<forall>y \<in> C. \<forall>w. queuedFor w x \<longrightarrow> queuedFor w y \<longrightarrow> x = y)
     \<and> (\<forall>h \<in> requestHolders c. \<exists>x \<in> C. slotOf c x = Some h)
     \<and> (\<forall>x \<in> C. \<forall>h. slotOf c x = Some h \<longrightarrow> h \<in> requestHolders c)
     \<and> (\<forall>x \<in> C. \<forall>y \<in> C. \<forall>h. slotOf c x = Some h \<longrightarrow> slotOf c y = Some h \<longrightarrow> x = y)"

lemma slotsOk_D:
  assumes "slotsOk c C"
  shows "x \<in> C \<Longrightarrow> queuedFor w x \<Longrightarrow> w \<in> set (promises c)"
    and "w \<in> w_id ` set (ownerWaiters c) \<Longrightarrow> \<exists>x \<in> C. queuedFor w x"
    and "x \<in> C \<Longrightarrow> y \<in> C \<Longrightarrow> queuedFor w x \<Longrightarrow> queuedFor w y \<Longrightarrow> x = y"
    and "h \<in> requestHolders c \<Longrightarrow> \<exists>x \<in> C. slotOf c x = Some h"
    and "x \<in> C \<Longrightarrow> slotOf c x = Some h \<Longrightarrow> h \<in> requestHolders c"
    and "x \<in> C \<Longrightarrow> y \<in> C \<Longrightarrow> slotOf c x = Some h \<Longrightarrow> slotOf c y = Some h \<Longrightarrow> x = y"
proof -
  note p = assms [unfolded slotsOk_def]
  show "x \<in> C \<Longrightarrow> queuedFor w x \<Longrightarrow> w \<in> set (promises c)" using p [THEN conjunct1] by blast
  show "w \<in> w_id ` set (ownerWaiters c) \<Longrightarrow> \<exists>x \<in> C. queuedFor w x" using p [THEN conjunct2, THEN conjunct1] by blast
  note p2 = p [THEN conjunct2, THEN conjunct2]
  show "x \<in> C \<Longrightarrow> y \<in> C \<Longrightarrow> queuedFor w x \<Longrightarrow> queuedFor w y \<Longrightarrow> x = y" using p2 [THEN conjunct1] by blast
  show "h \<in> requestHolders c \<Longrightarrow> \<exists>x \<in> C. slotOf c x = Some h" using p2 [THEN conjunct2, THEN conjunct1] by blast
  note p3 = p2 [THEN conjunct2, THEN conjunct2]
  show "x \<in> C \<Longrightarrow> slotOf c x = Some h \<Longrightarrow> h \<in> requestHolders c" using p3 [THEN conjunct1] by blast
  show "x \<in> C \<Longrightarrow> y \<in> C \<Longrightarrow> slotOf c x = Some h \<Longrightarrow> slotOf c y = Some h \<Longrightarrow> x = y" using p3 [THEN conjunct2] by blast
qed

lemma slotsOk_I:
  assumes "\<And>x w. x \<in> C \<Longrightarrow> queuedFor w x \<Longrightarrow> w \<in> set (promises c)"
    and "\<And>w. w \<in> w_id ` set (ownerWaiters c) \<Longrightarrow> \<exists>x \<in> C. queuedFor w x"
    and "\<And>x y w. x \<in> C \<Longrightarrow> y \<in> C \<Longrightarrow> queuedFor w x \<Longrightarrow> queuedFor w y \<Longrightarrow> x = y"
    and "\<And>h. h \<in> requestHolders c \<Longrightarrow> \<exists>x \<in> C. slotOf c x = Some h"
    and "\<And>x h. x \<in> C \<Longrightarrow> slotOf c x = Some h \<Longrightarrow> h \<in> requestHolders c"
    and "\<And>x y h. x \<in> C \<Longrightarrow> y \<in> C \<Longrightarrow> slotOf c x = Some h \<Longrightarrow> slotOf c y = Some h \<Longrightarrow> x = y"
  shows "slotsOk c C"
  unfolding slotsOk_def by (intro conjI ballI allI impI) (rule assms; assumption)+

lemma slotOf_same:
  "settled c' = settled c \<Longrightarrow> slotOf c' x = slotOf c x"
  by (simp add: slotOf_def split: CallPhase.split)

lemma slotsOk_same:
  assumes "settled c' = settled c" "ownerWaiters c' = ownerWaiters c" "requestHolders c' = requestHolders c"
  shows "slotsOk c' C = slotsOk c C"
  using assms slotOf_same [OF assms(1)] by (simp add: slotsOk_def)

lemmas slotsOk_cong = slotsOk_same [THEN iffD2, rotated 3]

lemma holders_below: "ctl_inv c \<Longrightarrow> h \<in> requestHolders c \<Longrightarrow> h < nextId c"
  by (auto simp: ctl_inv_def accounted_def requestHolders_def)

lemma promises_below: "ctl_inv c \<Longrightarrow> w \<in> set (promises c) \<Longrightarrow> w < nextId c"
  by (auto simp: ctl_inv_def queue_ok_def)

subsection \<open>Draining\<close>

lemma slotOf_grants:
  assumes "queue_ok c" "queue_ok c'" "grantsOnly gs c c'"
  shows "slotOf c' x = Some h \<longleftrightarrow> slotOf c x = Some h \<or> (\<exists>w. queuedFor w x \<and> (w, h) \<in> set gs)"
proof (cases "\<exists>w. queuedFor w x")
  case False
  then show ?thesis by (auto simp: slotOf_def queuedFor_def split: CallPhase.split)
next
  case True
  then obtain w where w: "mc_phase x = QueuedFor w" by (auto simp: queuedFor_def)
  note g = assms(3) [unfolded grantsOnly_def]
  let ?gs = "map (\<lambda>g. (fst g, Resolved (snd g))) gs"
  have settled': "settled c' = settled c @ ?gs" using g by simp
  have dist: "distinct (map fst (settled c @ ?gs))"
    using assms(2) unfolding queue_ok_def settled' by (simp only: distinct_append map_append)
  then have fresh: "w \<notin> fst ` set (settled c)" if "(w, h) \<in> set gs" using that by (force simp: image_iff)
  have "distinct (map fst gs)" using dist by (simp add: comp_def)
  then have look: "map_of ?gs w = Some (Resolved h) \<longleftrightarrow> (w, h) \<in> set gs"
    by (force simp: map_of_eq_Some_iff comp_def)
  have res: "\<exists>h. st = Resolved h" if "map_of ?gs w = Some st" for st
    using map_of_SomeD [OF that] by auto
  show ?thesis
  proof (cases "map_of (settled c) w")
    case None
    then have "map_of (settled c') w = map_of ?gs w" by (simp add: settled' map_add_def)
    then have "slotOf c' x = Some h \<longleftrightarrow> map_of ?gs w = Some (Resolved h)"
      using w res by (auto simp: slotOf_def split: option.split settlement.split)
    then show ?thesis using None look w by (auto simp: slotOf_def queuedFor_def)
  next
    case (Some st)
    then have "map_of (settled c') w = Some st" by (simp add: settled' map_add_def)
    moreover have "(w, h) \<notin> set gs" using Some fresh by (force dest: map_of_SomeD)
    ultimately show ?thesis using Some w by (auto simp: slotOf_def queuedFor_def)
  qed
qed

lemma grantsOnly_D:
  assumes "grantsOnly gs c c'"
  shows "set (promises c) \<subseteq> set (promises c')"
    and "w_id ` set (ownerWaiters c') \<subseteq> w_id ` set (ownerWaiters c)"
    and "(w, h) \<in> set gs \<Longrightarrow> w \<in> w_id ` set (ownerWaiters c)"
    and "(w, h) \<in> set gs \<Longrightarrow> nextId c \<le> h"
    and "(w, h) \<in> set gs \<Longrightarrow> (v, h) \<in> set gs \<Longrightarrow> w = v"
    and "h \<in> requestHolders c' \<longleftrightarrow> h \<in> requestHolders c \<or> (\<exists>w. (w, h) \<in> set gs)"
proof -
  note g = assms [unfolded grantsOnly_def set_map]
  have fsts: "fst ` set gs \<subseteq> w_id ` set (ownerWaiters c)" using g by simp
  show "set (promises c) \<subseteq> set (promises c')" using g by (auto simp: image_image)
  show "w_id ` set (ownerWaiters c') \<subseteq> w_id ` set (ownerWaiters c)" using g by simp
  show "(w, h) \<in> set gs \<Longrightarrow> w \<in> w_id ` set (ownerWaiters c)" using fsts by force
  show "(w, h) \<in> set gs \<Longrightarrow> nextId c \<le> h" using g by force
  have "inj_on snd (set gs)" using g by (simp add: distinct_map)
  then show "(w, h) \<in> set gs \<Longrightarrow> (v, h) \<in> set gs \<Longrightarrow> w = v" by (fastforce simp: inj_on_def)
  have "requestHolders c' = requestHolders c \<union> snd ` set gs" using g by simp
  then show "h \<in> requestHolders c' \<longleftrightarrow> h \<in> requestHolders c \<or> (\<exists>w. (w, h) \<in> set gs)" by force
qed

lemma slotsOk_grants:
  assumes ok: "slotsOk c C" and inv: "ctl_inv c" "ctl_inv c'" and g: "grantsOnly gs c c'"
  shows "slotsOk c' C"
proof -
  have q: "queue_ok c" "queue_ok c'" using inv by (simp_all add: ctl_inv_def)
  note slot = slotOf_grants [OF q g] and gs = grantsOnly_D [OF g]
  have slots: "\<exists>x \<in> C. slotOf c' x = Some h" if h: "h \<in> requestHolders c'" for h
  proof (cases "h \<in> requestHolders c")
    case True
    then show ?thesis using slotsOk_D(4) [OF ok True] slot by blast
  next
    case False
    then obtain w where w: "(w, h) \<in> set gs" using h gs(6) by blast
    then show ?thesis using slotsOk_D(2) [OF ok gs(3) [OF w]] slot by blast
  qed
  have unique: "x = y" if x: "x \<in> C" "slotOf c' x = Some h" and y: "y \<in> C" "slotOf c' y = Some h" for x y h
  proof -
    have old: "h < nextId c" if "z \<in> C" "slotOf c z = Some h" for z
      using holders_below [OF inv(1) slotsOk_D(5) [OF ok that]] .
    show ?thesis
    proof (cases "slotOf c x = Some h")
      case True
      then have "slotOf c y = Some h" using old [OF x(1) True] y(2) slot gs(4) by (metis not_le)
      then show ?thesis using slotsOk_D(6) [OF ok x(1) y(1) True] by simp
    next
      case False
      then obtain w where w: "queuedFor w x" "(w, h) \<in> set gs" using x(2) slot by blast
      then have "slotOf c y \<noteq> Some h" using old [OF y(1)] gs(4) by force
      then obtain v where "queuedFor v y" "(v, h) \<in> set gs" using y(2) slot by blast
      then show ?thesis using gs(5) w slotsOk_D(3) [OF ok x(1) y(1)] by blast
    qed
  qed
  show ?thesis
  proof (rule slotsOk_I)
    show "w \<in> set (promises c')" if "x \<in> C" "queuedFor w x" for x w
      using slotsOk_D(1) [OF ok that] gs(1) by blast
    show "\<exists>x \<in> C. queuedFor w x" if "w \<in> w_id ` set (ownerWaiters c')" for w
      using slotsOk_D(2) [OF ok subsetD [OF gs(2) that]] .
    show "x = y" if "x \<in> C" "y \<in> C" "queuedFor w x" "queuedFor w y" for x y w
      using slotsOk_D(3) [OF ok that] .
    show "h \<in> requestHolders c'" if "x \<in> C" "slotOf c' x = Some h" for x h
      using slotsOk_D(5) [OF ok that(1)] that(2) slot gs(6) by blast
  qed (use slots unique in blast)+
qed

lemma slotsOk_drain:
  assumes "slotsOk c C" "ctl_inv c"
  shows "slotsOk (drainQueue now c) C"
proof -
  obtain gs where "grantsOnly gs c (drainQueue now c)"
    using drainQueue_grants [of c now] assms(2) by (auto simp: ctl_inv_def)
  then show ?thesis using slotsOk_grants [OF assms(1,2)] ctl_inv_drainQueue [OF assms(2)] by blast
qed


subsection \<open>Taking, waiting, returning\<close>

lemma slotsOk_remove:
  assumes ok: "slotsOk c C" and none: "slotOf c x = None" "\<And>w. queuedFor w x \<Longrightarrow> w \<notin> w_id ` set (ownerWaiters c)"
  shows "slotsOk c (C - {x})"
proof (rule slotsOk_I)
  show "\<exists>y \<in> C - {x}. queuedFor w y" if "w \<in> w_id ` set (ownerWaiters c)" for w
    using slotsOk_D(2) [OF ok that] none(2) that by blast
  show "\<exists>y \<in> C - {x}. slotOf c y = Some h" if "h \<in> requestHolders c" for h
    using slotsOk_D(4) [OF ok that] none(1) by force
qed (use slotsOk_D(1,3,5,6) [OF ok] in blast)+

text \<open>A call that holds no slot and is not queued does not matter.\<close>

lemma slotsOk_add_idle:
  assumes ok: "slotsOk c C" and none: "slotOf c x = None" "\<And>w. \<not> queuedFor w x"
  shows "slotsOk c (insert x C)"
proof (rule slotsOk_I)
  show "\<exists>y \<in> insert x C. queuedFor w y" if "w \<in> w_id ` set (ownerWaiters c)" for w
    using slotsOk_D(2) [OF ok that] by blast
  show "\<exists>y \<in> insert x C. slotOf c y = Some h" if "h \<in> requestHolders c" for h
    using slotsOk_D(4) [OF ok that] by blast
  show "y = z" if "y \<in> insert x C" "z \<in> insert x C" "slotOf c y = Some h" "slotOf c z = Some h" for y z h
    using that none(1) slotsOk_D(6) [OF ok] by (metis insertE option.distinct(1))
  show "h \<in> requestHolders c" if "y \<in> insert x C" "slotOf c y = Some h" for y h
    using that none(1) slotsOk_D(5) [OF ok] by (metis insertE option.distinct(1))
qed (use slotsOk_D(1,3) [OF ok] none(2) in blast)+

lemma slotsOk_add_granted:
  assumes ok: "slotsOk c C" and inv: "ctl_inv c" and x: "mc_phase x = Answered (Resolved (nextId c))"
  shows "slotsOk (snd (takeSlot k c)) (insert x C)"
proof -
  let ?c = "snd (takeSlot k c)"
  have same: "slotOf ?c y = slotOf c y" for y by (rule slotOf_same) simp
  have x': "slotOf c x = Some (nextId c)" "\<not> queuedFor w x" for w using x by (simp_all add: slotOf_def queuedFor_def)
  have holders: "requestHolders ?c = insert (nextId c) (requestHolders c)"
    using inv by (simp add: requestHolders_takeSlot ctl_inv_def)
  have fresh: "slotOf c y \<noteq> Some (nextId c)" if "y \<in> C" for y
    using holders_below [OF inv slotsOk_D(5) [OF ok that]] by blast
  show ?thesis
  proof (rule slotsOk_I)
    show "\<exists>y \<in> insert x C. queuedFor w y" if "w \<in> w_id ` set (ownerWaiters ?c)" for w
      using slotsOk_D(2) [OF ok, of w] that by auto
    show "\<exists>y \<in> insert x C. slotOf ?c y = Some h" if "h \<in> requestHolders ?c" for h
      using slotsOk_D(4) [OF ok, of h] that x' unfolding holders same by auto
    show "y = z" if "y \<in> insert x C" "z \<in> insert x C" "slotOf ?c y = Some h" "slotOf ?c z = Some h" for y z h
      using that x'(1) fresh slotsOk_D(6) [OF ok] unfolding same by (metis insertE option.inject)
    show "h \<in> requestHolders ?c" if "y \<in> insert x C" "slotOf ?c y = Some h" for y h
      using that x'(1) slotsOk_D(5) [OF ok] unfolding same holders by (metis insert_iff option.inject)
    show "w \<in> set (promises ?c)" if "y \<in> insert x C" "queuedFor w y" for y w
      using that x'(2) slotsOk_D(1) [OF ok, of y w] by auto
    show "y = z" if "y \<in> insert x C" "z \<in> insert x C" "queuedFor w y" "queuedFor w z" for y z w
      using that x'(2) slotsOk_D(3) [OF ok] by blast
  qed
qed

lemma slotsOk_add_queued:
  assumes ok: "slotsOk c C" and inv: "ctl_inv c" and x: "mc_phase x = QueuedFor (nextId c)"
  shows "slotsOk (c\<lparr>ownerWaiters := ownerWaiters c @ [\<lparr>w_id = nextId c, w_keyId = k, w_keyMaxParallel = m\<rparr>],
                   nextId := Suc (nextId c)\<rparr>) (insert x C)"
proof -
  let ?c = "c\<lparr>ownerWaiters := ownerWaiters c @ [\<lparr>w_id = nextId c, w_keyId = k, w_keyMaxParallel = m\<rparr>],
      nextId := Suc (nextId c)\<rparr>"
  have same: "slotOf ?c y = slotOf c y" for y by (rule slotOf_same) simp
  have holders: "requestHolders ?c = requestHolders c" by (simp add: requestHolders_def)
  have fresh: "nextId c \<notin> set (promises c)" using promises_below [OF inv] by blast
  have qx: "queuedFor w x \<longleftrightarrow> w = nextId c" for w using x by (auto simp: queuedFor_def)
  have "map_of (settled c) (nextId c) = None" using fresh by (simp add: map_of_eq_None_iff)
  then have none: "slotOf c x = None" using x by (simp add: slotOf_def)
  have notC: "\<not> queuedFor (nextId c) y" if "y \<in> C" for y using slotsOk_D(1) [OF ok that] fresh by blast
  show ?thesis
  proof (rule slotsOk_I)
    show "\<exists>y \<in> insert x C. queuedFor w y" if "w \<in> w_id ` set (ownerWaiters ?c)" for w
      using slotsOk_D(2) [OF ok, of w] that qx by auto
    show "\<exists>y \<in> insert x C. slotOf ?c y = Some h" if "h \<in> requestHolders ?c" for h
      using slotsOk_D(4) [OF ok, of h] that unfolding holders same by blast
    show "y = z" if "y \<in> insert x C" "z \<in> insert x C" "slotOf ?c y = Some h" "slotOf ?c z = Some h" for y z h
      using that none slotsOk_D(6) [OF ok] unfolding same by (metis insertE option.distinct(1))
    show "h \<in> requestHolders ?c" if "y \<in> insert x C" "slotOf ?c y = Some h" for y h
      using that none slotsOk_D(5) [OF ok] unfolding same holders by (metis insertE option.distinct(1))
    show "w \<in> set (promises ?c)" if "y \<in> insert x C" "queuedFor w y" for y w
      using that qx slotsOk_D(1) [OF ok, of y w] by auto
    show "y = z" if "y \<in> insert x C" "z \<in> insert x C" "queuedFor w y" "queuedFor w z" for y z w
      using that qx notC slotsOk_D(3) [OF ok] by (metis insertE)
  qed
qed

text \<open>The two entry points of \<open>acquire\<close>, for a call that takes the phase its result gives.\<close>

lemma slotsOk_acquireDecide:
  assumes ok: "slotsOk c C" and inv: "ctl_inv c"
    and x: "mc_phase x = phaseOf (fst (acquireDecide now aborted req c))"
  shows "slotsOk (snd (acquireDecide now aborted req c)) (insert x C)"
proof (cases aborted)
  case True
  then show ?thesis using ok x
    by (intro slotsOk_add_idle [of "snd (acquireDecide now aborted req c)"])
      (simp_all add: acquireDecide_def slotOf_def queuedFor_def phaseOf_def)
next
  case False
  show ?thesis
  proof (cases "fst (admit (state c now) req (controllerConfig c))")
    case Admit
    then have "mc_phase x = Answered (Resolved (nextId c))"
      using x False by (simp add: acquireDecide_def phaseOf_def split_beta)
    from slotsOk_add_granted [OF ok inv this, of "rq_keyId req"] show ?thesis
      using Admit False by (simp add: acquireDecide_def split_beta)
  next
    case (Queue t)
    then have "mc_phase x = QueuedFor (nextId c)" using x False by (simp add: acquireDecide_def phaseOf_def)
    from slotsOk_add_queued [OF ok inv this, of "rq_keyId req" "rq_keyMaxParallel req"] show ?thesis
      using Queue False by (simp add: acquireDecide_def)
  next
    case (Reject t)
    then have "snd (acquireDecide now aborted req c) = c" "mc_phase x = Answered (RejectedAfter t)"
      using x False by (simp_all add: acquireDecide_def phaseOf_def)
    then show ?thesis using slotsOk_add_idle [OF ok, of x] by (simp add: slotOf_def queuedFor_def)
  qed
qed

lemma slotsOk_acquire:
  assumes ok: "slotsOk c C" and inv: "ctl_inv c"
    and x: "mc_phase x = phaseOf (fst (acquire now False req c))"
  shows "slotsOk (snd (acquire now False req c)) (insert x C)"
proof (cases "background c")
  case None
  then show ?thesis using slotsOk_acquireDecide [OF ok inv, of x now False req] x by (simp add: acquire_def)
next
  case (Some b)
  let ?c = "c\<lparr>abortedBackground := abortedBackground c @ [b]\<rparr>"
  have "slotsOk ?c C" using ok by (subst slotsOk_same [of _ c]) (simp_all add: requestHolders_def)
  then show ?thesis using x Some slotsOk_add_idle [of ?c C x]
    by (simp add: acquire_def phaseOf_def slotOf_def queuedFor_def)
qed

text \<open>A call that keeps its slot, or its place in the queue, under another record.\<close>

lemma slotsOk_move:
  assumes ok: "slotsOk c C" and x: "x \<in> C" and slot: "slotOf c y = slotOf c x"
    and left: "\<And>w. queuedFor w x \<Longrightarrow> w \<notin> w_id ` set (ownerWaiters c)" and y: "\<And>w. \<not> queuedFor w y"
  shows "slotsOk c (insert y (C - {x}))"
proof (rule slotsOk_I)
  show "\<exists>z \<in> insert y (C - {x}). queuedFor w z" if "w \<in> w_id ` set (ownerWaiters c)" for w
    using slotsOk_D(2) [OF ok that] left that by blast
  show "\<exists>z \<in> insert y (C - {x}). slotOf c z = Some h" if "h \<in> requestHolders c" for h
    using slotsOk_D(4) [OF ok that] slot by (metis insert_Diff insert_iff x)
  show "u = v" if "u \<in> insert y (C - {x})" "v \<in> insert y (C - {x})" "slotOf c u = Some h" "slotOf c v = Some h" for u v h
    using that slot x slotsOk_D(6) [OF ok] by (metis DiffD1 DiffD2 insertE singletonI)
  show "h \<in> requestHolders c" if "z \<in> insert y (C - {x})" "slotOf c z = Some h" for z h
    using that slot x slotsOk_D(5) [OF ok] by (metis DiffD1 insertE)
  show "w \<in> set (promises c)" if "z \<in> insert y (C - {x})" "queuedFor w z" for z w
    using that y slotsOk_D(1) [OF ok] by blast
  show "u = v" if "u \<in> insert y (C - {x})" "v \<in> insert y (C - {x})" "queuedFor w u" "queuedFor w v" for u v w
    using that y slotsOk_D(3) [OF ok] by blast
qed

lemma slotsOk_rename:
  assumes ok: "slotsOk c C" and x: "x \<in> C" and ph: "mc_phase y = mc_phase x"
  shows "slotsOk c (insert y (C - {x}))"
proof -
  have slot: "slotOf c y = slotOf c x" using ph by (simp add: slotOf_def)
  have q: "queuedFor w y = queuedFor w x" for w using ph by (simp add: queuedFor_def)
  show ?thesis
  proof (rule slotsOk_I)
    show "\<exists>z \<in> insert y (C - {x}). queuedFor w z" if "w \<in> w_id ` set (ownerWaiters c)" for w
      using slotsOk_D(2) [OF ok that] q x by (metis insert_Diff insert_iff)
    show "\<exists>z \<in> insert y (C - {x}). slotOf c z = Some h" if "h \<in> requestHolders c" for h
      using slotsOk_D(4) [OF ok that] slot x by (metis insert_Diff insert_iff)
    show "u = v" if "u \<in> insert y (C - {x})" "v \<in> insert y (C - {x})" "slotOf c u = Some h" "slotOf c v = Some h" for u v h
      using that slot x slotsOk_D(6) [OF ok] by (metis DiffD1 DiffD2 insertE singletonI)
    show "h \<in> requestHolders c" if "z \<in> insert y (C - {x})" "slotOf c z = Some h" for z h
      using that slot x slotsOk_D(5) [OF ok] by (metis DiffD1 insertE)
    show "w \<in> set (promises c)" if "z \<in> insert y (C - {x})" "queuedFor w z" for z w
      using that q x slotsOk_D(1) [OF ok] by (metis DiffD1 insertE)
    show "u = v" if "u \<in> insert y (C - {x})" "v \<in> insert y (C - {x})" "queuedFor w u" "queuedFor w v" for u v w
      using that q x slotsOk_D(3) [OF ok] by (metis DiffD1 DiffD2 insertE singletonI)
  qed
qed


lemma requestHolders_dropSlot:
  "accounted c \<Longrightarrow> requestHolders (dropSlot h c) = requestHolders c - {h}"
  by (auto simp: requestHolders_def dropSlot_def accounted_def fun_upd_idem split: option.split grant.split)

lemma ctl_inv_dropSlot: "ctl_inv c \<Longrightarrow> ctl_inv (dropSlot h c)"
  by (simp add: ctl_inv_def accounted_dropSlot within_slots_dropSlot queue_ok_dropSlot)

lemma slotsOk_drop:
  assumes ok: "slotsOk c C" and inv: "ctl_inv c" and x: "x \<in> C" "slotOf c x = Some h" "\<And>w. \<not> queuedFor w x"
  shows "slotsOk (dropSlot h c) (C - {x})"
proof -
  let ?c = "dropSlot h c"
  have same: "slotOf ?c y = slotOf c y" for y by (rule slotOf_same) (simp add: dropSlot_fields)
  have holders: "requestHolders ?c = requestHolders c - {h}"
    using inv by (simp add: requestHolders_dropSlot ctl_inv_def)
  show ?thesis
  proof (rule slotsOk_I)
    show "\<exists>y \<in> C - {x}. queuedFor w y" if "w \<in> w_id ` set (ownerWaiters ?c)" for w
      using slotsOk_D(2) [OF ok, of w] that x(3) by (auto simp: dropSlot_fields)
    show "\<exists>y \<in> C - {x}. slotOf ?c y = Some g" if "g \<in> requestHolders ?c" for g
      using slotsOk_D(4) [OF ok, of g] that x(2) unfolding holders same by auto
    show "y = z" if "y \<in> C - {x}" "z \<in> C - {x}" "slotOf ?c y = Some g" "slotOf ?c z = Some g" for y z g
      using that slotsOk_D(6) [OF ok] unfolding same by blast
    show "g \<in> requestHolders ?c" if "y \<in> C - {x}" "slotOf ?c y = Some g" for y g
      using that slotsOk_D(5,6) [OF ok] x(1,2) unfolding same holders by blast
    show "w \<in> set (promises ?c)" if "y \<in> C - {x}" "queuedFor w y" for y w
      using that slotsOk_D(1) [OF ok, of y w] by (simp add: dropSlot_fields)
  qed (use slotsOk_D(3) [OF ok] in blast)
qed

lemma slotsOk_release:
  assumes ok: "slotsOk c C" and inv: "ctl_inv c" and x: "x \<in> C" "slotOf c x = Some h" "\<And>w. \<not> queuedFor w x"
  shows "slotsOk (release now h c) (C - {x})"
proof -
  have "h \<in> dom (outstanding c)" using slotsOk_D(5) [OF ok x(1,2)] by (simp add: requestHolders_def)
  then show ?thesis
    using slotsOk_drain [OF slotsOk_drop [OF ok inv x] ctl_inv_dropSlot [OF inv]] by (simp add: release_dropSlot)
qed

lemma slotsOk_release_background:
  assumes ok: "slotsOk c C" and inv: "ctl_inv c" and h: "outstanding c h = Some BackgroundGrant"
  shows "slotsOk (release now h c) C"
proof -
  have "background c = Some h" using inv h by (simp add: ctl_inv_def accounted_def)
  then have "h \<notin> requestHolders c" by (simp add: requestHolders_def)
  moreover have "requestHolders (dropSlot h c) = requestHolders c - {h}"
    using inv by (simp add: requestHolders_dropSlot ctl_inv_def)
  ultimately have "slotsOk (dropSlot h c) C"
    by (intro slotsOk_cong [OF ok]) (simp_all add: dropSlot_fields)
  moreover have "h \<in> dom (outstanding c)" using h by auto
  ultimately show ?thesis using slotsOk_drain ctl_inv_dropSlot [OF inv] by (simp add: release_dropSlot)
qed

text \<open>A discarded waiter leaves the queue without a slot.\<close>

lemma slotsOk_discard:
  assumes ok: "slotsOk c C" and inv: "ctl_inv c" and err: "\<And>h. err \<noteq> Resolved h"
  shows "slotsOk (discard now w err c) C"
proof (cases "w \<in> set (map w_id (ownerWaiters c))")
  case False
  then show ?thesis using ok by (simp add: discard_def)
next
  case True
  let ?c = "c\<lparr>ownerWaiters := filter (\<lambda>v. w_id v \<noteq> w) (ownerWaiters c), settled := settled c @ [(w, err)]\<rparr>"
  have "w \<notin> fst ` set (settled c)" using inv True by (auto simp: ctl_inv_def queue_ok_def)
  then have new: "map_of (settled c) w = None" by (simp add: map_of_eq_None_iff)
  have look: "map_of (settled c @ [(w, st)]) v = (if v = w then Some st else map_of (settled c) v)" for v st
    using new by (auto simp: map_add_def split: option.split)
  have same: "slotOf ?c y = slotOf c y" for y
    using new err by (cases "mc_phase y"; cases err) (auto simp: slotOf_def look simp del: map_of_append)
  have holders: "requestHolders ?c = requestHolders c" by (simp add: requestHolders_def)
  have proms: "set (promises ?c) = set (promises c)" using True by auto
  have "slotsOk ?c C"
  proof (rule slotsOk_I)
    show "v \<in> set (promises ?c)" if "y \<in> C" "queuedFor v y" for y v
      using slotsOk_D(1) [OF ok that] proms by blast
    show "\<exists>y \<in> C. queuedFor v y" if "v \<in> w_id ` set (ownerWaiters ?c)" for v
      using slotsOk_D(2) [OF ok, of v] that by auto
  qed (use slotsOk_D(3,4,5,6) [OF ok] holders same in auto)
  moreover have "ctl_inv ?c"
    using inv True unfolding ctl_inv_def queue_ok_def
    by (auto simp: accounted_def within_slots_def requestHolders_def distinct_map_filter)
  ultimately show ?thesis using slotsOk_drain True by (simp add: discard_def)
qed

lemma slotsOk_maintenance:
  assumes ok: "slotsOk c C" and inv: "ctl_inv c"
  shows "slotsOk (snd (setMaintenanceMode now on ttl scope c)) C"
proof -
  define d where "d = c\<lparr>maintenanceMode := on, maintenanceScope := (if on then scope else ScopeGuest),
      maintenanceExpiresAtMs := (if on then map_option (\<lambda>t. now + t) ttl else None)\<rparr>"
  have "slotsOk d C" by (rule slotsOk_cong [OF ok]) (simp_all add: d_def requestHolders_def)
  moreover have "ctl_inv d" using inv by (simp add: d_def)
  ultimately have "slotsOk (if on then d else drainQueue now d) C" using slotsOk_drain by simp
  then show ?thesis by (cases on) (simp_all add: setMaintenanceMode_def Let_def d_def)
qed

lemma slotsOk_background:
  assumes ok: "slotsOk c C" and inv: "ctl_inv c"
  shows "slotsOk (snd (tryAcquireBackground c)) C"
proof (cases "background c \<noteq> None \<or> inflight c \<noteq> 0 \<or> ownerWaiters c \<noteq> []")
  case True
  then show ?thesis using ok by (auto simp: tryAcquireBackground_def)
next
  case False
  have "requestHolders (snd (tryAcquireBackground c)) = requestHolders c"
    using False inv fresh_handle [of c]
    by (auto simp: tryAcquireBackground_def makeRelease_def requestHolders_def ctl_inv_def)
  then show ?thesis using False
    by (intro slotsOk_cong [OF ok]) (simp_all add: tryAcquireBackground_def makeRelease_def)
qed


section \<open>The invariant of the slots\<close>

definition runningCall :: "string \<Rightarrow> MeteredCall \<Rightarrow> bool" where
  "runningCall a call \<longleftrightarrow> pc_alias (mc_principal call) = a \<and> (\<exists>h. mc_phase call = Running h)"

definition slotsPart :: "Spine \<Rightarrow> bool" where
  "slotsPart s \<longleftrightarrow>
     distinct (map mc_id (sp_calls s)) \<and> (\<forall>c \<in> set (sp_calls s). mc_id c < sp_nextCall s)
     \<and> ctl_inv (sp_ctl s) \<and> slotsOk (sp_ctl s) (set (sp_calls s))
     \<and> (\<forall>a. sp_inflight s a = count_entry (length (filter (runningCall a) (sp_calls s))))"

lemma slotsPart_D:
  assumes "slotsPart s"
  shows "distinct (map mc_id (sp_calls s))" "c \<in> set (sp_calls s) \<Longrightarrow> mc_id c < sp_nextCall s"
    "ctl_inv (sp_ctl s)" "slotsOk (sp_ctl s) (set (sp_calls s))"
    "sp_inflight s a = count_entry (length (filter (runningCall a) (sp_calls s)))"
  using assms by (simp_all add: slotsPart_def)

lemma slotsPart_cong:
  assumes "slotsPart s" "sp_calls t = sp_calls s" "sp_nextCall t = sp_nextCall s" "sp_ctl t = sp_ctl s"
    "sp_inflight t = sp_inflight s"
  shows "slotsPart t"
  using assms by (simp add: slotsPart_def)

text \<open>A call in the list, without it and with another in its place.\<close>

lemma call_split:
  assumes "distinct (map mc_id cs)" "x \<in> set cs"
  obtains us vs where "cs = us @ x # vs" "x \<notin> set (us @ vs)"
    "filter (\<lambda>c. mc_id c \<noteq> mc_id x) cs = us @ vs"
    "\<And>f. map (\<lambda>c. if mc_id c = mc_id x then f c else c) cs = us @ f x # vs"
proof -
  obtain us vs where cs: "cs = us @ x # vs" using split_list [OF assms(2)] by blast
  then have other: "mc_id c \<noteq> mc_id x" if "c \<in> set (us @ vs)" for c
    using assms(1) that by (metis (no_types, lifting) Un_iff distinct.simps(2) distinct_append image_eqI
        list.simps(9) map_append set_append set_map IntI empty_iff list.set_intros(1))
  show ?thesis
  proof (rule that [OF cs])
    show "x \<notin> set (us @ vs)" using other by blast
    show "filter (\<lambda>c. mc_id c \<noteq> mc_id x) cs = us @ vs" using other by (simp add: cs filter_id_conv)
    show "map (\<lambda>c. if mc_id c = mc_id x then f c else c) cs = us @ f x # vs" for f
      using other by (simp add: cs map_idI)
  qed
qed

lemma set_update_call:
  assumes "distinct (map mc_id cs)" "x \<in> set cs"
  shows "set (map (\<lambda>c. if mc_id c = mc_id x then f c else c) cs) = insert (f x) (set cs - {x})"
  by (rule call_split [OF assms]) (auto simp del: map_append filter_append list.map)

lemma set_remove_call:
  assumes "distinct (map mc_id cs)" "x \<in> set cs"
  shows "set (filter (\<lambda>c. mc_id c \<noteq> mc_id x) cs) = set cs - {x}"
  by (rule call_split [OF assms]) (auto simp del: map_append filter_append)

lemma ids_update_call:
  assumes "\<And>c. mc_id (f c) = mc_id c"
  shows "map mc_id (map (\<lambda>c. if mc_id c = mc_id x then f c else c) cs) = map mc_id cs"
  using assms by simp

lemma count_remove:
  assumes "distinct (map mc_id cs)" "x \<in> set cs"
  shows "length (filter P cs) = length (filter P (filter (\<lambda>c. mc_id c \<noteq> mc_id x) cs)) + (if P x then 1 else 0)"
proof (rule call_split [OF assms])
  fix us vs assume cs: "cs = us @ x # vs" and others: "filter (\<lambda>c. mc_id c \<noteq> mc_id x) cs = us @ vs"
  show ?thesis unfolding others by (simp add: cs)
qed

lemma count_update:
  assumes "distinct (map mc_id cs)" "x \<in> set cs"
  shows "length (filter P (map (\<lambda>c. if mc_id c = mc_id x then f c else c) cs)) + (if P x then 1 else 0)
       = length (filter P cs) + (if P (f x) then 1 else 0)"
proof (rule call_split [OF assms])
  fix us vs assume cs: "cs = us @ x # vs" and upd: "\<And>f. map (\<lambda>c. if mc_id c = mc_id x then f c else c) cs = us @ f x # vs"
  show ?thesis unfolding upd by (simp add: cs)
qed

subsection \<open>Every step keeps it\<close>

lemma runningCall_phase [simp]:
  "runningCall a (call\<lparr>mc_phase := ph\<rparr>) \<longleftrightarrow> pc_alias (mc_principal call) = a \<and> (\<exists>h. ph = Running h)"
  by (simp add: runningCall_def)

lemma slotsPart_ctl:
  assumes "slotsPart s" "ctl_inv c" "slotsOk c (set (sp_calls s))"
  shows "slotsPart (s\<lparr>sp_ctl := c\<rparr>)"
  using assms by (simp add: slotsPart_def)

lemma slotsPart_enter:
  assumes ok: "slotsPart s"
  shows "slotsPart (enterAdmission surface p model credits reserved reservation now s)"
proof -
  let ?req = "admissionRequest p model s"
  let ?r = "acquire now False ?req (sp_ctl s)"
  define call where "call = \<lparr>mc_id = sp_nextCall s, mc_surface = surface, mc_principal = p, mc_request = ?req,
      mc_credits = credits, mc_reserved = reserved, mc_reservation = reservation, mc_gone = False,
      mc_phase = phaseOf (fst ?r)\<rparr>"
  have eq: "enterAdmission surface p model credits reserved reservation now s =
      s\<lparr>sp_ctl := snd ?r, sp_calls := sp_calls s @ [call], sp_nextCall := Suc (sp_nextCall s)\<rparr>"
    by (simp add: enterAdmission_def Let_def split_beta call_def)
  have phase: "mc_phase call = phaseOf (fst ?r)" and newid: "mc_id call = sp_nextCall s" by (simp_all add: call_def)
  have "\<not> (\<exists>h. phaseOf (fst ?r) = Running h)" by (cases "fst ?r") (simp_all add: phaseOf_def)
  then have idle: "\<not> runningCall a call" for a by (simp add: runningCall_def phase)
  have "slotsOk (snd ?r) (set (sp_calls s @ [call]))"
    using slotsOk_acquire [OF slotsPart_D(4,3) [OF ok] phase] by simp
  moreover have "ctl_inv (snd ?r)" using slotsPart_D(3) [OF ok] by (rule ctl_inv_acquire)
  moreover have "sp_nextCall s \<notin> mc_id ` set (sp_calls s)" using slotsPart_D(2) [OF ok] by force
  ultimately show ?thesis
    using slotsPart_D(1,2,5) [OF ok] idle unfolding eq by (auto simp: slotsPart_def newid less_Suc_eq)
qed

text \<open>A call changes its record but not whether it runs, together with the controller.\<close>

lemma slotsPart_update:
  assumes ok: "slotsPart s" and x: "x \<in> set (sp_calls s)" and f: "\<And>c. mc_id (f c) = mc_id c"
    and run: "\<And>a. runningCall a (f x) = runningCall a x"
    and ctl: "ctl_inv c'" "slotsOk c' (insert (f x) (set (sp_calls s) - {x}))"
  shows "slotsPart (s\<lparr>sp_ctl := c', sp_calls := map (\<lambda>c. if mc_id c = mc_id x then f c else c) (sp_calls s)\<rparr>)"
proof -
  note d = slotsPart_D(1) [OF ok]
  have "length (filter (runningCall a) (map (\<lambda>c. if mc_id c = mc_id x then f c else c) (sp_calls s)))
      = length (filter (runningCall a) (sp_calls s))" for a
    using count_update [OF d x, of "runningCall a" f] run [of a] by simp
  moreover have "distinct (map mc_id (map (\<lambda>c. if mc_id c = mc_id x then f c else c) (sp_calls s)))"
    unfolding ids_update_call [of f, OF f] by (rule d)
  moreover have "mc_id c < sp_nextCall s" if "c \<in> insert (f x) (set (sp_calls s) - {x})" for c
    using that slotsPart_D(2) [OF ok] x f by auto
  ultimately show ?thesis
    using ctl slotsPart_D(5) [OF ok] unfolding slotsPart_def by (simp add: set_update_call [OF d x] del: set_map)
qed

lemma slotsPart_setPhase:
  assumes ok: "slotsPart s" and x: "x \<in> set (sp_calls s)"
    and idle: "\<And>h. mc_phase x \<noteq> Running h" "\<And>h. ph \<noteq> Running h"
    and ctl: "ctl_inv c'" "slotsOk c' (insert (x\<lparr>mc_phase := ph\<rparr>) (set (sp_calls s) - {x}))"
  shows "slotsPart (setPhase x ph (s\<lparr>sp_ctl := c'\<rparr>))"
  using slotsPart_update [OF ok x, of "\<lambda>c. c\<lparr>mc_phase := ph\<rparr>" c'] idle ctl
  by (simp add: setPhase_def runningCall_def)

lemma slotsPart_begin:
  assumes ok: "slotsPart s" and x: "x \<in> set (sp_calls s)" "mc_phase x = Answered (Resolved h) \<or> mc_phase x = CheckingMemory h"
  shows "slotsPart (beginHandler h x s)"
proof -
  let ?y = "x\<lparr>mc_phase := Running h\<rparr>" and ?f = "\<lambda>c. c\<lparr>mc_phase := Running h\<rparr>"
  let ?cs = "map (\<lambda>c. if mc_id c = mc_id x then ?f c else c) (sp_calls s)"
  note d = slotsPart_D(1) [OF ok]
  have x': "slotOf (sp_ctl s) x = Some h" "\<not> queuedFor w x" "\<not> runningCall a x" for w a
    using x(2) by (auto simp: slotOf_def queuedFor_def runningCall_def)
  have "slotOf (sp_ctl s) ?y = slotOf (sp_ctl s) x" using x' by (simp add: slotOf_def)
  then have "slotsOk (sp_ctl s) (insert ?y (set (sp_calls s) - {x}))"
    by (rule slotsOk_move [OF slotsPart_D(4) [OF ok] x(1)]) (use x' in \<open>auto simp: queuedFor_def\<close>)
  moreover have "length (filter (runningCall a) ?cs)
      = length (filter (runningCall a) (sp_calls s)) + (if pc_alias (mc_principal x) = a then 1 else 0)" for a
    using count_update [OF d x(1), of "runningCall a" ?f] x'(3) [of a] by simp
  moreover have "distinct (map mc_id ?cs)" using d by (subst ids_update_call) simp_all
  moreover have "mc_id c < sp_nextCall s" if "c \<in> insert ?y (set (sp_calls s) - {x})" for c
    using that slotsPart_D(2) [OF ok] x(1) by auto
  moreover have "get_or (sp_inflight s) a 0 = int (length (filter (runningCall a) (sp_calls s)))" for a
    using slotsPart_D(5) [OF ok] by (rule get_or_count_entry)
  ultimately show ?thesis
    using slotsPart_D(3,5) [OF ok] unfolding slotsPart_def beginHandler_def incInflight_def setPhase_def
    by (simp add: set_update_call [OF d x(1)] count_entry_def del: set_map)
qed

lemma slotsPart_unwind:
  assumes ok: "slotsPart s" and x: "x \<in> set (sp_calls s)" "\<And>w. \<not> queuedFor w x" "\<And>h. mc_phase x \<noteq> Running h"
    and slot: "slotOf (sp_ctl s) x = slot"
  shows "slotsPart (unwindCall now slot x s)"
proof -
  note d = slotsPart_D(1) [OF ok]
  define c' where "c' = (case slot of None \<Rightarrow> sp_ctl s | Some h \<Rightarrow> release now h (sp_ctl s))"
  have "slotsOk c' (set (sp_calls s) - {x})"
  proof (cases slot)
    case None
    then show ?thesis using slotsOk_remove [OF slotsPart_D(4) [OF ok], of x] slot x(2) by (simp add: c'_def)
  next
    case (Some h)
    then show ?thesis using slotsOk_release [OF slotsPart_D(4,3) [OF ok] x(1) _ x(2)] slot by (simp add: c'_def)
  qed
  moreover have "ctl_inv c'" using slotsPart_D(3) [OF ok] by (simp add: c'_def ctl_inv_release split: option.split)
  moreover have "length (filter (runningCall a) (filter (\<lambda>c. mc_id c \<noteq> mc_id x) (sp_calls s)))
      = length (filter (runningCall a) (sp_calls s))" for a
    using count_remove [OF d x(1), of "runningCall a"] x(3) by (simp add: runningCall_def)
  moreover have "sp_ctl (unwindCall now slot x s) = c'" "sp_inflight (unwindCall now slot x s) = sp_inflight s"
    "sp_nextCall (unwindCall now slot x s) = sp_nextCall s"
    "sp_calls (unwindCall now slot x s) = filter (\<lambda>c. mc_id c \<noteq> mc_id x) (sp_calls s)"
    by (auto simp: unwindCall_def dropCall_def undoReserve_def c'_def Let_def split: option.split)
  ultimately show ?thesis
    using d slotsPart_D(2,5) [OF ok] unfolding slotsPart_def
    by (simp add: set_remove_call [OF d x(1)] distinct_map_filter del: set_filter filter_filter)
qed

lemma slotsPart_finish:
  assumes ok: "slotsPart s" and x: "x \<in> set (sp_calls s)" "mc_phase x = Running h"
  shows "slotsPart (finishCall now result h x s)"
proof -
  note d = slotsPart_D(1) [OF ok]
  let ?a = "pc_alias (mc_principal x)"
  have x': "slotOf (sp_ctl s) x = Some h" "\<not> queuedFor w x" "runningCall a x \<longleftrightarrow> a = ?a" for w a
    using x(2) by (auto simp: slotOf_def queuedFor_def runningCall_def)
  have slots: "slotsOk (release now h (sp_ctl s)) (set (sp_calls s) - {x})"
    using slotsOk_release [OF slotsPart_D(4,3) [OF ok] x(1) x'(1,2)] .
  define n where "n = (\<lambda>a. length (filter (runningCall a) (filter (\<lambda>c. mc_id c \<noteq> mc_id x) (sp_calls s))))"
  have count: "sp_inflight s a = count_entry (n a + (if a = ?a then 1 else 0))" for a
    using slotsPart_D(5) [OF ok, of a] count_remove [OF d x(1), of "runningCall a"] x'(3) [of a] by (simp add: n_def)
  then have "get_or (sp_inflight s) ?a 1 = int (Suc (n ?a))" by (simp add: get_or_def)
  then have dec: "sp_inflight (decInflight ?a s) a = count_entry (n a)" for a
    using count [of a] by (auto simp: decInflight_def Let_def count_entry_def)
  have fields: "sp_ctl (finishCall now result h x s) = release now h (sp_ctl s)"
    "sp_inflight (finishCall now result h x s) = sp_inflight (decInflight ?a s)"
    "sp_nextCall (finishCall now result h x s) = sp_nextCall s"
    "sp_calls (finishCall now result h x s) = filter (\<lambda>c. mc_id c \<noteq> mc_id x) (sp_calls s)"
    by (auto simp: finishCall_def dropCall_def decInflight_def Let_def split_beta split: option.split)
  show ?thesis
    using d slots ctl_inv_release [OF slotsPart_D(3) [OF ok]] slotsPart_D(2) [OF ok] dec
    unfolding slotsPart_def fields n_def
    by (simp add: set_remove_call [OF d x(1)] distinct_map_filter del: set_filter filter_filter)
qed


end
