(* ===== verification/Spine_Ledger.thy ===== *)
theory Spine_Ledger
  imports Metered_Spine
begin

text \<open>
  The books of the metered spine, over every interleaving of its calls: starts and refusals, waits, client
  disconnects, timeouts, memory refusals, handlers that return or throw, background leases, maintenance windows
  and top-ups. A metered call holds one reservation from its quota check until it is unwound or settled.
\<close>

section \<open>The reservations of the calls\<close>

definition callRes :: "MeteredCall \<Rightarrow> Reservation" where
  "callRes call =
     (let p = mc_principal call; r = the (mc_reservation call)
      in \<lparr>rv_key = pc_keyHash p, rv_credits = (if mc_reserved call then mc_credits call else 0),
          rv_slot = (pc_alias p, r_day r), rv_units = r_reservedDaily r\<rparr>)"

definition callsHeld :: "MeteredCall list \<Rightarrow> Reservation multiset" where
  "callsHeld calls = mset (map callRes (filter metered calls))"

text \<open>Whether a principal's key is capped is what its row says; that never changes while the key exists.\<close>

definition principalOk :: "KeyDb \<Rightarrow> PrincipalContext \<Rightarrow> bool" where
  "principalOk keys p \<longleftrightarrow> (case pc_keyHash p of None \<Rightarrow> True | Some h \<Rightarrow> (pc_creditLimit p > 0) = cappedHash h keys)"

definition callOk :: "KeyDb \<Rightarrow> MeteredCall \<Rightarrow> bool" where
  "callOk keys call \<longleftrightarrow>
     (if metered call
      then (\<exists>r. mc_reservation call = Some r \<and> 1 \<le> r_reservedDaily r) \<and> 0 \<le> mc_credits call
           \<and> mc_reserved call = creditCapped (mc_principal call) \<and> principalOk keys (mc_principal call)
      else \<not> mc_reserved call \<and> (\<forall>r. mc_reservation call = Some r \<longrightarrow> r_reservedDaily r = 0))"

definition booksPart :: "(string \<Rightarrow> int) \<Rightarrow> Ledger \<Rightarrow> MeteredCall list \<Rightarrow> KeyDb \<Rightarrow> QuotaState \<Rightarrow> bool" where
  "booksPart over L calls keys q \<longleftrightarrow>
     booksBy (keysWithin over) L (callsHeld calls) keys q \<and> (\<forall>c \<in> set calls. callOk keys c)"

lemma booksPart_D:
  assumes "booksPart over L calls keys q"
  shows "booksBy (keysWithin over) L (callsHeld calls) keys q" "c \<in> set calls \<Longrightarrow> callOk keys c" "keysWithin over keys"
  using assms by (simp_all add: booksPart_def booksBy_def)

lemma callOk_keys:
  assumes "\<And>h. cappedHash h keys' = cappedHash h keys"
  shows "callOk keys' call = callOk keys call"
  using assms by (simp add: callOk_def principalOk_def split: option.split)

lemma callsHeld_remove:
  assumes "distinct (map mc_id cs)" "x \<in> set cs"
  shows "callsHeld cs = (if metered x then {#callRes x#} else {#}) + callsHeld (filter (\<lambda>c. mc_id c \<noteq> mc_id x) cs)"
proof (rule call_split [OF assms])
  fix us vs assume cs: "cs = us @ x # vs" and others: "filter (\<lambda>c. mc_id c \<noteq> mc_id x) cs = us @ vs"
  show ?thesis unfolding others by (simp add: cs callsHeld_def)
qed

lemma callsHeld_update:
  assumes "\<And>c. callRes (f c) = callRes c" "\<And>c. metered (f c) = metered c"
  shows "callsHeld (map (\<lambda>c. if P c then f c else c) cs) = callsHeld cs"
  using assms by (induction cs) (simp_all add: callsHeld_def)

lemma callsHeld_append [simp]: "callsHeld (cs @ [x]) = callsHeld cs + (if metered x then {#callRes x#} else {#})"
  by (simp add: callsHeld_def)

text \<open>Records that differ in phase and presence of the client hold the same.\<close>

lemma callRes_phase [simp]:
  "callRes (c\<lparr>mc_phase := ph\<rparr>) = callRes c" "metered (c\<lparr>mc_phase := ph\<rparr>) = metered c"
  "callOk keys (c\<lparr>mc_phase := ph\<rparr>) = callOk keys c"
  "callRes (c\<lparr>mc_gone := g\<rparr>) = callRes c" "metered (c\<lparr>mc_gone := g\<rparr>) = metered c"
  "callOk keys (c\<lparr>mc_gone := g\<rparr>) = callOk keys c"
  by (simp_all add: callRes_def metered_def callOk_def)

lemma booksPart_update:
  assumes "booksPart over L cs keys q"
    and f: "\<And>c. callRes (f c) = callRes c" "\<And>c. metered (f c) = metered c" "\<And>c. callOk keys (f c) = callOk keys c"
  shows "booksPart over L (map (\<lambda>c. if mc_id c = i then f c else c) cs) keys q"
  using assms(1) callsHeld_update [OF f(1,2)] by (auto simp: booksPart_def f(3))

section \<open>Settling\<close>

lemma booksPart_remove:
  assumes ok: "booksPart over L cs keys q" and d: "distinct (map mc_id cs)" and x: "x \<in> set cs" "metered x"
    and keys: "settledBy (keysWithin over') (callRes x) credits keys keys'" "\<And>h. cappedHash h keys' = cappedHash h keys"
    and units: "unitsSettled (callRes x) used q q'" and nonneg: "0 \<le> credits" "0 \<le> used"
  shows "booksPart over' (charge (callRes x) credits used L) (filter (\<lambda>c. mc_id c \<noteq> mc_id x) cs) keys' q'"
proof -
  let ?cs = "filter (\<lambda>c. mc_id c \<noteq> mc_id x) cs"
  have "callsHeld cs = add_mset (callRes x) (callsHeld ?cs)" using callsHeld_remove [OF d x(1)] x(2) by simp
  then have "booksBy (keysWithin over') (charge (callRes x) credits used L) (callsHeld ?cs) keys' q'"
    using booksBy_settle [OF _ keys(1) units nonneg] booksPart_D(1) [OF ok] by simp
  then show ?thesis using booksPart_D(2) [OF ok] callOk_keys [OF keys(2)] by (simp add: booksPart_def)
qed

lemma overrun_zero: "0 \<le> rv_credits res \<Longrightarrow> overrun res 0 over = over"
  by (auto simp: overrun_def)

text \<open>Only a call that reserved can exceed its reservation: a key without a cap reserves nothing.\<close>

definition callOver :: "MeteredCall \<Rightarrow> int \<Rightarrow> (string \<Rightarrow> int) \<Rightarrow> string \<Rightarrow> int" where
  "callOver call billable over = (if mc_reserved call then overrun (callRes call) billable over else over)"

text \<open>What a metered call's settlement does to the keys: with a charge, and with none.\<close>

lemma settleKey_settles:
  assumes ok: "keysWithin over keys" and call: "callOk keys x" "metered x" and billable: "0 \<le> billable"
  shows "settledBy (keysWithin (callOver x billable over)) (callRes x) billable keys (settleKey x billable keys)"
    and "cappedHash h (settleKey x billable keys) = cappedHash h keys"
proof -
  let ?K = "keysWithin (callOver x billable over)"
  have over: "callOver x billable over g \<ge> over g" for g by (simp add: callOver_def overrun_def)
  show "settledBy ?K (callRes x) billable keys (settleKey x billable keys)"
  proof (cases "pc_keyHash (mc_principal x)")
    case None
    then have "rv_credits (callRes x) = 0" "rv_key (callRes x) = None"
      using call by (simp_all add: callRes_def Let_def callOk_def creditCapped_def)
    then show ?thesis using settledBy_none [of ?K keys] keysWithin_mono [OF ok over] None by (simp add: settleKey_def)
  next
    case (Some g)
    show ?thesis
    proof (cases "mc_reserved x")
      case True
      then have res: "rv_credits (callRes x) = mc_credits x" "rv_key (callRes x) = Some g"
        using Some by (simp_all add: callRes_def Let_def)
      then show ?thesis
        using settledBy_reconcile [of ?K g "callRes x" billable keys] keysWithin_reconcile [OF ok res(2)] billable True Some
        by (simp add: settleKey_def callOver_def)
    next
      case False
      then have res: "rv_credits (callRes x) = 0" "rv_key (callRes x) = Some g" "\<not> cappedHash g keys"
        using Some call by (auto simp: callRes_def Let_def callOk_def creditCapped_def principalOk_def)
      have "?K (recordCreditUsage g billable keys)"
        using keysWithin_mono [OF keysWithin_record [OF ok res(3)] over] .
      then show ?thesis using settledBy_record [of ?K g billable keys "callRes x"] res billable False Some
        by (simp add: settleKey_def)
    qed
  qed
  show "cappedHash h (settleKey x billable keys) = cappedHash h keys"
    by (simp add: settleKey_def split: option.split)
qed

lemma undoReserve_settles:
  assumes ok: "keysWithin over (sp_keys s)" and call: "callOk (sp_keys s) x" "metered x"
  shows "settledBy (keysWithin over) (callRes x) 0 (sp_keys s)
           (sp_keys (undoReserve (mc_principal x) (mc_reserved x) (mc_credits x) s))"
    and "cappedHash h (sp_keys (undoReserve (mc_principal x) (mc_reserved x) (mc_credits x) s)) = cappedHash h (sp_keys s)"
proof -
  have nonneg: "0 \<le> rv_credits (callRes x)" using call by (simp add: callRes_def Let_def callOk_def)
  show "settledBy (keysWithin over) (callRes x) 0 (sp_keys s)
           (sp_keys (undoReserve (mc_principal x) (mc_reserved x) (mc_credits x) s))"
  proof (cases "mc_reserved x")
    case True
    then obtain g where g: "pc_keyHash (mc_principal x) = Some g"
      using call by (auto simp: callOk_def creditCapped_def)
    have res: "rv_credits (callRes x) = mc_credits x" "rv_key (callRes x) = Some g"
      using True g by (simp_all add: callRes_def Let_def)
    show ?thesis
      using settledBy_reconcile [of "keysWithin over" g "callRes x" 0 "sp_keys s"] keysWithin_reconcile [OF ok res(2), of 0]
        overrun_zero [OF nonneg, of over] res True g by (simp add: undoReserve_def)
  next
    case False
    then have "rv_credits (callRes x) = 0" by (simp add: callRes_def Let_def)
    then show ?thesis using settledBy_none [of "keysWithin over"] ok False by (simp add: undoReserve_def)
  qed
  show "cappedHash h (sp_keys (undoReserve (mc_principal x) (mc_reserved x) (mc_credits x) s)) = cappedHash h (sp_keys s)"
    by (simp add: undoReserve_def)
qed

text \<open>A tokenization's reservation is empty, so its settlement leaves the daily counters alone.\<close>

lemma daily_recordUsage_zero:
  assumes "r_reservedDaily r = 0"
  shows "daily (recordUsage a 0 now (Some r) q) = daily q"
  using assms by (simp add: recordUsage_def adjustDaily_def Let_def split: option.split)

lemma booksPart_unmetered:
  assumes ok: "booksPart over L cs keys q" and d: "distinct (map mc_id cs)" and x: "x \<in> set cs" "\<not> metered x"
    and q: "daily q' = daily q"
  shows "booksPart over L (filter (\<lambda>c. mc_id c \<noteq> mc_id x) cs) keys q'"
proof -
  have "callsHeld (filter (\<lambda>c. mc_id c \<noteq> mc_id x) cs) = callsHeld cs" using callsHeld_remove [OF d x(1)] x(2) by simp
  then show ?thesis using ok booksBy_daily_cong [OF booksPart_D(1) [OF ok], of q'] q by (simp add: booksPart_def)
qed

lemma booksPart_unwind:
  fixes now slot
  assumes ok: "booksPart over L (sp_calls s) (sp_keys s) (sp_quota s)" and d: "distinct (map mc_id (sp_calls s))"
    and x: "x \<in> set (sp_calls s)"
  defines "s' \<equiv> unwindCall now slot x s"
  shows "booksPart over L (sp_calls s') (sp_keys s') (sp_quota s')"
proof -
  let ?u = "undoReserve (mc_principal x) (mc_reserved x) (mc_credits x) s"
  have calls: "sp_calls s' = filter (\<lambda>c. mc_id c \<noteq> mc_id x) (sp_calls s)"
    and keys: "sp_keys s' = sp_keys ?u"
    by (auto simp: s'_def unwindCall_def dropCall_def undoReserve_def Let_def split: option.split)
  have quota: "sp_quota s' = (case mc_reservation x of None \<Rightarrow> sp_quota s
      | Some r \<Rightarrow> recordUsage (pc_alias (mc_principal x)) 0 now (Some r) (sp_quota s))"
    by (auto simp: s'_def unwindCall_def dropCall_def undoReserve_def Let_def split: option.split)
  note call = booksPart_D(2) [OF ok x]
  show ?thesis
  proof (cases "metered x")
    case True
    then obtain r where r: "mc_reservation x = Some r" using call by (auto simp: callOk_def)
    have "unitsSettled (callRes x) 0 (sp_quota s) (sp_quota s')"
      using unitsSettled_recordUsage [of "callRes x" "pc_alias (mc_principal x)" r] r by (simp add: quota callRes_def Let_def)
    from booksPart_remove [OF ok d x True undoReserve_settles(1) [OF booksPart_D(3) [OF ok] call True]
        undoReserve_settles(2) [OF booksPart_D(3) [OF ok] call True] this]
    show ?thesis by (simp add: calls keys)
  next
    case False
    then have "\<not> mc_reserved x" and zero: "\<And>r. mc_reservation x = Some r \<Longrightarrow> r_reservedDaily r = 0"
      using call by (simp_all add: callOk_def)
    then show ?thesis using booksPart_unmetered [OF ok d x False, of "sp_quota s'"] daily_recordUsage_zero
      by (simp add: calls keys quota undoReserve_def split: option.split)
  qed
qed

text \<open>What the end of a call charges, and by how much it exceeds the reservation.\<close>

definition finishLedger :: "MeteredCall \<Rightarrow> (int \<times> int) option \<Rightarrow> Ledger \<Rightarrow> Ledger" where
  "finishLedger call result L =
     (case result of Some (tokens, billable) \<Rightarrow> if metered call then charge (callRes call) billable tokens L else L
      | None \<Rightarrow> L)"

definition finishOver :: "MeteredCall \<Rightarrow> (int \<times> int) option \<Rightarrow> (string \<Rightarrow> int) \<Rightarrow> string \<Rightarrow> int" where
  "finishOver call result over =
     (case result of Some (tokens, billable) \<Rightarrow> if metered call then callOver call billable over else over
      | None \<Rightarrow> over)"

lemma booksPart_finish:
  fixes now result h
  assumes ok: "booksPart over L (sp_calls s) (sp_keys s) (sp_quota s)" and d: "distinct (map mc_id (sp_calls s))"
    and x: "x \<in> set (sp_calls s)" and result: "\<And>t b. result = Some (t, b) \<Longrightarrow> 0 \<le> t \<and> 0 \<le> b"
  defines "s' \<equiv> finishCall now result h x s"
  shows "booksPart (finishOver x result over) (finishLedger x result L) (sp_calls s') (sp_keys s') (sp_quota s')"
proof -
  define used billable where "used = (case result of Some (t, _) \<Rightarrow> if metered x then t else 0 | None \<Rightarrow> 0)"
    and "billable = (case result of Some (_, b) \<Rightarrow> if metered x then b else 0 | None \<Rightarrow> 0)"
  have nonneg: "0 \<le> billable" "0 \<le> used" using result by (auto simp: used_def billable_def split: option.split)
  have calls: "sp_calls s' = filter (\<lambda>c. mc_id c \<noteq> mc_id x) (sp_calls s)"
    and keys: "sp_keys s' = (if metered x then settleKey x billable (sp_keys s) else sp_keys s)"
    and quota: "sp_quota s' = (case mc_reservation x of None \<Rightarrow> sp_quota s
      | Some r \<Rightarrow> recordUsage (pc_alias (mc_principal x)) used now (Some r) (sp_quota s))"
    by (auto simp: s'_def finishCall_def dropCall_def decInflight_def Let_def split_beta used_def billable_def
        split: option.split)
  note call = booksPart_D(2) [OF ok x]
  show ?thesis
  proof (cases "metered x")
    case True
    then obtain r where r: "mc_reservation x = Some r" using call by (auto simp: callOk_def)
    have credits: "0 \<le> rv_credits (callRes x)" using call True by (simp add: callRes_def Let_def callOk_def)
    have ledger: "finishLedger x result L = charge (callRes x) billable used L"
      "finishOver x result over = callOver x billable over"
      using True overrun_zero [OF credits]
      by (auto simp: finishLedger_def finishOver_def callOver_def used_def billable_def split: option.split)
    have "unitsSettled (callRes x) used (sp_quota s) (sp_quota s')"
      using unitsSettled_recordUsage [of "callRes x" "pc_alias (mc_principal x)" r] r by (simp add: quota callRes_def Let_def)
    from booksPart_remove [OF ok d x True settleKey_settles [OF booksPart_D(3) [OF ok] call True nonneg(1)] this nonneg]
    show ?thesis using True by (simp add: calls keys ledger)
  next
    case False
    then have zero: "\<And>r. mc_reservation x = Some r \<Longrightarrow> r_reservedDaily r = 0" using call by (simp add: callOk_def)
    have "daily (sp_quota s') = daily (sp_quota s)"
      using zero daily_recordUsage_zero False by (auto simp: quota used_def split: option.split)
    moreover have "finishLedger x result L = L" "finishOver x result over = over"
      using False by (auto simp: finishLedger_def finishOver_def split: option.split)
    ultimately show ?thesis using booksPart_unmetered [OF ok d x False] False by (simp add: calls keys)
  qed
qed

section \<open>Starting\<close>

lemma takeReserve_cases:
  assumes ok: "booksPart over L cs (sp_keys s) q" and p: "principalOk (sp_keys s) p" and amount: "0 \<le> amount"
  obtains (refused) "takeReserve p amount s = (False, s)"
  | (taken) keys where "takeReserve p amount s = (True, s\<lparr>sp_keys := keys\<rparr>)"
      "undoReserve p (creditCapped p) amount (s\<lparr>sp_keys := keys\<rparr>) = s"
      "keysWithin over keys" "\<And>h. cappedHash h keys = cappedHash h (sp_keys s)"
      "\<And>used. accounts (sp_keys s) used \<Longrightarrow>
         accounts keys (\<lambda>h. used h + (if creditCapped p \<and> pc_keyHash p = Some h then amount else 0))"
proof (cases "creditCapped p")
  case False
  then show ?thesis by (intro taken [of "sp_keys s"]) (use booksPart_D(3) [OF ok] in \<open>simp_all add: takeReserve_def undoReserve_def\<close>)
next
  case True
  then obtain h where h: "pc_keyHash p = Some h" by (auto simp: creditCapped_def)
  let ?r = "reserveCredits h amount (sp_keys s)"
  have unique: "uniqueHashes (sp_keys s)" using booksPart_D(3) [OF ok] by (simp add: keysWithin_def)
  show ?thesis
  proof (cases "fst ?r")
    case False
    then have "takeReserve p amount s = (False, s)"
      using True h reserve_refused [OF False] by (simp add: takeReserve_def split_beta)
    then show ?thesis by (rule refused)
  next
    case reserved: True
    have "reconcileCredits h amount 0 (snd ?r) = sp_keys s"
      using reserve_undo [OF unique reserved amount] credits_nonneg [OF booksPart_D(1) [OF ok]] by blast
    moreover have "accounts (snd ?r) (\<lambda>g. used g + (if creditCapped p \<and> pc_keyHash p = Some g then amount else 0))"
      if "accounts (sp_keys s) used" for used
    proof -
      have "used(h := used h + max 0 amount) = (\<lambda>g. used g + (if creditCapped p \<and> pc_keyHash p = Some g then amount else 0))"
        using True h amount by (auto simp: fun_eq_iff)
      then show ?thesis using accounts_reserve [OF that unique reserved] by simp
    qed
    ultimately show ?thesis
      using True h reserved keysWithin_reserve [OF booksPart_D(3) [OF ok], of h amount]
      by (intro taken [of "snd ?r"]) (simp_all add: takeReserve_def undoReserve_def split_beta)
  qed
qed

text \<open>The daily counter after an accepted check.\<close>

lemma checkQuota_units:
  assumes "checkQuota a lims est eid now q = (QuotaOk snap r, q')" "1 \<le> est"
  shows "get_or (daily q') k 0 = get_or (daily q) k 0 + (if k = (a, r_day r) then r_reservedDaily r else 0)"
    and "r_reservedDaily r = est"
  using checkQuota_Ok(5,6) [OF assms(1)] assms(2) by auto

lemma checkQuota_units_zero:
  assumes "checkQuota a lims 0 eid now q = (QuotaOk snap r, q')"
  shows "get_or (daily q') k 0 = get_or (daily q) k 0" and "r_reservedDaily r = 0"
  using checkQuota_Ok(5,6) [OF assms(1)] by auto

lemma enterAdmission_fields:
  fixes surface p model credits reserved reservation now s
  defines "s' \<equiv> enterAdmission surface p model credits reserved reservation now s"
  shows "sp_keys s' = sp_keys s" "sp_quota s' = sp_quota s"
    "\<exists>call. sp_calls s' = sp_calls s @ [call] \<and> mc_surface call = surface \<and> mc_principal call = p
       \<and> mc_credits call = credits \<and> mc_reserved call = reserved \<and> mc_reservation call = reservation"
  by (simp_all add: s'_def enterAdmission_def Let_def split_beta)


definition spineOk :: "(string \<Rightarrow> int) \<Rightarrow> Ledger \<Rightarrow> Spine \<Rightarrow> bool" where
  "spineOk over L s \<longleftrightarrow> booksPart over L (sp_calls s) (sp_keys s) (sp_quota s) \<and> slotsPart s"

text \<open>A refusal leaves keys, controller, calls and daily counters as they were.\<close>

definition untouched :: "Spine \<Rightarrow> Spine \<Rightarrow> bool" where
  "untouched s s' \<longleftrightarrow>
     sp_keys s' = sp_keys s \<and> sp_ctl s' = sp_ctl s \<and> sp_calls s' = sp_calls s \<and> sp_inflight s' = sp_inflight s
     \<and> sp_nextCall s' = sp_nextCall s \<and> (\<forall>k. get_or (daily (sp_quota s')) k 0 = get_or (daily (sp_quota s)) k 0)"

lemma spineOk_untouched:
  assumes "spineOk over L s" "untouched s s'"
  shows "spineOk over L s'"
  using assms booksBy_daily_cong [of _ L _ _ "sp_quota s" "sp_quota s'"] slotsPart_cong [of s s']
  by (auto simp: spineOk_def untouched_def booksPart_def)

lemma untouched_refl [simp]: "untouched s s"
  by (simp add: untouched_def)

lemma checkAndEnter_cases:
  assumes ok: "spineOk over L s" and s1: "s1 = s\<lparr>sp_keys := keys\<rparr>" "undoReserve p reserved credits s1 = s"
  obtains (limited) o1 s' where "checkAndEnter surface p model est credits reserved eid now s1 = (o1, s')" "o1 \<noteq> Suspended"
      "untouched s s'"
  | (entered) snap r q where "checkQuota (pc_alias p) (pc_limits p) est eid now (sp_quota s) = (QuotaOk snap r, q)"
      "checkAndEnter surface p model est credits reserved eid now s1
       = (Suspended, enterAdmission surface p model credits reserved (Some r) now (s1\<lparr>sp_quota := q\<rparr>))"
proof (cases "checkQuota (pc_alias p) (pc_limits p) est eid now (sp_quota s)")
  case (Pair d q)
  have quota: "sp_quota s1 = sp_quota s" using s1(1) by simp
  show ?thesis
  proof (cases d)
    case (QuotaOk snap r)
    with Pair quota show ?thesis by (intro entered [of snap r q]) (simp_all add: checkAndEnter_def)
  next
    case (QuotaNo why retry snap)
    have "undoReserve p reserved credits (s1\<lparr>sp_quota := q\<rparr>) = (undoReserve p reserved credits s1)\<lparr>sp_quota := q\<rparr>"
      by (simp add: undoReserve_def)
    then have "checkAndEnter surface p model est credits reserved eid now s1 = (RateLimited why retry, s\<lparr>sp_quota := q\<rparr>)"
      using Pair quota QuotaNo s1(2) by (simp add: checkAndEnter_def)
    moreover have "untouched s (s\<lparr>sp_quota := q\<rparr>)"
      using checkQuota_No(2) [OF Pair [unfolded QuotaNo]] daily_nonneg [OF booksPart_D(1)] ok
      unfolding untouched_def spineOk_def by (simp, blast)
    ultimately show ?thesis by (intro limited) auto
  qed
qed

lemma spineOk_entered:
  assumes ok: "spineOk over L s" and p: "principalOk (sp_keys s) p" and pos: "0 \<le> credits" "1 \<le> est"
    and surface: "surface \<notin> {TokenizeSurface, LoadSurface}"
    and keys: "keysWithin over keys" "\<And>h. cappedHash h keys = cappedHash h (sp_keys s)"
      "\<And>used. accounts (sp_keys s) used \<Longrightarrow>
         accounts keys (\<lambda>h. used h + (if creditCapped p \<and> pc_keyHash p = Some h then credits else 0))"
    and q: "checkQuota (pc_alias p) (pc_limits p) est eid now (sp_quota s) = (QuotaOk snap r, q)"
  shows "spineOk over L (enterAdmission surface p model credits (creditCapped p) (Some r) now (s\<lparr>sp_keys := keys, sp_quota := q\<rparr>))"
proof -
  let ?s = "s\<lparr>sp_keys := keys, sp_quota := q\<rparr>"
  let ?s' = "enterAdmission surface p model credits (creditCapped p) (Some r) now ?s"
  obtain call where call: "sp_calls ?s' = sp_calls ?s @ [call]" "mc_surface call = surface" "mc_principal call = p"
    "mc_credits call = credits" "mc_reserved call = creditCapped p" "mc_reservation call = Some r"
    using enterAdmission_fields(3) by blast
  note books = booksPart_D(1,2) [of over L "sp_calls s" "sp_keys s" "sp_quota s"]
  have ok': "booksPart over L (sp_calls s) (sp_keys s) (sp_quota s)" "slotsPart s" using ok by (simp_all add: spineOk_def)
  have m: "metered call" using call(2) surface by (simp add: metered_def)
  have res: "callRes call = \<lparr>rv_key = pc_keyHash p, rv_credits = (if creditCapped p then credits else 0),
      rv_slot = (pc_alias p, r_day r), rv_units = r_reservedDaily r\<rparr>"
    using call by (simp add: callRes_def)
  have resOk: "resOk (callRes call)" using pos checkQuota_units(2) [OF q pos(2)] by (auto simp: res resOk_def creditCapped_def)
  have "(\<lambda>h. used h + creditsOf h (callRes call)) = (\<lambda>h. used h + (if creditCapped p \<and> pc_keyHash p = Some h then credits else 0))" for used
    by (auto simp: res creditsOf_def)
  then have "accounts keys (\<lambda>h. used h + creditsOf h (callRes call))" if "accounts (sp_keys s) used" for used
    using keys(3) [OF that] by simp
  moreover have "get_or (daily q) k 0 = get_or (daily (sp_quota s)) k 0 + unitsOf k (callRes call)" for k
    using checkQuota_units(1) [OF q pos(2)] by (auto simp: res unitsOf_def)
  ultimately have "booksBy (keysWithin over) L (add_mset (callRes call) (callsHeld (sp_calls s))) keys q"
    using booksBy_reserve [where K' = "keysWithin over", OF books(1) [OF ok'(1)] resOk keys(1)] by blast
  moreover have "callOk keys call"
    using m call pos checkQuota_units(2) [OF q pos(2)] p keys(2)
    by (simp add: callOk_def principalOk_def split: option.splits)
  ultimately have "booksPart over L (sp_calls ?s') keys q"
    using call(1) m books(2) [OF ok'(1)] callOk_keys [OF keys(2)] by (auto simp: booksPart_def)
  moreover have "slotsPart ?s'" using slotsPart_enter slotsPart_cong [OF ok'(2), of ?s] by simp
  ultimately show ?thesis using enterAdmission_fields(1,2) by (simp add: spineOk_def)
qed

text \<open>Every metered start, on every branch.\<close>

lemma metered_start:
  assumes ok: "spineOk over L s" and p: "principalOk (sp_keys s) p" and pos: "0 \<le> credits" "1 \<le> est"
    and surface: "surface \<notin> {TokenizeSurface, LoadSurface}" and t: "takeReserve p credits s = (True, s1)"
    and out: "checkAndEnter surface p model est credits (creditCapped p) eid now s1 = (o1, s')"
  shows "spineOk over L s'" "o1 \<noteq> Suspended \<Longrightarrow> untouched s s'"
proof -
  have books: "booksPart over L (sp_calls s) (sp_keys s) (sp_quota s)" using ok by (simp add: spineOk_def)
  have "spineOk over L s' \<and> (o1 \<noteq> Suspended \<longrightarrow> untouched s s')"
  proof (rule takeReserve_cases [OF books p pos(1)])
    fix keys
    assume "takeReserve p credits s = (True, s\<lparr>sp_keys := keys\<rparr>)"
      and undo: "undoReserve p (creditCapped p) credits (s\<lparr>sp_keys := keys\<rparr>) = s"
      and keys: "keysWithin over keys" "\<And>h. cappedHash h keys = cappedHash h (sp_keys s)"
        "\<And>used. accounts (sp_keys s) used \<Longrightarrow>
           accounts keys (\<lambda>h. used h + (if creditCapped p \<and> pc_keyHash p = Some h then credits else 0))"
    then have s1: "s1 = s\<lparr>sp_keys := keys\<rparr>" "undoReserve p (creditCapped p) credits s1 = s" using t by simp_all
    from ok s1 show ?thesis
    proof (cases rule: checkAndEnter_cases [where surface = surface and model = model and est = est and eid = eid and now = now])
      case (limited o2 s2)
      then show ?thesis using out spineOk_untouched [OF ok, of s2] by simp
    next
      case (entered snap r q)
      then show ?thesis using out s1(1) spineOk_entered [OF ok p pos surface keys entered(1), of model] by simp
    qed
  qed (use t in simp)
  then show "spineOk over L s'" "o1 \<noteq> Suspended \<Longrightarrow> untouched s s'" by simp_all
qed

lemma takeReserve_refused:
  assumes "spineOk over L s" "principalOk (sp_keys s) p" "0 \<le> amount" "takeReserve p amount s = (False, s1)"
  shows "s1 = s"
  using takeReserve_cases [of over L "sp_calls s" s "sp_quota s" p amount] assms by (auto simp: spineOk_def)

lemma takeReserve_undone:
  assumes "spineOk over L s" "principalOk (sp_keys s) p" "0 \<le> amount" "takeReserve p amount s = (True, s1)"
  shows "undoReserve p (creditCapped p) amount s1 = s"
  using takeReserve_cases [of over L "sp_calls s" s "sp_quota s" p amount] assms by (auto simp: spineOk_def)

lemma startMetered_ok:
  assumes ok: "spineOk over L s" and p: "principalOk (sp_keys s) p" and est: "1 \<le> est"
    and surface: "surface \<notin> {TokenizeSurface, LoadSurface}"
    and out: "startMetered surface p model est gone eid now s = (o1, s')"
  shows "spineOk over L s'" "o1 \<noteq> Suspended \<Longrightarrow> untouched s s'"
proof -
  have est0: "0 \<le> est" using est by simp
  obtain b s1 where t: "takeReserve p est s = (b, s1)" by fastforce
  have "spineOk over L s' \<and> (o1 \<noteq> Suspended \<longrightarrow> untouched s s')"
  proof (cases b)
    case False
    then show ?thesis using out t takeReserve_refused [OF ok p est0] ok by (simp add: startMetered_def)
  next
    case True
    then have undone: "undoReserve p (creditCapped p) est s1 = s" using takeReserve_undone [OF ok p est0] t by simp
    show ?thesis
    proof (cases "gone \<or> modelRefused surface p model")
      case refused: True
      then have "s' = s" using out t True undone by (auto simp: startMetered_def split: if_splits)
      then show ?thesis using ok by simp
    next
      case False
      then show ?thesis using metered_start [OF ok p est0 est surface] out t True by (simp add: startMetered_def)
    qed
  qed
  then show "spineOk over L s'" "o1 \<noteq> Suspended \<Longrightarrow> untouched s s'" by simp_all
qed


lemma startAsk_ok:
  assumes ok: "spineOk over L s" and p: "principalOk (sp_keys s) p" and est: "1 \<le> est"
    and out: "startAsk other p model est eid now s = (o1, s')"
  shows "spineOk over L s'" "o1 \<noteq> Suspended \<Longrightarrow> untouched s s'"
proof -
  have est0: "0 \<le> est" using est by simp
  obtain b s1 where t: "takeReserve p est s = (b, s1)" by fastforce
  have "spineOk over L s' \<and> (o1 \<noteq> Suspended \<longrightarrow> untouched s s')"
    using out t takeReserve_refused [OF ok p est0] metered_start [OF ok p est0 est, of AskSurface s1 "Some model" eid now o1 s'] ok
    by (cases b) (simp_all add: startAsk_def split: if_splits)
  then show "spineOk over L s'" "o1 \<noteq> Suspended \<Longrightarrow> untouched s s'" by simp_all
qed

definition audioOk :: "AudioConfig \<Rightarrow> bool" where
  "audioOk cfg \<longleftrightarrow> 0 < ac_maxSeconds cfg \<and> 0 \<le> ac_creditsPerSecond cfg"

lemma startAudio_ok:
  assumes ok: "spineOk over L s" and p: "principalOk (sp_keys s) p" and cfg: "audioOk cfg"
    and out: "startAudio cfg p model eid now s = (o1, s')"
  shows "spineOk over L s'" "o1 \<noteq> Suspended \<Longrightarrow> untouched s s'"
proof -
  have secs: "1 \<le> worstCaseSeconds cfg" using audioSeconds_bounds [of cfg None] cfg by (simp add: audioOk_def)
  then have cost: "0 \<le> worstCaseCost cfg" using cfg by (simp add: worstCaseCost_def audioOk_def)
  obtain b s1 where t: "takeReserve p (worstCaseCost cfg) s = (b, s1)" by fastforce
  have "spineOk over L s' \<and> (o1 \<noteq> Suspended \<longrightarrow> untouched s s')"
    using out t takeReserve_refused [OF ok p cost] ok
      metered_start [OF ok p cost secs, of AudioSurface s1 "Some WHISPER_MODEL" eid now o1 s']
    by (cases b) (simp_all add: startAudio_def split: if_splits)
  then show "spineOk over L s'" "o1 \<noteq> Suspended \<Longrightarrow> untouched s s'" by simp_all
qed

text \<open>The unmetered surfaces hold nothing in the books.\<close>

lemma spineOk_enter_unmetered:
  assumes ok: "spineOk over L s" and surface: "surface \<in> {TokenizeSurface, LoadSurface}"
    and res: "\<And>r. reservation = Some r \<Longrightarrow> r_reservedDaily r = 0"
  shows "spineOk over L (enterAdmission surface p model 0 False reservation now s)"
proof -
  let ?s' = "enterAdmission surface p model 0 False reservation now s"
  obtain call where call: "sp_calls ?s' = sp_calls s @ [call]" "mc_surface call = surface"
    "mc_reserved call = False" "mc_reservation call = reservation"
    using enterAdmission_fields(3) by blast
  then have "\<not> metered call" "callOk (sp_keys s) call" using surface res by (auto simp: metered_def callOk_def)
  then show ?thesis using ok call(1) slotsPart_enter enterAdmission_fields(1,2) by (auto simp: spineOk_def booksPart_def)
qed

lemma startTokenize_ok:
  assumes ok: "spineOk over L s" and out: "startTokenize supported p model eid now s = (o1, s')"
  shows "spineOk over L s'" "o1 \<noteq> Suspended \<Longrightarrow> untouched s s'"
proof -
  have same: "s = s\<lparr>sp_keys := sp_keys s\<rparr>" "undoReserve p False 0 s = s" by (simp_all add: undoReserve_def)
  have step: "spineOk over L s2 \<and> (o2 \<noteq> Suspended \<longrightarrow> untouched s s2)"
    if "checkAndEnter TokenizeSurface p (Some model) 0 0 False eid now s = (o2, s2)" for o2 s2
    using ok same
  proof (cases rule: checkAndEnter_cases [where surface = TokenizeSurface and model = "Some model" and est = 0 and eid = eid and now = now])
    case (limited o3 s3)
    then show ?thesis using that spineOk_untouched [OF ok, of s3] by simp
  next
    case (entered snap r q)
    note zero = checkQuota_units_zero [OF entered(1)]
    have "spineOk over L (s\<lparr>sp_quota := q\<rparr>)"
      using ok zero(1) by (intro spineOk_untouched [OF ok]) (simp add: untouched_def)
    then show ?thesis using entered(2) that zero(2) spineOk_enter_unmetered [of over L "s\<lparr>sp_quota := q\<rparr>" TokenizeSurface "Some r"] by simp
  qed
  show "spineOk over L s'" "o1 \<noteq> Suspended \<Longrightarrow> untouched s s'"
    using out step ok by (auto simp: startTokenize_def split: if_splits)
qed

section \<open>Waiting and ending\<close>

lemma spineOk_ctl:
  assumes "spineOk over L s" "ctl_inv c" "slotsOk c (set (sp_calls s))"
  shows "spineOk over L (s\<lparr>sp_ctl := c\<rparr>)"
  using assms slotsPart_ctl by (simp add: spineOk_def)

lemma spineOk_slots:
  assumes "spineOk over L s"
  shows "ctl_inv (sp_ctl s)" "slotsOk (sp_ctl s) (set (sp_calls s))" "distinct (map mc_id (sp_calls s))" "slotsPart s"
    "booksPart over L (sp_calls s) (sp_keys s) (sp_quota s)"
  using assms slotsPart_D by (simp_all add: spineOk_def)

lemma spineOk_setPhase:
  assumes ok: "spineOk over L s" and x: "x \<in> set (sp_calls s)"
    and idle: "\<And>h. mc_phase x \<noteq> Running h" "\<And>h. ph \<noteq> Running h"
    and ctl: "ctl_inv c'" "slotsOk c' (insert (x\<lparr>mc_phase := ph\<rparr>) (set (sp_calls s) - {x}))"
  shows "spineOk over L (setPhase x ph (s\<lparr>sp_ctl := c'\<rparr>))"
proof -
  have "booksPart over L (sp_calls (setPhase x ph s)) (sp_keys s) (sp_quota s)"
    unfolding setPhase_def using booksPart_update [OF spineOk_slots(5) [OF ok]] by simp
  then show ?thesis using slotsPart_setPhase [OF spineOk_slots(4) [OF ok] x idle ctl]
    by (simp add: spineOk_def setPhase_def)
qed

lemma spineOk_closed:
  assumes ok: "spineOk over L s" and x: "x \<in> set (sp_calls s)"
  shows "spineOk over L (clientClosed now x s)"
proof -
  note sl = spineOk_slots [OF ok]
  have step: "spineOk over L (s\<lparr>sp_ctl := c', sp_calls := map (\<lambda>c. if mc_id c = mc_id x
      then c\<lparr>mc_gone := True, mc_phase := ph\<rparr> else c) (sp_calls s)\<rparr>)"
    if "\<And>h. mc_phase x \<noteq> Running h" "\<And>h. ph \<noteq> Running h" "ctl_inv c'"
      "slotsOk c' (insert (x\<lparr>mc_gone := True, mc_phase := ph\<rparr>) (set (sp_calls s) - {x}))" for c' ph
    using slotsPart_update [OF sl(4) x, of "\<lambda>c. c\<lparr>mc_gone := True, mc_phase := ph\<rparr>" c'] that
      booksPart_update [OF sl(5), of "\<lambda>c. c\<lparr>mc_gone := True, mc_phase := ph\<rparr>"]
    by (simp add: spineOk_def runningCall_def)
  have self: "s\<lparr>sp_ctl := sp_ctl s, sp_calls := cs\<rparr> = s\<lparr>sp_calls := cs\<rparr>" for cs by simp
  show ?thesis
  proof (cases "mc_phase x")
    case (DrainingBackground b)
    have "slotsOk (sp_ctl s) (insert (x\<lparr>mc_gone := True, mc_phase := Answered Cancelled\<rparr>) (set (sp_calls s) - {x}))"
      using DrainingBackground by (intro slotsOk_move [OF sl(2) x]) (auto simp: slotOf_def queuedFor_def)
    then show ?thesis using step [OF _ _ sl(1)] DrainingBackground ok by (simp add: clientClosed_def)
  next
    case (QueuedFor w)
    let ?c = "discard now w Cancelled (sp_ctl s)"
    have "slotsOk ?c (insert (x\<lparr>mc_gone := True, mc_phase := QueuedFor w\<rparr>) (set (sp_calls s) - {x}))"
      using QueuedFor by (intro slotsOk_rename [OF slotsOk_discard [OF sl(2,1)] x]) auto
    then show ?thesis using step [OF _ _ ctl_inv_discard [OF sl(1)]] QueuedFor ok by (simp add: clientClosed_def)
  next
    case (Answered a)
    have "slotsOk (sp_ctl s) (insert (x\<lparr>mc_gone := True, mc_phase := Answered a\<rparr>) (set (sp_calls s) - {x}))"
      using Answered by (intro slotsOk_rename [OF sl(2) x]) auto
    then show ?thesis using step [OF _ _ sl(1)] Answered ok by (simp add: clientClosed_def)
  qed (use ok in \<open>simp_all add: clientClosed_def\<close>)
qed

lemma spineOk_drained:
  assumes ok: "spineOk over L s" and x: "x \<in> set (sp_calls s)" "mc_phase x = DrainingBackground b"
  shows "spineOk over L (resumeDrained now x s)"
proof -
  note sl = spineOk_slots [OF ok]
  let ?r = "acquireDecide now (mc_gone x) (mc_request x) (sp_ctl s)"
  have "slotsOk (sp_ctl s) (set (sp_calls s) - {x})"
    using x(2) by (intro slotsOk_remove [OF sl(2)]) (auto simp: slotOf_def queuedFor_def)
  then have "slotsOk (snd ?r) (insert (x\<lparr>mc_phase := phaseOf (fst ?r)\<rparr>) (set (sp_calls s) - {x}))"
    using slotsOk_acquireDecide [OF _ sl(1)] by simp
  moreover have "phaseOf (fst ?r) \<noteq> Running h" for h by (cases "fst ?r") (simp_all add: phaseOf_def)
  ultimately show ?thesis
    using spineOk_setPhase [OF ok x(1) _ _ ctl_inv_acquireDecide [OF sl(1)]] x(2) by (simp add: resumeDrained_def split_beta)
qed

lemma spineOk_woken:
  assumes ok: "spineOk over L s" and x: "x \<in> set (sp_calls s)" "mc_phase x = QueuedFor w" "map_of (settled (sp_ctl s)) w = Some a"
  shows "spineOk over L (setPhase x (Answered a) s)"
proof -
  note sl = spineOk_slots [OF ok]
  have "w \<in> fst ` set (settled (sp_ctl s))" using x(3) by (force dest: map_of_SomeD)
  then have left: "w \<notin> w_id ` set (ownerWaiters (sp_ctl s))" using sl(1) by (auto simp: ctl_inv_def queue_ok_def)
  have "slotOf (sp_ctl s) (x\<lparr>mc_phase := Answered a\<rparr>) = slotOf (sp_ctl s) x"
    using x(2,3) by (cases a) (simp_all add: slotOf_def)
  then have "slotsOk (sp_ctl s) (insert (x\<lparr>mc_phase := Answered a\<rparr>) (set (sp_calls s) - {x}))"
    using x(2) left by (intro slotsOk_move [OF sl(2) x(1)]) (auto simp: queuedFor_def)
  from spineOk_setPhase [OF ok x(1) _ _ sl(1) this] show ?thesis using x(2) by simp
qed

lemma spineOk_unwind:
  assumes ok: "spineOk over L s" and x: "x \<in> set (sp_calls s)" "\<And>w. \<not> queuedFor w x" "\<And>h. mc_phase x \<noteq> Running h"
    and slot: "slotOf (sp_ctl s) x = slot"
  shows "spineOk over L (unwindCall now slot x s)"
  using slotsPart_unwind [OF spineOk_slots(4) [OF ok] x slot] booksPart_unwind [OF spineOk_slots(5,3) [OF ok] x(1)]
  by (simp add: spineOk_def)

lemma spineOk_begin:
  assumes ok: "spineOk over L s" and x: "x \<in> set (sp_calls s)" "mc_phase x = Answered (Resolved h) \<or> mc_phase x = CheckingMemory h"
  shows "spineOk over L (beginHandler h x s)"
proof -
  have "booksPart over L (sp_calls (setPhase x (Running h) s)) (sp_keys s) (sp_quota s)"
    unfolding setPhase_def using booksPart_update [OF spineOk_slots(5) [OF ok]] by simp
  then show ?thesis using slotsPart_begin [OF spineOk_slots(4) [OF ok] x]
    by (simp add: spineOk_def beginHandler_def incInflight_def setPhase_def)
qed

lemma spineOk_continue:
  assumes ok: "spineOk over L s" and x: "x \<in> set (sp_calls s)" "mc_phase x = Answered a"
  shows "spineOk over L (snd (continueCall memory now a x s))"
proof -
  note sl = spineOk_slots [OF ok]
  have idle: "\<not> queuedFor w x" "mc_phase x \<noteq> Running h" for w h using x(2) by (simp_all add: queuedFor_def)
  show ?thesis
  proof (cases a)
    case (Resolved h)
    have "slotOf (sp_ctl s) x = Some h" using x(2) Resolved by (simp add: slotOf_def)
    then have unwind: "spineOk over L (unwindCall now (Some h) x s)" using spineOk_unwind [OF ok x(1) idle] by blast
    have "slotsOk (sp_ctl s) (insert (x\<lparr>mc_phase := CheckingMemory h\<rparr>) (set (sp_calls s) - {x}))"
      using x(2) Resolved by (intro slotsOk_move [OF sl(2) x(1)]) (auto simp: slotOf_def queuedFor_def)
    from spineOk_setPhase [OF ok x(1) idle(2) _ sl(1) this]
    have "spineOk over L (setPhase x (CheckingMemory h) s)" by simp
    then show ?thesis using unwind spineOk_begin [OF ok x(1)] x(2) Resolved by (simp add: continueCall_def)
  next
    case (RejectedAfter n)
    then have "slotOf (sp_ctl s) x = None" using x(2) by (simp add: slotOf_def)
    then show ?thesis using spineOk_unwind [OF ok x(1) idle] RejectedAfter by (simp add: continueCall_def)
  next
    case Cancelled
    then have "slotOf (sp_ctl s) x = None" using x(2) by (simp add: slotOf_def)
    then show ?thesis using spineOk_unwind [OF ok x(1) idle] Cancelled by (simp add: continueCall_def)
  qed
qed

lemma spineOk_memory:
  assumes ok: "spineOk over L s" and x: "x \<in> set (sp_calls s)" "mc_phase x = CheckingMemory h"
  shows "spineOk over L (snd (memoryVerdict admitted now h x s))"
proof -
  have "spineOk over L (unwindCall now (Some h) x s)"
    using x by (intro spineOk_unwind [OF ok x(1)]) (auto simp: queuedFor_def slotOf_def)
  then show ?thesis using spineOk_begin [OF ok x(1)] x(2) by (simp add: memoryVerdict_def)
qed

lemma spineOk_finish:
  assumes ok: "spineOk over L s" and x: "x \<in> set (sp_calls s)" "mc_phase x = Running h"
    and result: "\<And>t b. result = Some (t, b) \<Longrightarrow> 0 \<le> t \<and> 0 \<le> b"
  shows "spineOk (finishOver x result over) (finishLedger x result L) (finishCall now result h x s)"
  using slotsPart_finish [OF spineOk_slots(4) [OF ok] x] booksPart_finish [OF spineOk_slots(5,3) [OF ok] x(1) result]
  by (simp add: spineOk_def)


section \<open>Runs\<close>

text \<open>
  Every interleaving. A principal's credit limit is positive exactly when its key is capped; an estimate is
  positive (\<open>estimateTokens_pos\<close>); token counts of a handler are not negative. \<open>over\<close> grows only with handlers that
  report more tokens than were reserved: a transcription never does. The daily counters and the used
  credits start at what the ledger says.
\<close>

inductive spine_run :: "AudioConfig \<Rightarrow> (string \<Rightarrow> int) \<Rightarrow> Ledger \<Rightarrow> Spine \<Rightarrow> bool" for cfg where
  spn_init: "\<lbrakk>newController opts = Inr (sp_ctl s); sp_calls s = []; sp_inflight s = Map.empty; audioOk cfg;
       keysWithin (\<lambda>_. 0) (sp_keys s); accounts (sp_keys s) (paid L); \<And>k. get_or (daily (sp_quota s)) k 0 = spent L k;
       \<And>h. 0 \<le> paid L h; \<And>k. 0 \<le> spent L k\<rbrakk> \<Longrightarrow> spine_run cfg (\<lambda>_. 0) L s"
| spn_start: "\<lbrakk>spine_run cfg over L s; principalOk (sp_keys s) p; 1 \<le> est; hasSignal surface\<rbrakk>
    \<Longrightarrow> spine_run cfg over L (snd (startMetered surface p model est gone eid now s))"
| spn_ask: "\<lbrakk>spine_run cfg over L s; principalOk (sp_keys s) p; 1 \<le> est\<rbrakk>
    \<Longrightarrow> spine_run cfg over L (snd (startAsk other p m est eid now s))"
| spn_audio: "\<lbrakk>spine_run cfg over L s; principalOk (sp_keys s) p\<rbrakk>
    \<Longrightarrow> spine_run cfg over L (snd (startAudio cfg p model eid now s))"
| spn_tokenize: "spine_run cfg over L s \<Longrightarrow> spine_run cfg over L (snd (startTokenize supported p m eid now s))"
| spn_load: "spine_run cfg over L s \<Longrightarrow> spine_run cfg over L (startLoad p m now s)"
| spn_closed: "\<lbrakk>spine_run cfg over L s; x \<in> set (sp_calls s)\<rbrakk> \<Longrightarrow> spine_run cfg over L (clientClosed now x s)"
| spn_timer: "spine_run cfg over L s \<Longrightarrow> spine_run cfg over L (queueTimer now w s)"
| spn_drained: "\<lbrakk>spine_run cfg over L s; x \<in> set (sp_calls s); mc_phase x = DrainingBackground b;
       outstanding (sp_ctl s) b = None\<rbrakk> \<Longrightarrow> spine_run cfg over L (resumeDrained now x s)"
| spn_woken: "\<lbrakk>spine_run cfg over L s; x \<in> set (sp_calls s); mc_phase x = QueuedFor w;
       map_of (settled (sp_ctl s)) w = Some a\<rbrakk> \<Longrightarrow> spine_run cfg over L (setPhase x (Answered a) s)"
| spn_continue: "\<lbrakk>spine_run cfg over L s; x \<in> set (sp_calls s); mc_phase x = Answered a\<rbrakk>
    \<Longrightarrow> spine_run cfg over L (snd (continueCall memory now a x s))"
| spn_memory: "\<lbrakk>spine_run cfg over L s; x \<in> set (sp_calls s); mc_phase x = CheckingMemory h\<rbrakk>
    \<Longrightarrow> spine_run cfg over L (snd (memoryVerdict admitted now h x s))"
| spn_finish: "\<lbrakk>spine_run cfg over L s; x \<in> set (sp_calls s); mc_phase x = Running h; mc_surface x \<noteq> AudioSurface;
       \<And>t b. result = Some (t, b) \<Longrightarrow> 0 \<le> t \<and> 0 \<le> b\<rbrakk>
    \<Longrightarrow> spine_run cfg (finishOver x result over) (finishLedger x result L) (finishCall now result h x s)"
| spn_transcribed: "\<lbrakk>spine_run cfg over L s; x \<in> set (sp_calls s); mc_phase x = Running h; mc_surface x = AudioSurface;
       result = map_option (\<lambda>d. (audioSeconds cfg d, audioSeconds cfg d * ac_creditsPerSecond cfg)) response\<rbrakk>
    \<Longrightarrow> spine_run cfg over (finishLedger x result L) (finishCall now result h x s)"
| spn_background: "spine_run cfg over L s \<Longrightarrow> spine_run cfg over L (s\<lparr>sp_ctl := snd (tryAcquireBackground (sp_ctl s))\<rparr>)"
| spn_backgroundDone: "\<lbrakk>spine_run cfg over L s; outstanding (sp_ctl s) h = Some BackgroundGrant\<rbrakk>
    \<Longrightarrow> spine_run cfg over L (s\<lparr>sp_ctl := release now h (sp_ctl s)\<rparr>)"
| spn_maintenance: "spine_run cfg over L s
    \<Longrightarrow> spine_run cfg over L (s\<lparr>sp_ctl := snd (setMaintenanceMode now on ttl scope (sp_ctl s))\<rparr>)"
| spn_model: "spine_run cfg over L s \<Longrightarrow> spine_run cfg over L (s\<lparr>sp_ctl := setActiveModel m (sp_ctl s)\<rparr>)"
| spn_topUp: "spine_run cfg over L s
    \<Longrightarrow> spine_run cfg over L (s\<lparr>sp_keys := snd (topUpCredits a amt i oper t (sp_keys s))\<rparr>)"

lemma spineOk_init:
  assumes "newController opts = Inr (sp_ctl s)" "sp_calls s = []" "sp_inflight s = Map.empty"
    "keysWithin (\<lambda>_. 0) (sp_keys s)" "accounts (sp_keys s) (paid L)" "\<And>k. get_or (daily (sp_quota s)) k 0 = spent L k"
    "\<And>h. 0 \<le> paid L h" "\<And>k. 0 \<le> spent L k"
  shows "spineOk (\<lambda>_. 0) L s"
proof -
  have "outstanding (sp_ctl s) = Map.empty" "ownerWaiters (sp_ctl s) = []"
    using assms(1) [symmetric] by (cases "sp_ctl s"; simp add: newController_def split: if_splits)+
  then have "requestHolders (sp_ctl s) = {}" "ownerWaiters (sp_ctl s) = []" by (simp_all add: requestHolders_def)
  then show ?thesis using assms ctl_inv_new [OF assms(1)]
    by (simp add: spineOk_def booksPart_def booksBy_def callsHeld_def slotsPart_def slotsOk_def)
qed

lemma spineOk_topUp:
  assumes ok: "spineOk over L s"
  shows "spineOk over L (s\<lparr>sp_keys := snd (topUpCredits a amt i oper t (sp_keys s))\<rparr>)"
proof -
  note books = spineOk_slots(5) [OF ok]
  have "uniqueAliases (sp_keys s)" using booksPart_D(3) [OF books] by (simp add: keysWithin_def)
  note keeps = topUp_keeps [OF this, where a = a and n = amt and i = i and oper = oper and now = t]
  have "booksPart over L (sp_calls s) (snd (topUpCredits a amt i oper t (sp_keys s))) (sp_quota s)"
    using books keysWithin_topUp [OF booksPart_D(3) [OF books]] keeps(3) callOk_keys [OF keeps(5)]
    by (simp add: booksPart_def booksBy_def)
  then show ?thesis using slotsPart_cong [OF spineOk_slots(4) [OF ok]] by (simp add: spineOk_def)
qed

lemma spine_run_audio: "spine_run cfg over L s \<Longrightarrow> audioOk cfg"
  by (induction rule: spine_run.induct) simp_all

text \<open>An audio call reserves the worst case, so its transcription never costs more.\<close>

definition audioReserved :: "AudioConfig \<Rightarrow> Spine \<Rightarrow> bool" where
  "audioReserved cfg s \<longleftrightarrow> (\<forall>x \<in> set (sp_calls s). mc_surface x = AudioSurface \<longrightarrow> mc_credits x = worstCaseCost cfg)"

lemma takeReserve_calls: "sp_calls (snd (takeReserve p n s)) = sp_calls s"
  by (simp add: takeReserve_def split_beta Let_def)

lemma audioReserved_check:
  assumes "audioReserved cfg s" "surface = AudioSurface \<longrightarrow> credits = worstCaseCost cfg"
  shows "audioReserved cfg (snd (checkAndEnter surface p model est credits reserved eid now s))"
  using assms by (auto simp: audioReserved_def checkAndEnter_def enterAdmission_def undoReserve_def Let_def split_beta
      split: prod.split QuotaDecision.split)

lemma audioReserved_cong: "audioReserved cfg s \<Longrightarrow> set (sp_calls t) \<subseteq> set (sp_calls s) \<Longrightarrow> audioReserved cfg t"
  by (auto simp: audioReserved_def)

lemma audioReserved_starts:
  assumes "audioReserved cfg s"
  shows "surface \<noteq> AudioSurface \<Longrightarrow> audioReserved cfg (snd (startMetered surface p model est gone eid now s))"
    "audioReserved cfg (snd (startAsk other p m est eid now s))"
    "audioReserved cfg (snd (startAudio cfg p model eid now s))"
    "audioReserved cfg (snd (startTokenize supported p m eid now s))"
    "audioReserved cfg (startLoad p m now s)"
proof -
  have kept: "audioReserved cfg (snd (takeReserve p n s))" "audioReserved cfg (undoReserve p b n (snd (takeReserve p n' s)))" for n n' b
    using assms takeReserve_calls by (simp_all add: audioReserved_def undoReserve_def)
  show "surface \<noteq> AudioSurface \<Longrightarrow> audioReserved cfg (snd (startMetered surface p model est gone eid now s))"
    using kept audioReserved_check [of cfg "snd (takeReserve p est s)" surface]
    by (auto simp: startMetered_def split_beta split: prod.split bool.split)
  show "audioReserved cfg (snd (startAsk other p m est eid now s))"
    using kept assms audioReserved_check [of cfg "snd (takeReserve p est s)" AskSurface]
    by (auto simp: startAsk_def split_beta split: prod.split bool.split)
  show "audioReserved cfg (snd (startAudio cfg p model eid now s))"
    using kept assms audioReserved_check [of cfg "snd (takeReserve p (worstCaseCost cfg) s)" AudioSurface "worstCaseCost cfg"]
    by (auto simp: startAudio_def split_beta split: prod.split bool.split)
  show "audioReserved cfg (snd (startTokenize supported p m eid now s))"
    using assms audioReserved_check [OF assms, of TokenizeSurface 0] by (auto simp: startTokenize_def)
  show "audioReserved cfg (startLoad p m now s)"
    using assms by (auto simp: startLoad_def enterAdmission_def audioReserved_def Let_def split_beta)
qed

lemma audioReserved_steps:
  assumes "audioReserved cfg s"
  shows "audioReserved cfg (setPhase x ph s)" "audioReserved cfg (clientClosed now x s)" "audioReserved cfg (queueTimer now w s)"
    "audioReserved cfg (resumeDrained now x s)" "audioReserved cfg (snd (continueCall memory now a x s))"
    "audioReserved cfg (snd (memoryVerdict admitted now h x s))" "audioReserved cfg (finishCall now result h x s)"
proof -
  have drop: "audioReserved cfg (unwindCall now slot x s)" "audioReserved cfg (finishCall now result h x s)" for slot
    using assms by (auto simp: audioReserved_def unwindCall_def finishCall_def dropCall_def undoReserve_def decInflight_def
        Let_def split_beta split: option.split)
  have phase: "audioReserved cfg (setPhase x ph t)" if "sp_calls t = sp_calls s" for ph t
    using assms that by (auto simp: audioReserved_def setPhase_def)
  have handler: "audioReserved cfg (beginHandler h x s)" for h
    using phase [of s] by (simp add: beginHandler_def incInflight_def audioReserved_def)
  show "audioReserved cfg (setPhase x ph s)" "audioReserved cfg (finishCall now result h x s)" using phase drop by simp_all
  show "audioReserved cfg (clientClosed now x s)"
    using assms by (auto simp: audioReserved_def clientClosed_def Let_def split: CallPhase.split)
  show "audioReserved cfg (queueTimer now w s)" using assms by (simp add: audioReserved_def queueTimer_def)
  show "audioReserved cfg (resumeDrained now x s)" using phase by (simp add: resumeDrained_def split_beta)
  show "audioReserved cfg (snd (continueCall memory now a x s))" "audioReserved cfg (snd (memoryVerdict admitted now h x s))"
    using drop handler phase [of s] by (auto simp: continueCall_def memoryVerdict_def split: settlement.split)
qed

lemma spine_run_audioReserved: "spine_run cfg over L s \<Longrightarrow> audioReserved cfg s"
proof (induction rule: spine_run.induct)
  case (spn_init opts s L)
  then show ?case by (simp add: audioReserved_def)
next
  case (spn_start over L s p est surface model gone eid now)
  then show ?case by (intro audioReserved_starts(1)) (auto simp: hasSignal_def)
qed (auto intro: audioReserved_starts audioReserved_steps audioReserved_cong)

lemma finishOver_audio:
  assumes "audioReserved cfg s" "x \<in> set (sp_calls s)" "mc_surface x = AudioSurface" "audioOk cfg"
  shows "finishOver x (map_option (\<lambda>d. (audioSeconds cfg d, audioSeconds cfg d * ac_creditsPerSecond cfg)) response) over = over"
proof -
  have "audioSeconds cfg d * ac_creditsPerSecond cfg \<le> worstCaseCost cfg" for d
    using audioSeconds_bounds(2) [of cfg d] assms(4) by (simp add: worstCaseCost_def audioOk_def mult_right_mono)
  then have "audioSeconds cfg d * ac_creditsPerSecond cfg \<le> mc_credits x" for d
    using assms(1-3) by (simp add: audioReserved_def)
  then have "callOver x (audioSeconds cfg d * ac_creditsPerSecond cfg) over = over" for d
    by (auto simp: callOver_def overrun_def callRes_def Let_def)
  then show ?thesis by (simp add: finishOver_def split: option.split)
qed

lemma spine_run_ok: "spine_run cfg over L s \<Longrightarrow> spineOk over L s"
proof (induction rule: spine_run.induct)
  case (spn_init opts s L)
  then show ?case by (intro spineOk_init)
next
  case (spn_start over L s p est surface model gone eid now)
  have "surface \<notin> {TokenizeSurface, LoadSurface}" using spn_start.hyps(4) by (auto simp: hasSignal_def)
  then show ?case using startMetered_ok(1) [OF spn_start.IH spn_start.hyps(2,3)] by (metis prod.collapse)
next
  case (spn_ask over L s p est other m eid now)
  then show ?case using startAsk_ok(1) by (metis prod.collapse)
next
  case (spn_audio over L s p model eid now)
  then show ?case using startAudio_ok(1) spine_run_audio by (metis prod.collapse)
next
  case (spn_tokenize over L s supported p m eid now)
  then show ?case using startTokenize_ok(1) by (metis prod.collapse)
next
  case (spn_load over L s p m now)
  then show ?case using spineOk_enter_unmetered [of over L s LoadSurface None] by (simp add: startLoad_def)
next
  case (spn_timer over L s now w)
  note sl = spineOk_slots [OF spn_timer.IH]
  show ?case using spineOk_ctl [OF spn_timer.IH ctl_inv_discard [OF sl(1)] slotsOk_discard [OF sl(2,1)]]
    by (simp add: queueTimer_def queueTimeout_def)
next
  case (spn_transcribed over L s x h result response now)
  have "audioOk cfg" using spine_run_audio [OF spn_transcribed.hyps(1)] .
  then have "0 \<le> audioSeconds cfg d \<and> 0 \<le> audioSeconds cfg d * ac_creditsPerSecond cfg" for d
    using audioSeconds_bounds(1) [of cfg d] by (simp add: audioOk_def)
  then have "\<And>t b. result = Some (t, b) \<Longrightarrow> 0 \<le> t \<and> 0 \<le> b" using spn_transcribed.hyps(5) by auto
  then show ?case
    using spineOk_finish [OF spn_transcribed.IH spn_transcribed.hyps(2,3), of result now] spn_transcribed.hyps(5)
      finishOver_audio [OF spine_run_audioReserved [OF spn_transcribed.hyps(1)] spn_transcribed.hyps(2,4) \<open>audioOk cfg\<close>] by simp
next
  case (spn_background over L s)
  note sl = spineOk_slots [OF spn_background.IH]
  show ?case by (rule spineOk_ctl [OF spn_background.IH ctl_inv_background [OF sl(1)] slotsOk_background [OF sl(2,1)]])
next
  case (spn_backgroundDone over L s h now)
  note sl = spineOk_slots [OF spn_backgroundDone.IH]
  show ?case
    by (rule spineOk_ctl [OF spn_backgroundDone.IH ctl_inv_release [OF sl(1)]
          slotsOk_release_background [OF sl(2,1) spn_backgroundDone.hyps(2)]])
next
  case (spn_maintenance over L s now on ttl scope)
  note sl = spineOk_slots [OF spn_maintenance.IH]
  show ?case
    by (rule spineOk_ctl [OF spn_maintenance.IH ctl_inv_setMaintenanceMode [OF sl(1)] slotsOk_maintenance [OF sl(2,1)]])
next
  case (spn_model over L s m)
  note sl = spineOk_slots [OF spn_model.IH]
  have "slotsOk (setActiveModel m (sp_ctl s)) (set (sp_calls s))"
    by (rule slotsOk_cong [OF sl(2)]) (simp_all add: setActiveModel_def requestHolders_def)
  then show ?case by (rule spineOk_ctl [OF spn_model.IH ctl_inv_setActiveModel [OF sl(1)]])
qed (auto intro: spineOk_closed spineOk_drained spineOk_woken spineOk_continue spineOk_memory spineOk_finish spineOk_topUp)


section \<open>Properties\<close>

text \<open>A capped key, its principal and one admitted chat call, for the witnesses.\<close>

definition spineDb :: KeyDb where
  "spineDb = demoDb\<lparr>api_keys := [(hd (api_keys demoDb))\<lparr>k_credit_limit := 1000, k_credits_used := 0\<rparr>]\<rparr>"

definition spinePrincipal :: PrincipalContext where
  "spinePrincipal = storePrincipal (hd (api_keys spineDb))"

definition spineIdle :: Spine where
  "spineIdle = \<lparr>sp_keys = spineDb, sp_quota = \<lparr>windows = Map.empty, daily = Map.empty\<rparr>, sp_ctl = demo_controller,
     sp_inflight = Map.empty, sp_calls = [], sp_nextCall = 0\<rparr>"

definition spineAudio :: AudioConfig where
  "spineAudio = \<lparr>ac_maxSeconds = 1800, ac_creditsPerSecond = 50\<rparr>"

definition spineChat :: Spine where
  "spineChat = snd (startMetered ChatSurface spinePrincipal None 120 False ''e1'' 5 spineIdle)"

definition emptyLedger :: Ledger where
  "emptyLedger = \<lparr>paid = (\<lambda>_. 0), spent = (\<lambda>_. 0)\<rparr>"

lemma spineDb_facts:
  "map k_key_hash (api_keys spineDb) = [''h:hs_owner_AAAA'']" "map k_credits_used (api_keys spineDb) = [0]"
  "map k_credit_limit (api_keys spineDb) = [1000]"
  "cappedHash ''h:hs_owner_AAAA'' spineDb" "pc_keyHash spinePrincipal = Some ''h:hs_owner_AAAA''" "pc_creditLimit spinePrincipal = 1000"
  by code_simp+

lemma spineIdle_run: "spine_run spineAudio (\<lambda>_. 0) emptyLedger spineIdle"
proof (rule spn_init [OF _ _ _ _ _ _ _ _ ])
  show "newController demo_options = Inr (sp_ctl spineIdle)" using demo_new by (simp add: spineIdle_def)
  have one: "\<exists>r. api_keys spineDb = [r] \<and> k_key_hash r = ''h:hs_owner_AAAA'' \<and> k_credits_used r = 0 \<and> k_credit_limit r = 1000"
    using spineDb_facts(1-3) by (cases "api_keys spineDb") auto
  then show "keysWithin (\<lambda>_. 0) (sp_keys spineIdle)"
    by (auto simp: keysWithin_def uniqueHashes_def uniqueAliases_def spineIdle_def)
  show "accounts (sp_keys spineIdle) (paid emptyLedger)"
    using one by (auto simp: accounts_def emptyLedger_def spineIdle_def)
qed (simp_all add: spineIdle_def spineAudio_def audioOk_def emptyLedger_def)

lemma spineChat_run: "spine_run spineAudio (\<lambda>_. 0) emptyLedger spineChat"
  unfolding spineChat_def
  by (rule spn_start [OF spineIdle_run])
    (simp_all add: principalOk_def spineDb_facts hasSignal_def, simp add: spineIdle_def spineDb_facts)

text \<open>
  C2: the books of the metered spine balance. Whatever the interleaving of chat, decision, embedding, \<open>ask\<close>,
  audio and tokenization calls, of refusals, disconnects, queue timeouts, memory refusals and handlers that
  return or throw, a key's used credits are what its finished calls were charged plus what its pending calls
  reserve, and so is every daily counter: each reservation is returned or settled exactly once.
\<close>
theorem spine_books_balance:
  assumes "spine_run cfg over L s" and "r \<in> set (api_keys (sp_keys s))"
  shows "k_credits_used r = paid L (k_key_hash r) + creditsHeld (k_key_hash r) (callsHeld (sp_calls s))
     \<and> get_or (daily (sp_quota s)) k 0 = spent L k + unitsHeld k (callsHeld (sp_calls s))"
  using booksPart_D(1) [OF spineOk_slots(5) [OF spine_run_ok [OF assms(1)]]] assms(2)
  by (cases k) (auto simp: booksBy_def accounts_def)

theorem spine_books_balance_witness:
  "(let r = hd (api_keys (sp_keys spineChat))
    in k_credits_used r = 120 \<and> k_credits_used r = creditsHeld (k_key_hash r) (callsHeld (sp_calls spineChat)))"
proof -
  have "hd (api_keys (sp_keys spineChat)) \<in> set (api_keys (sp_keys spineChat))"
    and "k_credits_used (hd (api_keys (sp_keys spineChat))) = 120" by code_simp+
  then show ?thesis using spine_books_balance [OF spineChat_run, of "hd (api_keys (sp_keys spineChat))" "([], [])"]
    by (simp add: Let_def emptyLedger_def)
qed

text \<open>
  C5: the lifetime cap of a key bounds what it uses: in every reachable state the used credits of a capped key,
  reservations included, exceed its limit by at most what its finished calls cost beyond their own estimates.
  Audio adds nothing to that overrun, because its worst case is reserved.
\<close>
theorem spine_credit_cap:
  assumes "spine_run cfg over L s" and "r \<in> set (api_keys (sp_keys s))" and "0 < k_credit_limit r"
  shows "0 \<le> k_credits_used r \<and> k_credits_used r \<le> k_credit_limit r + over (k_key_hash r)"
  using spineOk_slots(5) [OF spine_run_ok [OF assms(1)]] credits_nonneg [OF booksPart_D(1) assms(2)]
    keysWithin_D [OF booksPart_D(3) assms(2,3)] by blast

theorem spine_credit_cap_witness:
  "k_credits_used (hd (api_keys (sp_keys spineChat))) \<le> k_credit_limit (hd (api_keys (sp_keys spineChat)))"
proof -
  have "hd (api_keys (sp_keys spineChat)) \<in> set (api_keys (sp_keys spineChat))"
    and "0 < k_credit_limit (hd (api_keys (sp_keys spineChat)))" by code_simp+
  then show ?thesis using spine_credit_cap [OF spineChat_run, of "hd (api_keys (sp_keys spineChat))"] by simp
qed

text \<open>
  C3: no slot leaks and none is used twice. In every reachable state each request slot the controller has out is
  held by exactly one pending call, a call in its handler holds one, a queued call either still stands in the
  queue or has its promise settled but not both, the gateway's own per-key counter is the number of calls in
  their handlers, and once no call is pending every counter is back at zero. (The calls are those of the
  metered spine; image calls, which draw on the same controller, are the subject of \<open>Image_Ledger\<close>.)
\<close>
theorem spine_slots_exact:
  assumes "spine_run cfg over L s"
  shows "(\<forall>h \<in> requestHolders (sp_ctl s). \<exists>!x. x \<in> set (sp_calls s) \<and> slotOf (sp_ctl s) x = Some h)
     \<and> (\<forall>x \<in> set (sp_calls s). \<forall>h. slotOf (sp_ctl s) x = Some h \<longrightarrow> h \<in> requestHolders (sp_ctl s))
     \<and> (\<forall>x \<in> set (sp_calls s). \<forall>w. mc_phase x = QueuedFor w \<longrightarrow>
          (w \<in> w_id ` set (ownerWaiters (sp_ctl s))) \<noteq> (map_of (settled (sp_ctl s)) w \<noteq> None))
     \<and> get_or (sp_inflight s) a 0 = int (length (filter (runningCall a) (sp_calls s)))
     \<and> (sp_calls s = [] \<longrightarrow> requestHolders (sp_ctl s) = {} \<and> keyInflight (sp_ctl s) a = None \<and> sp_inflight s a = None
          \<and> ownerWaiters (sp_ctl s) = [])"
proof (intro conjI ballI allI impI)
  note ok = spine_run_ok [OF assms]
  note sl = spineOk_slots(1,2,4) [OF ok]
  show "\<exists>!x. x \<in> set (sp_calls s) \<and> slotOf (sp_ctl s) x = Some h" if "h \<in> requestHolders (sp_ctl s)" for h
    using slotsOk_D(4) [OF sl(2) that] slotsOk_D(6) [OF sl(2)] by blast
  show "h \<in> requestHolders (sp_ctl s)" if "x \<in> set (sp_calls s)" "slotOf (sp_ctl s) x = Some h" for x h
    using slotsOk_D(5) [OF sl(2) that] .
  show "(w \<in> w_id ` set (ownerWaiters (sp_ctl s))) \<noteq> (map_of (settled (sp_ctl s)) w \<noteq> None)"
    if "x \<in> set (sp_calls s)" "mc_phase x = QueuedFor w" for x w
  proof -
    have "w \<in> set (promises (sp_ctl s))" using slotsOk_D(1) [OF sl(2) that(1)] that(2) by (simp add: queuedFor_def)
    moreover have "fst ` set (settled (sp_ctl s)) \<inter> w_id ` set (ownerWaiters (sp_ctl s)) = {}"
      using sl(1) by (auto simp: ctl_inv_def queue_ok_def)
    ultimately show ?thesis by (auto simp: map_of_eq_None_iff)
  qed
  show "get_or (sp_inflight s) a 0 = int (length (filter (runningCall a) (sp_calls s)))"
    using slotsPart_D(5) [OF sl(3)] by (rule get_or_count_entry)
  assume none: "sp_calls s = []"
  show empty: "requestHolders (sp_ctl s) = {}" using slotsOk_D(4) [OF sl(2)] none by auto
  show "sp_inflight s a = None" using slotsPart_D(5) [OF sl(3), of a] none by simp
  show "ownerWaiters (sp_ctl s) = []" using slotsOk_D(2) [OF sl(2)] none by (cases "ownerWaiters (sp_ctl s)") force+
  have "holders (outstanding (sp_ctl s)) (RequestGrant (Some a)) = {}"
  proof -
    have "outstanding (sp_ctl s) h \<noteq> Some (RequestGrant (Some a))" for h
    proof
      assume out: "outstanding (sp_ctl s) h = Some (RequestGrant (Some a))"
      then have "background (sp_ctl s) \<noteq> Some h" using sl(1) by (simp add: ctl_inv_def accounted_def)
      then have "h \<in> requestHolders (sp_ctl s)" using out by (auto simp: requestHolders_def)
      then show False using empty by simp
    qed
    then show ?thesis by (simp add: holders_def)
  qed
  then show "keyInflight (sp_ctl s) a = None" using sl(1) by (simp add: ctl_inv_def accounted_def)
qed

theorem spine_slots_exact_witness:
  "outstanding (sp_ctl spineChat) 0 \<noteq> None \<and> (\<exists>!x. x \<in> set (sp_calls spineChat) \<and> slotOf (sp_ctl spineChat) x = Some 0)"
proof -
  have "outstanding (sp_ctl spineChat) 0 \<noteq> None" "background (sp_ctl spineChat) = None" by code_simp+
  then have "0 \<in> requestHolders (sp_ctl spineChat)" by (auto simp: requestHolders_def)
  then show ?thesis using spine_slots_exact [OF spineChat_run] \<open>outstanding (sp_ctl spineChat) 0 \<noteq> None\<close> by blast
qed

text \<open>
  C6: a refused call costs nothing. In every reachable state a chat, decision, embedding, \<open>ask\<close> or audio call
  that is refused for credits, model, quota or a closed connection leaves the key table, the slots, the pending
  calls and every daily counter exactly as they were.
\<close>
theorem spine_refusal_free:
  assumes "spine_run cfg over L s" and "principalOk (sp_keys s) p" and "1 \<le> est" and "refused \<noteq> Suspended"
    and "hasSignal surface \<and> startMetered surface p model est gone eid now s = (refused, s')
      \<or> startAsk other p m est eid now s = (refused, s') \<or> startAudio cfg p model eid now s = (refused, s')"
  shows "sp_keys s' = sp_keys s \<and> sp_ctl s' = sp_ctl s \<and> sp_calls s' = sp_calls s \<and> sp_inflight s' = sp_inflight s
     \<and> get_or (daily (sp_quota s')) k 0 = get_or (daily (sp_quota s)) k 0"
proof -
  note ok = spine_run_ok [OF assms(1)] and cfg = spine_run_audio [OF assms(1)]
  have "untouched s s'"
    using assms(5)
  proof (elim disjE conjE)
    assume "hasSignal surface" "startMetered surface p model est gone eid now s = (refused, s')"
    moreover from this have "surface \<notin> {TokenizeSurface, LoadSurface}" by (auto simp: hasSignal_def)
    ultimately show ?thesis using startMetered_ok(2) [OF ok assms(2,3) _ _ assms(4)] by blast
  qed (use startAsk_ok(2) [OF ok assms(2,3) _ assms(4)] startAudio_ok(2) [OF ok assms(2) cfg _ assms(4)] in blast)+
  then show ?thesis unfolding untouched_def by blast
qed

theorem spine_refusal_free_witness:
  "fst (startMetered ChatSurface spinePrincipal None 950 False ''e2'' 6 spineChat) = CreditsExhausted
   \<and> sp_keys (snd (startMetered ChatSurface spinePrincipal None 950 False ''e2'' 6 spineChat)) = sp_keys spineChat"
proof -
  let ?r = "startMetered ChatSurface spinePrincipal None 950 False ''e2'' 6 spineChat"
  have refused: "fst ?r = CreditsExhausted" by code_simp
  have "cappedHash ''h:hs_owner_AAAA'' (sp_keys spineChat)" by code_simp
  then have "principalOk (sp_keys spineChat) spinePrincipal" by (simp add: principalOk_def spineDb_facts)
  moreover have "hasSignal ChatSurface" by (simp add: hasSignal_def)
  moreover have "?r = (CreditsExhausted, snd ?r)" using refused by (metis prod.collapse)
  ultimately show ?thesis
    using refused spine_refusal_free [OF spineChat_run, of spinePrincipal 950 CreditsExhausted ChatSurface None False "''e2''" 6 "snd ?r"]
    by simp
qed


end
