(* ===== verification/Route_Database.thy ===== *)
theory Route_Database
  imports Constitutional_Lease JS_Date
begin

text \<open>
  The authoritative store of the micro-routing table, \<open>src/homeserver/constitutional-route-database.ts\<close>: the
  route value, the serving guard, the deadline of a candidate in flight and, in the same file, the writer lease
  of \<open>Constitutional_Lease\<close>. Every operation is one \<open>IMMEDIATE\<close> transaction on one record. The SHA-256 digest,
  the clocks and the boot id are arguments.
\<close>

section \<open>Timestamps with exact seconds\<close>

text \<open>\<open>toISOString\<close> of a whole second with \<open>.000Z\<close> replaced by \<open>Z\<close>.\<close>

definition isoSecond :: "millis \<Rightarrow> string" where
  "isoSecond t =
     (let s = t mod ms_per_day div 1000
      in isoDay (Day t) @ ''T'' @ pad2 (s div 3600) @ '':'' @ pad2 (s div 60 mod 60) @ '':'' @ pad2 (s mod 60) @ ''Z'')"

definition field :: "string \<Rightarrow> nat \<Rightarrow> nat \<Rightarrow> int" where
  "field s from n = int (dec_value (take n (drop from s)))"

text \<open>The regular expression \<open>YYYY-MM-DDTHH:MM:SSZ\<close> over digits.\<close>

definition secondShape :: "string \<Rightarrow> bool" where
  "secondShape s \<longleftrightarrow>
     length s = 20 \<and> list_all (\<lambda>(f, n). all_digits (take n (drop f s))) [(0, 4), (5, 2), (8, 2), (11, 2), (14, 2), (17, 2)]
     \<and> list_all (\<lambda>(i, c). s ! i = c) [(4, CHR ''-''), (7, CHR ''-''), (10, CHR ''T''), (13, CHR '':''), (16, CHR '':''), (19, CHR ''Z'')]"

text \<open>
  \<open>Date.parse\<close> on a text of that shape, for texts that print back to themselves: the only ones the code accepts.
\<close>

definition parseSecond :: "string \<Rightarrow> millis option" where
  "parseSecond s =
     (if \<not> secondShape s \<or> field s 5 2 < 1 \<or> 12 < field s 5 2 then None
      else let t = MakeDay (field s 0 4) (nat (field s 5 2) - 1) (field s 8 2) * ms_per_day
                   + ((field s 11 2 * 60 + field s 14 2) * 60 + field s 17 2) * 1000
           in if isoSecond t = s then Some t else None)"

section \<open>The database\<close>

record RouteFence =
  f_epoch :: int
  f_token :: string

record RouteGuardOwner =
  o_journalId :: string
  o_attemptId :: string
  o_bindingDigest :: string
  o_targetScopeDigest :: string
  o_watchdogIdentity :: string

record CandidateRouteDeadline =
  d_journalId :: string
  d_attemptId :: string
  d_bindingDigest :: string
  d_targetScopeDigest :: string
  d_candidateDigest :: string
  d_notAfter :: string

record CandidateDeadlineRow =
  cd_identity :: CandidateRouteDeadline
  activated_wall_ms :: millis
  activated_monotonic_ns :: string
  activated_boot_id :: string

text \<open>The owner columns are all null or all set.\<close>

record RouteGuard =
  g_blocked :: bool
  g_owner :: "RouteGuardOwner option"
  g_fence :: "RouteFence option"

record RouteRow =
  rr_value :: string
  rr_digest :: string

record RouteDb =
  rd_lease :: CLeaseDb
  rd_route :: "RouteRow option"
  rd_guard :: RouteGuard
  rd_deadline :: "CandidateDeadlineRow option"

datatype RouteError = RouteBlocked | NotInitialized | InvalidFence | InvalidGuardOwner | InvalidCandidateDeadline
  | HostClockRequired

text \<open>What a writer's transaction reads of its host: the monotonic and the wall clock and the boot id.\<close>

record HostClock =
  h_monotonicNs :: int
  h_wallMs :: millis
  h_bootId :: string

definition openRouteDb :: "CLeaseDb \<Rightarrow> RouteDb" where
  "openRouteDb lease =
     \<lparr>rd_lease = lease, rd_route = None, rd_guard = \<lparr>g_blocked = False, g_owner = None, g_fence = None\<rparr>, rd_deadline = None\<rparr>"

section \<open>Validation\<close>

definition idChar :: "char \<Rightarrow> bool" where
  "idChar c \<longleftrightarrow> c \<in> set ''abcdefghijklmnopqrstuvwxyz0123456789-''"

text \<open>\<open>ID\<close>: \<open>[a-z][a-z0-9-]{2,120}\<close>, and \<open>DIGEST\<close>: \<open>sha256:[a-f0-9]{64}\<close>.\<close>

definition validId :: "string \<Rightarrow> bool" where
  "validId s = (case s of [] \<Rightarrow> False | c # cs \<Rightarrow>
     c \<in> set ''abcdefghijklmnopqrstuvwxyz'' \<and> 2 \<le> length cs \<and> length cs \<le> 120 \<and> list_all idChar cs)"

definition validDigest :: "string \<Rightarrow> bool" where
  "validDigest s \<longleftrightarrow> take 7 s = ''sha256:'' \<and> length s = 71 \<and> list_all (\<lambda>c. c \<in> set ''abcdef0123456789'') (drop 7 s)"

definition validateFence :: "RouteFence \<Rightarrow> bool" where
  "validateFence fence \<longleftrightarrow>
     1 \<le> f_epoch fence \<and> f_epoch fence \<le> max_safe_integer
     \<and> length (f_token fence) = 36 \<and> list_all boot_id_char (f_token fence)"

definition validateGuardOwner :: "RouteGuardOwner \<Rightarrow> bool" where
  "validateGuardOwner w \<longleftrightarrow>
     validId (o_journalId w) \<and> validId (o_attemptId w) \<and> validId (o_watchdogIdentity w)
     \<and> validDigest (o_bindingDigest w) \<and> validDigest (o_targetScopeDigest w)"

definition validateCandidateDeadline :: "(string \<Rightarrow> string) \<Rightarrow> CandidateRouteDeadline \<Rightarrow> string \<Rightarrow> bool" where
  "validateCandidateDeadline sha v candidate \<longleftrightarrow>
     validId (d_journalId v) \<and> validId (d_attemptId v) \<and> validDigest (d_bindingDigest v)
     \<and> validDigest (d_targetScopeDigest v) \<and> d_candidateDigest v = sha candidate \<and> parseSecond (d_notAfter v) \<noteq> None"

text \<open>
  The fence is compared with the lease row in the transaction of the mutation. The lease table exists: opening the
  lease store creates it, and without it the query throws, which refuses the mutation as well.
\<close>

definition routeLeaseCurrent :: "HostClock \<Rightarrow> RouteFence \<Rightarrow> RouteDb \<Rightarrow> bool" where
  "routeLeaseCurrent host fence db =
     (case writer_lease (rd_lease db) of
        None \<Rightarrow> False
      | Some row \<Rightarrow> cr_epoch row = f_epoch fence \<and> cr_token row = f_token fence \<and> boot_id row = h_bootId host
          \<and> all_digits (expires_monotonic_ns row) \<and> h_monotonicNs host < int (dec_value (expires_monotonic_ns row)))"

section \<open>Operations\<close>

text \<open>\<open>ownClock\<close>: the options carry a clock or a boot id of the caller.\<close>

definition acquireWriterLease ::
  "bool \<Rightarrow> kill_answer \<Rightarrow> js_number \<Rightarrow> HostClock \<Rightarrow> string \<Rightarrow> int \<Rightarrow> RouteDb
     \<Rightarrow> (RouteError + (CLeaseError + ConstitutionalFencedLease)) \<times> RouteDb" where
  "acquireWriterLease ownClock kill dur host token pid db =
     (if ownClock then (Inl HostClockRequired, db)
      else let (r, lease) = cl_acquire kill dur (h_monotonicNs host) token (h_bootId host) pid (rd_lease db)
           in (Inr r, db\<lparr>rd_lease := lease\<rparr>))"

definition readRoute :: "RouteDb \<Rightarrow> RouteError + string" where
  "readRoute db = (case rd_route db of None \<Rightarrow> Inl NotInitialized | Some row \<Rightarrow> Inr (rr_value row))"

definition setCandidateDeadline :: "HostClock \<Rightarrow> CandidateRouteDeadline \<Rightarrow> RouteDb \<Rightarrow> RouteDb" where
  "setCandidateDeadline host v db =
     db\<lparr>rd_deadline := Some \<lparr>cd_identity = v, activated_wall_ms = h_wallMs host,
          activated_monotonic_ns = dec_int (h_monotonicNs host), activated_boot_id = h_bootId host\<rparr>\<rparr>"

definition dropCandidateDeadline :: "RouteDb \<Rightarrow> RouteDb" where
  "dropCandidateDeadline db = db\<lparr>rd_deadline := None\<rparr>"

definition routeCompareAndSwap ::
  "(string \<Rightarrow> string) \<Rightarrow> HostClock \<Rightarrow> string \<Rightarrow> string \<Rightarrow> RouteFence \<Rightarrow> CandidateRouteDeadline option \<Rightarrow> RouteDb
     \<Rightarrow> (RouteError + bool) \<times> RouteDb" where
  "routeCompareAndSwap sha host expected next fence candidate db =
     (if \<not> validateFence fence then (Inl InvalidFence, db)
      else if (case candidate of None \<Rightarrow> False | Some v \<Rightarrow> \<not> validateCandidateDeadline sha v next)
      then (Inl InvalidCandidateDeadline, db)
      else case rd_route db of
             None \<Rightarrow> (Inr False, db)
           | Some row \<Rightarrow>
               if rr_value row \<noteq> expected then (Inr False, db)
               else if \<not> routeLeaseCurrent host fence db then (Inr False, db)
               else let db1 = db\<lparr>rd_route := Some \<lparr>rr_value = next, rr_digest = sha next\<rparr>\<rparr>
                    in (Inr True, case candidate of None \<Rightarrow> dropCandidateDeadline db1
                                  | Some v \<Rightarrow> setCandidateDeadline host v db1))"

definition restoreExact ::
  "(string \<Rightarrow> string) \<Rightarrow> HostClock \<Rightarrow> string \<Rightarrow> string \<Rightarrow> RouteFence \<Rightarrow> RouteDb \<Rightarrow> (RouteError + bool) \<times> RouteDb" where
  "restoreExact sha host expectedDigest baseline fence db =
     (if \<not> validateFence fence then (Inl InvalidFence, db)
      else case rd_route db of
             None \<Rightarrow> (Inr False, db)
           | Some row \<Rightarrow>
               if rr_digest row \<noteq> expectedDigest \<or> \<not> routeLeaseCurrent host fence db then (Inr False, db)
               else (Inr True, dropCandidateDeadline (db\<lparr>rd_route := Some \<lparr>rr_value = baseline, rr_digest = sha baseline\<rparr>\<rparr>)))"

definition clearCandidateDeadline ::
  "HostClock \<Rightarrow> CandidateRouteDeadline \<Rightarrow> RouteFence \<Rightarrow> RouteDb \<Rightarrow> (RouteError + bool) \<times> RouteDb" where
  "clearCandidateDeadline host candidate fence db =
     (if \<not> validateFence fence then (Inl InvalidFence, db)
      else case rd_route db of
             None \<Rightarrow> (Inr False, db)
           | Some row \<Rightarrow>
               if rr_digest row \<noteq> d_candidateDigest candidate \<or> \<not> routeLeaseCurrent host fence db then (Inr False, db)
               else case rd_deadline db of
                      None \<Rightarrow> (Inr True, db)
                    | Some stored \<Rightarrow>
                        if cd_identity stored \<noteq> candidate then (Inr False, db) else (Inr True, dropCandidateDeadline db))"

definition blockRoute ::
  "HostClock \<Rightarrow> RouteFence \<Rightarrow> RouteGuardOwner option \<Rightarrow> RouteDb \<Rightarrow> (RouteError + bool) \<times> RouteDb" where
  "blockRoute host fence owner db =
     (if (case owner of None \<Rightarrow> False | Some w \<Rightarrow> \<not> validateGuardOwner w) then (Inl InvalidGuardOwner, db)
      else if \<not> validateFence fence then (Inl InvalidFence, db)
      else if \<not> routeLeaseCurrent host fence db then (Inr False, db)
      else if g_blocked (rd_guard db) then (Inr False, db)
      else (Inr True, db\<lparr>rd_guard := \<lparr>g_blocked = True, g_owner = owner,
                                       g_fence = map_option (\<lambda>_. fence) owner\<rparr>\<rparr>))"

definition clearOwnedBlock :: "HostClock \<Rightarrow> RouteFence \<Rightarrow> RouteGuardOwner \<Rightarrow> RouteDb \<Rightarrow> (RouteError + bool) \<times> RouteDb" where
  "clearOwnedBlock host fence owner db =
     (if \<not> validateFence fence then (Inl InvalidFence, db)
      else if \<not> validateGuardOwner owner then (Inl InvalidGuardOwner, db)
      else if \<not> routeLeaseCurrent host fence db then (Inr False, db)
      else if g_blocked (rd_guard db) \<and> g_owner (rd_guard db) = Some owner
      then (Inr True, db\<lparr>rd_guard := (rd_guard db)\<lparr>g_blocked := False\<rparr>\<rparr>)
      else (Inr False, db))"

definition isBlocked :: "RouteDb \<Rightarrow> bool" where
  "isBlocked db = g_blocked (rd_guard db)"

definition initializeRoute :: "(string \<Rightarrow> string) \<Rightarrow> string \<Rightarrow> RouteDb \<Rightarrow> RouteDb" where
  "initializeRoute sha value db =
     (case rd_route db of None \<Rightarrow> db\<lparr>rd_route := Some \<lparr>rr_value = value, rr_digest = sha value\<rparr>\<rparr> | Some _ \<Rightarrow> db)"

section \<open>Serving\<close>

text \<open>The reader's clock; \<open>wall\<close> may be anything a clock returns.\<close>

record ReadClock =
  c_wall :: js_number
  c_monotonicNs :: int
  c_bootId :: string

definition candidateExpired :: "ReadClock \<Rightarrow> CandidateDeadlineRow \<Rightarrow> bool" where
  "candidateExpired clock row =
     (case c_wall clock of
        Fin wallNow \<Rightarrow>
          if c_bootId clock \<noteq> activated_boot_id row then True
          else if c_monotonicNs clock < 0 \<or> \<not> all_digits (activated_monotonic_ns row) then True
          else let activated = int (dec_value (activated_monotonic_ns row));
                   elapsedMs = (c_monotonicNs clock - activated) div 1000000;
                   late = (\<lambda>now. case parseSecond (d_notAfter (cd_identity row)) of None \<Rightarrow> False | Some t \<Rightarrow> of_int t \<le> now)
               in if activated \<le> c_monotonicNs clock
                  then max_safe_integer < elapsedMs \<or> late (max wallNow (of_int (activated_wall_ms row + elapsedMs)))
                  else late wallNow
      | _ \<Rightarrow> True)"

definition readConstitutionalRoute :: "(string \<Rightarrow> string) \<Rightarrow> ReadClock \<Rightarrow> RouteDb \<Rightarrow> RouteError + string" where
  "readConstitutionalRoute sha clock db =
     (if g_blocked (rd_guard db) then Inl RouteBlocked
      else case rd_route db of
             None \<Rightarrow> Inl NotInitialized
           | Some row \<Rightarrow>
               (case rd_deadline db of
                  None \<Rightarrow> Inr (rr_value row)
                | Some d \<Rightarrow> if sha (rr_value row) \<noteq> d_candidateDigest (cd_identity d) \<or> candidateExpired clock d
                            then Inl RouteBlocked else Inr (rr_value row)))"

section \<open>Operations of any number of processes\<close>

datatype RouteOp =
    RLease CLeaseOp
  | RInit string
  | RCas HostClock string string RouteFence "CandidateRouteDeadline option"
  | RRestore HostClock string string RouteFence
  | RCommit HostClock CandidateRouteDeadline RouteFence
  | RBlock HostClock RouteFence "RouteGuardOwner option"
  | RUnblock HostClock RouteFence RouteGuardOwner

fun rd_exec :: "(string \<Rightarrow> string) \<Rightarrow> RouteOp \<Rightarrow> RouteDb \<Rightarrow> (RouteError + bool) \<times> RouteDb" where
  "rd_exec sha (RLease op) db = (Inr True, db\<lparr>rd_lease := snd (cl_exec op (rd_lease db))\<rparr>)"
| "rd_exec sha (RInit value) db = (Inr True, initializeRoute sha value db)"
| "rd_exec sha (RCas host expected next fence candidate) db = routeCompareAndSwap sha host expected next fence candidate db"
| "rd_exec sha (RRestore host digest baseline fence) db = restoreExact sha host digest baseline fence db"
| "rd_exec sha (RCommit host candidate fence) db = clearCandidateDeadline host candidate fence db"
| "rd_exec sha (RBlock host fence owner) db = blockRoute host fence owner db"
| "rd_exec sha (RUnblock host fence owner) db = clearOwnedBlock host fence owner db"

text \<open>A run, with the operation and the state before it at every step.\<close>

fun rd_run :: "(string \<Rightarrow> string) \<Rightarrow> RouteOp list \<Rightarrow> RouteDb \<Rightarrow> RouteDb" where
  "rd_run sha [] db = db"
| "rd_run sha (op # ops) db = rd_run sha ops (snd (rd_exec sha op db))"

fun rd_trace :: "(string \<Rightarrow> string) \<Rightarrow> RouteOp list \<Rightarrow> RouteDb \<Rightarrow> (RouteOp \<times> (RouteError + bool)) list" where
  "rd_trace sha [] db = []"
| "rd_trace sha (op # ops) db = (op, fst (rd_exec sha op db)) # rd_trace sha ops (snd (rd_exec sha op db))"

lemma acquireWriterLease_op:
  "snd (acquireWriterLease False kill dur host token pid db) =
     snd (rd_exec sha (RLease (CAcquire kill dur (h_monotonicNs host) token (h_bootId host) pid)) db)"
  by (simp add: acquireWriterLease_def split: prod.split sum.split)

lemmas route_ops = routeCompareAndSwap_def restoreExact_def clearCandidateDeadline_def blockRoute_def clearOwnedBlock_def
  initializeRoute_def setCandidateDeadline_def dropCandidateDeadline_def

text \<open>A transaction that refuses changes nothing, and none that needs a fence succeeds without the current one.\<close>

fun fenceOf :: "RouteOp \<Rightarrow> (HostClock \<times> RouteFence) option" where
  "fenceOf (RCas host _ _ fence _) = Some (host, fence)"
| "fenceOf (RRestore host _ _ fence) = Some (host, fence)"
| "fenceOf (RCommit host _ fence) = Some (host, fence)"
| "fenceOf (RBlock host fence _) = Some (host, fence)"
| "fenceOf (RUnblock host fence _) = Some (host, fence)"
| "fenceOf _ = None"

lemma refused_unchanged:
  assumes "fst (rd_exec sha op db) \<noteq> Inr True"
  shows "snd (rd_exec sha op db) = db"
  using assms by (cases op) (auto simp: route_ops Let_def split: option.split if_splits)

lemma fence_needed:
  assumes "fenceOf op = Some (host, fence)" "fst (rd_exec sha op db) = Inr True"
  shows "routeLeaseCurrent host fence db \<and> validateFence fence"
  using assms by (cases op) (auto simp: route_ops Let_def split: option.splits if_splits)

lemma lease_only:
  assumes "fenceOf op \<noteq> None"
  shows "rd_lease (snd (rd_exec sha op db)) = rd_lease db"
  using assms by (cases op) (auto simp: route_ops Let_def split: option.splits if_splits)

section \<open>The lease fences the route\<close>

definition rd_op :: "(string \<Rightarrow> string) \<Rightarrow> RouteDb \<Rightarrow> int option \<Rightarrow> RouteDb \<Rightarrow> bool" where
  "rd_op sha db g db' \<longleftrightarrow>
     (\<exists>op. db' = snd (rd_exec sha op db)
        \<and> g = (case op of RLease l \<Rightarrow> fst (cl_exec l (rd_lease db)) | _ \<Rightarrow> None))"

definition routeEpoch :: "RouteDb \<Rightarrow> int option" where
  "routeEpoch db = currentEpoch (rd_lease db)"

definition routeNextEpoch :: "RouteDb \<Rightarrow> int" where
  "routeNextEpoch db = nextEpoch (rd_lease db)"

lemma rd_op_lease:
  assumes "rd_op sha db g db'"
  shows "cl_op (rd_lease db) g (rd_lease db') \<or> g = None \<and> rd_lease db' = rd_lease db"
proof -
  obtain op where op: "db' = snd (rd_exec sha op db)"
    "g = (case op of RLease l \<Rightarrow> fst (cl_exec l (rd_lease db)) | _ \<Rightarrow> None)" using assms by (auto simp: rd_op_def)
  show ?thesis
  proof (cases op)
    case (RLease l)
    then show ?thesis using op by (auto simp: cl_op_def intro: exI [of _ l])
  next
    case (RInit v)
    then show ?thesis using op by (simp add: initializeRoute_def split: option.split)
  qed (use op lease_only [of op sha db] in \<open>simp_all del: rd_exec.simps\<close>)
qed

interpretation rlease: fenced_lease routeEpoch routeNextEpoch "rd_op sha" for sha
proof unfold_locales
  fix s s' t
  assume "rd_op sha s (Some t) s'"
  then have "cl_op (rd_lease s) (Some t) (rd_lease s')" using rd_op_lease by blast
  then show "t = routeNextEpoch s \<and> routeEpoch s' = Some t \<and> routeNextEpoch s' = t + 1"
    unfolding routeEpoch_def routeNextEpoch_def by (rule clease.op_grant)
next
  fix s s'
  assume "rd_op sha s None s'"
  then show "routeNextEpoch s' = routeNextEpoch s \<and> (routeEpoch s' = routeEpoch s \<or> routeEpoch s' = None)"
    using rd_op_lease [of sha s None s'] clease.op_other unfolding routeEpoch_def routeNextEpoch_def by fastforce
qed

section \<open>Coherence\<close>

text \<open>
  The stored digest is that of the value; a candidate deadline belongs to the value that is stored and its time
  is one the code can read.
\<close>

definition routeOk :: "(string \<Rightarrow> string) \<Rightarrow> RouteDb \<Rightarrow> bool" where
  "routeOk sha db \<longleftrightarrow>
     (\<forall>row. rd_route db = Some row \<longrightarrow> rr_digest row = sha (rr_value row))
     \<and> (\<forall>d. rd_deadline db = Some d \<longrightarrow> parseSecond (d_notAfter (cd_identity d)) \<noteq> None
          \<and> (\<exists>row. rd_route db = Some row \<and> rr_digest row = d_candidateDigest (cd_identity d)))"

lemma routeOk_open: "routeOk sha (openRouteDb lease)"
  by (simp add: routeOk_def openRouteDb_def)

lemma routeOk_exec: "routeOk sha db \<Longrightarrow> routeOk sha (snd (rd_exec sha op db))"
  by (cases op) (auto simp: routeOk_def route_ops validateCandidateDeadline_def Let_def split: option.split if_splits)

lemma routeOk_run: "routeOk sha db \<Longrightarrow> routeOk sha (rd_run sha ops db)"
  by (induction ops arbitrary: db) (auto intro: routeOk_exec)

section \<open>Properties\<close>

text \<open>The expiry of a candidate: the wall clock or the monotonic clock of the same boot has reached its time.\<close>

definition inTime :: "ReadClock \<Rightarrow> CandidateDeadlineRow \<Rightarrow> millis \<Rightarrow> bool" where
  "inTime clock d t \<longleftrightarrow>
     (\<exists>wall. c_wall clock = Fin wall \<and> wall < of_int t) \<and> c_bootId clock = activated_boot_id d
     \<and> 0 \<le> c_monotonicNs clock \<and> all_digits (activated_monotonic_ns d)
     \<and> (let activated = int (dec_value (activated_monotonic_ns d));
            elapsedMs = (c_monotonicNs clock - activated) div 1000000
        in activated \<le> c_monotonicNs clock \<longrightarrow> elapsedMs \<le> max_safe_integer \<and> activated_wall_ms d + elapsedMs < t)"

lemma candidateExpired_iff:
  assumes "parseSecond (d_notAfter (cd_identity d)) = Some t"
  shows "candidateExpired clock d \<longleftrightarrow> \<not> inTime clock d t"
proof (cases "c_wall clock")
  case (Fin wall)
  show ?thesis using assms unfolding candidateExpired_def inTime_def Let_def Fin
    by (auto simp: le_max_iff_disj not_le not_less)
qed (simp_all add: candidateExpired_def inTime_def)

text \<open>
  C27: exactly when the gateway serves a route. In every state that any operations of any processes reach, a value
  is served if and only if the guard is open, the value is the stored one, and a candidate deadline, if one is
  recorded, belongs to this value, was set in this boot, and is still ahead by the wall clock and by the
  monotonic time elapsed since activation. Moving the wall clock back does not buy serving time.
\<close>
theorem route_served_iff:
  fixes sha ops lease
  defines "db \<equiv> rd_run sha ops (openRouteDb lease)"
  shows "readConstitutionalRoute sha clock db = Inr v \<longleftrightarrow>
     \<not> isBlocked db \<and> map_option rr_value (rd_route db) = Some v
     \<and> (case rd_deadline db of None \<Rightarrow> True
        | Some d \<Rightarrow> d_candidateDigest (cd_identity d) = sha v
            \<and> (\<exists>t. parseSecond (d_notAfter (cd_identity d)) = Some t \<and> inTime clock d t))"
proof -
  have ok: "routeOk sha db" unfolding db_def by (rule routeOk_run [OF routeOk_open])
  show ?thesis
  proof (cases "rd_deadline db")
    case None
    then show ?thesis by (auto simp: readConstitutionalRoute_def isBlocked_def split: option.split)
  next
    case (Some d)
    then obtain t row where t: "parseSecond (d_notAfter (cd_identity d)) = Some t"
      and row: "rd_route db = Some row" "rr_digest row = d_candidateDigest (cd_identity d)" "rr_digest row = sha (rr_value row)"
      using ok by (auto simp: routeOk_def)
    show ?thesis using Some t row candidateExpired_iff [OF t, of clock]
      by (auto simp: readConstitutionalRoute_def isBlocked_def)
  qed
qed

text \<open>
  A relation kept by every step that is not in the set \<open>P\<close> of decided operations is kept by a run with no step
  in \<open>P\<close>.
\<close>

lemma rd_trace_kept:
  assumes "\<forall>x \<in> set (rd_trace sha ops db). \<not> P x" and "Q db"
    and "\<And>op db. \<lbrakk>Q db; \<not> P (op, fst (rd_exec sha op db))\<rbrakk> \<Longrightarrow> Q (snd (rd_exec sha op db))"
  shows "Q (rd_run sha ops db)"
  using assms(1,2) by (induction ops arbitrary: db) (auto intro: assms(3))

text \<open>The decisions that end a candidacy: a new route value, an exact restore, an exact commit.\<close>

fun settlesCandidate :: "RouteOp \<times> (RouteError + bool) \<Rightarrow> bool" where
  "settlesCandidate (RCas _ _ _ _ _, r) = (r = Inr True)"
| "settlesCandidate (RRestore _ _ _ _, r) = (r = Inr True)"
| "settlesCandidate (RCommit _ _ _, r) = (r = Inr True)"
| "settlesCandidate _ = False"

lemma deadline_kept:
  assumes "rd_deadline db = Some d \<and> rd_route db = Some row" and "\<not> settlesCandidate (op, fst (rd_exec sha op db))"
  shows "rd_deadline (snd (rd_exec sha op db)) = Some d \<and> rd_route (snd (rd_exec sha op db)) = Some row"
proof (cases "fst (rd_exec sha op db) = Inr True")
  case True
  with assms show ?thesis by (cases op) (auto simp: route_ops Let_def split: option.splits if_splits)
qed (use assms refused_unchanged in simp)

text \<open>
  C28: a candidate nobody settles stops being served. Once a fenced swap has installed a candidate with its
  deadline, and as long as no later swap, restore or commit succeeds (the controller and the recovery worker may
  both be dead), every reader whose clock is not in time, including one of any later boot, is refused with the
  blocked error, whatever else happens to the lease and to the guard.
\<close>
theorem route_candidate_fails_closed:
  assumes "routeCompareAndSwap sha host expected next fence (Some v) db = (Inr True, db1)"
    and "\<forall>x \<in> set (rd_trace sha ops db1). \<not> settlesCandidate x"
    and "parseSecond (d_notAfter v) = Some t"
    and "c_bootId clock \<noteq> h_bootId host \<or> (\<forall>wall. c_wall clock = Fin wall \<longrightarrow> of_int t \<le> wall)
         \<or> 0 \<le> h_monotonicNs host \<and> h_monotonicNs host \<le> c_monotonicNs clock
           \<and> t \<le> h_wallMs host + (c_monotonicNs clock - h_monotonicNs host) div 1000000"
  shows "readConstitutionalRoute sha clock (rd_run sha ops db1) = Inl RouteBlocked"
proof -
  let ?d = "\<lparr>cd_identity = v, activated_wall_ms = h_wallMs host, activated_monotonic_ns = dec_int (h_monotonicNs host),
             activated_boot_id = h_bootId host\<rparr>"
  let ?row = "\<lparr>rr_value = next, rr_digest = sha next\<rparr>"
  have "rd_deadline db1 = Some ?d \<and> rd_route db1 = Some ?row"
    using assms(1) by (auto simp: route_ops Let_def split: option.splits if_splits)
  then have kept: "rd_deadline (rd_run sha ops db1) = Some ?d \<and> rd_route (rd_run sha ops db1) = Some ?row"
    by (rule rd_trace_kept [OF assms(2), of "\<lambda>db. rd_deadline db = Some ?d \<and> rd_route db = Some ?row"])
      (rule deadline_kept)
  have "\<not> inTime clock ?d t"
    using assms(4) by (auto simp: inTime_def Let_def dec_int_def)
  then have "candidateExpired clock ?d" using candidateExpired_iff [of ?d t clock] assms(3) by simp
  then show ?thesis using kept by (simp add: readConstitutionalRoute_def)
qed

text \<open>The one transaction that opens a guard: an unblock with the owner that took it.\<close>

fun opensGuard :: "RouteGuardOwner option \<Rightarrow> RouteOp \<times> (RouteError + bool) \<Rightarrow> bool" where
  "opensGuard w (RUnblock _ _ owner, r) = (r = Inr True \<and> w = Some owner)"
| "opensGuard w _ = False"

lemma guard_kept:
  assumes "rd_guard db = \<lparr>g_blocked = True, g_owner = w, g_fence = f\<rparr>" and "\<not> opensGuard w (op, fst (rd_exec sha op db))"
  shows "rd_guard (snd (rd_exec sha op db)) = \<lparr>g_blocked = True, g_owner = w, g_fence = f\<rparr>"
proof (cases "fst (rd_exec sha op db) = Inr True")
  case True
  with assms show ?thesis by (cases op) (auto simp: route_ops Let_def split: option.splits if_splits)
qed (use assms refused_unchanged in simp)

text \<open>
  C29: the guard is a capability of who took it. After a successful block, in every continuation without a
  successful unblock by exactly the same owner, the guard stays blocked and keeps its owner and fence, no value is
  served, and a further block is refused; after an operator's block, which has no owner, that is every
  continuation.
\<close>
theorem route_guard_sticky:
  assumes "blockRoute host fence w db = (Inr True, db1)"
    and "\<forall>x \<in> set (rd_trace sha ops db1). \<not> opensGuard w x"
  shows "rd_guard (rd_run sha ops db1) = \<lparr>g_blocked = True, g_owner = w, g_fence = map_option (\<lambda>_. fence) w\<rparr>
     \<and> readConstitutionalRoute sha clock (rd_run sha ops db1) = Inl RouteBlocked
     \<and> fst (blockRoute host' fence' w' (rd_run sha ops db1)) \<noteq> Inr True
     \<and> (w = None \<longrightarrow> fst (clearOwnedBlock host' fence' owner (rd_run sha ops db1)) \<noteq> Inr True)"
proof -
  let ?g = "\<lparr>g_blocked = True, g_owner = w, g_fence = map_option (\<lambda>_. fence) w\<rparr>"
  have "rd_guard db1 = ?g"
    using assms(1) by (auto simp: route_ops split: if_splits)
  then have "rd_guard (rd_run sha ops db1) = ?g"
    by (rule rd_trace_kept [OF assms(2), of "\<lambda>db. rd_guard db = ?g"]) (rule guard_kept)
  then show ?thesis by (simp add: readConstitutionalRoute_def blockRoute_def clearOwnedBlock_def)
qed

text \<open>
  A superseded writer changes nothing. If a process holds the lease of an epoch and somebody else has been
  granted the lease since, in any run of operations of any processes on the route and on the lease, then no
  swap, restore, commit, block or unblock with the old fence succeeds, and the database stays as it is: the
  fence is compared in the transaction of the mutation.
\<close>
lemma route_stale_writer_fenced:
  assumes "cl_acquire kill dur now token bootId pid (rd_lease db) = (Inr l, lease1)"
    and "lease_run (rd_op sha) (db\<lparr>rd_lease := lease1\<rparr>) toks db2" and "toks \<noteq> []"
    and "fenceOf op = Some (host, fence)" and "f_epoch fence = l_epoch l"
  shows "fst (rd_exec sha op db2) \<noteq> Inr True \<and> snd (rd_exec sha op db2) = db2"
proof -
  note grant = cl_acquire_granted [OF assms(1)]
  have "routeEpoch db2 \<noteq> Some (l_epoch l)"
    using grant(2,3) by (intro rlease.superseded [OF assms(2,3)]) (auto simp: routeEpoch_def routeNextEpoch_def currentEpoch_def)
  then have "\<not> routeLeaseCurrent host fence db2"
    using assms(5) by (auto simp: routeLeaseCurrent_def routeEpoch_def currentEpoch_def split: option.splits)
  then show ?thesis using fence_needed [OF assms(4)] refused_unchanged by blast
qed

section \<open>Witnesses\<close>

definition wToken :: "char \<Rightarrow> string" where
  "wToken c = replicate 36 c"

definition wDigest :: string where
  "wDigest = ''sha256:'' @ replicate 64 (CHR ''0'')"

definition wSha :: "string \<Rightarrow> string" where
  "wSha s = ''sha256:'' @ s"

definition wHost :: HostClock where
  "wHost = \<lparr>h_monotonicNs = 5, h_wallMs = 1000, h_bootId = ''b''\<rparr>"

definition wFence :: RouteFence where
  "wFence = \<lparr>f_epoch = 1, f_token = wToken (CHR ''a'')\<rparr>"

definition wCand :: CandidateRouteDeadline where
  "wCand = \<lparr>d_journalId = ''jnl'', d_attemptId = ''att'', d_bindingDigest = wDigest, d_targetScopeDigest = wDigest,
            d_candidateDigest = wSha ''cand'', d_notAfter = ''1970-01-02T00:00:00Z''\<rparr>"

definition wOwner :: RouteGuardOwner where
  "wOwner = \<lparr>o_journalId = ''jnl'', o_attemptId = ''att'', o_bindingDigest = wDigest, o_targetScopeDigest = wDigest,
             o_watchdogIdentity = ''dog''\<rparr>"

definition wRouteDb :: RouteDb where
  "wRouteDb = rd_run wSha [RLease (CAcquire (\<lambda>_. None) (js_int 10) 0 (wToken (CHR ''a'')) ''b'' 4), RInit ''base''] (openRouteDb emptyCLeaseDb)"

lemma wNotAfter_time: "parseSecond ''1970-01-02T00:00:00Z'' = Some 86400000"
  by code_simp

lemma wFence_valid: "validateFence wFence"
  by code_simp

lemma wCand_valid: "validateCandidateDeadline wSha wCand ''cand''"
  by code_simp

lemma wOwner_valid: "validateGuardOwner wOwner"
  by code_simp

lemma wHost_current: "rd_route wRouteDb = Some \<lparr>rr_value = ''base'', rr_digest = wSha ''base''\<rparr> \<and> routeLeaseCurrent wHost wFence wRouteDb
   \<and> rd_guard wRouteDb = \<lparr>g_blocked = False, g_owner = None, g_fence = None\<rparr>"
  by (simp add: wRouteDb_def openRouteDb_def initializeRoute_def emptyCLeaseDb_def cl_acquire_def max_safe_integer_def routeLeaseCurrent_def wFence_def wHost_def dec_int_def all_digits_dec_nat)

lemma wSwap:
  "\<exists>db1. routeCompareAndSwap wSha wHost ''base'' ''cand'' wFence (Some wCand) wRouteDb = (Inr True, db1)"
  using wHost_current wFence_valid wCand_valid by (simp add: routeCompareAndSwap_def Let_def)

theorem route_candidate_fails_closed_witness:
  "\<exists>db1. routeCompareAndSwap wSha wHost ''base'' ''cand'' wFence (Some wCand) wRouteDb = (Inr True, db1)
     \<and> readConstitutionalRoute wSha \<lparr>c_wall = Fin 0, c_monotonicNs = 9, c_bootId = ''after-reboot''\<rparr>
         (rd_run wSha [RLease (CRelease (wLease 1 ''t'')), RInit ''other''] db1) = Inl RouteBlocked"
proof -
  obtain db1 where swap: "routeCompareAndSwap wSha wHost ''base'' ''cand'' wFence (Some wCand) wRouteDb = (Inr True, db1)"
    using wSwap by blast
  have "parseSecond (d_notAfter wCand) = Some 86400000" using wNotAfter_time by (simp add: wCand_def)
  then show ?thesis
    using swap route_candidate_fails_closed [OF swap, of "[RLease (CRelease (wLease 1 ''t'')), RInit ''other'']" 86400000
        "\<lparr>c_wall = Fin 0, c_monotonicNs = 9, c_bootId = ''after-reboot''\<rparr>"]
    by (simp add: wHost_def del: rd_run.simps)
qed

theorem route_guard_sticky_witness:
  "\<exists>db1. blockRoute wHost wFence (Some wOwner) wRouteDb = (Inr True, db1)
     \<and> readConstitutionalRoute wSha \<lparr>c_wall = Fin 0, c_monotonicNs = 9, c_bootId = ''b''\<rparr>
         (rd_run wSha [RUnblock wHost wFence (wOwner\<lparr>o_attemptId := ''other''\<rparr>)] db1) = Inl RouteBlocked"
proof -
  obtain db1 where blocked: "blockRoute wHost wFence (Some wOwner) wRouteDb = (Inr True, db1)"
    using wHost_current wFence_valid wOwner_valid by (simp add: blockRoute_def)
  show ?thesis
    using blocked route_guard_sticky [OF blocked, of wSha "[RUnblock wHost wFence (wOwner\<lparr>o_attemptId := ''other''\<rparr>)]"
        "\<lparr>c_wall = Fin 0, c_monotonicNs = 9, c_bootId = ''b''\<rparr>"]
    by (simp add: wOwner_def del: rd_run.simps)
qed

lemma route_stale_writer_fenced_witness:
  "snd (routeCompareAndSwap wSha wHost ''base'' ''cand'' \<lparr>f_epoch = 1, f_token = ''t''\<rparr> None
      (openRouteDb (wCDb 2 ''u'' 20000000))) = openRouteDb (wCDb 2 ''u'' 20000000)"
proof -
  have "rd_op wSha ((openRouteDb emptyCLeaseDb)\<lparr>rd_lease := wCDb 1 ''t'' 10000000\<rparr>) (Some 2) (openRouteDb (wCDb 2 ''u'' 20000000))"
    unfolding rd_op_def
    by (rule exI [of _ "RLease (CAcquire (\<lambda>_. None) (js_int 10) 10000000 ''u'' ''b'' 4)"])
      (simp add: openRouteDb_def wCl_second [simplified] wLease_def)
  then have "lease_run (rd_op wSha) ((openRouteDb emptyCLeaseDb)\<lparr>rd_lease := wCDb 1 ''t'' 10000000\<rparr>) ([] @ [2])
      (openRouteDb (wCDb 2 ''u'' 20000000))" by (rule lease_run_grant [OF lease_run_refl])
  from route_stale_writer_fenced [OF _ this, where op = "RCas wHost ''base'' ''cand'' \<lparr>f_epoch = 1, f_token = ''t''\<rparr> None",
      unfolded openRouteDb_def, simplified, OF wCl_acquire [simplified]]
  show ?thesis by (simp add: wLease_def openRouteDb_def)
qed

end
