(* ===== verification/Code_Loop_Lease.thy ===== *)
theory Code_Loop_Lease
  imports Prelude
begin

text \<open>
  The cross-process single flight of the code loop, \<open>src/homeserver/code-loop-store.ts\<close>: one row of SQLite names
  the process that runs a job, with the boot id and the start time of the process, since a process id alone can
  be reused. Every operation opens the database, which migrates a row of an older writer, and runs one
  transaction. What the operating system answers about a process id is an argument.
\<close>

section \<open>The row\<close>

record DurableProcessIdentity =
  pi_boot_id :: string
  pi_start_token :: string

record ActiveRunOwner =
  owner_instance_id :: string
  owner_pid :: int
  owner_boot_id :: "string option"
  owner_start_token :: "string option"
  owner_identity_instance_id :: "string option"
  ao_work_id :: string

text \<open>What \<open>process.kill\<close> and \<open>/proc\<close> answer about a process id.\<close>

record ProcView =
  isProcessAlive :: "int \<Rightarrow> bool"
  processIdentityOf :: "int \<Rightarrow> DurableProcessIdentity option"

datatype Liveness = Live | Dead | Unknown

definition ownerLiveness :: "ProcView \<Rightarrow> ActiveRunOwner \<Rightarrow> Liveness" where
  "ownerLiveness view w =
     (if \<not> isProcessAlive view (owner_pid w) then Dead
      else if owner_identity_instance_id w \<noteq> Some (owner_instance_id w) then Unknown
      else if owner_boot_id w = None \<or> owner_start_token w = None then Unknown
      else case processIdentityOf view (owner_pid w) of
             None \<Rightarrow> Unknown
           | Some actual \<Rightarrow> if Some (pi_boot_id actual) = owner_boot_id w \<and> Some (pi_start_token actual) = owner_start_token w
                            then Live else Dead)"

section \<open>Opening the database\<close>

text \<open>The migration of a row whose identity columns were not written by its owner.\<close>

definition openActiveRunDb :: "ProcView \<Rightarrow> ActiveRunOwner option \<Rightarrow> ActiveRunOwner option" where
  "openActiveRunDb view row =
     (case row of
        None \<Rightarrow> None
      | Some legacy \<Rightarrow>
          if owner_identity_instance_id legacy = Some (owner_instance_id legacy) then row
          else if \<not> isProcessAlive view (owner_pid legacy) then None
          else case processIdentityOf view (owner_pid legacy) of
                 None \<Rightarrow> row
               | Some identity \<Rightarrow>
                   Some (legacy\<lparr>owner_boot_id := Some (pi_boot_id identity), owner_start_token := Some (pi_start_token identity),
                                owner_identity_instance_id := Some (owner_instance_id legacy)\<rparr>))"

text \<open>SQLite may answer that it is locked, before or after the migration, or fail.\<close>

datatype DbFault = DbBusy | DbFailed

datatype StoreError = DbError | NoProcessIdentity | ReleaseFailed

section \<open>Operations\<close>

text \<open>\<open>fault\<close>: opening fails, with the row as it was; \<open>None\<close>: it succeeds.\<close>

definition isDurableCodeLoopWorkLive ::
  "DbFault option \<Rightarrow> ProcView \<Rightarrow> string \<Rightarrow> ActiveRunOwner option \<Rightarrow> (StoreError + bool) \<times> ActiveRunOwner option" where
  "isDurableCodeLoopWorkLive fault view workId row =
     (case fault of
        Some DbBusy \<Rightarrow> (Inr True, row)
      | Some DbFailed \<Rightarrow> (Inl DbError, row)
      | None \<Rightarrow> (let row1 = openActiveRunDb view row
                 in (Inr (case row1 of None \<Rightarrow> False
                          | Some w \<Rightarrow> ao_work_id w = workId \<and> ownerLiveness view w \<noteq> Dead), row1)))"

datatype LeaseClaim = Acquired ActiveRunOwner | Busy "string option"

text \<open>The calling process.\<close>

record Caller =
  c_instance :: string
  c_pid :: int

definition newOwner :: "Caller \<Rightarrow> string \<Rightarrow> DurableProcessIdentity \<Rightarrow> string \<Rightarrow> ActiveRunOwner" where
  "newOwner me uuid identity workId =
     (let i = c_instance me @ '':'' @ uuid
      in \<lparr>owner_instance_id = i, owner_pid = c_pid me, owner_boot_id = Some (pi_boot_id identity),
          owner_start_token = Some (pi_start_token identity), owner_identity_instance_id = Some i, ao_work_id = workId\<rparr>)"

definition ownInstance :: "Caller \<Rightarrow> ActiveRunOwner \<Rightarrow> bool" where
  "ownInstance me w \<longleftrightarrow> take (length (c_instance me) + 1) (owner_instance_id w) = c_instance me @ '':''"

text \<open>
  \<open>fault\<close>: what opening the database answers; \<open>txn\<close>: what the transaction answers, rolled back when it fails. The
  update of an existing row names the row just read in the same transaction, so it changes exactly one row.
\<close>

definition acquireDurableCodeLoopLease ::
  "DbFault option \<Rightarrow> DbFault option \<Rightarrow> ProcView \<Rightarrow> Caller \<Rightarrow> string \<Rightarrow> bool \<Rightarrow> string \<Rightarrow> ActiveRunOwner option
     \<Rightarrow> (StoreError + LeaseClaim) \<times> ActiveRunOwner option" where
  "acquireDurableCodeLoopLease fault txn view me uuid reclaimOwnInstance workId row =
     (case fault of
        Some DbBusy \<Rightarrow> (Inr (Busy None), row)
      | Some DbFailed \<Rightarrow> (Inl DbError, row)
      | None \<Rightarrow>
          let row1 = openActiveRunDb view row
          in case processIdentityOf view (c_pid me) of
               None \<Rightarrow> (Inl NoProcessIdentity, row1)
             | Some identity \<Rightarrow>
                 (case txn of
                    Some DbBusy \<Rightarrow> (Inr (Busy None), row1)
                  | Some DbFailed \<Rightarrow> (Inl DbError, row1)
                  | None \<Rightarrow>
                      (let w = newOwner me uuid identity workId
                       in case row1 of
                            None \<Rightarrow> (Inr (Acquired w), Some w)
                          | Some current \<Rightarrow>
                              if \<not> (reclaimOwnInstance \<and> ownInstance me current) \<and> ownerLiveness view current \<noteq> Dead
                              then (Inr (Busy (Some (ao_work_id current))), row1)
                              else (Inr (Acquired w), Some w))))"

text \<open>The release closure: up to three attempts, each of which may fail before or after the database is opened.\<close>

record Attempt =
  at_opens :: bool
  at_deletes :: bool
  at_view :: ProcView

definition deleteOwned :: "ActiveRunOwner \<Rightarrow> ActiveRunOwner option \<Rightarrow> ActiveRunOwner option" where
  "deleteOwned w row =
     (case row of None \<Rightarrow> None
      | Some current \<Rightarrow> if owner_instance_id current = owner_instance_id w \<and> ao_work_id current = ao_work_id w then None else row)"

fun releaseAttempts :: "ActiveRunOwner \<Rightarrow> Attempt list \<Rightarrow> ActiveRunOwner option \<Rightarrow> (StoreError + unit) \<times> ActiveRunOwner option" where
  "releaseAttempts w [] row = (Inl ReleaseFailed, row)"
| "releaseAttempts w (a # as) row =
     (let row1 = (if at_opens a then openActiveRunDb (at_view a) row else row)
      in if at_opens a \<and> at_deletes a then (Inr (), deleteOwned w row1) else releaseAttempts w as row1)"

definition releaseLease ::
  "ActiveRunOwner \<Rightarrow> bool \<Rightarrow> Attempt \<times> Attempt \<times> Attempt \<Rightarrow> ActiveRunOwner option
     \<Rightarrow> (StoreError + unit) \<times> bool \<times> ActiveRunOwner option" where
  "releaseLease w wasReleased attempts row =
     (if wasReleased then (Inr (), True, row)
      else case attempts of (a, b, c) \<Rightarrow>
             (case releaseAttempts w [a, b, c] row of
                (Inr _, row') \<Rightarrow> (Inr (), True, row') | (Inl e, row') \<Rightarrow> (Inl e, False, row')))"

section \<open>Any sequence of operations\<close>

datatype LeaseOp =
    OpLive "DbFault option" ProcView string
  | OpAcquire "DbFault option" "DbFault option" ProcView Caller string bool string
  | OpRelease ActiveRunOwner bool "Attempt \<times> Attempt \<times> Attempt"

fun lease_exec :: "LeaseOp \<Rightarrow> ActiveRunOwner option \<Rightarrow> ActiveRunOwner option" where
  "lease_exec (OpLive fault view workId) row = snd (isDurableCodeLoopWorkLive fault view workId row)"
| "lease_exec (OpAcquire fault txn view me uuid reclaim workId) row =
     snd (acquireDurableCodeLoopLease fault txn view me uuid reclaim workId row)"
| "lease_exec (OpRelease w wasReleased attempts) row = snd (snd (releaseLease w wasReleased attempts row))"

definition lease_execs :: "LeaseOp list \<Rightarrow> ActiveRunOwner option \<Rightarrow> ActiveRunOwner option" where
  "lease_execs ops row = fold lease_exec ops row"

text \<open>
  What a running process is to the others: it answers the probe, and its start identity is read correctly or not
  at all.
\<close>

definition sees :: "ActiveRunOwner \<Rightarrow> ProcView \<Rightarrow> bool" where
  "sees w view \<longleftrightarrow> isProcessAlive view (owner_pid w)
     \<and> (\<forall>actual. processIdentityOf view (owner_pid w) = Some actual
          \<longrightarrow> Some (pi_boot_id actual) = owner_boot_id w \<and> Some (pi_start_token actual) = owner_start_token w)"

fun attemptsSee :: "ActiveRunOwner \<Rightarrow> Attempt \<times> Attempt \<times> Attempt \<Rightarrow> bool" where
  "attemptsSee w (a, b, c) = list_all (\<lambda>x. sees w (at_view x)) [a, b, c]"

fun othersOp :: "ActiveRunOwner \<Rightarrow> LeaseOp \<Rightarrow> bool" where
  "othersOp w (OpLive _ view _) = sees w view"
| "othersOp w (OpAcquire _ _ view me _ reclaim _) = (sees w view \<and> \<not> (reclaim \<and> ownInstance me w))"
| "othersOp w (OpRelease w' _ attempts) = (attemptsSee w attempts \<and> owner_instance_id w' \<noteq> owner_instance_id w)"

section \<open>Lemmas\<close>

text \<open>A row written by an acquisition carries its own identity.\<close>

definition attested :: "ActiveRunOwner \<Rightarrow> bool" where
  "attested w \<longleftrightarrow> owner_identity_instance_id w = Some (owner_instance_id w) \<and> owner_boot_id w \<noteq> None \<and> owner_start_token w \<noteq> None"

lemma newOwner_attested [simp]: "attested (newOwner me uuid identity workId)"
  by (simp add: attested_def newOwner_def Let_def)

lemma open_attested [simp]: "attested w \<Longrightarrow> openActiveRunDb view (Some w) = Some w"
  by (simp add: attested_def openActiveRunDb_def)

lemma acquired_row:
  assumes "acquireDurableCodeLoopLease fault txn view me uuid reclaim workId row = (Inr (Acquired w), row')"
  shows "row' = Some w \<and> attested w \<and> ao_work_id w = workId \<and> owner_pid w = c_pid me
     \<and> (\<exists>identity. w = newOwner me uuid identity workId)"
proof -
  have "row' = Some w \<and> (\<exists>identity. w = newOwner me uuid identity workId)"
    using assms by (auto simp: acquireDurableCodeLoopLease_def Let_def split: option.splits DbFault.splits if_splits)
  then show ?thesis using newOwner_attested by (auto simp: newOwner_def Let_def)
qed

lemma sees_not_dead: "attested w \<Longrightarrow> sees w view \<Longrightarrow> ownerLiveness view w \<noteq> Dead"
  by (auto simp: ownerLiveness_def sees_def attested_def split: option.split)

lemma release_other:
  assumes "attested w" and "owner_instance_id w' \<noteq> owner_instance_id w"
  shows "snd (releaseAttempts w' as (Some w)) = Some w"
  using assms by (induction as) (auto simp: Let_def deleteOwned_def)

lemma others_keep:
  assumes "attested w" and "othersOp w op"
  shows "lease_exec op (Some w) = Some w"
proof (cases op)
  case (OpAcquire fault txn view me uuid reclaim workId)
  then show ?thesis using assms sees_not_dead [of w view]
    by (auto simp: acquireDurableCodeLoopLease_def Let_def split: option.split DbFault.split)
next
  case (OpRelease w' wasReleased attempts)
  obtain a b c where abc: "attempts = (a, b, c)" by (cases attempts)
  obtain r row where ra: "releaseAttempts w' [a, b, c] (Some w) = (r, row)" by fastforce
  have "row = Some w" using release_other [of w w' "[a, b, c]"] assms OpRelease by (simp add: ra del: releaseAttempts.simps)
  then show ?thesis using OpRelease by (cases r) (simp_all add: releaseLease_def abc ra del: releaseAttempts.simps)
qed (use assms in \<open>auto simp: isDurableCodeLoopWorkLive_def Let_def split: option.split DbFault.split\<close>)

lemma others_keep_run: "attested w \<Longrightarrow> list_all (othersOp w) ops \<Longrightarrow> lease_execs ops (Some w) = Some w"
  by (induction ops) (simp_all add: lease_execs_def others_keep)

section \<open>Properties\<close>

text \<open>
  C17: single flight while the owner lives. Once a process has acquired the lease, through any sequence of
  liveness checks, contending acquisitions and releases by others, with any database faults, as long as the
  owner's process runs and nobody reclaims in its name, the row stays the owner's, every contender is told busy
  or fails, and the job counts as live.
\<close>
theorem code_loop_single_flight:
  assumes "acquireDurableCodeLoopLease fault txn view me uuid reclaim workId row = (Inr (Acquired w), row1)"
    and "list_all (othersOp w) ops"
    and "sees w view2" and "\<not> (reclaim2 \<and> ownInstance you w)"
  shows "lease_execs ops row1 = Some w
     \<and> fst (acquireDurableCodeLoopLease fault2 txn2 view2 you uuid2 reclaim2 workId2 (lease_execs ops row1))
         \<in> {Inr (Busy (Some workId)), Inr (Busy None), Inl NoProcessIdentity, Inl DbError}
     \<and> fst (isDurableCodeLoopWorkLive fault2 view2 workId (lease_execs ops row1)) \<in> {Inr True, Inl DbError}"
proof -
  note w = acquired_row [OF assms(1)]
  have row: "lease_execs ops row1 = Some w" using w assms(2) by (simp add: others_keep_run)
  have "ownerLiveness view2 w \<noteq> Dead" using sees_not_dead w assms(3) by blast
  then show ?thesis unfolding row using w assms(4)
    by (auto simp: acquireDurableCodeLoopLease_def isDurableCodeLoopWorkLive_def Let_def split: option.split DbFault.split)
qed

text \<open>
  The lease does not outlive its owner. When the owner's process is gone, or its process id now belongs to
  another process of this or a later boot, the next caller with an identity of its own acquires the lease; and the
  owner's release, once it is not stale, removes the row at its first attempt that reaches the database.
\<close>
lemma code_loop_lease_recovers:
  assumes "attested w"
    and "\<not> isProcessAlive view (owner_pid w) \<or>
         (\<exists>actual. processIdentityOf view (owner_pid w) = Some actual
            \<and> (Some (pi_boot_id actual) \<noteq> owner_boot_id w \<or> Some (pi_start_token actual) \<noteq> owner_start_token w))"
    and "processIdentityOf view (c_pid me) = Some identity"
  shows "acquireDurableCodeLoopLease None None view me uuid reclaim workId (Some w)
           = (Inr (Acquired (newOwner me uuid identity workId)), Some (newOwner me uuid identity workId))
     \<and> fst (isDurableCodeLoopWorkLive None view (ao_work_id w) (Some w)) = Inr False"
proof -
  have "ownerLiveness view w = Dead" using assms(1,2) by (auto simp: ownerLiveness_def attested_def)
  then show ?thesis using assms(1,3) by (simp add: acquireDurableCodeLoopLease_def isDurableCodeLoopWorkLive_def Let_def)
qed

text \<open>A release reaches its own row and no other.\<close>

lemma release_own:
  assumes "attested w" and "list_ex (\<lambda>a. at_opens a \<and> at_deletes a) as"
  shows "releaseAttempts w as (Some w) = (Inr (), None)"
  using assms by (induction as) (auto simp: Let_def deleteOwned_def)

text \<open>
  A row of a writer without identity columns is never taken from a live process: until it is attested by its own
  process, every contender is told busy.
\<close>
lemma legacy_owner_kept:
  assumes "owner_identity_instance_id w \<noteq> Some (owner_instance_id w)" and "isProcessAlive view (owner_pid w)"
    and "acquireDurableCodeLoopLease fault txn view me uuid False workId (Some w) = (r, row')"
  shows "(\<forall>n. r \<noteq> Inr (Acquired n)) \<and> map_option ao_work_id row' = Some (ao_work_id w)"
  using assms
  by (auto simp: acquireDurableCodeLoopLease_def openActiveRunDb_def ownerLiveness_def Let_def
      split: option.splits DbFault.splits if_splits)

section \<open>Witnesses\<close>

definition wView :: ProcView where
  "wView = \<lparr>isProcessAlive = (\<lambda>p. p = 7 \<or> p = 8),
            processIdentityOf = (\<lambda>p. if p = 7 then Some \<lparr>pi_boot_id = ''b'', pi_start_token = ''100''\<rparr>
                                     else if p = 8 then Some \<lparr>pi_boot_id = ''b'', pi_start_token = ''200''\<rparr> else None)\<rparr>"

definition wMe :: Caller where "wMe = \<lparr>c_instance = ''me'', c_pid = 7\<rparr>"
definition wYou :: Caller where "wYou = \<lparr>c_instance = ''you'', c_pid = 8\<rparr>"

definition wRow :: ActiveRunOwner where
  "wRow = newOwner wMe ''u'' \<lparr>pi_boot_id = ''b'', pi_start_token = ''100''\<rparr> ''w1''"

lemma wLease_acquired: "acquireDurableCodeLoopLease None None wView wMe ''u'' False ''w1'' None = (Inr (Acquired wRow), Some wRow)"
  by (simp add: acquireDurableCodeLoopLease_def openActiveRunDb_def wView_def wMe_def wRow_def Let_def)

lemma wSees: "sees wRow wView"
  by (simp add: sees_def wRow_def newOwner_def wView_def wMe_def Let_def)

lemma wForeign: "\<not> ownInstance wYou wRow"
  by (simp add: ownInstance_def wYou_def wRow_def newOwner_def wMe_def Let_def)

theorem code_loop_single_flight_witness:
  "lease_execs [OpLive (Some DbBusy) wView ''w1'', OpAcquire None None wView wYou ''v'' True ''w2''] (Some wRow) = Some wRow"
  using code_loop_single_flight [OF wLease_acquired,
      of "[OpLive (Some DbBusy) wView ''w1'', OpAcquire None None wView wYou ''v'' True ''w2'']" wView False wYou]
  by (simp add: wSees wForeign)

lemma code_loop_lease_recovers_witness:
  "fst (acquireDurableCodeLoopLease None None wView wYou ''v'' False ''w2'' (Some (wRow\<lparr>owner_start_token := Some ''99''\<rparr>))) =
     Inr (Acquired (newOwner wYou ''v'' \<lparr>pi_boot_id = ''b'', pi_start_token = ''200''\<rparr> ''w2''))"
  using code_loop_lease_recovers [of "wRow\<lparr>owner_start_token := Some ''99''\<rparr>" wView wYou
      "\<lparr>pi_boot_id = ''b'', pi_start_token = ''200''\<rparr>" "''v''" False "''w2''"]
  by (simp add: wRow_def newOwner_def wMe_def wYou_def wView_def attested_def Let_def)

end
