(* ===== verification/Code_Loop_Store.thy ===== *)
theory Code_Loop_Store
  imports Code_Loop_Lease "HOL-Library.AList"
begin

text \<open>
  The durable records of code-loop runs, \<open>src/homeserver/code-loop-store.ts\<close>: one JSON file per caller id, which is
  authoritative, and one per work id, which is an index. Several gateway processes share the directory, and each
  may die between any two system calls. An operation is therefore a program: a tree of system calls, each with a
  continuation for its reply. \<open>respond\<close> is what the operating system does, and a world interleaves the calls of
  any number of processes. Crashes are of processes, not of the machine: what a call wrote stays written.
\<close>

section \<open>Records\<close>

datatype CodeLoopJobStatus = Running | Completed | CapExceeded | Degenerate | ArmError | Orphaned

record CodeLoopUsage =
  us_turns :: int
  us_wall_ms :: int
  us_prompt_tokens :: int
  us_completion_tokens :: int

text \<open>The result and the echo are carried as the texts the file holds.\<close>

record DurableCodeLoopRun =
  client_run_id :: string
  request_fingerprint :: string
  run_work_id :: string
  run_status :: CodeLoopJobStatus
  run_usage :: CodeLoopUsage
  run_result :: "string option"
  started_at_ms :: int
  learning_task_gateway_echo :: "string option"
  run_owner_instance_id :: "string option"
  run_owner_pid :: "int option"
  cleanup_pending :: "bool option"
  capture_suppressed :: bool

definition withoutSuppressedContent :: "DurableCodeLoopRun \<Rightarrow> DurableCodeLoopRun" where
  "withoutSuppressedContent r = (if capture_suppressed r \<and> run_result r \<noteq> None then r\<lparr>run_result := None\<rparr> else r)"

datatype ClaimCodeLoopRun = Claimed DurableCodeLoopRun | Existing DurableCodeLoopRun | Conflict DurableCodeLoopRun

section \<open>The file system\<close>

text \<open>\<open>client-<key>.json\<close>, \<open>work-<id>.json\<close> and \<open><path>.tmp-<pid>-<uuid>\<close>.\<close>

datatype StorePath = ClientFile string | WorkFile string | TempFile StorePath string

text \<open>A file that was created and not written yet, or was written in part, does not parse.\<close>

datatype FileBody = Torn | Holds DurableCodeLoopRun

record StoreFs =
  entries :: "(StorePath \<times> nat) list"
  bodies :: "nat \<Rightarrow> FileBody"
  nextInode :: nat
  active :: "ActiveRunOwner option"

datatype SysCall =
    EnsureDir
  | CreateNew StorePath
  | WriteFd nat DurableCodeLoopRun
  | WriteTemp StorePath DurableCodeLoopRun
  | Rename StorePath StorePath
  | SyncDir
  | Unlink StorePath
  | ReadFile StorePath
  | ExistsFile StorePath
  | ListClients
  | LiveWork string

datatype SysReply = ROk | RFail | RFd nat | RExists | RNone | RBody FileBody | RBool bool | RKeys "string list"

text \<open>What may go wrong in a call: it fails, after writing or not; the answers of SQLite and of the process table.\<close>

record CallOutcome =
  oc_fails :: bool
  oc_wrote :: bool
  oc_db :: "DbFault option"
  oc_view :: ProcView

definition inodeOf :: "StoreFs \<Rightarrow> StorePath \<Rightarrow> nat option" where
  "inodeOf fs p = map_of (entries fs) p"

definition newFile :: "StorePath \<Rightarrow> FileBody \<Rightarrow> StoreFs \<Rightarrow> StoreFs" where
  "newFile p b fs = fs\<lparr>entries := AList.update p (nextInode fs) (entries fs), bodies := (bodies fs)(nextInode fs := b),
                      nextInode := nextInode fs + 1\<rparr>"

definition clientKeys :: "StoreFs \<Rightarrow> string list" where
  "clientKeys fs = concat (map (\<lambda>(p, n). case p of ClientFile k \<Rightarrow> [k] | _ \<Rightarrow> []) (entries fs))"

fun respond :: "SysCall \<Rightarrow> CallOutcome \<Rightarrow> StoreFs \<Rightarrow> SysReply \<times> StoreFs" where
  "respond EnsureDir oc fs = (if oc_fails oc then RFail else ROk, fs)"
| "respond (CreateNew p) oc fs =
     (if inodeOf fs p \<noteq> None then (RExists, fs)
      else if oc_fails oc then (RFail, fs)
      else (RFd (nextInode fs), newFile p Torn fs))"
| "respond (WriteFd n r) oc fs =
     (if oc_fails oc then (RFail, if oc_wrote oc then fs\<lparr>bodies := (bodies fs)(n := Holds r)\<rparr> else fs)
      else (ROk, fs\<lparr>bodies := (bodies fs)(n := Holds r)\<rparr>))"
| "respond (WriteTemp p r) oc fs =
     (if oc_fails oc then (RFail, newFile p (if oc_wrote oc then Holds r else Torn) fs) else (ROk, newFile p (Holds r) fs))"
| "respond (Rename a b) oc fs =
     (case inodeOf fs a of
        None \<Rightarrow> (RFail, fs)
      | Some n \<Rightarrow> if oc_fails oc then (RFail, fs) else (ROk, fs\<lparr>entries := AList.update b n (AList.delete a (entries fs))\<rparr>))"
| "respond SyncDir oc fs = (if oc_fails oc then RFail else ROk, fs)"
| "respond (Unlink p) oc fs =
     (if inodeOf fs p = None then (RNone, fs)
      else if oc_fails oc then (RFail, fs) else (ROk, fs\<lparr>entries := AList.delete p (entries fs)\<rparr>))"
| "respond (ReadFile p) oc fs =
     (case inodeOf fs p of None \<Rightarrow> RNone | Some n \<Rightarrow> if oc_fails oc then RFail else RBody (bodies fs n), fs)"
| "respond (ExistsFile p) oc fs = (RBool (\<not> oc_fails oc \<and> inodeOf fs p \<noteq> None), fs)"
| "respond ListClients oc fs = (if oc_fails oc then RFail else RKeys (clientKeys fs), fs)"
| "respond (LiveWork w) oc fs =
     (case isDurableCodeLoopWorkLive (oc_db oc) (oc_view oc) w (active fs) of
        (Inr b, row) \<Rightarrow> (RBool b, fs\<lparr>active := row\<rparr>) | (Inl _, row) \<Rightarrow> (RFail, fs\<lparr>active := row\<rparr>))"

section \<open>Programs\<close>

datatype 'a prog = Ret 'a | Sys SysCall "SysReply \<Rightarrow> 'a prog"

primrec bindp :: "'a prog \<Rightarrow> ('a \<Rightarrow> 'b prog) \<Rightarrow> 'b prog" where
  "bindp (Ret x) f = f x"
| "bindp (Sys c k) f = Sys c (\<lambda>r. bindp (k r) f)"

datatype StoreFailure = IoError | WorkIdCollision | UnreadableBinding | HashCollision

text \<open>Sequencing of code that may throw.\<close>

definition andThen :: "(StoreFailure + 'a) prog \<Rightarrow> ('a \<Rightarrow> (StoreFailure + 'b) prog) \<Rightarrow> (StoreFailure + 'b) prog" where
  "andThen p f = bindp p (\<lambda>x. case x of Inl e \<Rightarrow> Ret (Inl e) | Inr y \<Rightarrow> f y)"

definition checked :: "SysCall \<Rightarrow> (StoreFailure + unit) prog" where
  "checked c = Sys c (\<lambda>r. Ret (if r = ROk then Inr () else Inl IoError))"

definition unlinkDurable :: "StorePath \<Rightarrow> (StoreFailure + unit) prog" where
  "unlinkDurable p = Sys (Unlink p) (\<lambda>r.
     if r = ROk then checked SyncDir else if r = RNone then Ret (Inr ()) else Ret (Inl IoError))"

definition readRecord :: "StorePath \<Rightarrow> DurableCodeLoopRun option prog" where
  "readRecord p = Sys (ReadFile p) (\<lambda>r. Ret (case r of RBody (Holds x) \<Rightarrow> Some x | _ \<Rightarrow> None))"

definition durableCreate :: "StorePath \<Rightarrow> DurableCodeLoopRun \<Rightarrow> (StoreFailure + bool) prog" where
  "durableCreate p v = Sys (CreateNew p) (\<lambda>r.
     case r of
       RExists \<Rightarrow> Ret (Inr False)
     | RFd n \<Rightarrow> Sys (WriteFd n (withoutSuppressedContent v)) (\<lambda>w.
         if w = ROk then andThen (checked SyncDir) (\<lambda>_. Ret (Inr True))
         else bindp (unlinkDurable p) (\<lambda>_. Ret (Inl IoError)))
     | _ \<Rightarrow> Ret (Inl IoError))"

definition atomicReplace :: "string \<Rightarrow> StorePath \<Rightarrow> DurableCodeLoopRun \<Rightarrow> (StoreFailure + unit) prog" where
  "atomicReplace uuid p v =
     (let temp = TempFile p uuid
      in bindp (andThen (checked (WriteTemp temp (withoutSuppressedContent v))) (\<lambda>_.
                andThen (checked (Rename temp p)) (\<lambda>_. checked SyncDir)))
           (\<lambda>x. case x of Inr _ \<Rightarrow> Ret (Inr ()) | Inl e \<Rightarrow> bindp (unlinkDurable temp) (\<lambda>_. Ret (Inl e))))"

section \<open>Operations\<close>

definition claimDurableCodeLoopRun ::
  "(string \<Rightarrow> string) \<Rightarrow> Caller \<Rightarrow> DurableCodeLoopRun \<Rightarrow> (StoreFailure + ClaimCodeLoopRun) prog" where
  "claimDurableCodeLoopRun clientKey me candidate =
     (let claimed = candidate\<lparr>run_owner_instance_id := Some (c_instance me), run_owner_pid := Some (c_pid me)\<rparr>;
          cpath = ClientFile (clientKey (client_run_id candidate))
      in andThen (checked EnsureDir) (\<lambda>_. andThen (durableCreate cpath claimed) (\<lambda>made.
           if made
           then bindp (durableCreate (WorkFile (run_work_id claimed)) claimed) (\<lambda>w.
                  if w = Inr True then Ret (Inr (Claimed claimed))
                  else bindp (unlinkDurable cpath) (\<lambda>_. Ret (Inl (case w of Inl e \<Rightarrow> e | Inr _ \<Rightarrow> WorkIdCollision))))
           else bindp (readRecord cpath) (\<lambda>found.
                  case found of
                    None \<Rightarrow> Ret (Inl UnreadableBinding)
                  | Some existing \<Rightarrow>
                      if client_run_id existing \<noteq> client_run_id candidate then Ret (Inl HashCollision)
                      else if request_fingerprint existing \<noteq> request_fingerprint candidate then Ret (Inr (Conflict existing))
                      else Sys (ExistsFile (WorkFile (run_work_id existing))) (\<lambda>r.
                             if r = RBool True then Ret (Inr (Existing existing))
                             else andThen (durableCreate (WorkFile (run_work_id existing)) existing)
                                    (\<lambda>_. Ret (Inr (Existing existing))))))))"

definition persistDurableCodeLoopRun ::
  "(string \<Rightarrow> string) \<Rightarrow> Caller \<Rightarrow> string \<Rightarrow> DurableCodeLoopRun \<Rightarrow> (StoreFailure + unit) prog" where
  "persistDurableCodeLoopRun clientKey me uuid r =
     (let owned = r\<lparr>run_owner_instance_id := Some (case run_owner_instance_id r of None \<Rightarrow> c_instance me | Some i \<Rightarrow> i),
                    run_owner_pid := Some (case run_owner_pid r of None \<Rightarrow> c_pid me | Some p \<Rightarrow> p)\<rparr>;
          wpath = WorkFile (run_work_id owned)
      in andThen (checked EnsureDir) (\<lambda>_.
         andThen (atomicReplace uuid (ClientFile (clientKey (client_run_id owned))) owned) (\<lambda>_.
           Sys (ExistsFile wpath) (\<lambda>r.
             if r = RBool True then atomicReplace uuid wpath owned
             else andThen (durableCreate wpath owned) (\<lambda>_. Ret (Inr ()))))))"

definition readDurableCodeLoopRunByClient :: "(string \<Rightarrow> string) \<Rightarrow> string \<Rightarrow> DurableCodeLoopRun option prog" where
  "readDurableCodeLoopRunByClient clientKey cid = readRecord (ClientFile (clientKey cid))"

definition readDurableCodeLoopRunByWork :: "(string \<Rightarrow> string) \<Rightarrow> string \<Rightarrow> DurableCodeLoopRun option prog" where
  "readDurableCodeLoopRunByWork clientKey workId =
     bindp (readRecord (WorkFile workId)) (\<lambda>indexed.
       case indexed of
         None \<Rightarrow> Ret None
       | Some i \<Rightarrow> bindp (readRecord (ClientFile (clientKey (client_run_id i)))) (\<lambda>authoritative.
           Ret (case authoritative of None \<Rightarrow> None | Some a \<Rightarrow> if run_work_id a = workId then Some a else None)))"

definition markDurableCodeLoopRunOrphaned ::
  "(string \<Rightarrow> string) \<Rightarrow> Caller \<Rightarrow> string \<Rightarrow> string \<Rightarrow> (StoreFailure + unit) prog" where
  "markDurableCodeLoopRunOrphaned clientKey me uuid workId =
     bindp (readDurableCodeLoopRunByWork clientKey workId) (\<lambda>found.
       case found of
         None \<Rightarrow> Ret (Inr ())
       | Some r \<Rightarrow> if run_status r \<noteq> Running then Ret (Inr ())
                   else persistDurableCodeLoopRun clientKey me uuid (r\<lparr>run_status := Orphaned, run_result := None\<rparr>))"

definition removeDurableCodeLoopRun :: "(string \<Rightarrow> string) \<Rightarrow> string \<Rightarrow> string \<Rightarrow> (StoreFailure + unit) prog" where
  "removeDurableCodeLoopRun clientKey cid workId =
     bindp (readDurableCodeLoopRunByClient clientKey cid) (\<lambda>current.
       case current of
         None \<Rightarrow> Ret (Inr ())
       | Some r \<Rightarrow> if run_work_id r \<noteq> workId then Ret (Inr ())
                   else andThen (unlinkDurable (ClientFile (clientKey cid))) (\<lambda>_. unlinkDurable (WorkFile workId)))"

definition compactDurableCodeLoopRunResult ::
  "(string \<Rightarrow> string) \<Rightarrow> Caller \<Rightarrow> string \<Rightarrow> string \<Rightarrow> (StoreFailure + unit) prog" where
  "compactDurableCodeLoopRunResult clientKey me uuid workId =
     bindp (readDurableCodeLoopRunByWork clientKey workId) (\<lambda>current.
       case current of
         None \<Rightarrow> Ret (Inr ())
       | Some r \<Rightarrow> if run_status r = Running \<or> run_result r = None then Ret (Inr ())
                   else persistDurableCodeLoopRun clientKey me uuid (r\<lparr>run_result := None\<rparr>))"

text \<open>The loops over the directory: a listing that fails gives nothing to do.\<close>

definition withClients :: "'a \<Rightarrow> (string list \<Rightarrow> (StoreFailure + 'a) prog) \<Rightarrow> (StoreFailure + 'a) prog" where
  "withClients none body = Sys ListClients (\<lambda>r. case r of RKeys ks \<Rightarrow> body ks | _ \<Rightarrow> Ret (Inr none))"

fun compactLoop ::
  "(string \<Rightarrow> string) \<Rightarrow> Caller \<Rightarrow> string \<Rightarrow> int \<Rightarrow> int \<Rightarrow> string list \<Rightarrow> nat \<Rightarrow> (StoreFailure + nat) prog" where
  "compactLoop clientKey me uuid nowMs ttl [] n = Ret (Inr n)"
| "compactLoop clientKey me uuid nowMs ttl (k # ks) n =
     bindp (readRecord (ClientFile k)) (\<lambda>found.
       case found of
         None \<Rightarrow> compactLoop clientKey me uuid nowMs ttl ks n
       | Some r \<Rightarrow>
           if run_status r = Running \<or> run_result r = None \<or> nowMs - started_at_ms r \<le> ttl
           then compactLoop clientKey me uuid nowMs ttl ks n
           else andThen (persistDurableCodeLoopRun clientKey me uuid (r\<lparr>run_result := None\<rparr>))
                  (\<lambda>_. compactLoop clientKey me uuid nowMs ttl ks (n + 1)))"

definition compactExpiredDurableCodeLoopRuns ::
  "(string \<Rightarrow> string) \<Rightarrow> Caller \<Rightarrow> string \<Rightarrow> int \<Rightarrow> int \<Rightarrow> (StoreFailure + nat) prog" where
  "compactExpiredDurableCodeLoopRuns clientKey me uuid nowMs ttl =
     withClients 0 (\<lambda>ks. compactLoop clientKey me uuid nowMs ttl ks 0)"

fun pendingLoop :: "string list \<Rightarrow> DurableCodeLoopRun list \<Rightarrow> (StoreFailure + DurableCodeLoopRun list) prog" where
  "pendingLoop [] acc = Ret (Inr (rev acc))"
| "pendingLoop (k # ks) acc =
     bindp (readRecord (ClientFile k)) (\<lambda>found.
       case found of
         None \<Rightarrow> pendingLoop ks acc
       | Some r \<Rightarrow> pendingLoop ks (if cleanup_pending r = Some True then r # acc else acc))"

definition listDurableCodeLoopRunsPendingCleanup :: "(StoreFailure + DurableCodeLoopRun list) prog" where
  "listDurableCodeLoopRunsPendingCleanup = withClients [] (\<lambda>ks. pendingLoop ks [])"

fun orphanLoop ::
  "(string \<Rightarrow> string) \<Rightarrow> Caller \<Rightarrow> string \<Rightarrow> string list \<Rightarrow> string list \<Rightarrow> nat \<Rightarrow> (StoreFailure + nat) prog" where
  "orphanLoop clientKey me uuid activeIds [] n = Ret (Inr n)"
| "orphanLoop clientKey me uuid activeIds (k # ks) n =
     bindp (readRecord (ClientFile k)) (\<lambda>found.
       case found of
         None \<Rightarrow> orphanLoop clientKey me uuid activeIds ks n
       | Some r \<Rightarrow>
           if run_status r \<noteq> Running \<or> run_work_id r \<in> set activeIds then orphanLoop clientKey me uuid activeIds ks n
           else Sys (LiveWork (run_work_id r)) (\<lambda>live.
                  case live of
                    RBool True \<Rightarrow> orphanLoop clientKey me uuid activeIds ks n
                  | RBool False \<Rightarrow>
                      andThen (persistDurableCodeLoopRun clientKey me uuid (r\<lparr>run_status := Orphaned, run_result := None\<rparr>))
                        (\<lambda>_. orphanLoop clientKey me uuid activeIds ks (n + 1))
                  | _ \<Rightarrow> Ret (Inl IoError)))"

definition markUnownedDurableCodeLoopRunsOrphaned ::
  "(string \<Rightarrow> string) \<Rightarrow> Caller \<Rightarrow> string \<Rightarrow> string list \<Rightarrow> (StoreFailure + nat) prog" where
  "markUnownedDurableCodeLoopRunsOrphaned clientKey me uuid activeIds =
     withClients 0 (\<lambda>ks. orphanLoop clientKey me uuid activeIds ks 0)"

section \<open>Processes\<close>

datatype StoreOp =
    OClaim Caller DurableCodeLoopRun
  | OPersist Caller string DurableCodeLoopRun
  | OReadClient string
  | OReadWork string
  | OOrphan Caller string string
  | ORemove string string
  | OCompact Caller string string
  | OCompactExpired Caller string int int
  | OPending
  | OSweep Caller string "string list"

datatype OpResult = ClaimResult "StoreFailure + ClaimCodeLoopRun" | ReadResult "DurableCodeLoopRun option" | Finished bool | Died

definition finish :: "(StoreFailure + 'a) prog \<Rightarrow> OpResult prog" where
  "finish p = bindp p (\<lambda>x. Ret (Finished (case x of Inl _ \<Rightarrow> False | Inr _ \<Rightarrow> True)))"

fun opProg :: "(string \<Rightarrow> string) \<Rightarrow> StoreOp \<Rightarrow> OpResult prog" where
  "opProg key (OClaim me c) = bindp (claimDurableCodeLoopRun key me c) (\<lambda>x. Ret (ClaimResult x))"
| "opProg key (OPersist me uuid r) = finish (persistDurableCodeLoopRun key me uuid r)"
| "opProg key (OReadClient cid) = bindp (readDurableCodeLoopRunByClient key cid) (\<lambda>x. Ret (ReadResult x))"
| "opProg key (OReadWork w) = bindp (readDurableCodeLoopRunByWork key w) (\<lambda>x. Ret (ReadResult x))"
| "opProg key (OOrphan me uuid w) = finish (markDurableCodeLoopRunOrphaned key me uuid w)"
| "opProg key (ORemove cid w) = finish (removeDurableCodeLoopRun key cid w)"
| "opProg key (OCompact me uuid w) = finish (compactDurableCodeLoopRunResult key me uuid w)"
| "opProg key (OCompactExpired me uuid now ttl) = finish (compactExpiredDurableCodeLoopRuns key me uuid now ttl)"
| "opProg key OPending = finish listDurableCodeLoopRunsPendingCleanup"
| "opProg key (OSweep me uuid ids) = finish (markUnownedDurableCodeLoopRunsOrphaned key me uuid ids)"

record StoreWorld =
  sw_fs :: StoreFs
  sw_procs :: "OpResult prog list"

definition emptyStore :: StoreWorld where
  "emptyStore = \<lparr>sw_fs = \<lparr>entries = [], bodies = (\<lambda>_. Torn), nextInode = 0, active = None\<rparr>, sw_procs = []\<rparr>"

text \<open>An operation starts; a process makes its next call; a process dies before it has returned; somebody uses the lease.\<close>

datatype StoreEvent = Spawn StoreOp | Turn nat CallOutcome | Crash nat | LeaseEvent LeaseOp

fun store_exec :: "(string \<Rightarrow> string) \<Rightarrow> StoreEvent \<Rightarrow> StoreWorld \<Rightarrow> StoreWorld" where
  "store_exec key (Spawn op) w = w\<lparr>sw_procs := sw_procs w @ [opProg key op]\<rparr>"
| "store_exec key (Turn i oc) w =
     (if i < length (sw_procs w)
      then case sw_procs w ! i of
             Ret _ \<Rightarrow> w
           | Sys c k \<Rightarrow> (let (r, fs) = respond c oc (sw_fs w) in w\<lparr>sw_fs := fs, sw_procs := (sw_procs w)[i := k r]\<rparr>)
      else w)"
| "store_exec key (Crash i) w =
     (if i < length (sw_procs w)
      then case sw_procs w ! i of Ret _ \<Rightarrow> w | Sys _ _ \<Rightarrow> w\<lparr>sw_procs := (sw_procs w)[i := Ret Died]\<rparr>
      else w)"
| "store_exec key (LeaseEvent op) w = w\<lparr>sw_fs := (sw_fs w)\<lparr>active := lease_exec op (active (sw_fs w))\<rparr>\<rparr>"

definition store_run :: "(string \<Rightarrow> string) \<Rightarrow> StoreEvent list \<Rightarrow> StoreWorld \<Rightarrow> StoreWorld" where
  "store_run key evs w = fold (store_exec key) evs w"

end
