(* ===== verification/Code_Loop_Claims.thy ===== *)
theory Code_Loop_Claims
  imports Code_Loop_Store
begin

text \<open>
  What holds of the durable records in every interleaving of any number of processes, with failing calls and
  crashes at any point. A program is judged by the calls it may still make: \<open>avoids\<close> and \<open>yields\<close> are the two
  judgements, with a rule for sequencing.
\<close>

section \<open>Judgements on programs\<close>

primrec avoids :: "(SysCall \<Rightarrow> bool) \<Rightarrow> 'a prog \<Rightarrow> bool" where
  "avoids B (Ret x) = True"
| "avoids B (Sys c k) = (\<not> B c \<and> (\<forall>r. avoids B (k r)))"

primrec yields :: "('a \<Rightarrow> bool) \<Rightarrow> 'a prog \<Rightarrow> bool" where
  "yields P (Ret x) = P x"
| "yields P (Sys c k) = (\<forall>r. yields P (k r))"

lemma avoids_bindp: "avoids B p \<Longrightarrow> (\<And>x. avoids B (f x)) \<Longrightarrow> avoids B (bindp p f)"
  by (induction p) auto

lemma avoids_andThen: "avoids B p \<Longrightarrow> (\<And>x. avoids B (f x)) \<Longrightarrow> avoids B (andThen p f)"
  unfolding andThen_def by (rule avoids_bindp) (auto split: sum.split)

lemma yields_bindp: "(\<And>x. yields P (f x)) \<Longrightarrow> yields P (bindp p f)"
  by (induction p) auto

lemma avoids_checked [simp]: "avoids B (checked c) \<longleftrightarrow> \<not> B c"
  by (simp add: checked_def)

lemma avoids_unlinkDurable [simp]: "avoids B (unlinkDurable p) \<longleftrightarrow> \<not> B (Unlink p) \<and> \<not> B SyncDir"
  by (auto simp: unlinkDurable_def dest: spec [of _ ROk])

lemma avoids_readRecord [simp]: "avoids B (readRecord p) \<longleftrightarrow> \<not> B (ReadFile p)"
  by (simp add: readRecord_def)

text \<open>The calls that only look, or touch nothing but the directory itself.\<close>

fun looks :: "SysCall \<Rightarrow> bool" where
  "looks EnsureDir = True"
| "looks SyncDir = True"
| "looks (ReadFile p) = True"
| "looks (ExistsFile p) = True"
| "looks ListClients = True"
| "looks (LiveWork w) = True"
| "looks _ = False"

lemma avoids_durableCreate:
  assumes "\<And>c. looks c \<Longrightarrow> \<not> B c" and "\<not> B (CreateNew p)" and "\<not> B (Unlink p)"
    and "\<And>n. \<not> B (WriteFd n (withoutSuppressedContent v))"
  shows "avoids B (durableCreate p v)"
  using assms by (auto simp: durableCreate_def intro!: avoids_bindp avoids_andThen split: SysReply.split)

lemma avoids_atomicReplace:
  assumes "\<And>c. looks c \<Longrightarrow> \<not> B c" and "\<not> B (WriteTemp (TempFile p uuid) (withoutSuppressedContent v))"
    and "\<not> B (Rename (TempFile p uuid) p)" and "\<not> B (Unlink (TempFile p uuid))"
  shows "avoids B (atomicReplace uuid p v)"
  using assms by (auto simp: atomicReplace_def Let_def intro!: avoids_bindp avoids_andThen split: sum.split)

text \<open>What every operation avoids: any set of calls that are not looks, not a write of clean content, and not on the named files.\<close>

definition spares :: "(SysCall \<Rightarrow> bool) \<Rightarrow> bool" where
  "spares B \<longleftrightarrow> (\<forall>c. looks c \<longrightarrow> \<not> B c)
     \<and> (\<forall>n v. \<not> B (WriteFd n (withoutSuppressedContent v)))
     \<and> (\<forall>p u v. \<not> B (WriteTemp (TempFile p u) (withoutSuppressedContent v)) \<and> \<not> B (Rename (TempFile p u) p) \<and> \<not> B (Unlink (TempFile p u)))
     \<and> (\<forall>w. \<not> B (CreateNew (WorkFile w)) \<and> \<not> B (Unlink (WorkFile w)))"

lemma spares_D:
  assumes "spares B"
  shows "looks c \<Longrightarrow> \<not> B c" "\<not> B (WriteFd n (withoutSuppressedContent v))" "\<not> B (WriteTemp (TempFile p u) (withoutSuppressedContent v))"
    "\<not> B (Rename (TempFile p u) p)" "\<not> B (Unlink (TempFile p u))" "\<not> B (CreateNew (WorkFile w))" "\<not> B (Unlink (WorkFile w))"
    "\<not> B EnsureDir" "\<not> B SyncDir" "\<not> B (ReadFile p)" "\<not> B (ExistsFile p)" "\<not> B ListClients" "\<not> B (LiveWork i)"
  using assms unfolding spares_def by auto

lemmas avoidance = avoids_bindp avoids_andThen avoids_durableCreate avoids_atomicReplace

lemma avoids_work:
  assumes "spares B" shows "avoids B (durableCreate (WorkFile w) v)" and "avoids B (atomicReplace uuid p v)"
  using assms by (auto intro!: avoids_durableCreate avoids_atomicReplace simp: spares_D)

lemma avoids_persist: "spares B \<Longrightarrow> avoids B (persistDurableCodeLoopRun key me uuid r)"
  by (auto simp: persistDurableCodeLoopRun_def Let_def spares_D avoids_work intro!: avoids_andThen)

lemma avoids_readByWork: "spares B \<Longrightarrow> avoids B (readDurableCodeLoopRunByWork key w)"
  by (auto simp: readDurableCodeLoopRunByWork_def spares_D intro!: avoids_bindp split: option.split)

lemma avoids_compactLoop: "spares B \<Longrightarrow> avoids B (compactLoop key me uuid now ttl ks n)"
  by (induction ks arbitrary: n) (auto simp: spares_D avoids_persist intro!: avoids_bindp avoids_andThen split: option.split)

lemma avoids_pendingLoop: "spares B \<Longrightarrow> avoids B (pendingLoop ks acc)"
  by (induction ks arbitrary: acc) (auto simp: spares_D intro!: avoids_bindp split: option.split)

lemma avoids_orphanLoop: "spares B \<Longrightarrow> avoids B (orphanLoop key me uuid ids ks n)"
  by (induction ks arbitrary: n)
    (auto simp: spares_D avoids_persist intro!: avoids_bindp avoids_andThen split: option.split SysReply.split bool.split)

lemma avoids_finish: "avoids B p \<Longrightarrow> avoids B (finish p)"
  by (simp add: finish_def avoids_bindp)

text \<open>The caller file an operation creates or unlinks: that of a claim, and that of a removal.\<close>

fun claimsKey :: "(string \<Rightarrow> string) \<Rightarrow> string \<Rightarrow> StoreOp \<Rightarrow> bool" where
  "claimsKey key k (OClaim me c) = (key (client_run_id c) = k)"
| "claimsKey key k _ = False"

fun removesKey :: "(string \<Rightarrow> string) \<Rightarrow> string \<Rightarrow> StoreOp \<Rightarrow> bool" where
  "removesKey key k (ORemove cid w) = (key cid = k)"
| "removesKey key k _ = False"

lemma avoids_op:
  assumes "spares B"
    and "\<And>me c. op = OClaim me c \<Longrightarrow> \<not> B (CreateNew (ClientFile (key (client_run_id c)))) \<and> \<not> B (Unlink (ClientFile (key (client_run_id c))))"
    and "\<And>cid w. op = ORemove cid w \<Longrightarrow> \<not> B (Unlink (ClientFile (key cid)))"
  shows "avoids B (opProg key op)"
proof (cases op)
  case (OClaim me c)
  then show ?thesis using assms(1) assms(2) [OF OClaim]
    by (auto simp: claimDurableCodeLoopRun_def Let_def spares_D avoids_work
        intro!: avoids_bindp avoids_andThen avoids_durableCreate split: option.split)
next
  case (ORemove cid w)
  then show ?thesis using assms(1) assms(3) [OF ORemove]
    by (auto simp: removeDurableCodeLoopRun_def readDurableCodeLoopRunByClient_def spares_D
        intro!: avoids_finish avoids_bindp avoids_andThen split: option.split)
qed (use assms(1) in \<open>auto simp: readDurableCodeLoopRunByClient_def markDurableCodeLoopRunOrphaned_def
      compactDurableCodeLoopRunResult_def compactExpiredDurableCodeLoopRuns_def listDurableCodeLoopRunsPendingCleanup_def
      markUnownedDurableCodeLoopRunsOrphaned_def withClients_def spares_D avoids_persist avoids_readByWork
      avoids_compactLoop avoids_pendingLoop avoids_orphanLoop
      intro!: avoids_finish avoids_bindp split: option.split SysReply.split\<close>)

section \<open>One claim per caller id\<close>

definition touchesKey :: "string \<Rightarrow> SysCall \<Rightarrow> bool" where
  "touchesKey k c \<longleftrightarrow> c = CreateNew (ClientFile k) \<or> c = Unlink (ClientFile k) \<or> (\<exists>b. c = Rename (ClientFile k) b)"

fun claimedFor :: "(string \<Rightarrow> string) \<Rightarrow> string \<Rightarrow> OpResult \<Rightarrow> bool" where
  "claimedFor key k (ClaimResult (Inr (Claimed r))) = (key (client_run_id r) = k)"
| "claimedFor key k _ = False"

text \<open>
  For one caller file, a program is inert if it leaves the file's name alone and does not return a claim on it;
  holding if it leaves the name alone until it unlinks it and is inert from then on; starting if it is inert up
  to an exclusive creation, holding when that succeeds and inert when it does not.
\<close>

definition inert :: "(string \<Rightarrow> string) \<Rightarrow> string \<Rightarrow> OpResult prog \<Rightarrow> bool" where
  "inert key k p \<longleftrightarrow> avoids (touchesKey k) p \<and> yields (\<lambda>x. \<not> claimedFor key k x) p"

primrec holding :: "(string \<Rightarrow> string) \<Rightarrow> string \<Rightarrow> OpResult prog \<Rightarrow> bool" where
  "holding key k (Ret x) = True"
| "holding key k (Sys c f) =
     (if c = Unlink (ClientFile k) then \<forall>r. inert key k (f r)
      else (\<forall>b. c \<noteq> Rename (ClientFile k) b) \<and> (\<forall>r. holding key k (f r)))"

primrec starting :: "(string \<Rightarrow> string) \<Rightarrow> string \<Rightarrow> OpResult prog \<Rightarrow> bool" where
  "starting key k (Ret x) = (\<not> claimedFor key k x)"
| "starting key k (Sys c f) =
     (if c = CreateNew (ClientFile k)
      then \<forall>r. case r of RFd n \<Rightarrow> holding key k (f r) | _ \<Rightarrow> inert key k (f r)
      else \<not> touchesKey k c \<and> (\<forall>r. starting key k (f r)))"

lemma inert_simps [simp]:
  "inert key k (Ret x) \<longleftrightarrow> \<not> claimedFor key k x"
  "inert key k (Sys c f) \<longleftrightarrow> \<not> touchesKey k c \<and> (\<forall>r. inert key k (f r))"
  by (auto simp: inert_def)

lemma inert_starting: "inert key k p \<Longrightarrow> starting key k p"
  by (induction p) (auto simp: touchesKey_def)

lemma touchesKey_simps [simp]:
  "touchesKey k (CreateNew p) \<longleftrightarrow> p = ClientFile k" "touchesKey k (Unlink p) \<longleftrightarrow> p = ClientFile k"
  "touchesKey k (Rename a b) \<longleftrightarrow> a = ClientFile k"
  "\<not> touchesKey k (WriteFd n v)" "\<not> touchesKey k (WriteTemp p v)" "looks c \<Longrightarrow> \<not> touchesKey k c"
  by (auto simp: touchesKey_def)

lemma spares_touchesKey: "spares (touchesKey k)"
  by (simp add: spares_def)

lemma op_unclaimed:
  assumes "\<And>me c. op = OClaim me c \<Longrightarrow> key (client_run_id c) \<noteq> k"
  shows "yields (\<lambda>x. \<not> claimedFor key k x) (opProg key op)"
proof (cases op)
  case (OClaim me c)
  then show ?thesis using assms [OF OClaim]
    by (auto simp: claimDurableCodeLoopRun_def Let_def andThen_def checked_def durableCreate_def unlinkDurable_def
        readRecord_def split: SysReply.split sum.split option.split FileBody.split)
qed (auto simp: finish_def intro!: yields_bindp)

lemma claim_starting: "starting key (key (client_run_id c)) (opProg key (OClaim me c))"
  by (auto simp: claimDurableCodeLoopRun_def Let_def andThen_def checked_def durableCreate_def unlinkDurable_def
      readRecord_def split: SysReply.split sum.split option.split FileBody.split)

lemma op_starting:
  assumes "\<not> removesKey key k op"
  shows "starting key k (opProg key op)"
proof (cases "claimsKey key k op")
  case True
  then show ?thesis using claim_starting by (cases op) auto
next
  case False
  then have "inert key k (opProg key op)"
    unfolding inert_def using assms
    by (cases op) (auto intro!: avoids_op op_unclaimed spares_touchesKey simp del: opProg.simps)
  then show ?thesis by (rule inert_starting)
qed

text \<open>Names in the directory after a call.\<close>

lemma inodeOf_newFile [simp]: "inodeOf (newFile p b fs) q = (if q = p then Some (nextInode fs) else inodeOf fs q)"
  by (simp add: inodeOf_def newFile_def update_conv')

lemma inodeOf_active [simp]: "inodeOf (fs\<lparr>active := row\<rparr>) p = inodeOf fs p"
  and inodeOf_bodies [simp]: "inodeOf (fs\<lparr>bodies := b\<rparr>) p = inodeOf fs p"
  by (simp_all add: inodeOf_def)

lemma inodeOf_delete [simp]: "inodeOf (fs\<lparr>entries := AList.delete p (entries fs)\<rparr>) q = (if q = p then None else inodeOf fs q)"
  by (simp add: inodeOf_def delete_conv')

lemma inodeOf_rename [simp]:
  "inodeOf (fs\<lparr>entries := AList.update b n (AList.delete a (entries fs))\<rparr>) q =
     (if q = b then Some n else if q = a then None else inodeOf fs q)"
  by (simp add: inodeOf_def update_conv' delete_conv')

lemma respond_keeps_name:
  assumes "inodeOf fs p \<noteq> None" and "c \<noteq> Unlink p" and "\<And>b. c \<noteq> Rename p b"
  shows "inodeOf (snd (respond c oc fs)) p \<noteq> None"
  using assms by (cases c) (auto split: option.split sum.split prod.split)

lemma respond_create:
  assumes "respond (CreateNew p) oc fs = (RFd n, fs')"
  shows "inodeOf fs p = None \<and> inodeOf fs' p \<noteq> None"
  using assms by (auto split: if_splits)

definition oneHolder :: "(string \<Rightarrow> string) \<Rightarrow> string \<Rightarrow> nat option \<Rightarrow> StoreWorld \<Rightarrow> bool" where
  "oneHolder key k h w \<longleftrightarrow>
     (\<forall>i < length (sw_procs w). h \<noteq> Some i \<longrightarrow> starting key k (sw_procs w ! i))
     \<and> (\<forall>i. h = Some i \<longrightarrow> i < length (sw_procs w) \<and> holding key k (sw_procs w ! i) \<and> inodeOf (sw_fs w) (ClientFile k) \<noteq> None)"

lemma oneHolder_turn:
  assumes inv: "oneHolder key k h w" and i: "i < length (sw_procs w)" "sw_procs w ! i = Sys c f"
    and r: "respond c oc (sw_fs w) = (r, fs)"
  shows "\<exists>h'. oneHolder key k h' (w\<lparr>sw_fs := fs, sw_procs := (sw_procs w)[i := f r]\<rparr>)"
proof -
  have keeps: "inodeOf fs (ClientFile k) \<noteq> None"
    if "inodeOf (sw_fs w) (ClientFile k) \<noteq> None" "c \<noteq> Unlink (ClientFile k)" "\<And>b. c \<noteq> Rename (ClientFile k) b"
    using respond_keeps_name [OF that, of oc] by (simp add: r)
  show ?thesis
  proof (cases "h = Some i")
    case True
    then have hold: "holding key k (Sys c f)" and there: "inodeOf (sw_fs w) (ClientFile k) \<noteq> None"
      and others: "\<forall>j < length (sw_procs w). j \<noteq> i \<longrightarrow> starting key k (sw_procs w ! j)"
      using inv i by (auto simp: oneHolder_def)
    show ?thesis
    proof (cases "c = Unlink (ClientFile k)")
      case True
      then have "starting key k (f r)" using hold inert_starting by auto
      then have "oneHolder key k None (w\<lparr>sw_fs := fs, sw_procs := (sw_procs w)[i := f r]\<rparr>)"
        using others i by (auto simp: oneHolder_def nth_list_update)
      then show ?thesis ..
    next
      case False
      then have "holding key k (f r)" and "inodeOf fs (ClientFile k) \<noteq> None" using hold there keeps by auto
      then have "oneHolder key k (Some i) (w\<lparr>sw_fs := fs, sw_procs := (sw_procs w)[i := f r]\<rparr>)"
        using others i by (auto simp: oneHolder_def nth_list_update)
      then show ?thesis ..
    qed
  next
    case False
    then have start: "starting key k (Sys c f)" using inv i by (auto simp: oneHolder_def)
    show ?thesis
    proof (cases "c = CreateNew (ClientFile k) \<and> (\<exists>n. r = RFd n)")
      case True
      then obtain n where n: "c = CreateNew (ClientFile k)" "r = RFd n" by blast
      have "holding key k (f r)" using start unfolding starting.simps n by (auto dest: spec [of _ "RFd n"])
      moreover have new: "inodeOf (sw_fs w) (ClientFile k) = None \<and> inodeOf fs (ClientFile k) \<noteq> None"
        using respond_create r unfolding n by blast
      moreover have "h = None" using new inv by (cases h) (auto simp: oneHolder_def)
      ultimately have "oneHolder key k (Some i) (w\<lparr>sw_fs := fs, sw_procs := (sw_procs w)[i := f r]\<rparr>)"
        using inv i by (auto simp: oneHolder_def nth_list_update)
      then show ?thesis ..
    next
      case other: False
      have "starting key k (f r)"
      proof (cases "c = CreateNew (ClientFile k)")
        case True
        then have "case r of RFd n \<Rightarrow> holding key k (f r) | _ \<Rightarrow> inert key k (f r)" using start by simp
        then have "inert key k (f r)" using other True by (cases r) simp_all
        then show ?thesis by (rule inert_starting)
      next
        case False
        then show ?thesis using start by simp
      qed
      moreover have "inodeOf fs (ClientFile k) \<noteq> None" if "inodeOf (sw_fs w) (ClientFile k) \<noteq> None"
        using keeps [OF that] start by (auto simp: touchesKey_def split: if_splits)
      ultimately have "oneHolder key k h (w\<lparr>sw_fs := fs, sw_procs := (sw_procs w)[i := f r]\<rparr>)"
        using inv i False by (auto simp: oneHolder_def nth_list_update)
      then show ?thesis ..
    qed
  qed
qed

fun sparesKey :: "(string \<Rightarrow> string) \<Rightarrow> string \<Rightarrow> StoreEvent \<Rightarrow> bool" where
  "sparesKey key k (Spawn op) = (\<not> removesKey key k op)"
| "sparesKey key k _ = True"

lemma oneHolder_exec:
  assumes inv: "oneHolder key k h w" and ev: "sparesKey key k ev"
  shows "\<exists>h'. oneHolder key k h' (store_exec key ev w)"
proof (cases ev)
  case (Spawn op)
  then have "oneHolder key k h (store_exec key ev w)"
    using inv ev op_starting by (auto simp: oneHolder_def nth_append less_Suc_eq)
  then show ?thesis ..
next
  case (Turn i oc)
  show ?thesis
  proof (cases "i < length (sw_procs w)")
    case True
    show ?thesis
    proof (cases "sw_procs w ! i")
      case (Ret x)
      then show ?thesis using Turn True inv by auto
    next
      case (Sys c f)
      then show ?thesis using Turn True oneHolder_turn [OF inv True Sys]
        by (cases "respond c oc (sw_fs w)") simp
    qed
  qed (use Turn inv in auto)
next
  case (Crash i)
  show ?thesis
  proof (cases "\<exists>c f. i < length (sw_procs w) \<and> sw_procs w ! i = Sys c f")
    case True
    then have "oneHolder key k (if h = Some i then None else h) (store_exec key ev w)"
      using Crash inv by (auto simp: oneHolder_def nth_list_update)
    then show ?thesis ..
  next
    case False
    then have "store_exec key ev w = w" using Crash by (auto split: prog.split)
    then show ?thesis using inv by auto
  qed
next
  case (LeaseEvent op)
  then have "oneHolder key k h (store_exec key ev w)" using inv by (auto simp: oneHolder_def)
  then show ?thesis ..
qed

lemma oneHolder_run:
  assumes "oneHolder key k h w" and "list_all (sparesKey key k) evs"
  shows "\<exists>h'. oneHolder key k h' (store_run key evs w)"
  using assms
proof (induction evs arbitrary: h w)
  case (Cons ev evs)
  then show ?case using oneHolder_exec [of key k h w ev] by (auto simp: store_run_def)
qed (auto simp: store_run_def)

text \<open>
  C16: work is claimed once. Over every interleaving of the system calls of any number of gateway processes, with
  any calls failing and any process dying anywhere, as long as no removal of this caller id is started: at most
  one operation returns a claim on it, and from then on its file stays in the directory.
\<close>
theorem code_loop_claimed_once:
  assumes "list_all (sparesKey key k) evs"
    and "i < length (sw_procs (store_run key evs emptyStore))" and "j < length (sw_procs (store_run key evs emptyStore))"
    and "sw_procs (store_run key evs emptyStore) ! i = Ret x" and "claimedFor key k x"
    and "sw_procs (store_run key evs emptyStore) ! j = Ret y" and "claimedFor key k y"
  shows "i = j \<and> inodeOf (sw_fs (store_run key evs emptyStore)) (ClientFile k) \<noteq> None"
proof -
  have "oneHolder key k None emptyStore" by (simp add: oneHolder_def emptyStore_def)
  then obtain h where h: "oneHolder key k h (store_run key evs emptyStore)" using oneHolder_run assms(1) by blast
  then have "h = Some i" using assms(2,4,5) by (auto simp: oneHolder_def)
  moreover have "h = Some j" using h assms(3,6,7) by (auto simp: oneHolder_def)
  ultimately show ?thesis using h by (auto simp: oneHolder_def)
qed

section \<open>Suppressed content\<close>

definition cleanRun :: "DurableCodeLoopRun \<Rightarrow> bool" where
  "cleanRun r \<longleftrightarrow> (capture_suppressed r \<longrightarrow> run_result r = None)"

fun dirty :: "SysCall \<Rightarrow> bool" where
  "dirty (WriteFd n r) = (\<not> cleanRun r)"
| "dirty (WriteTemp p r) = (\<not> cleanRun r)"
| "dirty _ = False"

lemma cleanRun_without [simp]: "cleanRun (withoutSuppressedContent r)"
  by (simp add: cleanRun_def withoutSuppressedContent_def)

lemma spares_dirty: "spares dirty"
proof -
  have "looks c \<Longrightarrow> \<not> dirty c" for c by (cases c) simp_all
  then show ?thesis by (simp add: spares_def)
qed

definition cleanBody :: "FileBody \<Rightarrow> bool" where
  "cleanBody b = (case b of Torn \<Rightarrow> True | Holds r \<Rightarrow> cleanRun r)"

definition cleanWorld :: "StoreWorld \<Rightarrow> bool" where
  "cleanWorld w \<longleftrightarrow> list_all (avoids dirty) (sw_procs w) \<and> (\<forall>n. cleanBody (bodies (sw_fs w) n))"

lemma respond_clean:
  assumes "\<not> dirty c" and "\<forall>n. cleanBody (bodies fs n)"
  shows "cleanBody (bodies (snd (respond c oc fs)) n)"
  using assms by (cases c) (auto simp: cleanBody_def newFile_def split: option.split sum.split prod.split)

lemma cleanWorld_exec: "cleanWorld w \<Longrightarrow> cleanWorld (store_exec key ev w)"
proof (cases ev)
  case (Spawn op)
  moreover have "avoids dirty (opProg key op)" by (rule avoids_op [OF spares_dirty]) simp_all
  moreover assume "cleanWorld w"
  ultimately show ?thesis by (simp add: cleanWorld_def)
next
  case (Turn i oc)
  assume w: "cleanWorld w"
  show ?thesis
  proof (cases "i < length (sw_procs w)")
    case True
    show ?thesis
    proof (cases "sw_procs w ! i")
      case (Sys c f)
      obtain r fs where r: "respond c oc (sw_fs w) = (r, fs)" by fastforce
      have "avoids dirty (Sys c f)" using w True Sys by (auto simp: cleanWorld_def list_all_length dest: spec [of _ i])
      then have "\<not> dirty c" "avoids dirty (f r)" by simp_all
      moreover have "cleanBody (bodies fs n)" for n
        using respond_clean [OF \<open>\<not> dirty c\<close>, of "sw_fs w" oc n] w by (simp add: r cleanWorld_def)
      ultimately show ?thesis using w Turn True Sys r
        by (auto simp: cleanWorld_def list_all_length nth_list_update)
    qed (use w Turn True in simp)
  qed (use w Turn in simp)
next
  case (Crash i)
  assume "cleanWorld w"
  then show ?thesis using Crash by (auto simp: cleanWorld_def list_all_length nth_list_update split: prog.split)
qed (simp add: cleanWorld_def)

lemma cleanWorld_run: "cleanWorld w \<Longrightarrow> cleanWorld (store_run key evs w)"
  by (induction evs arbitrary: w) (simp_all add: store_run_def cleanWorld_exec)

text \<open>
  C18: a run that opted out of content capture leaves no result on disk. In every interleaving, with failures and
  crashes anywhere, no file of the store, caller record, work index or temporary file, holds the result of such a
  run, whoever wrote it and whatever record was passed in.
\<close>
theorem code_loop_suppressed_never_stored:
  assumes "inodeOf (sw_fs (store_run key evs emptyStore)) p = Some n"
    and "bodies (sw_fs (store_run key evs emptyStore)) n = Holds r" and "capture_suppressed r"
  shows "run_result r = None"
proof -
  have "cleanWorld emptyStore" by (simp add: cleanWorld_def emptyStore_def cleanBody_def)
  then have "cleanBody (bodies (sw_fs (store_run key evs emptyStore)) n)" using cleanWorld_run by (simp add: cleanWorld_def)
  then show ?thesis using assms by (simp add: cleanBody_def cleanRun_def)
qed

section \<open>One process alone\<close>

primrec runSeq :: "CallOutcome \<Rightarrow> 'a prog \<Rightarrow> StoreFs \<Rightarrow> 'a \<times> StoreFs" where
  "runSeq oc (Ret x) fs = (x, fs)"
| "runSeq oc (Sys c k) fs = runSeq oc (k (fst (respond c oc fs))) (snd (respond c oc fs))"

lemma runSeq_bindp: "runSeq oc (bindp p f) fs = (case runSeq oc p fs of (x, fs') \<Rightarrow> runSeq oc (f x) fs')"
  by (induction p arbitrary: fs) simp_all

text \<open>
  A claim can be repeated and read back. When no call fails: a claim of an unused caller id and work id
  succeeds; then reading by work id and by caller id return the claimed record, the same request is answered
  with that record, another request under the same caller id is a conflict with it, and neither changes anything.
\<close>
lemma code_loop_claim_idempotent:
  fixes cand :: DurableCodeLoopRun
  assumes "\<not> oc_fails oc" and "inodeOf fs (ClientFile (key (client_run_id cand))) = None"
    and "inodeOf fs (WorkFile (run_work_id cand)) = None" and "\<not> capture_suppressed cand"
    and "runSeq oc (claimDurableCodeLoopRun key me cand) fs = (x, fs1)"
    and "client_run_id again = client_run_id cand"
  shows "\<exists>rec. x = Inr (Claimed rec) \<and> run_work_id rec = run_work_id cand \<and> run_result rec = run_result cand
     \<and> runSeq oc (readDurableCodeLoopRunByWork key (run_work_id cand)) fs1 = (Some rec, fs1)
     \<and> runSeq oc (readDurableCodeLoopRunByClient key (client_run_id cand)) fs1 = (Some rec, fs1)
     \<and> runSeq oc (claimDurableCodeLoopRun key you again) fs1 =
         (Inr (if request_fingerprint again = request_fingerprint cand then Existing rec else Conflict rec), fs1)"
proof -
  define rec where "rec = cand\<lparr>run_owner_instance_id := Some (c_instance me), run_owner_pid := Some (c_pid me)\<rparr>"
  have plain: "withoutSuppressedContent rec = rec" using assms(4) by (simp add: withoutSuppressedContent_def rec_def)
  have "x = Inr (Claimed rec)" and fs1: "inodeOf fs1 (ClientFile (key (client_run_id cand))) = Some (nextInode fs)"
    "inodeOf fs1 (WorkFile (run_work_id cand)) = Some (nextInode fs + 1)"
    "bodies fs1 (nextInode fs) = Holds rec" "bodies fs1 (nextInode fs + 1) = Holds rec"
    using assms(1-5) plain
    by (auto simp: claimDurableCodeLoopRun_def durableCreate_def andThen_def checked_def runSeq_bindp newFile_def inodeOf_def
        update_conv' rec_def Let_def)
  moreover have "client_run_id rec = client_run_id cand" "request_fingerprint rec = request_fingerprint cand"
    "run_work_id rec = run_work_id cand" "run_result rec = run_result cand" by (simp_all add: rec_def)
  ultimately show ?thesis using assms(1,6)
    by (auto simp: claimDurableCodeLoopRun_def durableCreate_def andThen_def checked_def runSeq_bindp readRecord_def
        readDurableCodeLoopRunByWork_def readDurableCodeLoopRunByClient_def Let_def)
qed

section \<open>A sweep of another gateway\<close>

definition storedRun :: "StoreFs \<Rightarrow> string \<Rightarrow> DurableCodeLoopRun option" where
  "storedRun fs k = (case inodeOf fs (ClientFile k) of None \<Rightarrow> None
     | Some n \<Rightarrow> (case bodies fs n of Torn \<Rightarrow> None | Holds r \<Rightarrow> Some r))"

definition wOk :: CallOutcome where
  "wOk = \<lparr>oc_fails = False, oc_wrote = True, oc_db = None, oc_view = wView\<rparr>"

definition wRun :: "CodeLoopJobStatus \<Rightarrow> string option \<Rightarrow> DurableCodeLoopRun" where
  "wRun st res = \<lparr>client_run_id = ''c'', request_fingerprint = ''f'', run_work_id = ''w1'', run_status = st,
     run_usage = \<lparr>us_turns = 0, us_wall_ms = 0, us_prompt_tokens = 0, us_completion_tokens = 0\<rparr>, run_result = res,
     started_at_ms = 0, learning_task_gateway_echo = None, run_owner_instance_id = Some ''me'', run_owner_pid = Some 7,
     cleanup_pending = None, capture_suppressed = False\<rparr>"

text \<open>An event of the others: it neither lets process \<open>i\<close> make a call nor kills it.\<close>

fun others :: "nat \<Rightarrow> StoreEvent \<Rightarrow> bool" where
  "others i (Turn j oc) = (j \<noteq> i)"
| "others i (Crash j) = (j \<noteq> i)"
| "others i _ = True"

lemma others_exec:
  assumes "others i ev" and "i < length (sw_procs w)"
  shows "i < length (sw_procs (store_exec key ev w)) \<and> sw_procs (store_exec key ev w) ! i = sw_procs w ! i"
  using assms by (cases ev) (auto simp: nth_append split: prog.split prod.split)

lemma others_run:
  assumes "list_all (others i) evs" and "i < length (sw_procs w)"
  shows "i < length (sw_procs (store_run key evs w)) \<and> sw_procs (store_run key evs w) ! i = sw_procs w ! i"
  using assms by (induction evs arbitrary: w) (simp_all add: store_run_def others_exec)

lemma turn_exec:
  assumes "i < length (sw_procs w)" and "sw_procs w ! i = Sys c f" and "respond c oc (sw_fs w) = (r, fs)"
  shows "store_exec key (Turn i oc) w = w\<lparr>sw_fs := fs, sw_procs := (sw_procs w)[i := f r]\<rparr>"
  using assms by simp

text \<open>The rest of a sweep that has read a running record of other work.\<close>

definition sweepTest ::
  "(string \<Rightarrow> string) \<Rightarrow> Caller \<Rightarrow> string \<Rightarrow> string list \<Rightarrow> string list \<Rightarrow> nat \<Rightarrow> DurableCodeLoopRun \<Rightarrow> (StoreFailure + nat) prog" where
  "sweepTest key me uuid ids ks n r = Sys (LiveWork (run_work_id r)) (\<lambda>live.
     case live of
       RBool True \<Rightarrow> orphanLoop key me uuid ids ks n
     | RBool False \<Rightarrow>
         andThen (persistDurableCodeLoopRun key me uuid (r\<lparr>run_status := Orphaned, run_result := None\<rparr>))
           (\<lambda>_. orphanLoop key me uuid ids ks (n + 1))
     | _ \<Rightarrow> Ret (Inl IoError))"

lemma orphanLoop_Cons:
  "orphanLoop key me uuid ids (k # ks) n = bindp (readRecord (ClientFile k)) (\<lambda>found.
     case found of
       None \<Rightarrow> orphanLoop key me uuid ids ks n
     | Some r \<Rightarrow> if run_status r \<noteq> Running \<or> run_work_id r \<in> set ids then orphanLoop key me uuid ids ks n
                 else sweepTest key me uuid ids ks n r)"
  by (simp only: orphanLoop.simps sweepTest_def)

text \<open>The record a sweep writes for one it read.\<close>

definition orphanOf :: "Caller \<Rightarrow> DurableCodeLoopRun \<Rightarrow> DurableCodeLoopRun" where
  "orphanOf me r = r\<lparr>run_status := Orphaned, run_result := None,
     run_owner_instance_id := Some (case run_owner_instance_id r of None \<Rightarrow> c_instance me | Some i \<Rightarrow> i),
     run_owner_pid := Some (case run_owner_pid r of None \<Rightarrow> c_pid me | Some p \<Rightarrow> p)\<rparr>"

lemma sweep_writes_what_it_read:
  assumes "sw_procs w ! i = finish (sweepTest key me uuid ids ks n r)"
    and "i < length (sw_procs w)" and "\<not> oc_fails oc"
    and "fst (isDurableCodeLoopWorkLive (oc_db oc) (oc_view oc) (run_work_id r) (active (sw_fs w))) = Inr False"
  shows "storedRun (sw_fs (store_run key (replicate 4 (Turn i oc)) w)) (key (client_run_id r)) = Some (orphanOf me r)"
proof -
  obtain row where live: "isDurableCodeLoopWorkLive (oc_db oc) (oc_view oc) (run_work_id r) (active (sw_fs w)) = (Inr False, row)"
    using assms(4) by (metis prod.collapse)
  have plain: "withoutSuppressedContent (orphanOf me r) = orphanOf me r" by (simp add: withoutSuppressedContent_def orphanOf_def)
  show ?thesis
    using assms(1-3) live plain
    by (simp add: store_run_def eval_nat_numeral persistDurableCodeLoopRun_def atomicReplace_def andThen_def checked_def Let_def
        newFile_def inodeOf_def update_conv' delete_conv' storedRun_def orphanOf_def finish_def sweepTest_def)
qed

text \<open>
  C19: a sweep writes back what it read. Let the sweep of one gateway be about to read a caller's record that says
  running, of work it does not run itself, and let it read it. Then let the other processes and the holders of the
  lease do anything, the owner storing its result and releasing the lease included. If the sweep's liveness test then finds no live
  owner of the work and its next calls do not fail, the record of the caller is the one the sweep read, marked
  orphaned and without a result, whatever was stored in between.
\<close>
theorem code_loop_sweep_loses_result:
  assumes "i < length (sw_procs w)"
    and "sw_procs w ! i = finish (orphanLoop key me uuid ids (key (client_run_id r) # ks) n)"
    and "storedRun (sw_fs w) (key (client_run_id r)) = Some r" and "run_status r = Running" and "run_work_id r \<notin> set ids"
    and "\<not> oc_fails oc" and "list_all (others i) evs"
    and "w' = store_run key evs (store_exec key (Turn i oc) w)"
    and "fst (isDurableCodeLoopWorkLive (oc_db oc) (oc_view oc) (run_work_id r) (active (sw_fs w'))) = Inr False"
  shows "storedRun (sw_fs (store_run key (replicate 4 (Turn i oc)) w')) (key (client_run_id r)) = Some (orphanOf me r)
     \<and> run_status (orphanOf me r) = Orphaned \<and> run_result (orphanOf me r) = None"
proof -
  let ?w1 = "store_exec key (Turn i oc) w"
  obtain m where m: "inodeOf (sw_fs w) (ClientFile (key (client_run_id r))) = Some m" "bodies (sw_fs w) m = Holds r"
    using assms(3) by (auto simp: storedRun_def split: option.splits FileBody.splits)
  have len: "i < length (sw_procs ?w1)" using assms(1) by (auto split: prog.split prod.split)
  have "sw_procs ?w1 ! i = sw_procs w' ! i" and len': "i < length (sw_procs w')"
    using others_run [OF assms(7) len, of key] assms(8) by simp_all
  moreover have "sw_procs ?w1 ! i = finish (sweepTest key me uuid ids ks n r)"
    using assms(1,2,4,5,6) m by (simp add: finish_def readRecord_def orphanLoop_Cons del: orphanLoop.simps)
  ultimately have "storedRun (sw_fs (store_run key (replicate 4 (Turn i oc)) w')) (key (client_run_id r)) = Some (orphanOf me r)"
    using sweep_writes_what_it_read [OF _ len' assms(6,9)] by metis
  then show ?thesis by (simp add: orphanOf_def)
qed

section \<open>Witnesses\<close>

text \<open>The owner takes the lease and claims; another gateway's sweep lists the directory.\<close>

definition raceClaim :: "StoreEvent list" where
  "raceClaim =
     LeaseEvent (OpAcquire None None wView wMe ''u'' False ''w1'') # Spawn (OClaim wMe (wRun Running None)) # replicate 7 (Turn 0 wOk)"

definition raceList :: "StoreEvent list" where
  "raceList = [Spawn (OSweep wYou ''v'' []), Turn 1 wOk]"

text \<open>The sweep reads the record; the owner stores its result and releases the lease.\<close>

definition raceStore :: "StoreEvent list" where
  "raceStore =
     Spawn (OPersist wMe ''p'' (wRun Completed (Some ''result''))) # replicate 8 (Turn 2 wOk)
     @ [LeaseEvent (OpRelease wRow False (\<lparr>at_opens = True, at_deletes = True, at_view = wView\<rparr>,
          \<lparr>at_opens = True, at_deletes = True, at_view = wView\<rparr>, \<lparr>at_opens = True, at_deletes = True, at_view = wView\<rparr>))]"

definition raceOwner :: "StoreEvent list" where
  "raceOwner = raceClaim @ raceList @ Turn 1 wOk # raceStore"

definition returned :: "StoreWorld \<Rightarrow> nat \<Rightarrow> OpResult option" where
  "returned w i = (case sw_procs w ! i of Ret x \<Rightarrow> Some x | Sys _ _ \<Rightarrow> None)"

lemma wRace_claimed: "0 < length (sw_procs (store_run (\<lambda>s. s) raceOwner emptyStore))
   \<and> returned (store_run (\<lambda>s. s) raceOwner emptyStore) 0 = Some (ClaimResult (Inr (Claimed (wRun Running None))))
   \<and> list_all (sparesKey (\<lambda>s. s) ''c'') raceOwner"
  by code_simp

lemma wRace_sweep:
  defines "w \<equiv> store_run (\<lambda>s. s) raceList (store_run (\<lambda>s. s) raceClaim emptyStore)"
  shows "1 < length (sw_procs w)" and "sw_procs w ! 1 = finish (orphanLoop (\<lambda>s. s) wYou ''v'' [] [''c''] 0)"
proof -
  let ?w = "store_run (\<lambda>s. s) raceClaim emptyStore"
  have "length (sw_procs ?w) = 1 \<and> clientKeys (sw_fs ?w) = [''c'']" by code_simp
  then show "1 < length (sw_procs w)" and "sw_procs w ! 1 = finish (orphanLoop (\<lambda>s. s) wYou ''v'' [] [''c''] 0)"
    by (simp_all add: w_def store_run_def raceList_def finish_def markUnownedDurableCodeLoopRunsOrphaned_def withClients_def
        wOk_def nth_append del: orphanLoop.simps)
qed

lemma wRace_facts:
  "storedRun (sw_fs (store_run (\<lambda>s. s) raceList (store_run (\<lambda>s. s) raceClaim emptyStore))) ''c'' = Some (wRun Running None)
   \<and> list_all (others 1) raceStore
   \<and> fst (isDurableCodeLoopWorkLive (oc_db wOk) (oc_view wOk) ''w1'' (active (sw_fs (store_run (\<lambda>s. s) raceOwner emptyStore)))) = Inr False
   \<and> returned (store_run (\<lambda>s. s) raceOwner emptyStore) 2 = Some (Finished True)
   \<and> storedRun (sw_fs (store_run (\<lambda>s. s) raceOwner emptyStore)) ''c'' = Some (wRun Completed (Some ''result''))
   \<and> orphanOf wYou (wRun Running None) = wRun Orphaned None"
  by code_simp

theorem code_loop_sweep_loses_result_witness:
  "returned (store_run (\<lambda>s. s) raceOwner emptyStore) 2 = Some (Finished True)
   \<and> storedRun (sw_fs (store_run (\<lambda>s. s) raceOwner emptyStore)) ''c'' = Some (wRun Completed (Some ''result''))
   \<and> storedRun (sw_fs (store_run (\<lambda>s. s) (replicate 4 (Turn 1 wOk)) (store_run (\<lambda>s. s) raceOwner emptyStore))) ''c'' = Some (wRun Orphaned None)"
proof -
  have "client_run_id (wRun Running None) = ''c''" "run_work_id (wRun Running None) = ''w1''" "run_status (wRun Running None) = Running"
    "\<not> oc_fails wOk" by (simp_all add: wRun_def wOk_def)
  moreover have "store_run (\<lambda>s. s) raceOwner emptyStore = store_run (\<lambda>s. s) raceStore
      (store_exec (\<lambda>s. s) (Turn 1 wOk) (store_run (\<lambda>s. s) raceList (store_run (\<lambda>s. s) raceClaim emptyStore)))"
    by (simp only: store_run_def raceOwner_def fold_append fold.simps comp_apply)
  ultimately show ?thesis
    using code_loop_sweep_loses_result [of 1 _ "\<lambda>s. s" wYou "''v''" "[]" "wRun Running None" "[]" 0 wOk raceStore]
      wRace_sweep wRace_facts by (metis One_nat_def empty_iff empty_set)
qed

theorem code_loop_claimed_once_witness:
  "inodeOf (sw_fs (store_run (\<lambda>s. s) raceOwner emptyStore)) (ClientFile ''c'') \<noteq> None"
proof -
  let ?x = "ClaimResult (Inr (Claimed (wRun Running None)))"
  have "sw_procs (store_run (\<lambda>s. s) raceOwner emptyStore) ! 0 = Ret ?x"
    using wRace_claimed by (auto simp: returned_def split: prog.splits)
  moreover have "claimedFor (\<lambda>s. s) ''c'' ?x" by (simp add: wRun_def)
  ultimately show ?thesis
    using code_loop_claimed_once [of "\<lambda>s. s" "''c''" raceOwner 0 0 ?x ?x] wRace_claimed by blast
qed

definition wSuppressed :: "StoreEvent list" where
  "wSuppressed = Spawn (OPersist wMe ''p'' ((wRun Completed (Some ''result''))\<lparr>capture_suppressed := True\<rparr>)) # replicate 3 (Turn 0 wOk)"

lemma wSuppressed_stored:
  "inodeOf (sw_fs (store_run (\<lambda>s. s) wSuppressed emptyStore)) (ClientFile ''c'') = Some 0
   \<and> bodies (sw_fs (store_run (\<lambda>s. s) wSuppressed emptyStore)) 0 = Holds ((wRun Completed None)\<lparr>capture_suppressed := True\<rparr>)"
  by code_simp

theorem code_loop_suppressed_never_stored_witness: "run_result ((wRun Completed None)\<lparr>capture_suppressed := True\<rparr>) = None"
  using wSuppressed_stored
    code_loop_suppressed_never_stored [of "\<lambda>s. s" wSuppressed "ClientFile ''c''" 0 "(wRun Completed None)\<lparr>capture_suppressed := True\<rparr>"]
  by simp

lemma code_loop_claim_idempotent_witness:
  "\<exists>x fs1 rec. runSeq wOk (claimDurableCodeLoopRun (\<lambda>s. s) wMe (wRun Running None)) (sw_fs emptyStore) = (x, fs1) \<and> x = Inr (Claimed rec)
     \<and> runSeq wOk (claimDurableCodeLoopRun (\<lambda>s. s) wYou ((wRun Running None)\<lparr>request_fingerprint := ''g''\<rparr>)) fs1 = (Inr (Conflict rec), fs1)"
proof -
  obtain x fs1 where run: "runSeq wOk (claimDurableCodeLoopRun (\<lambda>s. s) wMe (wRun Running None)) (sw_fs emptyStore) = (x, fs1)"
    by fastforce
  have "\<not> oc_fails wOk" "inodeOf (sw_fs emptyStore) p = None" "\<not> capture_suppressed (wRun Running None)" for p
    by (simp_all add: wOk_def emptyStore_def inodeOf_def wRun_def)
  from code_loop_claim_idempotent [OF this(1,2,2,3) run, of "(wRun Running None)\<lparr>request_fingerprint := ''g''\<rparr>" wYou]
  show ?thesis using run by (auto simp: wRun_def)
qed

end
