(* ===== verification/Code_Loop_Paths.thy ===== *)
theory Code_Loop_Paths
  imports JS_Strings
begin

text \<open>
  The paths and globs of a code-loop request, \<open>src/homeserver/code-loop.ts\<close>: the normal form of a relative path,
  compilation of a glob to a regular expression, and the framing of Git's changed-file list. Strings are Latin-1.
\<close>

section \<open>Splitting and joining\<close>

fun splitOn :: "char \<Rightarrow> string \<Rightarrow> string list" where
  "splitOn c [] = [[]]"
| "splitOn c (x # xs) = (if x = c then [] # splitOn c xs else (x # hd (splitOn c xs)) # tl (splitOn c xs))"

fun joinWith :: "char \<Rightarrow> string list \<Rightarrow> string" where
  "joinWith c [] = []"
| "joinWith c [p] = p"
| "joinWith c (p # ps) = p @ c # joinWith c ps"

lemma splitOn_nonempty [simp]: "splitOn c s \<noteq> []"
  by (induction s) auto

lemma splitOn_free: "\<forall>p \<in> set (splitOn c s). c \<notin> set p"
proof (induction s)
  case (Cons x xs)
  obtain p ps where "splitOn c xs = p # ps" by (cases "splitOn c xs") auto
  then show ?case using Cons by auto
qed simp

lemma joinWith_Cons: "joinWith c (p # ps) = (if ps = [] then p else p @ c # joinWith c ps)"
  by (cases ps) auto

lemma join_split [simp]: "joinWith c (splitOn c s) = s"
proof (induction s)
  case (Cons x xs)
  obtain p ps where "splitOn c xs = p # ps" by (cases "splitOn c xs") auto
  then show ?case using Cons by (auto simp: joinWith_Cons split: if_splits)
qed simp

lemma splitOn_append: "c \<notin> set p \<Longrightarrow> splitOn c (p @ c # s) = p # splitOn c s"
  by (induction p) auto

lemma splitOn_plain: "c \<notin> set p \<Longrightarrow> splitOn c p = [p]"
  by (induction p) auto

lemma split_join: "ps \<noteq> [] \<Longrightarrow> \<forall>p \<in> set ps. c \<notin> set p \<Longrightarrow> splitOn c (joinWith c ps) = ps"
  by (induction c ps rule: joinWith.induct) (auto simp: splitOn_append splitOn_plain)

lemma set_splitOn: "p \<in> set (splitOn c s) \<Longrightarrow> set p \<subseteq> set s"
proof (induction s arbitrary: p)
  case (Cons x xs)
  obtain q qs where "splitOn c xs = q # qs" by (cases "splitOn c xs") auto
  then show ?case using Cons by (fastforce split: if_splits)
qed simp

lemma set_joinWith: "set (joinWith c ps) \<subseteq> insert c (\<Union>p \<in> set ps. set p)"
  by (induction c ps rule: joinWith.induct) auto

section \<open>Normal form of a relative path\<close>

text \<open>\<open>Buffer.byteLength\<close> in UTF-8.\<close>

definition byteLength :: "string \<Rightarrow> nat" where
  "byteLength s = sum_list (map (\<lambda>c. if (of_char c :: nat) < 128 then 1 else 2) s)"

definition MAX_SCOPE_PATTERN_BYTES :: nat where
  "MAX_SCOPE_PATTERN_BYTES = 512"

datatype PathError = PathEmpty | PathTooLong | PathNotRelative | PathEscapes | PathIsGlob | PathIsRoot | PathIsGit

definition driveLetter :: "string \<Rightarrow> bool" where
  "driveLetter s = (case s of c # d # _ \<Rightarrow> d = CHR '':'' \<and> lower_char c \<in> set ''abcdefghijklmnopqrstuvwxyz'' | _ \<Rightarrow> False)"

definition globChar :: "char \<Rightarrow> bool" where
  "globChar c \<longleftrightarrow> c \<in> set ''*?[]''"

fun normalizeParts :: "bool \<Rightarrow> string list \<Rightarrow> string list \<Rightarrow> PathError + string list" where
  "normalizeParts allowGlob acc [] = Inr acc"
| "normalizeParts allowGlob acc (part # parts) =
     (if part = '''' \<or> part = ''.'' then normalizeParts allowGlob acc parts
      else if part = ''..'' then (if acc = [] then Inl PathEscapes else normalizeParts allowGlob (butlast acc) parts)
      else if \<not> allowGlob \<and> list_ex globChar part then Inl PathIsGlob
      else normalizeParts allowGlob (acc @ [part]) parts)"

definition normalizeRelativeCodeLoopPath :: "string \<Rightarrow> bool \<Rightarrow> PathError + string" where
  "normalizeRelativeCodeLoopPath value allowGlob =
     (if value = '''' \<or> CHR 0x00 \<in> set value then Inl PathEmpty
      else if byteLength value > MAX_SCOPE_PATTERN_BYTES then Inl PathTooLong
      else if CHR 0x5C \<in> set value \<or> starts_with ''/'' value \<or> driveLetter value then Inl PathNotRelative
      else case normalizeParts allowGlob [] (splitOn (CHR ''/'') value) of
             Inl e \<Rightarrow> Inl e
           | Inr normalized \<Rightarrow>
               if normalized = [] then Inl PathIsRoot
               else if list_ex (\<lambda>part. to_lower part = ''.git'') normalized then Inl PathIsGit
               else Inr (joinWith (CHR ''/'') normalized))"

text \<open>\<open>..\<close> has no meaning in a scope pattern.\<close>

definition normalizeCodeLoopScopePattern :: "string \<Rightarrow> PathError + string" where
  "normalizeCodeLoopScopePattern value =
     (if ''..'' \<in> set (splitOn (CHR ''/'') value) then Inl PathEscapes else normalizeRelativeCodeLoopPath value True)"

text \<open>\<open>resolve\<close> of Node's \<open>path\<close>, on the components below the root.\<close>

fun resolveParts :: "string list \<Rightarrow> string list \<Rightarrow> string list" where
  "resolveParts dir [] = dir"
| "resolveParts dir (part # parts) =
     (if part = '''' \<or> part = ''.'' then resolveParts dir parts
      else if part = ''..'' then resolveParts (butlast dir) parts
      else resolveParts (dir @ [part]) parts)"

definition goodPart :: "bool \<Rightarrow> string \<Rightarrow> bool" where
  "goodPart allowGlob part \<longleftrightarrow> part \<notin> {'''', ''.'', ''..''} \<and> CHR ''/'' \<notin> set part \<and> (allowGlob \<or> \<not> list_ex globChar part)"

lemma butlast_append_ne: "acc \<noteq> [] \<Longrightarrow> butlast (base @ acc) = base @ butlast acc"
  by (simp add: butlast_append)

lemma normalizeParts_Cons:
  assumes "normalizeParts g acc (part # parts) = Inr qs"
  obtains (skip) "part = '''' \<or> part = ''.''" "normalizeParts g acc parts = Inr qs"
  | (up) "part = ''..''" "acc \<noteq> []" "normalizeParts g (butlast acc) parts = Inr qs"
  | (push) "part \<notin> {'''', ''.'', ''..''}" "g \<or> \<not> list_ex globChar part" "normalizeParts g (acc @ [part]) parts = Inr qs"
proof (cases "part = '''' \<or> part = ''.''")
  case True
  then show thesis using assms skip by simp
next
  case False
  then show thesis using assms up push by (cases "part = ''..''"; simp split: if_splits)
qed

lemma resolveParts_Cons:
  "part = '''' \<or> part = ''.'' \<Longrightarrow> resolveParts dir (part # parts) = resolveParts dir parts"
  "resolveParts dir (''..'' # parts) = resolveParts (butlast dir) parts"
  "part \<notin> {'''', ''.'', ''..''} \<Longrightarrow> resolveParts dir (part # parts) = resolveParts (dir @ [part]) parts"
  by auto

lemma normalizeParts_resolve:
  "normalizeParts g acc parts = Inr qs \<Longrightarrow> resolveParts (base @ acc) parts = base @ qs"
proof (induction parts arbitrary: acc)
  case (Cons part parts)
  from Cons.prems show ?case
  proof (cases rule: normalizeParts_Cons)
    case skip
    then show ?thesis using Cons.IH [of acc] by (simp add: resolveParts_Cons(1))
  next
    case up
    then show ?thesis using Cons.IH [OF up(3)] by (simp only: resolveParts_Cons(2) butlast_append_ne not_False_eq_True)
  next
    case push
    show ?thesis using Cons.IH [OF push(3)] resolveParts_Cons(3) [OF push(1), of "base @ acc" parts]
      by (simp only: append_assoc)
  qed
qed simp

lemma normalizeParts_good:
  assumes "normalizeParts g acc parts = Inr qs" and "\<forall>p \<in> set acc. goodPart g p" and "\<forall>p \<in> set parts. CHR ''/'' \<notin> set p"
  shows "\<forall>p \<in> set qs. goodPart g p"
  using assms
proof (induction parts arbitrary: acc)
  case (Cons part parts)
  have free: "\<forall>p \<in> set parts. CHR ''/'' \<notin> set p" using Cons.prems(3) by simp
  from Cons.prems(1) show ?case
  proof (cases rule: normalizeParts_Cons)
    case skip
    from Cons.IH [OF skip(2) Cons.prems(2) free] show ?thesis .
  next
    case up
    have "\<forall>p \<in> set (butlast acc). goodPart g p" using Cons.prems(2) in_set_butlastD [of _ acc] by blast
    from Cons.IH [OF up(3) this free] show ?thesis .
  next
    case push
    have "CHR ''/'' \<notin> set part" using Cons.prems(3) by simp
    with push(1,2) have "goodPart g part" unfolding goodPart_def by blast
    then have "\<forall>p \<in> set (acc @ [part]). goodPart g p" using Cons.prems(2) by simp
    from Cons.IH [OF push(3) this free] show ?thesis .
  qed
qed simp

lemma normalizeParts_chars:
  "normalizeParts g acc parts = Inr qs \<Longrightarrow> set qs \<subseteq> set acc \<union> set parts"
proof (induction parts arbitrary: acc)
  case (Cons part parts)
  from Cons.prems show ?case
  proof (cases rule: normalizeParts_Cons)
    case skip
    show ?thesis using Cons.IH [OF skip(2)] by auto
  next
    case up
    show ?thesis using Cons.IH [OF up(3)] in_set_butlastD [of _ acc] by auto
  next
    case push
    show ?thesis using Cons.IH [OF push(3)] by auto
  qed
qed simp

lemma normalizeParts_id: "\<forall>p \<in> set qs. goodPart g p \<Longrightarrow> normalizeParts g acc qs = Inr (acc @ qs)"
  by (induction qs arbitrary: acc) (auto simp: goodPart_def)

text \<open>Normalising does not lengthen a path.\<close>

definition partsBytes :: "string list \<Rightarrow> nat" where
  "partsBytes ps = sum_list (map (\<lambda>p. byteLength p + 1) ps)"

lemma byteLength_simps [simp]: "byteLength (s @ t) = byteLength s + byteLength t" "byteLength [] = 0"
  by (simp_all add: byteLength_def)

lemma byteLength_join: "ps \<noteq> [] \<Longrightarrow> Suc (byteLength (joinWith (CHR ''/'') ps)) = partsBytes ps"
  by (induction "CHR ''/''" ps rule: joinWith.induct) (simp_all add: partsBytes_def, simp add: byteLength_def)

lemma partsBytes_butlast: "partsBytes (butlast ps) \<le> partsBytes ps"
  by (induction ps) (auto simp: partsBytes_def)

lemma normalizeParts_bytes: "normalizeParts g acc parts = Inr qs \<Longrightarrow> partsBytes qs \<le> partsBytes acc + partsBytes parts"
proof (induction parts arbitrary: acc)
  case (Cons part parts)
  have Cons': "partsBytes (part # parts) = byteLength part + 1 + partsBytes parts"
    and snoc: "partsBytes (acc @ [part]) = partsBytes acc + byteLength part + 1" by (simp_all add: partsBytes_def)
  from Cons.prems show ?case
  proof (cases rule: normalizeParts_Cons)
    case skip
    show ?thesis using Cons.IH [OF skip(2)] Cons' by simp
  next
    case up
    show ?thesis using Cons.IH [OF up(3)] partsBytes_butlast [of acc] Cons' by simp
  next
    case push
    show ?thesis using Cons.IH [OF push(3)] Cons' snoc by simp
  qed
qed (simp add: partsBytes_def)

lemma normalized_path:
  assumes "normalizeRelativeCodeLoopPath value g = Inr q"
  obtains qs where "normalizeParts g [] (splitOn (CHR ''/'') value) = Inr qs" and "qs \<noteq> []"
    and "q = joinWith (CHR ''/'') qs" and "splitOn (CHR ''/'') q = qs" and "\<forall>p \<in> set qs. goodPart g p"
    and "\<not> list_ex (\<lambda>part. to_lower part = ''.git'') qs"
    and "CHR 0x00 \<notin> set q" and "CHR 0x5C \<notin> set q" and "byteLength q \<le> 512" and "\<not> starts_with ''/'' q" and "q \<noteq> ''''"
proof -
  obtain qs where qs: "normalizeParts g [] (splitOn (CHR ''/'') value) = Inr qs" "qs \<noteq> []" "q = joinWith (CHR ''/'') qs"
    "\<not> list_ex (\<lambda>part. to_lower part = ''.git'') qs"
    and v: "CHR 0x00 \<notin> set value" "CHR 0x5C \<notin> set value" "byteLength value \<le> 512"
    using assms by (auto simp: normalizeRelativeCodeLoopPath_def MAX_SCOPE_PATTERN_BYTES_def split: sum.splits if_splits)
  have good: "\<forall>p \<in> set qs. goodPart g p" using normalizeParts_good [OF qs(1)] splitOn_free by simp
  then have split: "splitOn (CHR ''/'') q = qs" using qs(2,3) by (simp add: split_join goodPart_def)
  have "set q \<subseteq> insert (CHR ''/'') (set value)"
    using set_joinWith [of "CHR ''/''" qs] normalizeParts_chars [OF qs(1)] set_splitOn qs(3) by fastforce
  then have "CHR 0x00 \<notin> set q" "CHR 0x5C \<notin> set q" using v by auto
  moreover have "byteLength q \<le> 512"
    using byteLength_join [OF qs(2)] byteLength_join [of "splitOn (CHR ''/'') value"] normalizeParts_bytes [OF qs(1)] qs(3) v(3)
    by (simp add: partsBytes_def)
  moreover have "q \<noteq> ''''" "\<not> starts_with ''/'' q"
    using good qs(2,3) by (cases qs; auto simp: joinWith_Cons goodPart_def starts_with_def neq_Nil_conv split: if_splits)+
  ultimately show ?thesis using that qs good split by blast
qed

text \<open>
  C21: a normalised path stays in the sandbox. If a path is accepted, then resolving it below any directory gives
  that directory followed by the components of the normal form, none of which is empty, a dot, two dots or a
  \<open>.git\<close> in any case, and there is at least one; the normal form has no NUL and no backslash and is not absolute; and
  it is its own normal form, unless it begins with a drive letter.
\<close>
theorem code_loop_path_contained:
  assumes "normalizeRelativeCodeLoopPath value allowGlob = Inr q"
  shows "resolveParts base (splitOn (CHR ''/'') value) = base @ splitOn (CHR ''/'') q
     \<and> (\<forall>part \<in> set (splitOn (CHR ''/'') q). part \<notin> {'''', ''.'', ''..''} \<and> to_lower part \<noteq> ''.git'')
     \<and> CHR 0x00 \<notin> set q \<and> CHR 0x5C \<notin> set q \<and> \<not> starts_with ''/'' q
     \<and> (driveLetter q \<or> normalizeRelativeCodeLoopPath q allowGlob = Inr q)"
proof -
  obtain qs where qs: "normalizeParts allowGlob [] (splitOn (CHR ''/'') value) = Inr qs" "qs \<noteq> []" "q = joinWith (CHR ''/'') qs"
    "splitOn (CHR ''/'') q = qs" "\<forall>p \<in> set qs. goodPart allowGlob p" "\<not> list_ex (\<lambda>part. to_lower part = ''.git'') qs"
    "CHR 0x00 \<notin> set q" "CHR 0x5C \<notin> set q" "byteLength q \<le> 512" "\<not> starts_with ''/'' q" "q \<noteq> ''''"
    using normalized_path [OF assms] by blast
  have "resolveParts base (splitOn (CHR ''/'') value) = base @ qs"
    using normalizeParts_resolve [OF qs(1), of base] by simp
  moreover have "driveLetter q \<or> normalizeRelativeCodeLoopPath q allowGlob = Inr q"
    using qs normalizeParts_id [OF qs(5), of "[]"] by (simp add: normalizeRelativeCodeLoopPath_def MAX_SCOPE_PATTERN_BYTES_def)
  ultimately show ?thesis using qs by (auto simp: goodPart_def list_ex_iff)
qed

section \<open>Globs\<close>

text \<open>The regular expression a glob compiles to: \<open>c\<close>, \<open>[^/]*\<close>, \<open>[^/]\<close>, \<open>.*\<close> and \<open>(?:.*/)?\<close>.\<close>

datatype GlobToken = Lit char | AnySegment | OneChar | AnyPath | AnyDirs

function globToRegExp :: "string \<Rightarrow> GlobToken list" where
  "globToRegExp glob =
     (case glob of
        [] \<Rightarrow> []
      | ch # rest \<Rightarrow>
          if ch = CHR ''*''
          then if starts_with ''*'' rest
               then if starts_with ''*/'' rest then AnyDirs # globToRegExp (drop 2 rest) else AnyPath # globToRegExp (drop 1 rest)
               else AnySegment # globToRegExp rest
          else if ch = CHR ''?'' then OneChar # globToRegExp rest
          else Lit ch # globToRegExp rest)"
  by pat_completeness auto
termination by (relation "measure length") auto

declare globToRegExp.simps [simp del]

text \<open>The dot of a regular expression without flags is any character but a line terminator.\<close>

definition lineTerminator :: "char \<Rightarrow> bool" where
  "lineTerminator c \<longleftrightarrow> c = CHR 0x0A \<or> c = CHR 0x0D"

fun tokenWeight :: "GlobToken \<Rightarrow> nat" where
  "tokenWeight AnyDirs = 3"
| "tokenWeight _ = 1"

text \<open>The anchored match, by backtracking.\<close>

function matchesTokens :: "GlobToken list \<Rightarrow> string \<Rightarrow> bool" where
  "matchesTokens [] s = (s = [])"
| "matchesTokens (Lit c # ts) s = (case s of [] \<Rightarrow> False | x # xs \<Rightarrow> x = c \<and> matchesTokens ts xs)"
| "matchesTokens (OneChar # ts) s = (case s of [] \<Rightarrow> False | x # xs \<Rightarrow> x \<noteq> CHR ''/'' \<and> matchesTokens ts xs)"
| "matchesTokens (AnySegment # ts) s =
     (matchesTokens ts s \<or> (case s of [] \<Rightarrow> False | x # xs \<Rightarrow> x \<noteq> CHR ''/'' \<and> matchesTokens (AnySegment # ts) xs))"
| "matchesTokens (AnyPath # ts) s =
     (matchesTokens ts s \<or> (case s of [] \<Rightarrow> False | x # xs \<Rightarrow> \<not> lineTerminator x \<and> matchesTokens (AnyPath # ts) xs))"
| "matchesTokens (AnyDirs # ts) s = (matchesTokens ts s \<or> matchesTokens (AnyPath # Lit (CHR ''/'') # ts) s)"
  by pat_completeness auto
termination by (relation "measures [\<lambda>(ts, s). sum_list (map tokenWeight ts), \<lambda>(ts, s). length s]") auto

definition matchesAnyGlob :: "string \<Rightarrow> string list \<Rightarrow> bool" where
  "matchesAnyGlob path globs = list_ex (\<lambda>g. matchesTokens (globToRegExp g) path) globs"

text \<open>The language of a token list.\<close>

fun globLang :: "GlobToken list \<Rightarrow> string set" where
  "globLang [] = {[]}"
| "globLang (Lit c # ts) = {c # v | v. v \<in> globLang ts}"
| "globLang (OneChar # ts) = {x # v | x v. x \<noteq> CHR ''/'' \<and> v \<in> globLang ts}"
| "globLang (AnySegment # ts) = {u @ v | u v. list_all (\<lambda>x. x \<noteq> CHR ''/'') u \<and> v \<in> globLang ts}"
| "globLang (AnyPath # ts) = {u @ v | u v. list_all (\<lambda>x. \<not> lineTerminator x) u \<and> v \<in> globLang ts}"
| "globLang (AnyDirs # ts) = globLang ts \<union> {u @ ''/'' @ v | u v. list_all (\<lambda>x. \<not> lineTerminator x) u \<and> v \<in> globLang ts}"

lemma star_step:
  "(\<exists>u v. x # xs = u @ v \<and> list_all P u \<and> v \<in> L) \<longleftrightarrow>
     x # xs \<in> L \<or> P x \<and> (\<exists>u v. xs = u @ v \<and> list_all P u \<and> v \<in> L)" (is "?l \<longleftrightarrow> ?r")
proof
  assume ?l
  then obtain u v where uv: "x # xs = u @ v" "list_all P u" "v \<in> L" by blast
  then show ?r by (cases u) auto
next
  assume ?r
  then consider "x # xs \<in> L" | u v where "P x" "xs = u @ v" "list_all P u" "v \<in> L" by blast
  then show ?l
  proof cases
    case 1
    then show ?thesis by (intro exI [of _ "[]"] exI [of _ "x # xs"]) simp
  next
    case 2
    then show ?thesis by (intro exI [of _ "x # u"] exI [of _ v]) simp
  qed
qed

lemma star_Nil: "(\<exists>u v. [] = u @ v \<and> list_all P u \<and> v \<in> L) \<longleftrightarrow> [] \<in> L"
  by auto

lemma globLang_Cons:
  "s \<in> globLang (Lit c # ts) \<longleftrightarrow> (\<exists>v. s = c # v \<and> v \<in> globLang ts)"
  "s \<in> globLang (OneChar # ts) \<longleftrightarrow> (\<exists>x v. s = x # v \<and> x \<noteq> CHR ''/'' \<and> v \<in> globLang ts)"
  "s \<in> globLang (AnySegment # ts) \<longleftrightarrow> (\<exists>u v. s = u @ v \<and> list_all (\<lambda>x. x \<noteq> CHR ''/'') u \<and> v \<in> globLang ts)"
  "s \<in> globLang (AnyPath # ts) \<longleftrightarrow> (\<exists>u v. s = u @ v \<and> list_all (\<lambda>x. \<not> lineTerminator x) u \<and> v \<in> globLang ts)"
  "s \<in> globLang (AnyDirs # ts) \<longleftrightarrow> s \<in> globLang ts \<or> s \<in> globLang (AnyPath # Lit (CHR ''/'') # ts)"
  by auto

text \<open>The backtracking of a star, for a continuation that is matched correctly.\<close>

lemma matches_star:
  assumes "\<And>v. matchesTokens ts v \<longleftrightarrow> v \<in> globLang ts"
  shows "matchesTokens (AnySegment # ts) s \<longleftrightarrow> s \<in> globLang (AnySegment # ts)"
    and "matchesTokens (AnyPath # ts) s \<longleftrightarrow> s \<in> globLang (AnyPath # ts)"
proof -
  show "matchesTokens (AnySegment # ts) s \<longleftrightarrow> s \<in> globLang (AnySegment # ts)"
  proof (induction s)
    case Nil
    show ?case unfolding globLang_Cons star_Nil matchesTokens.simps(4) [of ts "[]"] by (simp only: assms list.case simp_thms)
  next
    case (Cons x xs)
    then show ?case unfolding globLang_Cons star_step matchesTokens.simps(4) [of ts "x # xs"]
      by (simp only: assms list.case simp_thms)
  qed
  show "matchesTokens (AnyPath # ts) s \<longleftrightarrow> s \<in> globLang (AnyPath # ts)"
  proof (induction s)
    case Nil
    show ?case unfolding globLang_Cons star_Nil matchesTokens.simps(5) [of ts "[]"] by (simp only: assms list.case simp_thms)
  next
    case (Cons x xs)
    then show ?case unfolding globLang_Cons star_step matchesTokens.simps(5) [of ts "x # xs"]
      by (simp only: assms list.case simp_thms)
  qed
qed

declare matchesTokens.simps(4-6) [simp del]

lemma matches_char:
  assumes "\<And>v. matchesTokens ts v \<longleftrightarrow> v \<in> globLang ts"
  shows "matchesTokens (Lit c # ts) s \<longleftrightarrow> s \<in> globLang (Lit c # ts)"
    and "matchesTokens (OneChar # ts) s \<longleftrightarrow> s \<in> globLang (OneChar # ts)"
  unfolding globLang_Cons by (cases s; simp add: assms)+

lemma matchesTokens_iff: "matchesTokens ts s \<longleftrightarrow> s \<in> globLang ts"
proof (induction ts arbitrary: s)
  case (Cons t ts)
  show ?case
  proof (cases t)
    case AnyDirs
    have "matchesTokens (AnyPath # Lit (CHR ''/'') # ts) s \<longleftrightarrow> s \<in> globLang (AnyPath # Lit (CHR ''/'') # ts)"
      by (intro matches_star matches_char Cons.IH)
    then show ?thesis unfolding AnyDirs globLang_Cons(5) by (simp only: matchesTokens.simps(6) Cons.IH)
  qed (use matches_star [OF Cons.IH] matches_char [OF Cons.IH] in simp_all)
qed simp

text \<open>A glob without a star or a question mark is a literal, and a directory followed by two stars covers it.\<close>

lemma globToRegExp_literal:
  "\<not> list_ex (\<lambda>c. c = CHR ''*'' \<or> c = CHR ''?'') g \<Longrightarrow> globToRegExp (g @ rest) = map Lit g @ globToRegExp rest"
proof (induction g)
  case (Cons c g)
  then show ?case by (subst globToRegExp.simps) simp
qed simp

lemma globLang_literal: "s \<in> globLang (map Lit g @ ts) \<longleftrightarrow> (\<exists>v. s = g @ v \<and> v \<in> globLang ts)"
proof (induction g arbitrary: s)
  case (Cons c g)
  then show ?case by (auto simp only: list.map append_Cons globLang_Cons(1))
qed simp

lemma globToRegExp_Nil [simp]: "globToRegExp [] = []"
  by (subst globToRegExp.simps) simp

lemma globToRegExp_tree: "globToRegExp ''**'' = [AnyPath]"
  by (subst globToRegExp.simps) (simp add: starts_with_def)

lemma matchesAnyGlob_iff: "matchesAnyGlob path globs \<longleftrightarrow> (\<exists>g \<in> set globs. path \<in> globLang (globToRegExp g))"
  by (auto simp: matchesAnyGlob_def list_ex_iff matchesTokens_iff)

definition literalGlob :: "string \<Rightarrow> bool" where
  "literalGlob g \<longleftrightarrow> \<not> list_ex (\<lambda>c. c = CHR ''*'' \<or> c = CHR ''?'') g"

lemma matches_literal: "literalGlob g \<Longrightarrow> path \<in> globLang (globToRegExp g) \<longleftrightarrow> path = g"
  using globToRegExp_literal [of g "[]"] globLang_literal [of path g "[]"] by (simp add: literalGlob_def)

lemma globToRegExp_slash_tree: "globToRegExp ''/**'' = [Lit (CHR ''/''), AnyPath]"
  by (subst globToRegExp.simps) (simp add: globToRegExp_tree)

lemma matches_tree:
  assumes "literalGlob g"
  shows "path \<in> globLang (globToRegExp (g @ ''/**'')) \<longleftrightarrow>
     (\<exists>u. path = g @ ''/'' @ u \<and> list_all (\<lambda>x. \<not> lineTerminator x) u)"
proof -
  have "globToRegExp (g @ ''/**'') = map Lit g @ [Lit (CHR ''/''), AnyPath]"
    using globToRegExp_literal [of g "''/**''"] assms unfolding literalGlob_def globToRegExp_slash_tree .
  then show ?thesis unfolding globLang_literal globLang_Cons(1,4) by (simp only: globLang_literal globLang_Cons(1,4) globLang.simps(1)) auto
qed

text \<open>
  What a scope entry covers. A path is covered exactly if it is in the language of one of the globs; an entry
  without a star or a question mark covers exactly the path it spells, whatever other characters of regular
  expressions it has; and a directory followed by a slash and two stars covers exactly what lies below the
  directory and has no line terminator in its name.
\<close>
lemma code_loop_glob_meaning:
  assumes "literalGlob g"
  shows "(matchesAnyGlob path globs \<longleftrightarrow> (\<exists>h \<in> set globs. path \<in> globLang (globToRegExp h)))
     \<and> (matchesAnyGlob path [g] \<longleftrightarrow> path = g)
     \<and> (matchesAnyGlob path [g @ ''/**''] \<longleftrightarrow> (\<exists>u. path = g @ ''/'' @ u \<and> list_all (\<lambda>x. \<not> lineTerminator x) u))"
  using matchesAnyGlob_iff [of path] matches_literal [OF assms] matches_tree [OF assms] by simp

text \<open>
  A protected directory does not protect names with a line break. A path below the directory whose name has a
  line feed or a carriage return is not covered by the directory followed by two stars, although the path is
  accepted as a changed path; so a change to it is not reported.
\<close>
lemma code_loop_protected_line_break:
  assumes "literalGlob g" and "list_ex lineTerminator u"
  shows "\<not> matchesAnyGlob (g @ ''/'' @ u) [g @ ''/**'']
     \<and> normalizeRelativeCodeLoopPath (''test/'' @ CHR 0x0A # ''x.ts'') False = Inr (''test/'' @ CHR 0x0A # ''x.ts'')"
proof
  show "\<not> matchesAnyGlob (g @ ''/'' @ u) [g @ ''/**'']"
    using assms(2) matches_tree [OF assms(1), of "g @ ''/'' @ u"] by (simp add: matchesAnyGlob_iff list_all_iff list_ex_iff)
  show "normalizeRelativeCodeLoopPath (''test/'' @ CHR 0x0A # ''x.ts'') False = Inr (''test/'' @ CHR 0x0A # ''x.ts'')"
    by code_simp
qed

text \<open>
  A seed whose changes can never be returned. A path that spells a drive letter after a leading dot is accepted
  as a seed and becomes the writable scope, but the same file as Git names it is refused as a changed path.
\<close>
lemma code_loop_drive_letter_seed:
  "normalizeRelativeCodeLoopPath ''./C:x'' False = Inr ''C:x'' \<and> normalizeRelativeCodeLoopPath ''C:x'' False = Inl PathNotRelative"
  by code_simp

section \<open>Git's list of changed files\<close>

record GitLogicalChange =
  gc_status :: string
  gc_paths :: "string list"

datatype GitError = MalformedFraming | UnsupportedStatus | IncompleteChange | EmptyPath

text \<open>\<open>[AMDTUXB]\<close> or \<open>[RC]\<close> with one to three digits.\<close>

definition validStatus :: "string \<Rightarrow> bool" where
  "validStatus s = (case s of [] \<Rightarrow> False
     | c # ds \<Rightarrow> ds = [] \<and> c \<in> set ''AMDTUXB'' \<or> c \<in> set ''RC'' \<and> all_digits ds \<and> length ds \<le> 3)"

definition pathCount :: "string \<Rightarrow> nat" where
  "pathCount s = (if starts_with ''R'' s \<or> starts_with ''C'' s then 2 else 1)"

function parseFields :: "string list \<Rightarrow> GitError + GitLogicalChange list" where
  "parseFields xs =
     (case xs of
        [] \<Rightarrow> Inr []
      | status # rest \<Rightarrow>
          if \<not> validStatus status then Inl UnsupportedStatus
          else if length rest < pathCount status then Inl IncompleteChange
          else if list_ex (\<lambda>p. p = '''') (take (pathCount status) rest) then Inl EmptyPath
          else case parseFields (drop (pathCount status) rest) of
                 Inl e \<Rightarrow> Inl e
               | Inr changes \<Rightarrow> Inr (\<lparr>gc_status = status, gc_paths = take (pathCount status) rest\<rparr> # changes))"
  by pat_completeness auto
termination by (relation "measure length") auto

declare parseFields.simps [simp del]

definition parseGitNameStatusZ :: "string \<Rightarrow> GitError + GitLogicalChange list" where
  "parseGitNameStatusZ stdout =
     (if stdout = '''' then Inr []
      else if last stdout \<noteq> CHR 0x00 then Inl MalformedFraming
      else parseFields (splitOn (CHR 0x00) (butlast stdout)))"

text \<open>What Git prints: every field followed by a NUL.\<close>

definition fieldsOf :: "GitLogicalChange \<Rightarrow> string list" where
  "fieldsOf c = gc_status c # gc_paths c"

definition printChanges :: "GitLogicalChange list \<Rightarrow> string" where
  "printChanges cs = concat (map (\<lambda>f. f @ [CHR 0x00]) (concat (map fieldsOf cs)))"

definition wfChange :: "GitLogicalChange \<Rightarrow> bool" where
  "wfChange c \<longleftrightarrow> validStatus (gc_status c) \<and> length (gc_paths c) = pathCount (gc_status c) \<and> \<not> list_ex (\<lambda>p. p = '''') (gc_paths c)"

lemma parseFields_iff: "parseFields fs = Inr cs \<longleftrightarrow> fs = concat (map fieldsOf cs) \<and> list_all wfChange cs"
proof (induction fs arbitrary: cs rule: parseFields.induct)
  case (1 fs)
  show ?case
  proof (cases fs)
    case Nil
    then show ?thesis by (cases cs) (auto simp: parseFields.simps [of "[]"] fieldsOf_def)
  next
    case (Cons status rest)
    let ?n = "pathCount status"
    note unfold = parseFields.simps [of "status # rest", simplified]
    show ?thesis
    proof (cases "validStatus status \<and> \<not> length rest < ?n \<and> \<not> list_ex (\<lambda>p. p = '''') (take ?n rest)")
      case True
      then have IH: "parseFields (drop ?n rest) = Inr cs' \<longleftrightarrow> drop ?n rest = concat (map fieldsOf cs') \<and> list_all wfChange cs'" for cs'
        using 1 [OF Cons, of cs'] by simp
      show ?thesis
      proof
        assume "parseFields fs = Inr cs"
        then obtain cs' where cs': "parseFields (drop ?n rest) = Inr cs'"
          and cs: "cs = \<lparr>gc_status = status, gc_paths = take ?n rest\<rparr> # cs'"
          using True Cons unfold by (auto split: sum.splits)
        have "rest = take ?n rest @ concat (map fieldsOf cs')" using IH cs' by (metis append_take_drop_id)
        then show "fs = concat (map fieldsOf cs) \<and> list_all wfChange cs"
          using Cons cs IH cs' True by (auto simp: fieldsOf_def wfChange_def)
      next
        assume fs: "fs = concat (map fieldsOf cs) \<and> list_all wfChange cs"
        then obtain c cs' where c: "cs = c # cs'" using Cons by (cases cs) auto
        then have c': "gc_status c = status" "rest = gc_paths c @ concat (map fieldsOf cs')" "length (gc_paths c) = ?n"
          using fs Cons by (auto simp: fieldsOf_def wfChange_def)
        then have "parseFields (drop ?n rest) = Inr cs'" using IH fs c by simp
        moreover have "take ?n rest = gc_paths c" using c' by simp
        ultimately show "parseFields fs = Inr cs" using True Cons c c'(1) unfold by simp
      qed
    next
      case False
      then have "parseFields fs \<noteq> Inr cs" using Cons unfold by auto
      moreover have "\<not> (fs = concat (map fieldsOf cs) \<and> list_all wfChange cs)"
        using False Cons by (cases cs) (auto simp: fieldsOf_def wfChange_def)
      ultimately show ?thesis by simp
    qed
  qed
qed

lemma terminated_join: "fs \<noteq> [] \<Longrightarrow> concat (map (\<lambda>f. f @ [c]) fs) = joinWith c fs @ [c]"
  by (induction c fs rule: joinWith.induct) auto

lemma git_framing:
  "parseGitNameStatusZ s = Inr cs \<longleftrightarrow>
     s = printChanges cs \<and> list_all wfChange cs \<and> (\<forall>c \<in> set cs. \<forall>f \<in> set (fieldsOf c). CHR 0x00 \<notin> set f)"
proof (cases "s = ''''")
  case True
  then show ?thesis
    by (cases cs) (auto simp: parseGitNameStatusZ_def printChanges_def fieldsOf_def)
next
  case False
  let ?fs = "concat (map fieldsOf cs)"
  have free: "(\<forall>c \<in> set cs. \<forall>f \<in> set (fieldsOf c). CHR 0x00 \<notin> set f) \<longleftrightarrow> (\<forall>f \<in> set ?fs. CHR 0x00 \<notin> set f)" by auto
  show ?thesis
  proof
    assume l: "parseGitNameStatusZ s = Inr cs"
    then have nul: "last s = CHR 0x00" and parse: "parseFields (splitOn (CHR 0x00) (butlast s)) = Inr cs"
      using False by (auto simp: parseGitNameStatusZ_def split: if_splits)
    then have fs: "splitOn (CHR 0x00) (butlast s) = ?fs" "list_all wfChange cs" using parseFields_iff by blast+
    then have "s = joinWith (CHR 0x00) ?fs @ [CHR 0x00]"
      using join_split [of "CHR 0x00" "butlast s"] append_butlast_last_id [OF False] nul by simp
    moreover have "?fs \<noteq> []" using fs(1) splitOn_nonempty [of "CHR 0x00" "butlast s"] by simp
    ultimately show "s = printChanges cs \<and> list_all wfChange cs \<and> (\<forall>c \<in> set cs. \<forall>f \<in> set (fieldsOf c). CHR 0x00 \<notin> set f)"
      using fs(2) splitOn_free [of "CHR 0x00" "butlast s"] unfolding free fs(1) printChanges_def by (simp add: terminated_join)
  next
    assume r: "s = printChanges cs \<and> list_all wfChange cs \<and> (\<forall>c \<in> set cs. \<forall>f \<in> set (fieldsOf c). CHR 0x00 \<notin> set f)"
    then have ne: "?fs \<noteq> []" using False unfolding printChanges_def by (metis concat.simps(1) list.map(1))
    then have s: "s = joinWith (CHR 0x00) ?fs @ [CHR 0x00]" using r by (simp add: printChanges_def terminated_join)
    have "splitOn (CHR 0x00) (joinWith (CHR 0x00) ?fs) = ?fs" 
      by (rule split_join [OF ne]) (use r free in blast)
    then have "splitOn (CHR 0x00) (butlast s) = ?fs" by (simp only: s butlast_snoc)
    then have "parseFields (splitOn (CHR 0x00) (butlast s)) = Inr cs" using r parseFields_iff by blast
    then show "parseGitNameStatusZ s = Inr cs" using s by (simp add: parseGitNameStatusZ_def)
  qed
qed

lemma parse_print: "parseGitNameStatusZ s = Inr cs \<Longrightarrow> s = printChanges cs"
  using git_framing by blast

text \<open>
  The framing of changed files is exact. A text parses to a list of changes if and only if it is that list
  printed field by field with a NUL after each, and every change has a known status, as many paths as its status
  calls for, and no empty path or NUL in a field: nothing is dropped, merged or invented.
\<close>
lemma code_loop_git_framing:
  "parseGitNameStatusZ s = Inr cs \<longleftrightarrow>
     s = printChanges cs \<and> list_all wfChange cs \<and> list_all (\<lambda>c. list_all (\<lambda>f. CHR 0x00 \<notin> set f) (fieldsOf c)) cs"
  using git_framing [of s cs] by (simp only: list_all_iff)

section \<open>Witnesses\<close>

theorem code_loop_path_contained_witness:
  "resolveParts [''work''] (splitOn (CHR ''/'') ''a/./b/../c'') = [''work'', ''a'', ''c'']"
proof -
  have "normalizeRelativeCodeLoopPath ''a/./b/../c'' False = Inr ''a/c''" by code_simp
  from code_loop_path_contained [OF this, of "[''work'']"] show ?thesis by simp
qed

lemma code_loop_glob_meaning_witness: "matchesAnyGlob ''test/a/b.ts'' [''test/**''] \<and> \<not> matchesAnyGlob ''src'' [''test'']"
proof -
  have g: "literalGlob ''test''" by code_simp
  have "\<exists>u. ''test/a/b.ts'' = ''test'' @ ''/'' @ u \<and> list_all (\<lambda>x. \<not> lineTerminator x) u"
    by (rule exI [of _ "''a/b.ts''"]) (simp add: lineTerminator_def)
  then show ?thesis
    using code_loop_glob_meaning [OF g, of "''test/a/b.ts''" "[]"] code_loop_glob_meaning [OF g, of "''src''" "[]"] by simp
qed

lemma code_loop_protected_line_break_witness: "\<not> matchesAnyGlob (''test/'' @ CHR 0x0A # ''x.ts'') [''test/**'']"
proof -
  have "literalGlob ''test''" by code_simp
  moreover have "list_ex lineTerminator (CHR 0x0A # ''x.ts'')" by (simp add: lineTerminator_def)
  ultimately show ?thesis using code_loop_protected_line_break [of "''test''" "CHR 0x0A # ''x.ts''"] by simp
qed

end
