(* ===== verification/Code_Loop_Request.thy ===== *)
theory Code_Loop_Request
  imports Code_Loop_Paths
begin

text \<open>
  Admission of a code-loop request and the harvest of its changes, \<open>src/homeserver/code-loop.ts\<close>: the structural
  checks, the effective caps, the writable and protected scopes, and the sorting of Git's changes into those that
  are returned and those that are refused. What the file system answers for a path is an argument; paths on disk are
  lists of components below the root.
\<close>

section \<open>Requests\<close>

text \<open>A field of a parsed JSON object: absent, of the declared type, or of another type.\<close>

datatype 'a Field = Absent | Is 'a | WrongType

text \<open>Within an array, an element of another type than string is \<open>None\<close>.\<close>

record CodeLoopSeedFile =
  sf_path :: "string option"
  sf_content :: "string option"

record CodeLoopCapsRequest =
  rq_wall_s :: "js_number Field"
  rq_total_wall_s :: "js_number Field"
  rq_turns :: "js_number Field"
  rq_completion_tokens :: "js_number Field"
  rq_edit_deadline_turn :: "js_number Field"

text \<open>An item with exactly the keys \<open>name\<close> and \<open>command\<close>, or something else.\<close>

datatype SchemaItem = SchemaItem "string option" "string option" | NotASchemaItem

record CodeLoopRequest =
  rq_traffic_purpose :: "string Field"
  rq_client_run_id :: "string Field"
  rq_instruction :: "string Field"
  rq_files :: "CodeLoopSeedFile list Field"
  rq_schema_checks :: "SchemaItem list Field"
  rq_writable :: "string option list Field"
  rq_protected :: "string option list Field"
  rq_caps :: "CodeLoopCapsRequest option"
  rq_content_capture :: "string Field"

datatype RequestError =
    InvalidTrafficPurpose | InvalidContentCapture | InvalidSchemaChecks | InvalidClientRunId
  | InstructionRequired | FilesRequired | TooManyFiles | FileFieldType | SeedPath PathError | DuplicateSeed
  | SeedTooLarge | ScopeNotArray | TooManyScopes | ScopeType | ScopePath PathError | GeneratedSeed
  | InvalidTotalWall | InvalidEditDeadline | EditDeadlineBeyondTurns

section \<open>The single checks\<close>

definition parseExecutionTrafficPurpose :: "string Field \<Rightarrow> bool" where
  "parseExecutionTrafficPurpose v = (case v of Absent \<Rightarrow> True | Is s \<Rightarrow> s \<in> {''organic'', ''evaluation'', ''synthetic''} | WrongType \<Rightarrow> False)"

definition parseContentCaptureArgument :: "string Field \<Rightarrow> bool" where
  "parseContentCaptureArgument v = (case v of Absent \<Rightarrow> True | Is s \<Rightarrow> s = ''none'' | WrongType \<Rightarrow> False)"

definition alnum :: "char \<Rightarrow> bool" where
  "alnum c \<longleftrightarrow> is_digit c \<or> lower_char c \<in> set ''abcdefghijklmnopqrstuvwxyz''"

definition lowerAlnum :: "char \<Rightarrow> bool" where
  "lowerAlnum c \<longleftrightarrow> is_digit c \<or> c \<in> set ''abcdefghijklmnopqrstuvwxyz''"

text \<open>\<open>CLIENT_RUN_ID_RE\<close> and the \<open>NAME\<close> of a schema check.\<close>

definition clientRunIdOk :: "string \<Rightarrow> bool" where
  "clientRunIdOk s = (case s of [] \<Rightarrow> False
     | c # cs \<Rightarrow> alnum c \<and> length cs \<le> 127 \<and> list_all (\<lambda>x. alnum x \<or> x \<in> set ''._:-'') cs)"

definition schemaNameOk :: "string \<Rightarrow> bool" where
  "schemaNameOk s = (case s of [] \<Rightarrow> False
     | c # cs \<Rightarrow> lowerAlnum c \<and> length cs \<le> 79 \<and> list_all (\<lambda>x. lowerAlnum x \<or> x \<in> set ''._:-'') cs)"

definition validateClientRunId :: "string Field \<Rightarrow> RequestError + string option" where
  "validateClientRunId v = (case v of Absent \<Rightarrow> Inr None
     | Is s \<Rightarrow> if clientRunIdOk s then Inr (Some s) else Inl InvalidClientRunId | WrongType \<Rightarrow> Inl InvalidClientRunId)"

fun schemaItemsOk :: "SchemaItem list \<Rightarrow> string list \<Rightarrow> nat \<Rightarrow> bool" where
  "schemaItemsOk [] names bytes = True"
| "schemaItemsOk (SchemaItem (Some name) (Some cmd) # items) names bytes =
     (schemaNameOk name \<and> name \<notin> set names \<and> js_trim cmd \<noteq> '''' \<and> CHR 0x00 \<notin> set cmd
      \<and> byteLength cmd \<le> 8192 \<and> bytes + byteLength cmd \<le> 32768
      \<and> schemaItemsOk items (name # names) (bytes + byteLength cmd))"
| "schemaItemsOk (item # items) names bytes = False"

definition validateSchemaChecks :: "SchemaItem list Field \<Rightarrow> bool" where
  "validateSchemaChecks v = (case v of Absent \<Rightarrow> True
     | Is items \<Rightarrow> 1 \<le> length items \<and> length items \<le> 8 \<and> schemaItemsOk items [] 0 | WrongType \<Rightarrow> False)"

definition MAX_FILES :: nat where "MAX_FILES = 64"
definition MAX_TOTAL_BYTES :: nat where "MAX_TOTAL_BYTES = 2 * 1024 * 1024"
definition MAX_SCOPE_PATTERNS :: nat where "MAX_SCOPE_PATTERNS = 64"

definition GENERATED_ARTIFACT_DIRS :: "string list" where
  "GENERATED_ARTIFACT_DIRS =
     [''__pycache__'', ''.pytest_cache'', ''.mypy_cache'', ''.ruff_cache'', ''.hypothesis'', ''.tox'', ''.nox'', ''.cache'']"

definition GENERATED_ARTIFACT_EXTENSIONS :: "string list" where
  "GENERATED_ARTIFACT_EXTENSIONS = [''.pyc'', ''.pyo'', ''.class'', ''.tsbuildinfo'']"

definition isGeneratedCodeLoopArtifact :: "string \<Rightarrow> bool" where
  "isGeneratedCodeLoopArtifact path =
     (let components = splitOn (CHR ''/'') path
      in list_ex (\<lambda>c. c \<in> set GENERATED_ARTIFACT_DIRS) components
         \<or> list_ex (\<lambda>c. list_ex (\<lambda>x. ends_with x c) GENERATED_ARTIFACT_EXTENSIONS) components)"

definition isCodeLoopInternalPath :: "string \<Rightarrow> bool" where
  "isCodeLoopInternalPath path \<longleftrightarrow> path = ''.meta.json''"

text \<open>The loop over the seeds: the normal forms seen, in order, and the bytes of their content.\<close>

fun seedLoop :: "CodeLoopSeedFile list \<Rightarrow> string list \<Rightarrow> nat \<Rightarrow> RequestError + string list \<times> nat" where
  "seedLoop [] seen bytes = Inr (seen, bytes)"
| "seedLoop (f # fs) seen bytes =
     (case (sf_path f, sf_content f) of
        (Some path, Some content) \<Rightarrow>
          (case normalizeRelativeCodeLoopPath path False of
             Inl e \<Rightarrow> Inl (SeedPath e)
           | Inr q \<Rightarrow> if q \<in> set seen then Inl DuplicateSeed else seedLoop fs (seen @ [q]) (bytes + byteLength content))
      | _ \<Rightarrow> Inl FileFieldType)"

fun scopeLoop :: "string option list \<Rightarrow> RequestError + unit" where
  "scopeLoop [] = Inr ()"
| "scopeLoop (None # ps) = Inl ScopeType"
| "scopeLoop (Some p # ps) = (case normalizeCodeLoopScopePattern p of Inl e \<Rightarrow> Inl (ScopePath e) | Inr _ \<Rightarrow> scopeLoop ps)"

definition validateScope :: "string option list Field \<Rightarrow> RequestError + unit" where
  "validateScope v = (case v of Absent \<Rightarrow> Inr () | WrongType \<Rightarrow> Inl ScopeNotArray
     | Is ps \<Rightarrow> if length ps > MAX_SCOPE_PATTERNS then Inl TooManyScopes else scopeLoop ps)"

text \<open>The value of a number that \<open>Number.isInteger\<close> accepts.\<close>

definition integerValue :: "js_number \<Rightarrow> int option" where
  "integerValue v = (case v of Fin q \<Rightarrow> if of_int \<lfloor>q\<rfloor> = q then Some \<lfloor>q\<rfloor> else None | _ \<Rightarrow> None)"

definition CODE_LOOP_TOTAL_WALL_MIN_S :: int where "CODE_LOOP_TOTAL_WALL_MIN_S = 90"
definition CODE_LOOP_TOTAL_WALL_MAX_S :: int where "CODE_LOOP_TOTAL_WALL_MAX_S = 900"

definition totalWallOk :: "js_number Field \<Rightarrow> bool" where
  "totalWallOk v = (case v of Absent \<Rightarrow> True | WrongType \<Rightarrow> False
     | Is x \<Rightarrow> (case integerValue x of None \<Rightarrow> False | Some n \<Rightarrow> CODE_LOOP_TOTAL_WALL_MIN_S \<le> n \<and> n \<le> CODE_LOOP_TOTAL_WALL_MAX_S))"

definition editDeadlineOk :: "js_number Field \<Rightarrow> bool" where
  "editDeadlineOk v = (case v of Absent \<Rightarrow> True | WrongType \<Rightarrow> False
     | Is x \<Rightarrow> (case integerValue x of None \<Rightarrow> False | Some n \<Rightarrow> 1 \<le> n))"

definition capField :: "(CodeLoopCapsRequest \<Rightarrow> js_number Field) \<Rightarrow> CodeLoopCapsRequest option \<Rightarrow> js_number Field" where
  "capField f caps = (case caps of None \<Rightarrow> Absent | Some c \<Rightarrow> f c)"

section \<open>The structural validation\<close>

definition validateSeeds :: "CodeLoopRequest \<Rightarrow> RequestError + string list" where
  "validateSeeds req =
     (case rq_files req of
        Is files \<Rightarrow>
          if files = [] then Inl FilesRequired
          else if length files > MAX_FILES then Inl TooManyFiles
          else (case seedLoop files [] 0 of
                  Inl e \<Rightarrow> Inl e
                | Inr (seen, bytes) \<Rightarrow> if bytes > MAX_TOTAL_BYTES then Inl SeedTooLarge else Inr seen)
      | _ \<Rightarrow> Inl FilesRequired)"

definition validateCodeLoopRequestStructure :: "CodeLoopRequest \<Rightarrow> RequestError + unit" where
  "validateCodeLoopRequestStructure req =
     (if \<not> parseExecutionTrafficPurpose (rq_traffic_purpose req) then Inl InvalidTrafficPurpose
      else if \<not> parseContentCaptureArgument (rq_content_capture req) then Inl InvalidContentCapture
      else if \<not> validateSchemaChecks (rq_schema_checks req) then Inl InvalidSchemaChecks
      else case validateClientRunId (rq_client_run_id req) of
        Inl e \<Rightarrow> Inl e
      | Inr _ \<Rightarrow>
          if (case rq_instruction req of Is s \<Rightarrow> js_trim s = '''' | _ \<Rightarrow> True) then Inl InstructionRequired
          else case validateSeeds req of
            Inl e \<Rightarrow> Inl e
          | Inr seen \<Rightarrow>
              case validateScope (rq_writable req) of
                Inl e \<Rightarrow> Inl e
              | Inr _ \<Rightarrow>
                  case validateScope (rq_protected req) of
                    Inl e \<Rightarrow> Inl e
                  | Inr _ \<Rightarrow>
                      if rq_writable req = Absent \<and> list_ex isGeneratedCodeLoopArtifact seen then Inl GeneratedSeed
                      else if \<not> totalWallOk (capField rq_total_wall_s (rq_caps req)) then Inl InvalidTotalWall
                      else if \<not> editDeadlineOk (capField rq_edit_deadline_turn (rq_caps req)) then Inl InvalidEditDeadline
                      else Inr ())"

section \<open>Caps\<close>

record CodeLoopCapsConfig =
  wallSDefault :: int
  wallSMax :: int
  turnsDefault :: int
  turnsMax :: int
  tokensDefault :: int
  tokensMax :: int

record CodeLoopCaps =
  wall_s :: int
  total_wall_s :: "js_number option"
  turns :: int
  completion_tokens :: int
  edit_deadline_turn :: "int option"

definition clampInt :: "js_number Field \<Rightarrow> int \<Rightarrow> int \<Rightarrow> int" where
  "clampInt v dflt mx = (case v of Is (Fin q) \<Rightarrow> min (max \<lfloor>q\<rfloor> 1) mx | _ \<Rightarrow> dflt)"

definition clampCaps :: "CodeLoopCapsRequest option \<Rightarrow> CodeLoopCapsConfig \<Rightarrow> CodeLoopCaps" where
  "clampCaps req c =
     (let tn = clampInt (capField rq_turns req) (turnsDefault c) (turnsMax c)
      in \<lparr>wall_s = clampInt (capField rq_wall_s req) (wallSDefault c) (wallSMax c),
          total_wall_s = (case capField rq_total_wall_s req of Is v \<Rightarrow> Some v | _ \<Rightarrow> None),
          turns = tn,
          completion_tokens = clampInt (capField rq_completion_tokens req) (tokensDefault c) (tokensMax c),
          edit_deadline_turn =
            (case capField rq_edit_deadline_turn req of
               Is v \<Rightarrow> (case integerValue v of Some n \<Rightarrow> if 1 \<le> n \<and> n \<le> tn then Some n else None | None \<Rightarrow> None)
             | _ \<Rightarrow> None)\<rparr>)"

text \<open>\<open>rawDeadline > caps.turns\<close>, which is false for \<open>NaN\<close>.\<close>

definition beyond :: "js_number Field \<Rightarrow> int \<Rightarrow> bool" where
  "beyond v n = (case v of Is (Fin q) \<Rightarrow> q > of_int n | Is Infinity \<Rightarrow> True | _ \<Rightarrow> False)"

definition validateCodeLoopCaps :: "CodeLoopCapsRequest option \<Rightarrow> CodeLoopCapsConfig \<Rightarrow> RequestError + CodeLoopCaps" where
  "validateCodeLoopCaps req c =
     (let caps = clampCaps req c
      in if beyond (capField rq_edit_deadline_turn req) (turns caps) then Inl EditDeadlineBeyondTurns else Inr caps)"

definition validateCodeLoopRequest :: "CodeLoopRequest \<Rightarrow> CodeLoopCapsConfig \<Rightarrow> RequestError + CodeLoopCaps" where
  "validateCodeLoopRequest req c =
     (case validateCodeLoopRequestStructure req of Inl e \<Rightarrow> Inl e | Inr _ \<Rightarrow> validateCodeLoopCaps (rq_caps req) c)"

section \<open>Scopes\<close>

text \<open>The callers of these run after the validation; \<open>None\<close> is the exception they would throw.\<close>

fun mapPaths :: "(string \<Rightarrow> PathError + string) \<Rightarrow> string option list \<Rightarrow> string list option" where
  "mapPaths f [] = Some []"
| "mapPaths f (None # ps) = None"
| "mapPaths f (Some p # ps) =
     (case f p of Inl _ \<Rightarrow> None | Inr q \<Rightarrow> map_option ((#) q) (mapPaths f ps))"

definition effectiveWritableGlobs :: "CodeLoopRequest \<Rightarrow> string list option" where
  "effectiveWritableGlobs req =
     (case rq_writable req of
        Absent \<Rightarrow> (case rq_files req of Is files \<Rightarrow> mapPaths (\<lambda>p. normalizeRelativeCodeLoopPath p False) (map sf_path files) | _ \<Rightarrow> None)
      | Is ps \<Rightarrow> mapPaths normalizeCodeLoopScopePattern ps
      | WrongType \<Rightarrow> None)"

definition normalizedProtectedGlobs :: "CodeLoopRequest \<Rightarrow> string list option" where
  "normalizedProtectedGlobs req =
     (case rq_protected req of Absent \<Rightarrow> Some [] | Is ps \<Rightarrow> mapPaths normalizeCodeLoopScopePattern ps | WrongType \<Rightarrow> None)"

section \<open>Harvest\<close>

record GitHarvest =
  allChangedFiles :: "string list"
  changedFiles :: "string list"
  scopeViolations :: "string list"
  admittedPathspecs :: "string list"

definition pushUnique :: "string \<Rightarrow> string list \<Rightarrow> string list" where
  "pushUnique v target = (if v \<in> set target then target else target @ [v])"

definition pushAll :: "string list \<Rightarrow> string list \<Rightarrow> string list" where
  "pushAll vs target = fold pushUnique vs target"

definition deliverable :: "string \<Rightarrow> bool" where
  "deliverable path \<longleftrightarrow> \<not> isGeneratedCodeLoopArtifact path \<and> \<not> isCodeLoopInternalPath path"

text \<open>
  What \<open>lstatSync\<close> and \<open>realpathSync\<close> answer for an absolute path: a symbolic link, another inode or an exception, of
  which \<open>ENOENT\<close> is told apart. The agent's process has ended, so that one answer serves the whole harvest.
\<close>

datatype Lstat = Symlink | Inode | NoEntry | LstatFails

datatype Realpath = RealPath "string list" | NoTarget | RealpathFails

record FileSystem =
  lstatSync :: "string list \<Rightarrow> Lstat"
  realpathSync :: "string list \<Rightarrow> Realpath"

text \<open>\<open>p === base || p.startsWith(base + sep)\<close>; for the root the second text has two separators and begins no path.\<close>

definition insideBase :: "string list \<Rightarrow> string list \<Rightarrow> bool" where
  "insideBase base p \<longleftrightarrow> p = base \<or> base \<noteq> [] \<and> take (length base) p = base"

text \<open>The body of the two \<open>try\<close> blocks; \<open>None\<close> if it ends with \<open>ENOENT\<close>.\<close>

definition probe :: "FileSystem \<Rightarrow> string list \<Rightarrow> string list \<Rightarrow> bool option" where
  "probe fs sandboxReal p =
     (case lstatSync fs p of
        Symlink \<Rightarrow> Some False
      | LstatFails \<Rightarrow> Some False
      | NoEntry \<Rightarrow> None
      | Inode \<Rightarrow> (case realpathSync fs p of
                    RealPath actual \<Rightarrow> Some (insideBase sandboxReal actual)
                  | NoTarget \<Rightarrow> None
                  | RealpathFails \<Rightarrow> Some False))"

lemma butlast_shorter: "p \<noteq> [] \<Longrightarrow> length (butlast p) < length p"
  by (cases p) auto

function parentSafe :: "FileSystem \<Rightarrow> string list \<Rightarrow> string list \<Rightarrow> string list \<Rightarrow> bool" where
  "parentSafe fs base sandboxReal parent =
     (if parent \<noteq> base \<and> insideBase base parent
      then case probe fs sandboxReal parent of Some r \<Rightarrow> r | None \<Rightarrow> parentSafe fs base sandboxReal (butlast parent)
      else parent = base)"
  by pat_completeness auto
termination by (relation "measure (\<lambda>(fs, base, sandboxReal, parent). length parent)") (auto simp: insideBase_def simp del: length_butlast intro!: butlast_shorter)

declare parentSafe.simps [simp del]

definition isSafeHarvestPath :: "FileSystem \<Rightarrow> string list \<Rightarrow> string \<Rightarrow> string list \<Rightarrow> bool" where
  "isSafeHarvestPath fs base relativePath sandboxReal =
     (let lexical = resolveParts (if starts_with ''/'' relativePath then [] else base) (splitOn (CHR ''/'') relativePath)
      in insideBase base lexical
         \<and> (case probe fs sandboxReal lexical of Some r \<Rightarrow> r | None \<Rightarrow> parentSafe fs base sandboxReal (butlast lexical)))"

definition harvestChange ::
  "FileSystem \<Rightarrow> string list \<Rightarrow> string list \<Rightarrow> string list \<Rightarrow> GitLogicalChange \<Rightarrow> GitHarvest \<Rightarrow> GitHarvest" where
  "harvestChange fs base sandboxReal writableGlobs change h =
     (case mapPaths (\<lambda>p. normalizeRelativeCodeLoopPath p False) (map Some (gc_paths change)) of
        None \<Rightarrow> h\<lparr>scopeViolations := pushAll (gc_paths change) (scopeViolations h)\<rparr>
      | Some paths \<Rightarrow>
          let h1 = h\<lparr>allChangedFiles := pushAll (filter (\<lambda>p. \<not> isGeneratedCodeLoopArtifact p) paths) (allChangedFiles h)\<rparr>;
              deliverablePaths = filter deliverable paths
          in if deliverablePaths = [] then h1
             else if length deliverablePaths = length paths
                     \<and> list_all (\<lambda>p. isSafeHarvestPath fs base p sandboxReal \<and> matchesAnyGlob p writableGlobs) paths
             then h1\<lparr>changedFiles := pushAll paths (changedFiles h1),
                     admittedPathspecs := pushAll (map ((@) '':(literal)'') paths) (admittedPathspecs h1)\<rparr>
             else h1\<lparr>scopeViolations := pushAll deliverablePaths (scopeViolations h1)\<rparr>)"

datatype HarvestError = HarvestGit GitError | SandboxGone

definition gitHarvest :: "FileSystem \<Rightarrow> string list \<Rightarrow> string list \<Rightarrow> string \<Rightarrow> HarvestError + GitHarvest" where
  "gitHarvest fs base writableGlobs stdout =
     (case parseGitNameStatusZ stdout of
        Inl e \<Rightarrow> Inl (HarvestGit e)
      | Inr changes \<Rightarrow>
          (case realpathSync fs base of
             RealPath sandboxReal \<Rightarrow> Inr (fold (harvestChange fs base sandboxReal writableGlobs) changes
               \<lparr>allChangedFiles = [], changedFiles = [], scopeViolations = [], admittedPathspecs = []\<rparr>)
           | _ \<Rightarrow> Inl SandboxGone))"

definition protectedViolations :: "GitHarvest \<Rightarrow> string list \<Rightarrow> string list" where
  "protectedViolations h protectedGlobs = filter (\<lambda>f. matchesAnyGlob f protectedGlobs) (allChangedFiles h)"

section \<open>Lemmas\<close>

lemma mapPaths_Some: "mapPaths f ps = Some qs \<Longrightarrow> length qs = length ps \<and> (\<forall>i < length ps. \<exists>p. ps ! i = Some p \<and> f p = Inr (qs ! i))"
proof (induction f ps arbitrary: qs rule: mapPaths.induct)
  case (3 f p ps)
  then show ?case by (auto simp: less_Suc_eq_0_disj split: sum.splits)
qed simp_all

lemma mapPaths_mem:
  assumes "mapPaths f ps = Some qs" and "q \<in> set qs"
  obtains p where "Some p \<in> set ps" and "f p = Inr q"
  using mapPaths_Some [OF assms(1)] assms(2) by (metis in_set_conv_nth)

lemma seedLoop_Cons:
  assumes "seedLoop (f # fs) seen bytes = Inr r"
  obtains path content q where "sf_path f = Some path" and "sf_content f = Some content"
    and "normalizeRelativeCodeLoopPath path False = Inr q" and "q \<notin> set seen"
    and "seedLoop fs (seen @ [q]) (bytes + byteLength content) = Inr r"
  using assms by (auto split: option.splits sum.splits if_splits)

lemma seedLoop_paths:
  "seedLoop fs seen bytes = Inr (seen', bytes') \<Longrightarrow>
     \<exists>qs. mapPaths (\<lambda>p. normalizeRelativeCodeLoopPath p False) (map sf_path fs) = Some qs \<and> seen' = seen @ qs"
proof (induction fs arbitrary: seen bytes)
  case (Cons f fs)
  from Cons.prems show ?case by (cases rule: seedLoop_Cons) (use Cons.IH in fastforce)
qed simp

lemma seedLoop_distinct: "seedLoop fs seen bytes = Inr (seen', bytes') \<Longrightarrow> distinct seen \<Longrightarrow> distinct seen'"
proof (induction fs arbitrary: seen bytes)
  case (Cons f fs)
  from Cons.prems(1) show ?case by (cases rule: seedLoop_Cons) (use Cons in fastforce)
qed simp

lemma scopeLoop_paths: "scopeLoop ps = Inr () \<Longrightarrow> \<exists>qs. mapPaths normalizeCodeLoopScopePattern ps = Some qs"
  by (induction ps rule: scopeLoop.induct) (auto split: sum.splits)

lemma validateScope_paths:
  "validateScope (Is ps) = Inr () \<Longrightarrow> \<exists>qs. mapPaths normalizeCodeLoopScopePattern ps = Some qs"
  by (auto simp: validateScope_def intro: scopeLoop_paths split: if_splits)

lemma set_pushAll [simp]: "set (pushAll vs target) = set vs \<union> set target"
  by (induction vs arbitrary: target) (auto simp: pushAll_def pushUnique_def)

lemma distinct_pushAll: "distinct target \<Longrightarrow> distinct (pushAll vs target)"
  by (induction vs arbitrary: target) (auto simp: pushAll_def pushUnique_def)

lemma pushAll_literal: "pushAll (map ((@) pre) vs) (map ((@) pre) target) = map ((@) pre) (pushAll vs target)"
proof (induction vs arbitrary: target)
  case (Cons v vs)
  have "pushUnique (pre @ v) (map ((@) pre) target) = map ((@) pre) (pushUnique v target)" by (auto simp: pushUnique_def)
  then show ?case using Cons by (simp add: pushAll_def)
qed (simp add: pushAll_def)

section \<open>Properties of admission\<close>

lemma literal_seed:
  assumes "normalizeRelativeCodeLoopPath p False = Inr q"
  shows "literalGlob q"
proof -
  obtain qs where qs: "q = joinWith (CHR ''/'') qs" "\<forall>p \<in> set qs. goodPart False p" using normalized_path [OF assms] by metis
  have "c \<noteq> CHR ''*'' \<and> c \<noteq> CHR ''?''" if "c \<in> set q" for c
    using that set_joinWith [of "CHR ''/''" qs] qs by (fastforce simp: goodPart_def globChar_def list_ex_iff)
  then show ?thesis by (auto simp: literalGlob_def list_ex_iff)
qed

lemma matches_literals:
  assumes "\<forall>g \<in> set gs. literalGlob g"
  shows "matchesAnyGlob path gs \<longleftrightarrow> path \<in> set gs"
  using assms by (auto simp: matchesAnyGlob_iff matches_literal)

lemma structure_parts:
  assumes "validateCodeLoopRequestStructure req = Inr ()"
  obtains files seen bytes where "rq_files req = Is files" and "seedLoop files [] 0 = Inr (seen, bytes)" and "bytes \<le> MAX_TOTAL_BYTES"
    and "length files \<le> MAX_FILES" and "files \<noteq> []"
    and "validateScope (rq_writable req) = Inr ()" and "validateScope (rq_protected req) = Inr ()"
    and "rq_writable req = Absent \<Longrightarrow> \<not> list_ex isGeneratedCodeLoopArtifact seen"
    and "\<exists>i. validateClientRunId (rq_client_run_id req) = Inr i"
    and "editDeadlineOk (capField rq_edit_deadline_turn (rq_caps req))"
  using assms unfolding validateCodeLoopRequestStructure_def validateSeeds_def
  by (auto split: if_splits sum.splits Field.splits prod.splits)

text \<open>
  An admitted request has usable scopes. When the structural validation passes, computing the writable and
  the protected scope and the caller id throws no exception; and without a writable scope of its own, what may be
  changed is exactly the set of seeded paths in normal form: distinct, at most sixty-four, none generated.
\<close>
lemma code_loop_admitted_scopes:
  assumes "validateCodeLoopRequestStructure req = Inr ()"
  shows "\<exists>gs ps i. effectiveWritableGlobs req = Some gs \<and> normalizedProtectedGlobs req = Some ps
     \<and> validateClientRunId (rq_client_run_id req) = Inr i
     \<and> (rq_writable req = Absent \<longrightarrow>
          distinct gs \<and> gs \<noteq> [] \<and> length gs \<le> 64 \<and> \<not> list_ex isGeneratedCodeLoopArtifact gs
          \<and> (\<forall>path. matchesAnyGlob path gs \<longleftrightarrow> path \<in> set gs))"
proof -
  obtain files seen bytes where files: "rq_files req = Is files" "seedLoop files [] 0 = Inr (seen, bytes)" "length files \<le> MAX_FILES" "files \<noteq> []"
    and scopes: "validateScope (rq_writable req) = Inr ()" "validateScope (rq_protected req) = Inr ()"
    and gen: "rq_writable req = Absent \<Longrightarrow> \<not> list_ex isGeneratedCodeLoopArtifact seen"
    and i: "\<exists>i. validateClientRunId (rq_client_run_id req) = Inr i"
    using structure_parts [OF assms] by metis
  have seeds: "mapPaths (\<lambda>p. normalizeRelativeCodeLoopPath p False) (map sf_path files) = Some seen"
    using seedLoop_paths [OF files(2)] by simp
  have protected': "\<exists>ps. normalizedProtectedGlobs req = Some ps"
    using scopes(2) validateScope_paths by (cases "rq_protected req") (auto simp: normalizedProtectedGlobs_def validateScope_def)
  show ?thesis
  proof (cases "rq_writable req")
    case Absent
    have "\<forall>g \<in> set seen. literalGlob g"
    proof
      fix g
      assume "g \<in> set seen"
      then obtain p where "normalizeRelativeCodeLoopPath p False = Inr g" using mapPaths_mem [OF seeds] by metis
      then show "literalGlob g" by (rule literal_seed)
    qed
    then have "matchesAnyGlob path seen \<longleftrightarrow> path \<in> set seen" for path by (rule matches_literals)
    moreover have "length seen = length files" using mapPaths_Some [OF seeds] by simp
    moreover have "distinct seen" using seedLoop_distinct [OF files(2)] by simp
    moreover have "effectiveWritableGlobs req = Some seen" using Absent files(1) seeds by (simp add: effectiveWritableGlobs_def)
    ultimately show ?thesis using Absent files(3,4) gen protected' i by (auto simp: MAX_FILES_def)
  next
    case (Is ws)
    then show ?thesis using scopes(1) validateScope_paths [of ws] protected' i by (auto simp: effectiveWritableGlobs_def)
  next
    case WrongType
    then show ?thesis using scopes(1) by (simp add: validateScope_def)
  qed
qed

lemma clampInt_bounds: "1 \<le> dflt \<Longrightarrow> dflt \<le> mx \<Longrightarrow> 1 \<le> clampInt v dflt mx \<and> clampInt v dflt mx \<le> mx"
  by (auto simp: clampInt_def split: Field.split js_number.split)

text \<open>
  The caps of an admitted run. Under a configuration whose defaults are positive and within their maxima, an
  accepted request runs with wall time, turns and tokens between one and the configured maxima, whatever numbers it
  asked for; and a deadline for the first edit is taken over exactly as asked or the request is refused.
\<close>
lemma code_loop_caps_bounded:
  assumes "validateCodeLoopRequest req c = Inr caps"
    and "1 \<le> wallSDefault c" "wallSDefault c \<le> wallSMax c" "1 \<le> turnsDefault c" "turnsDefault c \<le> turnsMax c"
      "1 \<le> tokensDefault c" "tokensDefault c \<le> tokensMax c"
  shows "wall_s caps \<in> {1..wallSMax c} \<and> turns caps \<in> {1..turnsMax c} \<and> completion_tokens caps \<in> {1..tokensMax c}
     \<and> edit_deadline_turn caps =
         (case capField rq_edit_deadline_turn (rq_caps req) of Is v \<Rightarrow> integerValue v | _ \<Rightarrow> None)
     \<and> (\<forall>n. edit_deadline_turn caps = Some n \<longrightarrow> n \<in> {1..turns caps})"
proof -
  have wf: "validateCodeLoopRequestStructure req = Inr ()" and caps: "caps = clampCaps (rq_caps req) c"
    and within: "\<not> beyond (capField rq_edit_deadline_turn (rq_caps req)) (turns caps)"
    using assms(1) by (auto simp: validateCodeLoopRequest_def validateCodeLoopCaps_def Let_def split: sum.splits if_splits)
  have deadline: "editDeadlineOk (capField rq_edit_deadline_turn (rq_caps req))" using structure_parts [OF wf] by metis
  have bounds: "wall_s caps \<in> {1..wallSMax c} \<and> turns caps \<in> {1..turnsMax c} \<and> completion_tokens caps \<in> {1..tokensMax c}"
    using caps assms(2-7) clampInt_bounds by (simp add: clampCaps_def Let_def)
  show ?thesis
  proof (cases "capField rq_edit_deadline_turn (rq_caps req)")
    case (Is v)
    then obtain n where n: "integerValue v = Some n" "1 \<le> n" using deadline by (auto simp: editDeadlineOk_def split: option.splits)
    then have "v = Fin (of_int n)" by (auto simp: integerValue_def split: js_number.splits if_splits)
    then have "n \<le> turns caps" using within Is by (simp add: beyond_def not_less)
    then show ?thesis using bounds n Is caps by (simp add: clampCaps_def Let_def)
  qed (use bounds caps deadline in \<open>simp_all add: clampCaps_def Let_def editDeadlineOk_def\<close>)
qed

section \<open>Properties of the harvest\<close>

text \<open>On texts the comparison of paths is the one of the source.\<close>

definition absolute :: "string list \<Rightarrow> string" where
  "absolute parts = CHR ''/'' # joinWith (CHR ''/'') parts"

lemma splitOn_middle: "splitOn c (s @ c # t) = splitOn c s @ splitOn c t"
proof (induction s)
  case (Cons x xs)
  then show ?case by (cases "splitOn c xs") auto
qed simp

lemma joinWith_append: "ps \<noteq> [] \<Longrightarrow> qs \<noteq> [] \<Longrightarrow> joinWith c (ps @ qs) = joinWith c ps @ c # joinWith c qs"
  by (induction c ps rule: joinWith.induct) (auto simp: joinWith_Cons)

lemma insideBase_text:
  assumes base: "\<forall>x \<in> set base. goodPart True x" and p: "\<forall>x \<in> set p. goodPart True x"
  shows "insideBase base p \<longleftrightarrow> absolute p = absolute base \<or> starts_with (absolute base @ ''/'') (absolute p)"
proof -
  let ?j = "joinWith (CHR ''/'')"
  have split: "splitOn (CHR ''/'') (?j ps) = ps" if "ps \<noteq> []" "\<forall>x \<in> set ps. goodPart True x" for ps
    using that by (simp add: split_join goodPart_def)
  have nil: "?j ps = [] \<longleftrightarrow> ps = []" if "\<forall>x \<in> set ps. goodPart True x" for ps
    using that by (cases ps) (auto simp: joinWith_Cons goodPart_def)
  have same: "?j p = ?j base \<longleftrightarrow> p = base"
    using split [OF _ p] split [OF _ base] nil [OF p] nil [OF base] by metis
  have below: "(\<exists>u. ?j p = ?j base @ CHR ''/'' # u) \<longleftrightarrow> p \<noteq> base \<and> base \<noteq> [] \<and> take (length base) p = base"
  proof
    assume "\<exists>u. ?j p = ?j base @ CHR ''/'' # u"
    then obtain u where u: "?j p = ?j base @ CHR ''/'' # u" by blast
    then have "p \<noteq> []" by auto
    then have "p = splitOn (CHR ''/'') (?j base) @ splitOn (CHR ''/'') u"
      using split [OF _ p] u by (simp add: splitOn_middle)
    moreover have "base \<noteq> []"
    proof
      assume "base = []"
      then have "'''' \<in> set p" using calculation by simp
      then show False using p by (auto simp: goodPart_def)
    qed
    ultimately show "p \<noteq> base \<and> base \<noteq> [] \<and> take (length base) p = base" using split [OF _ base] by simp
  next
    assume r: "p \<noteq> base \<and> base \<noteq> [] \<and> take (length base) p = base"
    then have "p = base @ drop (length base) p" by (metis append_take_drop_id)
    moreover have "drop (length base) p \<noteq> []" using r calculation by auto
    ultimately show "\<exists>u. ?j p = ?j base @ CHR ''/'' # u" using r joinWith_append by metis
  qed
  have "starts_with (absolute base @ ''/'') (absolute p) \<longleftrightarrow> (\<exists>u. ?j p = ?j base @ CHR ''/'' # u)"
    by (auto simp: starts_with_def absolute_def take_Suc_Cons) (metis append_take_drop_id append_Cons append_assoc append_Nil)+
  then show ?thesis using same below by (auto simp: insideBase_def absolute_def)
qed

text \<open>
  Where a path below the sandbox leads, without the search of the code: of its ancestors strictly below the
  sandbox and the path itself, the deepest that exists is no symbolic link and its real path is inside the real
  sandbox; or none of them exists.
\<close>

definition gone :: "FileSystem \<Rightarrow> string list \<Rightarrow> bool" where
  "gone fs p \<longleftrightarrow> lstatSync fs p = NoEntry \<or> lstatSync fs p = Inode \<and> realpathSync fs p = NoTarget"

definition leadsInside :: "FileSystem \<Rightarrow> string list \<Rightarrow> string list \<Rightarrow> string list \<Rightarrow> bool" where
  "leadsInside fs base sandboxReal parts \<longleftrightarrow>
     (\<exists>k \<le> length parts. (\<forall>j. k < j \<and> j \<le> length parts \<longrightarrow> gone fs (base @ take j parts))
        \<and> (k = 0 \<or> lstatSync fs (base @ take k parts) = Inode
                   \<and> (\<exists>actual. realpathSync fs (base @ take k parts) = RealPath actual \<and> insideBase sandboxReal actual)))"

lemma probe_None: "probe fs rbase p = None \<longleftrightarrow> gone fs p"
  by (auto simp: probe_def gone_def split: Lstat.splits Realpath.splits)

lemma probe_True:
  "probe fs rbase p = Some True \<longleftrightarrow> lstatSync fs p = Inode \<and> (\<exists>actual. realpathSync fs p = RealPath actual \<and> insideBase rbase actual)"
  by (auto simp: probe_def split: Lstat.splits Realpath.splits)

lemma leadsInside_Nil: "leadsInside fs base rbase []"
  by (simp add: leadsInside_def)

lemma leadsInside_snoc:
  "leadsInside fs base rbase (parts @ [x]) \<longleftrightarrow>
     (case probe fs rbase (base @ parts @ [x]) of Some r \<Rightarrow> r | None \<Rightarrow> leadsInside fs base rbase parts)"
proof (cases "probe fs rbase (base @ parts @ [x])")
  case None
  let ?n = "length (parts @ [x])"
  have gone: "gone fs (base @ parts @ [x])" using None by (simp add: probe_None)
  then have not: "\<not> (lstatSync fs (base @ parts @ [x]) = Inode \<and> (\<exists>a. realpathSync fs (base @ parts @ [x]) = RealPath a \<and> insideBase rbase a))"
    by (auto simp: gone_def)
  have take: "take j (parts @ [x]) = take j parts" if "j \<le> length parts" for j using that by simp
  have "leadsInside fs base rbase (parts @ [x]) \<longleftrightarrow> leadsInside fs base rbase parts"
    unfolding leadsInside_def
    by (intro iffI; elim exE conjE; rename_tac k; rule_tac x = k in exI)
      (use not gone take in \<open>auto simp: le_Suc_eq\<close>)
  then show ?thesis using None by simp
next
  case (Some r)
  then have ngone: "\<not> gone fs (base @ parts @ [x])" using probe_None [of fs rbase "base @ parts @ [x]"] by simp
  have "k = Suc (length parts)" if "k \<le> Suc (length parts)"
    "\<forall>j. k < j \<and> j \<le> Suc (length parts) \<longrightarrow> gone fs (base @ take j (parts @ [x]))" for k
    using that ngone by (metis append_eq_conv_conj append_take_drop_id dual_order.order_iff_strict length_append_singleton order_refl take_all_iff)
  then have "leadsInside fs base rbase (parts @ [x]) \<longleftrightarrow> probe fs rbase (base @ parts @ [x]) = Some True"
    unfolding leadsInside_def probe_True by fastforce
  then show ?thesis using Some by simp
qed

lemma insideBase_append: "base \<noteq> [] \<Longrightarrow> insideBase base (base @ parts)"
  by (simp add: insideBase_def)

lemma parentSafe_iff: "base \<noteq> [] \<Longrightarrow> parentSafe fs base rbase (base @ parts) \<longleftrightarrow> leadsInside fs base rbase parts"
proof (induction parts rule: rev_induct)
  case Nil
  then show ?case by (simp add: parentSafe.simps leadsInside_Nil)
next
  case (snoc x parts)
  then show ?case
    by (subst parentSafe.simps) (simp add: insideBase_append leadsInside_snoc butlast_append split: option.split)
qed

lemma isSafeHarvestPath_iff:
  assumes "normalizeRelativeCodeLoopPath value False = Inr q"
  shows "isSafeHarvestPath fs base q rbase \<longleftrightarrow> base \<noteq> [] \<and> leadsInside fs base rbase (splitOn (CHR ''/'') q)"
proof -
  obtain qs where qs: "qs \<noteq> []" "splitOn (CHR ''/'') q = qs" "\<forall>p \<in> set qs. goodPart False p" "\<not> starts_with ''/'' q"
    using normalized_path [OF assms] by metis
  have lexical: "resolveParts base qs = base @ qs"
    using normalizeParts_resolve [OF normalizeParts_id [OF qs(3), of "[]"], of base] by simp
  obtain ps x where snoc: "qs = ps @ [x]" using qs(1) by (cases qs rule: rev_cases) auto
  show ?thesis
    using qs(4) lexical parentSafe_iff [of base fs rbase ps]
    by (auto simp: isSafeHarvestPath_def qs(2) snoc insideBase_append leadsInside_snoc butlast_append insideBase_def split: option.split)
qed

text \<open>The normal forms of the paths of one change.\<close>

definition normalises :: "GitLogicalChange \<Rightarrow> string list \<Rightarrow> bool" where
  "normalises change paths \<longleftrightarrow> list_all2 (\<lambda>raw q. normalizeRelativeCodeLoopPath raw False = Inr q) (gc_paths change) paths"

lemma mapPaths_all2: "mapPaths f (map Some raws) = Some qs \<longleftrightarrow> list_all2 (\<lambda>raw q. f raw = Inr q) raws qs"
  by (induction raws arbitrary: qs) (auto simp: list_all2_Cons1 split: sum.splits)

lemma mapPaths_none: "mapPaths f (map Some raws) = None \<longleftrightarrow> (\<exists>raw \<in> set raws. \<exists>e. f raw = Inl e)"
  by (induction raws) (auto split: sum.splits)

text \<open>A path may be returned: neither generated nor the harness's own, in the writable scope, and leading inside the sandbox.\<close>

definition admittedPath :: "FileSystem \<Rightarrow> string list \<Rightarrow> string list \<Rightarrow> string list \<Rightarrow> string \<Rightarrow> bool" where
  "admittedPath fs base rbase globs q \<longleftrightarrow> \<not> isGeneratedCodeLoopArtifact q \<and> q \<noteq> ''.meta.json''
     \<and> (\<exists>g \<in> set globs. q \<in> globLang (globToRegExp g)) \<and> base \<noteq> [] \<and> leadsInside fs base rbase (splitOn (CHR ''/'') q)"

definition returnedPaths :: "FileSystem \<Rightarrow> string list \<Rightarrow> string list \<Rightarrow> string list \<Rightarrow> GitLogicalChange \<Rightarrow> string set" where
  "returnedPaths fs base rbase globs change =
     {p. \<exists>paths. normalises change paths \<and> p \<in> set paths \<and> (\<forall>q \<in> set paths. admittedPath fs base rbase globs q)}"

definition reportedPaths :: "FileSystem \<Rightarrow> string list \<Rightarrow> string list \<Rightarrow> string list \<Rightarrow> GitLogicalChange \<Rightarrow> string set" where
  "reportedPaths fs base rbase globs change =
     {p. p \<in> set (gc_paths change) \<and> (\<exists>raw \<in> set (gc_paths change). \<exists>e. normalizeRelativeCodeLoopPath raw False = Inl e)
       \<or> (\<exists>paths. normalises change paths \<and> p \<in> set paths \<and> \<not> isGeneratedCodeLoopArtifact p \<and> p \<noteq> ''.meta.json''
            \<and> (\<exists>q \<in> set paths. \<not> admittedPath fs base rbase globs q))}"

definition visiblePaths :: "GitLogicalChange \<Rightarrow> string set" where
  "visiblePaths change = {p. \<exists>paths. normalises change paths \<and> p \<in> set paths \<and> \<not> isGeneratedCodeLoopArtifact p}"

lemma normalises_unique: "normalises change ps \<Longrightarrow> normalises change qs \<longleftrightarrow> qs = ps"
  unfolding normalises_def mapPaths_all2 [symmetric] by auto

lemma length_filter_all: "length (filter P xs) = length xs \<longleftrightarrow> (\<forall>x \<in> set xs. P x)"
  by (metis filter_id_conv length_filter_less less_irrefl)

lemma harvest_admits:
  assumes "normalises change paths"
  shows "length (filter deliverable paths) = length paths
      \<and> list_all (\<lambda>p. isSafeHarvestPath fs base p rbase \<and> matchesAnyGlob p globs) paths
    \<longleftrightarrow> (\<forall>q \<in> set paths. admittedPath fs base rbase globs q)"
proof -
  have safe: "isSafeHarvestPath fs base q rbase \<longleftrightarrow> base \<noteq> [] \<and> leadsInside fs base rbase (splitOn (CHR ''/'') q)"
    if mem: "q \<in> set paths" for q
  proof -
    obtain i where "i < length paths" and "paths ! i = q" using mem by (auto simp: in_set_conv_nth)
    then have "normalizeRelativeCodeLoopPath (gc_paths change ! i) False = Inr q"
      using list_all2_nthD2 [OF assms [unfolded normalises_def]] by simp
    then show ?thesis by (rule isSafeHarvestPath_iff)
  qed
  show ?thesis
    by (auto simp: length_filter_all list_all_iff admittedPath_def deliverable_def isCodeLoopInternalPath_def matchesAnyGlob_iff safe)
qed

lemma harvestChange_sets:
  "set (changedFiles (harvestChange fs base rbase globs change h)) = set (changedFiles h) \<union> returnedPaths fs base rbase globs change \<and>
   set (scopeViolations (harvestChange fs base rbase globs change h)) = set (scopeViolations h) \<union> reportedPaths fs base rbase globs change \<and>
   set (allChangedFiles (harvestChange fs base rbase globs change h)) = set (allChangedFiles h) \<union> visiblePaths change"
proof (cases "mapPaths (\<lambda>p. normalizeRelativeCodeLoopPath p False) (map Some (gc_paths change))")
  case None
  then have "\<not> normalises change paths" for paths unfolding normalises_def mapPaths_all2 [symmetric] by simp
  moreover have "\<exists>raw \<in> set (gc_paths change). \<exists>e. normalizeRelativeCodeLoopPath raw False = Inl e"
    using None mapPaths_none [of "\<lambda>p. normalizeRelativeCodeLoopPath p False" "gc_paths change"] by simp
  ultimately show ?thesis unfolding harvestChange_def None option.case by (auto simp: returnedPaths_def reportedPaths_def visiblePaths_def)
next
  case (Some paths)
  then have n: "normalises change paths" by (simp add: normalises_def mapPaths_all2)
  have fine: "\<not> (\<exists>raw \<in> set (gc_paths change). \<exists>e. normalizeRelativeCodeLoopPath raw False = Inl e)"
    using Some mapPaths_none [of "\<lambda>p. normalizeRelativeCodeLoopPath p False" "gc_paths change"] by auto
  have sets:
    "returnedPaths fs base rbase globs change = (if \<forall>q \<in> set paths. admittedPath fs base rbase globs q then set paths else {})"
    "reportedPaths fs base rbase globs change = (if \<forall>q \<in> set paths. admittedPath fs base rbase globs q then {} else set (filter deliverable paths))"
    "visiblePaths change = set (filter (\<lambda>p. \<not> isGeneratedCodeLoopArtifact p) paths)"
    using fine by (auto simp: returnedPaths_def reportedPaths_def visiblePaths_def normalises_unique [OF n] deliverable_def isCodeLoopInternalPath_def)
  have none: "filter deliverable paths = [] \<Longrightarrow> (\<forall>q \<in> set paths. admittedPath fs base rbase globs q) \<Longrightarrow> paths = []"
    by (cases paths) (auto simp: admittedPath_def deliverable_def isCodeLoopInternalPath_def split: if_splits)
  show ?thesis
    unfolding harvestChange_def Some option.case Let_def harvest_admits [OF n] sets using none by (auto simp: filter_empty_conv)
qed

lemma harvest_fold_sets:
  "set (changedFiles (fold (harvestChange fs base rbase globs) changes h))
       = set (changedFiles h) \<union> (\<Union>c \<in> set changes. returnedPaths fs base rbase globs c) \<and>
   set (scopeViolations (fold (harvestChange fs base rbase globs) changes h))
       = set (scopeViolations h) \<union> (\<Union>c \<in> set changes. reportedPaths fs base rbase globs c) \<and>
   set (allChangedFiles (fold (harvestChange fs base rbase globs) changes h))
       = set (allChangedFiles h) \<union> (\<Union>c \<in> set changes. visiblePaths c)"
  by (induction changes arbitrary: h) (simp_all add: harvestChange_sets Un_assoc)

lemma harvest_fold_literal:
  "admittedPathspecs h = map ((@) '':(literal)'') (changedFiles h) \<Longrightarrow>
   admittedPathspecs (fold (harvestChange fs base rbase globs) changes h)
     = map ((@) '':(literal)'') (changedFiles (fold (harvestChange fs base rbase globs) changes h))"
  by (induction changes arbitrary: h) (simp_all add: harvestChange_def Let_def pushAll_literal split: option.split)

text \<open>
  C20: what the harvest returns, reports and drops. The text is Git's list of some changes. A path is returned
  exactly if it is the normal form of a path of a change all of whose paths have one and are neither generated nor
  the harness's own, match a writable glob, and lead inside the sandbox: the deepest ancestor below the sandbox
  that exists, or the path itself, is no symbolic link and its real path is inside the real sandbox, or nothing of
  it exists. Reported are exactly the raw paths of a change with a path that has no normal form, and the paths
  neither generated nor internal of the other changes that are not returned as a whole; their generated and internal paths
  are dropped without a report. All changed files are the normal forms that are not generated, and the diff is asked for
  exactly the returned paths, literally.
\<close>
theorem code_loop_harvest_scope:
  assumes "gitHarvest fs base globs stdout = Inr h"
  shows "\<exists>changes rbase. stdout = printChanges changes \<and> list_all wfChange changes \<and> realpathSync fs base = RealPath rbase
     \<and> set (changedFiles h) = (\<Union>c \<in> set changes. returnedPaths fs base rbase globs c)
     \<and> set (scopeViolations h) = (\<Union>c \<in> set changes. reportedPaths fs base rbase globs c)
     \<and> set (allChangedFiles h) = (\<Union>c \<in> set changes. visiblePaths c)
     \<and> admittedPathspecs h = map ((@) '':(literal)'') (changedFiles h)"
proof -
  let ?empty = "\<lparr>allChangedFiles = [], changedFiles = [], scopeViolations = [], admittedPathspecs = []\<rparr>"
  obtain changes rbase where changes: "parseGitNameStatusZ stdout = Inr changes" and rbase: "realpathSync fs base = RealPath rbase"
    and h: "h = fold (harvestChange fs base rbase globs) changes ?empty"
    using assms by (auto simp: gitHarvest_def split: sum.splits Realpath.splits)
  have "stdout = printChanges changes \<and> list_all wfChange changes" using changes git_framing by blast
  moreover have "admittedPathspecs h = map ((@) '':(literal)'') (changedFiles h)" unfolding h by (rule harvest_fold_literal) simp
  ultimately show ?thesis using rbase harvest_fold_sets [of fs base rbase globs changes ?empty] by (intro exI [of _ changes] exI [of _ rbase]) (simp add: h)
qed

section \<open>Witnesses\<close>

definition wRequest :: CodeLoopRequest where
  "wRequest = \<lparr>rq_traffic_purpose = Absent, rq_client_run_id = Is ''run-1'', rq_instruction = Is ''fix it'',
     rq_files = Is [\<lparr>sf_path = Some ''./src/a.ts'', sf_content = Some ''x''\<rparr>], rq_schema_checks = Absent, rq_writable = Absent,
     rq_protected = Is [Some ''test/**''],
     rq_caps = Some \<lparr>rq_wall_s = Is Infinity, rq_total_wall_s = Absent, rq_turns = Is (Fin (1000 / 3)), rq_completion_tokens = Absent,
                     rq_edit_deadline_turn = Is (Fin 4)\<rparr>,
     rq_content_capture = Is ''none''\<rparr>"

definition wCapsConfig :: CodeLoopCapsConfig where
  "wCapsConfig = \<lparr>wallSDefault = 300, wallSMax = 900, turnsDefault = 20, turnsMax = 40, tokensDefault = 1000, tokensMax = 2000\<rparr>"

lemma wRequest_parts:
  "seedLoop [\<lparr>sf_path = Some ''./src/a.ts'', sf_content = Some ''x''\<rparr>] [] 0 = Inr ([''src/a.ts''], 1)"
  "clientRunIdOk ''run-1''" "js_trim ''fix it'' \<noteq> []" "scopeLoop [Some ''test/**''] = Inr ()" "\<not> isGeneratedCodeLoopArtifact ''src/a.ts''"
  by code_simp+

lemma wRequest_valid: "validateCodeLoopRequestStructure wRequest = Inr ()"
  using wRequest_parts
  by (simp add: validateCodeLoopRequestStructure_def validateSeeds_def validateScope_def validateClientRunId_def validateSchemaChecks_def
      parseExecutionTrafficPurpose_def parseContentCaptureArgument_def totalWallOk_def editDeadlineOk_def capField_def integerValue_def
      wRequest_def MAX_FILES_def MAX_TOTAL_BYTES_def MAX_SCOPE_PATTERNS_def del: seedLoop.simps scopeLoop.simps)

lemma code_loop_admitted_scopes_witness: "\<exists>gs. effectiveWritableGlobs wRequest = Some gs \<and> distinct gs \<and> gs \<noteq> []"
  using code_loop_admitted_scopes [OF wRequest_valid] by (auto simp: wRequest_def)

lemma code_loop_caps_bounded_witness:
  "\<exists>caps. validateCodeLoopRequest wRequest wCapsConfig = Inr caps \<and> turns caps \<in> {1..40} \<and> edit_deadline_turn caps = Some 4"
proof -
  have "validateCodeLoopRequest wRequest wCapsConfig = Inr (clampCaps (rq_caps wRequest) wCapsConfig)"
    unfolding validateCodeLoopRequest_def wRequest_valid
    by (simp add: validateCodeLoopCaps_def beyond_def capField_def clampCaps_def clampInt_def wRequest_def wCapsConfig_def)
  moreover have "capField rq_edit_deadline_turn (rq_caps wRequest) = Is (Fin 4)" by (simp add: capField_def wRequest_def)
  ultimately show ?thesis
    using code_loop_caps_bounded [of wRequest wCapsConfig "clampCaps (rq_caps wRequest) wCapsConfig"]
    by (auto simp: wCapsConfig_def integerValue_def)
qed

definition wModified :: GitLogicalChange where "wModified = \<lparr>gc_status = ''M'', gc_paths = [''src/a'']\<rparr>"
definition wAdded :: GitLogicalChange where "wAdded = \<lparr>gc_status = ''A'', gc_paths = [''out'']\<rparr>"

definition wHarvest :: "string list \<Rightarrow> string list \<Rightarrow> GitHarvest" where
  "wHarvest al vs = \<lparr>allChangedFiles = al, changedFiles = [''src/a''], scopeViolations = vs, admittedPathspecs = ['':(literal)src/a'']\<rparr>"

text \<open>A sandbox in which \<open>src/a\<close> exists and \<open>out\<close> is a symbolic link.\<close>

definition wDisk :: FileSystem where
  "wDisk = \<lparr>lstatSync = (\<lambda>p. if p = [''w'', ''out''] then Symlink else if p = [''w'', ''src'', ''a''] then Inode else NoEntry),
     realpathSync = (\<lambda>p. if p = [''w''] \<or> p = [''w'', ''src'', ''a''] then RealPath (''mnt'' # p) else NoTarget)\<rparr>"

lemma wHarvest_run:
  "gitHarvest wDisk [''w''] [''src/**'', ''out''] (printChanges [wModified, wAdded]) = Inr (wHarvest [''src/a'', ''out''] [''out''])"
proof -
  let ?step = "harvestChange wDisk [''w''] [''mnt'', ''w''] [''src/**'', ''out'']"
  have "parseGitNameStatusZ (printChanges [wModified, wAdded]) = Inr [wModified, wAdded]" by code_simp
  moreover have "realpathSync wDisk [''w''] = RealPath [''mnt'', ''w'']" by (simp add: wDisk_def)
  moreover have "?step wModified \<lparr>allChangedFiles = [], changedFiles = [], scopeViolations = [], admittedPathspecs = []\<rparr> = wHarvest [''src/a''] []"
    by code_simp
  moreover have "?step wAdded (wHarvest [''src/a''] []) = wHarvest [''src/a'', ''out''] [''out'']" by code_simp
  ultimately show ?thesis by (simp add: gitHarvest_def)
qed

theorem code_loop_harvest_scope_witness:
  "\<exists>changes rbase. printChanges [wModified, wAdded] = printChanges changes \<and> realpathSync wDisk [''w''] = RealPath rbase
     \<and> {''src/a''} = (\<Union>c \<in> set changes. returnedPaths wDisk [''w''] rbase [''src/**'', ''out''] c)
     \<and> {''out''} = (\<Union>c \<in> set changes. reportedPaths wDisk [''w''] rbase [''src/**'', ''out''] c)"
  using code_loop_harvest_scope [OF wHarvest_run] by (auto simp: wHarvest_def)

end
