(* ===== verification/Learning_Admission.thy ===== *)
theory Learning_Admission
  imports Route_Database JS_Strings
begin

text \<open>
  The admission records of learning tasks, \<open>src/homeserver/learning-task-admission-store.ts\<close>: one table with three
  natural keys per authenticated principal. A claim reads and inserts in one immediate transaction. SQLite may
  answer a query with \<open>LIMIT 1\<close> by any row that qualifies; \<open>pick\<close> is that choice. A row is read through
  \<open>gatewayEchoSchema.safeParse\<close> of the zod package, which keeps the value it accepts: \<open>zod\<close> says which echoes it accepts.
\<close>

section \<open>Records\<close>

datatype AdmissionSurface = SurfDelegate | SurfCodeLoop

text \<open>What the store reads of the echo; the rest is carried as text.\<close>

record GatewayEcho =
  authenticated_principal_id :: string
  admitted_at :: string
  st_expected_transport_principal_id :: string
  st_client_id :: string
  st_task_instance_id :: string
  st_attempt_id :: string
  st_request_id :: string
  st_idempotency_key :: string
  echo_rest :: string

record AdmissionIdentity =
  principalId :: string
  clientId :: string
  taskInstanceId :: string
  attemptId :: string
  requestId :: string
  idempotencyKey :: string
  requestFingerprint :: string
  surface :: AdmissionSurface

record LearningTaskAdmission =
  admissionRecordId :: string
  adm_identity :: AdmissionIdentity
  gatewayEcho :: GatewayEcho

type_synonym AdmissionTable = "LearningTaskAdmission list"

datatype AdmissionAnswer = NoAdmission | ClaimedAdmission LearningTaskAdmission | ExistingAdmission LearningTaskAdmission
  | ConflictAdmission LearningTaskAdmission

datatype AdmissionError = BadFingerprint | EchoMismatch | InvalidEcho | ConstraintViolation

definition assertIdentity :: "AdmissionIdentity \<Rightarrow> bool" where
  "assertIdentity i \<longleftrightarrow> validDigest (requestFingerprint i)"

definition echoMatches :: "AdmissionIdentity \<Rightarrow> GatewayEcho \<Rightarrow> bool" where
  "echoMatches i e \<longleftrightarrow>
     authenticated_principal_id e = principalId i \<and> st_expected_transport_principal_id e = principalId i
     \<and> st_client_id e = clientId i \<and> st_task_instance_id e = taskInstanceId i \<and> st_attempt_id e = attemptId i
     \<and> st_request_id e = requestId i \<and> st_idempotency_key e = idempotencyKey i"

section \<open>Operations\<close>

definition collides :: "AdmissionIdentity \<Rightarrow> AdmissionIdentity \<Rightarrow> bool" where
  "collides i j \<longleftrightarrow> principalId i = principalId j
     \<and> (idempotencyKey i = idempotencyKey j \<or> taskInstanceId i = taskInstanceId j \<and> attemptId i = attemptId j \<or> requestId i = requestId j)"

definition sameAdmission :: "LearningTaskAdmission \<Rightarrow> AdmissionIdentity \<Rightarrow> bool" where
  "sameAdmission r i \<longleftrightarrow> adm_identity r = i"

text \<open>\<open>pick n\<close>: the index SQLite answers with among \<open>n\<close> qualifying rows.\<close>

definition limitOne :: "(nat \<Rightarrow> nat) \<Rightarrow> 'a list \<Rightarrow> 'a option" where
  "limitOne pick rows = (if rows = [] then None else Some (rows ! (pick (length rows) mod length rows)))"

definition rowToAdmission ::
  "(GatewayEcho \<Rightarrow> bool) \<Rightarrow> LearningTaskAdmission option \<Rightarrow> AdmissionError + LearningTaskAdmission option" where
  "rowToAdmission zod row = (case row of
       Some r \<Rightarrow> if zod (gatewayEcho r) then Inr (Some r) else Inl InvalidEcho
     | None \<Rightarrow> Inr None)"

definition collisionRow :: "(nat \<Rightarrow> nat) \<Rightarrow> AdmissionIdentity \<Rightarrow> AdmissionTable \<Rightarrow> LearningTaskAdmission option" where
  "collisionRow pick i db = limitOne pick (filter (\<lambda>r. collides (adm_identity r) i) db)"

definition findCollision ::
  "(GatewayEcho \<Rightarrow> bool) \<Rightarrow> (nat \<Rightarrow> nat) \<Rightarrow> AdmissionIdentity \<Rightarrow> AdmissionTable \<Rightarrow> AdmissionError + LearningTaskAdmission option" where
  "findCollision zod pick i db = rowToAdmission zod (collisionRow pick i db)"

definition lookupLearningTaskAdmission ::
  "(GatewayEcho \<Rightarrow> bool) \<Rightarrow> (nat \<Rightarrow> nat) \<Rightarrow> AdmissionIdentity \<Rightarrow> AdmissionTable \<Rightarrow> AdmissionError + AdmissionAnswer" where
  "lookupLearningTaskAdmission zod pick i db =
     (if \<not> assertIdentity i then Inl BadFingerprint
      else case findCollision zod pick i db of
             Inl err \<Rightarrow> Inl err
           | Inr None \<Rightarrow> Inr NoAdmission
           | Inr (Some r) \<Rightarrow> Inr (if sameAdmission r i then ExistingAdmission r else ConflictAdmission r))"

definition claimLearningTaskAdmission ::
  "(GatewayEcho \<Rightarrow> bool) \<Rightarrow> (nat \<Rightarrow> nat) \<Rightarrow> string \<Rightarrow> AdmissionIdentity \<Rightarrow> GatewayEcho \<Rightarrow> AdmissionTable
    \<Rightarrow> (AdmissionError + AdmissionAnswer) \<times> AdmissionTable" where
  "claimLearningTaskAdmission zod pick uuid i e db =
     (if \<not> assertIdentity i then (Inl BadFingerprint, db)
      else if \<not> echoMatches i e then (Inl EchoMismatch, db)
      else case findCollision zod pick i db of
             Inl err \<Rightarrow> (Inl err, db)
           | Inr (Some r) \<Rightarrow> (Inr (if sameAdmission r i then ExistingAdmission r else ConflictAdmission r), db)
           | Inr None \<Rightarrow>
               let r = \<lparr>admissionRecordId = uuid, adm_identity = i, gatewayEcho = e\<rparr>
               in if list_ex (\<lambda>x. admissionRecordId x = uuid) db then (Inl ConstraintViolation, db)
                  else (Inr (ClaimedAdmission r), db @ [r]))"

text \<open>\<open>ORDER BY created_at DESC LIMIT 1\<close>: one of the rows with the latest admission.\<close>

definition getLearningTaskAdmissionByAttempt ::
  "(GatewayEcho \<Rightarrow> bool) \<Rightarrow> (nat \<Rightarrow> nat) \<Rightarrow> string \<Rightarrow> string \<Rightarrow> AdmissionTable \<Rightarrow> AdmissionError + LearningTaskAdmission option" where
  "getLearningTaskAdmissionByAttempt zod pick task attempt db =
     (let rows = filter (\<lambda>r. taskInstanceId (adm_identity r) = task \<and> attemptId (adm_identity r) = attempt) db
      in rowToAdmission zod
           (limitOne pick (filter (\<lambda>r. list_all (\<lambda>x. admitted_at (gatewayEcho x) \<le> admitted_at (gatewayEcho r)) rows) rows)))"

definition getLearningTaskAdmissionById ::
  "(GatewayEcho \<Rightarrow> bool) \<Rightarrow> string \<Rightarrow> AdmissionTable \<Rightarrow> AdmissionError + LearningTaskAdmission option" where
  "getLearningTaskAdmissionById zod rid db = rowToAdmission zod (find (\<lambda>r. admissionRecordId r = rid) db)"

definition releaseLearningTaskAdmission :: "string \<Rightarrow> AdmissionTable \<Rightarrow> bool \<times> AdmissionTable" where
  "releaseLearningTaskAdmission rid db =
     (list_ex (\<lambda>r. admissionRecordId r = rid) db, filter (\<lambda>r. admissionRecordId r \<noteq> rid) db)"

section \<open>Runs\<close>

datatype AdmissionOp =
    AClaim "nat \<Rightarrow> nat" string AdmissionIdentity GatewayEcho
  | ARelease string

fun adm_exec :: "(GatewayEcho \<Rightarrow> bool) \<Rightarrow> AdmissionOp \<Rightarrow> AdmissionTable \<Rightarrow> AdmissionTable" where
  "adm_exec zod (AClaim pick uuid i e) db = snd (claimLearningTaskAdmission zod pick uuid i e db)"
| "adm_exec zod (ARelease rid) db = snd (releaseLearningTaskAdmission rid db)"

definition adm_run :: "(GatewayEcho \<Rightarrow> bool) \<Rightarrow> AdmissionOp list \<Rightarrow> AdmissionTable" where
  "adm_run zod ops = fold (adm_exec zod) ops []"

text \<open>The constraints of the table, and the binding of every row to its principal.\<close>

definition admissionsOk :: "AdmissionTable \<Rightarrow> bool" where
  "admissionsOk db \<longleftrightarrow> distinct (map admissionRecordId db)
     \<and> (\<forall>r \<in> set db. \<forall>x \<in> set db. collides (adm_identity r) (adm_identity x) \<longrightarrow> r = x)
     \<and> (\<forall>r \<in> set db. echoMatches (adm_identity r) (gatewayEcho r) \<and> assertIdentity (adm_identity r))"

lemma limitOne_iff: "limitOne pick rows = None \<longleftrightarrow> rows = []" "limitOne pick rows = Some r \<Longrightarrow> r \<in> set rows"
  by (auto simp: limitOne_def split: if_splits)

lemma collisionRow_None: "collisionRow pick i db = None \<longleftrightarrow> \<not> list_ex (\<lambda>r. collides (adm_identity r) i) db"
  by (auto simp: collisionRow_def limitOne_iff filter_empty_conv list_ex_iff)

lemma collisionRow_Some: "collisionRow pick i db = Some r \<Longrightarrow> r \<in> set db \<and> collides (adm_identity r) i"
  by (auto simp: collisionRow_def dest: limitOne_iff(2))

lemma findCollision_cases:
  "findCollision zod pick i db = Inr None \<longleftrightarrow> collisionRow pick i db = None"
  "findCollision zod pick i db = Inr (Some r) \<longleftrightarrow> collisionRow pick i db = Some r \<and> zod (gatewayEcho r)"
  by (auto simp: findCollision_def rowToAdmission_def split: option.splits)

lemma collides_refl [simp]: "collides i i"
  and collides_sym: "collides i j \<longleftrightarrow> collides j i"
  by (auto simp: collides_def)

lemma admissionsOk_claim:
  assumes "admissionsOk db"
  shows "admissionsOk (snd (claimLearningTaskAdmission zod pick uuid i e db))"
proof (cases "assertIdentity i \<and> echoMatches i e \<and> findCollision zod pick i db = Inr None \<and> \<not> list_ex (\<lambda>x. admissionRecordId x = uuid) db")
  case True
  then have fresh: "\<forall>r \<in> set db. \<not> collides (adm_identity r) i \<and> admissionRecordId r \<noteq> uuid"
    by (auto simp: findCollision_cases collisionRow_None list_ex_iff)
  show ?thesis using assms True fresh
    by (auto simp: admissionsOk_def claimLearningTaskAdmission_def collides_sym [of i] Let_def)
qed (use assms in \<open>auto simp: claimLearningTaskAdmission_def Let_def split: option.split sum.split\<close>)

lemma admissionsOk_release: "admissionsOk db \<Longrightarrow> admissionsOk (snd (releaseLearningTaskAdmission rid db))"
  by (auto simp: admissionsOk_def releaseLearningTaskAdmission_def distinct_map_filter)

lemma admissionsOk_run: "admissionsOk (adm_run zod ops)"
proof (induction ops rule: rev_induct)
  case (snoc op ops)
  then show ?case by (cases op) (simp_all add: adm_run_def admissionsOk_claim admissionsOk_release)
qed (simp add: adm_run_def admissionsOk_def)

section \<open>Properties\<close>

text \<open>
  C30: an admitted identity is never re-bound. In every table that claims and releases of any processes produce,
  whichever row SQLite picks: an exact retry of a stored admission is answered with that record; a request that
  reuses its idempotency key, attempt or request id under the same principal in any other way is a conflict; neither
  writes; a claim succeeds only if no stored row of its principal shares a key, and is then found by its record id.
  While the stored echoes parse and the new record id is fresh, a well-formed claim is always answered.
\<close>
theorem learning_admission_once:
  assumes "db = adm_run zod ops" and "assertIdentity i" and "echoMatches i e" and "zod e"
    and "\<forall>r \<in> set db. zod (gatewayEcho r) \<and> admissionRecordId r \<noteq> uuid"
  shows "\<exists>answer db'. claimLearningTaskAdmission zod pick uuid i e db = (Inr answer, db') \<and>
           (case answer of
              NoAdmission \<Rightarrow> False
            | ExistingAdmission r \<Rightarrow> r \<in> set db \<and> adm_identity r = i \<and> db' = db
            | ConflictAdmission r \<Rightarrow> r \<in> set db \<and> collides (adm_identity r) i \<and> (\<forall>x \<in> set db. adm_identity x \<noteq> i) \<and> db' = db
            | ClaimedAdmission r \<Rightarrow> (\<forall>j \<in> adm_identity ` set db. principalId j = principalId i \<longrightarrow>
                  idempotencyKey j \<noteq> idempotencyKey i \<and> requestId j \<noteq> requestId i
                  \<and> (taskInstanceId j, attemptId j) \<noteq> (taskInstanceId i, attemptId i)) \<and> db' = db @ [r]
                \<and> adm_identity r = i \<and> getLearningTaskAdmissionById zod (admissionRecordId r) db' = Inr (Some r))"
proof -
  have ok: "admissionsOk db" unfolding assms(1) by (rule admissionsOk_run)
  let ?new = "\<lparr>admissionRecordId = uuid, adm_identity = i, gatewayEcho = e\<rparr>"
  show ?thesis
  proof (cases "collisionRow pick i db")
    case None
    have "find (\<lambda>r. admissionRecordId r = uuid) (db @ [?new]) = Some ?new"
      using assms(5) by (induction db) auto
    then have byId: "getLearningTaskAdmissionById zod uuid (db @ [?new]) = Inr (Some ?new)"
      using assms(4) by (simp add: getLearningTaskAdmissionById_def rowToAdmission_def)
    have "\<not> list_ex (\<lambda>x. admissionRecordId x = uuid) db" using assms(5) by (auto simp: list_ex_iff)
    then have "claimLearningTaskAdmission zod pick uuid i e db = (Inr (ClaimedAdmission ?new), db @ [?new])"
      using None assms(2,3) by (simp add: claimLearningTaskAdmission_def findCollision_def rowToAdmission_def Let_def)
    moreover have "\<forall>j \<in> adm_identity ` set db. principalId j = principalId i \<longrightarrow>
        idempotencyKey j \<noteq> idempotencyKey i \<and> requestId j \<noteq> requestId i
        \<and> (taskInstanceId j, attemptId j) \<noteq> (taskInstanceId i, attemptId i)"
      using None by (auto simp: collisionRow_None list_ex_iff collides_def)
    ultimately show ?thesis using byId by simp
  next
    case (Some r)
    have r: "r \<in> set db" "collides (adm_identity r) i" using collisionRow_Some [OF Some] by auto
    have "adm_identity x \<noteq> i" if "x \<in> set db" "adm_identity r \<noteq> i" for x
      using ok r that by (auto simp: admissionsOk_def)
    then show ?thesis using Some assms(2-5) r
      by (auto simp: claimLearningTaskAdmission_def findCollision_def rowToAdmission_def sameAdmission_def)
  qed
qed

text \<open>
  Principals are isolated: a claim of one principal is answered the same whatever rows other principals have.
\<close>
lemma learning_admission_isolated:
  assumes "\<forall>r \<in> set others. principalId (adm_identity r) \<noteq> principalId i"
  shows "findCollision zod pick i (db @ others) = findCollision zod pick i db"
proof -
  have "filter (\<lambda>r. collides (adm_identity r) i) others = []" using assms by (auto simp: filter_empty_conv collides_def)
  then show ?thesis by (simp add: findCollision_def collisionRow_def)
qed

section \<open>Witnesses\<close>

definition wIdentity :: AdmissionIdentity where
  "wIdentity = \<lparr>principalId = ''p'', clientId = ''c'', taskInstanceId = ''t'', attemptId = ''a'', requestId = ''r'',
     idempotencyKey = ''k'', requestFingerprint = wDigest, surface = SurfCodeLoop\<rparr>"

definition wEcho :: GatewayEcho where
  "wEcho = \<lparr>authenticated_principal_id = ''p'', admitted_at = ''2026-01-01'', st_expected_transport_principal_id = ''p'', st_client_id = ''c'',
     st_task_instance_id = ''t'', st_attempt_id = ''a'', st_request_id = ''r'', st_idempotency_key = ''k'', echo_rest = ''{}''\<rparr>"

definition wAdmission :: LearningTaskAdmission where
  "wAdmission = \<lparr>admissionRecordId = ''u1'', adm_identity = wIdentity, gatewayEcho = wEcho\<rparr>"

lemma wDigest_valid: "validDigest wDigest"
  by code_simp

lemma wIdentity_valid: "assertIdentity wIdentity" "echoMatches wIdentity wEcho"
  "assertIdentity (wIdentity\<lparr>requestId := ''other''\<rparr>)" "echoMatches (wIdentity\<lparr>requestId := ''other''\<rparr>) (wEcho\<lparr>st_request_id := ''other''\<rparr>)"
  using wDigest_valid by (simp_all add: assertIdentity_def echoMatches_def wIdentity_def wEcho_def)

lemma wAdmissions: "adm_run (\<lambda>e. True) [AClaim (\<lambda>n. n) ''u1'' wIdentity wEcho] = [wAdmission]"
  using wIdentity_valid
  by (simp add: adm_run_def claimLearningTaskAdmission_def findCollision_def collisionRow_def rowToAdmission_def limitOne_def wAdmission_def Let_def)

theorem learning_admission_once_witness:
  "claimLearningTaskAdmission (\<lambda>e. True) (\<lambda>n. n) ''u2'' (wIdentity\<lparr>requestId := ''other''\<rparr>) (wEcho\<lparr>st_request_id := ''other''\<rparr>) [wAdmission]
     = (Inr (ConflictAdmission wAdmission), [wAdmission])"
proof -
  let ?i = "wIdentity\<lparr>requestId := ''other''\<rparr>" and ?e = "wEcho\<lparr>st_request_id := ''other''\<rparr>"
  have w: "collides wIdentity ?i" "wIdentity \<noteq> ?i" by (simp_all add: collides_def wIdentity_def)
  have fresh: "\<forall>r \<in> set [wAdmission]. True \<and> admissionRecordId r \<noteq> ''u2''" by (simp add: wAdmission_def)
  show ?thesis
    using learning_admission_once [OF wAdmissions [symmetric] wIdentity_valid(3,4) TrueI fresh, of "\<lambda>n. n"]
  proof (elim exE conjE, goal_cases)
    case (1 answer db')
    then show ?case using w by (cases answer) (auto simp: wAdmission_def wIdentity_def)
  qed
qed

end
