(* ===== verification/JS_Buffer.thy ===== *)
theory JS_Buffer
  imports Prelude
begin

text \<open>
  Byte buffers and the texts decoded from them, as far as the request parsers use them. A byte is a number below
  256, a text the list of its Unicode code points; \<open>codes\<close> gives the text of an ASCII literal. \<open>utf8Decode\<close> is
  \<open>Buffer.toString("utf-8")\<close>, the decoder of the encoding standard with its replacement characters, and \<open>utf8Encode\<close>
  is \<open>Buffer.from(text, "utf-8")\<close>.
\<close>

type_synonym bytes = "nat list"
type_synonym js_text = "nat list"

definition codes :: "string \<Rightarrow> js_text" where
  "codes s = map of_char s"

section \<open>Reading and searching\<close>

text \<open>Out of range, \<open>body[i]\<close> is \<open>undefined\<close> and equal to no byte.\<close>

definition byteAt :: "bytes \<Rightarrow> nat \<Rightarrow> nat option" where
  "byteAt b i = (if i < length b then Some (b ! i) else None)"

definition subarray :: "bytes \<Rightarrow> nat \<Rightarrow> nat \<Rightarrow> bytes" where
  "subarray b i j = take (j - i) (drop i b)"

definition occursAt :: "bytes \<Rightarrow> bytes \<Rightarrow> nat \<Rightarrow> bool" where
  "occursAt b n i \<longleftrightarrow> take (length n) (drop i b) = n"

function bufIndexOf :: "bytes \<Rightarrow> bytes \<Rightarrow> nat \<Rightarrow> nat option" where
  "bufIndexOf b n i =
     (if length b < i then None
      else if occursAt b n i then Some i
      else bufIndexOf b n (Suc i))"
  by pat_completeness auto
termination by (relation "measure (\<lambda>(b, n, i). Suc (length b) - i)") auto

declare bufIndexOf.simps [simp del]

lemma bufIndexOf_Some:
  "bufIndexOf b n i = Some k \<longleftrightarrow>
     i \<le> k \<and> k \<le> length b \<and> occursAt b n k \<and> (\<forall>j. i \<le> j \<longrightarrow> j < k \<longrightarrow> \<not> occursAt b n j)"
proof (induction b n i rule: bufIndexOf.induct)
  case (1 b n i)
  have "(\<forall>j. i \<le> j \<longrightarrow> j < k \<longrightarrow> \<not> occursAt b n j) = (\<forall>j. Suc i \<le> j \<longrightarrow> j < k \<longrightarrow> \<not> occursAt b n j)"
    if "\<not> occursAt b n i"
    using that by (auto simp: Suc_le_eq) (metis le_neq_implies_less)
  then have "(i \<le> k \<and> k \<le> length b \<and> occursAt b n k \<and> (\<forall>j. i \<le> j \<longrightarrow> j < k \<longrightarrow> \<not> occursAt b n j)) =
        (Suc i \<le> k \<and> k \<le> length b \<and> occursAt b n k \<and> (\<forall>j. Suc i \<le> j \<longrightarrow> j < k \<longrightarrow> \<not> occursAt b n j))"
    if "\<not> occursAt b n i"
    using that by (cases "k = i") (auto simp: Suc_le_eq)
  then show ?case
    using 1 by (subst bufIndexOf.simps) (auto dest: leD)
qed

lemma bufIndexOf_None:
  "bufIndexOf b n i = None \<longleftrightarrow> (\<forall>j. i \<le> j \<longrightarrow> j \<le> length b \<longrightarrow> \<not> occursAt b n j)"
proof (induction b n i rule: bufIndexOf.induct)
  case (1 b n i)
  have "(\<forall>j. i \<le> j \<longrightarrow> j \<le> length b \<longrightarrow> \<not> occursAt b n j) \<longleftrightarrow>
        (\<forall>j. Suc i \<le> j \<longrightarrow> j \<le> length b \<longrightarrow> \<not> occursAt b n j)" if "\<not> occursAt b n i"
    using that by (metis Suc_leD Suc_leI le_neq_implies_less)
  then show ?case using 1 by (subst bufIndexOf.simps) auto
qed

lemma occursAt_length: "occursAt b n i \<Longrightarrow> i \<le> length b \<Longrightarrow> i + length n \<le> length b"
  unfolding occursAt_def by (metis add.commute length_drop length_take le_diff_conv2 min.cobounded1)

lemma occursAt_nth: "occursAt b n i \<Longrightarrow> k < length n \<Longrightarrow> i \<le> length b \<Longrightarrow> b ! (i + k) = n ! k"
  unfolding occursAt_def by (metis drop_take nth_drop nth_take)

lemma occursAt_append [simp]: "occursAt (pre @ b) n (length pre + i) = occursAt b n i"
  by (simp add: occursAt_def)

lemma occursAt_here [simp]: "occursAt (n @ b) n 0" "occursAt (pre @ n @ b) n (length pre)"
  by (simp_all add: occursAt_def)

lemma occursAt_prefix: "i + length n \<le> length b \<Longrightarrow> occursAt (b @ c) n i = occursAt b n i"
  by (simp add: occursAt_def)

lemma byteAt_append [simp]: "byteAt (pre @ b) (length pre + i) = byteAt b i"
  by (simp add: byteAt_def nth_append)

lemma byteAt_append0 [simp]: "byteAt (pre @ b) (length pre) = byteAt b 0"
  using byteAt_append [of pre b 0] by simp

lemma byteAt_Cons [simp]: "byteAt (x # b) 0 = Some x" "byteAt (x # b) (Suc i) = byteAt b i"
  by (simp_all add: byteAt_def)

lemma byteAt_prefix: "i < length b \<Longrightarrow> byteAt (b @ c) i = byteAt b i"
  by (simp add: byteAt_def nth_append)

section \<open>UTF-8\<close>

text \<open>A lead byte gives the number of continuation bytes, its own bits, and the range of the next byte.\<close>

definition utf8Lead :: "nat \<Rightarrow> (nat \<times> nat \<times> nat \<times> nat) option" where
  "utf8Lead b =
     (if 0xC2 \<le> b \<and> b \<le> 0xDF then Some (1, b - 0xC0, 0x80, 0xBF)
      else if 0xE0 \<le> b \<and> b \<le> 0xEF
      then Some (2, b - 0xE0, if b = 0xE0 then 0xA0 else 0x80, if b = 0xED then 0x9F else 0xBF)
      else if 0xF0 \<le> b \<and> b \<le> 0xF4
      then Some (3, b - 0xF0, if b = 0xF0 then 0x90 else 0x80, if b = 0xF4 then 0x8F else 0xBF)
      else None)"

fun utf8Cont :: "nat \<Rightarrow> nat \<Rightarrow> nat \<Rightarrow> nat \<Rightarrow> bytes \<Rightarrow> nat \<times> bytes" where
  "utf8Cont 0 v lo hi bs = (v, bs)"
| "utf8Cont (Suc n) v lo hi [] = (0xFFFD, [])"
| "utf8Cont (Suc n) v lo hi (b # bs) =
     (if lo \<le> b \<and> b \<le> hi then utf8Cont n (v * 64 + (b - 0x80)) 0x80 0xBF bs else (0xFFFD, b # bs))"

lemma utf8Cont_length: "utf8Cont n v lo hi bs = (r, rest) \<Longrightarrow> length rest \<le> length bs"
  by (induction n v lo hi bs rule: utf8Cont.induct) (auto split: if_splits)

function utf8Decode :: "bytes \<Rightarrow> js_text" where
  "utf8Decode [] = []"
| "utf8Decode (b # bs) =
     (if b < 0x80 then b # utf8Decode bs
      else case utf8Lead b of
             None \<Rightarrow> 0xFFFD # utf8Decode bs
           | Some (n, v, lo, hi) \<Rightarrow> (case utf8Cont n v lo hi bs of (r, rest) \<Rightarrow> r # utf8Decode rest))"
  by pat_completeness auto
termination
  by (relation "measure length") (auto dest!: utf8Cont_length [OF sym])

definition isScalar :: "nat \<Rightarrow> bool" where
  "isScalar c \<longleftrightarrow> c < 0xD800 \<or> 0xDFFF < c \<and> c < 0x110000"

definition utf8Bytes :: "nat \<Rightarrow> bytes" where
  "utf8Bytes c =
     (if c < 0x80 then [c]
      else if c < 0x800 then [0xC0 + c div 64, 0x80 + c mod 64]
      else if c < 0x10000 then [0xE0 + c div 4096, 0x80 + c div 64 mod 64, 0x80 + c mod 64]
      else [0xF0 + c div 262144, 0x80 + c div 4096 mod 64, 0x80 + c div 64 mod 64, 0x80 + c mod 64])"

definition utf8Encode :: "js_text \<Rightarrow> bytes" where
  "utf8Encode s = concat (map (\<lambda>c. utf8Bytes (if isScalar c then c else 0xFFFD)) s)"

lemma div_steps: "(c::nat) div 4096 = c div 64 div 64" "c div 262144 = c div 64 div 64 div 64"
  by (simp_all add: div_mult2_eq [symmetric])

lemma utf8_one: "isScalar c \<Longrightarrow> utf8Decode (utf8Bytes c @ bs) = c # utf8Decode bs"
proof -
  assume sc: "isScalar c"
  consider "c < 0x80" | "0x80 \<le> c" "c < 0x800" | "0x800 \<le> c" "c < 0x10000" | "0x10000 \<le> c" by linarith
  then show ?thesis
  proof cases
    case 1 then show ?thesis by (simp add: utf8Bytes_def)
  next
    case 2
    then have "2 \<le> c div 64" "c div 64 < 32" by auto
    then show ?thesis using 2 by (simp add: utf8Bytes_def utf8Lead_def)
  next
    case 3
    define h where "h = c div 4096"
    define m where "m = c div 64 mod 64"
    have c64: "h * 64 + m = c div 64" by (simp add: h_def m_def div_steps)
    have m: "m < 64" by (simp add: m_def)
    have h: "h < 16" using 3 by (simp add: h_def)
    have lo: "0xA0 \<le> 0x80 + m" if "h = 0" using that 3 c64 by auto
    have hi: "0x80 + m \<le> 0x9F" if "h = 13"
    proof -
      have "c div 64 = 832 + m" using that c64 by simp
      then have "c < 0xE000" using m by auto
      then have "c < 0xD800" using sc by (auto simp: isScalar_def)
      then have "c div 64 < 864" by auto
      then show ?thesis using \<open>c div 64 = 832 + m\<close> by simp
    qed
    have "utf8Lead (0xE0 + h) = Some (2, h, if h = 0 then 0xA0 else 0x80, if h = 13 then 0x9F else 0xBF)"
      using h by (auto simp: utf8Lead_def)
    moreover have "utf8Cont 2 h (if h = 0 then 0xA0 else 0x80) (if h = 13 then 0x9F else 0xBF)
        ((0x80 + m) # (0x80 + c mod 64) # bs) = (c, bs)"
      using m lo hi c64 by (auto simp: numeral_2_eq_2)
    ultimately show ?thesis using 3 h
      by (simp add: utf8Bytes_def h_def [symmetric] m_def [symmetric])
  next
    case 4
    define h where "h = c div 262144"
    define k where "k = c div 4096 mod 64"
    define m where "m = c div 64 mod 64"
    have c64: "(h * 64 + k) * 64 + m = c div 64" "h * 64 + k = c div 4096" by (simp_all add: h_def k_def m_def div_steps)
    have km: "k < 64" "m < 64" by (simp_all add: k_def m_def)
    have top: "c < 0x110000" using sc 4 by (auto simp: isScalar_def)
    have h: "h < 5" using top by (simp add: h_def)
    have lo: "0x90 \<le> 0x80 + k" if "h = 0" using that 4 c64 by auto
    have hi: "0x80 + k \<le> 0x8F" if "h = 4"
    proof -
      have "c div 4096 < 272" using top by auto
      then show ?thesis using that c64(2) by simp
    qed
    have "utf8Lead (0xF0 + h) = Some (3, h, if h = 0 then 0x90 else 0x80, if h = 4 then 0x8F else 0xBF)"
      using h by (auto simp: utf8Lead_def)
    moreover have "utf8Cont 3 h (if h = 0 then 0x90 else 0x80) (if h = 4 then 0x8F else 0xBF)
        ((0x80 + k) # (0x80 + m) # (0x80 + c mod 64) # bs) = (c, bs)"
      using km lo hi c64 by (auto simp: numeral_3_eq_3 simp del: mult_Suc_right)
    ultimately show ?thesis using 4 h
      by (simp add: utf8Bytes_def h_def [symmetric] m_def [symmetric] k_def [symmetric])
  qed
qed

lemma utf8_roundtrip_append: "list_all isScalar s \<Longrightarrow> utf8Decode (utf8Encode s @ bs) = s @ utf8Decode bs"
  by (induction s) (simp_all add: utf8Encode_def utf8_one)

lemma utf8_roundtrip: "list_all isScalar s \<Longrightarrow> utf8Decode (utf8Encode s) = s"
  using utf8_roundtrip_append [of s "[]"] by simp

lemma utf8_ascii: "list_all (\<lambda>c. c < 128) s \<Longrightarrow> utf8Encode s = s"
  by (induction s) (auto simp: utf8Encode_def utf8Bytes_def isScalar_def)

lemma utf8_append: "utf8Encode (s @ t) = utf8Encode s @ utf8Encode t"
  by (simp add: utf8Encode_def)

lemma utf8_low_bytes: "b \<in> set (utf8Encode s) \<Longrightarrow> b < 128 \<Longrightarrow> b \<in> set s"
  by (induction s) (auto simp: utf8Encode_def utf8Bytes_def isScalar_def split: if_splits)

end
