(* ===== verification/Multipart.thy ===== *)
theory Multipart
  imports JS_Buffer
begin

text \<open>
  The parser of \<open>multipart/form-data\<close> bodies, \<open>src/homeserver/multipart.ts\<close>: the boundary of a content type, the search
  for delimiters, the headers of a part, and the walk from delimiter to delimiter, by byte offsets as in the code.
  Regular expressions without the unicode flag ignore the case of ASCII letters only, and \<open>toLowerCase\<close> produces the two
  header names the parser reads only from ASCII letters, so lower case is that of ASCII.
\<close>

section \<open>Texts\<close>

definition isWhite :: "nat \<Rightarrow> bool" where
  "isWhite c \<longleftrightarrow> 9 \<le> c \<and> c \<le> 13 \<or> c = 32 \<or> c = 160 \<or> c = 0x1680 \<or> 0x2000 \<le> c \<and> c \<le> 0x200A
     \<or> c = 0x2028 \<or> c = 0x2029 \<or> c = 0x202F \<or> c = 0x205F \<or> c = 0x3000 \<or> c = 0xFEFF"

definition trimText :: "js_text \<Rightarrow> js_text" where
  "trimText s = rev (dropWhile isWhite (rev (dropWhile isWhite s)))"

definition lowerAscii :: "nat \<Rightarrow> nat" where
  "lowerAscii c = (if 65 \<le> c \<and> c \<le> 90 then c + 32 else c)"

text \<open>A match of a lower-case ASCII pattern at the start of a text, ignoring case.\<close>

definition ciPrefix :: "js_text \<Rightarrow> js_text \<Rightarrow> bool" where
  "ciPrefix pat s \<longleftrightarrow> take (length pat) (map lowerAscii s) = pat"

fun splitCrlf :: "js_text \<Rightarrow> js_text list" where
  "splitCrlf [] = [[]]"
| "splitCrlf (c # s) =
     (if c = 13 \<and> s \<noteq> [] \<and> hd s = 10 then [] # splitCrlf (tl s)
      else case splitCrlf s of [] \<Rightarrow> [[c]] | l # ls \<Rightarrow> (c # l) # ls)"

section \<open>The boundary\<close>

text \<open>The leftmost match of \<open>boundary=\<close> with a quoted or a bare token.\<close>

definition boundaryToken :: "js_text \<Rightarrow> js_text option" where
  "boundaryToken r =
     (let quoted = takeWhile (\<lambda>c. c \<noteq> 34) (tl r);
          bare = takeWhile (\<lambda>c. c \<noteq> 59 \<and> c \<noteq> 44 \<and> \<not> isWhite c) r
      in if r \<noteq> [] \<and> hd r = 34 \<and> quoted \<noteq> [] \<and> 34 \<in> set (tl r) then Some quoted
         else if bare \<noteq> [] then Some bare else None)"

fun boundaryMatch :: "js_text \<Rightarrow> js_text option" where
  "boundaryMatch [] = None"
| "boundaryMatch (c # s) =
     (case (if ciPrefix (codes ''boundary='') (c # s) then boundaryToken (drop 9 (c # s)) else None) of
        Some b \<Rightarrow> Some b
      | None \<Rightarrow> boundaryMatch s)"

definition extractBoundary :: "js_text \<Rightarrow> js_text option" where
  "extractBoundary contentType =
     (if \<not> ciPrefix (codes ''multipart/form-data'') (trimText contentType) then None
      else case boundaryMatch contentType of
             None \<Rightarrow> None
           | Some b \<Rightarrow> if trimText b = [] then None else Some (trimText b))"

section \<open>Delimiters\<close>

text \<open>\<open>--boundary\<close>; the boundary is given by its bytes.\<close>

definition delimiter :: "bytes \<Rightarrow> bytes" where
  "delimiter token = 45 # 45 # token"

function skipLws :: "bytes \<Rightarrow> nat \<Rightarrow> nat" where
  "skipLws body p = (if byteAt body p = Some 32 \<or> byteAt body p = Some 9 then skipLws body (p + 1) else p)"
  by pat_completeness auto
termination by (relation "measure (\<lambda>(body, p). length body - p)") (auto simp: byteAt_def split: if_splits)

definition endsDelimiter :: "bytes \<Rightarrow> nat \<Rightarrow> bool" where
  "endsDelimiter body p \<longleftrightarrow>
     byteAt body p = Some 45 \<and> byteAt body (p + 1) = Some 45
     \<or> (let q = skipLws body p
        in byteAt body q = Some 13 \<and> byteAt body (q + 1) = Some 10 \<or> byteAt body q = Some 10)"

function findDelimiter :: "bytes \<Rightarrow> bytes \<Rightarrow> nat \<Rightarrow> nat option" where
  "findDelimiter body token start =
     (case bufIndexOf body (delimiter token) start of
        None \<Rightarrow> None
      | Some i \<Rightarrow> if endsDelimiter body (i + length (delimiter token)) then Some i
                 else findDelimiter body token (i + length (delimiter token)))"
  by pat_completeness auto
termination
  by (relation "measure (\<lambda>(body, token, start). Suc (length body) - start)")
    (auto simp: bufIndexOf_Some delimiter_def)

declare skipLws.simps [simp del] findDelimiter.simps [simp del]

section \<open>Headers of a part\<close>

text \<open>Assigning a text to \<open>__proto__\<close> of a plain object has no effect.\<close>

definition setProp :: "js_text \<Rightarrow> 'a \<Rightarrow> (js_text \<rightharpoonup> 'a) \<Rightarrow> (js_text \<rightharpoonup> 'a)" where
  "setProp k v m = (if k = codes ''__proto__'' then m else m(k \<mapsto> v))"

definition headerLine :: "js_text \<Rightarrow> (js_text \<rightharpoonup> js_text) \<Rightarrow> (js_text \<rightharpoonup> js_text)" where
  "headerLine line out =
     (if line = [] then out
      else case bufIndexOf line [58] 0 of
             None \<Rightarrow> out
           | Some i \<Rightarrow> setProp (map lowerAscii (trimText (take i line))) (trimText (drop (i + 1) line)) out)"

definition parsePartHeaders :: "js_text \<Rightarrow> (js_text \<rightharpoonup> js_text)" where
  "parsePartHeaders block = fold headerLine (splitCrlf block) Map.empty"

text \<open>The leftmost match of \<open>key="..."\<close>.\<close>

fun dispositionParam :: "js_text \<Rightarrow> js_text \<Rightarrow> js_text option" where
  "dispositionParam [] key = None"
| "dispositionParam (c # s) key =
     (let rest = drop (length key + 2) (c # s)
      in if ciPrefix (key @ [61, 34]) (c # s) \<and> 34 \<in> set rest then Some (takeWhile (\<lambda>x. x \<noteq> 34) rest)
         else dispositionParam s key)"

section \<open>The parser\<close>

record MultipartFile =
  mf_name :: js_text
  mf_filename :: "js_text option"
  mf_contentType :: "js_text option"
  mf_data :: bytes

record ParsedMultipart =
  pm_fields :: "js_text \<rightharpoonup> js_text"
  pm_files :: "MultipartFile list"

definition addPart ::
  "(js_text \<rightharpoonup> js_text) \<Rightarrow> bytes \<Rightarrow> ParsedMultipart \<Rightarrow> ParsedMultipart" where
  "addPart headers content acc =
     (let disposition = (case headers (codes ''content-disposition'') of None \<Rightarrow> [] | Some d \<Rightarrow> d)
      in case dispositionParam disposition (codes ''name'') of
           None \<Rightarrow> acc
         | Some name \<Rightarrow>
             (case dispositionParam disposition (codes ''filename'') of
                Some filename \<Rightarrow>
                  acc\<lparr>pm_files := pm_files acc @ [\<lparr>mf_name = name, mf_filename = Some filename,
                        mf_contentType = headers (codes ''content-type''), mf_data = content\<rparr>]\<rparr>
              | None \<Rightarrow> acc\<lparr>pm_fields := setProp name (utf8Decode content) (pm_fields acc)\<rparr>))"

text \<open>One turn of the loop: the parts so far and the next cursor, or \<open>None\<close> for \<open>break\<close>.\<close>

definition parsePart :: "bytes \<Rightarrow> bytes \<Rightarrow> nat \<Rightarrow> ParsedMultipart \<Rightarrow> (ParsedMultipart \<times> nat) option" where
  "parsePart body token cursor acc =
     (let pos0 = cursor + length (delimiter token)
      in if pos0 + 2 \<le> length body \<and> byteAt body pos0 = Some 45 \<and> byteAt body (pos0 + 1) = Some 45 then None
         else
           let pos = (if byteAt body pos0 = Some 13 \<and> byteAt body (pos0 + 1) = Some 10 then pos0 + 2
                      else if byteAt body pos0 = Some 10 then pos0 + 1 else pos0)
           in case bufIndexOf body [13, 10, 13, 10] pos of
                None \<Rightarrow> None
              | Some headerEnd \<Rightarrow>
                  (case findDelimiter body token (headerEnd + 4) of
                     None \<Rightarrow> None
                   | Some next \<Rightarrow>
                       let partBodyEnd =
                             (if 2 \<le> next \<and> byteAt body (next - 2) = Some 13 \<and> byteAt body (next - 1) = Some 10
                              then next - 2 else next)
                       in Some (addPart (parsePartHeaders (utf8Decode (subarray body pos headerEnd)))
                                  (subarray body (headerEnd + 4) partBodyEnd) acc, next)))"

lemma findDelimiter_bounds: "findDelimiter body token start = Some i \<Longrightarrow> start \<le> i \<and> i \<le> length body"
proof (induction body token start rule: findDelimiter.induct)
  case (1 body token start)
  from 1(2) obtain k where k: "bufIndexOf body (delimiter token) start = Some k"
    by (subst (asm) findDelimiter.simps) (auto split: option.splits)
  then have "start \<le> k" "k \<le> length body" by (simp_all add: bufIndexOf_Some)
  show ?case
  proof (cases "endsDelimiter body (k + length (delimiter token))")
    case True
    then have "i = k" using 1(2) k by (subst (asm) findDelimiter.simps) simp
    then show ?thesis using \<open>start \<le> k\<close> \<open>k \<le> length body\<close> by simp
  next
    case False
    then have "findDelimiter body token (k + length (delimiter token)) = Some i"
      using 1(2) k by (subst (asm) findDelimiter.simps) simp
    from 1(1) [OF k False this] show ?thesis using \<open>start \<le> k\<close> by linarith
  qed
qed

lemma parsePart_progress: "parsePart body token cursor acc = Some (acc', next) \<Longrightarrow> cursor < next \<and> next \<le> length body"
  by (auto simp: parsePart_def Let_def split: if_splits option.splits
      dest!: findDelimiter_bounds bufIndexOf_Some [THEN iffD1])

function parseParts :: "bytes \<Rightarrow> bytes \<Rightarrow> nat \<Rightarrow> ParsedMultipart \<Rightarrow> ParsedMultipart" where
  "parseParts body token cursor acc =
     (case parsePart body token cursor acc of
        None \<Rightarrow> acc
      | Some (acc', next) \<Rightarrow> parseParts body token next acc')"
  by pat_completeness auto
termination
  by (relation "measure (\<lambda>(body, token, cursor, acc). length body - cursor)")
    (use parsePart_progress in fastforce)+

declare parseParts.simps [simp del]

datatype MultipartError = NotMultipart

definition parseMultipart :: "bytes \<Rightarrow> js_text \<Rightarrow> MultipartError + ParsedMultipart" where
  "parseMultipart body contentType =
     (case extractBoundary contentType of
        None \<Rightarrow> Inl NotMultipart
      | Some boundary \<Rightarrow>
          let token = utf8Encode boundary;
              empty = \<lparr>pm_fields = Map.empty, pm_files = []\<rparr>
          in case findDelimiter body token 0 of
               None \<Rightarrow> Inr empty
             | Some cursor \<Rightarrow> Inr (parseParts body token cursor empty))"

section \<open>Bodies as clients build them\<close>

datatype FormPart =
    FormField js_text js_text
  | FormFile js_text js_text js_text bytes

definition crlf :: bytes where
  "crlf = [13, 10]"

fun dispositionText :: "FormPart \<Rightarrow> js_text" where
  "dispositionText (FormField name v) = codes ''form-data; name='' @ [34] @ name @ [34]"
| "dispositionText (FormFile name filename ct d) =
     codes ''form-data; name='' @ [34] @ name @ [34] @ codes ''; filename='' @ [34] @ filename @ [34]"

fun partLines :: "FormPart \<Rightarrow> js_text list" where
  "partLines (FormField name v) = [codes ''Content-Disposition: '' @ dispositionText (FormField name v)]"
| "partLines (FormFile name filename ct d) =
     [codes ''Content-Disposition: '' @ dispositionText (FormFile name filename ct d), codes ''Content-Type: '' @ ct]"

fun joinCrlf :: "js_text list \<Rightarrow> js_text" where
  "joinCrlf [] = []"
| "joinCrlf [l] = l"
| "joinCrlf (l # ls) = l @ crlf @ joinCrlf ls"

fun partContent :: "FormPart \<Rightarrow> bytes" where
  "partContent (FormField name v) = utf8Encode v"
| "partContent (FormFile name filename ct d) = d"

definition partBytes :: "bytes \<Rightarrow> FormPart \<Rightarrow> bytes" where
  "partBytes token p = delimiter token @ crlf @ utf8Encode (joinCrlf (partLines p)) @ crlf @ crlf @ partContent p @ crlf"

definition buildBody :: "bytes \<Rightarrow> FormPart list \<Rightarrow> bytes" where
  "buildBody token ps = concat (map (partBytes token) ps) @ delimiter token @ [45, 45] @ crlf"

section \<open>Finding the end of a part\<close>

lemma skipLws_append: "skipLws (pre @ b) (length pre + p) = length pre + skipLws b p"
proof (induction b p rule: skipLws.induct)
  case (1 b p)
  show ?case
  proof (cases "byteAt b p = Some 32 \<or> byteAt b p = Some 9")
    case True
    then show ?thesis using 1 by (subst (1 2) skipLws.simps) simp
  qed (subst (1 2) skipLws.simps; simp)
qed

lemma endsDelimiter_append: "endsDelimiter (pre @ b) (length pre + p) = endsDelimiter b p"
  using byteAt_append [of pre b "p + 1"] byteAt_append [of pre b "skipLws b p + 1"]
  by (simp add: endsDelimiter_def Let_def skipLws_append)

lemma skipLws_line:
  "p \<le> length d \<Longrightarrow> skipLws (d @ 13 # rest) p = skipLws (d @ [13]) p \<and> skipLws (d @ [13]) p \<le> length d"
proof (induction "d @ [13::nat]" p rule: skipLws.induct)
  case (1 p)
  have same: "byteAt (d @ 13 # rest) p = byteAt (d @ [13]) p"
    using 1(2) by (auto simp: byteAt_def nth_append)
  show ?case
  proof (cases "byteAt (d @ [13]) p = Some 32 \<or> byteAt (d @ [13]) p = Some 9")
    case True
    then have "p + 1 \<le> length d" using 1(2) by (cases "p = length d") auto
    from 1(1) [OF True this] show ?thesis using True same by (subst (1 2 3) skipLws.simps) simp
  next
    case False
    then show ?thesis using same 1(2) by (subst (1 2 3) skipLws.simps) simp
  qed
qed

lemma endsDelimiter_line:
  assumes "p \<le> length d"
  shows "endsDelimiter (d @ 13 # 10 # rest) p = endsDelimiter (d @ [13, 10]) p"
proof -
  have skip: "skipLws (d @ 13 # 10 # rest) p = skipLws (d @ [13, 10]) p" "skipLws (d @ [13, 10]) p \<le> length d"
    using skipLws_line [OF assms, of "10 # rest"] skipLws_line [OF assms, of "[10]"] by simp_all
  have same: "byteAt (d @ 13 # 10 # rest) i = byteAt (d @ [13, 10]) i" if "i \<le> length d + 1" for i
    using that byteAt_prefix [of i "d @ [13, 10]" rest] by simp
  show ?thesis using assms skip by (simp add: endsDelimiter_def Let_def same)
qed

text \<open>A text without line breaks that occurs before the end of a line lies within the line.\<close>

lemma occurs_in_line:
  assumes "occursAt (d @ 13 # 10 # rest) n j" "13 \<notin> set n" "10 \<notin> set n" "n \<noteq> []" "j < length d + 2"
  shows "j + length n \<le> length d"
proof (rule ccontr)
  assume long: "\<not> j + length n \<le> length d"
  have nth: "(d @ 13 # 10 # rest) ! (j + k) = n ! k" if "k < length n" for k
    using occursAt_nth [OF assms(1) that] assms(5) by simp
  show False
  proof (cases "j \<le> length d")
    case True
    then have "n ! (length d - j) = 13" using nth [of "length d - j"] long by (simp add: nth_append)
    moreover have "length d - j < length n" using long True by linarith
    ultimately show False using assms(2) nth_mem [of "length d - j" n] by auto
  next
    case False
    then have "j = length d + 1" using assms(5) by simp
    then have "n ! 0 = 10" using nth [of 0] assms(4) by (simp add: nth_append)
    then show False using assms(3,4) nth_mem [of 0 n] by auto
  qed
qed

lemma occurs_line_iff:
  assumes "13 \<notin> set n" "10 \<notin> set n" "n \<noteq> []" "j < length d + 2"
  shows "occursAt (pre @ d @ 13 # 10 # rest) n (length pre + j) = occursAt (d @ [13, 10]) n j"
proof -
  have "occursAt (d @ 13 # 10 # rest) n j \<longleftrightarrow> occursAt (d @ [13, 10]) n j"
  proof (cases "j + length n \<le> length d")
    case True
    then show ?thesis using occursAt_prefix [of j n d] by simp
  next
    case False
    then show ?thesis using occurs_in_line [of d _ n j] assms by blast
  qed
  then show ?thesis by simp
qed

text \<open>
  A part ends at the delimiter that follows it, if its content and its line break hold no delimiter themselves.
\<close>
lemma findDelimiter_next:
  assumes "findDelimiter (d @ [13, 10]) token k = None" "k \<le> length d + 2"
    and token: "13 \<notin> set token" "10 \<notin> set token"
    and after: "endsDelimiter (delimiter token @ rest) (length (delimiter token))"
  shows "findDelimiter (pre @ d @ 13 # 10 # delimiter token @ rest) token (length pre + k) = Some (length pre + length d + 2)"
proof -
  define n where "n = delimiter token"
  let ?small = "d @ [13, 10]" and ?big = "pre @ d @ 13 # 10 # n @ rest"
  have n: "13 \<notin> set n" "10 \<notin> set n" "n \<noteq> []" using token by (auto simp: n_def delimiter_def)
  note occ = occurs_line_iff [OF n, of _ d pre "n @ rest"]
  have found: "occursAt ?big n (length pre + length d + 2)"
    using occursAt_here(2) [of "pre @ d @ [13, 10]" n rest] by simp
  have ends: "endsDelimiter ?big (length pre + length d + 2 + length n)"
    using after endsDelimiter_append [of "pre @ d @ [13, 10]" "n @ rest" "length n"] by (simp add: n_def add.assoc)
  have "findDelimiter ?small token k = None \<Longrightarrow> k \<le> length d + 2 \<Longrightarrow>
      findDelimiter ?big token (length pre + k) = Some (length pre + length d + 2)" for k
  proof (induction "Suc (length d + 2) - k" arbitrary: k rule: less_induct)
    case less
    show ?case
    proof (cases "bufIndexOf ?small n k")
      case None
      have "\<not> occursAt ?big n j" if "length pre + k \<le> j" "j < length pre + length d + 2" for j
        using that None occ [of "j - length pre"] by (auto simp: bufIndexOf_None)
      then have "bufIndexOf ?big n (length pre + k) = Some (length pre + length d + 2)"
        using found less.prems(2) by (simp add: bufIndexOf_Some)
      then show ?thesis using ends by (subst findDelimiter.simps) (simp add: n_def)
    next
      case (Some i)
      then have i: "k \<le> i" "i \<le> length d + 2" "occursAt ?small n i" "\<forall>j. k \<le> j \<longrightarrow> j < i \<longrightarrow> \<not> occursAt ?small n j"
        by (auto simp: bufIndexOf_Some)
      have "i < length d + 2" using i(2,3) n(3) by (cases "i = length d + 2") (auto simp: occursAt_def)
      then have inside: "i + length n \<le> length d" using occurs_in_line [of d "[]" n i] i(3) n by simp
      have no: "\<not> endsDelimiter ?small (i + length n)" and
        rest: "findDelimiter ?small token (i + length n) = None"
        using less.prems(1) Some by (auto simp: n_def findDelimiter.simps [of ?small token k] split: if_splits)
      have "\<not> occursAt ?big n j" if "length pre + k \<le> j" "j < length pre + i" for j
        using that i occ [of "j - length pre"] by auto
      then have "bufIndexOf ?big n (length pre + k) = Some (length pre + i)"
        using i(1,3) occ [of i] inside by (simp add: bufIndexOf_Some)
      moreover have "\<not> endsDelimiter ?big (length pre + i + length n)"
        using no endsDelimiter_line [OF inside, of "n @ rest"] endsDelimiter_append [of pre "d @ 13 # 10 # n @ rest" "i + length n"]
        by (simp add: add.assoc)
      moreover have "findDelimiter ?big token (length pre + (i + length n)) = Some (length pre + length d + 2)"
        using inside i(1) rest length_greater_0_conv [of n] n(3) by (intro less.hyps) linarith+
      ultimately show ?thesis by (subst findDelimiter.simps) (simp add: n_def add.assoc)
    qed
  qed
  then show ?thesis using assms(1,2) by (simp add: n_def)
qed

lemma headerEnd_found:
  assumes "\<forall>j < length h. \<not> occursAt (h @ sep @ rest) sep j"
  shows "bufIndexOf (pre @ h @ sep @ rest) sep (length pre) = Some (length pre + length h)"
proof -
  have "\<not> occursAt (pre @ h @ sep @ rest) sep j" if "length pre \<le> j" "j < length pre + length h" for j
    using assms that occursAt_append [of pre "h @ sep @ rest" sep "j - length pre"] by simp
  then show ?thesis using occursAt_here(2) [of "pre @ h" sep rest] by (simp add: bufIndexOf_Some)
qed

section \<open>Reading the headers back\<close>

lemma one_line_end:
  assumes "13 \<notin> set h"
  shows "\<forall>j < length h. \<not> occursAt (h @ [13, 10, 13, 10] @ rest) [13, 10, 13, 10] j"
proof (intro allI impI notI)
  fix j assume "j < length h" "occursAt (h @ [13, 10, 13, 10] @ rest) [13, 10, 13, 10] j"
  then show False using occursAt_nth [of "h @ [13, 10, 13, 10] @ rest" "[13, 10, 13, 10]" j 0] assms
    by (auto simp: nth_append dest: nth_mem)
qed

lemma two_lines_end:
  assumes "13 \<notin> set l1" "13 \<notin> set l2" "l2 \<noteq> []" and h: "h = l1 @ [13, 10] @ l2"
  shows "\<forall>j < length h. \<not> occursAt (h @ [13, 10, 13, 10] @ rest) [13, 10, 13, 10] j"
proof (intro allI impI notI)
  fix j assume j: "j < length h" "occursAt (h @ [13, 10, 13, 10] @ rest) [13, 10, 13, 10] j"
  let ?b = "h @ [13, 10, 13, 10] @ rest"
  have at: "?b ! j = 13" "?b ! (j + 2) = 13"
    using occursAt_nth [OF j(2), of 0] occursAt_nth [OF j(2), of 2] j(1) by simp_all
  have "j = length l1"
    using at(1) j(1) assms(1,2) unfolding h
    by (auto simp: nth_append nth_Cons' split: if_splits dest: nth_mem)
  then have "l2 ! 0 = 13" using at(2) assms(3) unfolding h by (simp add: nth_append)
  then show False using assms(2,3) by (metis length_greater_0_conv nth_mem)
qed

lemma splitCrlf_line: "13 \<notin> set l \<Longrightarrow> splitCrlf l = [l]" 
  and splitCrlf_append: "13 \<notin> set l \<Longrightarrow> splitCrlf (l @ 13 # 10 # s) = l # splitCrlf s"
  by (induction l) auto

lemma trimText_id: "s \<noteq> [] \<Longrightarrow> \<not> isWhite (hd s) \<Longrightarrow> \<not> isWhite (last s) \<Longrightarrow> trimText s = s"
proof -
  assume a: "s \<noteq> []" "\<not> isWhite (hd s)" "\<not> isWhite (last s)"
  then have "dropWhile isWhite s = s" by (cases s) auto
  moreover have "dropWhile isWhite (rev s) = rev s" using a by (cases s rule: rev_cases) auto
  ultimately show ?thesis by (simp add: trimText_def)
qed

lemma trimText_space: "trimText (32 # s) = trimText s"
  by (simp add: trimText_def isWhite_def)

lemma colon_found: "58 \<notin> set a \<Longrightarrow> bufIndexOf (a @ 58 # b) [58] 0 = Some (length a)"
proof -
  assume a: "58 \<notin> set a"
  have "\<not> occursAt (a @ 58 # b) [58] j" if "j < length a" for j
    using occursAt_nth [of "a @ 58 # b" "[58]" j 0] that a by (auto simp: nth_append dest: nth_mem)
  then show ?thesis using occursAt_here(2) [of a "[58]" b] by (simp add: bufIndexOf_Some)
qed

lemma takeWhile_quote: "34 \<notin> set n \<Longrightarrow> takeWhile (\<lambda>c. c \<noteq> (34::nat)) (n @ 34 # r) = n"
  by (induction n) auto

lemma headerLine_reads:
  assumes "58 \<notin> set k" "trimText k = k" "map lowerAscii k \<noteq> codes ''__proto__''"
  shows "headerLine (k @ 58 # 32 # v) out = out(map lowerAscii k \<mapsto> trimText v)"
  using assms colon_found [OF assms(1), of "32 # v"] by (simp add: headerLine_def setProp_def trimText_space)

lemma ciPrefix_quote:
  assumes "34 \<notin> set n" "34 \<notin> set pat" "ciPrefix (pat @ [34]) (n @ 34 # r)"
  shows "map lowerAscii n = pat"
proof -
  let ?m = "map lowerAscii n"
  have m: "34 \<notin> set ?m" using assms(1) by (auto simp: lowerAscii_def split: if_splits)
  have eq: "take (Suc (length pat)) (?m @ 34 # map lowerAscii r) = pat @ [34]"
    using assms(3) by (simp add: ciPrefix_def lowerAscii_def)
  show ?thesis
  proof (cases "Suc (length pat) \<le> length ?m")
    case True
    then have "take (Suc (length pat)) ?m = pat @ [34]" using eq by simp
    then have "34 \<in> set ?m" by (metis in_set_conv_decomp in_set_takeD)
    then show ?thesis using m by simp
  next
    case False
    then have "?m @ 34 # take (length pat - length ?m) (map lowerAscii r) = pat @ [34]"
      using eq by (simp add: Suc_diff_le)
    then have "takeWhile (\<lambda>c. c \<noteq> 34) (?m @ 34 # take (length pat - length ?m) (map lowerAscii r)) = takeWhile (\<lambda>c. c \<noteq> 34) (pat @ 34 # [])"
      by simp
    then show ?thesis by (simp only: takeWhile_quote [OF m] takeWhile_quote [OF assms(2)])
  qed
qed

lemma codes_literals:
  "codes ''form-data; name='' = [102, 111, 114, 109, 45, 100, 97, 116, 97, 59, 32, 110, 97, 109, 101, 61]"
  "codes ''; filename='' = [59, 32, 102, 105, 108, 101, 110, 97, 109, 101, 61]"
  "codes ''name'' = [110, 97, 109, 101]" "codes ''filename'' = [102, 105, 108, 101, 110, 97, 109, 101]"
  by (simp_all add: codes_def)

lemma dispositionParam_name:
  assumes "34 \<notin> set n"
  shows "dispositionParam (codes ''form-data; name='' @ 34 # n @ 34 # r) (codes ''name'') = Some n"
  using assms by (simp add: codes_literals ciPrefix_def lowerAscii_def takeWhile_quote)

lemma dispositionParam_needs_two: "length (filter (\<lambda>c. c = 34) s) \<le> 1 \<Longrightarrow> dispositionParam s key = None"
proof (induction s)
  case (Cons c s)
  have "\<not> (ciPrefix (key @ [61, 34]) (c # s) \<and> 34 \<in> set (drop (length key + 2) (c # s)))"
  proof
    assume m: "ciPrefix (key @ [61, 34]) (c # s) \<and> 34 \<in> set (drop (length key + 2) (c # s))"
    then have "34 \<in> set (map lowerAscii (take (length key + 2) (c # s)))"
      by (simp add: ciPrefix_def take_map) 
    then have "34 \<in> set (take (length key + 2) (c # s))" by (auto simp: lowerAscii_def split: if_splits)
    then have "1 \<le> length (filter (\<lambda>c. c = 34) (take (length key + 2) (c # s)))"
       "1 \<le> length (filter (\<lambda>c. c = 34) (drop (length key + 2) (c # s)))"
      using m by (auto simp: Suc_le_eq filter_empty_conv)
    moreover have "length (filter (\<lambda>c. c = 34) (c # s)) = length (filter (\<lambda>c. c = 34) (take (length key + 2) (c # s)))
        + length (filter (\<lambda>c. c = 34) (drop (length key + 2) (c # s)))"
      by (metis append_take_drop_id filter_append length_append)
    ultimately show False using Cons.prems by linarith
  qed
  moreover have "length (filter (\<lambda>c. c = 34) s) \<le> 1" using Cons.prems by (auto split: if_splits)
  ultimately show ?case using Cons.IH by (simp only: dispositionParam.simps Let_def if_False)
qed simp

lemma dispositionParam_no_filename:
  assumes "34 \<notin> set n"
  shows "dispositionParam (codes ''form-data; name='' @ 34 # n @ [34]) (codes ''filename'') = None"
proof -
  have "dispositionParam (n @ [34]) (codes ''filename'') = None"
    using assms by (intro dispositionParam_needs_two) (auto simp: filter_empty_conv)
  then show ?thesis by (simp add: codes_literals ciPrefix_def lowerAscii_def)
qed

text \<open>A name that ends in \<open>filename=\<close> turns its closing quote into the start of a file name.\<close>

definition endsFilename :: "js_text \<Rightarrow> bool" where
  "endsFilename n \<longleftrightarrow> drop (length n - 9) (map lowerAscii n) = codes ''filename=''"

lemma dispositionParam_filename_tail:
  assumes "34 \<notin> set n" "\<not> endsFilename n" "34 \<notin> set f"
  shows "dispositionParam (n @ 34 # codes ''; filename='' @ 34 # f @ [34]) (codes ''filename'') = Some f"
  using assms(1,2)
proof (induction n)
  case Nil
  show ?case using assms(3) by (simp add: codes_literals ciPrefix_def lowerAscii_def takeWhile_quote)
next
  case (Cons c n)
  have "\<not> ciPrefix (codes ''filename'' @ [61, 34]) ((c # n) @ 34 # codes ''; filename='' @ 34 # f @ [34])"
  proof
    assume "ciPrefix (codes ''filename'' @ [61, 34]) ((c # n) @ 34 # codes ''; filename='' @ 34 # f @ [34])"
    then have low: "map lowerAscii (c # n) = codes ''filename=''"
      using ciPrefix_quote [of "c # n" "codes ''filename'' @ [61]"] Cons.prems(1) by (simp add: codes_def)
    from arg_cong [OF this, of length] have "length (c # n) = 9" by (simp add: codes_def)
    then show False using low Cons.prems(2) by (simp add: endsFilename_def)
  qed
  moreover have "\<not> endsFilename n"
  proof
    assume e: "endsFilename n"
    from arg_cong [OF this [unfolded endsFilename_def], of length] have "9 \<le> length n" by (simp add: codes_def)
    then have "length (c # n) - 9 = Suc (length n - 9)" by simp
    then have "drop (length (c # n) - 9) (map lowerAscii (c # n)) = drop (length n - 9) (map lowerAscii n)"
      by (simp only: list.map drop_Suc_Cons)
    then show False using e Cons.prems(2) by (simp add: endsFilename_def)
  qed
  ultimately show ?case using Cons by simp
qed

lemma dispositionParam_filename:
  assumes "34 \<notin> set n" "\<not> endsFilename n" "34 \<notin> set f"
  shows "dispositionParam (codes ''form-data; name='' @ 34 # n @ 34 # codes ''; filename='' @ 34 # f @ [34]) (codes ''filename'') = Some f"
  using dispositionParam_filename_tail [OF assms]
  by (simp add: codes_literals ciPrefix_def lowerAscii_def)

section \<open>One part\<close>

lemma byteAt_split: "b = xs @ x # ys \<Longrightarrow> i = length xs \<Longrightarrow> byteAt b i = Some x"
  by (simp add: byteAt_def)

lemma subarray_split: "b = xs @ d @ ys \<Longrightarrow> i = length xs \<Longrightarrow> subarray b i (i + length d) = d"
  by (simp add: subarray_def)

lemma parsePart_at:
  assumes hend: "\<forall>rest. \<forall>j < length h. \<not> occursAt (h @ [13, 10, 13, 10] @ rest) [13, 10, 13, 10] j"
    and content: "findDelimiter (d @ [13, 10]) token 0 = None"
    and token: "13 \<notin> set token" "10 \<notin> set token"
    and after: "endsDelimiter (delimiter token @ rest) (length (delimiter token))"
    and body: "body = pre @ delimiter token @ [13, 10] @ h @ [13, 10, 13, 10] @ d @ [13, 10] @ delimiter token @ rest"
  shows "parsePart body token (length pre) acc =
     Some (addPart (parsePartHeaders (utf8Decode h)) d acc,
           length pre + length (delimiter token) + 2 + length h + 4 + length d + 2)"
proof -
  let ?pos0 = "length pre + length (delimiter token)"
  let ?start = "?pos0 + 2 + length h + 4"
  let ?pre1 = "pre @ delimiter token @ [13, 10]"
  let ?pre2 = "?pre1 @ h @ [13, 10, 13, 10]"
  have b: "byteAt body ?pos0 = Some 13" by (rule byteAt_split [of _ "pre @ delimiter token"]) (simp_all add: body)
  have b': "byteAt body (?pos0 + 1) = Some 10" by (rule byteAt_split [of _ "pre @ delimiter token @ [13]"]) (simp_all add: body)
  have h: "bufIndexOf body [13, 10, 13, 10] (?pos0 + 2) = Some (?pos0 + 2 + length h)"
    using headerEnd_found [of h "[13, 10, 13, 10]" "d @ [13, 10] @ delimiter token @ rest" ?pre1] hend
    by (simp add: body add.assoc)
  have next': "findDelimiter body token ?start = Some (?start + length d + 2)"
  proof -
    have "length ?pre2 = ?start" "body = ?pre2 @ d @ 13 # 10 # delimiter token @ rest" by (simp_all add: body)
    then show ?thesis using findDelimiter_next [OF content le0 token after, of ?pre2] by (simp only: add_0_right)
  qed
  have e: "byteAt body (?start + length d) = Some 13"
    by (rule byteAt_split [of _ "?pre2 @ d"]) (simp_all add: body)
  have e': "byteAt body (?start + length d + 1) = Some 10"
    by (rule byteAt_split [of _ "?pre2 @ d @ [13]"]) (simp_all add: body)
  have sub: "subarray body (?pos0 + 2) (?pos0 + 2 + length h) = h"
    by (rule subarray_split [of _ ?pre1]) (simp_all add: body)
  have sub': "subarray body ?start (?start + length d) = d"
    by (rule subarray_split [of _ ?pre2]) (simp_all add: body)
  show ?thesis
    using b b' h next' e e' sub sub' by (simp add: parsePart_def Let_def add.assoc)
qed

text \<open>The parts a reader gets back unchanged, and what they are read as.\<close>

definition nameOk :: "js_text \<Rightarrow> bool" where
  "nameOk n \<longleftrightarrow> list_all isScalar n \<and> 34 \<notin> set n \<and> 13 \<notin> set n"

fun wfHeader :: "FormPart \<Rightarrow> bool" where
  "wfHeader (FormField n v) \<longleftrightarrow> nameOk n \<and> n \<noteq> codes ''__proto__'' \<and> list_all isScalar v"
| "wfHeader (FormFile n f ct d) \<longleftrightarrow> nameOk n \<and> nameOk f \<and> \<not> endsFilename n
     \<and> list_all isScalar ct \<and> 13 \<notin> set ct \<and> trimText ct = ct"

text \<open>
  What makes \<open>--boundary\<close> a delimiter by what follows it: two more dashes, or blanks up to a line feed, alone or
  after a carriage return. A content is free of delimiters when no \<open>--boundary\<close> in it, wherever it stands in its
  line, is followed by one of these, the line break after the content included.
\<close>

definition closesLine :: "bytes \<Rightarrow> bool" where
  "closesLine y \<longleftrightarrow> take 2 y = [45, 45] \<or>
     (let z = dropWhile (\<lambda>b. b = 32 \<or> b = 9) y in take 2 z = [13, 10] \<or> take 1 z = [10])"

definition contentFree :: "bytes \<Rightarrow> bytes \<Rightarrow> bool" where
  "contentFree token d \<longleftrightarrow>
     list_all (\<lambda>i. occursAt (d @ [13, 10]) (delimiter token) i \<longrightarrow>
                  \<not> closesLine (drop (i + length (delimiter token)) (d @ [13, 10]))) [0..<length d + 2]"

definition wfPart :: "bytes \<Rightarrow> FormPart \<Rightarrow> bool" where
  "wfPart token p \<longleftrightarrow> wfHeader p \<and> contentFree token (partContent p)"

lemma take2_iff: "take 2 (drop q b) = [x, y] \<longleftrightarrow> byteAt b q = Some x \<and> byteAt b (q + 1) = Some y"
proof (cases "q + 1 < length b")
  case True
  then have "drop q b = b ! q # b ! (q + 1) # drop (q + 2) b" by (metis Cons_nth_drop_Suc Suc_eq_plus1 Suc_lessD add_2_eq_Suc' )
  then show ?thesis using True by (simp add: byteAt_def numeral_2_eq_2)
next
  case False
  have "take 2 (drop q b) \<noteq> [x, y]"
  proof
    assume "take 2 (drop q b) = [x, y]"
    then have "length (take 2 (drop q b)) = 2" by simp
    then show False using False by simp
  qed
  then show ?thesis using False by (auto simp: byteAt_def)
qed

lemma take1_iff: "take (Suc 0) (drop q b) = [x] \<longleftrightarrow> byteAt b q = Some x"
  by (cases "q < length b") (auto simp: byteAt_def take_Suc hd_drop_conv_nth)

lemma dropWhile_skipLws: "dropWhile (\<lambda>b. b = 32 \<or> b = 9) (drop p b) = drop (skipLws b p) b"
proof (induction b p rule: skipLws.induct)
  case (1 b p)
  show ?case
  proof (cases "p < length b")
    case True
    then have "drop p b = b ! p # drop (p + 1) b" by (simp add: Cons_nth_drop_Suc)
    then show ?thesis using 1 True by (subst skipLws.simps) (auto simp: byteAt_def)
  qed (subst skipLws.simps, simp add: byteAt_def)
qed

lemma endsDelimiter_closes: "endsDelimiter b p \<longleftrightarrow> closesLine (drop p b)"
  by (simp add: endsDelimiter_def closesLine_def dropWhile_skipLws Let_def take2_iff take1_iff)

lemma findDelimiter_Some:
  "findDelimiter body token start = Some i \<Longrightarrow>
     occursAt body (delimiter token) i \<and> i \<le> length body \<and> endsDelimiter body (i + length (delimiter token))"
proof (induction body token start rule: findDelimiter.induct)
  case (1 body token start)
  show ?case
  proof (cases "bufIndexOf body (delimiter token) start")
    case None
    then show ?thesis using 1(2) by (subst (asm) findDelimiter.simps) simp
  next
    case (Some k)
    then show ?thesis using 1(1) [OF Some] 1(2)
      by (cases "endsDelimiter body (k + length (delimiter token))";
          subst (asm) (2) findDelimiter.simps; simp add: bufIndexOf_Some)
  qed
qed

lemma contentFree_find:
  assumes "contentFree token d"
  shows "findDelimiter (d @ [13, 10]) token 0 = None"
proof (rule ccontr)
  assume "findDelimiter (d @ [13, 10]) token 0 \<noteq> None"
  then obtain i where i: "findDelimiter (d @ [13, 10]) token 0 = Some i" by auto
  note s = findDelimiter_Some [OF i]
  have "i < length d + 2"
  proof (rule ccontr)
    assume "\<not> i < length d + 2"
    then have "drop i (d @ [13, 10]) = []" by simp
    then show False using s by (simp add: occursAt_def delimiter_def)
  qed
  then have "i \<in> set [0..<length d + 2]" by auto
  then show False using assms s unfolding contentFree_def list_all_iff endsDelimiter_closes by blast
qed

fun readPart :: "FormPart \<Rightarrow> ParsedMultipart \<Rightarrow> ParsedMultipart" where
  "readPart (FormField n v) acc = acc\<lparr>pm_fields := (pm_fields acc)(n \<mapsto> v)\<rparr>"
| "readPart (FormFile n f ct d) acc =
     acc\<lparr>pm_files := pm_files acc @ [\<lparr>mf_name = n, mf_filename = Some f, mf_contentType = Some ct, mf_data = d\<rparr>]\<rparr>"

lemma header_names:
  "58 \<notin> set (codes ''Content-Disposition'')" "trimText (codes ''Content-Disposition'') = codes ''Content-Disposition''"
  "map lowerAscii (codes ''Content-Disposition'') = codes ''content-disposition''"
  "58 \<notin> set (codes ''Content-Type'')" "trimText (codes ''Content-Type'') = codes ''Content-Type''"
  "map lowerAscii (codes ''Content-Type'') = codes ''content-type''"
  "codes ''content-disposition'' \<noteq> codes ''__proto__''" "codes ''content-type'' \<noteq> codes ''__proto__''"
  "codes ''content-disposition'' \<noteq> codes ''content-type''"
  by (simp_all add: codes_def trimText_def isWhite_def lowerAscii_def)

lemma line_reads:
  "headerLine (codes ''Content-Disposition: '' @ v) out = out(codes ''content-disposition'' \<mapsto> trimText v)"
  "headerLine (codes ''Content-Type: '' @ v) out = out(codes ''content-type'' \<mapsto> trimText v)"
  using headerLine_reads [of "codes ''Content-Disposition''" v out] headerLine_reads [of "codes ''Content-Type''" v out]
  by (simp_all add: header_names) (simp_all add: codes_def)

lemma trim_disposition: "trimText (dispositionText p) = dispositionText p"
  by (rule trimText_id; cases p) (simp_all add: codes_literals isWhite_def)

lemma no_break_line: "wfHeader p \<Longrightarrow> l \<in> set (partLines p) \<Longrightarrow> 13 \<notin> set l"
  by (cases p) (auto simp: nameOk_def codes_def)

lemma scalar_lines: "wfHeader p \<Longrightarrow> list_all isScalar (joinCrlf (partLines p))"
  by (cases p) (auto simp: nameOk_def codes_def isScalar_def crlf_def list_all_iff)

lemma headers_read:
  assumes "wfHeader p"
  shows "parsePartHeaders (joinCrlf (partLines p)) = (case p of
       FormField n v \<Rightarrow> [codes ''content-disposition'' \<mapsto> dispositionText p]
     | FormFile n f ct d \<Rightarrow> [codes ''content-disposition'' \<mapsto> dispositionText p, codes ''content-type'' \<mapsto> ct])"
proof (cases p)
  case (FormField n v)
  then show ?thesis using no_break_line [OF assms] trim_disposition [of p]
    by (simp add: parsePartHeaders_def splitCrlf_line line_reads del: dispositionText.simps)
next
  case (FormFile n f ct d)
  then have "trimText ct = ct" using assms by simp
  moreover have "splitCrlf (joinCrlf (partLines p)) = partLines p"
  proof -
    obtain l1 l2 where l: "partLines p = [l1, l2]" by (simp add: FormFile)
    then show ?thesis using no_break_line [OF assms, of l1] no_break_line [OF assms, of l2]
      by (simp add: crlf_def splitCrlf_line splitCrlf_append)
  qed
  ultimately show ?thesis using trim_disposition [of p]
    by (simp add: FormFile parsePartHeaders_def line_reads del: dispositionText.simps)
qed

lemma addPart_reads:
  assumes "wfHeader p"
  shows "addPart (parsePartHeaders (joinCrlf (partLines p))) (partContent p) acc = readPart p acc"
proof (cases p)
  case (FormField n v)
  then show ?thesis using assms headers_read [OF assms]
    by (simp add: addPart_def Let_def nameOk_def dispositionParam_name [of n "[]"] dispositionParam_no_filename setProp_def utf8_roundtrip)
next
  case (FormFile n f ct d)
  then show ?thesis using assms headers_read [OF assms] header_names(9)
    by (simp add: addPart_def Let_def nameOk_def dispositionParam_name dispositionParam_filename)
qed

lemma header_end_built:
  assumes "wfHeader p"
  shows "\<forall>rest. \<forall>j < length (utf8Encode (joinCrlf (partLines p))).
    \<not> occursAt (utf8Encode (joinCrlf (partLines p)) @ [13, 10, 13, 10] @ rest) [13, 10, 13, 10] j"
proof -
  have no13: "13 \<notin> set (utf8Encode l)" if "l \<in> set (partLines p)" for l
    using no_break_line [OF assms that] utf8_low_bytes [of 13 l] by auto
  show ?thesis
  proof (cases p)
    case (FormField n v)
    then obtain l where "partLines p = [l]" by simp
    then show ?thesis using no13 [of l] one_line_end by simp
  next
    case (FormFile n f ct d)
    then obtain l1 l2 where l: "partLines p = [l1, l2]" "l2 = codes ''Content-Type: '' @ ct" by simp
    have enc: "utf8Encode (joinCrlf (partLines p)) = utf8Encode l1 @ [13, 10] @ utf8Encode l2"
      using utf8_append [of l1 "crlf @ l2"] utf8_append [of crlf l2] by (simp add: l(1) crlf_def utf8_ascii [of "[13, 10]"])
    have "utf8Encode l2 \<noteq> []" by (simp add: l(2) utf8_append utf8_ascii [of "codes ''Content-Type: ''"]) (simp add: codes_def utf8Encode_def utf8Bytes_def isScalar_def)
    then show ?thesis using two_lines_end [OF _ _ _ enc] no13 [of l1] no13 [of l2] l(1) by simp
  qed
qed

lemma buildBody_starts:
  "\<exists>rest. buildBody token ps = delimiter token @ rest \<and> endsDelimiter (delimiter token @ rest) (length (delimiter token))"
proof -
  obtain rest where rest: "buildBody token ps = delimiter token @ rest" "take 2 rest = [45, 45] \<or> take 2 rest = [13, 10]"
    by (cases ps) (auto simp: buildBody_def partBytes_def crlf_def)
  have "endsDelimiter rest 0"
  proof (cases "take 2 rest = [45, 45]")
    case True
    then show ?thesis by (cases rest; cases "tl rest") (auto simp: endsDelimiter_def)
  next
    case False
    then obtain s where "rest = 13 # 10 # s" using rest(2) by (cases rest; cases "tl rest") auto
    then show ?thesis by (simp add: endsDelimiter_def Let_def) (subst (1 2 3) skipLws.simps, simp)
  qed
  then show ?thesis using rest(1) endsDelimiter_append [of "delimiter token" rest 0] by auto
qed

lemma parseParts_built:
  assumes "\<forall>p \<in> set ps. wfPart token p" "13 \<notin> set token" "10 \<notin> set token"
  shows "parseParts (pre @ buildBody token ps) token (length pre) acc = fold readPart ps acc"
  using assms(1)
proof (induction ps arbitrary: pre acc)
  case Nil
  have "byteAt (pre @ buildBody token []) (length pre + length (delimiter token)) = Some 45"
    by (rule byteAt_split [of _ "pre @ delimiter token"]) (simp_all add: buildBody_def)
  moreover have "byteAt (pre @ buildBody token []) (length pre + length (delimiter token) + 1) = Some 45"
    by (rule byteAt_split [of _ "pre @ delimiter token @ [45]"]) (simp_all add: buildBody_def)
  ultimately have "parsePart (pre @ buildBody token []) token (length pre) acc = None"
    by (simp add: parsePart_def Let_def) (simp add: buildBody_def)
  then show ?case by (subst parseParts.simps) simp
next
  case (Cons p ps)
  let ?h = "utf8Encode (joinCrlf (partLines p))" and ?d = "partContent p"
  obtain rest where rest: "buildBody token ps = delimiter token @ rest"
      "endsDelimiter (delimiter token @ rest) (length (delimiter token))"
    using buildBody_starts by blast
  have wf: "wfHeader p" "findDelimiter (?d @ [13, 10]) token 0 = None"
    using Cons.prems contentFree_find by (auto simp: wfPart_def)
  have body: "pre @ buildBody token (p # ps) = (pre @ partBytes token p) @ buildBody token ps"
    by (simp add: buildBody_def)
  then have "pre @ buildBody token (p # ps) =
      pre @ delimiter token @ [13, 10] @ ?h @ [13, 10, 13, 10] @ ?d @ [13, 10] @ delimiter token @ rest"
    by (simp add: rest(1) partBytes_def crlf_def)
  from parsePart_at [OF header_end_built [OF wf(1)] wf(2) assms(2,3) rest(2) this, of acc]
  have "parsePart (pre @ buildBody token (p # ps)) token (length pre) acc = Some (readPart p acc, length (pre @ partBytes token p))"
    using addPart_reads [OF wf(1), of acc] utf8_roundtrip [OF scalar_lines [OF wf(1)]]
    by (simp add: partBytes_def crlf_def)
  then show ?case using Cons.IH [of "pre @ partBytes token p" "readPart p acc"] Cons.prems
    by (subst parseParts.simps) (simp only: body option.case prod.case list.set ball_simps fold_simps Cons.prems, simp)
qed

section \<open>Properties\<close>

text \<open>
  C22: the parser returns what a client sends, in the cases in which it does. Take a content type with a boundary that
  has no line break, and a list of fields and files such that: names, file names and field values are Unicode texts;
  names and file names have no quote and no carriage return; no field is called \<open>__proto__\<close>; no file part has a name
  that ends in \<open>filename=\<close> (the quote after it would be taken for the start of the file name); a file's content type has no
  carriage return and no blanks around it; and no content has, anywhere in a line, \<open>--boundary\<close> followed by
  \<open>--\<close> or by blanks and the end of the line. Then parsing the body built from them gives exactly these fields
  (the last of a name counts) and these files in order, the bytes of every file unchanged.
\<close>
theorem multipart_roundtrip:
  assumes "extractBoundary contentType = Some boundary" "13 \<notin> set boundary" "10 \<notin> set boundary"
    and "\<forall>p \<in> set ps. wfPart (utf8Encode boundary) p"
  shows "parseMultipart (buildBody (utf8Encode boundary) ps) contentType
     = Inr (fold readPart ps \<lparr>pm_fields = Map.empty, pm_files = []\<rparr>)"
proof -
  let ?token = "utf8Encode boundary"
  have token: "13 \<notin> set ?token" "10 \<notin> set ?token"
    using assms(2,3) utf8_low_bytes [of 13 boundary] utf8_low_bytes [of 10 boundary] by auto
  obtain rest where rest: "buildBody ?token ps = delimiter ?token @ rest"
      "endsDelimiter (delimiter ?token @ rest) (length (delimiter ?token))"
    using buildBody_starts by blast
  have "bufIndexOf (buildBody ?token ps) (delimiter ?token) 0 = Some 0" by (simp add: rest(1) bufIndexOf_Some)
  then have "findDelimiter (buildBody ?token ps) ?token 0 = Some 0"
    using rest by (subst findDelimiter.simps) simp
  then show ?thesis
    using assms(1) parseParts_built [OF assms(4) token, of "[]"] by (simp add: parseMultipart_def Let_def)
qed

text \<open>
  A delimiter need not start a line: a content that has \<open>--boundary\<close> before a line break ends there, whatever
  precedes it in its line.
\<close>
lemma multipart_cuts_mid_line:
  assumes "\<forall>j < length x. \<not> occursAt (x @ delimiter token @ crlf @ rest) (delimiter token) j"
  shows "findDelimiter (pre @ x @ delimiter token @ crlf @ rest) token (length pre) = Some (length pre + length x)"
proof -
  have "endsDelimiter (crlf @ rest) 0" by (simp add: endsDelimiter_def Let_def crlf_def) (subst (1 2 3) skipLws.simps, simp)
  then have "endsDelimiter (pre @ x @ delimiter token @ crlf @ rest) (length pre + length x + length (delimiter token))"
    using endsDelimiter_append [of "pre @ x @ delimiter token" "crlf @ rest" 0] by (simp add: add.assoc)
  then show ?thesis using headerEnd_found [OF assms, of pre] by (subst findDelimiter.simps) simp
qed

text \<open>
  The name of a part is the first \<open>name="..."\<close> of its disposition, also when that is the end of \<open>filename="..."\<close>: a
  part that gives its file name first is read under its file name.
\<close>
lemma multipart_name_is_filename:
  assumes "34 \<notin> set f"
  shows "dispositionParam (codes ''form-data; filename='' @ 34 # f @ 34 # codes ''; name='' @ 34 # n @ [34]) (codes ''name'') = Some f"
  using assms by (simp add: codes_def ciPrefix_def lowerAscii_def takeWhile_quote)

section \<open>Witnesses\<close>

definition wParts :: "FormPart list" where
  "wParts = [FormField (codes ''model'') (codes ''whisper-1''),
     FormFile (codes ''file'') (codes ''a.wav'') (codes ''audio/wav'') [0, 255, 13, 10, 45, 45, 98, 45, 120]]"

theorem multipart_roundtrip_witness:
  "parseMultipart (buildBody (codes ''b'') wParts) (codes ''multipart/form-data; boundary=b'')
     = Inr (fold readPart wParts \<lparr>pm_fields = Map.empty, pm_files = []\<rparr>)"
proof -
  have "extractBoundary (codes ''multipart/form-data; boundary=b'') = Some (codes ''b'')"
    by (simp add: extractBoundary_def codes_def ciPrefix_def lowerAscii_def trimText_def isWhite_def boundaryToken_def Let_def)
  moreover have "13 \<notin> set (codes ''b'')" "10 \<notin> set (codes ''b'')" by code_simp+
  moreover have enc: "utf8Encode (codes ''b'') = codes ''b''" "utf8Encode (codes ''whisper-1'') = codes ''whisper-1''"
    by (rule utf8_ascii, simp add: codes_def)+
  moreover have "wfPart (codes ''b'') p" if "p \<in> set wParts" for p
  proof -
    have "contentFree (codes ''b'') (codes ''whisper-1'')"
      "contentFree (codes ''b'') [0, 255, 13, 10, 45, 45, 98, 45, 120]" by code_simp+
    moreover have "list_all wfHeader wParts"
      by (simp add: wParts_def nameOk_def codes_def isScalar_def endsFilename_def trimText_def isWhite_def)
    ultimately show ?thesis using that enc(2) by (auto simp: wfPart_def wParts_def)
  qed
  ultimately show ?thesis using multipart_roundtrip [of _ "codes ''b''" wParts] by simp
qed

end
