(* ===== verification/Routing_Lifecycle.thy ===== *)
theory Routing_Lifecycle
  imports Routing_Diff Mutation_Lock
begin

text \<open>
  Review, approval and adoption of a routing table, \<open>src/homeserver/routing-lifecycle.ts\<close>: a candidate is validated
  against the table in force, approved by a person, written to the table file under the mutation lease, reloaded by
  the gateway, checked by a canary, and undone when anything fails.

  The content of the table file is the JSON value it holds with its layout, or a text that is no JSON. Digests are
  parameters. What other processes do while an adoption runs is a list of operations on the lease and of writes
  fenced by their own tokens; the answers of file system, gateway and catalogue are arguments.
\<close>

section \<open>Tables\<close>

record RoutingTableDoc =
  doc_generatedAtMs :: "millis option"
  doc_routing :: "(string \<times> RoutingEntry) list"
  doc_escalateToFrontier :: "string list"
  doc_rest :: string

text \<open>A table as read back: a part that is absent, or no object, is \<open>None\<close>.\<close>

record TableJson =
  tj_routing :: "(string \<times> RoutingEntry) list option"
  tj_escalate :: "string list option"
  tj_rest :: "millis option \<times> string"

datatype TableRaw = JsonRaw string TableJson | NotJson string

definition docJson :: "RoutingTableDoc \<Rightarrow> TableJson" where
  "docJson d = \<lparr>tj_routing = Some (doc_routing d), tj_escalate = Some (doc_escalateToFrontier d),
     tj_rest = (doc_generatedAtMs d, doc_rest d)\<rparr>"

definition candidateJson :: "RoutingTableDoc \<Rightarrow> TableRaw" where
  "candidateJson d = JsonRaw ''pretty'' (docJson d)"

fun tableContentHash :: "(TableJson \<Rightarrow> string) \<Rightarrow> TableRaw option \<Rightarrow> string option" where
  "tableContentHash digest None = Some ''(none)''"
| "tableContentHash digest (Some (JsonRaw layout j)) = Some (digest j)"
| "tableContentHash digest (Some (NotJson s)) = None"

section \<open>Validation\<close>

datatype ValidationCode = TaxonomyIncomplete | ModelUnavailable | EvidenceStale | CapabilityDowngrade
  | PolicyEpochMismatch | InadmissibleOrganicEvidence

text \<open>The explanations are texts; an issue is its code and task type.\<close>

type_synonym ValidationIssue = "ValidationCode \<times> string option"

record ValidationResult =
  vr_ok :: bool
  vr_issues :: "ValidationIssue list"

record RouteLineage =
  rl_taskType :: string
  rl_entry :: RoutingEntry
  rl_organicJudgeDependent :: bool

record CalibrationGateSummary =
  cg_go :: bool
  cg_enabled :: bool

definition gateAdmitsOrganicEvidence :: "CalibrationGateSummary option \<Rightarrow> bool" where
  "gateAdmitsOrganicEvidence gate = (case gate of None \<Rightarrow> False | Some g \<Rightarrow> cg_go g \<and> cg_enabled g)"

record ValidateCandidateInputs =
  vi_candidate :: RoutingTableDoc
  vi_diff :: RoutingTableDiff
  vi_deterministicDiff :: RoutingTableDiff
  vi_servableModelIds :: "string list option"
  vi_requiredTaskTypes :: "string list"
  vi_freshnessMaxAgeMs :: millis
  vi_nowMs :: "millis option"
  vi_calibrationGate :: "CalibrationGateSummary option"
  vi_policyEpochHash :: string
  vi_expectedPolicyEpochHash :: string

definition taxonomyIssues :: "ValidateCandidateInputs \<Rightarrow> ValidationIssue list" where
  "taxonomyIssues p = map (\<lambda>t. (TaxonomyIncomplete, Some t))
     (filter (\<lambda>t. t \<notin> fst ` set (doc_routing (vi_candidate p))) (vi_requiredTaskTypes p))"

definition modelIssues :: "ValidateCandidateInputs \<Rightarrow> ValidationIssue list" where
  "modelIssues p = map (\<lambda>(t, e). (ModelUnavailable, Some t))
     (filter (\<lambda>(t, e). case model e of
                         None \<Rightarrow> False
                       | Some m \<Rightarrow> (case vi_servableModelIds p of None \<Rightarrow> True | Some ids \<Rightarrow> m \<notin> set ids))
        (doc_routing (vi_candidate p)))"

definition freshnessIssues :: "ValidateCandidateInputs \<Rightarrow> ValidationIssue list" where
  "freshnessIssues p =
     (case (doc_generatedAtMs (vi_candidate p), vi_nowMs p) of
        (Some generatedAtMs, Some nowMs) \<Rightarrow>
          if nowMs - generatedAtMs < 0 \<or> nowMs - generatedAtMs > vi_freshnessMaxAgeMs p then [(EvidenceStale, None)] else []
      | _ \<Rightarrow> [(EvidenceStale, None)])"

definition downgradeIssues :: "ValidateCandidateInputs \<Rightarrow> ValidationIssue list" where
  "downgradeIssues p = map (\<lambda>d. (CapabilityDowngrade, Some (rc_taskType d))) (downgrades (vi_diff p))"

definition epochIssues :: "ValidateCandidateInputs \<Rightarrow> ValidationIssue list" where
  "epochIssues p = (if vi_policyEpochHash p \<noteq> vi_expectedPolicyEpochHash p then [(PolicyEpochMismatch, None)] else [])"

text \<open>A change that the candidate without organic-judge evidence reaches too.\<close>

definition survivesWithoutOrganic :: "RoutingTableDiff \<Rightarrow> RouteChange \<Rightarrow> bool" where
  "survivesWithoutOrganic deterministic c =
     (case (Option.bind (map_of (map (\<lambda>x. (rc_taskType x, rc_after x)) (rev (changes deterministic))) (rc_taskType c)) id, rc_after c) of
        (Some d, Some a) \<Rightarrow> rs_model d = rs_model a \<and> rs_verdict d = rs_verdict a
      | _ \<Rightarrow> False)"

definition organicDependent :: "ValidateCandidateInputs \<Rightarrow> string list" where
  "organicDependent p = map rc_taskType
     (filter (\<lambda>c. rc_kind c \<noteq> Unchanged \<and> \<not> survivesWithoutOrganic (vi_deterministicDiff p) c) (changes (vi_diff p)))"

definition organicIssues :: "ValidateCandidateInputs \<Rightarrow> ValidationIssue list" where
  "organicIssues p = (if gateAdmitsOrganicEvidence (vi_calibrationGate p) then []
     else map (\<lambda>t. (InadmissibleOrganicEvidence, Some t)) (organicDependent p))"

definition validateCandidate :: "ValidateCandidateInputs \<Rightarrow> ValidationIssue list \<times> RouteLineage list" where
  "validateCandidate p =
     (taxonomyIssues p @ modelIssues p @ freshnessIssues p @ downgradeIssues p @ epochIssues p @ organicIssues p,
      map (\<lambda>(t, e). \<lparr>rl_taskType = t, rl_entry = e, rl_organicJudgeDependent = t \<in> set (organicDependent p)\<rparr>)
        (doc_routing (vi_candidate p)))"

section \<open>The decision artifact and its approval\<close>

record RoutingDecisionArtifact =
  ra_candidateHash :: string
  ra_adoptedHash :: "string option"
  ra_policyEpochHash :: string
  ra_diff :: RoutingTableDiff
  ra_validation :: ValidationResult
  ra_lineage :: "RouteLineage list"
  ra_candidate :: RoutingTableDoc

record BuildArtifactInputs =
  bi_candidate :: RoutingTableDoc
  bi_deterministicCandidate :: RoutingTableDoc
  bi_adopted :: "TableJson option"
  bi_servableModelIds :: "string list option"
  bi_requiredTaskTypes :: "string list"
  bi_freshnessMaxAgeMs :: millis
  bi_nowMs :: "millis option"
  bi_calibrationGate :: "CalibrationGateSummary option"
  bi_policyEpochHash :: string
  bi_expectedPolicyEpochHash :: string

definition buildDecisionArtifact :: "(TableJson \<Rightarrow> string) \<Rightarrow> BuildArtifactInputs \<Rightarrow> RoutingDecisionArtifact" where
  "buildDecisionArtifact digest inp =
     (let current = Option.bind (bi_adopted inp) tj_routing;
          diff = diffRoutingTables current (Some (doc_routing (bi_candidate inp)));
          deterministicDiff = diffRoutingTables current (Some (doc_routing (bi_deterministicCandidate inp)));
          (issues, lineage) = validateCandidate
            \<lparr>vi_candidate = bi_candidate inp, vi_diff = diff, vi_deterministicDiff = deterministicDiff,
             vi_servableModelIds = bi_servableModelIds inp, vi_requiredTaskTypes = bi_requiredTaskTypes inp,
             vi_freshnessMaxAgeMs = bi_freshnessMaxAgeMs inp, vi_nowMs = bi_nowMs inp,
             vi_calibrationGate = bi_calibrationGate inp, vi_policyEpochHash = bi_policyEpochHash inp,
             vi_expectedPolicyEpochHash = bi_expectedPolicyEpochHash inp\<rparr>
      in \<lparr>ra_candidateHash = digest (docJson (bi_candidate inp)), ra_adoptedHash = map_option digest (bi_adopted inp),
          ra_policyEpochHash = bi_policyEpochHash inp, ra_diff = diff,
          ra_validation = \<lparr>vr_ok = (issues = []), vr_issues = issues\<rparr>, ra_lineage = lineage,
          ra_candidate = bi_candidate inp\<rparr>)"

text \<open>What the digest of an approval covers.\<close>

type_synonym ArtifactContent = "string \<times> string option \<times> string \<times> RoutingTableDiff \<times> ValidationResult"

definition artifactContentHash :: "(ArtifactContent \<Rightarrow> string) \<Rightarrow> RoutingDecisionArtifact \<Rightarrow> string" where
  "artifactContentHash hash a =
     hash (ra_candidateHash a, ra_adoptedHash a, ra_policyEpochHash a, ra_diff a, ra_validation a)"

record ApprovalToken =
  at_approvedBy :: string
  at_reason :: string
  at_decisionRef :: string
  at_approvedAt :: string
  at_artifactHash :: string

datatype AdoptError = ApprovalRefusedError | ApprovalMismatchError | PolicyEpochStaleError | PriorReadError
  | PriorHashMismatch | LeaseStale int | CatalogueError

definition approveArtifact ::
  "(ArtifactContent \<Rightarrow> string) \<Rightarrow> RoutingDecisionArtifact \<Rightarrow> string \<Rightarrow> string \<Rightarrow> string \<Rightarrow> string \<Rightarrow> AdoptError + ApprovalToken" where
  "approveArtifact hash a approvedBy reason decisionRef approvedAt =
     (if \<not> vr_ok (ra_validation a) then Inl ApprovalRefusedError
      else if js_trim approvedBy = [] \<or> js_trim reason = [] \<or> js_trim decisionRef = [] then Inl ApprovalRefusedError
      else Inr \<lparr>at_approvedBy = js_trim approvedBy, at_reason = js_trim reason, at_decisionRef = js_trim decisionRef,
                at_approvedAt = approvedAt, at_artifactHash = artifactContentHash hash a\<rparr>)"

section \<open>Canary\<close>

record CanaryCheckResult =
  cc_taskType :: string
  cc_expectedTarget :: string
  cc_actualTarget :: string
  cc_ok :: bool

definition canaryCheck ::
  "RoutingTable \<Rightarrow> RoutingTableDoc \<Rightarrow> string list option \<Rightarrow> string \<Rightarrow> CanaryCheckResult" where
  "canaryCheck reloaded candidate servableModelIds taskType =
     (let expected = routingTarget taskType
            (Some \<lparr>routing = doc_routing candidate, escalateToFrontier = doc_escalateToFrontier candidate\<rparr>);
          actual = routingTarget taskType (Some reloaded);
          namesRealModel = (expected \<noteq> FRONTIER \<and> expected \<noteq> UNKNOWN_ROUTE);
          servable = (\<not> namesRealModel \<or> (case servableModelIds of None \<Rightarrow> False | Some ids \<Rightarrow> expected \<in> set ids))
      in \<lparr>cc_taskType = taskType, cc_expectedTarget = expected, cc_actualTarget = actual,
          cc_ok = (expected = actual \<and> servable)\<rparr>)"

definition runCanary ::
  "string list \<Rightarrow> RoutingTable \<Rightarrow> RoutingTableDoc \<Rightarrow> string list option \<Rightarrow> bool \<times> CanaryCheckResult list" where
  "runCanary changedTaskTypes reloaded candidate servableModelIds =
     (let checks = map (canaryCheck reloaded candidate servableModelIds) changedTaskTypes
      in (list_all cc_ok checks, checks))"

section \<open>The world of an adoption\<close>

record RoutingWorld =
  rw_file :: "TableRaw option"
  rw_lease :: LeaseDb

text \<open>What other processes do: operations on the lease, and writes or deletions fenced by a token of theirs.\<close>

datatype OtherOp = OtherLock LockOp | OtherWrite int "TableRaw option"

fun other_exec :: "OtherOp \<Rightarrow> RoutingWorld \<Rightarrow> RoutingWorld" where
  "other_exec (OtherLock oper) w = w\<lparr>rw_lease := snd (lock_exec oper (rw_lease w))\<rparr>"
| "other_exec (OtherWrite u f) w =
     w\<lparr>rw_file := snd (fencedWrite (rw_lease w) u (\<lambda>_. (Inr (), f)) (rw_file w))\<rparr>"

definition others :: "OtherOp list \<Rightarrow> RoutingWorld \<Rightarrow> RoutingWorld" where
  "others ops w = fold other_exec ops w"

text \<open>How a write of the file system ends: a failing one leaves any content behind.\<close>

datatype WriteReply = WriteDone | WriteThrows "TableRaw option"

definition writeTable :: "WriteReply \<Rightarrow> TableRaw \<Rightarrow> TableRaw option \<Rightarrow> (LockError + unit) \<times> TableRaw option" where
  "writeTable reply data f = (case reply of WriteDone \<Rightarrow> (Inr (), Some data) | WriteThrows left \<Rightarrow> (Inl (ActionError ''write''), left))"

definition withFencing ::
  "int option \<Rightarrow> (TableRaw option \<Rightarrow> (LockError + unit) \<times> TableRaw option) \<Rightarrow> RoutingWorld \<Rightarrow> (LockError + unit) \<times> RoutingWorld" where
  "withFencing leaseContext fn w =
     (let (r, f) = (case leaseContext of None \<Rightarrow> fn (rw_file w) | Some token \<Rightarrow> fencedWrite (rw_lease w) token fn (rw_file w))
      in (r, w\<lparr>rw_file := f\<rparr>))"

text \<open>The gateway's answer to a reload, what others do meanwhile, and the time of the renewal.\<close>

datatype ReloadReply = ReloadOk | ReloadNotOk | ReloadThrows | ReloadHangs

record ReloadCall =
  rl_reply :: ReloadReply
  rl_during :: "OtherOp list"
  rl_nowMs :: millis

definition reloadAndRenew :: "int option \<Rightarrow> ReloadCall \<Rightarrow> RoutingWorld \<Rightarrow> bool \<times> RoutingWorld" where
  "reloadAndRenew leaseContext call w =
     (let w1 = others (rl_during call) w
      in (rl_reply call = ReloadOk,
          case leaseContext of
            None \<Rightarrow> w1
          | Some token \<Rightarrow> w1\<lparr>rw_lease := snd (renewMutationLock token (rl_nowMs call) (rw_lease w1))\<rparr>))"

record RollbackRecord =
  rb_restored :: "TableRaw option"
  restoreWriteOk :: bool
  staleLeaseRefused :: bool
  reloadOk :: bool

definition isStaleRefusal :: "LockError + 'a \<Rightarrow> bool" where
  "isStaleRefusal r = (case r of Inl (MutationLockStaleError t) \<Rightarrow> True | _ \<Rightarrow> False)"

definition isOkay :: "LockError + 'a \<Rightarrow> bool" where
  "isOkay r = (case r of Inr x \<Rightarrow> True | Inl e \<Rightarrow> False)"

definition performRollback ::
  "int option \<Rightarrow> TableRaw option \<Rightarrow> WriteReply \<Rightarrow> ReloadCall \<Rightarrow> RoutingWorld \<Rightarrow> RollbackRecord \<times> RoutingWorld" where
  "performRollback leaseContext priorRaw reply call w =
     (let (r, w1) = (case priorRaw of None \<Rightarrow> (Inr (), w) | Some raw \<Rightarrow> withFencing leaseContext (writeTable reply raw) w);
          (ok, w2) = reloadAndRenew leaseContext call w1
      in (\<lparr>rb_restored = priorRaw, restoreWriteOk = isOkay r, staleLeaseRefused = isStaleRefusal r, reloadOk = ok\<rparr>, w2))"

datatype DeleteReply = DeleteDone | DeleteGone | DeleteThrows "TableRaw option"

definition deleteTable :: "DeleteReply \<Rightarrow> TableRaw option \<Rightarrow> (LockError + unit) \<times> TableRaw option" where
  "deleteTable reply f = (case reply of
       DeleteDone \<Rightarrow> if f = None then (Inl (ActionError ''ENOENT''), None) else (Inr (), None)
     | DeleteGone \<Rightarrow> (Inl (ActionError ''ENOENT''), f)
     | DeleteThrows left \<Rightarrow> (Inl (ActionError ''delete''), left))"

text \<open>\<open>supplied\<close>: whether the dependencies have \<open>deleteTable\<close> at all.\<close>

definition deleteTableAndReload ::
  "int option \<Rightarrow> bool \<Rightarrow> DeleteReply \<Rightarrow> ReloadCall \<Rightarrow> RoutingWorld \<Rightarrow> RollbackRecord \<times> RoutingWorld" where
  "deleteTableAndReload leaseContext supplied reply call w =
     (let (r, w1) = (if supplied then withFencing leaseContext (deleteTable reply) w else (Inl (ActionError ''not supplied''), w));
          (ok, w2) = reloadAndRenew leaseContext call w1
      in (\<lparr>rb_restored = None, restoreWriteOk = (isOkay r \<or> r = Inl (ActionError ''ENOENT'')),
           staleLeaseRefused = isStaleRefusal r, reloadOk = ok\<rparr>, w2))"

section \<open>Adoption\<close>

datatype PriorOption = ReadPrior | VerifiedPrior "TableRaw option" "string option"

text \<open>
  The answers of one adoption: whether the prior read fails, what others do before the candidate write, that write,
  the reload, whether the read-back fails, the servable models, what others do before a restore, that restore and its reload.
\<close>

datatype ServableReply = Servable "string list option" | ServableThrows

record AdoptCalls =
  ac_leaseContext :: "int option"
  ac_policyEpochHash :: string
  ac_priorReadFails :: bool
  ac_beforeWrite :: "OtherOp list"
  ac_write :: WriteReply
  ac_reload :: ReloadCall
  ac_readBackFails :: bool
  ac_servable :: ServableReply
  ac_nowIso :: string
  ac_beforeRestore :: "OtherOp list"
  ac_restore :: WriteReply
  ac_reloadAgain :: ReloadCall

record AdoptionRecord =
  ar_adoptedAt :: string
  ar_candidateHash :: string
  ar_approvedBy :: string
  ar_decisionRef :: string
  ar_reason :: string
  ar_policyEpochHash :: string
  ar_lineage :: "RouteLineage list"

definition adoptionRecord :: "string \<Rightarrow> RoutingDecisionArtifact \<Rightarrow> ApprovalToken \<Rightarrow> AdoptionRecord" where
  "adoptionRecord nowIso artifact approval =
     \<lparr>ar_adoptedAt = nowIso, ar_candidateHash = ra_candidateHash artifact, ar_approvedBy = at_approvedBy approval,
      ar_decisionRef = at_decisionRef approval, ar_reason = at_reason approval,
      ar_policyEpochHash = ra_policyEpochHash artifact, ar_lineage = ra_lineage artifact\<rparr>"

datatype AdoptOutcome = Adopted AdoptionRecord | RolledBack AdoptionRecord RollbackRecord "CanaryCheckResult list"
  | ReloadFailed RollbackRecord | WriteFailed RollbackRecord

definition changedTaskTypes :: "RoutingTableDiff \<Rightarrow> string list" where
  "changedTaskTypes d = map rc_taskType (filter (\<lambda>c. rc_kind c \<noteq> Unchanged) (changes d))"

definition reloadedTable :: "bool \<Rightarrow> TableRaw option \<Rightarrow> RoutingTable option" where
  "reloadedTable fails f =
     (case f of
        Some (JsonRaw layout j) \<Rightarrow>
          if fails then None
          else map_option (\<lambda>r. \<lparr>routing = r, escalateToFrontier = (case tj_escalate j of None \<Rightarrow> [] | Some e \<Rightarrow> e)\<rparr>) (tj_routing j)
      | _ \<Rightarrow> None)"

definition priorOf ::
  "(TableJson \<Rightarrow> string) \<Rightarrow> PriorOption \<Rightarrow> bool \<Rightarrow> TableRaw option \<Rightarrow> AdoptError + TableRaw option" where
  "priorOf digest opts readFails file =
     (case opts of
        ReadPrior \<Rightarrow> if readFails then Inl PriorReadError else Inr file
      | VerifiedPrior raw None \<Rightarrow> Inr raw
      | VerifiedPrior raw (Some h) \<Rightarrow> if tableContentHash digest raw = Some h then Inr raw else Inl PriorHashMismatch)"

definition undo :: "AdoptCalls \<Rightarrow> TableRaw option \<Rightarrow> RoutingWorld \<Rightarrow> RollbackRecord \<times> RoutingWorld" where
  "undo calls priorRaw w =
     performRollback (ac_leaseContext calls) priorRaw (ac_restore calls) (ac_reloadAgain calls) (others (ac_beforeRestore calls) w)"

text \<open>From the candidate write on.\<close>

definition deployCandidate ::
  "RoutingDecisionArtifact \<Rightarrow> ApprovalToken \<Rightarrow> AdoptCalls \<Rightarrow> TableRaw option \<Rightarrow> RoutingWorld
    \<Rightarrow> (AdoptError + AdoptOutcome) \<times> RoutingWorld" where
  "deployCandidate artifact approval calls priorRaw w =
     (case withFencing (ac_leaseContext calls) (writeTable (ac_write calls) (candidateJson (ra_candidate artifact))) w of
        (Inl (MutationLockStaleError t), w1) \<Rightarrow> (Inl (LeaseStale t), w1)
      | (Inl e, w1) \<Rightarrow> (let (rb, w2) = undo calls priorRaw w1 in (Inr (WriteFailed rb), w2))
      | (Inr u, w1) \<Rightarrow>
          let (ok, w2) = reloadAndRenew (ac_leaseContext calls) (ac_reload calls) w1
          in if \<not> ok then (let (rb, w3) = undo calls priorRaw w2 in (Inr (ReloadFailed rb), w3))
             else case reloadedTable (ac_readBackFails calls) (rw_file w2) of
                    None \<Rightarrow> (let (rb, w3) = undo calls priorRaw w2 in (Inr (ReloadFailed rb), w3))
                  | Some table \<Rightarrow>
                      (case ac_servable calls of
                         ServableThrows \<Rightarrow> (Inl CatalogueError, w2)
                       | Servable ids \<Rightarrow>
                           let (ok, checks) = runCanary (changedTaskTypes (ra_diff artifact)) table (ra_candidate artifact) ids;
                               rec = adoptionRecord (ac_nowIso calls) artifact approval
                           in if \<not> ok
                              then (let (rb, w3) = undo calls priorRaw w2 in (Inr (RolledBack rec rb checks), w3))
                              else (Inr (Adopted rec), w2)))"

definition adoptRoutingTable ::
  "(TableJson \<Rightarrow> string) \<Rightarrow> (ArtifactContent \<Rightarrow> string) \<Rightarrow> RoutingDecisionArtifact \<Rightarrow> ApprovalToken \<Rightarrow> AdoptCalls \<Rightarrow> PriorOption
    \<Rightarrow> RoutingWorld \<Rightarrow> (AdoptError + AdoptOutcome) \<times> RoutingWorld" where
  "adoptRoutingTable digest hash artifact approval calls opts w =
     (if at_artifactHash approval \<noteq> artifactContentHash hash artifact then (Inl ApprovalMismatchError, w)
      else if \<not> vr_ok (ra_validation artifact) then (Inl ApprovalRefusedError, w)
      else if ra_policyEpochHash artifact \<noteq> ac_policyEpochHash calls then (Inl PolicyEpochStaleError, w)
      else case priorOf digest opts (ac_priorReadFails calls) (rw_file w) of
             Inl e \<Rightarrow> (Inl e, w)
           | Inr priorRaw \<Rightarrow> deployCandidate artifact approval calls priorRaw (others (ac_beforeWrite calls) w))"

definition manualRollback ::
  "int option \<Rightarrow> TableRaw \<Rightarrow> WriteReply \<Rightarrow> ReloadCall \<Rightarrow> RoutingWorld \<Rightarrow> RollbackRecord \<times> RoutingWorld" where
  "manualRollback leaseContext snapshotRaw reply call w = performRollback leaseContext (Some snapshotRaw) reply call w"

section \<open>What others can do\<close>

definition foreignOp :: "int \<Rightarrow> OtherOp \<Rightarrow> bool" where
  "foreignOp t oper = (case oper of OtherLock l \<Rightarrow> True | OtherWrite u f \<Rightarrow> u \<noteq> t)"

definition foreignCalls :: "int \<Rightarrow> AdoptCalls \<Rightarrow> bool" where
  "foreignCalls t calls \<longleftrightarrow> list_all (foreignOp t) (ac_beforeWrite calls @ rl_during (ac_reload calls)
     @ ac_beforeRestore calls @ rl_during (ac_reloadAgain calls))"

text \<open>The token was granted, and the lease is now its own.\<close>

definition granted :: "int \<Rightarrow> RoutingWorld \<Rightarrow> bool" where
  "granted t w \<longleftrightarrow> t < nextToken (rw_lease w)"

definition holds :: "int \<Rightarrow> RoutingWorld \<Rightarrow> bool" where
  "holds t w \<longleftrightarrow> isLeaseCurrent (rw_lease w) t"










text \<open>The target of every changed type names a model of the catalogue, the frontier or no route.\<close>

definition canaryServes :: "RoutingDecisionArtifact \<Rightarrow> string list option \<Rightarrow> bool" where
  "canaryServes a ids \<longleftrightarrow> (\<forall>t \<in> set (changedTaskTypes (ra_diff a)).
     routingTarget t (Some \<lparr>routing = doc_routing (ra_candidate a), escalateToFrontier = doc_escalateToFrontier (ra_candidate a)\<rparr>)
       \<in> {FRONTIER, UNKNOWN_ROUTE} \<union> (case ids of None \<Rightarrow> {} | Some l \<Rightarrow> set l))"

lemma canary_of_candidate:
  "fst (runCanary (changedTaskTypes (ra_diff a))
      \<lparr>routing = doc_routing (ra_candidate a), escalateToFrontier = doc_escalateToFrontier (ra_candidate a)\<rparr> (ra_candidate a) ids)
   \<longleftrightarrow> canaryServes a ids"
  by (auto simp: runCanary_def canaryCheck_def canaryServes_def Let_def list_all_iff split: option.splits)


lemma reloaded_candidate:
  "reloadedTable fails (Some (candidateJson d)) =
     (if fails then None else Some \<lparr>routing = doc_routing d, escalateToFrontier = doc_escalateToFrontier d\<rparr>)"
  by (simp add: reloadedTable_def candidateJson_def docJson_def)


section \<open>Properties\<close>


lemma validated_means:
  assumes "a = buildDecisionArtifact digest inp" "vr_ok (ra_validation a)"
  defines "cur \<equiv> (case Option.bind (bi_adopted inp) tj_routing of None \<Rightarrow> [] | Some r \<Rightarrow> r)" and "cand \<equiv> doc_routing (bi_candidate inp)"
  shows "set (bi_requiredTaskTypes inp) \<subseteq> fst ` set cand"
    and "\<forall>(ty, e) \<in> set cand. \<forall>m. model e = Some m \<longrightarrow> (\<exists>ids. bi_servableModelIds inp = Some ids \<and> m \<in> set ids)"
    and "capability cur ty \<le> capability cand ty"
    and "bi_policyEpochHash inp = bi_expectedPolicyEpochHash inp"
    and "ra_candidate a = bi_candidate inp" "ra_policyEpochHash a = bi_policyEpochHash inp"
proof -
  let ?d = "diffRoutingTables (Option.bind (bi_adopted inp) tj_routing) (Some cand)"
  let ?p = "\<lparr>vi_candidate = bi_candidate inp, vi_diff = ?d,
       vi_deterministicDiff = diffRoutingTables (Option.bind (bi_adopted inp) tj_routing) (Some (doc_routing (bi_deterministicCandidate inp))),
       vi_servableModelIds = bi_servableModelIds inp, vi_requiredTaskTypes = bi_requiredTaskTypes inp,
       vi_freshnessMaxAgeMs = bi_freshnessMaxAgeMs inp, vi_nowMs = bi_nowMs inp,
       vi_calibrationGate = bi_calibrationGate inp, vi_policyEpochHash = bi_policyEpochHash inp,
       vi_expectedPolicyEpochHash = bi_expectedPolicyEpochHash inp\<rparr>"
  have none: "taxonomyIssues ?p = []" "modelIssues ?p = []" "downgradeIssues ?p = []" "epochIssues ?p = []"
    using assms(2) by (auto simp: assms(1) buildDecisionArtifact_def validateCandidate_def Let_def cand_def)
  show "set (bi_requiredTaskTypes inp) \<subseteq> fst ` set cand"
    using none(1) by (auto simp: taxonomyIssues_def filter_empty_conv cand_def)
  show "\<forall>(ty, e) \<in> set cand. \<forall>m. model e = Some m \<longrightarrow> (\<exists>ids. bi_servableModelIds inp = Some ids \<and> m \<in> set ids)"
    using none(2) by (force simp: modelIssues_def filter_empty_conv cand_def split: option.splits)
  have "diffRoutingTables (Option.bind (bi_adopted inp) tj_routing) (Some cand) = diffRoutingTables (Some cur) (Some cand)"
    by (simp add: diffRoutingTables_def cur_def split: option.split)
  then have "downgrades (diffRoutingTables (Some cur) (Some cand)) = []" using none(3) by (simp add: downgradeIssues_def)
  then show "capability cur ty \<le> capability cand ty" using routing_diff_alarms [of ty cur cand] by auto
  show "bi_policyEpochHash inp = bi_expectedPolicyEpochHash inp" using none(4) by (simp add: epochIssues_def split: if_splits)
  show "ra_candidate a = bi_candidate inp" "ra_policyEpochHash a = bi_policyEpochHash inp"
    by (simp_all add: assms(1) buildDecisionArtifact_def validateCandidate_def Let_def)
qed

text \<open>
  C24: nothing unreviewed is deployed from a reviewed artifact. If an artifact as built by the review gets as far as a
  write (it ends in an outcome, or in a catalogue read that throws), under any approval at all, then its candidate has every required task type, names only models of the
  catalogue at review, lowers no capability of the table it was reviewed against, and was generated and deployed under
  the policy current at both times.
\<close>
theorem routing_adoption_reviewed:
  assumes "a = buildDecisionArtifact digest inp"
    and "adoptRoutingTable digest hash a approval calls opts w = (res, w')"
    and "res = Inl CatalogueError \<or> (\<exists>outcome. res = Inr outcome)"
  shows "set (bi_requiredTaskTypes inp) \<subseteq> fst ` set (doc_routing (ra_candidate a)) \<and>
    (\<forall>(ty, e) \<in> set (doc_routing (ra_candidate a)). \<forall>m. model e = Some m \<longrightarrow> (\<exists>ids. bi_servableModelIds inp = Some ids \<and> m \<in> set ids)) \<and>
    (\<forall>ty. capability (case Option.bind (bi_adopted inp) tj_routing of None \<Rightarrow> [] | Some r \<Rightarrow> r) ty
       \<le> capability (doc_routing (ra_candidate a)) ty) \<and>
    bi_expectedPolicyEpochHash inp = ac_policyEpochHash calls"
proof -
  have ok: "vr_ok (ra_validation a)" "ra_policyEpochHash a = ac_policyEpochHash calls"
    using assms(2,3) by (auto simp: adoptRoutingTable_def split: if_splits)
  note v = validated_means [OF assms(1) ok(1)]
  show ?thesis using v ok(2) by simp
qed

text \<open>
  C25: an approval does not fix the candidate. The digest of an approval covers the stored hash of the candidate and not the
  candidate: an artifact approved for one table and handed in with any other, its other fields as they were, is
  written, reloaded and adopted, if the gateway answers and serves the models of the changed routes.
\<close>
theorem routing_approval_unbound:
  assumes "approveArtifact hash a who why reference date = Inr approval" and "ra_policyEpochHash a = ac_policyEpochHash calls"
    and "ac_leaseContext calls = Some t" "holds t w" "ac_beforeWrite calls = []" "ac_write calls = WriteDone"
    and "ac_priorReadFails calls = False" "ac_readBackFails calls = False"
    and "rl_reply (ac_reload calls) = ReloadOk" "rl_during (ac_reload calls) = []"
    and "ac_servable calls = Servable ids" "canaryServes (a\<lparr>ra_candidate := other\<rparr>) ids"
  shows "\<exists>w'. adoptRoutingTable digest hash (a\<lparr>ra_candidate := other\<rparr>) approval calls ReadPrior w
      = (Inr (Adopted (adoptionRecord (ac_nowIso calls) a approval)), w')
    \<and> rw_file w' = Some (candidateJson other)"
proof -
  let ?a = "a\<lparr>ra_candidate := other\<rparr>"
  have ok: "vr_ok (ra_validation ?a)" "at_artifactHash approval = artifactContentHash hash ?a"
    using assms(1) by (auto simp: approveArtifact_def artifactContentHash_def split: if_splits)
  have canary: "fst (runCanary (changedTaskTypes (ra_diff ?a))
      \<lparr>routing = doc_routing other, escalateToFrontier = doc_escalateToFrontier other\<rparr> other ids)"
    using canary_of_candidate [of ?a ids] assms(12) by simp
  obtain checks where "runCanary (changedTaskTypes (ra_diff a))
      \<lparr>routing = doc_routing other, escalateToFrontier = doc_escalateToFrontier other\<rparr> other ids = (True, checks)"
    using canary by (cases "runCanary (changedTaskTypes (ra_diff a))
      \<lparr>routing = doc_routing other, escalateToFrontier = doc_escalateToFrontier other\<rparr> other ids") simp
  moreover have "adoptionRecord n ?a approval = adoptionRecord n a approval" for n by (simp add: adoptionRecord_def)
  ultimately show ?thesis
    using assms ok
    by (simp add: adoptRoutingTable_def priorOf_def deployCandidate_def withFencing_def fencedWrite_def holds_def
        writeTable_def reloadAndRenew_def others_def reloaded_candidate Let_def)
qed

section \<open>Witnesses\<close>

definition wDoc :: RoutingTableDoc where
  "wDoc = \<lparr>doc_generatedAtMs = Some 0, doc_routing = [(''sql'', wEntry)], doc_escalateToFrontier = [], doc_rest = []\<rparr>"

definition wInputs :: BuildArtifactInputs where
  "wInputs = \<lparr>bi_candidate = wDoc, bi_deterministicCandidate = wDoc, bi_adopted = None, bi_servableModelIds = Some [''mellum''],
     bi_requiredTaskTypes = [''sql''], bi_freshnessMaxAgeMs = 10, bi_nowMs = Some 5, bi_calibrationGate = None,
     bi_policyEpochHash = ''e'', bi_expectedPolicyEpochHash = ''e''\<rparr>"

definition wArtifact :: RoutingDecisionArtifact where
  "wArtifact = buildDecisionArtifact (\<lambda>_. ''h'') wInputs"

definition wApproval :: ApprovalToken where
  "wApproval = \<lparr>at_approvedBy = ''me'', at_reason = ''r'', at_decisionRef = ''d'', at_approvedAt = ''t'', at_artifactHash = ''h''\<rparr>"

definition wReload :: ReloadCall where
  "wReload = \<lparr>rl_reply = ReloadOk, rl_during = [OtherLock (OpAcquire 10 5 8), OtherWrite 2 None], rl_nowMs = 6\<rparr>"

definition wCalls :: "string list \<Rightarrow> AdoptCalls" where
  "wCalls served = \<lparr>ac_leaseContext = Some 1, ac_policyEpochHash = ''e'', ac_priorReadFails = False, ac_beforeWrite = [],
     ac_write = WriteDone, ac_reload = wReload, ac_readBackFails = False, ac_servable = Servable (Some served), ac_nowIso = ''n'',
     ac_beforeRestore = [], ac_restore = WriteDone, ac_reloadAgain = wReload\<rparr>"

definition wWorld :: RoutingWorld where
  "wWorld = \<lparr>rw_file = Some (NotJson ''old''), rw_lease = wLock\<rparr>"

lemma wApproved: "approveArtifact (\<lambda>_. ''h'') wArtifact ''me'' ''r'' ''d'' ''t'' = Inr wApproval"
  by code_simp

lemma wCalls_foreign: "granted 1 wWorld" "foreignCalls 1 (wCalls served)" "holds 1 wWorld"
  by (simp_all add: granted_def wWorld_def wLock_def nextToken_def foreignCalls_def wCalls_def wReload_def foreignOp_def
      holds_def isLeaseCurrent_def)


theorem routing_adoption_reviewed_witness: "capability [] ''sql'' \<le> capability (doc_routing (ra_candidate wArtifact)) ''sql''"
proof -
  let ?run = "adoptRoutingTable (\<lambda>_. ''h'') (\<lambda>_. ''h'') wArtifact wApproval (wCalls [''mellum'']) ReadPrior wWorld"
  have "fst ?run = Inr (Adopted (adoptionRecord ''n'' wArtifact wApproval))" by code_simp
  then have "?run = (Inr (Adopted (adoptionRecord ''n'' wArtifact wApproval)), snd ?run)" by (metis prod.collapse)
  from routing_adoption_reviewed [OF wArtifact_def this] show ?thesis by (simp add: wInputs_def)
qed

definition wCalm :: AdoptCalls where
  "wCalm = (wCalls [''mellum''])\<lparr>ac_reload := wReload\<lparr>rl_during := []\<rparr>\<rparr>"

theorem routing_approval_unbound_witness:
  "\<exists>w'. adoptRoutingTable (\<lambda>_. ''h'') (\<lambda>_. ''h'') (wArtifact\<lparr>ra_candidate := wDoc\<lparr>doc_escalateToFrontier := [''sql'']\<rparr>\<rparr>) wApproval wCalm ReadPrior wWorld
      = (Inr (Adopted (adoptionRecord ''n'' wArtifact wApproval)), w') \<and> rw_file w' = Some (candidateJson (wDoc\<lparr>doc_escalateToFrontier := [''sql'']\<rparr>))"
proof -
  have "ra_policyEpochHash wArtifact = ac_policyEpochHash wCalm" by code_simp
  moreover have "ac_leaseContext wCalm = Some 1" "ac_beforeWrite wCalm = []" "ac_write wCalm = WriteDone" "ac_priorReadFails wCalm = False"
    "ac_readBackFails wCalm = False" "rl_reply (ac_reload wCalm) = ReloadOk" "rl_during (ac_reload wCalm) = []"
    "ac_servable wCalm = Servable (Some [''mellum''])" "ac_nowIso wCalm = ''n''"
    by (simp_all add: wCalm_def wCalls_def wReload_def)
  moreover have "canaryServes (wArtifact\<lparr>ra_candidate := wDoc\<lparr>doc_escalateToFrontier := [''sql'']\<rparr>\<rparr>) (Some [''mellum''])" by code_simp
  ultimately show ?thesis
    using routing_approval_unbound [OF wApproved, of wCalm 1 wWorld] wCalls_foreign(3) by simp
qed

end
