(* ===== verification/Routing_Generator.thy ===== *)
theory Routing_Generator
  imports Routing_Lifecycle Delegate_Policy "HOL-Library.AList" "HOL-Library.Product_Lexorder"
begin

text \<open>
  The generator of routing tables, \<open>src/homeserver/routing-table-generator.ts\<close>: from the rows of the capability
  ledger and the registry of evaluations to a table of routes and profiles of models. Rates are exact rationals. The
  explanatory notes of entries and profiles are texts and are left out.
\<close>

section \<open>Evidence\<close>

datatype Recommendation = RecDelegateLocal | RecExplore | RecEscalateFrontier

record LedgerReportRow =
  lg_taskType :: string
  lg_modelId :: string
  lg_attempts :: int
  lg_passes :: int
  lg_successRate :: rat
  lg_recommendation :: Recommendation
  lg_avgTokPerSec :: "rat option"

record ModelMeta =
  mm_thinking :: bool
  mm_role :: string
  mm_unsafeFor :: "string list"

type_synonym MetaTable = "(string \<times> ModelMeta) list"

definition MODEL_META :: MetaTable where
  "MODEL_META =
     [(''mellum'', \<lparr>mm_thinking = False, mm_role = ''fast workhorse: code/extract/classify/summarize. WEAK at math & multi-constraint.'', mm_unsafeFor = [''reason-math'', ''reason-hard'']\<rparr>),
      (''qwen3-coder-next-80b'', \<lparr>mm_thinking = False, mm_role = ''strongest generalist + escalation target (math, rewrite, hard instruction-following).'', mm_unsafeFor = []\<rparr>),
      (''gemma4'', \<lparr>mm_thinking = True, mm_role = ''solid but slower; reasons efficiently. multimodal-capable.'', mm_unsafeFor = []\<rparr>),
      (''qwen36-a3b'', \<lparr>mm_thinking = False, mm_role = ''Qwen3.6-35B-A3B non-thinking MoE workhorse (2026-07-02 upgrade of 3.5).'', mm_unsafeFor = []\<rparr>),
      (''qwen35-122b-a10b'', \<lparr>mm_thinking = False, mm_role = ''large precision specialist: stable review/triage with low clean-control confabulation.'', mm_unsafeFor = []\<rparr>),
      (''qwen38-27b'', \<lparr>mm_thinking = True, mm_role = ''dense multimodal release candidate with native MTP; explicit use until task evidence qualifies routing.'', mm_unsafeFor = []\<rparr>)]"

record RegistryEntry =
  re_served :: bool
  re_configKey :: "string option"
  re_evaluatedAt :: string
  re_passRate :: rat
  re_avgTokPerSec :: "rat option"

section \<open>Model families\<close>

definition MODEL_FAMILY :: "(string \<times> string) list" where
  "MODEL_FAMILY = [(''mellum'', ''mellum''), (''qwen3-coder-next-80b'', ''qwen''), (''qwen36-a3b'', ''qwen''),
     (''qwen35-122b-a10b'', ''qwen''), (''qwen38-27b'', ''qwen''), (''gemma4'', ''gemma''), (''gpt-oss-120b'', ''gpt-oss'')]"

definition MODEL_FAMILY_PREFIXES :: "((string \<Rightarrow> bool) \<times> string) list" where
  "MODEL_FAMILY_PREFIXES =
     (let pre = (\<lambda>p s. starts_with p (to_lower s))
      in [(pre ''qwen'', ''qwen''), (pre ''gemma'', ''gemma''), (pre ''gemini'', ''google''), (pre ''gpt-oss'', ''gpt-oss''),
          (\<lambda>s. pre ''gpt-'' s \<or> pre ''o'' s \<and> 2 \<le> length s \<and> s ! 1 \<in> set ''0123456789'', ''openai''),
          (pre ''claude'', ''anthropic''), (\<lambda>s. pre ''llama'' s \<or> pre ''meta-llama'' s, ''llama''),
          (pre ''mellum'', ''mellum''), (pre ''mistral'', ''mistral''), (pre ''deepseek'', ''deepseek'')])"

text \<open>
  \<open>MODEL_FAMILY[id]\<close> also finds what every object inherits: for such an id the result is no text, which is \<open>None\<close> here.
\<close>

definition modelFamilyOf :: "string option \<Rightarrow> string option" where
  "modelFamilyOf modelId =
     (let i = js_trim (case modelId of None \<Rightarrow> [] | Some m \<Rightarrow> m)
      in if i = [] then Some ''(unknown)''
         else case map_of MODEL_FAMILY i of
                Some f \<Rightarrow> Some f
              | None \<Rightarrow>
                  if i \<in> set inherited then None
                  else case find (\<lambda>(test, f). test i) MODEL_FAMILY_PREFIXES of
                         Some (test, f) \<Rightarrow> Some f
                       | None \<Rightarrow> Some i)"

section \<open>Task types\<close>

definition DEEP_RESEARCH_ROLES :: "string list" where
  "DEEP_RESEARCH_ROLES = [''research-plan'', ''source-distill'', ''claim-verify'', ''gap-check'', ''synthesis'']"

definition EXCLUDED_FROM_ROUTING :: "string list" where
  "EXCLUDED_FROM_ROUTING = ''other'' # DEEP_RESEARCH_ROLES"

definition routableTaskTypes :: "string list" where
  "routableTaskTypes = filter (\<lambda>i. i \<notin> set EXCLUDED_FROM_ROUTING) TASK_TYPE_IDS"

definition resolveRoutableTypes :: "LedgerReportRow list \<Rightarrow> string list option \<Rightarrow> string list" where
  "resolveRoutableTypes verdicts override =
     (case override of
        Some types \<Rightarrow> types
      | None \<Rightarrow> routableTaskTypes @
          sort (filter (\<lambda>t. t \<notin> set EXCLUDED_FROM_ROUTING \<and> t \<notin> set routableTaskTypes) (remdups (map lg_taskType verdicts))))"

section \<open>Selection\<close>

definition round2 :: "rat \<Rightarrow> rat" where
  "round2 n = of_int \<lfloor>n * 100 + 1 / 2\<rfloor> / 100"

text \<open>Smaller is better: non-thinking, higher rate, faster, model id.\<close>

definition rankKey :: "MetaTable \<Rightarrow> LedgerReportRow \<Rightarrow> nat \<times> rat \<times> rat \<times> string" where
  "rankKey meta r =
     (case map_of meta (lg_modelId r) of None \<Rightarrow> 0 | Some m \<Rightarrow> if mm_thinking m then 1 else 0,
      - lg_successRate r,
      - (case lg_avgTokPerSec r of None \<Rightarrow> -1 | Some s \<Rightarrow> s),
      lg_modelId r)"

definition rankCandidates :: "MetaTable \<Rightarrow> LedgerReportRow list \<Rightarrow> LedgerReportRow list" where
  "rankCandidates meta rows = sort_key (rankKey meta) rows"

definition isUnsafe :: "MetaTable \<Rightarrow> string \<Rightarrow> LedgerReportRow \<Rightarrow> bool" where
  "isUnsafe meta taskType r =
     (case map_of meta (lg_modelId r) of None \<Rightarrow> False | Some m \<Rightarrow> taskType \<in> set (mm_unsafeFor m))"

record GeneratedRoutingEntry =
  ge_model :: "string option"
  ge_passRate :: rat
  ge_tokPerSec :: "rat option"
  ge_verdict :: Recommendation
  ge_attempts :: int

definition localEntry :: "Recommendation \<Rightarrow> LedgerReportRow \<Rightarrow> GeneratedRoutingEntry" where
  "localEntry v best = \<lparr>ge_model = Some (lg_modelId best), ge_passRate = round2 (lg_successRate best),
     ge_tokPerSec = lg_avgTokPerSec best, ge_verdict = v, ge_attempts = lg_attempts best\<rparr>"

definition frontierEntry :: "rat \<Rightarrow> int \<Rightarrow> GeneratedRoutingEntry" where
  "frontierEntry rate n = \<lparr>ge_model = None, ge_passRate = rate, ge_tokPerSec = None,
     ge_verdict = RecEscalateFrontier, ge_attempts = n\<rparr>"

definition selectRoutingEntry ::
  "string \<Rightarrow> LedgerReportRow list \<Rightarrow> MetaTable \<Rightarrow> int \<Rightarrow> string list option \<Rightarrow> GeneratedRoutingEntry" where
  "selectRoutingEntry taskType rows meta minSample servableModelIds =
     (let forTypeAll = filter (\<lambda>r. lg_taskType r = taskType) rows;
          forType = (case servableModelIds of None \<Rightarrow> forTypeAll | Some ids \<Rightarrow> filter (\<lambda>r. lg_modelId r \<in> set ids) forTypeAll);
          safe = filter (\<lambda>r. \<not> isUnsafe meta taskType r) forType;
          delegate = filter (\<lambda>r. lg_recommendation r = RecDelegateLocal) safe;
          explore = filter (\<lambda>r. lg_recommendation r = RecExplore \<and> lg_attempts r \<ge> minSample) safe;
          measuredGap = filter (\<lambda>r. lg_recommendation r = RecEscalateFrontier \<and> lg_attempts r \<ge> minSample) safe;
          total = sum_list (map lg_attempts forType)
      in if forTypeAll = [] then frontierEntry 0 0
         else if forType = [] then frontierEntry 0 0
         else if delegate \<noteq> [] then localEntry RecDelegateLocal (hd (rankCandidates meta delegate))
         else if explore \<noteq> [] then localEntry RecExplore (hd (rankCandidates meta explore))
         else if measuredGap \<noteq> [] then frontierEntry (round2 (lg_successRate (hd (rankCandidates meta measuredGap)))) total
         else frontierEntry (round2 (lg_successRate (hd (rankCandidates meta forType)))) total)"

section \<open>Profiles\<close>

text \<open>The latest served entry of an alias; the first of equally late ones.\<close>

definition registryByServedAlias :: "RegistryEntry list \<Rightarrow> (string \<times> RegistryEntry) list" where
  "registryByServedAlias registry =
     fold (\<lambda>e m. case re_configKey e of
                   None \<Rightarrow> m
                 | Some k \<Rightarrow>
                     if \<not> re_served e \<or> k = [] then m
                     else case map_of m k of
                            None \<Rightarrow> AList.update k e m
                          | Some x \<Rightarrow> if re_evaluatedAt x < re_evaluatedAt e then AList.update k e m else m)
       registry []"

record GeneratedModelProfile =
  gm_overallPass :: "rat option"
  gm_tokPerSec :: "rat option"
  gm_thinking :: bool
  gm_role :: string
  gm_attempts :: int

definition buildModelProfile ::
  "string \<Rightarrow> LedgerReportRow list \<Rightarrow> MetaTable \<Rightarrow> (string \<times> RegistryEntry) list \<Rightarrow> int \<Rightarrow> GeneratedModelProfile" where
  "buildModelProfile modelId rows meta registryAlias minSample =
     (let mine = filter (\<lambda>r. lg_modelId r = modelId) rows;
          totalAttempts = sum_list (map lg_attempts mine);
          weightedPass = (if totalAttempts > 0
                          then sum_list (map (\<lambda>r. lg_successRate r * of_int (lg_attempts r)) mine) / of_int totalAttempts else 0);
          timed = filter (\<lambda>r. lg_avgTokPerSec r \<noteq> None) mine;
          tokNum = sum_list (map (\<lambda>r. the (lg_avgTokPerSec r) * of_int (lg_attempts r)) timed);
          tokDen = sum_list (map lg_attempts timed);
          reg = map_of registryAlias modelId;
          m = map_of meta modelId
      in \<lparr>gm_overallPass = (if totalAttempts \<ge> minSample then Some (round2 weightedPass)
                            else map_option (\<lambda>r. round2 (re_passRate r)) reg),
          gm_tokPerSec = (if tokDen > 0 then Some (round2 (tokNum / of_int tokDen)) else Option.bind reg re_avgTokPerSec),
          gm_thinking = (case m of None \<Rightarrow> False | Some x \<Rightarrow> mm_thinking x),
          gm_role = (case m of None \<Rightarrow> [] | Some x \<Rightarrow> mm_role x),
          gm_attempts = totalAttempts\<rparr>)"

section \<open>The table\<close>

record GenerateInputs =
  gi_verdicts :: "LedgerReportRow list"
  gi_registry :: "RegistryEntry list"
  gi_generatedAtMs :: "millis option"
  gi_minSamples :: int
  gi_modelMeta :: "MetaTable option"
  gi_servableModelIds :: "string list option"
  gi_routableTaskTypes :: "string list option"

record GeneratedTable =
  gt_generatedAtMs :: "millis option"
  gt_routing :: "(string \<times> GeneratedRoutingEntry) list"
  gt_escalateToFrontier :: "string list"
  gt_avoidForShortTasks :: "string list"
  gt_modelProfiles :: "(string \<times> GeneratedModelProfile) list"

definition addRoute ::
  "(string \<Rightarrow> GeneratedRoutingEntry) \<Rightarrow> string \<Rightarrow> (string \<times> GeneratedRoutingEntry) list \<times> string list
    \<Rightarrow> (string \<times> GeneratedRoutingEntry) list \<times> string list" where
  "addRoute select taskType acc =
     (AList.update taskType (select taskType) (fst acc),
      if ge_model (select taskType) = None then snd acc @ [taskType] else snd acc)"

definition generateRoutingTable :: "GenerateInputs \<Rightarrow> GeneratedTable" where
  "generateRoutingTable inp =
     (let meta = (case gi_modelMeta inp of None \<Rightarrow> MODEL_META | Some m \<Rightarrow> m);
          types = resolveRoutableTypes (gi_verdicts inp) (gi_routableTaskTypes inp);
          select = (\<lambda>t. selectRoutingEntry t (gi_verdicts inp) meta (gi_minSamples inp) (gi_servableModelIds inp));
          (routes, escalate) = fold (addRoute select) types ([], []);
          registryAlias = registryByServedAlias (gi_registry inp);
          modelIds = sort (remdups (map fst meta @ map lg_modelId (gi_verdicts inp) @ map fst registryAlias))
      in \<lparr>gt_generatedAtMs = gi_generatedAtMs inp, gt_routing = routes, gt_escalateToFrontier = escalate,
          gt_avoidForShortTasks = sort (map fst (filter (\<lambda>(i, m). mm_thinking m) meta)),
          gt_modelProfiles = map (\<lambda>i. (i, buildModelProfile i (gi_verdicts inp) meta registryAlias (gi_minSamples inp))) modelIds\<rparr>)"

text \<open>The table as the lifecycle and the reader see it; \<open>rest\<close> stands for its other parts.\<close>

fun verdictText :: "Recommendation \<Rightarrow> string" where
  "verdictText RecDelegateLocal = ''delegate-local''"
| "verdictText RecExplore = ''explore''"
| "verdictText RecEscalateFrontier = ''escalate-frontier''"

definition routeOf :: "GeneratedRoutingEntry \<Rightarrow> RoutingEntry" where
  "routeOf e = \<lparr>model = ge_model e, verdict = Some (verdictText (ge_verdict e)), attempts = Some (ge_attempts e)\<rparr>"

definition asDoc :: "string \<Rightarrow> GeneratedTable \<Rightarrow> RoutingTableDoc" where
  "asDoc rest g = \<lparr>doc_generatedAtMs = gt_generatedAtMs g, doc_routing = map (\<lambda>(t, e). (t, routeOf e)) (gt_routing g),
     doc_escalateToFrontier = gt_escalateToFrontier g, doc_rest = rest\<rparr>"

definition buildCandidatePair ::
  "string \<Rightarrow> GenerateInputs \<Rightarrow> LedgerReportRow list \<Rightarrow> RoutingTableDoc \<times> RoutingTableDoc" where
  "buildCandidatePair rest inp deterministicVerdicts =
     (asDoc rest (generateRoutingTable inp), asDoc rest (generateRoutingTable (inp\<lparr>gi_verdicts := deterministicVerdicts\<rparr>)))"

record EvidenceSummary =
  es_ledgerRows :: nat
  es_ledgerAttempts :: int
  es_routableAttempts :: int
  es_taskTypesWithEvidence :: nat
  es_routableTaskTypes :: nat

definition summarizeEvidence :: "LedgerReportRow list \<Rightarrow> string list option \<Rightarrow> EvidenceSummary" where
  "summarizeEvidence verdicts override =
     (let types = resolveRoutableTypes verdicts override;
          routable = filter (\<lambda>r. lg_taskType r \<in> set types) verdicts
      in \<lparr>es_ledgerRows = length verdicts, es_ledgerAttempts = sum_list (map lg_attempts verdicts),
          es_routableAttempts = sum_list (map lg_attempts routable),
          es_taskTypesWithEvidence = length (remdups (map lg_taskType routable)),
          es_routableTaskTypes = length types\<rparr>)"

section \<open>What is selected\<close>

text \<open>A row that may give task type \<open>t\<close> a route with verdict \<open>v\<close>.\<close>

definition qualifies :: "MetaTable \<Rightarrow> string list option \<Rightarrow> int \<Rightarrow> string \<Rightarrow> Recommendation \<Rightarrow> LedgerReportRow \<Rightarrow> bool" where
  "qualifies meta servable minSample t v r \<longleftrightarrow> lg_taskType r = t
     \<and> (case servable of None \<Rightarrow> True | Some ids \<Rightarrow> lg_modelId r \<in> set ids) \<and> \<not> isUnsafe meta t r
     \<and> lg_recommendation r = v \<and> (v = RecExplore \<longrightarrow> lg_attempts r \<ge> minSample)"

definition bestRoute :: "MetaTable \<Rightarrow> string list option \<Rightarrow> int \<Rightarrow> LedgerReportRow list \<Rightarrow> string \<Rightarrow> Recommendation \<Rightarrow> string \<Rightarrow> bool" where
  "bestRoute meta servable minSample rows t v m \<longleftrightarrow>
     (\<exists>r \<in> set rows. lg_modelId r = m \<and> qualifies meta servable minSample t v r
        \<and> (\<forall>x \<in> set rows. qualifies meta servable minSample t v x \<longrightarrow> rankKey meta r \<le> rankKey meta x))"

lemma rank_first:
  assumes "rows \<noteq> []"
  shows "hd (rankCandidates meta rows) \<in> set rows" "\<forall>x \<in> set rows. rankKey meta (hd (rankCandidates meta rows)) \<le> rankKey meta x"
proof -
  have ne: "rankCandidates meta rows \<noteq> []" using assms by (metis rankCandidates_def set_empty set_sort)
  have "set (rankCandidates meta rows) = set rows" "sorted (map (rankKey meta) (rankCandidates meta rows))"
    by (simp_all add: rankCandidates_def)
  then show "hd (rankCandidates meta rows) \<in> set rows" "\<forall>x \<in> set rows. rankKey meta (hd (rankCandidates meta rows)) \<le> rankKey meta x"
    using ne by (cases "rankCandidates meta rows"; force)+
qed

lemma bestRoute_first:
  assumes "cs = filter (qualifies meta servable minSample t v) rows" "cs \<noteq> []"
  shows "bestRoute meta servable minSample rows t v (lg_modelId (hd (rankCandidates meta cs)))"
  using rank_first [OF assms(2), of meta] assms(1) by (auto simp: bestRoute_def)

lemma select_spec:
  "case selectRoutingEntry t rows meta minSample servable of e \<Rightarrow>
     (case ge_model e of
        Some m \<Rightarrow> ge_verdict e = RecDelegateLocal \<and> bestRoute meta servable minSample rows t RecDelegateLocal m
          \<or> ge_verdict e = RecExplore \<and> bestRoute meta servable minSample rows t RecExplore m
            \<and> (\<forall>x \<in> set rows. \<not> qualifies meta servable minSample t RecDelegateLocal x)
      | None \<Rightarrow> ge_verdict e = RecEscalateFrontier
          \<and> (\<forall>x \<in> set rows. \<not> qualifies meta servable minSample t RecDelegateLocal x \<and> \<not> qualifies meta servable minSample t RecExplore x))"
proof -
  let ?all = "filter (\<lambda>r. lg_taskType r = t) rows"
  let ?forType = "case servable of None \<Rightarrow> ?all | Some ids \<Rightarrow> filter (\<lambda>r. lg_modelId r \<in> set ids) ?all"
  let ?safe = "filter (\<lambda>r. \<not> isUnsafe meta t r) ?forType"
  let ?delegate = "filter (\<lambda>r. lg_recommendation r = RecDelegateLocal) ?safe"
  let ?explore = "filter (\<lambda>r. lg_recommendation r = RecExplore \<and> lg_attempts r \<ge> minSample) ?safe"
  have d: "?delegate = filter (qualifies meta servable minSample t RecDelegateLocal) rows"
    by (cases servable) (auto simp: qualifies_def intro!: filter_cong)
  have e: "?explore = filter (qualifies meta servable minSample t RecExplore) rows"
    by (cases servable) (auto simp: qualifies_def intro!: filter_cong)
  consider "?delegate \<noteq> []" | "?delegate = []" "?explore \<noteq> []" | "?delegate = []" "?explore = []" by blast
  then show ?thesis
  proof cases
    case 1
    then have "?forType \<noteq> []" by (metis filter.simps(1))
    then have "?all \<noteq> []" by (auto simp: filter_empty_conv split: option.splits)
    have "?forType \<noteq> []" by fact
    with \<open>?all \<noteq> []\<close> have "selectRoutingEntry t rows meta minSample servable = localEntry RecDelegateLocal (hd (rankCandidates meta ?delegate))"
      unfolding selectRoutingEntry_def Let_def using 1 by (simp only: if_False if_True not_False_eq_True simp_thms)
    then show ?thesis using bestRoute_first [OF d 1] by (simp add: localEntry_def)
  next
    case 2
    then have "?forType \<noteq> []" by (metis filter.simps(1))
    then have "?all \<noteq> []" by (auto simp: filter_empty_conv split: option.splits)
    have "?forType \<noteq> []" by fact
    with \<open>?all \<noteq> []\<close> have "selectRoutingEntry t rows meta minSample servable = localEntry RecExplore (hd (rankCandidates meta ?explore))"
      unfolding selectRoutingEntry_def Let_def using 2 by (simp only: if_False if_True not_False_eq_True simp_thms)
    moreover have "\<forall>x \<in> set rows. \<not> qualifies meta servable minSample t RecDelegateLocal x"
      using 2(1) unfolding d by (simp add: filter_empty_conv)
    ultimately show ?thesis using bestRoute_first [OF e 2(2)] by (simp add: localEntry_def)
  next
    case 3
    have "\<exists>rate n. selectRoutingEntry t rows meta minSample servable = frontierEntry rate n"
      unfolding selectRoutingEntry_def Let_def using 3 by (simp only: if_False if_True not_False_eq_True simp_thms) (auto split: if_splits)
    moreover have "\<forall>x \<in> set rows. \<not> qualifies meta servable minSample t RecDelegateLocal x \<and> \<not> qualifies meta servable minSample t RecExplore x"
      using 3 unfolding d e by (simp add: filter_empty_conv)
    ultimately show ?thesis by (auto simp: frontierEntry_def)
  qed
qed

lemma addRoute_fold:
  assumes "distinct (map fst routes)"
  shows "fold (addRoute select) types (routes, esc) =
    (fold (\<lambda>t. AList.update t (select t)) types routes, esc @ filter (\<lambda>t. ge_model (select t) = None) types)"
  by (induction types arbitrary: routes esc) (simp_all add: addRoute_def)

lemma routes_fold:
  "distinct (map fst routes) \<Longrightarrow> distinct (map fst (fold (\<lambda>t. AList.update t (select t)) types routes)) \<and>
     map_of (fold (\<lambda>t. AList.update t (select t)) types routes) t = (if t \<in> set types then Some (select t) else map_of routes t)"
proof (induction types arbitrary: routes)
  case (Cons u types)
  have "distinct (map fst (AList.update u (select u) routes))" using Cons.prems by (rule distinct_update)
  from Cons.IH [OF this] show ?case by (auto simp: update_conv)
qed simp

lemma generated_parts:
  assumes "meta = (case gi_modelMeta inp of None \<Rightarrow> MODEL_META | Some m \<Rightarrow> m)"
    and "types = resolveRoutableTypes (gi_verdicts inp) (gi_routableTaskTypes inp)"
    and "select = (\<lambda>t. selectRoutingEntry t (gi_verdicts inp) meta (gi_minSamples inp) (gi_servableModelIds inp))"
  shows "distinct (map fst (gt_routing (generateRoutingTable inp)))"
    "map_of (gt_routing (generateRoutingTable inp)) t = (if t \<in> set types then Some (select t) else None)"
    "gt_escalateToFrontier (generateRoutingTable inp) = filter (\<lambda>t. ge_model (select t) = None) types"
  using addRoute_fold [of "[]" select types "[]"] routes_fold [of "[]" select types t]
  by (simp_all add: generateRoutingTable_def Let_def assms [symmetric])

lemma generated_routing:
  assumes "(t, e) \<in> set (doc_routing (asDoc rest (generateRoutingTable inp)))"
    and "meta = (case gi_modelMeta inp of None \<Rightarrow> MODEL_META | Some m \<Rightarrow> m)"
  shows "e = routeOf (selectRoutingEntry t (gi_verdicts inp) meta (gi_minSamples inp) (gi_servableModelIds inp))"
    and "t \<in> set (resolveRoutableTypes (gi_verdicts inp) (gi_routableTaskTypes inp))"
proof -
  obtain g where g: "(t, g) \<in> set (gt_routing (generateRoutingTable inp))" "e = routeOf g"
    using assms(1) by (auto simp: asDoc_def)
  then have "map_of (gt_routing (generateRoutingTable inp)) t = Some g"
    using generated_parts(1) [OF assms(2) refl refl] by simp
  then show "e = routeOf (selectRoutingEntry t (gi_verdicts inp) meta (gi_minSamples inp) (gi_servableModelIds inp))"
    "t \<in> set (resolveRoutableTypes (gi_verdicts inp) (gi_routableTaskTypes inp))"
    using generated_parts(2) [OF assms(2) refl refl, of t] g(2) by (auto split: if_splits)
qed

section \<open>Properties\<close>

text \<open>
  C26: the generated table is exact. It has one route per routable task type and no other. A local route names the
  best-ranked model among the ledger rows that qualify (servable, not curated as unsafe for the type, and for a route
  to explore with enough samples), and a route to explore exists only where nothing qualifies for delegation. A type
  has no local model exactly when no row qualifies, and the reader of the table sends each type to the model its
  route names, or to the frontier, and every other type to no route at all.
\<close>
theorem routing_generated_exact:
  assumes "meta = (case gi_modelMeta inp of None \<Rightarrow> MODEL_META | Some m \<Rightarrow> m)"
    and "types = resolveRoutableTypes (gi_verdicts inp) (gi_routableTaskTypes inp)"
    and "doc = asDoc rest (generateRoutingTable inp)"
    and "tbl = \<lparr>routing = doc_routing doc, escalateToFrontier = doc_escalateToFrontier doc\<rparr>"
    and "qual = qualifies meta (gi_servableModelIds inp) (gi_minSamples inp)"
  shows "distinct (map fst (doc_routing doc)) \<and> fst ` set (doc_routing doc) = set types \<and>
    (\<forall>(t, e) \<in> set (doc_routing doc). case model e of
       Some m \<Rightarrow>
         (verdict e = Some ''delegate-local''
            \<and> bestRoute meta (gi_servableModelIds inp) (gi_minSamples inp) (gi_verdicts inp) t RecDelegateLocal m
          \<or> verdict e = Some ''explore''
            \<and> bestRoute meta (gi_servableModelIds inp) (gi_minSamples inp) (gi_verdicts inp) t RecExplore m
            \<and> (\<forall>x \<in> set (gi_verdicts inp). \<not> qual t RecDelegateLocal x))
         \<and> routingTarget t (Some tbl) = (if js_trim m = [] then FRONTIER else m)
     | None \<Rightarrow> (\<forall>x \<in> set (gi_verdicts inp). \<not> qual t RecDelegateLocal x \<and> \<not> qual t RecExplore x)
         \<and> routingTarget t (Some tbl) = FRONTIER) \<and>
    (\<forall>t. t \<notin> set types \<longrightarrow> routingTarget t (Some tbl) = UNKNOWN_ROUTE)"
proof -
  let ?select = "\<lambda>t. selectRoutingEntry t (gi_verdicts inp) meta (gi_minSamples inp) (gi_servableModelIds inp)"
  note parts = generated_parts [OF assms(1,2) refl]
  have keys: "map fst (doc_routing doc) = map fst (gt_routing (generateRoutingTable inp))"
    by (simp add: assms(3) asDoc_def case_prod_beta comp_def)
  have "set (map fst (gt_routing (generateRoutingTable inp))) = set types"
  proof (intro set_eqI)
    fix t show "t \<in> set (map fst (gt_routing (generateRoutingTable inp))) \<longleftrightarrow> t \<in> set types"
      using parts(2) [of t] map_of_eq_None_iff [of "gt_routing (generateRoutingTable inp)" t] by (auto split: if_splits)
  qed
  then have set: "fst ` set (doc_routing doc) = set types" using keys by (metis set_map)
  have dist: "distinct (map fst (doc_routing doc))" using parts(1) keys by simp
  have esc: "doc_escalateToFrontier doc = filter (\<lambda>t. ge_model (?select t) = None) types"
    using parts(3) by (simp add: assms(3) asDoc_def)
  have entry: "case model e of
       Some m \<Rightarrow>
         (verdict e = Some ''delegate-local''
            \<and> bestRoute meta (gi_servableModelIds inp) (gi_minSamples inp) (gi_verdicts inp) t RecDelegateLocal m
          \<or> verdict e = Some ''explore''
            \<and> bestRoute meta (gi_servableModelIds inp) (gi_minSamples inp) (gi_verdicts inp) t RecExplore m
            \<and> (\<forall>x \<in> set (gi_verdicts inp). \<not> qual t RecDelegateLocal x))
         \<and> routingTarget t (Some tbl) = (if js_trim m = [] then FRONTIER else m)
     | None \<Rightarrow> (\<forall>x \<in> set (gi_verdicts inp). \<not> qual t RecDelegateLocal x \<and> \<not> qual t RecExplore x)
         \<and> routingTarget t (Some tbl) = FRONTIER" if te: "(t, e) \<in> set (doc_routing doc)" for t e
  proof -
    have e: "e = routeOf (?select t)" and t: "t \<in> set types"
      using generated_routing [OF _ assms(1), of t e rest] te by (simp_all add: assms(2,3))
    have m: "map_of (doc_routing doc) t = Some e" using dist te by simp
    show ?thesis
      using select_spec [of t "gi_verdicts inp" meta "gi_minSamples inp" "gi_servableModelIds inp"] m t
      by (auto simp: e assms(4,5) routingTarget_def routeOf_def esc split: option.splits)
  qed
  have other: "routingTarget t (Some tbl) = UNKNOWN_ROUTE" if "t \<notin> set types" for t
    using that set by (simp add: assms(4) routingTarget_def esc map_of_eq_None_iff [THEN iffD2])
  show ?thesis using dist set entry other by blast
qed

text \<open>
  A table generated from the catalogue and the taxonomy has no taxonomy or availability issue when it is reviewed against
  the same catalogue.
\<close>
lemma generated_candidate_valid:
  assumes "gi_routableTaskTypes inp = None" "gi_servableModelIds inp = Some ids"
    and "vi_candidate p = asDoc rest (generateRoutingTable inp)"
    and "vi_servableModelIds p = Some ids" "vi_requiredTaskTypes p = routableTaskTypes"
  shows "taxonomyIssues p = [] \<and> modelIssues p = []"
proof -
  let ?doc = "asDoc rest (generateRoutingTable inp)"
  define meta where "meta = (case gi_modelMeta inp of None \<Rightarrow> MODEL_META | Some m \<Rightarrow> m)"
  have "set routableTaskTypes \<subseteq> fst ` set (doc_routing ?doc)"
    using generated_parts(2) [OF meta_def refl refl]
    by (auto simp: asDoc_def image_image case_prod_beta resolveRoutableTypes_def assms(1) dest!: map_of_SomeD split: if_splits)
      (metis Un_iff fst_conv image_eqI map_of_SomeD option.distinct(1) set_append)
  moreover have "m \<in> set ids" if te: "(t, e) \<in> set (doc_routing ?doc)" "model e = Some m" for t e m
  proof -
    have "e = routeOf (selectRoutingEntry t (gi_verdicts inp) meta (gi_minSamples inp) (gi_servableModelIds inp))"
      using generated_routing(1) [OF te(1) meta_def] .
    then have "ge_model (selectRoutingEntry t (gi_verdicts inp) meta (gi_minSamples inp) (gi_servableModelIds inp)) = Some m"
      using te(2) by (simp add: routeOf_def)
    then show ?thesis
      using select_spec [of t "gi_verdicts inp" meta "gi_minSamples inp" "gi_servableModelIds inp"] assms(2)
      by (auto simp: bestRoute_def qualifies_def)
  qed
  ultimately show ?thesis using assms(3-5)
    by (fastforce simp: taxonomyIssues_def modelIssues_def filter_empty_conv split: option.splits)
qed

text \<open>The family of an id that every object inherits is no text.\<close>

lemma family_of_inherited: "modelFamilyOf (Some ''constructor'') = None"
  by (simp add: modelFamilyOf_def MODEL_FAMILY_def inherited_def js_trim_def is_space_def)

section \<open>Witnesses\<close>

definition wRow :: "string \<Rightarrow> LedgerReportRow" where
  "wRow m = \<lparr>lg_taskType = ''sql'', lg_modelId = m, lg_attempts = 4, lg_passes = 4, lg_successRate = 1,
     lg_recommendation = RecDelegateLocal, lg_avgTokPerSec = None\<rparr>"

definition wGenerate :: GenerateInputs where
  "wGenerate = \<lparr>gi_verdicts = [wRow ''gemma4'', wRow ''mellum''], gi_registry = [], gi_generatedAtMs = Some 0, gi_minSamples = 3,
     gi_modelMeta = None, gi_servableModelIds = Some [''mellum'', ''gemma4''], gi_routableTaskTypes = Some [''sql'']\<rparr>"

theorem routing_generated_exact_witness:
  "routingTarget ''sql'' (Some \<lparr>routing = doc_routing (asDoc [] (generateRoutingTable wGenerate)),
     escalateToFrontier = doc_escalateToFrontier (asDoc [] (generateRoutingTable wGenerate))\<rparr>) = ''mellum''"
proof -
  let ?doc = "asDoc [] (generateRoutingTable wGenerate)"
  let ?qual = "qualifies MODEL_META (Some [''mellum'', ''gemma4'']) 3 ''sql'' RecDelegateLocal"
  have meta: "MODEL_META = (case gi_modelMeta wGenerate of None \<Rightarrow> MODEL_META | Some m \<Rightarrow> m)" by (simp add: wGenerate_def)
  have types: "[''sql''] = resolveRoutableTypes (gi_verdicts wGenerate) (gi_routableTaskTypes wGenerate)"
    by (simp add: wGenerate_def resolveRoutableTypes_def)
  note exact = routing_generated_exact [OF meta types refl refl refl, of "[]"]
  have "''sql'' \<in> fst ` set (doc_routing ?doc)" unfolding exact [THEN conjunct2, THEN conjunct1] by simp
  then obtain e where e: "(''sql'', e) \<in> set (doc_routing ?doc)" by force
  have q: "?qual (wRow ''mellum'')" "?qual (wRow ''gemma4'')"
    by (simp_all add: qualifies_def wRow_def isUnsafe_def MODEL_META_def)
  have less: "rankKey MODEL_META (wRow ''mellum'') < rankKey MODEL_META (wRow ''gemma4'')"
    by (simp add: rankKey_def wRow_def MODEL_META_def less_prod_def less_eq_prod_def)
  have rows: "set (gi_verdicts wGenerate) = {wRow ''gemma4'', wRow ''mellum''}" "gi_servableModelIds wGenerate = Some [''mellum'', ''gemma4'']"
    "gi_minSamples wGenerate = 3" by (auto simp: wGenerate_def)
  have best: "m = ''mellum''" if "bestRoute MODEL_META (Some [''mellum'', ''gemma4'']) 3 (gi_verdicts wGenerate) ''sql'' RecDelegateLocal m" for m
  proof -
    from that obtain r where r: "r \<in> {wRow ''gemma4'', wRow ''mellum''}" "lg_modelId r = m"
        "rankKey MODEL_META r \<le> rankKey MODEL_META (wRow ''mellum'')"
      unfolding bestRoute_def rows(1) using q(1) by blast
    then have "r = wRow ''mellum''" using less by (metis empty_iff insert_iff leD)
    then show ?thesis using r(2) by (simp add: wRow_def)
  qed
  note entry = exact [THEN conjunct2, THEN conjunct2, THEN conjunct1, THEN bspec, OF e, unfolded prod.case rows(2,3)]
  show ?thesis
  proof (cases "model e")
    case None
    then have "\<not> ?qual (wRow ''mellum'')" using entry rows(1) by simp
    then show ?thesis using q(1) by simp
  next
    case (Some m)
    have "\<not> (\<forall>x \<in> set (gi_verdicts wGenerate). \<not> ?qual x)" using q rows(1) by simp
    then have "m = ''mellum''" using entry Some best [of m] by (simp only: option.case) blast
    then show ?thesis using entry Some by (simp add: js_trim_def is_space_def)
  qed
qed

end
