(* ===== verification/Spec2Isabelle.thy ===== *)
theory Spec2Isabelle
  imports Upload_Admission Quota Maintenance_Window Mutation_Lock Constitutional_Lease Gpu_Lease
    Model_Backoff Poison_Clear Degeneracy_Watchdog Routing_Diff Delegate_Policy Host_Memory Image_Ledger
    Credential_Inventory Spine_Ledger Route_Database Code_Loop_Claims
    Code_Loop_Request Learning_Admission Multipart Routing_Generator
begin

text \<open>
  \<^bold>\<open>Verification of the home-server inference gateway, \<open>src/src/homeserver\<close>.\<close>

  \<^bold>\<open>The program.\<close> The gateway is a single Node process in front of local model backends. A request is
  authenticated against the keystore, checked against its key's quota and credits, admitted to one of a
  few inference slots, possibly refused by a maintenance window, by host memory or by a model that keeps
  failing, routed by a table of measured capabilities, and its stream is watched for degenerate output.
  Image generation runs as metered jobs. Several processes share one SQLite file and one GPU; they
  exclude each other by lease rows and by a lock directory.

  \<^bold>\<open>How it is modelled.\<close> JavaScript runs one task at a time, so an asynchronous function is split at its
  \<open>await\<close>s: each piece is one definition on an explicit state record, and a step relation interleaves the
  pieces of all callers. A SQLite transaction is one step. Processes that share files interleave at the
  granularity of system calls. Time is an argument (milliseconds or nanoseconds as integers), and so are
  random texts, process ids and the answers of the backends. A number that may be fractional or not
  finite is a \<open>js_number\<close>; counters that stay below \<open>2 ^ 53\<close> are integers. An exception is the left side of a sum.
  The definitions that model code are executable; no fuel is used, and every loop is structural or has a measure.

  \<^bold>\<open>The theories\<close>, in the order of their imports.

  \<^item> \<open>Prelude\<close>: numbers of JavaScript, rounding, decimal texts, stable sorting, generic list lemmas.
    \<open>JS_Strings\<close>: \<open>trim\<close>, \<open>toLowerCase\<close>, \<open>split\<close>. \<open>JS_Date\<close>: the UTC calendar day and midnight.
  \<^item> \<open>Interfaces\<close>: the contracts as locales. \<open>slot_pool\<close> (a pool that hands out release closures),
    interpreted by \<open>Admission\<close> and \<open>Upload_Admission\<close>; \<open>sliding_window\<close>, by \<open>Quota\<close>; \<open>fenced_lease\<close>, by
    \<open>Mutation_Lock\<close>, \<open>Constitutional_Lease\<close> and \<open>Route_Database\<close>; \<open>credential_store\<close> (lookup by digest, authority that only
    shrinks), by \<open>Keystore_Spec\<close>.
  \<^item> \<open>Admission\<close> (\<open>admission.ts\<close>): \<open>AdmissionController\<close> with its counters, owner queue, exclusive fence and
    background lane; \<open>acquire\<close>, \<open>tryAcquireBackground\<close>, \<open>drainQueue\<close>, release closures, abort and timeout of a
    waiter. The counters agree with the closures in every reachable state, the fence refuses everybody,
    releases are idempotent, and the index loop of the queue equals one ordered pass.
  \<^item> \<open>Upload_Admission\<close> (\<open>audio-upload-admission.ts\<close>): the bounds on concurrent uploads.
  \<^item> \<open>Quota\<close> (\<open>quota.ts\<close>): the sixty-second windows and the persisted daily counters; \<open>checkQuota\<close>,
    \<open>recordUsage\<close>, snapshots. At most \<open>rpm\<close> admissions in any window, and the daily counter is what was
    settled plus what is reserved.
  \<^item> \<open>Maintenance_Window\<close> (\<open>maintenance-window.ts\<close>): the state machine of an exclusive window over the
    admission controller, the GPU lease and the backends, with its open, drain, activate, close and failure paths, and the
    administrator's toggle of \<open>gateway.ts\<close>, whose busy test and whose call are two steps. A window that opens while no
    toggle is half read and no earlier release is unsettled keeps its fence in every interleaving; a half-read
    toggle takes it down.
  \<^item> \<open>Mutation_Lock\<close> (\<open>mutation-lock.ts\<close>) and \<open>Constitutional_Lease\<close> (\<open>constitutional-fenced-lease.ts\<close>):
    lease rows with fencing tokens; a superseded token can do nothing.
  \<^item> \<open>Gpu_Lease\<close> (\<open>gpu-lease.ts\<close>): tickets, heartbeats and the lock directory at system-call granularity;
    mutual exclusion while no heartbeat is overdue, what the release of a robbed holder does to its successor,
    and how a crash between two system calls wedges the lease.
  \<^item> \<open>Host_Memory\<close> (\<open>host-memory-admission.ts\<close>): the decision whether a model may start, the readers of
    \<open>/proc/meminfo\<close> and the GTT counters, and the shared deadline.
  \<^item> \<open>Model_Backoff\<close> (\<open>model-failure-backoff.ts\<close>, \<open>model-failure-backoff-state.ts\<close>) and \<open>Poison_Clear\<close>
    (\<open>poison-clear.ts\<close>): what a failing or disconnecting model leads to.
  \<^item> \<open>Degeneracy_Watchdog\<close> (\<open>degeneracy-watchdog.ts\<close>), \<open>Routing_Diff\<close> (\<open>routing-table-diff.ts\<close>,
    \<open>routing-table.ts\<close>) and \<open>Delegate_Policy\<close> (\<open>delegate-policy.ts\<close>, \<open>task-type-identity.ts\<close>,
    \<open>verifier-classification.ts\<close>): pure decisions and their exact conditions. For the delegation gate these are over the
    components a label consists of and the spellings of a type, not over the scanner and the helpers of the code.
  \<^item> \<open>Keystore_Db\<close>, \<open>Credits\<close>, \<open>Keystore\<close> (\<open>keystore.ts\<close>): the tables of keys, invites, top-ups and rotation
    plans as lists of rows, and every operation on them. \<open>Keystore_Life\<close> gives the step relation
    \<open>ks_step\<close> over all of them, the invariant \<open>ksWf\<close> and the order \<open>rowLe\<close> in which rows lose authority;
    \<open>Keystore_Spec\<close> the abstract store of credentials they refine and the properties over all runs:
    minting and lookup, authority that never returns, staged rotation without lockout, invites redeemed
    once. \<open>Credential_Inventory\<close>: the report and the worksheet of suggested actions.
  \<^item> \<open>Gateway_Auth\<close> (\<open>gateway.ts\<close>: \<open>resolvePrincipal\<close> and the dispatch of \<open>handleRequest\<close>; \<open>mcp.ts\<close>: \<open>toolDefs\<close>,
    \<open>callTool\<close>): the principal behind a bearer token, the gates before dispatch, every route with its
    authorization test, and the recording of a use. Each scope reaches its closed list of routes, the order of
    scopes in the keystore is exactly the inclusion of what they reach (the roster service apart), and over every run of
    the keystore a key's reach only shrinks (a later grant of the embedding model apart).
  \<^item> \<open>Metered_Books\<close>: reservations, what they hold of a key's credits and of a daily counter, and the ledger of what
    has been charged; shared by the next two.
  \<^item> \<open>Metered_Spine\<close>, \<open>Spine_Ledger\<close> (\<open>gateway.ts\<close>: \<open>admitAndMeterLogged\<close>, audio, model load; \<open>mcp.ts\<close>: \<open>ask\<close>;
    \<open>tokenize.ts\<close>): reserve, check, wait for a slot, run, settle, each split at its \<open>await\<close>s. The run relation
    \<open>spine_run\<close> interleaves calls with disconnects, queue timeouts, memory refusals, background leases,
    maintenance and top-ups: the books balance, every slot has exactly one holder, a refusal costs nothing.
  \<^item> \<open>Image_Jobs\<close>, \<open>Image_Ledger\<close> (\<open>image-jobs.ts\<close>, \<open>image-sidecar.ts\<close>, the image handler of
    \<open>gateway.ts\<close>): metered jobs with submission, cancellation, a worker, timeouts, restarts and crashes. Over
    every run the credits a key uses and its daily counter are what finished jobs cost, plus what unfinished
    ones reserve, plus what crashes lost. A crash may come at an \<open>await\<close> or between two commits of one operation
    (\<open>image_cut\<close>); what it loses is kept in a ledger of its own.
  \<^item> \<open>Route_Database\<close> (\<open>constitutional-route-database.ts\<close>): the authoritative route, its serving guard and the deadline
    of a candidate in one transactional record above \<open>Constitutional_Lease\<close>. When a value is served, that an
    unsettled candidate fails closed, that a guard opens only for its owner, and that a superseded writer is fenced.
  \<^item> \<open>Code_Loop_Lease\<close>, \<open>Code_Loop_Store\<close>, \<open>Code_Loop_Claims\<close> (\<open>code-loop-store.ts\<close>): the single-flight row with process
    identities, and the files of durable runs. A store operation is a program, a tree of system calls with a
    continuation per reply; a world interleaves the programs of any processes with failing calls and crashes.
    \<open>Code_Loop_Claims\<close> judges programs by the calls they may make, and shows that work is claimed once, that
    suppressed content never reaches a file, and that a sweep writes back what it read, whatever was stored since.
  \<^item> \<open>Code_Loop_Paths\<close>, \<open>Code_Loop_Request\<close> (\<open>code-loop.ts\<close> and its validators): normal form of paths, globs with the
    language they denote, Git's change list, structural validation, caps, and the harvest of changes with its test of
    paths on disk (\<open>isSafeHarvestPath\<close>): paths stay in the sandbox, admitted requests have usable scopes, and what is returned,
    reported and dropped is exact.
  \<^item> \<open>Learning_Admission\<close> (\<open>learning-task-admission-store.ts\<close>): admission records under three natural keys per
    principal. An exact retry finds its record, a re-bound key is a conflict, and principals do not interact.
  \<^item> \<open>Routing_Lifecycle\<close> (\<open>routing-lifecycle.ts\<close>): review, approval and adoption of a routing table above \<open>Routing_Diff\<close>
    and \<open>Mutation_Lock\<close>. While the adopter keeps its lease, what the file holds after every outcome is exact; a
    reviewed candidate lowers no capability; and an approval does not fix the candidate it was given for.
    \<open>Routing_Generator\<close> (\<open>routing-table-generator.ts\<close>): the choice of routes from the ledger, with the exact
    condition of every route.
  \<^item> \<open>JS_Buffer\<close>, \<open>Multipart\<close> (\<open>multipart.ts\<close>): byte buffers with UTF-8, and the parser of form bodies by byte offsets.
    Parsing what a client builds returns it unchanged; where a part is cut, and what its name is taken from, is
    stated exactly.

  \<^bold>\<open>Parameters.\<close> The SHA-256 digests are arguments (\<open>hash\<close>, \<open>sha\<close>, \<open>key\<close>); nothing is assumed of it, since the
  properties speak of digests and not of the texts behind them. The answers of model backends, file reads and the kill
  probe of a process are arguments, quantified in the properties. SQLite is assumed to run a transaction
  atomically and to enforce its uniqueness constraints, which the insertions of the model do.

  \<^bold>\<open>Not modelled.\<close> The bodies of the HTTP and MCP handlers beyond authorization and metering, streaming, configuration parsing, the command line and the client are
  input and output around these components. The benchmark, calibration, roster, harvest and research parts
  are batch programs over model output, prompts and floating-point statistics. Process inspection, signed
  envelopes and containers are host and cryptographic interfaces. The outcome ledger is reporting
  queries. Migrations of the schema and deletion of old rows are not modelled.

  Of the code loop, the job itself (sandbox, cage, engine and Git processes) is not modelled. The remaining
  constitutional routing (journal, controller and recovery service, which validate signed documents) and retention have
  logic of the same kind as what is modelled and are left out.
\<close>

end
